(* ===== verification/Visa_Prelude.thy ===== *)
theory Visa_Prelude
  imports Complex_Main "HOL-Library.Word" "HOL-Library.Char_ord" "HOL-Library.List_Lexorder"
    "HOL-Library.Product_Lexorder"
begin

text \<open>
  What every theory of the development shares: the names of the basic types, the
  theorem collections that component theories extend, and small facts on lists and
  options. Java values are read as follows: a \<open>Date\<close> is its number of milliseconds since
  the epoch, a reference that the code compares with null is an \<open>option\<close>, a method that
  throws returns a sum whose left side is the error.
\<close>

type_synonym date = int
type_synonym ident = int
type_synonym uuid = string

named_theorems access_simps
named_theorems store_simps
named_theorems service_defs

section \<open>Lists\<close>

text \<open>Enhanced for loops that return the first match are \<^theory_text>\<open>List.find\<close>.\<close>

lemma find_Some_mem: "List.find P xs = Some x \<Longrightarrow> x \<in> set xs \<and> P x"
  by (auto simp: find_Some_iff in_set_conv_nth)

lemma find_is_None_iff: "List.find P xs = None \<longleftrightarrow> (\<forall>x \<in> set xs. \<not> P x)"
  by (auto simp: find_None_iff)

lemma find_not_None_iff: "List.find P xs \<noteq> None \<longleftrightarrow> (\<exists>x \<in> set xs. P x)"
  by (auto simp: find_None_iff)

lemma find_unique:
  assumes "distinct (map f xs)" and "x \<in> set xs"
  shows "List.find (\<lambda>y. f y = f x) xs = Some x"
  using assms by (induction xs) (auto simp: image_iff)

lemma find_append_miss:
  "(\<forall>x \<in> set xs. \<not> P x) \<Longrightarrow> List.find P (xs @ ys) = List.find P ys"
  by (induction xs) auto

lemma filter_eq_Cons_D: "filter P xs = y # ys \<Longrightarrow> y \<in> set xs \<and> P y"
  by (auto simp: filter_eq_Cons_iff)

lemma filter_replace_drop:
  "\<not> P y \<Longrightarrow> filter P (map (\<lambda>x. if x = m then y else x) xs) = filter (\<lambda>x. x \<noteq> m) (filter P xs)"
  by (induction xs) auto

lemma filter_map_disjoint:
  "(\<And>x. P x \<Longrightarrow> \<not> Q x \<and> \<not> Q (f x)) \<Longrightarrow> filter Q (map (\<lambda>x. if P x then f x else x) xs) = filter Q xs"
  by (induction xs) auto

lemma filter_map_off:
  "(\<And>x. P x \<Longrightarrow> \<not> P (f x)) \<Longrightarrow> filter P (map (\<lambda>x. if P x then f x else x) xs) = []"
  by (induction xs) auto

lemma map_change_mem:
  "set ys = {x \<in> set xs. P x} \<Longrightarrow>
     map (\<lambda>x. if x \<in> set ys then f x else x) xs = map (\<lambda>x. if P x then f x else x) xs"
  by (auto intro!: map_cong)

text \<open>Removing the first element that an equality test accepts, as \<open>List.remove(Object)\<close> does.\<close>

fun remove_first :: "('a \<Rightarrow> bool) \<Rightarrow> 'a list \<Rightarrow> 'a list" where
  "remove_first P [] = []"
| "remove_first P (x # xs) = (if P x then xs else x # remove_first P xs)"

lemma remove_first_id: "(\<forall>x \<in> set xs. \<not> P x) \<Longrightarrow> remove_first P xs = xs"
  by (induction xs) auto

lemma set_remove_first_subset: "set (remove_first P xs) \<subseteq> set xs"
  by (induction xs) auto

lemma remove_first_unique:
  assumes "distinct (map f xs)" and "x \<in> set xs"
  shows "set (remove_first (\<lambda>y. f y = f x) xs) = set xs - {x}"
  using assms by (induction xs) (auto simp: image_iff)

section \<open>Options\<close>

lemma option_case_not_None [simp]:
  "(case x of None \<Rightarrow> False | Some y \<Rightarrow> True) \<longleftrightarrow> x \<noteq> None"
  by (cases x) auto

section \<open>Errors\<close>

text \<open>The exceptions that the code throws, catches or lets the libraries throw.\<close>

datatype exn =
    NonUniqueResult
  | NoResult
  | NullPointer
  | CloudException string
  | InstanceActionException string
  | IllegalArgument string
  | RuntimeException string

text \<open>A step that may throw, run only if the previous one returned.\<close>

definition and_then :: "'e + 'a \<Rightarrow> ('a \<Rightarrow> 'e + 'b) \<Rightarrow> 'e + 'b" where
  "and_then r f = (case r of Inl e \<Rightarrow> Inl e | Inr x \<Rightarrow> f x)"

lemma and_then_simps [simp]:
  "and_then (Inl e) f = Inl e"
  "and_then (Inr x) f = f x"
  by (simp_all add: and_then_def)

lemma and_then_Inr: "and_then r f = Inr y \<longleftrightarrow> (\<exists>x. r = Inr x \<and> f x = Inr y)"
  by (cases r) auto

text \<open>A loop whose body may throw: the exception ends it and keeps what was done before.\<close>

fun for_each :: "('a \<Rightarrow> 's \<Rightarrow> 'e option \<times> 's) \<Rightarrow> 'a list \<Rightarrow> 's \<Rightarrow> 'e option \<times> 's" where
  "for_each f [] s = (None, s)"
| "for_each f (x # xs) s =
     (case f x s of (Some e, s') \<Rightarrow> (Some e, s') | (None, s') \<Rightarrow> for_each f xs s')"

lemma for_each_invariant:
  assumes "P s" and "\<And>x s. x \<in> set xs \<Longrightarrow> P s \<Longrightarrow> P (snd (f x s))"
  shows "P (snd (for_each f xs s))"
  using assms
proof (induction xs arbitrary: s)
  case (Cons x xs)
  obtain r s' where f: "f x s = (r, s')" by fastforce
  then have "P s'" using Cons.prems(2) [of x s] Cons.prems(1) by simp
  then show ?case using Cons.IH [of s'] Cons.prems f by (cases r) simp_all
qed simp

text \<open>What a loop does that throws nothing is a fold.\<close>

lemma for_each_fold:
  "(\<And>x s. x \<in> set xs \<Longrightarrow> f x s = (None, g x s)) \<Longrightarrow> for_each f xs s = (None, fold g xs s)"
  by (induction xs arbitrary: s) simp_all

text \<open>A transaction that is left by an exception is rolled back.\<close>

definition transactional :: "('s \<Rightarrow> 'e option \<times> 's) \<Rightarrow> 's \<Rightarrow> 'e option \<times> 's" where
  "transactional f s = (case f s of (Some e, _) \<Rightarrow> (Some e, s) | (None, s') \<Rightarrow> (None, s'))"

lemma transactional_invariant: "P s \<Longrightarrow> P (snd (f s)) \<Longrightarrow> P (snd (transactional f s))"
  by (auto simp: transactional_def split: prod.splits option.splits)

end
