(* ===== verification/Users.thy ===== *)
theory Users
  imports Visa_Prelude
begin

text \<open>
  Users and their roles: the classes Timestampable, Role, UserRole and User of visa-core
  and the listener that stamps entities. The current time, which the code reads with
  \<open>new Date()\<close>, is an argument of every operation that depends on it.
\<close>

section \<open>Timestamps\<close>

record timestampable =
  created_at :: "date option"
  updated_at :: "date option"

definition on_create :: "date \<Rightarrow> 'a timestampable_scheme \<Rightarrow> 'a timestampable_scheme" where
  "on_create now x = x\<lparr>created_at := Some now, updated_at := Some now\<rparr>"

definition on_update :: "date \<Rightarrow> 'a timestampable_scheme \<Rightarrow> 'a timestampable_scheme" where
  "on_update now x = x\<lparr>updated_at := Some now\<rparr>"

section \<open>Roles\<close>

record role =
  role_id :: "ident option"
  role_name :: string
  role_description :: "string option"
  group_created_at :: "date option"
  group_deleted_at :: "date option"

definition ADMIN_ROLE :: string where "ADMIN_ROLE = ''ADMIN''"
definition STAFF_ROLE :: string where "STAFF_ROLE = ''STAFF''"
definition INSTRUMENT_CONTROL_ROLE :: string where "INSTRUMENT_CONTROL_ROLE = ''INSTRUMENT_CONTROL''"
definition INSTRUMENT_SCIENTIST_ROLE :: string where "INSTRUMENT_SCIENTIST_ROLE = ''INSTRUMENT_SCIENTIST''"
definition IT_SUPPORT_ROLE :: string where "IT_SUPPORT_ROLE = ''IT_SUPPORT''"
definition SCIENTIFIC_COMPUTING_ROLE :: string where "SCIENTIFIC_COMPUTING_ROLE = ''SCIENTIFIC_COMPUTING''"
definition GUEST_ROLE :: string where "GUEST_ROLE = ''GUEST''"

lemmas role_names = ADMIN_ROLE_def STAFF_ROLE_def INSTRUMENT_CONTROL_ROLE_def
  INSTRUMENT_SCIENTIST_ROLE_def IT_SUPPORT_ROLE_def SCIENTIFIC_COMPUTING_ROLE_def GUEST_ROLE_def

record user_role =
  ur_role :: role
  ur_expires_at :: "date option"

section \<open>Users\<close>

record employer =
  emp_id :: "ident option"
  emp_name :: string
  emp_town :: string
  emp_country_code :: string

record user =
  user_id :: string
  user_first_name :: string
  user_last_name :: string
  user_email :: "string option"
  user_affiliation :: "employer option"
  user_roles :: "user_role list"
  user_last_seen_at :: "date option"
  user_activated_at :: "date option"
  user_instance_quota :: int

definition user_equals :: "user \<Rightarrow> user \<Rightarrow> bool" where
  "user_equals u v \<longleftrightarrow> user_id u = user_id v"

definition getFullName :: "user \<Rightarrow> string" where
  "getFullName u = user_first_name u @ '' '' @ user_last_name u"

definition getActiveUserRoles :: "date \<Rightarrow> user \<Rightarrow> user_role list" where
  "getActiveUserRoles now u =
     filter (\<lambda>ur. case ur_expires_at ur of None \<Rightarrow> True | Some t \<Rightarrow> t > now)
       (filter (\<lambda>ur. group_deleted_at (ur_role ur) = None)
         (filter (\<lambda>ur. group_created_at (ur_role ur) = None) (user_roles u)))"

definition getRoles :: "date \<Rightarrow> user \<Rightarrow> role list" where
  "getRoles now u = map ur_role (getActiveUserRoles now u)"

definition getGroups :: "user \<Rightarrow> role list" where
  "getGroups u =
     filter (\<lambda>r. group_deleted_at r = None)
       (filter (\<lambda>r. group_created_at r \<noteq> None) (map ur_role (user_roles u)))"

definition hasRole :: "date \<Rightarrow> user \<Rightarrow> string \<Rightarrow> bool" where
  "hasRole now u target \<longleftrightarrow> list_ex (\<lambda>r. role_name r = target) (getRoles now u)"

definition hasAnyRole :: "date \<Rightarrow> user \<Rightarrow> string list \<Rightarrow> bool" where
  "hasAnyRole now u targets \<longleftrightarrow> list_ex (hasRole now u) targets"

definition findRole :: "user \<Rightarrow> string \<Rightarrow> user_role option" where
  "findRole u target = List.find (\<lambda>ur. role_name (ur_role ur) = target) (user_roles u)"

text \<open>The role found is changed in place: the first one of that name.\<close>

fun set_first_expiry :: "string \<Rightarrow> date option \<Rightarrow> user_role list \<Rightarrow> user_role list" where
  "set_first_expiry n e [] = []"
| "set_first_expiry n e (ur # urs) =
     (if role_name (ur_role ur) = n then ur\<lparr>ur_expires_at := e\<rparr> # urs
      else ur # set_first_expiry n e urs)"

definition addRole :: "user \<Rightarrow> role \<Rightarrow> date option \<Rightarrow> user" where
  "addRole u r e =
     (case findRole u (role_name r) of
        Some _ \<Rightarrow> u\<lparr>user_roles := set_first_expiry (role_name r) e (user_roles u)\<rparr>
      | None \<Rightarrow> u\<lparr>user_roles := user_roles u @ [\<lparr>ur_role = r, ur_expires_at = e\<rparr>]\<rparr>)"

definition removeRole :: "user \<Rightarrow> role \<Rightarrow> user" where
  "removeRole u r =
     (case findRole u (role_name r) of
        Some _ \<Rightarrow> u\<lparr>user_roles :=
          remove_first (\<lambda>ur. role_name (ur_role ur) = role_name r) (user_roles u)\<rparr>
      | None \<Rightarrow> u)"

section \<open>Facts\<close>

definition active_at :: "date \<Rightarrow> user_role \<Rightarrow> bool" where
  "active_at now ur \<longleftrightarrow>
     group_created_at (ur_role ur) = None \<and> group_deleted_at (ur_role ur) = None \<and>
     (case ur_expires_at ur of None \<Rightarrow> True | Some t \<Rightarrow> t > now)"

lemma hasRole_iff [access_simps]:
  "hasRole now u n \<longleftrightarrow> (\<exists>ur \<in> set (user_roles u). active_at now ur \<and> role_name (ur_role ur) = n)"
  by (auto simp: hasRole_def getRoles_def getActiveUserRoles_def active_at_def list_ex_iff)

lemma hasAnyRole_iff [access_simps]:
  "hasAnyRole now u ns \<longleftrightarrow> (\<exists>n \<in> set ns. hasRole now u n)"
  by (simp add: hasAnyRole_def list_ex_iff)

lemma user_equals_refl [simp]: "user_equals u u"
  by (simp add: user_equals_def)

lemma user_equals_sym: "user_equals u v \<longleftrightarrow> user_equals v u"
  by (auto simp: user_equals_def)

lemma user_equals_trans: "user_equals u v \<Longrightarrow> user_equals v w \<Longrightarrow> user_equals u w"
  by (simp add: user_equals_def)

lemma set_first_expiry_names [simp]:
  "map (\<lambda>ur. role_name (ur_role ur)) (set_first_expiry n e urs) = map (\<lambda>ur. role_name (ur_role ur)) urs"
  by (induction urs) auto

lemma set_first_expiry_mem:
  "n \<in> (\<lambda>ur. role_name (ur_role ur)) ` set urs \<Longrightarrow>
     \<exists>ur \<in> set urs. role_name (ur_role ur) = n \<and>
       ur\<lparr>ur_expires_at := e\<rparr> \<in> set (set_first_expiry n e urs)"
  by (induction urs) auto

lemma set_first_expiry_other:
  "role_name (ur_role ur) \<noteq> n \<Longrightarrow> ur \<in> set (set_first_expiry n e urs) \<longleftrightarrow> ur \<in> set urs"
  by (induction urs) auto

lemma removeRole_roles:
  "user_roles (removeRole u r) =
     remove_first (\<lambda>ur. role_name (ur_role ur) = role_name r) (user_roles u)"
  by (auto simp: removeRole_def findRole_def find_is_None_iff split: option.splits
      intro: remove_first_id [symmetric])

lemma remove_first_names:
  "distinct (map (\<lambda>ur. role_name (ur_role ur)) urs) \<Longrightarrow>
     set (remove_first (\<lambda>ur. role_name (ur_role ur) = n) urs)
       = {ur \<in> set urs. role_name (ur_role ur) \<noteq> n}"
  by (induction urs) (auto simp: image_iff)

text \<open>Adding and removing a role keeps the names of a user's roles distinct.\<close>

definition role_names_distinct :: "user \<Rightarrow> bool" where
  "role_names_distinct u \<longleftrightarrow> distinct (map (\<lambda>ur. role_name (ur_role ur)) (user_roles u))"

lemma distinct_remove_first:
  "distinct (map f xs) \<Longrightarrow> distinct (map f (remove_first P xs))"
  using set_remove_first_subset by (induction xs) fastforce+

lemma addRole_distinct: "role_names_distinct u \<Longrightarrow> role_names_distinct (addRole u r e)"
  by (auto simp: role_names_distinct_def addRole_def findRole_def find_is_None_iff split: option.splits)

lemma removeRole_distinct: "role_names_distinct u \<Longrightarrow> role_names_distinct (removeRole u r)"
  by (simp add: role_names_distinct_def removeRole_roles distinct_remove_first)

lemma hasRole_removeRole:
  assumes "role_names_distinct u"
  shows "hasRole now (removeRole u r) n \<longleftrightarrow> n \<noteq> role_name r \<and> hasRole now u n"
  using assms
  by (auto simp: hasRole_iff removeRole_roles remove_first_names role_names_distinct_def)

text \<open>
  Adding a role changes no other role, and gives the role until the expiry passed, also
  when the user had it with another expiry. The user's entry of that name must be for an
  ordinary role: an entry for a group of that name would only have its expiry changed.
\<close>

lemma addRole_other:
  "n \<noteq> role_name r \<Longrightarrow> hasRole now (addRole u r e) n \<longleftrightarrow> hasRole now u n"
  by (auto simp: hasRole_iff addRole_def set_first_expiry_other split: option.splits)

lemma addRole_gives:
  assumes "active_at now \<lparr>ur_role = r, ur_expires_at = e\<rparr>"
    and "\<forall>ur \<in> set (user_roles u). role_name (ur_role ur) = role_name r \<longrightarrow> ur_role ur = r"
  shows "hasRole now (addRole u r e) (role_name r)"
proof (cases "findRole u (role_name r)")
  case None
  then show ?thesis using assms(1) by (auto simp: hasRole_iff addRole_def)
next
  case (Some x)
  then have "role_name r \<in> (\<lambda>ur. role_name (ur_role ur)) ` set (user_roles u)"
    by (force simp: findRole_def dest!: find_Some_mem)
  then obtain ur where "ur \<in> set (user_roles u)" "role_name (ur_role ur) = role_name r"
    and m: "ur\<lparr>ur_expires_at := e\<rparr> \<in> set (set_first_expiry (role_name r) e (user_roles u))"
    using set_first_expiry_mem by blast
  with assms have "active_at now (ur\<lparr>ur_expires_at := e\<rparr>)"
    and "role_name (ur_role (ur\<lparr>ur_expires_at := e\<rparr>)) = role_name r"
    by (auto simp: active_at_def)
  with m Some show ?thesis by (auto simp: hasRole_iff addRole_def)
qed

end
