(* ===== verification/Catalogue.thy ===== *)
theory Catalogue
  imports Users
begin

text \<open>
  What an instance is made of and made for: cloud configurations, images with their
  protocols, flavours, plans, instruments, proposals, experiments and security groups
  (the entity classes of visa-core), with the conversions between a cloud configuration
  and the identifier of its cloud client.
\<close>

section \<open>Clouds, images, flavours and plans\<close>

record cloud_provider_configuration = timestampable +
  cpc_id :: ident
  cpc_type :: string
  cpc_name :: string
  cpc_server_name_prefix :: string
  cpc_visible :: bool
  cpc_parameters :: "(string \<times> string) list"
  cpc_deleted_at :: "date option"

record image_protocol =
  ip_id :: "ident option"
  ip_name :: string
  ip_port :: int
  ip_optional :: bool

record image = timestampable +
  img_id :: "ident option"
  img_name :: string
  img_description :: "string option"
  img_icon :: "string option"
  img_compute_id :: string
  img_version :: "string option"
  img_deleted :: bool
  img_visible :: bool
  img_boot_command :: "string option"
  img_autologin :: "string option"
  img_protocols :: "image_protocol list"
  img_cloud :: "cloud_provider_configuration option"

definition image_cloud_id :: "image \<Rightarrow> ident option" where
  "image_cloud_id im = (case img_cloud im of None \<Rightarrow> None | Some c \<Rightarrow> Some (cpc_id c))"

record flavour = timestampable +
  fl_id :: "ident option"
  fl_name :: string
  fl_memory :: int
  fl_cpu :: rat
  fl_compute_id :: string
  fl_deleted :: bool
  fl_cloud :: "cloud_provider_configuration option"

definition flavour_cloud_id :: "flavour \<Rightarrow> ident option" where
  "flavour_cloud_id f = (case fl_cloud f of None \<Rightarrow> None | Some c \<Rightarrow> Some (cpc_id c))"

record plan = timestampable +
  plan_id :: "ident option"
  plan_image :: image
  plan_flavour :: flavour
  plan_preset :: bool
  plan_deleted_at :: "date option"

definition plan_cloud_id :: "plan \<Rightarrow> ident option" where
  "plan_cloud_id p = image_cloud_id (plan_image p)"

definition plan_set_deleted :: "date \<Rightarrow> bool \<Rightarrow> plan \<Rightarrow> plan" where
  "plan_set_deleted now v p = p\<lparr>plan_deleted_at := (if v then Some now else None)\<rparr>"

section \<open>Instruments, proposals and experiments\<close>

record instrument =
  instr_id :: ident
  instr_name :: string
  instr_scientists :: "user list"

record proposal =
  prop_id :: ident
  prop_identifier :: string
  prop_title :: string
  prop_public_at :: "date option"
  prop_summary :: "string option"
  prop_url :: "string option"
  prop_doi :: "string option"

record experiment_entity =
  exp_id :: string
  exp_instrument :: instrument
  exp_proposal :: proposal
  exp_title :: string
  exp_url :: "string option"
  exp_doi :: "string option"
  exp_start_date :: "date option"
  exp_end_date :: "date option"

definition experiment_equals :: "experiment_entity \<Rightarrow> experiment_entity \<Rightarrow> bool" where
  "experiment_equals a b \<longleftrightarrow> exp_id a = exp_id b"

section \<open>Security groups\<close>

record security_group =
  sg_id :: "ident option"
  sg_name :: string
  sg_cloud :: "cloud_provider_configuration option"

definition hasSameCloudClientId :: "ident option \<Rightarrow> security_group \<Rightarrow> bool" where
  "hasSameCloudClientId cid sg =
     (case sg_cloud sg of
        None \<Rightarrow> cid = None \<or> cid = Some (-1)
      | Some c \<Rightarrow> cid = Some (cpc_id c))"

record security_group_filter =
  sgf_id :: "ident option"
  sgf_object_id :: ident
  sgf_object_type :: string
  sgf_group :: security_group

end
