(* ===== verification/Instances.thy ===== *)
theory Instances
  imports Catalogue
begin

text \<open>
  Instances and the records that hang on them: members, commands, expirations, sessions,
  tokens, extension requests and activities, with the operations of the classes Instance
  and InstanceMember of visa-core. Equality of entities is that of their equals methods,
  by identifier. A getter or setter of the classes is a selector or an update of the record.
\<close>

section \<open>Enumerations\<close>

datatype instance_state =
    ACTIVE | PARTIALLY_ACTIVE | BUILDING | DELETED | DELETING | ERROR | STARTING
  | STOPPED | STOPPING | REBOOTING | UNAVAILABLE | UNKNOWN

datatype command_state = PENDING | QUEUED | RUNNING | TERMINATED | FAILED | CANCELLED

datatype command_type =
    CREATE | START | REBOOT | SHUTDOWN | DELETE | STATE | UPDATE_SECURITY_GROUPS

datatype member_role = OWNER | USER | GUEST | SUPPORT

datatype extension_state = EXT_PENDING | EXT_ACCEPTED | EXT_REFUSED

datatype activity_type = MOUSE | KEYBOARD | MOUSE_AND_KEYBOARD

section \<open>Members\<close>

record instance_member = timestampable +
  mem_id :: "ident option"
  mem_user :: user
  mem_role :: member_role

definition isUser :: "user \<Rightarrow> instance_member \<Rightarrow> bool" where
  "isUser u m \<longleftrightarrow> user_equals (mem_user m) u"

definition isRole :: "member_role \<Rightarrow> instance_member \<Rightarrow> bool" where
  "isRole r m \<longleftrightarrow> mem_role m = r"

definition member_equals :: "instance_member \<Rightarrow> instance_member \<Rightarrow> bool" where
  "member_equals a b \<longleftrightarrow> mem_id a = mem_id b"

definition new_member :: "user \<Rightarrow> member_role \<Rightarrow> instance_member" where
  "new_member u r =
     \<lparr>created_at = None, updated_at = None, mem_id = None, mem_user = u, mem_role = r\<rparr>"

section \<open>Instances\<close>

record instance_attribute =
  attr_name :: string
  attr_value :: "string option"

record inst = timestampable +
  inst_id :: "ident option"
  uid :: string
  compute_id :: "string option"
  inst_name :: string
  comments :: "string option"
  inst_plan :: plan
  username :: "string option"
  ip_address :: "string option"
  state :: instance_state
  screen_width :: int
  screen_height :: int
  last_seen_at :: "date option"
  last_interaction_at :: "date option"
  termination_date :: "date option"
  deleted_at :: "date option"
  delete_requested :: bool
  unrestricted_member_access :: "date option"
  members :: "instance_member list"
  experiments :: "experiment_entity list"
  attributes :: "instance_attribute list"
  keyboard_layout :: string
  security_groups :: "string list"
  active_protocols :: "string list"

definition inst_equals :: "inst \<Rightarrow> inst \<Rightarrow> bool" where
  "inst_equals i j \<longleftrightarrow> inst_id i = inst_id j"

definition getDeleted :: "inst \<Rightarrow> bool" where
  "getDeleted i \<longleftrightarrow> deleted_at i \<noteq> None"

definition setDeleted :: "date \<Rightarrow> bool \<Rightarrow> inst \<Rightarrow> inst" where
  "setDeleted now d i = i\<lparr>deleted_at := (if d then Some now else None)\<rparr>"

definition updateLastSeenAt :: "date \<Rightarrow> inst \<Rightarrow> inst" where
  "updateLastSeenAt now i = i\<lparr>last_seen_at := Some now\<rparr>"

text \<open>The code writes \<open>lastSeenAt\<close> here too, not \<open>lastInteractionAt\<close>.\<close>

definition updateLastInteractionAt :: "date \<Rightarrow> inst \<Rightarrow> inst" where
  "updateLastInteractionAt now i = i\<lparr>last_seen_at := Some now\<rparr>"

definition canAccessWhenOwnerAway :: "inst \<Rightarrow> bool" where
  "canAccessWhenOwnerAway i \<longleftrightarrow> unrestricted_member_access i \<noteq> None"

definition getMemberWithRole :: "user \<Rightarrow> member_role \<Rightarrow> inst \<Rightarrow> instance_member option" where
  "getMemberWithRole u r i = List.find (\<lambda>m. isUser u m \<and> isRole r m) (members i)"

definition getMember :: "user \<Rightarrow> inst \<Rightarrow> instance_member option" where
  "getMember u i = List.find (isUser u) (members i)"

definition getOwner :: "inst \<Rightarrow> instance_member option" where
  "getOwner i = List.find (isRole OWNER) (members i)"

definition addMember :: "instance_member \<Rightarrow> inst \<Rightarrow> instance_member \<times> inst" where
  "addMember m i =
     (case getMemberWithRole (mem_user m) (mem_role m) i of
        Some a \<Rightarrow> (a, i)
      | None \<Rightarrow> (m, i\<lparr>members := members i @ [m]\<rparr>))"

definition removeMember :: "instance_member \<Rightarrow> inst \<Rightarrow> inst" where
  "removeMember m i =
     (case getMemberWithRole (mem_user m) (mem_role m) i of
        Some a \<Rightarrow> i\<lparr>members := remove_first (member_equals a) (members i)\<rparr>
      | None \<Rightarrow> i)"

definition isMemberWithRole :: "user \<Rightarrow> member_role \<Rightarrow> inst \<Rightarrow> bool" where
  "isMemberWithRole u r i \<longleftrightarrow> list_ex (\<lambda>m. isUser u m \<and> isRole r m) (members i)"

definition isMemberOf :: "instance_member \<Rightarrow> inst \<Rightarrow> bool" where
  "isMemberOf m i \<longleftrightarrow> getMemberWithRole (mem_user m) (mem_role m) i \<noteq> None"

definition isMember :: "user \<Rightarrow> inst \<Rightarrow> bool" where
  "isMember u i \<longleftrightarrow> list_ex (isUser u) (members i)"

definition isOwner :: "user \<Rightarrow> inst \<Rightarrow> bool" where
  "isOwner u i \<longleftrightarrow> list_ex (\<lambda>m. isUser u m \<and> isRole OWNER m) (members i)"

definition createMember :: "user \<Rightarrow> member_role \<Rightarrow> inst \<Rightarrow> instance_member \<times> inst" where
  "createMember u r i = (let m = new_member u r in (m, snd (addMember m i)))"

definition addExperiment :: "experiment_entity \<Rightarrow> inst \<Rightarrow> inst" where
  "addExperiment e i = i\<lparr>experiments := experiments i @ [e]\<rparr>"

definition removeExperiment :: "experiment_entity \<Rightarrow> inst \<Rightarrow> inst" where
  "removeExperiment e i = i\<lparr>experiments := remove_first (experiment_equals e) (experiments i)\<rparr>"

definition hasAnyState :: "instance_state list \<Rightarrow> inst \<Rightarrow> bool" where
  "hasAnyState ss i \<longleftrightarrow> list_ex (\<lambda>s. state i = s) ss"

definition getCloudId :: "inst \<Rightarrow> ident option" where
  "getCloudId i = plan_cloud_id (inst_plan i)"

text \<open>What the builder of an instance has collected, and the instance it builds.\<close>

record inst_builder =
  b_uid :: string
  b_name :: string
  b_comments :: "string option"
  b_plan :: plan
  b_username :: "string option"
  b_state :: instance_state
  b_screen_width :: int
  b_screen_height :: int
  b_members :: "instance_member list"
  b_experiments :: "experiment_entity list"
  b_last_seen_at :: "date option"
  b_keyboard_layout :: string
  b_attributes :: "instance_attribute list"

definition build_inst :: "date \<Rightarrow> inst_builder \<Rightarrow> inst" where
  "build_inst now b =
     \<lparr>created_at = None, updated_at = None, inst_id = None, uid = b_uid b, compute_id = None,
      inst_name = b_name b, comments = b_comments b, inst_plan = b_plan b,
      username = b_username b, ip_address = None, state = b_state b,
      screen_width = b_screen_width b, screen_height = b_screen_height b,
      last_seen_at = b_last_seen_at b, last_interaction_at = Some now,
      termination_date = None, deleted_at = None, delete_requested = False,
      unrestricted_member_access = None, members = b_members b,
      experiments = b_experiments b, attributes = b_attributes b,
      keyboard_layout = b_keyboard_layout b, security_groups = [], active_protocols = []\<rparr>"

section \<open>Records that refer to an instance\<close>

record command = timestampable +
  cmd_id :: "ident option"
  cmd_user :: "user option"
  cmd_inst :: inst
  cmd_type :: command_type
  cmd_state :: command_state
  cmd_message :: "string option"

definition new_command :: "user option \<Rightarrow> inst \<Rightarrow> command_type \<Rightarrow> command" where
  "new_command u i t =
     \<lparr>created_at = None, updated_at = None, cmd_id = None, cmd_user = u, cmd_inst = i,
      cmd_type = t, cmd_state = PENDING, cmd_message = None\<rparr>"

definition command_equals :: "command \<Rightarrow> command \<Rightarrow> bool" where
  "command_equals a b \<longleftrightarrow>
     map_option user_id (cmd_user a) = map_option user_id (cmd_user b) \<and>
     inst_equals (cmd_inst a) (cmd_inst b) \<and> cmd_type a = cmd_type b \<and> cmd_state a = cmd_state b"

text \<open>The rows below refer to their instance by the identifier in their foreign key.\<close>

record expiration = timestampable +
  ie_id :: "ident option"
  ie_inst :: ident
  ie_date :: date

record session = timestampable +
  ses_id :: "ident option"
  ses_connection_id :: string
  ses_inst :: ident
  ses_current :: bool

record session_member = timestampable +
  sm_id :: "ident option"
  sm_session :: ident
  sm_session_id :: uuid
  sm_user :: user
  sm_role :: string
  sm_active :: bool
  sm_last_seen_at :: "date option"
  sm_last_interaction_at :: "date option"

record jupyter_session = timestampable +
  js_id :: "ident option"
  js_inst :: ident
  js_user :: user
  js_kernel_id :: string
  js_session_id :: string
  js_active :: bool

record auth_token = timestampable +
  at_id :: "ident option"
  at_token :: string
  at_user :: user
  at_inst :: ident

record extension_request = timestampable +
  er_id :: "ident option"
  er_inst :: ident
  er_comments :: "string option"
  er_handler :: "user option"
  er_handled_on :: "date option"
  er_handler_comments :: "string option"
  er_original_termination_date :: "date option"
  er_extension_date :: "date option"
  er_state :: extension_state

record activity = timestampable +
  act_id :: "ident option"
  act_user :: user
  act_inst :: ident
  act_type :: activity_type

section \<open>Facts on members\<close>

lemma cmd_inst_stamps [simp]:
  "cmd_inst (c\<lparr>created_at := a\<rparr>) = cmd_inst c" "cmd_inst (c\<lparr>updated_at := a\<rparr>) = cmd_inst c"
  by (cases c; simp)+


lemma isMember_iff [access_simps]:
  "isMember u i \<longleftrightarrow> (\<exists>m \<in> set (members i). user_id (mem_user m) = user_id u)"
  by (simp add: isMember_def list_ex_iff isUser_def user_equals_def)

lemma isOwner_iff [access_simps]:
  "isOwner u i \<longleftrightarrow> (\<exists>m \<in> set (members i). user_id (mem_user m) = user_id u \<and> mem_role m = OWNER)"
  by (simp add: isOwner_def list_ex_iff isUser_def isRole_def user_equals_def)

lemma isMemberWithRole_iff [access_simps]:
  "isMemberWithRole u r i \<longleftrightarrow>
     (\<exists>m \<in> set (members i). user_id (mem_user m) = user_id u \<and> mem_role m = r)"
  by (simp add: isMemberWithRole_def list_ex_iff isUser_def isRole_def user_equals_def)

lemma isOwner_isMember: "isOwner u i \<Longrightarrow> isMember u i"
  by (auto simp: access_simps)

lemma getMemberWithRole_None:
  "getMemberWithRole u r i = None \<longleftrightarrow> \<not> isMemberWithRole u r i"
  by (auto simp: getMemberWithRole_def find_is_None_iff isMemberWithRole_def list_ex_iff)

lemma getMemberWithRole_Some:
  "getMemberWithRole u r i = Some m \<Longrightarrow>
     m \<in> set (members i) \<and> user_id (mem_user m) = user_id u \<and> mem_role m = r"
  by (auto simp: getMemberWithRole_def isUser_def isRole_def user_equals_def dest!: find_Some_mem)

text \<open>
  The members of an instance are well formed when no user has a role twice. The key of a
  membership is the user's identifier with the role.
\<close>

definition member_key :: "instance_member \<Rightarrow> string \<times> member_role" where
  "member_key m = (user_id (mem_user m), mem_role m)"

definition members_wf :: "inst \<Rightarrow> bool" where
  "members_wf i \<longleftrightarrow> distinct (map member_key (members i))"

definition members_saved :: "inst \<Rightarrow> bool" where
  "members_saved i \<longleftrightarrow> distinct (map mem_id (members i))"

lemma isMemberWithRole_key:
  "isMemberWithRole u r i \<longleftrightarrow> (user_id u, r) \<in> member_key ` set (members i)"
  by (force simp: access_simps member_key_def)

lemma addMember_wf: "members_wf i \<Longrightarrow> members_wf (snd (addMember m i))"
  by (auto simp: addMember_def members_wf_def getMemberWithRole_None isMemberWithRole_key
      member_key_def split: option.splits)

lemma addMember_isMemberWithRole:
  "isMemberWithRole u r (snd (addMember m i)) \<longleftrightarrow>
     isMemberWithRole u r i \<or> (user_id u, r) = member_key m"
proof (cases "getMemberWithRole (mem_user m) (mem_role m) i")
  case None
  then show ?thesis by (auto simp: addMember_def isMemberWithRole_key)
next
  case (Some a)
  then have "member_key m \<in> member_key ` set (members i)"
    by (metis getMemberWithRole_None isMemberWithRole_key member_key_def option.distinct(1))
  then show ?thesis using Some by (auto simp: addMember_def isMemberWithRole_key)
qed

lemma addMember_again: "addMember m' (snd (addMember m i)) = (a, j) \<Longrightarrow> member_key m' = member_key m \<Longrightarrow>
    j = snd (addMember m i)"
proof -
  assume a: "addMember m' (snd (addMember m i)) = (a, j)" and k: "member_key m' = member_key m"
  have "isMemberWithRole (mem_user m') (mem_role m') (snd (addMember m i))"
    using k by (simp add: addMember_isMemberWithRole member_key_def)
  then show ?thesis using a
    using getMemberWithRole_None [of "mem_user m'" "mem_role m'" "snd (addMember m i)"]
    by (auto simp: addMember_def [of m'] split: option.splits)
qed

text \<open>
  Removing a member looks for the user and the role, then removes the first member with
  the same identifier: with distinct identifiers that is exactly the member found.
\<close>

lemma removeMember_set:
  assumes "members_wf i" and "members_saved i"
  shows "set (members (removeMember m i)) = {x \<in> set (members i). member_key x \<noteq> member_key m}"
proof (cases "getMemberWithRole (mem_user m) (mem_role m) i")
  case None
  then have "removeMember m i = i" by (simp add: removeMember_def)
  then show ?thesis using None
    by (auto simp: getMemberWithRole_None isMemberWithRole_key member_key_def image_iff)
next
  case (Some a)
  then have a: "a \<in> set (members i)" "member_key a = member_key m"
    by (auto dest!: getMemberWithRole_Some simp: member_key_def)
  have "set (remove_first (\<lambda>y. mem_id y = mem_id a) (members i)) = set (members i) - {a}"
    using remove_first_unique [of mem_id "members i" a] assms(2) a(1) by (simp add: members_saved_def)
  moreover have "member_equals a = (\<lambda>y. mem_id y = mem_id a)"
    by (auto simp: member_equals_def)
  moreover have "x = a" if "x \<in> set (members i)" "member_key x = member_key m" for x
    using assms(1) that a by (metis members_wf_def distinct_map inj_onD)
  ultimately show ?thesis using Some a(2) by (auto simp: removeMember_def)
qed

lemma removeMember_wf: "members_wf i \<Longrightarrow> members_wf (removeMember m i)"
  by (auto simp: removeMember_def members_wf_def distinct_remove_first split: option.splits)

lemma removeMember_saved: "members_saved i \<Longrightarrow> members_saved (removeMember m i)"
  by (auto simp: removeMember_def members_saved_def distinct_remove_first split: option.splits)

lemma removeMember_isMemberWithRole:
  assumes "members_wf i" and "members_saved i"
  shows "isMemberWithRole u r (removeMember m i) \<longleftrightarrow>
    isMemberWithRole u r i \<and> (user_id u, r) \<noteq> member_key m"
  by (auto simp: isMemberWithRole_key removeMember_set [OF assms])

lemma getOwner_Some: "getOwner i = Some m \<Longrightarrow> m \<in> set (members i) \<and> mem_role m = OWNER"
  by (auto simp: getOwner_def isRole_def dest!: find_Some_mem)

lemma getOwner_None: "getOwner i = None \<longleftrightarrow> (\<forall>u. \<not> isOwner u i)"
  by (auto simp: getOwner_def find_is_None_iff isRole_def access_simps)

end
