(* ===== verification/Store.thy ===== *)
theory Store
  imports Instances
begin

text \<open>
  The database behind the repositories of visa-persistence. A table holds its rows in the
  order they were stored and the identifier the next row gets; \<open>save\<close> of a repository
  persists an entity without identifier and merges one with an identifier, \<open>remove\<close> of
  the base repository drops a row. The contract of a repository is the locale \<open>entity\<close>,
  interpreted for every entity the model stores.
\<close>

section \<open>Tables\<close>

record 'a table =
  rows :: "'a list"
  next_id :: ident

definition find_row :: "('a \<Rightarrow> ident option) \<Rightarrow> ident \<Rightarrow> 'a table \<Rightarrow> 'a option" where
  "find_row gid n t = List.find (\<lambda>r. gid r = Some n) (rows t)"

definition persist_row ::
    "(ident \<Rightarrow> 'a \<Rightarrow> 'a) \<Rightarrow> (date \<Rightarrow> 'a \<Rightarrow> 'a) \<Rightarrow> date \<Rightarrow> 'a \<Rightarrow> 'a table \<Rightarrow> 'a \<times> 'a table" where
  "persist_row pid cre now x t =
     (let x' = pid (next_id t) (cre now x)
      in (x', t\<lparr>rows := rows t @ [x'], next_id := next_id t + 1\<rparr>))"

definition merge_row ::
    "('a \<Rightarrow> ident option) \<Rightarrow> (date \<Rightarrow> 'a \<Rightarrow> 'a) \<Rightarrow> date \<Rightarrow> 'a \<Rightarrow> 'a table \<Rightarrow> 'a \<times> 'a table" where
  "merge_row gid upd now x t =
     (let x' = upd now x
      in (x', t\<lparr>rows := map (\<lambda>r. if gid r = gid x then x' else r) (rows t)\<rparr>))"

text \<open>Merging an entity whose row is gone stores a copy of it as a new row.\<close>

definition save_row ::
    "('a \<Rightarrow> ident option) \<Rightarrow> (ident \<Rightarrow> 'a \<Rightarrow> 'a) \<Rightarrow> (date \<Rightarrow> 'a \<Rightarrow> 'a) \<Rightarrow> (date \<Rightarrow> 'a \<Rightarrow> 'a) \<Rightarrow>
     date \<Rightarrow> 'a \<Rightarrow> 'a table \<Rightarrow> 'a \<times> 'a table" where
  "save_row gid pid cre upd now x t =
     (case gid x of
        None \<Rightarrow> persist_row pid cre now x t
      | Some n \<Rightarrow> (case find_row gid n t of
          None \<Rightarrow> persist_row pid cre now x t
        | Some _ \<Rightarrow> merge_row gid upd now x t))"

definition remove_row :: "('a \<Rightarrow> ident option) \<Rightarrow> 'a \<Rightarrow> 'a table \<Rightarrow> 'a table" where
  "remove_row gid x t = t\<lparr>rows := filter (\<lambda>r. gid r \<noteq> gid x) (rows t)\<rparr>"

definition table_ok :: "('a \<Rightarrow> ident option) \<Rightarrow> 'a table \<Rightarrow> bool" where
  "table_ok gid t \<longleftrightarrow>
     distinct (map gid (rows t)) \<and> (\<forall>r \<in> set (rows t). \<exists>n. gid r = Some n \<and> n < next_id t)"

section \<open>The contract of an entity\<close>

locale entity =
  fixes gid :: "'a \<Rightarrow> ident option"
    and pid :: "ident \<Rightarrow> 'a \<Rightarrow> 'a"
    and cre :: "date \<Rightarrow> 'a \<Rightarrow> 'a"
    and upd :: "date \<Rightarrow> 'a \<Rightarrow> 'a"
  assumes gid_pid: "gid (pid n x) = Some n"
    and gid_cre: "gid (cre d x) = gid x"
    and gid_upd: "gid (upd d x) = gid x"
begin

lemma table_ok_empty: "table_ok gid \<lparr>rows = [], next_id = n\<rparr>"
  by (simp add: table_ok_def)

lemma find_row_id: "find_row gid n t = Some x \<Longrightarrow> gid x = Some n \<and> x \<in> set (rows t)"
  by (auto simp: find_row_def dest!: find_Some_mem)

lemma find_row_mem:
  "table_ok gid t \<Longrightarrow> x \<in> set (rows t) \<Longrightarrow> gid x = Some n \<Longrightarrow> find_row gid n t = Some x"
  using find_unique [of gid "rows t" x] by (simp add: find_row_def table_ok_def)

lemma ids_merge: "gid x = k \<Longrightarrow> map gid (map (\<lambda>r. if gid r = k then upd d x else r) rs) = map gid rs"
  by (induction rs) (auto simp: gid_upd)

lemma table_ok_fresh: "table_ok gid t \<Longrightarrow> r \<in> set (rows t) \<Longrightarrow> gid r \<noteq> Some (next_id t)"
  by (fastforce simp: table_ok_def)

lemma persist_ok: "table_ok gid t \<Longrightarrow> table_ok gid (snd (persist_row pid cre d x t))"
proof -
  assume ok: "table_ok gid t"
  then have "Some (next_id t) \<notin> gid ` set (rows t)" using table_ok_fresh by fastforce
  then show ?thesis using ok by (fastforce simp: table_ok_def persist_row_def Let_def gid_pid)
qed

lemma merge_ok:
  assumes ok: "table_ok gid t" and x: "gid x = Some n" and y: "find_row gid n t = Some y"
  shows "table_ok gid (snd (merge_row gid upd d x t))"
proof -
  have n: "n < next_id t" using ok find_row_id [OF y] by (fastforce simp: table_ok_def)
  let ?rs = "map (\<lambda>r. if gid r = gid x then upd d x else r) (rows t)"
  have "map gid ?rs = map gid (rows t)" by (rule ids_merge) simp
  then have "distinct (map gid ?rs)" using ok by (metis table_ok_def)
  moreover have "\<forall>r \<in> set ?rs. \<exists>n. gid r = Some n \<and> n < next_id t"
    using ok n x by (auto simp: table_ok_def gid_upd)
  ultimately show ?thesis by (simp add: table_ok_def merge_row_def Let_def)
qed

lemma save_ok: "table_ok gid t \<Longrightarrow> table_ok gid (snd (save_row gid pid cre upd d x t))"
  by (auto simp: save_row_def persist_ok split: option.splits intro: merge_ok)

lemma remove_ok: "table_ok gid t \<Longrightarrow> table_ok gid (remove_row gid x t)"
  by (auto simp: table_ok_def remove_row_def distinct_map_filter)

lemma find_row_persist:
  "n \<noteq> next_id t \<Longrightarrow> find_row gid n (snd (persist_row pid cre d x t)) = find_row gid n t"
proof -
  assume n: "n \<noteq> next_id t"
  have "List.find (\<lambda>r. gid r = Some n) (rs @ [pid (next_id t) (cre d x)])
      = List.find (\<lambda>r. gid r = Some n) rs" for rs
    using n by (induction rs) (auto simp: gid_pid)
  then show ?thesis by (simp add: find_row_def persist_row_def Let_def)
qed

lemma find_row_merge_other:
  "gid x \<noteq> Some n \<Longrightarrow> find_row gid n (snd (merge_row gid upd d x t)) = find_row gid n t"
proof -
  assume a: "gid x \<noteq> Some n"
  have "List.find (\<lambda>r. gid r = Some n) (map (\<lambda>r. if gid r = gid x then upd d x else r) rs)
      = List.find (\<lambda>r. gid r = Some n) rs" for rs
    by (induction rs) (auto simp: gid_upd a a [symmetric])
  then show ?thesis by (simp add: find_row_def merge_row_def Let_def)
qed

text \<open>What a save stored is what a lookup of its identifier returns.\<close>

lemma save_row_mem:
  assumes "save_row gid pid cre upd d x t = (y, t')"
  shows "y \<in> set (rows t') \<and> (\<exists>n. gid y = Some n)"
proof (cases "\<exists>n z. gid x = Some n \<and> find_row gid n t = Some z")
  case True
  then obtain n z where nz: "gid x = Some n" "find_row gid n t = Some z" by blast
  then have z: "gid z = Some n" "z \<in> set (rows t)" using find_row_id by auto
  have "y = upd d x" and "rows t' = map (\<lambda>r. if gid r = gid x then upd d x else r) (rows t)"
    using assms nz by (auto simp: save_row_def merge_row_def Let_def)
  then show ?thesis using z nz gid_upd by (auto intro!: rev_image_eqI [of z])
next
  case False
  then show ?thesis using assms
    by (auto simp: save_row_def persist_row_def Let_def gid_pid split: option.splits)
qed

lemma find_row_save:
  assumes "table_ok gid t" and "save_row gid pid cre upd d x t = (y, t')"
  shows "\<exists>n. gid y = Some n \<and> find_row gid n t' = Some y"
  using save_ok [OF assms(1), of d x] assms(2) save_row_mem [OF assms(2)] find_row_mem by fastforce

lemma save_row_other:
  assumes "save_row gid pid cre upd d x t = (y, t')" and "gid y \<noteq> Some n"
  shows "find_row gid n t' = find_row gid n t"
  using assms find_row_persist [of n t d x] find_row_merge_other [of x n d t]
  by (auto simp: save_row_def persist_row_def merge_row_def Let_def gid_pid gid_upd
      split: option.splits)

lemma save_row_same:
  assumes "find_row gid n t = Some z" and "gid x = Some n"
  shows "save_row gid pid cre upd d x t
    = (upd d x, t\<lparr>rows := map (\<lambda>r. if gid r = Some n then upd d x else r) (rows t)\<rparr>)"
  using assms by (simp add: save_row_def merge_row_def Let_def)

lemma find_row_save_same:
  assumes "table_ok gid t" and "find_row gid n t = Some z" and "gid x = Some n"
  shows "find_row gid n (snd (save_row gid pid cre upd d x t)) = Some (upd d x)"
  using find_row_save [OF assms(1), of d x "upd d x"] save_row_same [OF assms(2,3)] gid_upd assms(3)
  by fastforce

lemma find_row_remove: "find_row gid n (remove_row gid x t) = (if gid x = Some n then None else find_row gid n t)"
proof -
  have "List.find (\<lambda>r. gid r = Some n) (filter (\<lambda>r. gid r \<noteq> gid x) rs)
      = (if gid x = Some n then None else List.find (\<lambda>r. gid r = Some n) rs)" for rs
    by (induction rs) auto
  then show ?thesis by (simp add: find_row_def remove_row_def)
qed

text \<open>Saving a changed copy of each row of a list, one after the other, changes those rows only.\<close>

lemma fold_save:
  assumes "table_ok gid t" and "set xs \<subseteq> set (rows t)" and "distinct xs"
    and f: "\<And>x. gid (f x) = gid x"
  shows "rows (fold (\<lambda>x u. snd (save_row gid pid cre upd d (f x) u)) xs t)
    = map (\<lambda>r. if r \<in> set xs then upd d (f r) else r) (rows t)"
  using assms(1-3)
proof (induction xs arbitrary: t)
  case (Cons x xs)
  obtain n where n: "gid x = Some n" using Cons.prems(1,2) by (auto simp: table_ok_def)
  have row: "find_row gid n t = Some x" using find_row_mem [OF Cons.prems(1) _ n] Cons.prems(2) by simp
  let ?t = "snd (save_row gid pid cre upd d (f x) t)"
  have uniq: "r = x" if "r \<in> set (rows t)" "gid r = Some n" for r
    using find_row_mem [OF Cons.prems(1) that] row by simp
  have "rows ?t = map (\<lambda>r. if gid r = Some n then upd d (f x) else r) (rows t)"
    using save_row_same [OF row, of "f x" d] n f by simp
  moreover have "(if gid r = Some n then upd d (f x) else r) = (if r = x then upd d (f x) else r)"
    if "r \<in> set (rows t)" for r using uniq [OF that] n by metis
  ultimately have rows': "rows ?t = map (\<lambda>r. if r = x then upd d (f x) else r) (rows t)"
    by (simp cong: map_cong)
  have ok: "table_ok gid ?t" using save_ok [OF Cons.prems(1)] .
  have ne: "gid y \<noteq> Some n" if "y \<in> set xs" for y using uniq that Cons.prems(2,3) by auto
  have "set xs \<subseteq> set (rows ?t)" using Cons.prems(2,3) unfolding rows' by (auto simp: image_iff)
  then have "rows (fold (\<lambda>x u. snd (save_row gid pid cre upd d (f x) u)) xs ?t)
      = map (\<lambda>r. if r \<in> set xs then upd d (f r) else r) (rows ?t)"
    using Cons.IH [OF ok] Cons.prems(3) by simp
  moreover have "upd d (f x) \<notin> set xs" using ne n f gid_upd by metis
  ultimately show ?case unfolding rows' using Cons.prems(3) by (auto simp: rows' intro!: map_cong)
qed simp

lemma fold_save_ok:
  "table_ok gid t \<Longrightarrow> table_ok gid (fold (\<lambda>x u. snd (save_row gid pid cre upd d (f x) u)) xs t)"
  by (induction xs arbitrary: t) (simp_all add: save_ok)

lemma rows_distinct: "table_ok gid t \<Longrightarrow> distinct (rows t)"
  by (simp add: table_ok_def distinct_map)

end

end
