(* ===== verification/Database.thy ===== *)
theory Database
  imports Store
begin

text \<open>
  The tables of the server and the repositories over them: one definition per repository
  method, its body the named query of the same name in the mapper files of
  visa-persistence. A query without an order keeps the order of the table; an outer join
  of a collection that the result selects \<open>DISTINCT\<close> adds nothing, an inner join without
  \<open>DISTINCT\<close> repeats a row once per match, and \<open>getSingleResult\<close> fails on two different
  rows. A comparison with a null column does not hold.
\<close>

section \<open>The tables\<close>

record db =
  t_inst :: "inst table"
  member_next :: ident
  t_command :: "command table"
  t_expiration :: "expiration table"
  t_session :: "session table"
  t_session_member :: "session_member table"
  t_jupyter :: "jupyter_session table"
  t_token :: "auth_token table"
  t_extension :: "extension_request table"
  t_activity :: "activity table"
  t_user :: "user list"
  t_instrument_scientist :: "(ident \<times> string) list"
  t_security_group :: "security_group list"
  t_security_group_filter :: "security_group_filter list"
  t_flavour :: "flavour list"

definition empty_db :: db where
  "empty_db =
     \<lparr>t_inst = \<lparr>rows = [], next_id = 1\<rparr>, member_next = 1,
      t_command = \<lparr>rows = [], next_id = 1\<rparr>, t_expiration = \<lparr>rows = [], next_id = 1\<rparr>,
      t_session = \<lparr>rows = [], next_id = 1\<rparr>, t_session_member = \<lparr>rows = [], next_id = 1\<rparr>,
      t_jupyter = \<lparr>rows = [], next_id = 1\<rparr>, t_token = \<lparr>rows = [], next_id = 1\<rparr>,
      t_extension = \<lparr>rows = [], next_id = 1\<rparr>, t_activity = \<lparr>rows = [], next_id = 1\<rparr>,
      t_user = [], t_instrument_scientist = [], t_security_group = [],
      t_security_group_filter = [], t_flavour = []\<rparr>"

interpretation instances: entity inst_id "\<lambda>n x. x\<lparr>inst_id := Some n\<rparr>" on_create on_update
  by unfold_locales (simp_all add: on_create_def on_update_def)

interpretation commands: entity cmd_id "\<lambda>n x. x\<lparr>cmd_id := Some n\<rparr>" on_create on_update
  by unfold_locales (simp_all add: on_create_def on_update_def)

interpretation expirations: entity ie_id "\<lambda>n x. x\<lparr>ie_id := Some n\<rparr>" on_create on_update
  by unfold_locales (simp_all add: on_create_def on_update_def)

interpretation sessions: entity ses_id "\<lambda>n x. x\<lparr>ses_id := Some n\<rparr>" on_create on_update
  by unfold_locales (simp_all add: on_create_def on_update_def)

interpretation session_members: entity sm_id "\<lambda>n x. x\<lparr>sm_id := Some n\<rparr>" on_create on_update
  by unfold_locales (simp_all add: on_create_def on_update_def)

interpretation jupyter_sessions: entity js_id "\<lambda>n x. x\<lparr>js_id := Some n\<rparr>" on_create on_update
  by unfold_locales (simp_all add: on_create_def on_update_def)

interpretation tokens: entity at_id "\<lambda>n x. x\<lparr>at_id := Some n\<rparr>" on_create on_update
  by unfold_locales (simp_all add: on_create_def on_update_def)

interpretation extensions: entity er_id "\<lambda>n x. x\<lparr>er_id := Some n\<rparr>" on_create on_update
  by unfold_locales (simp_all add: on_create_def on_update_def)

interpretation activities: entity act_id "\<lambda>n x. x\<lparr>act_id := Some n\<rparr>" on_create on_update
  by unfold_locales (simp_all add: on_create_def on_update_def)

section \<open>Results of single-row queries\<close>

text \<open>No row is null, two different rows are an exception.\<close>

fun single_result :: "('a \<Rightarrow> ident option) \<Rightarrow> 'a list \<Rightarrow> exn + 'a option" where
  "single_result gid [] = Inr None"
| "single_result gid (x # xs) =
     (if list_all (\<lambda>y. gid y = gid x) xs then Inr (Some x) else Inl NonUniqueResult)"

section \<open>InstanceRepository\<close>

definition live :: "inst \<Rightarrow> bool" where
  "live i \<longleftrightarrow> deleted_at i = None"

definition before :: "date option \<Rightarrow> date \<Rightarrow> bool" where
  "before d t \<longleftrightarrow> (case d of None \<Rightarrow> False | Some x \<Rightarrow> x < t)"

definition inst_getAll :: "db \<Rightarrow> inst list" where
  "inst_getAll d = filter live (rows (t_inst d))"

definition inst_getById :: "ident \<Rightarrow> db \<Rightarrow> inst option" where
  "inst_getById n d = List.find (\<lambda>i. inst_id i = Some n \<and> live i) (rows (t_inst d))"

definition inst_getByUID :: "string \<Rightarrow> db \<Rightarrow> inst option" where
  "inst_getByUID s d = List.find (\<lambda>i. uid i = s \<and> live i) (rows (t_inst d))"

definition created_desc :: "inst \<Rightarrow> int" where
  "created_desc i = (case created_at i of None \<Rightarrow> 0 | Some t \<Rightarrow> - t)"

definition inst_getAllForUser :: "user \<Rightarrow> db \<Rightarrow> inst list" where
  "inst_getAllForUser u d =
     sort_key created_desc
       (concat (map (\<lambda>i. map (\<lambda>_. i) (filter (isUser u) (members i))) (inst_getAll d)))"

definition inst_countAllForUser :: "user \<Rightarrow> db \<Rightarrow> nat" where
  "inst_countAllForUser u d =
     length (concat (map (\<lambda>i. filter (isUser u) (members i)) (inst_getAll d)))"

definition inst_getAllForUserAndRole :: "user \<Rightarrow> member_role \<Rightarrow> db \<Rightarrow> inst list" where
  "inst_getAllForUserAndRole u r d =
     sort_key created_desc
       (concat (map (\<lambda>i. map (\<lambda>_. i) (filter (\<lambda>m. isUser u m \<and> isRole r m) (members i)))
         (inst_getAll d)))"

definition inst_countAllForUserAndRole :: "user \<Rightarrow> member_role \<Rightarrow> db \<Rightarrow> nat" where
  "inst_countAllForUserAndRole u r d =
     length (concat (map (\<lambda>i. filter (\<lambda>m. isUser u m \<and> isRole r m) (members i)) (inst_getAll d)))"

definition inst_getAllWithStates :: "instance_state list \<Rightarrow> db \<Rightarrow> inst list" where
  "inst_getAllWithStates ss d = filter (\<lambda>i. state i \<in> set ss \<and> live i) (rows (t_inst d))"

definition inst_countAll :: "db \<Rightarrow> nat" where
  "inst_countAll d = length (filter live (rows (t_inst d)))"

definition inst_countAllForState :: "instance_state \<Rightarrow> db \<Rightarrow> nat" where
  "inst_countAllForState s d = length (filter (\<lambda>i. state i = s \<and> live i) (rows (t_inst d)))"

definition inst_getInstanceForMember :: "instance_member \<Rightarrow> db \<Rightarrow> inst option" where
  "inst_getInstanceForMember m d =
     List.find (\<lambda>i. list_ex (member_equals m) (members i) \<and> live i) (rows (t_inst d))"

definition inst_getAllInactive :: "date \<Rightarrow> db \<Rightarrow> inst list" where
  "inst_getAllInactive t d =
     filter (\<lambda>i. live i \<and> termination_date i \<noteq> None \<and> before (last_seen_at i) t) (rows (t_inst d))"

definition has_expiration :: "inst \<Rightarrow> db \<Rightarrow> bool" where
  "has_expiration i d \<longleftrightarrow> list_ex (\<lambda>e. inst_id i = Some (ie_inst e)) (rows (t_expiration d))"

definition inst_getAllNewInactive :: "date \<Rightarrow> db \<Rightarrow> inst list" where
  "inst_getAllNewInactive t d =
     filter (\<lambda>i. live i \<and> termination_date i \<noteq> None \<and> before (last_seen_at i) t \<and> \<not> has_expiration i d)
       (rows (t_inst d))"

definition inst_getAllNewTerminations :: "date \<Rightarrow> db \<Rightarrow> inst list" where
  "inst_getAllNewTerminations t d =
     filter (\<lambda>i. live i \<and> termination_date i \<noteq> None \<and> before (termination_date i) t \<and> \<not> has_expiration i d)
       (rows (t_inst d))"

definition inst_getAllToDelete :: "db \<Rightarrow> inst list" where
  "inst_getAllToDelete d =
     filter (\<lambda>i. state i = STOPPED \<and> delete_requested i \<and> live i) (rows (t_inst d))"

text \<open>The query of this name selects rows whose deletion date is null.\<close>

definition inst_getDeletedInstanceByComputeId :: "string \<Rightarrow> db \<Rightarrow> inst option" where
  "inst_getDeletedInstanceByComputeId c d =
     List.find (\<lambda>i. compute_id i = Some c \<and> live i) (rows (t_inst d))"

definition scientist_sees :: "user \<Rightarrow> inst \<Rightarrow> db \<Rightarrow> bool" where
  "scientist_sees u i d \<longleftrightarrow>
     list_ex (\<lambda>e. (instr_id (exp_instrument e), user_id u) \<in> set (t_instrument_scientist d))
       (experiments i)"

definition inst_getByIdForInstrumentScientist :: "user \<Rightarrow> ident \<Rightarrow> db \<Rightarrow> inst option" where
  "inst_getByIdForInstrumentScientist u n d =
     List.find (\<lambda>i. scientist_sees u i d \<and> inst_id i = Some n \<and> live i) (rows (t_inst d))"

definition experiment_overlaps :: "date \<Rightarrow> date \<Rightarrow> experiment_entity \<Rightarrow> bool" where
  "experiment_overlaps period_start period_end e \<longleftrightarrow>
     (case exp_start_date e of None \<Rightarrow> False | Some s \<Rightarrow> s \<le> period_end) \<and>
     (case exp_end_date e of None \<Rightarrow> False | Some t \<Rightarrow> t \<ge> period_start)"

definition inst_getByIdForExperimentBetweenDates :: "ident \<Rightarrow> date \<Rightarrow> date \<Rightarrow> db \<Rightarrow> inst option" where
  "inst_getByIdForExperimentBetweenDates n ps pe d =
     List.find (\<lambda>i. inst_id i = Some n \<and> list_ex (experiment_overlaps ps pe) (experiments i) \<and> live i)
       (rows (t_inst d))"

text \<open>
  The half window is multiplied out in \<open>int\<close> arithmetic, 32 bits wide, before it is
  widened and added to the time.
\<close>

definition half_window_ms :: "32 word \<Rightarrow> 32 word" where
  "half_window_ms days = days * 24 * 60 * 60 * 1000"

definition inst_getByIdForInstrumentControlSupport :: "date \<Rightarrow> ident \<Rightarrow> 32 word \<Rightarrow> db \<Rightarrow> inst option" where
  "inst_getByIdForInstrumentControlSupport now n days d =
     inst_getByIdForExperimentBetweenDates n
       (now - sint (half_window_ms days)) (now + sint (half_window_ms days)) d"

definition inst_getByIdForITSupport :: "ident \<Rightarrow> db \<Rightarrow> inst option" where
  "inst_getByIdForITSupport n d = inst_getById n d"

text \<open>Saving an instance cascades to its members: new ones get identifiers.\<close>

fun number_members :: "date \<Rightarrow> ident \<Rightarrow> instance_member list \<Rightarrow> instance_member list \<times> ident" where
  "number_members now n [] = ([], n)"
| "number_members now n (m # ms) =
     (case mem_id m of
        None \<Rightarrow> (let (ms', n') = number_members now (n + 1) ms
                 in ((on_create now m)\<lparr>mem_id := Some n\<rparr> # ms', n'))
      | Some _ \<Rightarrow> (let (ms', n') = number_members now n ms in (m # ms', n')))"

definition inst_save :: "date \<Rightarrow> inst \<Rightarrow> db \<Rightarrow> inst \<times> db" where
  "inst_save now i d =
     (let (ms, n) = number_members now (member_next d) (members i);
          (i', t) = save_row inst_id (\<lambda>n x. x\<lparr>inst_id := Some n\<rparr>) on_create on_update now
                      (i\<lparr>members := ms\<rparr>) (t_inst d)
      in (i', d\<lparr>t_inst := t, member_next := n\<rparr>))"

section \<open>Facts\<close>

lemma live_iff: "live i \<longleftrightarrow> \<not> getDeleted i"
  by (simp add: live_def getDeleted_def)

lemma inst_getById_Some:
  "inst_getById n d = Some i \<Longrightarrow> i \<in> set (rows (t_inst d)) \<and> inst_id i = Some n \<and> live i"
  by (auto simp: inst_getById_def dest!: find_Some_mem)

lemma inst_getById_find_row:
  assumes "table_ok inst_id (t_inst d)"
  shows "inst_getById n d = (case find_row inst_id n (t_inst d) of
           None \<Rightarrow> None | Some i \<Rightarrow> if live i then Some i else None)"
proof -
  have "List.find (\<lambda>i. inst_id i = Some n \<and> live i) is
      = (case List.find (\<lambda>i. inst_id i = Some n) is of None \<Rightarrow> None | Some i \<Rightarrow> if live i then Some i else None)"
    if "distinct (map inst_id is)" for "is"
    using that
  proof (induction "is")
    case (Cons a "is")
    show ?case
    proof (cases "inst_id a = Some n")
      case True
      then have "\<forall>x \<in> set is. inst_id x \<noteq> Some n" using Cons.prems by (metis distinct.simps(2) image_eqI list.set_map list.simps(9))
      then have "List.find (\<lambda>i. inst_id i = Some n \<and> live i) is = None" by (auto simp: find_is_None_iff)
      then show ?thesis using True by simp
    qed (use Cons in auto)
  qed simp
  then show ?thesis using assms by (simp add: inst_getById_def find_row_def table_ok_def)
qed

lemma inst_getAll_mem: "i \<in> set (inst_getAll d) \<longleftrightarrow> i \<in> set (rows (t_inst d)) \<and> live i"
  by (auto simp: inst_getAll_def)

lemma inst_save_table:
  "inst_save now i d = (i', d') \<Longrightarrow>
     (i', t_inst d') = save_row inst_id (\<lambda>n x. x\<lparr>inst_id := Some n\<rparr>) on_create on_update now
       (i\<lparr>members := fst (number_members now (member_next d) (members i))\<rparr>) (t_inst d)"
  by (auto simp: inst_save_def Let_def split: prod.splits)

lemma inst_save_ok: "table_ok inst_id (t_inst d) \<Longrightarrow> table_ok inst_id (t_inst (snd (inst_save now i d)))"
  using inst_save_table [of now i d] instances.save_ok [of "t_inst d"]
  by (metis prod.collapse snd_conv)

lemma live_save:
  "save_row inst_id (\<lambda>n x. x\<lparr>inst_id := Some n\<rparr>) on_create on_update now i t = (i', t') \<Longrightarrow>
     live i' = live i \<and> state i' = state i \<and> members i' = members i"
  by (auto simp: save_row_def persist_row_def merge_row_def live_def on_create_def on_update_def Let_def
      split: option.splits)

lemma inst_save_getById:
  assumes "table_ok inst_id (t_inst d)" and "live i" and "inst_save now i d = (i', d')"
  shows "\<exists>n. inst_id i' = Some n \<and> inst_getById n d' = Some i'"
proof -
  note t = inst_save_table [OF assms(3)]
  obtain n where n: "inst_id i' = Some n" "find_row inst_id n (t_inst d') = Some i'"
    using instances.find_row_save [OF assms(1) t [symmetric]] by blast
  have "table_ok inst_id (t_inst d')" using inst_save_ok [OF assms(1)] assms(3) by (metis snd_conv)
  moreover have "live i'" using live_save [OF t [symmetric]] assms(2) by (simp add: live_def)
  ultimately show ?thesis using n by (auto simp: inst_getById_find_row)
qed

lemma inst_save_other:
  assumes "table_ok inst_id (t_inst d)" and "inst_save now i d = (i', d')" and "inst_id i' \<noteq> Some n"
  shows "inst_getById n d' = inst_getById n d"
proof -
  note t = inst_save_table [OF assms(2)]
  have "table_ok inst_id (t_inst d')" using inst_save_ok [OF assms(1)] assms(2) by (metis snd_conv)
  then show ?thesis
    using assms(1) instances.save_row_other [OF t [symmetric] assms(3)] by (simp add: inst_getById_find_row)
qed

text \<open>An instance that has a row keeps its identifier when it is saved.\<close>

lemma inst_save_id:
  assumes "inst_save now i d = (i', d')" and "find_row inst_id n (t_inst d) = Some z" and "inst_id i = Some n"
  shows "inst_id i' = Some n \<and> state i' = state i \<and> deleted_at i' = deleted_at i"
  using inst_save_table [OF assms(1)] assms(2,3)
    instances.save_row_same [of n "t_inst d" z "i\<lparr>members := fst (number_members now (member_next d) (members i))\<rparr>" now]
  by (simp add: on_update_def)

text \<open>Numbering gives a new identifier to members that have none and keeps the others.\<close>

lemma number_members_next: "number_members now n ms = (ms', n') \<Longrightarrow> n \<le> n'"
  by (induction ms arbitrary: n ms' n') (fastforce split: option.splits prod.splits)+

lemma number_members_mem:
  "number_members now n ms = (ms', n') \<Longrightarrow> m \<in> set ms' \<Longrightarrow>
     m \<in> set ms \<and> mem_id m \<noteq> None \<or> (\<exists>k. mem_id m = Some k \<and> n \<le> k \<and> k < n')"
proof (induction ms arbitrary: n ms' n')
  case (Cons x ms)
  show ?case
  proof (cases "mem_id x")
    case None
    obtain ys k where r: "number_members now (n + 1) ms = (ys, k)" by fastforce
    have "m = (on_create now x)\<lparr>mem_id := Some n\<rparr> \<or> m \<in> set ys" and n': "n' = k"
      using Cons.prems None r by auto
    then show ?thesis using Cons.IH [OF r] number_members_next [OF r] by fastforce
  next
    case (Some j)
    obtain ys k where r: "number_members now n ms = (ys, k)" by fastforce
    with Cons.prems Some Cons.IH [OF r] show ?thesis by auto
  qed
qed simp

lemma number_members_distinct:
  assumes "number_members now n ms = (ms', n')"
    and "distinct (map mem_id (filter (\<lambda>m. mem_id m \<noteq> None) ms))"
    and "\<forall>m \<in> set ms. \<forall>k. mem_id m = Some k \<longrightarrow> k < n"
  shows "distinct (map mem_id ms')"
  using assms
proof (induction ms arbitrary: n ms' n')
  case (Cons x ms)
  show ?case
  proof (cases "mem_id x")
    case None
    obtain ys k where r: "number_members now (n + 1) ms = (ys, k)" by fastforce
    have "distinct (map mem_id ys)" using Cons.IH [OF r] Cons.prems None by fastforce
    moreover have "Some n \<notin> mem_id ` set ys"
      using number_members_mem [OF r] Cons.prems(3) by fastforce
    ultimately show ?thesis using Cons.prems None r by auto
  next
    case (Some j)
    obtain ys k where r: "number_members now n ms = (ys, k)" by fastforce
    have "distinct (map mem_id ys)" using Cons.IH [OF r] Cons.prems Some by simp
    moreover have "Some j \<notin> mem_id ` set ys"
      using number_members_mem [OF r] Cons.prems(2,3) Some by (fastforce simp: image_iff)
    ultimately show ?thesis using Cons.prems Some r by auto
  qed
qed simp

end
