(* ===== verification/Repositories.thy ===== *)
theory Repositories
  imports Database
begin

text \<open>
  The repositories of what hangs on an instance: commands, expirations, sessions and their
  members, Jupyter sessions, tokens, extension requests, activities, members, users and
  security groups. As in the theory Database, each definition is one repository method and
  its body the named query. A row refers to its instance by identifier; following that
  reference is \<^theory_text>\<open>inst_ref\<close>, which finds deleted instances too.
\<close>

definition inst_ref :: "ident \<Rightarrow> db \<Rightarrow> inst option" where
  "inst_ref n d = find_row inst_id n (t_inst d)"

definition refers :: "ident \<Rightarrow> inst \<Rightarrow> bool" where
  "refers n i \<longleftrightarrow> inst_id i = Some n"

fun id_key :: "ident option \<Rightarrow> ident" where
  "id_key None = 0"
| "id_key (Some n) = n"

section \<open>InstanceCommandRepository\<close>

text \<open>A command read from the database has its instance as the database has it.\<close>

definition load_command :: "db \<Rightarrow> command \<Rightarrow> command" where
  "load_command d c =
     (case inst_id (cmd_inst c) of
        None \<Rightarrow> c
      | Some n \<Rightarrow> (case inst_ref n d of None \<Rightarrow> c | Some i \<Rightarrow> c\<lparr>cmd_inst := i\<rparr>))"

definition cmd_select :: "(command \<Rightarrow> bool) \<Rightarrow> db \<Rightarrow> command list" where
  "cmd_select P d =
     sort_key (\<lambda>c. id_key (cmd_id c)) (map (load_command d) (filter P (rows (t_command d))))"

definition cmd_getAll :: "db \<Rightarrow> command list" where
  "cmd_getAll = cmd_select (\<lambda>_. True)"

definition cmd_getAllActive :: "db \<Rightarrow> command list" where
  "cmd_getAllActive = cmd_select (\<lambda>c. cmd_state c \<in> {PENDING, QUEUED, RUNNING})"

definition cmd_getAllPending :: "db \<Rightarrow> command list" where
  "cmd_getAllPending = cmd_select (\<lambda>c. cmd_state c = PENDING)"

definition cmd_getById :: "ident \<Rightarrow> db \<Rightarrow> exn + command" where
  "cmd_getById n d =
     (case find_row cmd_id n (t_command d) of
        None \<Rightarrow> Inl NoResult
      | Some c \<Rightarrow> Inr (load_command d c))"

definition cmd_getAllForUser :: "user \<Rightarrow> db \<Rightarrow> command list" where
  "cmd_getAllForUser u = cmd_select (\<lambda>c. map_option user_id (cmd_user c) = Some (user_id u))"

definition cmd_getAllForInstance :: "inst \<Rightarrow> db \<Rightarrow> command list" where
  "cmd_getAllForInstance i = cmd_select (\<lambda>c. inst_equals (cmd_inst c) i)"

definition cmd_repo_save :: "date \<Rightarrow> command \<Rightarrow> db \<Rightarrow> command \<times> db" where
  "cmd_repo_save now c d =
     (let (c', t) = save_row cmd_id (\<lambda>n x. x\<lparr>cmd_id := Some n\<rparr>) on_create on_update now c (t_command d)
      in (c', d\<lparr>t_command := t\<rparr>))"

section \<open>InstanceExpirationRepository\<close>

text \<open>The table has a unique constraint on the instance.\<close>

definition expirations_unique :: "db \<Rightarrow> bool" where
  "expirations_unique d \<longleftrightarrow> distinct (map ie_inst (rows (t_expiration d)))"

definition ie_getAll :: "db \<Rightarrow> expiration list" where
  "ie_getAll d = sort_key (\<lambda>e. - id_key (ie_id e)) (rows (t_expiration d))"

definition ie_getById :: "ident \<Rightarrow> db \<Rightarrow> expiration option" where
  "ie_getById n d = find_row ie_id n (t_expiration d)"

definition ie_getByInstance :: "inst \<Rightarrow> db \<Rightarrow> expiration option" where
  "ie_getByInstance i d = List.find (\<lambda>e. refers (ie_inst e) i) (rows (t_expiration d))"

definition ie_getAllExpired :: "date \<Rightarrow> db \<Rightarrow> expiration list" where
  "ie_getAllExpired t d = filter (\<lambda>e. ie_date e \<le> t) (rows (t_expiration d))"

definition ie_delete :: "expiration \<Rightarrow> db \<Rightarrow> db" where
  "ie_delete e d = d\<lparr>t_expiration := remove_row ie_id e (t_expiration d)\<rparr>"

definition ie_save :: "date \<Rightarrow> expiration \<Rightarrow> db \<Rightarrow> expiration \<times> db" where
  "ie_save now e d =
     (let (e', t) = save_row ie_id (\<lambda>n x. x\<lparr>ie_id := Some n\<rparr>) on_create on_update now e (t_expiration d)
      in (e', d\<lparr>t_expiration := t\<rparr>))"

section \<open>InstanceSessionRepository\<close>

definition ses_getAll :: "db \<Rightarrow> session list" where
  "ses_getAll d = sort_key (\<lambda>s. - id_key (ses_id s)) (filter ses_current (rows (t_session d)))"

definition ses_getAllByInstance :: "inst \<Rightarrow> db \<Rightarrow> session list" where
  "ses_getAllByInstance i d =
     sort_key (\<lambda>s. - id_key (ses_id s))
       (filter (\<lambda>s. refers (ses_inst s) i \<and> ses_current s) (rows (t_session d)))"

definition ses_getByInstance :: "inst \<Rightarrow> db \<Rightarrow> session option" where
  "ses_getByInstance i d = (case ses_getAllByInstance i d of [] \<Rightarrow> None | s # _ \<Rightarrow> Some s)"

definition ses_getById :: "ident \<Rightarrow> db \<Rightarrow> session option" where
  "ses_getById n d = find_row ses_id n (t_session d)"

definition ses_save :: "date \<Rightarrow> session \<Rightarrow> db \<Rightarrow> session \<times> db" where
  "ses_save now s d =
     (let (s', t) = save_row ses_id (\<lambda>n x. x\<lparr>ses_id := Some n\<rparr>) on_create on_update now s (t_session d)
      in (s', d\<lparr>t_session := t\<rparr>))"

section \<open>InstanceSessionMemberRepository\<close>

definition session_refers :: "ident \<Rightarrow> session \<Rightarrow> bool" where
  "session_refers n s \<longleftrightarrow> ses_id s = Some n"

definition session_of_instance :: "inst \<Rightarrow> db \<Rightarrow> ident \<Rightarrow> bool" where
  "session_of_instance i d n \<longleftrightarrow>
     (case find_row ses_id n (t_session d) of None \<Rightarrow> False | Some s \<Rightarrow> refers (ses_inst s) i)"

definition sm_getAll :: "db \<Rightarrow> session_member list" where
  "sm_getAll d = filter sm_active (rows (t_session_member d))"

definition sm_getSessionMember :: "session \<Rightarrow> uuid \<Rightarrow> db \<Rightarrow> exn + session_member option" where
  "sm_getSessionMember s sid d =
     single_result sm_id
       (filter (\<lambda>m. session_refers (sm_session m) s \<and> sm_session_id m = sid \<and> sm_active m)
         (rows (t_session_member d)))"

definition sm_getAllSessionMembers :: "session \<Rightarrow> db \<Rightarrow> session_member list" where
  "sm_getAllSessionMembers s d =
     filter (\<lambda>m. session_refers (sm_session m) s \<and> sm_active m) (rows (t_session_member d))"

definition sm_getAllForInstance :: "inst \<Rightarrow> db \<Rightarrow> session_member list" where
  "sm_getAllForInstance i d =
     filter (\<lambda>m. session_of_instance i d (sm_session m) \<and> sm_active m) (rows (t_session_member d))"

definition sm_getAllHistory :: "inst \<Rightarrow> db \<Rightarrow> session_member list" where
  "sm_getAllHistory i d =
     sort_key (\<lambda>m. - id_key (sm_id m))
       (filter (\<lambda>m. session_of_instance i d (sm_session m)) (rows (t_session_member d)))"

definition sm_getBySessionId :: "uuid \<Rightarrow> db \<Rightarrow> exn + session_member option" where
  "sm_getBySessionId sid d =
     single_result sm_id (filter (\<lambda>m. sm_session_id m = sid \<and> sm_active m) (rows (t_session_member d)))"

definition sm_save :: "date \<Rightarrow> session_member \<Rightarrow> db \<Rightarrow> session_member \<times> db" where
  "sm_save now m d =
     (let (m', t) = save_row sm_id (\<lambda>n x. x\<lparr>sm_id := Some n\<rparr>) on_create on_update now m (t_session_member d)
      in (m', d\<lparr>t_session_member := t\<rparr>))"

section \<open>InstanceJupyterSessionRepository\<close>

definition js_getAll :: "db \<Rightarrow> jupyter_session list" where
  "js_getAll d = sort_key (\<lambda>s. - id_key (js_id s)) (filter js_active (rows (t_jupyter d)))"

definition js_getAllByInstance :: "inst \<Rightarrow> db \<Rightarrow> jupyter_session list" where
  "js_getAllByInstance i d =
     sort_key (\<lambda>s. - id_key (js_id s))
       (filter (\<lambda>s. refers (js_inst s) i \<and> js_active s) (rows (t_jupyter d)))"

definition js_getAllByInstanceKernelSession ::
    "inst \<Rightarrow> string \<Rightarrow> string \<Rightarrow> db \<Rightarrow> jupyter_session list" where
  "js_getAllByInstanceKernelSession i k sid d =
     sort_key (\<lambda>s. - id_key (js_id s))
       (filter (\<lambda>s. refers (js_inst s) i \<and> js_kernel_id s = k \<and> js_session_id s = sid \<and> js_active s)
         (rows (t_jupyter d)))"

definition js_countAllInstances :: "db \<Rightarrow> nat" where
  "js_countAllInstances d = length (remdups (map js_inst (filter js_active (rows (t_jupyter d)))))"

definition js_save :: "date \<Rightarrow> jupyter_session \<Rightarrow> db \<Rightarrow> jupyter_session \<times> db" where
  "js_save now s d =
     (let (s', t) = save_row js_id (\<lambda>n x. x\<lparr>js_id := Some n\<rparr>) on_create on_update now s (t_jupyter d)
      in (s', d\<lparr>t_jupyter := t\<rparr>))"

section \<open>InstanceAuthenticationTokenRepository\<close>

definition at_getAll :: "db \<Rightarrow> auth_token list" where
  "at_getAll d = rows (t_token d)"

definition at_getByToken :: "string \<Rightarrow> db \<Rightarrow> exn + auth_token option" where
  "at_getByToken s d = single_result at_id (filter (\<lambda>t. at_token t = s) (rows (t_token d)))"

definition at_save :: "date \<Rightarrow> auth_token \<Rightarrow> db \<Rightarrow> auth_token \<times> db" where
  "at_save now x d =
     (let (x', t) = save_row at_id (\<lambda>n y. y\<lparr>at_id := Some n\<rparr>) on_create on_update now x (t_token d)
      in (x', d\<lparr>t_token := t\<rparr>))"

definition at_delete :: "auth_token \<Rightarrow> db \<Rightarrow> db" where
  "at_delete x d = d\<lparr>t_token := remove_row at_id x (t_token d)\<rparr>"

section \<open>InstanceExtensionRequestRepository\<close>

definition er_pending_live :: "db \<Rightarrow> extension_request \<Rightarrow> bool" where
  "er_pending_live d r \<longleftrightarrow> er_state r = EXT_PENDING \<and>
     (case inst_ref (er_inst r) d of None \<Rightarrow> False | Some i \<Rightarrow> state i \<noteq> DELETED)"

definition er_getAll :: "db \<Rightarrow> extension_request list" where
  "er_getAll d = sort_key (\<lambda>r. id_key (er_id r)) (filter (er_pending_live d) (rows (t_extension d)))"

definition er_getById :: "ident \<Rightarrow> db \<Rightarrow> extension_request option" where
  "er_getById n d = List.find (\<lambda>r. er_pending_live d r \<and> er_id r = Some n) (rows (t_extension d))"

definition er_getForInstance :: "inst \<Rightarrow> db \<Rightarrow> exn + extension_request option" where
  "er_getForInstance i d =
     single_result er_id (filter (\<lambda>r. er_state r = EXT_PENDING \<and> refers (er_inst r) i) (rows (t_extension d)))"

definition er_save :: "date \<Rightarrow> extension_request \<Rightarrow> db \<Rightarrow> extension_request \<times> db" where
  "er_save now r d =
     (let (r', t) = save_row er_id (\<lambda>n x. x\<lparr>er_id := Some n\<rparr>) on_create on_update now r (t_extension d)
      in (r', d\<lparr>t_extension := t\<rparr>))"

section \<open>InstanceActivityRepository\<close>

definition act_getAll :: "db \<Rightarrow> activity list" where
  "act_getAll d = sort_key (\<lambda>a. id_key (act_id a)) (rows (t_activity d))"

definition act_getAllForUser :: "user \<Rightarrow> db \<Rightarrow> activity list" where
  "act_getAllForUser u d =
     sort_key (\<lambda>a. id_key (act_id a)) (filter (\<lambda>a. user_equals (act_user a) u) (rows (t_activity d)))"

definition act_getAllForInstance :: "inst \<Rightarrow> db \<Rightarrow> activity list" where
  "act_getAllForInstance i d =
     sort_key (\<lambda>a. id_key (act_id a)) (filter (\<lambda>a. refers (act_inst a) i) (rows (t_activity d)))"

definition act_save :: "date \<Rightarrow> activity \<Rightarrow> db \<Rightarrow> activity \<times> db" where
  "act_save now a d =
     (let (a', t) = save_row act_id (\<lambda>n x. x\<lparr>act_id := Some n\<rparr>) on_create on_update now a (t_activity d)
      in (a', d\<lparr>t_activity := t\<rparr>))"

definition act_cleanup :: "date \<Rightarrow> db \<Rightarrow> db" where
  "act_cleanup limit d =
     d\<lparr>t_activity := (t_activity d)\<lparr>rows :=
         filter (\<lambda>a. \<not> before (created_at a) limit) (rows (t_activity d))\<rparr>\<rparr>"

section \<open>InstanceMemberRepository\<close>

definition mem_getAll :: "db \<Rightarrow> instance_member list" where
  "mem_getAll d = concat (map members (rows (t_inst d)))"

definition mem_getById :: "ident \<Rightarrow> db \<Rightarrow> instance_member option" where
  "mem_getById n d = List.find (\<lambda>m. mem_id m = Some n) (mem_getAll d)"

definition mem_getByInstanceAndUser :: "inst \<Rightarrow> user \<Rightarrow> db \<Rightarrow> exn + instance_member option" where
  "mem_getByInstanceAndUser i u d =
     single_result mem_id
       (concat (map (\<lambda>j. filter (isUser u) (members j))
         (filter (\<lambda>j. live j \<and> inst_equals j i) (rows (t_inst d)))))"

text \<open>Merging a member changes it in the instance that holds it, whichever that is.\<close>

definition replace_member :: "instance_member \<Rightarrow> inst \<Rightarrow> inst" where
  "replace_member m i = i\<lparr>members := map (\<lambda>x. if member_equals x m then m else x) (members i)\<rparr>"

definition mem_merge :: "date \<Rightarrow> instance_member \<Rightarrow> db \<Rightarrow> db" where
  "mem_merge now m d =
     d\<lparr>t_inst := (t_inst d)\<lparr>rows := map (replace_member (on_update now m)) (rows (t_inst d))\<rparr>\<rparr>"

section \<open>UserRepository\<close>

text \<open>
  The pattern match of the database, without regard to case, is the argument \<open>like\<close>. The
  counting method names the query for all users when activated ones are asked for, and the
  other way round; the listing method does not.
\<close>

definition user_getById :: "string \<Rightarrow> db \<Rightarrow> user option" where
  "user_getById s d = List.find (\<lambda>u. user_id u = s) (t_user d)"

definition user_save :: "user \<Rightarrow> db \<Rightarrow> db" where
  "user_save u d =
     d\<lparr>t_user := (if list_ex (user_equals u) (t_user d)
        then map (\<lambda>v. if user_equals v u then u else v) (t_user d) else t_user d @ [u])\<rparr>"

definition user_allLikeLastName :: "(string \<Rightarrow> string \<Rightarrow> bool) \<Rightarrow> string \<Rightarrow> bool \<Rightarrow> db \<Rightarrow> user list" where
  "user_allLikeLastName like n onlyActivated d =
     sort_key (\<lambda>u. (user_last_name u, user_first_name u))
       (if onlyActivated
        then filter (\<lambda>u. like n (user_last_name u) \<and> user_activated_at u \<noteq> None) (t_user d)
        else filter (\<lambda>u. like n (user_last_name u)) (t_user d))"

definition user_countAllLikeLastName :: "(string \<Rightarrow> string \<Rightarrow> bool) \<Rightarrow> string \<Rightarrow> bool \<Rightarrow> db \<Rightarrow> nat" where
  "user_countAllLikeLastName like n onlyActivated d =
     (if onlyActivated
      then length (filter (\<lambda>u. like n (user_last_name u)) (t_user d))
      else length (filter (\<lambda>u. like n (user_last_name u) \<and> user_activated_at u \<noteq> None) (t_user d)))"

section \<open>SecurityGroupRepository\<close>

definition sg_cloud_live :: "security_group \<Rightarrow> bool" where
  "sg_cloud_live g \<longleftrightarrow> (case sg_cloud g of None \<Rightarrow> True | Some c \<Rightarrow> cpc_deleted_at c = None)"

definition sg_getAll :: "db \<Rightarrow> security_group list" where
  "sg_getAll d = sort_key sg_name (filter sg_cloud_live (t_security_group d))"

definition filters_of :: "security_group \<Rightarrow> db \<Rightarrow> security_group_filter list" where
  "filters_of g d = filter (\<lambda>f. sg_id (sgf_group f) = sg_id g) (t_security_group_filter d)"

definition sg_getDefault :: "db \<Rightarrow> security_group list" where
  "sg_getDefault d = filter (\<lambda>g. filters_of g d = [] \<and> sg_cloud_live g) (t_security_group d)"

text \<open>The query does not look at the expiry of the user's role.\<close>

definition sg_getRoleBased :: "user \<Rightarrow> db \<Rightarrow> security_group list" where
  "sg_getRoleBased u d =
     filter (\<lambda>g. list_ex (\<lambda>f. sgf_object_type f = ''ROLE'' \<and>
           list_ex (\<lambda>ur. role_id (ur_role ur) = Some (sgf_object_id f) \<and> group_deleted_at (ur_role ur) = None)
             (user_roles u)) (filters_of g d) \<and> sg_cloud_live g)
       (t_security_group d)"

definition sg_getFlavourBased :: "flavour \<Rightarrow> db \<Rightarrow> security_group list" where
  "sg_getFlavourBased fl d =
     filter (\<lambda>g. list_ex (\<lambda>f. sgf_object_type f = ''FLAVOUR'' \<and> fl_id fl = Some (sgf_object_id f) \<and>
           list_ex (\<lambda>x. fl_id x = fl_id fl \<and> \<not> fl_deleted x) (t_flavour d)) (filters_of g d)
         \<and> sg_cloud_live g)
       (t_security_group d)"

end
