(* ===== verification/Cloud.thy ===== *)
theory Cloud
  imports Catalogue "HOL-Library.AList"
begin

text \<open>
  The cloud module (visa-cloud): the states and converters of cloud instances, the interface
  of a cloud provider, the client that wraps a provider, the factory and the gateway that
  hold the clients. A provider acts on the cloud's own state, of type \<open>'w\<close>; the OpenStack
  and web providers are arguments of the factory, the null provider is modelled.
\<close>

section \<open>Cloud instances\<close>

datatype cloud_state =
    C_UNKNOWN | C_BUILDING | C_STARTING | C_ACTIVE | C_STOPPING | C_STOPPED
  | C_REBOOTING | C_UNAVAILABLE | C_ERROR | C_DELETED

record cloud_instance =
  ci_id :: string
  ci_name :: string
  ci_state :: cloud_state
  ci_address :: "string option"
  ci_image_id :: string
  ci_flavor_id :: string
  ci_created_at :: date
  ci_security_groups :: "string list"

record cloud_identifier =
  cid_id :: string
  cid_name :: string

text \<open>The loop compares the instance's state with itself, not with the status of the list.\<close>

definition isStatus :: "cloud_state list \<Rightarrow> cloud_instance \<Rightarrow> bool" where
  "isStatus ss c \<longleftrightarrow> list_ex (\<lambda>_. ci_state c = ci_state c) ss"

definition isName :: "string \<Rightarrow> cloud_instance \<Rightarrow> bool" where
  "isName n c \<longleftrightarrow> ci_name c = n"

text \<open>What the OpenStack API calls the states, with the task that is running.\<close>

definition os_convertStatus :: "string \<Rightarrow> string \<Rightarrow> cloud_state" where
  "os_convertStatus st task =
     (if st \<in> {''BUILD'', ''REBUILD''} then C_BUILDING
      else if st = ''ACTIVE'' then (if task = ''powering-off'' then C_STOPPING else C_ACTIVE)
      else if st \<in> {''HARD_REBOOT'', ''REBOOT''} then C_REBOOTING
      else if st \<in> {''MIGRATING'', ''RESCUE'', ''RESIZE'', ''REVERT_RESIZE'', ''VERIFY_SIZE''} then C_UNAVAILABLE
      else if st \<in> {''DELETED'', ''SHELVED'', ''SHELVED_OFFLOADED'', ''SOFT_DELETED''} then C_DELETED
      else if st \<in> {''PAUSED'', ''SHUTOFF'', ''SUSPENDED''} then C_STOPPED
      else if st = ''ERROR'' then C_ERROR
      else C_UNKNOWN)"

text \<open>The names of the enumeration, and \<open>valueOf\<close>, which the web provider's states go through.\<close>

fun cloud_state_name :: "cloud_state \<Rightarrow> string" where
  "cloud_state_name C_UNKNOWN = ''UNKNOWN''"
| "cloud_state_name C_BUILDING = ''BUILDING''"
| "cloud_state_name C_STARTING = ''STARTING''"
| "cloud_state_name C_ACTIVE = ''ACTIVE''"
| "cloud_state_name C_STOPPING = ''STOPPING''"
| "cloud_state_name C_STOPPED = ''STOPPED''"
| "cloud_state_name C_REBOOTING = ''REBOOTING''"
| "cloud_state_name C_UNAVAILABLE = ''UNAVAILABLE''"
| "cloud_state_name C_ERROR = ''ERROR''"
| "cloud_state_name C_DELETED = ''DELETED''"

definition cloud_states :: "cloud_state list" where
  "cloud_states = [C_UNKNOWN, C_BUILDING, C_STARTING, C_ACTIVE, C_STOPPING, C_STOPPED,
     C_REBOOTING, C_UNAVAILABLE, C_ERROR, C_DELETED]"

definition web_convertStatus :: "string \<Rightarrow> exn + cloud_state" where
  "web_convertStatus s =
     (case List.find (\<lambda>c. cloud_state_name c = s) cloud_states of
        Some c \<Rightarrow> Inr c
      | None \<Rightarrow> Inl (IllegalArgument s))"

section \<open>Providers and clients\<close>

record 'w cloud_provider =
  p_instanceIdentifiers :: "'w \<Rightarrow> exn + cloud_identifier list option"
  p_instance :: "string \<Rightarrow> 'w \<Rightarrow> exn + cloud_instance option"
  p_rebootInstance :: "string \<Rightarrow> 'w \<Rightarrow> exn option \<times> 'w"
  p_shutdownInstance :: "string \<Rightarrow> 'w \<Rightarrow> exn option \<times> 'w"
  p_startInstance :: "string \<Rightarrow> 'w \<Rightarrow> exn option \<times> 'w"
  p_updateSecurityGroups :: "string \<Rightarrow> string list \<Rightarrow> 'w \<Rightarrow> exn option \<times> 'w"
  p_createInstance :: "string \<Rightarrow> string \<Rightarrow> string \<Rightarrow> string list \<Rightarrow> (string \<times> string option) list \<Rightarrow>
     string option \<Rightarrow> 'w \<Rightarrow> (exn + cloud_instance option) \<times> 'w"
  p_deleteInstance :: "string \<Rightarrow> 'w \<Rightarrow> exn option \<times> 'w"

definition null_provider :: "'w cloud_provider" where
  "null_provider =
     \<lparr>p_instanceIdentifiers = (\<lambda>w. Inr None), p_instance = (\<lambda>i w. Inr None),
      p_rebootInstance = (\<lambda>i w. (None, w)), p_shutdownInstance = (\<lambda>i w. (None, w)),
      p_startInstance = (\<lambda>i w. (None, w)), p_updateSecurityGroups = (\<lambda>i gs w. (None, w)),
      p_createInstance = (\<lambda>n im fl gs md bc w. (Inr None, w)), p_deleteInstance = (\<lambda>i w. (None, w))\<rparr>"

record 'w cloud_client =
  cc_id :: ident
  cc_name :: string
  cc_type :: string
  cc_provider :: "'w cloud_provider"
  cc_server_name_prefix :: string
  cc_visible :: bool

text \<open>Asking for an instance without identifier answers null and calls nobody.\<close>

definition client_instance :: "'w cloud_client \<Rightarrow> string option \<Rightarrow> 'w \<Rightarrow> exn + cloud_instance option" where
  "client_instance c i w = (case i of None \<Rightarrow> Inr None | Some s \<Rightarrow> p_instance (cc_provider c) s w)"

section \<open>CloudClientFactory\<close>

type_synonym parameters = "(string \<times> string) list"

record provider_configuration =
  pc_name :: string
  pc_parameters :: parameters

record cloud_configuration =
  conf_provider_type :: string
  conf_provider_name :: string
  conf_providers :: "provider_configuration list"
  conf_server_name_prefix :: string

definition getProviderConfiguration :: "cloud_configuration \<Rightarrow> string \<Rightarrow> provider_configuration option" where
  "getProviderConfiguration conf p = List.find (\<lambda>pc. pc_name pc = p) (conf_providers conf)"

definition openstack_parameters :: "string list" where
  "openstack_parameters = [''identityEndpoint'', ''computeEndpoint'', ''imageEndpoint'',
     ''networkEndpoint'', ''applicationId'', ''applicationSecret'', ''addressProvider'',
     ''addressProviderUUID'']"

definition web_parameters :: "string list" where
  "web_parameters = [''url'', ''authToken'']"

text \<open>The providers that talk HTTP are made by arguments of the factory.\<close>

record 'w provider_makers =
  mk_openstack :: "parameters \<Rightarrow> 'w cloud_provider"
  mk_web :: "parameters \<Rightarrow> 'w cloud_provider"

definition requires :: "string list \<Rightarrow> parameters \<Rightarrow> bool" where
  "requires ks ps \<longleftrightarrow> list_all (\<lambda>k. map_of ps k \<noteq> None) ks"

definition factory_getClient ::
    "'w provider_makers \<Rightarrow> ident \<Rightarrow> string \<Rightarrow> string \<Rightarrow> provider_configuration option \<Rightarrow> string \<Rightarrow> bool \<Rightarrow>
     exn + 'w cloud_client" where
  "factory_getClient mk i n provider pc prefix visible =
     (let client = (\<lambda>t p. \<lparr>cc_id = i, cc_name = n, cc_type = t, cc_provider = p,
                        cc_server_name_prefix = prefix, cc_visible = visible\<rparr>)
      in if provider = ''null'' then Inr (client ''null'' null_provider)
         else if provider = ''openstack'' then
           (case pc of
              None \<Rightarrow> Inl NullPointer
            | Some c \<Rightarrow> if requires openstack_parameters (pc_parameters c)
                then Inr (client provider (mk_openstack mk (pc_parameters c))) else Inl NullPointer)
         else if provider = ''web'' then
           (case pc of
              None \<Rightarrow> Inl NullPointer
            | Some c \<Rightarrow> if requires web_parameters (pc_parameters c)
                then Inr (client provider (mk_web mk (pc_parameters c))) else Inl NullPointer)
         else Inl (CloudException (''Unsupported provider provided: '' @ provider)))"

definition factory_getDefault :: "'w provider_makers \<Rightarrow> cloud_configuration \<Rightarrow> exn + 'w cloud_client" where
  "factory_getDefault mk conf =
     (let provider = conf_provider_type conf;
          pc = (if provider = ''null'' then None else getProviderConfiguration conf provider)
      in factory_getClient mk (-1) (conf_provider_name conf) provider pc (conf_server_name_prefix conf) True)"

section \<open>CloudClientGateway\<close>

record 'w gateway =
  gw_default :: "'w cloud_client option"
  gw_clients :: "(ident \<times> 'w cloud_client) list"

text \<open>A cloud exception is logged; any other one leaves the constructor and the methods.\<close>

definition gateway_init :: "'w provider_makers \<Rightarrow> cloud_configuration \<Rightarrow> exn + 'w gateway" where
  "gateway_init mk conf =
     (case factory_getDefault mk conf of
        Inr c \<Rightarrow> Inr \<lparr>gw_default = Some c, gw_clients = [(cc_id c, c)]\<rparr>
      | Inl (CloudException s) \<Rightarrow> Inr \<lparr>gw_default = None, gw_clients = []\<rparr>
      | Inl e \<Rightarrow> Inl e)"

definition getCloudClient :: "'w gateway \<Rightarrow> ident option \<Rightarrow> 'w cloud_client option" where
  "getCloudClient g i = (case i of None \<Rightarrow> gw_default g | Some n \<Rightarrow> map_of (gw_clients g) n)"

definition gateway_getAll :: "'w gateway \<Rightarrow> 'w cloud_client list" where
  "gateway_getAll g = map snd (gw_clients g)"

definition addCloudClient ::
    "'w provider_makers \<Rightarrow> ident \<Rightarrow> string \<Rightarrow> provider_configuration \<Rightarrow> string \<Rightarrow> bool \<Rightarrow> 'w gateway \<Rightarrow>
     (exn + 'w cloud_client option) \<times> 'w gateway" where
  "addCloudClient mk i n pc prefix visible g =
     (case factory_getClient mk i n (pc_name pc) (Some pc) prefix visible of
        Inr c \<Rightarrow> (Inr (Some c), g\<lparr>gw_clients := AList.update i c (gw_clients g)\<rparr>)
      | Inl (CloudException s) \<Rightarrow> (Inr None, g)
      | Inl e \<Rightarrow> (Inl e, g))"

definition removeCloudClient :: "ident \<Rightarrow> 'w gateway \<Rightarrow> 'w gateway" where
  "removeCloudClient i g = g\<lparr>gw_clients := AList.delete i (gw_clients g)\<rparr>"

definition updateCloudClient ::
    "'w provider_makers \<Rightarrow> ident \<Rightarrow> string \<Rightarrow> provider_configuration \<Rightarrow> string \<Rightarrow> bool \<Rightarrow> 'w gateway \<Rightarrow>
     (exn + 'w cloud_client option) \<times> 'w gateway" where
  "updateCloudClient mk i n pc prefix visible g =
     addCloudClient mk i n pc prefix visible (removeCloudClient i g)"

text \<open>
  CloudProviderService turns a stored configuration into the one the gateway takes. The
  parameters go into a map one by one, so the last one of a key counts.
\<close>

definition convert_configuration :: "cloud_provider_configuration \<Rightarrow> provider_configuration" where
  "convert_configuration c = \<lparr>pc_name = cpc_type c, pc_parameters = rev (cpc_parameters c)\<rparr>"

definition service_addCloudClient ::
    "'w provider_makers \<Rightarrow> cloud_provider_configuration \<Rightarrow> 'w gateway \<Rightarrow>
     (exn + 'w cloud_client option) \<times> 'w gateway" where
  "service_addCloudClient mk c g =
     addCloudClient mk (cpc_id c) (cpc_name c) (convert_configuration c) (cpc_server_name_prefix c)
       (cpc_visible c) g"

text \<open>At start-up the service adds a client for every configuration, until one fails.\<close>

fun service_init :: "'w provider_makers \<Rightarrow> cloud_provider_configuration list \<Rightarrow> 'w gateway \<Rightarrow>
    exn option \<times> 'w gateway" where
  "service_init mk [] g = (None, g)"
| "service_init mk (c # cs) g =
     (case service_addCloudClient mk c g of
        (Inl e, g') \<Rightarrow> (Some e, g')
      | (Inr _, g') \<Rightarrow> service_init mk cs g')"

section \<open>Security groups of an OpenStack server\<close>

datatype sg_request = RemoveSecurityGroup string | AddSecurityGroup string

definition os_groups_to_remove :: "string list \<Rightarrow> string list \<Rightarrow> string list" where
  "os_groups_to_remove current wanted = filter (\<lambda>n. n \<notin> set wanted) current"

definition os_groups_to_add :: "string list \<Rightarrow> string list \<Rightarrow> string list" where
  "os_groups_to_add current wanted = filter (\<lambda>n. n \<notin> set current) wanted"

text \<open>
  The requests to the server are an argument, \<open>send\<close>: it answers whether the response was
  successful, and an unsuccessful one is only logged. The first request reads the names.
\<close>

definition os_updateSecurityGroups ::
    "(sg_request \<Rightarrow> 'w \<Rightarrow> bool \<times> 'w) \<Rightarrow> ('w \<Rightarrow> string list option) \<Rightarrow> string list \<Rightarrow> 'w \<Rightarrow> exn option \<times> 'w" where
  "os_updateSecurityGroups send get wanted w =
     (case get w of
        None \<Rightarrow> (Some NullPointer, w)
      | Some current \<Rightarrow>
          (let w1 = fold (\<lambda>n v. snd (send (RemoveSecurityGroup n) v)) (os_groups_to_remove current wanted) w;
               w2 = fold (\<lambda>n v. snd (send (AddSecurityGroup n) v)) (os_groups_to_add current wanted) w1
           in (None, w2)))"

section \<open>Facts\<close>

lemma cloud_state_name_inj: "cloud_state_name a = cloud_state_name b \<Longrightarrow> a = b"
  by (cases a; cases b) simp_all

lemma cloud_state_mem: "c \<in> set cloud_states"
  by (cases c) (simp_all add: cloud_states_def)

lemma web_convertStatus_name: "web_convertStatus (cloud_state_name c) = Inr c"
  by (cases c) (simp_all add: web_convertStatus_def cloud_states_def)

lemma web_convertStatus_Inr: "web_convertStatus s = Inr c \<longleftrightarrow> s = cloud_state_name c"
proof
  assume "web_convertStatus s = Inr c"
  then show "s = cloud_state_name c"
    by (auto simp: web_convertStatus_def split: option.splits dest!: find_Some_mem)
qed (simp add: web_convertStatus_name)

text \<open>Every client of a gateway is held under its own identifier, and only once.\<close>

definition gateway_ok :: "'w gateway \<Rightarrow> bool" where
  "gateway_ok g \<longleftrightarrow> distinct (map fst (gw_clients g)) \<and> list_all (\<lambda>(i, c). cc_id c = i) (gw_clients g)"

lemma factory_id: "factory_getClient mk i n p pc prefix v = Inr c \<Longrightarrow> cc_id c = i"
  by (auto simp: factory_getClient_def Let_def split: if_splits option.splits)

lemma gateway_init_ok: "gateway_init mk conf = Inr g \<Longrightarrow> gateway_ok g"
  by (auto simp: gateway_init_def gateway_ok_def split: sum.splits exn.splits)

lemma update_ids:
  "list_all (\<lambda>(i, c). cc_id c = i) xs \<Longrightarrow> cc_id c = i \<Longrightarrow>
     list_all (\<lambda>(i, c). cc_id c = i) (AList.update i c xs)"
  by (induction xs) auto

lemma delete_ids:
  "list_all (\<lambda>(i, c). cc_id c = i) xs \<Longrightarrow> list_all (\<lambda>(i, c). cc_id c = i) (AList.delete i xs)"
  by (induction xs) auto

lemma addCloudClient_ok: "gateway_ok g \<Longrightarrow> gateway_ok (snd (addCloudClient mk i n pc p v g))"
  by (auto simp: addCloudClient_def gateway_ok_def update_ids AList.distinct_update factory_id
      split: sum.splits exn.splits)

lemma removeCloudClient_ok: "gateway_ok g \<Longrightarrow> gateway_ok (removeCloudClient i g)"
  by (simp add: removeCloudClient_def gateway_ok_def delete_ids AList.distinct_delete)

lemma updateCloudClient_ok: "gateway_ok g \<Longrightarrow> gateway_ok (snd (updateCloudClient mk i n pc p v g))"
  by (simp add: updateCloudClient_def addCloudClient_ok removeCloudClient_ok)

lemma service_addCloudClient_ok: "gateway_ok g \<Longrightarrow> service_addCloudClient mk c g = (r, g') \<Longrightarrow> gateway_ok g'"
  using addCloudClient_ok [of g] by (metis service_addCloudClient_def snd_conv)

lemma service_init_ok: "gateway_ok g \<Longrightarrow> gateway_ok (snd (service_init mk cs g))"
  by (induction cs arbitrary: g) (auto split: prod.splits sum.splits dest: service_addCloudClient_ok)

lemma getCloudClient_add_other:
  "j \<noteq> i \<Longrightarrow> getCloudClient (snd (addCloudClient mk i n pc p v g)) (Some j) = getCloudClient g (Some j)"
  by (auto simp: addCloudClient_def getCloudClient_def update_conv' split: sum.splits exn.splits)

lemma getCloudClient_add:
  "addCloudClient mk i n pc p v g = (Inr (Some c), g') \<Longrightarrow> getCloudClient g' (Some i) = Some c"
  by (auto simp: addCloudClient_def getCloudClient_def update_conv' split: sum.splits exn.splits)

lemma getCloudClient_remove:
  "getCloudClient (removeCloudClient i g) (Some j) = (if j = i then None else getCloudClient g (Some j))"
  by (simp add: removeCloudClient_def getCloudClient_def delete_conv')

text \<open>The requests of an update leave the server with the groups that were wanted.\<close>

lemma fold_remove:
  assumes "\<And>n w. grp (snd (send (RemoveSecurityGroup n) w)) = grp w - {n}"
  shows "grp (fold (\<lambda>n v. snd (send (RemoveSecurityGroup n) v)) ns w) = grp w - set ns"
  by (induction ns arbitrary: w) (auto simp: assms)

lemma fold_add:
  assumes "\<And>n w. grp (snd (send (AddSecurityGroup n) w)) = insert n (grp w)"
  shows "grp (fold (\<lambda>n v. snd (send (AddSecurityGroup n) v)) ns w) = grp w \<union> set ns"
  by (induction ns arbitrary: w) (auto simp: assms)

end
