(* ===== verification/Instance_Service.thy ===== *)
theory Instance_Service
  imports Repositories Cloud "HOL-Library.Monad_Syntax"
begin

text \<open>
  InstanceService: creation and saving of instances, the unique identifier, and who may
  act on an instance: owners, members, administrators and the three kinds of support.
  One call reads the clock several times; the model reads it once per operation.
\<close>

section \<open>Unique identifiers\<close>

text \<open>
  The identifier must contain a letter, so that it is no instance number. The strings come
  from a random source outside the code, the sequence \<open>gen\<close>; the loop has no bound.
\<close>

definition is_letter :: "char \<Rightarrow> bool" where
  "is_letter c \<longleftrightarrow> (let n = (of_char c :: nat) in 65 \<le> n \<and> n \<le> 90 \<or> 97 \<le> n \<and> n \<le> 122)"

definition uid_acceptable :: "string \<Rightarrow> db \<Rightarrow> bool" where
  "uid_acceptable s d \<longleftrightarrow> list_ex is_letter s \<and> inst_getByUID s d = None"

partial_function (option) getUID_from :: "(nat \<Rightarrow> string) \<Rightarrow> db \<Rightarrow> nat \<Rightarrow> string option" where
  "getUID_from gen d k =
     (if uid_acceptable (gen k) d then Some (gen k) else getUID_from gen d (k + 1))"

definition getUID :: "(nat \<Rightarrow> string) \<Rightarrow> db \<Rightarrow> string option" where
  "getUID gen d = getUID_from gen d 0"

section \<open>Creation\<close>

record instance_configuration =
  userMaxLifetimeDurationHours :: int
  staffMaxLifetimeDurationHours :: int
  userMaxInactivityDurationHours :: int
  staffMaxInactivityDurationHours :: int
  defaultUserInstanceQuota :: int
  activityRetentionPeriodDays :: int

definition default_configuration :: instance_configuration where
  "default_configuration =
     \<lparr>userMaxLifetimeDurationHours = 336, staffMaxLifetimeDurationHours = 1440,
      userMaxInactivityDurationHours = 96, staffMaxInactivityDurationHours = 192,
      defaultUserInstanceQuota = 2, activityRetentionPeriodDays = 2\<rparr>"

definition hours_ms :: "int \<Rightarrow> int" where
  "hours_ms h = h * 60 * 60 * 1000"

definition owner_is_staff :: "date \<Rightarrow> inst \<Rightarrow> bool" where
  "owner_is_staff now i \<longleftrightarrow>
     (case getOwner i of None \<Rightarrow> False | Some m \<Rightarrow> hasRole now (mem_user m) STAFF_ROLE)"

definition inst_create ::
    "instance_configuration \<Rightarrow> (nat \<Rightarrow> string) \<Rightarrow> date \<Rightarrow> inst_builder \<Rightarrow> db \<Rightarrow> (inst \<times> db) option" where
  "inst_create conf gen now b d =
     (case getUID gen d of
        None \<Rightarrow> None
      | Some u \<Rightarrow>
          (let i = build_inst now (b\<lparr>b_uid := u, b_state := BUILDING, b_last_seen_at := Some now\<rparr>);
               h = (if owner_is_staff now i then staffMaxLifetimeDurationHours conf
                    else userMaxLifetimeDurationHours conf)
           in Some (inst_save now (i\<lparr>termination_date := Some (now + hours_ms h)\<rparr>) d)))"

section \<open>Authorisation\<close>

definition support_window_days :: "32 word" where
  "support_window_days = 7"

definition isOwnerOrAdmin :: "date \<Rightarrow> user \<Rightarrow> inst \<Rightarrow> bool" where
  "isOwnerOrAdmin now u i \<longleftrightarrow> isOwner u i \<or> hasRole now u ADMIN_ROLE"

definition on_id :: "inst \<Rightarrow> (ident \<Rightarrow> inst option) \<Rightarrow> inst option" where
  "on_id i f = (case inst_id i of None \<Rightarrow> None | Some n \<Rightarrow> f n)"

definition isInstanceSupport :: "date \<Rightarrow> user \<Rightarrow> inst \<Rightarrow> db \<Rightarrow> bool" where
  "isInstanceSupport now u i d =
     (if hasRole now u ADMIN_ROLE then True
      else if hasRole now u IT_SUPPORT_ROLE then
        on_id i (\<lambda>n. inst_getByIdForITSupport n d) \<noteq> None
      else if hasRole now u INSTRUMENT_CONTROL_ROLE then
        on_id i (\<lambda>n. inst_getByIdForInstrumentControlSupport now n support_window_days d) \<noteq> None
      else if hasRole now u INSTRUMENT_SCIENTIST_ROLE then
        on_id i (\<lambda>n. inst_getByIdForInstrumentScientist u n d) \<noteq> None
      else False)"

definition isAuthorisedForInstance :: "date \<Rightarrow> user \<Rightarrow> inst \<Rightarrow> db \<Rightarrow> bool" where
  "isAuthorisedForInstance now u i d \<longleftrightarrow>
     (if isMember u i then True else isInstanceSupport now u i d)"

section \<open>Instances of each cloud\<close>

definition client_equals :: "'w cloud_client \<Rightarrow> 'w cloud_client \<Rightarrow> bool" where
  "client_equals a b \<longleftrightarrow>
     cc_id a = cc_id b \<and> cc_name a = cc_name b \<and> cc_server_name_prefix a = cc_server_name_prefix b"

definition served_by :: "'w gateway \<Rightarrow> 'w cloud_client \<Rightarrow> inst \<Rightarrow> bool" where
  "served_by g c i \<longleftrightarrow>
     (case getCloudClient g (getCloudId i) of None \<Rightarrow> False | Some c' \<Rightarrow> client_equals c' c)"

text \<open>The map has the gateway's clients as keys; an instance of another client is a null pointer.\<close>

definition getAllByCloud :: "'w gateway \<Rightarrow> db \<Rightarrow> exn + ('w cloud_client \<times> inst list) list" where
  "getAllByCloud g d =
     (let clients = gateway_getAll g
      in if list_all (\<lambda>i. getCloudClient g (getCloudId i) = None \<or> list_ex (\<lambda>c. served_by g c i) clients)
              (inst_getAll d)
         then Inr (map (\<lambda>c. (c, filter (served_by g c) (inst_getAll d))) clients)
         else Inl NullPointer)"

section \<open>Facts\<close>

lemma getUID_from_Some:
  assumes "getUID_from gen d k = Some s"
  shows "uid_acceptable s d \<and> (\<exists>j \<ge> k. s = gen j)"
proof (rule getUID_from.raw_induct [OF _ assms])
  fix f and gen :: "nat \<Rightarrow> string" and d s and k :: nat
  assume IH: "\<And>gen d k s. f gen d k = Some s \<Longrightarrow> uid_acceptable s d \<and> (\<exists>j \<ge> k. s = gen j)"
    and eq: "(if uid_acceptable (gen k) d then Some (gen k) else f gen d (k + 1)) = Some s"
  show "uid_acceptable s d \<and> (\<exists>j \<ge> k. s = gen j)"
  proof (cases "uid_acceptable (gen k) d")
    case True
    then have "s = gen k" using eq by simp
    with True show ?thesis by blast
  next
    case False
    then have "f gen d (k + 1) = Some s" using eq by simp
    from IH [OF this] obtain j where "uid_acceptable s d" "k + 1 \<le> j" "s = gen j" by blast
    then show ?thesis by (intro conjI exI [of _ j]) simp_all
  qed
qed

lemma getUID_from_terminates:
  "uid_acceptable (gen (k + n)) d \<Longrightarrow> \<exists>s. getUID_from gen d k = Some s"
proof (induction n arbitrary: k)
  case 0
  then show ?case by (subst getUID_from.simps) simp
next
  case (Suc n)
  then show ?case by (subst getUID_from.simps) (auto simp del: getUID_from.simps)
qed

lemma list_find_weaker:
  "List.find P xs \<noteq> None \<Longrightarrow> (\<And>x. P x \<Longrightarrow> Q x) \<Longrightarrow> List.find Q xs \<noteq> None"
  by (auto simp: find_not_None_iff simp del: not_None_eq)

text \<open>Whoever is support but not administrator is support of an instance that is not deleted.\<close>

lemma support_live:
  assumes "isInstanceSupport now u i d" and "\<not> hasRole now u ADMIN_ROLE"
  shows "\<exists>n. inst_id i = Some n \<and> inst_getById n d \<noteq> None"
proof -
  obtain n where n: "inst_id i = Some n"
    using assms by (auto simp: isInstanceSupport_def on_id_def split: if_splits option.splits)
  have "inst_getById n d \<noteq> None"
    using assms n unfolding inst_getById_def
    by (auto simp: isInstanceSupport_def on_id_def inst_getByIdForITSupport_def inst_getById_def
        inst_getByIdForInstrumentControlSupport_def inst_getByIdForExperimentBetweenDates_def
        inst_getByIdForInstrumentScientist_def find_not_None_iff simp del: not_None_eq split: if_splits)
  with n show ?thesis by blast
qed

end
