(* ===== verification/Samples.thy ===== *)
theory Samples
  imports Repositories
begin

text \<open>
  A small concrete server, for the theorems that apply a property at an input: three users,
  one image with two protocols, an instance with an owner and a guest, and a database with
  that instance, one desktop session with two members, a notebook and an expiration.
\<close>

definition sample_role :: "ident \<Rightarrow> string \<Rightarrow> role" where
  "sample_role n s = \<lparr>role_id = Some n, role_name = s, role_description = None,
     group_created_at = None, group_deleted_at = None\<rparr>"

definition sample_user :: "string \<Rightarrow> role list \<Rightarrow> user" where
  "sample_user s rs = \<lparr>user_id = s, user_first_name = s, user_last_name = s, user_email = None,
     user_affiliation = None, user_roles = map (\<lambda>r. \<lparr>ur_role = r, ur_expires_at = None\<rparr>) rs,
     user_last_seen_at = None, user_activated_at = None, user_instance_quota = 2\<rparr>"

definition alice :: user where "alice = sample_user ''alice'' []"
definition bob :: user where "bob = sample_user ''bob'' [sample_role 1 STAFF_ROLE]"
definition carol :: user where "carol = sample_user ''carol'' [sample_role 2 ADMIN_ROLE]"
definition dave :: user where "dave = sample_user ''dave'' [sample_role 3 IT_SUPPORT_ROLE]"

definition sample_image :: image where
  "sample_image = \<lparr>created_at = None, updated_at = None, img_id = Some 1, img_name = ''debian'',
     img_description = None, img_icon = None, img_compute_id = ''image-1'', img_version = None,
     img_deleted = False, img_visible = True, img_boot_command = None, img_autologin = None,
     img_protocols = [\<lparr>ip_id = Some 1, ip_name = ''RDP'', ip_port = 3389, ip_optional = False\<rparr>,
        \<lparr>ip_id = Some 2, ip_name = ''JUPYTER'', ip_port = 8888, ip_optional = True\<rparr>],
     img_cloud = None\<rparr>"

definition sample_flavour :: flavour where
  "sample_flavour = \<lparr>created_at = None, updated_at = None, fl_id = Some 1, fl_name = ''small'',
     fl_memory = 4096, fl_cpu = 2, fl_compute_id = ''flavour-1'', fl_deleted = False, fl_cloud = None\<rparr>"

definition sample_plan :: plan where
  "sample_plan = \<lparr>created_at = None, updated_at = None, plan_id = Some 1, plan_image = sample_image,
     plan_flavour = sample_flavour, plan_preset = False, plan_deleted_at = None\<rparr>"

definition sample_member :: "ident \<Rightarrow> user \<Rightarrow> member_role \<Rightarrow> instance_member" where
  "sample_member n u r = (new_member u r)\<lparr>mem_id := Some n\<rparr>"

definition sample_inst :: "ident \<Rightarrow> instance_state \<Rightarrow> instance_member list \<Rightarrow> inst" where
  "sample_inst n s ms = \<lparr>created_at = Some 0, updated_at = Some 0, inst_id = Some n, uid = ''abcdefgh'',
     compute_id = Some ''compute-1'', inst_name = ''work'', comments = None, inst_plan = sample_plan,
     username = Some ''alice'', ip_address = Some ''10.0.0.1'', state = s, screen_width = 1920,
     screen_height = 1080, last_seen_at = Some 1000, last_interaction_at = Some 1000,
     termination_date = Some 2000000000, deleted_at = None, delete_requested = False,
     unrestricted_member_access = None, members = ms, experiments = [], attributes = [],
     keyboard_layout = ''en-gb'', security_groups = [], active_protocols = []\<rparr>"

definition inst_alice :: inst where
  "inst_alice = sample_inst 1 ACTIVE [sample_member 1 alice OWNER, sample_member 2 bob USER]"

definition inst_bob :: inst where
  "inst_bob = sample_inst 2 ACTIVE [sample_member 3 bob OWNER, sample_member 4 alice GUEST]"

definition sample_session :: session where
  "sample_session = \<lparr>created_at = Some 0, updated_at = Some 0, ses_id = Some 1,
     ses_connection_id = ''c-1'', ses_inst = 1, ses_current = True\<rparr>"

definition sample_session_member :: "ident \<Rightarrow> uuid \<Rightarrow> user \<Rightarrow> session_member" where
  "sample_session_member n sid u = \<lparr>created_at = Some 0, updated_at = Some 0, sm_id = Some n,
     sm_session = 1, sm_session_id = sid, sm_user = u, sm_role = ''OWNER'', sm_active = True,
     sm_last_seen_at = Some 0, sm_last_interaction_at = Some 0\<rparr>"

definition sample_jupyter :: jupyter_session where
  "sample_jupyter = \<lparr>created_at = Some 0, updated_at = Some 0, js_id = Some 1, js_inst = 1,
     js_user = alice, js_kernel_id = ''k'', js_session_id = ''s'', js_active = True\<rparr>"

definition sample_expiration :: "ident \<Rightarrow> ident \<Rightarrow> date \<Rightarrow> expiration" where
  "sample_expiration n i t = \<lparr>created_at = Some 500, updated_at = Some 500, ie_id = Some n,
     ie_inst = i, ie_date = t\<rparr>"

definition sample_db :: db where
  "sample_db = empty_db
     \<lparr>t_inst := \<lparr>rows = [inst_alice, inst_bob], next_id = 3\<rparr>, member_next := 5,
      t_session := \<lparr>rows = [sample_session], next_id = 2\<rparr>,
      t_session_member := \<lparr>rows = [sample_session_member 1 ''sid-1'' alice,
        sample_session_member 2 ''sid-2'' bob], next_id = 3\<rparr>,
      t_jupyter := \<lparr>rows = [sample_jupyter], next_id = 2\<rparr>,
      t_user := [alice, bob, carol, dave]\<rparr>"

lemmas sample_users = alice_def bob_def carol_def dave_def sample_user_def sample_role_def

lemmas sample_insts = inst_alice_def inst_bob_def sample_inst_def sample_member_def new_member_def

lemmas sample_rows = sample_db_def empty_db_def sample_session_def sample_session_member_def
  sample_jupyter_def sample_expiration_def

lemma sample_ids [simp]:
  "inst_id inst_alice = Some 1" "inst_id inst_bob = Some 2"
  "user_id alice = ''alice''" "user_id bob = ''bob''" "user_id carol = ''carol''" "user_id dave = ''dave''"
  by (simp_all add: sample_insts sample_users)

lemma sample_db_instances: "table_ok inst_id (t_inst sample_db)"
  by (simp add: table_ok_def sample_db_def empty_db_def)

lemma sample_roles:
  "hasRole now alice n \<longleftrightarrow> False"
  "hasRole now bob n \<longleftrightarrow> n = STAFF_ROLE"
  "hasRole now carol n \<longleftrightarrow> n = ADMIN_ROLE"
  "hasRole now dave n \<longleftrightarrow> n = IT_SUPPORT_ROLE"
  by (auto simp: hasRole_iff active_at_def sample_users)

end
