(* ===== verification/Sessions.thy ===== *)
theory Sessions
  imports Instance_Service Samples
begin

text \<open>
  Sessions on an instance: InstanceSessionService with the members connected to a remote
  desktop, and InstanceJupyterSessionService with the notebooks that are open. A session is
  current while a member is active; both are kept as history when they end.
\<close>

section \<open>InstanceSessionService\<close>

definition session_create :: "date \<Rightarrow> inst \<Rightarrow> string \<Rightarrow> db \<Rightarrow> session \<times> db" where
  "session_create now i conn d =
     ses_save now \<lparr>created_at = None, updated_at = None, ses_id = None, ses_connection_id = conn,
        ses_inst = id_key (inst_id i), ses_current = True\<rparr> d"

definition addInstanceSessionMember :: "date \<Rightarrow> session \<Rightarrow> uuid \<Rightarrow> user \<Rightarrow> string \<Rightarrow> db \<Rightarrow> db" where
  "addInstanceSessionMember now s sid u r d =
     snd (sm_save now \<lparr>created_at = None, updated_at = None, sm_id = None,
        sm_session = id_key (ses_id s), sm_session_id = sid, sm_user = u, sm_role = r,
        sm_active = True, sm_last_seen_at = Some now, sm_last_interaction_at = Some now\<rparr> d)"

definition removeInstanceSessionMember :: "date \<Rightarrow> session \<Rightarrow> uuid \<Rightarrow> db \<Rightarrow> exn + db" where
  "removeInstanceSessionMember now s sid d =
     and_then (sm_getSessionMember s sid d) (\<lambda>r.
       case r of
         None \<Rightarrow> Inr d
       | Some m \<Rightarrow>
           (let d1 = snd (sm_save now (m\<lparr>sm_active := False\<rparr>) d);
                s' = (if sm_getAllSessionMembers s d1 = [] then s\<lparr>ses_current := False\<rparr> else s)
            in Inr (snd (ses_save now s' d1))))"

definition end_session :: "date \<Rightarrow> session \<Rightarrow> db \<Rightarrow> db" where
  "end_session now s d = snd (ses_save now (s\<lparr>ses_current := False\<rparr>) d)"

definition end_session_member :: "date \<Rightarrow> session_member \<Rightarrow> db \<Rightarrow> db" where
  "end_session_member now m d = snd (sm_save now (m\<lparr>sm_active := False\<rparr>) d)"

definition end_jupyter :: "date \<Rightarrow> jupyter_session \<Rightarrow> db \<Rightarrow> db" where
  "end_jupyter now s d = snd (js_save now (s\<lparr>js_active := False\<rparr>) d)"

definition jupyter_cleanupSession :: "date \<Rightarrow> db \<Rightarrow> db" where
  "jupyter_cleanupSession now d = fold (end_jupyter now) (js_getAll d) d"

definition cleanupSession :: "date \<Rightarrow> db \<Rightarrow> db" where
  "cleanupSession now d =
     (let d1 = fold (end_session now) (ses_getAll d) d;
          d2 = fold (end_session_member now) (sm_getAll d1) d1
      in jupyter_cleanupSession now d2)"

text \<open>What the actions on an instance do to its sessions.\<close>

definition clearSessionsForInstance :: "date \<Rightarrow> inst \<Rightarrow> db \<Rightarrow> db" where
  "clearSessionsForInstance now i d =
     (let d1 = fold (end_session now) (ses_getAllByInstance i d) d
      in fold (end_session_member now) (sm_getAllForInstance i d1) d1)"

definition canConnectWhileOwnerAway :: "date \<Rightarrow> inst \<Rightarrow> user \<Rightarrow> db \<Rightarrow> exn + bool" where
  "canConnectWhileOwnerAway now i u d =
     (if isOwner u i then Inr True
      else if isMember u i \<and> canAccessWhenOwnerAway i then Inr True
      else
        (let support = isInstanceSupport now u i d
         in case getOwner i of
              None \<Rightarrow> Inl NullPointer
            | Some w \<Rightarrow>
                (let external = \<not> hasRole now (mem_user w) STAFF_ROLE
                 in Inr (if support then canAccessWhenOwnerAway i \<or> external else False))))"

section \<open>InstanceJupyterSessionService\<close>

definition jupyter_destroy :: "date \<Rightarrow> inst \<Rightarrow> string \<Rightarrow> string \<Rightarrow> db \<Rightarrow> db" where
  "jupyter_destroy now i k sid d = fold (end_jupyter now) (js_getAllByInstanceKernelSession i k sid d) d"

definition jupyter_create ::
    "date \<Rightarrow> inst \<Rightarrow> user \<Rightarrow> string \<Rightarrow> string \<Rightarrow> db \<Rightarrow> jupyter_session \<times> db" where
  "jupyter_create now i u k sid d =
     js_save now \<lparr>created_at = None, updated_at = None, js_id = None, js_inst = id_key (inst_id i),
        js_user = u, js_kernel_id = k, js_session_id = sid, js_active = True\<rparr>
       (jupyter_destroy now i k sid d)"

section \<open>Facts\<close>

text \<open>A fold of saves over the rows of one table is the fold on that table.\<close>

lemma ses_save_table:
  "t_session (snd (ses_save now s d)) =
     snd (save_row ses_id (\<lambda>n x. x\<lparr>ses_id := Some n\<rparr>) on_create on_update now s (t_session d))"
  by (simp add: ses_save_def split: prod.splits)

lemma ses_save_frame:
  "t_session_member (snd (ses_save now s d)) = t_session_member d"
  "t_jupyter (snd (ses_save now s d)) = t_jupyter d"
  "t_inst (snd (ses_save now s d)) = t_inst d"
  by (simp_all add: ses_save_def split: prod.splits)

lemma sm_save_table:
  "t_session_member (snd (sm_save now s d)) =
     snd (save_row sm_id (\<lambda>n x. x\<lparr>sm_id := Some n\<rparr>) on_create on_update now s (t_session_member d))"
  by (simp add: sm_save_def split: prod.splits)

lemma sm_save_frame:
  "t_session (snd (sm_save now s d)) = t_session d"
  "t_jupyter (snd (sm_save now s d)) = t_jupyter d"
  "t_inst (snd (sm_save now s d)) = t_inst d"
  by (simp_all add: sm_save_def split: prod.splits)

lemma js_save_table:
  "t_jupyter (snd (js_save now s d)) =
     snd (save_row js_id (\<lambda>n x. x\<lparr>js_id := Some n\<rparr>) on_create on_update now s (t_jupyter d))"
  by (simp add: js_save_def split: prod.splits)

lemma js_save_frame:
  "t_session (snd (js_save now s d)) = t_session d"
  "t_session_member (snd (js_save now s d)) = t_session_member d"
  "t_inst (snd (js_save now s d)) = t_inst d"
  by (simp_all add: js_save_def split: prod.splits)

lemmas session_frames = ses_save_frame sm_save_frame js_save_frame

lemma fold_end_session:
  "t_session (fold (end_session now) ss d) =
     fold (\<lambda>s u. snd (save_row ses_id (\<lambda>n x. x\<lparr>ses_id := Some n\<rparr>) on_create on_update now
       (s\<lparr>ses_current := False\<rparr>) u)) ss (t_session d)"
  "t_session_member (fold (end_session now) ss d) = t_session_member d"
  "t_jupyter (fold (end_session now) ss d) = t_jupyter d"
  "t_inst (fold (end_session now) ss d) = t_inst d"
  by (induction ss arbitrary: d) (simp_all add: end_session_def ses_save_table session_frames)

lemma fold_end_session_member:
  "t_session_member (fold (end_session_member now) ms d) =
     fold (\<lambda>m u. snd (save_row sm_id (\<lambda>n x. x\<lparr>sm_id := Some n\<rparr>) on_create on_update now
       (m\<lparr>sm_active := False\<rparr>) u)) ms (t_session_member d)"
  "t_session (fold (end_session_member now) ms d) = t_session d"
  "t_jupyter (fold (end_session_member now) ms d) = t_jupyter d"
  "t_inst (fold (end_session_member now) ms d) = t_inst d"
  by (induction ms arbitrary: d) (simp_all add: end_session_member_def sm_save_table session_frames)

lemma fold_end_jupyter:
  "t_jupyter (fold (end_jupyter now) ss d) =
     fold (\<lambda>s u. snd (save_row js_id (\<lambda>n x. x\<lparr>js_id := Some n\<rparr>) on_create on_update now
       (s\<lparr>js_active := False\<rparr>) u)) ss (t_jupyter d)"
  "t_session (fold (end_jupyter now) ss d) = t_session d"
  "t_session_member (fold (end_jupyter now) ss d) = t_session_member d"
  "t_inst (fold (end_jupyter now) ss d) = t_inst d"
  by (induction ss arbitrary: d) (simp_all add: end_jupyter_def js_save_table session_frames)

definition sessions_ok :: "db \<Rightarrow> bool" where
  "sessions_ok d \<longleftrightarrow> table_ok ses_id (t_session d) \<and> table_ok sm_id (t_session_member d)
     \<and> table_ok js_id (t_jupyter d)"

lemma end_sessions_rows:
  assumes "table_ok ses_id (t_session d)" and "set ss \<subseteq> set (rows (t_session d))" and "distinct ss"
  shows "rows (t_session (fold (end_session now) ss d))
    = map (\<lambda>s. if s \<in> set ss then on_update now (s\<lparr>ses_current := False\<rparr>) else s) (rows (t_session d))"
  unfolding fold_end_session(1) by (rule sessions.fold_save [OF assms]) simp

lemma end_session_members_rows:
  assumes "table_ok sm_id (t_session_member d)" and "set ms \<subseteq> set (rows (t_session_member d))"
    and "distinct ms"
  shows "rows (t_session_member (fold (end_session_member now) ms d))
    = map (\<lambda>m. if m \<in> set ms then on_update now (m\<lparr>sm_active := False\<rparr>) else m) (rows (t_session_member d))"
  unfolding fold_end_session_member(1) by (rule session_members.fold_save [OF assms]) simp

lemma end_jupyter_rows:
  assumes "table_ok js_id (t_jupyter d)" and "set ss \<subseteq> set (rows (t_jupyter d))" and "distinct ss"
  shows "rows (t_jupyter (fold (end_jupyter now) ss d))
    = map (\<lambda>s. if s \<in> set ss then on_update now (s\<lparr>js_active := False\<rparr>) else s) (rows (t_jupyter d))"
  unfolding fold_end_jupyter(1) by (rule jupyter_sessions.fold_save [OF assms]) simp

lemma cleanup_tables:
  assumes "sessions_ok d"
  shows "rows (t_session (cleanupSession now d)) =
      map (\<lambda>s. if ses_current s then on_update now (s\<lparr>ses_current := False\<rparr>) else s) (rows (t_session d))"
    and "rows (t_session_member (cleanupSession now d)) =
      map (\<lambda>m. if sm_active m then on_update now (m\<lparr>sm_active := False\<rparr>) else m) (rows (t_session_member d))"
    and "rows (t_jupyter (cleanupSession now d)) =
      map (\<lambda>s. if js_active s then on_update now (s\<lparr>js_active := False\<rparr>) else s) (rows (t_jupyter d))"
proof -
  have ok: "table_ok ses_id (t_session d)" "table_ok sm_id (t_session_member d)" "table_ok js_id (t_jupyter d)"
    using assms by (simp_all add: sessions_ok_def)
  note dist = sessions.rows_distinct [OF ok(1)] session_members.rows_distinct [OF ok(2)]
    jupyter_sessions.rows_distinct [OF ok(3)]
  let ?d1 = "fold (end_session now) (ses_getAll d) d"
  let ?d2 = "fold (end_session_member now) (sm_getAll ?d1) ?d1"
  have t: "t_session (cleanupSession now d) = t_session ?d1"
    "t_session_member (cleanupSession now d) = t_session_member ?d2"
    "t_jupyter (cleanupSession now d) = t_jupyter (fold (end_jupyter now) (js_getAll ?d2) ?d2)"
    by (simp_all add: cleanupSession_def jupyter_cleanupSession_def Let_def fold_end_session(2-)
        fold_end_session_member(2-) fold_end_jupyter(2-))
  show "rows (t_session (cleanupSession now d)) =
      map (\<lambda>s. if ses_current s then on_update now (s\<lparr>ses_current := False\<rparr>) else s) (rows (t_session d))"
    unfolding t using end_sessions_rows [OF ok(1), of "ses_getAll d" now] dist by (auto simp: ses_getAll_def)
  show "rows (t_session_member (cleanupSession now d)) =
      map (\<lambda>m. if sm_active m then on_update now (m\<lparr>sm_active := False\<rparr>) else m) (rows (t_session_member d))"
    unfolding t using end_session_members_rows [of ?d1 "sm_getAll ?d1" now] ok dist
    by (auto simp: sm_getAll_def fold_end_session)
  show "rows (t_jupyter (cleanupSession now d)) =
      map (\<lambda>s. if js_active s then on_update now (s\<lparr>js_active := False\<rparr>) else s) (rows (t_jupyter d))"
    unfolding t using end_jupyter_rows [of ?d2 "js_getAll ?d2" now] ok dist
    by (auto simp: js_getAll_def fold_end_session fold_end_session_member)
qed

lemma single_result_Inr:
  "single_result gid xs = Inr (Some x) \<Longrightarrow> x \<in> set xs \<and> (\<forall>y \<in> set xs. gid y = gid x)"
  by (cases xs) (auto simp: list_all_iff split: if_splits)

lemma single_result_None: "single_result gid xs = Inr None \<longleftrightarrow> xs = []"
  by (cases xs) auto

section \<open>Properties\<close>

text \<open>After the clean-up at start-up no session, session member or notebook is active,
  and every row is still there: the clean-up ends them and deletes nothing.\<close>

theorem cleanup_ends_all_sessions:
  assumes "sessions_ok d"
  shows "ses_getAll (cleanupSession now d) = [] \<and> sm_getAll (cleanupSession now d) = [] \<and>
    js_getAll (cleanupSession now d) = [] \<and>
    map ses_id (rows (t_session (cleanupSession now d))) = map ses_id (rows (t_session d)) \<and>
    map sm_id (rows (t_session_member (cleanupSession now d))) = map sm_id (rows (t_session_member d)) \<and>
    map js_id (rows (t_jupyter (cleanupSession now d))) = map js_id (rows (t_jupyter d))"
  using cleanup_tables [OF assms, of now]
  by (auto simp: ses_getAll_def sm_getAll_def js_getAll_def filter_empty_conv on_update_def
      simp flip: length_0_conv)

lemma sample_sessions_ok: "sessions_ok sample_db"
  by (simp add: sessions_ok_def table_ok_def sample_rows)

theorem cleanup_ends_all_sessions_witness:
  "ses_getAll sample_db \<noteq> [] \<and> ses_getAll (cleanupSession 7 sample_db) = [] \<and>
   sm_getAll sample_db \<noteq> [] \<and> sm_getAll (cleanupSession 7 sample_db) = []"
proof -
  have "ses_getAll sample_db \<noteq> []" "sm_getAll sample_db \<noteq> []"
    by (simp_all add: ses_getAll_def sm_getAll_def sample_rows)
  then show ?thesis using cleanup_ends_all_sessions [OF sample_sessions_ok, of 7] by simp
qed

text \<open>
  Removing a member: its row is no longer active, the other members are as they were, and
  the session is current afterwards exactly if it was and another member is still active.
\<close>

lemma remove_member_rows:
  assumes "sessions_ok d" and "sm_getSessionMember s sid d = Inr (Some m)"
  shows "rows (t_session_member (snd (sm_save now (m\<lparr>sm_active := False\<rparr>) d)))
    = map (\<lambda>x. if x = m then on_update now (m\<lparr>sm_active := False\<rparr>) else x) (rows (t_session_member d))"
proof -
  have "m \<in> set (rows (t_session_member d))"
    using assms(2) by (auto simp: sm_getSessionMember_def dest!: single_result_Inr)
  then show ?thesis
    using end_session_members_rows [of d "[m]" now] assms(1)
    by (simp add: sessions_ok_def end_session_member_def cong: if_cong)
qed

text \<open>Taking a connected user out of a session makes just that connection inactive; the
  session stays current if and only if it was current and somebody else is still connected.\<close>

theorem removing_last_member_ends_session:
  assumes "sessions_ok d" and "ses_id s = Some n" and "find_row ses_id n (t_session d) = Some s"
    and "sm_getSessionMember s sid d = Inr (Some m)"
    and "removeInstanceSessionMember now s sid d = Inr d'"
  shows "sm_getAllSessionMembers s d' = filter (\<lambda>x. x \<noteq> m) (sm_getAllSessionMembers s d) \<and>
    (\<exists>s'. ses_getById n d' = Some s' \<and>
      (ses_current s' \<longleftrightarrow> ses_current s \<and> sm_getAllSessionMembers s d' \<noteq> []))"
proof -
  let ?d1 = "snd (sm_save now (m\<lparr>sm_active := False\<rparr>) d)"
  let ?s' = "if sm_getAllSessionMembers s ?d1 = [] then s\<lparr>ses_current := False\<rparr> else s"
  have d': "d' = snd (ses_save now ?s' ?d1)"
    using assms(4,5) by (auto simp: removeInstanceSessionMember_def Let_def)
  have mem: "t_session_member d' = t_session_member ?d1" by (simp add: d' ses_save_frame)
  have "sm_getAllSessionMembers s ?d1 = filter (\<lambda>x. x \<noteq> m) (sm_getAllSessionMembers s d)"
    unfolding sm_getAllSessionMembers_def remove_member_rows [OF assms(1,4)]
    by (subst filter_replace_drop) (simp_all add: on_update_def)
  moreover have "sm_getAllSessionMembers s d' = sm_getAllSessionMembers s ?d1"
    by (simp add: sm_getAllSessionMembers_def mem)
  moreover have "find_row ses_id n (t_session d') = Some (on_update now ?s')"
    unfolding d' ses_save_table using assms(1,2,3)
    by (intro sessions.find_row_save_same [of _ _ s]) (simp_all add: sessions_ok_def sm_save_frame)
  ultimately show ?thesis by (auto simp: ses_getById_def on_update_def)
qed

theorem removing_last_member_ends_session_witness:
  "\<exists>d'. removeInstanceSessionMember 7 sample_session ''sid-1'' sample_db = Inr d' \<and>
     sm_getAllSessionMembers sample_session d' = [sample_session_member 2 ''sid-2'' bob]"
proof -
  have s: "ses_id sample_session = Some 1" "find_row ses_id 1 (t_session sample_db) = Some sample_session"
    by (simp_all add: sample_rows find_row_def)
  have m: "sm_getSessionMember sample_session ''sid-1'' sample_db = Inr (Some (sample_session_member 1 ''sid-1'' alice))"
    by (simp add: sm_getSessionMember_def session_refers_def sample_rows)
  obtain d' where r: "removeInstanceSessionMember 7 sample_session ''sid-1'' sample_db = Inr d'"
    by (simp add: removeInstanceSessionMember_def m Let_def)
  have "sm_getAllSessionMembers sample_session sample_db
      = [sample_session_member 1 ''sid-1'' alice, sample_session_member 2 ''sid-2'' bob]"
    by (simp add: sm_getAllSessionMembers_def session_refers_def sample_rows)
  then show ?thesis
    using removing_last_member_ends_session [OF sample_sessions_ok s m r] r
    by (simp add: sample_session_member_def)
qed

text \<open>C23: While its owner is away, an instance that belongs to a staff member who has not
  opened it to others can be entered by its owner only: neither members nor support nor
  administrators get in.\<close>

theorem restricted_staff_instance_owner_only:
  assumes "getOwner i = Some w" and "hasRole now (mem_user w) STAFF_ROLE"
    and "\<not> canAccessWhenOwnerAway i"
  shows "canConnectWhileOwnerAway now i u d = Inr (isOwner u i)"
  using assms by (simp add: canConnectWhileOwnerAway_def Let_def)

theorem restricted_staff_instance_owner_only_witness:
  "canConnectWhileOwnerAway 7 inst_bob carol sample_db = Inr False \<and>
   isInstanceSupport 7 carol inst_bob sample_db \<and>
   canConnectWhileOwnerAway 7 inst_bob bob sample_db = Inr True"
proof -
  have w: "getOwner inst_bob = Some (sample_member 3 bob OWNER)"
    by (simp add: getOwner_def isRole_def sample_insts)
  have "hasRole 7 (mem_user (sample_member 3 bob OWNER)) STAFF_ROLE"
    by (simp add: sample_member_def new_member_def sample_roles)
  moreover have "\<not> canAccessWhenOwnerAway inst_bob"
    by (simp add: canAccessWhenOwnerAway_def sample_insts)
  moreover have "isOwner bob inst_bob" "\<not> isOwner carol inst_bob"
    by (simp_all add: isOwner_iff sample_insts sample_users)
  ultimately show ?thesis
    using restricted_staff_instance_owner_only [OF w, of 7 carol sample_db]
      restricted_staff_instance_owner_only [OF w, of 7 bob sample_db]
    by (simp add: isInstanceSupport_def sample_roles)
qed

lemma save_new_rows:
  "gid x = None \<Longrightarrow> snd (save_row gid pid cre upd now x t)
     = t\<lparr>rows := rows t @ [pid (next_id t) (cre now x)], next_id := next_id t + 1\<rparr>"
  by (simp add: save_row_def persist_row_def Let_def)

lemma destroy_rows:
  assumes "sessions_ok d"
  shows "rows (t_jupyter (jupyter_destroy now i k sid d)) =
    map (\<lambda>s. if refers (js_inst s) i \<and> js_kernel_id s = k \<and> js_session_id s = sid \<and> js_active s
             then on_update now (s\<lparr>js_active := False\<rparr>) else s) (rows (t_jupyter d))"
proof -
  let ?P = "\<lambda>s. refers (js_inst s) i \<and> js_kernel_id s = k \<and> js_session_id s = sid \<and> js_active s"
  let ?ss = "js_getAllByInstanceKernelSession i k sid d"
  have ss: "set ?ss = {s \<in> set (rows (t_jupyter d)). ?P s}"
    by (auto simp: js_getAllByInstanceKernelSession_def)
  have ok: "table_ok js_id (t_jupyter d)" using assms by (simp add: sessions_ok_def)
  then have "distinct ?ss"
    by (simp add: js_getAllByInstanceKernelSession_def distinct_filter jupyter_sessions.rows_distinct)
  then have "rows (t_jupyter (jupyter_destroy now i k sid d)) =
      map (\<lambda>s. if s \<in> set ?ss then on_update now (s\<lparr>js_active := False\<rparr>) else s) (rows (t_jupyter d))"
    unfolding jupyter_destroy_def using ss by (intro end_jupyter_rows [OF ok]) auto
  then show ?thesis unfolding map_change_mem [OF ss] .
qed

text \<open>Opening a notebook leaves exactly one active notebook for its kernel and session on the
  instance, the one just opened, whatever was recorded before; other notebooks stay as they were.\<close>

theorem notebook_open_is_unique:
  assumes "sessions_ok d" and "inst_id i = Some n"
  shows "js_getAllByInstanceKernelSession i k sid (snd (jupyter_create now i u k sid d))
      = [fst (jupyter_create now i u k sid d)]
    \<and> js_user (fst (jupyter_create now i u k sid d)) = u
    \<and> ((k', sid') \<noteq> (k, sid) \<longrightarrow>
        js_getAllByInstanceKernelSession i k' sid' (snd (jupyter_create now i u k sid d))
          = js_getAllByInstanceKernelSession i k' sid' d)"
proof -
  let ?d1 = "jupyter_destroy now i k sid d"
  have new: "rows (t_jupyter (snd (jupyter_create now i u k sid d)))
      = rows (t_jupyter ?d1) @ [fst (jupyter_create now i u k sid d)]"
    by (simp add: jupyter_create_def js_save_def save_row_def persist_row_def Let_def)
  have f: "fst (jupyter_create now i u k sid d) = \<lparr>created_at = Some now, updated_at = Some now,
      js_id = Some (next_id (t_jupyter ?d1)), js_inst = n, js_user = u, js_kernel_id = k,
      js_session_id = sid, js_active = True\<rparr>"
    using assms(2) by (simp add: jupyter_create_def js_save_def save_row_def persist_row_def Let_def on_create_def)
  have off: "filter (\<lambda>s. refers (js_inst s) i \<and> js_kernel_id s = k \<and> js_session_id s = sid \<and> js_active s)
      (rows (t_jupyter ?d1)) = []"
    unfolding destroy_rows [OF assms(1)] by (rule filter_map_off) (simp add: on_update_def)
  have other: "filter (\<lambda>s. refers (js_inst s) i \<and> js_kernel_id s = k' \<and> js_session_id s = sid' \<and> js_active s)
      (rows (t_jupyter ?d1)) =
    filter (\<lambda>s. refers (js_inst s) i \<and> js_kernel_id s = k' \<and> js_session_id s = sid' \<and> js_active s)
      (rows (t_jupyter d))" if "(k', sid') \<noteq> (k, sid)"
    unfolding destroy_rows [OF assms(1)] using that
    by (intro filter_map_disjoint) (auto simp: on_update_def)
  have one: "js_getAllByInstanceKernelSession i k sid (snd (jupyter_create now i u k sid d))
      = [fst (jupyter_create now i u k sid d)]"
    unfolding js_getAllByInstanceKernelSession_def new filter_append off
    using assms(2) by (simp add: f refers_def)
  have "filter (\<lambda>s. refers (js_inst s) i \<and> js_kernel_id s = k' \<and> js_session_id s = sid' \<and> js_active s)
      [fst (jupyter_create now i u k sid d)] = []" if "(k', sid') \<noteq> (k, sid)"
    using that by (auto simp: f)
  with one other show ?thesis
    unfolding js_getAllByInstanceKernelSession_def new filter_append by (simp add: f)
qed

theorem notebook_open_is_unique_witness:
  "map js_user (js_getAllByInstanceKernelSession inst_alice ''k'' ''s''
     (snd (jupyter_create 7 inst_alice bob ''k'' ''s'' sample_db))) = [bob]"
  using notebook_open_is_unique [OF sample_sessions_ok sample_ids(1), of "''k''" "''s''" 7 bob] by simp

end
