(* ===== verification/Security_Groups.thy ===== *)
theory Security_Groups
  imports Instance_Service Samples "HOL-Library.Multiset"
begin

text \<open>
  SecurityGroupService: the names of the security groups an instance must have. The answer
  of the web service that adds custom groups is the argument \<open>custom\<close>. The comparison of
  the update job and the commands it issues are in the theory Scheduler.
\<close>

section \<open>Definitions\<close>

definition getAllForCloudClient :: "ident option \<Rightarrow> db \<Rightarrow> security_group list" where
  "getAllForCloudClient cid d = filter (hasSameCloudClientId cid) (sg_getAll d)"

definition getDefaultSecurityGroups :: "ident option \<Rightarrow> db \<Rightarrow> security_group list" where
  "getDefaultSecurityGroups cid d = filter (hasSameCloudClientId cid) (sg_getDefault d)"

definition getFlavourBasedSecurityGroups :: "flavour \<Rightarrow> ident option \<Rightarrow> db \<Rightarrow> security_group list" where
  "getFlavourBasedSecurityGroups f cid d = filter (hasSameCloudClientId cid) (sg_getFlavourBased f d)"

definition getRoleBasedSecurityGroups :: "user \<Rightarrow> ident option \<Rightarrow> db \<Rightarrow> security_group list" where
  "getRoleBasedSecurityGroups u cid d = filter (hasSameCloudClientId cid) (sg_getRoleBased u d)"

text \<open>A linked hash set keeps each name once, where it came first.\<close>

definition linked_set :: "'a list \<Rightarrow> 'a list" where
  "linked_set xs = rev (remdups (rev xs))"

definition getAllSecurityGroupNamesForInstance ::
    "(inst \<Rightarrow> string list) \<Rightarrow> date \<Rightarrow> inst \<Rightarrow> db \<Rightarrow> exn + string list" where
  "getAllSecurityGroupNamesForInstance custom now i d =
     (case getOwner i of
        None \<Rightarrow> Inl NullPointer
      | Some m \<Rightarrow>
          (let owner = mem_user m; cid = getCloudId i
           in Inr (linked_set
               (if hasRole now owner ADMIN_ROLE
                then map sg_name (getAllForCloudClient cid d) @ custom i
                else map sg_name (getDefaultSecurityGroups cid d)
                   @ map sg_name (getRoleBasedSecurityGroups owner cid d)
                   @ map sg_name (getFlavourBasedSecurityGroups (plan_flavour (inst_plan i)) cid d)
                   @ custom i))))"

section \<open>Facts\<close>

lemma linked_set_set [simp]: "set (linked_set xs) = set xs"
  by (simp add: linked_set_def)

lemma linked_set_distinct [simp]: "distinct (linked_set xs)"
  by (simp add: linked_set_def)

lemma sg_parts_live:
  "g \<in> set (sg_getDefault d) \<union> set (sg_getRoleBased u d) \<union> set (sg_getFlavourBased f d) \<Longrightarrow>
     g \<in> set (t_security_group d) \<and> sg_cloud_live g"
  by (auto simp: sg_getDefault_def sg_getRoleBased_def sg_getFlavourBased_def)

lemma names_bounds:
  assumes "getAllSecurityGroupNamesForInstance custom now i d = Inr ns"
  shows "set (custom i) \<subseteq> set ns"
    and "set (map sg_name (getDefaultSecurityGroups (getCloudId i) d)) \<subseteq> set ns"
    and "set ns \<subseteq> set (custom i) \<union> sg_name ` {g \<in> set (t_security_group d). sg_cloud_live g
           \<and> hasSameCloudClientId (getCloudId i) g}"
proof -
  note defs = getAllSecurityGroupNamesForInstance_def getAllForCloudClient_def
    getDefaultSecurityGroups_def getRoleBasedSecurityGroups_def getFlavourBasedSecurityGroups_def
  show "set (custom i) \<subseteq> set ns"
    using assms by (auto simp: defs Let_def split: option.splits if_splits)
  show "set (map sg_name (getDefaultSecurityGroups (getCloudId i) d)) \<subseteq> set ns"
    using assms by (auto simp: defs sg_getAll_def Let_def sg_getDefault_def split: option.splits if_splits)
  show "set ns \<subseteq> set (custom i) \<union> sg_name ` {g \<in> set (t_security_group d). sg_cloud_live g
      \<and> hasSameCloudClientId (getCloudId i) g}"
    using assms sg_parts_live [of _ d]
    by (fastforce simp: defs sg_getAll_def Let_def split: option.splits if_splits)
qed

section \<open>Properties\<close>

text \<open>C24: The groups computed for an instance are each named once; they contain the default
  groups of its cloud and the custom ones, and nothing but groups of a live configuration of
  its own cloud and custom ones.\<close>

theorem security_group_names_exact:
  assumes "getAllSecurityGroupNamesForInstance custom now i d = Inr ns"
  shows "distinct ns \<and>
    set (custom i) \<union> sg_name ` set (getDefaultSecurityGroups (getCloudId i) d) \<subseteq> set ns \<and>
    set ns \<subseteq> set (custom i) \<union> sg_name ` {g \<in> set (t_security_group d). sg_cloud_live g
      \<and> hasSameCloudClientId (getCloudId i) g}"
proof -
  have "distinct ns"
    using assms by (auto simp: getAllSecurityGroupNamesForInstance_def Let_def split: option.splits)
  then show ?thesis using names_bounds [OF assms] by auto
qed

definition group_db :: db where
  "group_db = sample_db\<lparr>t_security_group := [\<lparr>sg_id = Some 1, sg_name = ''web'', sg_cloud = None\<rparr>,
     \<lparr>sg_id = Some 2, sg_name = ''ssh'', sg_cloud = None\<rparr>],
     t_security_group_filter := [\<lparr>sgf_id = Some 1, sgf_object_id = 1, sgf_object_type = ''ROLE'',
       sgf_group = \<lparr>sg_id = Some 2, sg_name = ''ssh'', sg_cloud = None\<rparr>\<rparr>]\<rparr>"

lemmas group_eval = getAllSecurityGroupNamesForInstance_def getAllForCloudClient_def
  getDefaultSecurityGroups_def getRoleBasedSecurityGroups_def getFlavourBasedSecurityGroups_def
  sg_getAll_def sg_getDefault_def sg_getRoleBased_def sg_getFlavourBased_def filters_of_def
  sg_cloud_live_def hasSameCloudClientId_def linked_set_def group_db_def getOwner_def isRole_def
  getCloudId_def plan_cloud_id_def image_cloud_id_def

theorem security_group_names_exact_witness:
  "getAllSecurityGroupNamesForInstance (\<lambda>_. [''web'', ''gpu'']) 7 inst_bob group_db
     = Inr [''web'', ''ssh'', ''gpu''] \<and> distinct [''web'', ''ssh'', ''gpu'']"
proof -
  have e: "getAllSecurityGroupNamesForInstance (\<lambda>_. [''web'', ''gpu'']) 7 inst_bob group_db
      = Inr [''web'', ''ssh'', ''gpu'']"
    by (simp add: group_eval sample_insts sample_roles sample_plan_def sample_image_def sample_rows
        sample_flavour_def Let_def role_names) (simp add: sample_users)
  then show ?thesis using security_group_names_exact [OF e] by blast
qed

end
