(* ===== verification/Actions.thy ===== *)
theory Actions
  imports Sessions Security_Groups
begin

text \<open>
  The actions that carry out the commands on an instance (package concurrent.actions of
  visa-business) and PortService. An action works on its command, the database and the
  state of the cloud, and returns the exception that leaves \<open>run\<close>, if one does. What lies
  outside the code is the record \<open>services\<close>: the cloud clients, the custom security groups,
  the ports that answer, the instruments of a user's experiments and the public key.
\<close>

section \<open>The state and the services of an action\<close>

record 'w action_state =
  a_cmd :: command
  a_db :: db
  a_cloud :: 'w

record 'w services =
  sv_gateway :: "'w gateway"
  sv_custom_groups :: "inst \<Rightarrow> string list"
  sv_port_open :: "string option \<Rightarrow> int \<Rightarrow> bool"
  sv_instruments :: "experiment_entity list \<Rightarrow> user \<Rightarrow> string list"
  sv_public_key :: "string option"

section \<open>PortService\<close>

definition areMandatoryPortsOpen ::
    "(string option \<Rightarrow> int \<Rightarrow> bool) \<Rightarrow> string option \<Rightarrow> image_protocol list \<Rightarrow> bool" where
  "areMandatoryPortsOpen up host ps \<longleftrightarrow>
     (if ps \<noteq> [] then list_all (\<lambda>p. ip_optional p \<or> up host (ip_port p)) ps else False)"

definition getActiveProtocols ::
    "(string option \<Rightarrow> int \<Rightarrow> bool) \<Rightarrow> string option \<Rightarrow> image_protocol list \<Rightarrow> image_protocol list" where
  "getActiveProtocols up host ps = filter (\<lambda>p. up host (ip_port p)) ps"

section \<open>What all actions share\<close>

definition action_instance :: "'w action_state \<Rightarrow> inst option" where
  "action_instance s = on_id (cmd_inst (a_cmd s)) (\<lambda>n. inst_getById n (a_db s))"

definition set_command_inst :: "(inst \<Rightarrow> inst) \<Rightarrow> 'w action_state \<Rightarrow> 'w action_state" where
  "set_command_inst f s = s\<lparr>a_cmd := (a_cmd s)\<lparr>cmd_inst := f (cmd_inst (a_cmd s))\<rparr>\<rparr>"

definition save_inst :: "date \<Rightarrow> inst \<Rightarrow> 'w action_state \<Rightarrow> 'w action_state" where
  "save_inst now i s = s\<lparr>a_db := snd (inst_save now i (a_db s))\<rparr>"

definition updateInstanceState :: "date \<Rightarrow> instance_state \<Rightarrow> 'w action_state \<Rightarrow> 'w action_state" where
  "updateInstanceState now st s =
     (let s1 = set_command_inst (\<lambda>i. i\<lparr>state := st\<rparr>) s
      in case action_instance s1 of
           None \<Rightarrow> s1
         | Some i \<Rightarrow>
             (let i1 = i\<lparr>state := st\<rparr>;
                  i2 = (if st = DELETED then setDeleted now True i1 else i1)
              in save_inst now i2 s1))"

definition updateInstanceProtocols :: "date \<Rightarrow> image_protocol list \<Rightarrow> 'w action_state \<Rightarrow> 'w action_state" where
  "updateInstanceProtocols now ps s =
     (let names = map ip_name ps;
          s1 = set_command_inst (\<lambda>i. i\<lparr>active_protocols := names\<rparr>) s
      in case action_instance s1 of
           None \<Rightarrow> s1
         | Some i \<Rightarrow> save_inst now (i\<lparr>active_protocols := names\<rparr>) s1)"

definition updateInstanceIpAddress :: "date \<Rightarrow> string option \<Rightarrow> 'w action_state \<Rightarrow> 'w action_state" where
  "updateInstanceIpAddress now ip s =
     (let s1 = set_command_inst (\<lambda>i. i\<lparr>ip_address := ip\<rparr>) s
      in case action_instance s1 of
           None \<Rightarrow> s1
         | Some i \<Rightarrow> save_inst now (i\<lparr>ip_address := ip\<rparr>) s1)"

definition clearSessionForInstance :: "date \<Rightarrow> 'w action_state \<Rightarrow> 'w action_state" where
  "clearSessionForInstance now s =
     (case action_instance s of
        None \<Rightarrow> s
      | Some i \<Rightarrow> s\<lparr>a_db := clearSessionsForInstance now i (a_db s)\<rparr>)"

section \<open>Start, shutdown, reboot\<close>

text \<open>The three classes differ in the method of the cloud client and in the message.\<close>

definition power_action ::
    "(string \<Rightarrow> 'w \<Rightarrow> exn option \<times> 'w) \<Rightarrow> 'w cloud_client \<Rightarrow> string \<Rightarrow> date \<Rightarrow> inst \<Rightarrow> 'w action_state \<Rightarrow>
     exn option \<times> 'w action_state" where
  "power_action method c msg now i s =
     (case compute_id i of
        None \<Rightarrow> (None, s)
      | Some cid \<Rightarrow>
          (case client_instance c (Some cid) (a_cloud s) of
             Inl _ \<Rightarrow> (Some (InstanceActionException msg), s)
           | Inr None \<Rightarrow> (None, s)
           | Inr (Some _) \<Rightarrow>
               (case method cid (a_cloud s) of
                  (Some _, w) \<Rightarrow> (Some (InstanceActionException msg), s\<lparr>a_cloud := w\<rparr>)
                | (None, w) \<Rightarrow> (None, clearSessionForInstance now (s\<lparr>a_cloud := w\<rparr>)))))"

text \<open>Every action looks for its instance and the client of its cloud first.\<close>

definition with_client ::
    "'w services \<Rightarrow> ('w cloud_client \<Rightarrow> inst \<Rightarrow> 'w action_state \<Rightarrow> exn option \<times> 'w action_state) \<Rightarrow>
     'w action_state \<Rightarrow> exn option \<times> 'w action_state" where
  "with_client sv f s =
     (case action_instance s of
        None \<Rightarrow> (None, s)
      | Some i \<Rightarrow> (case getCloudClient (sv_gateway sv) (getCloudId i) of
          None \<Rightarrow> (None, s)
        | Some c \<Rightarrow> f c i s))"

definition start_action :: "'w services \<Rightarrow> date \<Rightarrow> 'w action_state \<Rightarrow> exn option \<times> 'w action_state" where
  "start_action sv now = with_client sv (\<lambda>c.
     power_action (p_startInstance (cc_provider c)) c ''Error starting a compute instance'' now)"

definition shutdown_action :: "'w services \<Rightarrow> date \<Rightarrow> 'w action_state \<Rightarrow> exn option \<times> 'w action_state" where
  "shutdown_action sv now = with_client sv (\<lambda>c.
     power_action (p_shutdownInstance (cc_provider c)) c ''Error shutting down a compute instance'' now)"

definition reboot_action :: "'w services \<Rightarrow> date \<Rightarrow> 'w action_state \<Rightarrow> exn option \<times> 'w action_state" where
  "reboot_action sv now = with_client sv (\<lambda>c.
     power_action (p_rebootInstance (cc_provider c)) c ''Error rebooting a compute instance'' now)"

section \<open>Delete\<close>

definition delete_action :: "'w services \<Rightarrow> date \<Rightarrow> 'w action_state \<Rightarrow> exn option \<times> 'w action_state" where
  "delete_action sv now = with_client sv (\<lambda>c i s.
     if getDeleted i then (None, s)
     else (case compute_id i of
         None \<Rightarrow> (None, updateInstanceState now DELETED s)
       | Some cid \<Rightarrow>
           (case client_instance c (Some cid) (a_cloud s) of
              Inl _ \<Rightarrow> (Some (InstanceActionException ''Error deleting a compute instance''), s)
            | Inr None \<Rightarrow> (None, updateInstanceState now DELETED s)
            | Inr (Some _) \<Rightarrow>
                (case p_deleteInstance (cc_provider c) cid (a_cloud s) of
                   (Some _, w) \<Rightarrow>
                     (Some (InstanceActionException ''Error deleting a compute instance''), s\<lparr>a_cloud := w\<rparr>)
                 | (None, w) \<Rightarrow>
                     (None, updateInstanceState now DELETED
                        (clearSessionForInstance now (s\<lparr>a_cloud := w\<rparr>)))))))"

section \<open>State\<close>

fun to_instance_state :: "cloud_state \<Rightarrow> instance_state" where
  "to_instance_state C_UNKNOWN = UNKNOWN"
| "to_instance_state C_BUILDING = BUILDING"
| "to_instance_state C_STARTING = STARTING"
| "to_instance_state C_ACTIVE = ACTIVE"
| "to_instance_state C_STOPPING = STOPPING"
| "to_instance_state C_STOPPED = STOPPED"
| "to_instance_state C_REBOOTING = REBOOTING"
| "to_instance_state C_UNAVAILABLE = UNAVAILABLE"
| "to_instance_state C_ERROR = ERROR"
| "to_instance_state C_DELETED = DELETED"

definition ignoreCloudState :: "instance_state \<Rightarrow> cloud_state \<Rightarrow> bool" where
  "ignoreCloudState st cst \<longleftrightarrow>
     st = DELETING \<and> cst = C_ACTIVE \<or> st = STARTING \<and> cst = C_STOPPED"

definition refresh_state ::
    "'w services \<Rightarrow> date \<Rightarrow> inst \<Rightarrow> cloud_instance \<Rightarrow> 'w action_state \<Rightarrow> 'w action_state" where
  "refresh_state sv now i ci s =
     (let s1 = (if ci_state ci = C_ACTIVE then updateInstanceIpAddress now (ci_address ci) s else s);
          st = to_instance_state (ci_state ci)
      in if ignoreCloudState (state i) (ci_state ci) then s1
         else if st = ACTIVE \<or> st = PARTIALLY_ACTIVE then
           (let ps = img_protocols (plan_image (inst_plan i))
            in if \<not> areMandatoryPortsOpen (sv_port_open sv) (ci_address ci) ps
               then updateInstanceState now STARTING s1
               else (let active = getActiveProtocols (sv_port_open sv) (ci_address ci) ps;
                         st' = (if length active < length ps then PARTIALLY_ACTIVE else st)
                     in updateInstanceState now st' (updateInstanceProtocols now active s1)))
         else updateInstanceState now st s1)"

definition state_action :: "'w services \<Rightarrow> date \<Rightarrow> 'w action_state \<Rightarrow> exn option \<times> 'w action_state" where
  "state_action sv now s =
     (case action_instance s of
        None \<Rightarrow> (None, s)
      | Some i0 \<Rightarrow>
          if compute_id i0 = None then (None, s)
          else with_client sv (\<lambda>c i s.
            case client_instance c (compute_id i) (a_cloud s) of
              Inl _ \<Rightarrow> (Some (InstanceActionException ''Error getting state of a compute instance''), s)
            | Inr None \<Rightarrow> (None, updateInstanceIpAddress now None (updateInstanceState now DELETED s))
            | Inr (Some ci) \<Rightarrow> (None, refresh_state sv now i ci s)) s)"

section \<open>Create\<close>

fun join_with :: "string \<Rightarrow> string list \<Rightarrow> string" where
  "join_with sep [] = []"
| "join_with sep [x] = x"
| "join_with sep (x # y # zs) = x @ sep @ join_with sep (y # zs)"

fun nat_digits :: "nat \<Rightarrow> string" where
  "nat_digits n = (if n < 10 then [char_of (48 + n)] else nat_digits (n div 10) @ [char_of (48 + n mod 10)])"

definition ident_string :: "ident option \<Rightarrow> string" where
  "ident_string i = (case i of
      None \<Rightarrow> ''null''
    | Some n \<Rightarrow> if n < 0 then ''-'' @ nat_digits (nat (- n)) else nat_digits (nat n))"

definition instance_metadata :: "'w services \<Rightarrow> inst \<Rightarrow> user \<Rightarrow> (string \<times> string option) list" where
  "instance_metadata sv i owner =
     fold (\<lambda>(k, v). AList.update k v)
       (map (\<lambda>a. (attr_name a, attr_value a)) (attributes i) @
        [(''id'', map_option (\<lambda>n. ident_string (Some n)) (inst_id i)),
         (''uid'', Some (uid i)),
         (''owner'', username i),
         (''instruments'', Some (join_with '','' (sv_instruments sv (experiments i) owner))),
         (''proposals'', Some (join_with '','' (map (prop_identifier \<circ> exp_proposal) (experiments i))))] @
        (case sv_public_key sv of None \<Rightarrow> [] | Some k \<Rightarrow> [(''pamPublicKey'', Some k)])) []"

definition create_action :: "'w services \<Rightarrow> date \<Rightarrow> 'w action_state \<Rightarrow> exn option \<times> 'w action_state" where
  "create_action sv now = with_client sv (\<lambda>c i s.
     (case getAllSecurityGroupNamesForInstance (sv_custom_groups sv) now i (a_db s) of
        Inl e \<Rightarrow> (Some e, s)
      | Inr groups \<Rightarrow>
          (case getOwner i of
             None \<Rightarrow> (Some NullPointer, s)
           | Some m \<Rightarrow>
               (let i1 = i\<lparr>security_groups := groups\<rparr>;
                    im = plan_image (inst_plan i)
                in case p_createInstance (cc_provider c)
                         (cc_server_name_prefix c @ ''-'' @ ident_string (inst_id i))
                         (img_compute_id im) (fl_compute_id (plan_flavour (inst_plan i))) groups
                         (instance_metadata sv i1 (mem_user m)) (img_boot_command im) (a_cloud s) of
                     (Inl (CloudException _), w) \<Rightarrow>
                       (Some (InstanceActionException ''Error creating a compute instance''),
                        updateInstanceState now ERROR (s\<lparr>a_cloud := w\<rparr>))
                   | (Inl e, w) \<Rightarrow> (Some e, s\<lparr>a_cloud := w\<rparr>)
                   | (Inr None, w) \<Rightarrow> (Some NullPointer, s\<lparr>a_cloud := w\<rparr>)
                   | (Inr (Some ci), w) \<Rightarrow>
                       (None, save_inst now
                          (i1\<lparr>compute_id := Some (ci_id ci), state := to_instance_state (ci_state ci)\<rparr>)
                          (s\<lparr>a_cloud := w\<rparr>))))))"

section \<open>Update of the security groups\<close>

definition update_groups_action :: "'w services \<Rightarrow> date \<Rightarrow> 'w action_state \<Rightarrow> exn option \<times> 'w action_state" where
  "update_groups_action sv now s =
     (case action_instance s of
        None \<Rightarrow> (None, s)
      | Some i0 \<Rightarrow> (case compute_id i0 of
          None \<Rightarrow> (None, s)
        | Some cid \<Rightarrow> with_client sv (\<lambda>c i s.
            let failed = Some (InstanceActionException ''Error updating instance security groups'')
            in case getAllSecurityGroupNamesForInstance (sv_custom_groups sv) now i (a_db s) of
                 Inl _ \<Rightarrow> (failed, s)
               | Inr groups \<Rightarrow>
                   (let s1 = save_inst now (i\<lparr>security_groups := groups\<rparr>) s
                    in case p_updateSecurityGroups (cc_provider c) cid groups (a_cloud s1) of
                         (Some _, w) \<Rightarrow> (failed, s1\<lparr>a_cloud := w\<rparr>)
                       | (None, w) \<Rightarrow> (None, s1\<lparr>a_cloud := w\<rparr>))) s))"

section \<open>InstanceActionFactory\<close>

fun run_action :: "'w services \<Rightarrow> date \<Rightarrow> command_type \<Rightarrow> 'w action_state \<Rightarrow> exn option \<times> 'w action_state" where
  "run_action sv now START = start_action sv now"
| "run_action sv now SHUTDOWN = shutdown_action sv now"
| "run_action sv now STATE = state_action sv now"
| "run_action sv now REBOOT = reboot_action sv now"
| "run_action sv now CREATE = create_action sv now"
| "run_action sv now DELETE = delete_action sv now"
| "run_action sv now UPDATE_SECURITY_GROUPS = update_groups_action sv now"

section \<open>Facts\<close>

text \<open>
  What an action may do: it keeps the table of instances well formed, it keeps the identity
  of its command's instance, and it changes no row but that instance's.
\<close>

definition only_inst :: "ident \<Rightarrow> 'w action_state \<Rightarrow> 'w action_state \<Rightarrow> bool" where
  "only_inst n s s' \<longleftrightarrow>
     table_ok inst_id (t_inst (a_db s')) \<and> inst_id (cmd_inst (a_cmd s')) = Some n \<and>
     (\<forall>m. m \<noteq> n \<longrightarrow> find_row inst_id m (t_inst (a_db s')) = find_row inst_id m (t_inst (a_db s)))"

definition action_ok :: "ident \<Rightarrow> 'w action_state \<Rightarrow> bool" where
  "action_ok n s \<longleftrightarrow> table_ok inst_id (t_inst (a_db s)) \<and> inst_id (cmd_inst (a_cmd s)) = Some n"

lemma only_inst_refl: "action_ok n s \<Longrightarrow> only_inst n s s"
  by (simp add: only_inst_def action_ok_def)

lemma only_inst_ok: "only_inst n s s' \<Longrightarrow> action_ok n s'"
  by (simp add: only_inst_def action_ok_def)

lemma only_inst_trans: "only_inst n s s' \<Longrightarrow> only_inst n s' s'' \<Longrightarrow> only_inst n s s''"
  by (simp add: only_inst_def)

lemma action_instance_eq: "action_ok n s \<Longrightarrow> action_instance s = inst_getById n (a_db s)"
  by (simp add: action_instance_def action_ok_def on_id_def)

lemma action_instance_row:
  "action_ok n s \<Longrightarrow> action_instance s = Some i \<Longrightarrow>
     find_row inst_id n (t_inst (a_db s)) = Some i \<and> inst_id i = Some n \<and> live i"
  using action_instance_eq [of n s] inst_getById_find_row [of "a_db s" n] inst_getById_Some [of n "a_db s" i]
  by (auto simp: action_ok_def split: option.splits if_splits)

text \<open>Saving a changed copy of the row of the action's instance.\<close>

lemma save_inst_row:
  assumes "action_ok n s" and "find_row inst_id n (t_inst (a_db s)) = Some z" and "inst_id i = Some n"
  shows "only_inst n s (save_inst now i s)"
    and "\<exists>i'. find_row inst_id n (t_inst (a_db (save_inst now i s))) = Some i' \<and> state i' = state i \<and>
      deleted_at i' = deleted_at i \<and> ip_address i' = ip_address i \<and> compute_id i' = compute_id i \<and>
      active_protocols i' = active_protocols i \<and> security_groups i' = security_groups i"
proof -
  let ?ms = "fst (number_members now (member_next (a_db s)) (members i))"
  obtain i' d' where sv: "inst_save now i (a_db s) = (i', d')" by fastforce
  note t = inst_save_table [OF sv]
  have ok: "table_ok inst_id (t_inst (a_db s))" using assms(1) by (simp add: action_ok_def)
  have i': "i' = on_update now (i\<lparr>members := ?ms\<rparr>)"
    using t instances.save_row_same [OF assms(2), of "i\<lparr>members := ?ms\<rparr>" now] assms(3) by simp
  have row: "find_row inst_id n (t_inst d') = Some i'"
    using instances.find_row_save [OF ok t [symmetric]] i' assms(3) by (simp add: on_update_def)
  have "table_ok inst_id (t_inst d')" using inst_save_ok [OF ok, of now i] sv by simp
  moreover have "find_row inst_id m (t_inst d') = find_row inst_id m (t_inst (a_db s))" if "m \<noteq> n" for m
    using instances.save_row_other [OF t [symmetric], of m] i' assms(3) that by (simp add: on_update_def)
  ultimately show "only_inst n s (save_inst now i s)"
    using assms(1) sv by (simp add: only_inst_def save_inst_def action_ok_def)
  show "\<exists>i'. find_row inst_id n (t_inst (a_db (save_inst now i s))) = Some i' \<and> state i' = state i \<and>
      deleted_at i' = deleted_at i \<and> ip_address i' = ip_address i \<and> compute_id i' = compute_id i \<and>
      active_protocols i' = active_protocols i \<and> security_groups i' = security_groups i"
    using row sv i' by (simp add: save_inst_def on_update_def)
qed

lemma set_command_inst_simps [simp]:
  "a_db (set_command_inst f s) = a_db s" "a_cloud (set_command_inst f s) = a_cloud s"
  "cmd_inst (a_cmd (set_command_inst f s)) = f (cmd_inst (a_cmd s))"
  by (simp_all add: set_command_inst_def)

lemma set_command_inst_only:
  "action_ok n s \<Longrightarrow> inst_id (f (cmd_inst (a_cmd s))) = inst_id (cmd_inst (a_cmd s)) \<Longrightarrow>
     only_inst n s (set_command_inst f s)"
  by (simp add: only_inst_def action_ok_def)

lemma set_cloud_only: "action_ok n s \<Longrightarrow> only_inst n s (s\<lparr>a_cloud := w\<rparr>)"
  by (simp add: only_inst_def action_ok_def)

text \<open>The shape that the three update methods share.\<close>

lemma update_shape:
  assumes "action_ok n s" and "\<And>i. inst_id (f i) = inst_id i" and "\<And>i. inst_id (g i) = inst_id i"
    and "s1 = set_command_inst f s"
    and "s' = (case action_instance s1 of None \<Rightarrow> s1 | Some i \<Rightarrow> save_inst now (g i) s1)"
  shows "only_inst n s s'"
proof -
  have s1: "only_inst n s s1" using assms set_command_inst_only by metis
  show ?thesis
  proof (cases "action_instance s1")
    case None
    then show ?thesis using s1 assms(5) by simp
  next
    case (Some i)
    note r = action_instance_row [OF only_inst_ok [OF s1] Some]
    have "only_inst n s1 (save_inst now (g i) s1)"
      by (rule save_inst_row(1) [OF only_inst_ok [OF s1] r [THEN conjunct1]]) (simp add: assms(3) r)
    then show ?thesis using s1 only_inst_trans Some assms(5) by simp
  qed
qed

lemma updateInstanceState_only: "action_ok n s \<Longrightarrow> only_inst n s (updateInstanceState now st s)"
  by (rule update_shape [where now = now and f = "\<lambda>i. i\<lparr>state := st\<rparr>" and
        g = "\<lambda>i. if st = DELETED then setDeleted now True (i\<lparr>state := st\<rparr>) else i\<lparr>state := st\<rparr>"])
    (auto simp: updateInstanceState_def Let_def setDeleted_def split: option.split)

lemma updateInstanceProtocols_only: "action_ok n s \<Longrightarrow> only_inst n s (updateInstanceProtocols now ps s)"
  by (rule update_shape [where now = now and f = "\<lambda>i. i\<lparr>active_protocols := map ip_name ps\<rparr>" and
        g = "\<lambda>i. i\<lparr>active_protocols := map ip_name ps\<rparr>"])
    (auto simp: updateInstanceProtocols_def Let_def split: option.split)

lemma updateInstanceIpAddress_only: "action_ok n s \<Longrightarrow> only_inst n s (updateInstanceIpAddress now ip s)"
  by (rule update_shape [where now = now and f = "\<lambda>i. i\<lparr>ip_address := ip\<rparr>" and g = "\<lambda>i. i\<lparr>ip_address := ip\<rparr>"])
    (auto simp: updateInstanceIpAddress_def Let_def split: option.split)

lemma clearSessions_t_inst: "t_inst (clearSessionsForInstance now i d) = t_inst d"
  by (simp add: clearSessionsForInstance_def Let_def fold_end_session(4) fold_end_session_member(4))

lemma clearSessionForInstance_only: "action_ok n s \<Longrightarrow> only_inst n s (clearSessionForInstance now s)"
  by (auto simp: clearSessionForInstance_def only_inst_def action_ok_def clearSessions_t_inst split: option.splits)

lemmas helpers_only = updateInstanceState_only updateInstanceProtocols_only updateInstanceIpAddress_only
  clearSessionForInstance_only set_cloud_only

lemma power_action_only:
  "action_ok n s \<Longrightarrow> only_inst n s (snd (power_action f c msg now i s))"
  by (auto simp: power_action_def only_inst_refl set_cloud_only split: option.splits sum.splits prod.splits
      intro: only_inst_trans [OF set_cloud_only] clearSessionForInstance_only only_inst_ok [OF set_cloud_only])

lemma with_client_only:
  assumes "action_ok n s"
    and "\<And>c i. action_instance s = Some i \<Longrightarrow> getCloudClient (sv_gateway sv) (getCloudId i) = Some c \<Longrightarrow>
           only_inst n s (snd (f c i s))"
  shows "only_inst n s (snd (with_client sv f s))"
  using assms only_inst_refl [OF assms(1)] by (auto simp: with_client_def split: option.splits)

lemma then_only:
  "only_inst n s s' \<Longrightarrow> (action_ok n s' \<Longrightarrow> only_inst n s' s'') \<Longrightarrow> only_inst n s s''"
  using only_inst_trans only_inst_ok by blast

lemma refresh_state_only:
  assumes "action_ok n s"
  shows "only_inst n s (refresh_state sv now i ci s)"
proof -
  let ?s1 = "if ci_state ci = C_ACTIVE then updateInstanceIpAddress now (ci_address ci) s else s"
  have s1: "only_inst n s ?s1" using assms by (simp add: updateInstanceIpAddress_only only_inst_refl)
  have st: "only_inst n s (updateInstanceState now st ?s1)" for st
    by (rule then_only [OF s1]) (rule updateInstanceState_only)
  have pr: "only_inst n s (updateInstanceState now st (updateInstanceProtocols now ps ?s1))" for st ps
    by (rule then_only [OF then_only [OF s1 updateInstanceProtocols_only] updateInstanceState_only])
  show ?thesis using s1 st pr unfolding refresh_state_def Let_def by (simp only: split: if_split) blast
qed

lemma state_action_only: "action_ok n s \<Longrightarrow> only_inst n s (snd (state_action sv now s))"
  unfolding state_action_def
  by (auto split: option.splits sum.splits intro!: with_client_only only_inst_refl refresh_state_only
      intro: then_only [OF updateInstanceState_only updateInstanceIpAddress_only])

lemma delete_action_only: "action_ok n s \<Longrightarrow> only_inst n s (snd (delete_action sv now s))"
  unfolding delete_action_def
  by (auto split: option.splits sum.splits prod.splits
      intro!: with_client_only only_inst_refl updateInstanceState_only set_cloud_only
      intro: then_only [OF then_only [OF set_cloud_only clearSessionForInstance_only] updateInstanceState_only])

lemma save_fetched_only:
  assumes "action_ok n s" and "action_instance s = Some i" and "inst_id i' = inst_id i"
  shows "only_inst n s (save_inst now i' s)"
  using save_inst_row(1) [OF assms(1)] action_instance_row [OF assms(1,2)] assms(3) by metis

lemma action_instance_cloud [simp]: "action_instance (s\<lparr>a_cloud := w\<rparr>) = action_instance s"
  by (simp add: action_instance_def)

lemma save_with_cloud_only:
  assumes "action_ok n s" and "action_instance s = Some i" and "inst_id i' = inst_id i"
  shows "only_inst n s (save_inst now i' (s\<lparr>a_cloud := w\<rparr>))"
    and "only_inst n s ((save_inst now i' s)\<lparr>a_cloud := w\<rparr>)"
proof -
  have "only_inst n s (s\<lparr>a_cloud := w\<rparr>)" using assms(1) by (rule set_cloud_only)
  then show "only_inst n s (save_inst now i' (s\<lparr>a_cloud := w\<rparr>))"
    by (rule then_only) (rule save_fetched_only [of n _ i], simp_all add: assms)
  show "only_inst n s ((save_inst now i' s)\<lparr>a_cloud := w\<rparr>)"
    by (rule then_only [OF save_fetched_only [OF assms]]) (rule set_cloud_only)
qed

lemma create_action_only: "action_ok n s \<Longrightarrow> only_inst n s (snd (create_action sv now s))"
  unfolding create_action_def
  by (auto simp: Let_def split: option.splits sum.splits prod.splits exn.splits
      intro!: with_client_only only_inst_refl set_cloud_only save_with_cloud_only(1)
      intro: then_only [OF set_cloud_only updateInstanceState_only])

lemma update_groups_action_only: "action_ok n s \<Longrightarrow> only_inst n s (snd (update_groups_action sv now s))"
  unfolding update_groups_action_def
  by (auto simp: Let_def split: option.splits sum.splits prod.splits
      intro!: with_client_only only_inst_refl save_with_cloud_only(2))

lemma run_action_only_inst: "action_ok n s \<Longrightarrow> only_inst n s (snd (run_action sv now t s))"
  by (cases t)
    (auto simp: create_action_only state_action_only delete_action_only update_groups_action_only
      start_action_def shutdown_action_def reboot_action_def intro!: with_client_only power_action_only)

text \<open>What the update methods leave in the row of the action's instance.\<close>

lemma update_shape_row:
  assumes "action_ok n s" and "\<And>i. inst_id (f i) = inst_id i" and "inst_id (g i) = inst_id i"
    and "action_instance s = Some i" and "s1 = set_command_inst f s"
    and "s' = (case action_instance s1 of None \<Rightarrow> s1 | Some i \<Rightarrow> save_inst now (g i) s1)"
  shows "\<exists>i'. find_row inst_id n (t_inst (a_db s')) = Some i' \<and> state i' = state (g i) \<and>
    deleted_at i' = deleted_at (g i) \<and> ip_address i' = ip_address (g i) \<and> compute_id i' = compute_id (g i)"
proof -
  have ok: "action_ok n s1" using assms only_inst_ok [OF set_command_inst_only] by metis
  have i: "action_instance s1 = Some i"
    using assms(1,4,5) action_instance_eq [OF ok] action_instance_eq [OF assms(1)] by simp
  from save_inst_row(2) [OF ok action_instance_row [OF ok i, THEN conjunct1], of "g i" now]
  show ?thesis using action_instance_row [OF ok i] assms(3,6) i by auto
qed

lemma updateInstanceState_row:
  assumes "action_ok n s" and "action_instance s = Some i"
  shows "\<exists>i'. find_row inst_id n (t_inst (a_db (updateInstanceState now st s))) = Some i' \<and>
    state i' = st \<and> ip_address i' = ip_address i \<and> compute_id i' = compute_id i \<and>
    deleted_at i' = (if st = DELETED then Some now else deleted_at i)"
  using update_shape_row [OF assms(1) _ _ assms(2), of "\<lambda>i. i\<lparr>state := st\<rparr>"
      "\<lambda>i. if st = DELETED then setDeleted now True (i\<lparr>state := st\<rparr>) else i\<lparr>state := st\<rparr>"
      _ "updateInstanceState now st s" now]
  by (auto simp: updateInstanceState_def Let_def setDeleted_def split: option.split)

lemma updateInstanceProtocols_row:
  assumes "action_ok n s" and "action_instance s = Some i"
  shows "\<exists>i'. find_row inst_id n (t_inst (a_db (updateInstanceProtocols now ps s))) = Some i' \<and>
    state i' = state i \<and> deleted_at i' = deleted_at i"
  using update_shape_row [OF assms(1) _ _ assms(2), of "\<lambda>i. i\<lparr>active_protocols := map ip_name ps\<rparr>"
      "\<lambda>i. i\<lparr>active_protocols := map ip_name ps\<rparr>" _ "updateInstanceProtocols now ps s" now]
  by (auto simp: updateInstanceProtocols_def Let_def split: option.split)

lemma updateInstanceIpAddress_row:
  assumes "action_ok n s" and "action_instance s = Some i"
  shows "\<exists>i'. find_row inst_id n (t_inst (a_db (updateInstanceIpAddress now ip s))) = Some i' \<and>
    state i' = state i \<and> deleted_at i' = deleted_at i \<and> ip_address i' = ip"
  using update_shape_row [OF assms(1) _ _ assms(2), of "\<lambda>i. i\<lparr>ip_address := ip\<rparr>"
      "\<lambda>i. i\<lparr>ip_address := ip\<rparr>" _ "updateInstanceIpAddress now ip s" now]
  by (auto simp: updateInstanceIpAddress_def Let_def split: option.split)

lemma row_action_instance:
  assumes "action_ok n s" and "find_row inst_id n (t_inst (a_db s)) = Some i"
  shows "action_instance s = (if live i then Some i else None)"
  using assms action_instance_eq [OF assms(1)] inst_getById_find_row [of "a_db s" n]
  by (simp add: action_ok_def)

section \<open>The state that is reported\<close>

text \<open>
  What a refresh should make of an instance, from the state it was in, the state of the
  cloud and the ports that answer. The code's two passes over the protocols are one
  question here.
\<close>

definition expected_state :: "(string option \<Rightarrow> int \<Rightarrow> bool) \<Rightarrow> inst \<Rightarrow> cloud_instance \<Rightarrow> instance_state" where
  "expected_state up i ci =
     (let ps = img_protocols (plan_image (inst_plan i));
          answers = (\<lambda>p. up (ci_address ci) (ip_port p))
      in if ci_state ci = C_ACTIVE \<and> state i = DELETING then DELETING
         else if ci_state ci = C_STOPPED \<and> state i = STARTING then STARTING
         else if ci_state ci = C_ACTIVE then
           (if ps = [] \<or> (\<exists>p \<in> set ps. \<not> ip_optional p \<and> \<not> answers p) then STARTING
            else if \<forall>p \<in> set ps. answers p then ACTIVE else PARTIALLY_ACTIVE)
         else to_instance_state (ci_state ci))"

lemma to_instance_state_active:
  "to_instance_state c = ACTIVE \<longleftrightarrow> c = C_ACTIVE" "to_instance_state c \<noteq> PARTIALLY_ACTIVE"
  by (cases c; simp)+

lemma getActiveProtocols_all:
  "length (getActiveProtocols up h ps) < length ps \<longleftrightarrow> \<not> (\<forall>p \<in> set ps. up h (ip_port p))"
proof -
  have "length (filter P ps) = length ps \<longleftrightarrow> (\<forall>p \<in> set ps. P p)" for P
    by (metis filter_id_conv length_filter_less less_irrefl filter_True)
  moreover have "length (filter P ps) \<le> length ps" for P by simp
  ultimately show ?thesis unfolding getActiveProtocols_def by (metis le_neq_implies_less less_irrefl)
qed

lemma areMandatoryPortsOpen_iff:
  "areMandatoryPortsOpen up h ps \<longleftrightarrow> ps \<noteq> [] \<and> (\<forall>p \<in> set ps. ip_optional p \<or> up h (ip_port p))"
  by (simp add: areMandatoryPortsOpen_def list_all_iff)

lemma refresh_state_row:
  assumes "action_ok n s" and "action_instance s = Some i"
  shows "\<exists>i'. find_row inst_id n (t_inst (a_db (refresh_state sv now i ci s))) = Some i' \<and>
    state i' = expected_state (sv_port_open sv) i ci"
proof -
  let ?s1 = "if ci_state ci = C_ACTIVE then updateInstanceIpAddress now (ci_address ci) s else s"
  have s1: "only_inst n s ?s1" using assms by (simp add: updateInstanceIpAddress_only only_inst_refl)
  obtain i1 where i1: "find_row inst_id n (t_inst (a_db ?s1)) = Some i1" "state i1 = state i" "live i1"
    using updateInstanceIpAddress_row [OF assms, of now "ci_address ci"] action_instance_row [OF assms]
    by (cases "ci_state ci = C_ACTIVE") (auto simp: live_def)
  have a1: "action_instance ?s1 = Some i1"
    using row_action_instance [OF only_inst_ok [OF s1] i1(1)] i1(3) by simp
  have st: "\<exists>i'. find_row inst_id n (t_inst (a_db (updateInstanceState now st ?s1))) = Some i' \<and> state i' = st" for st
    using updateInstanceState_row [OF only_inst_ok [OF s1] a1] by blast
  have pr: "\<exists>i'. find_row inst_id n (t_inst (a_db (updateInstanceState now st (updateInstanceProtocols now ps ?s1))))
      = Some i' \<and> state i' = st" for st ps
  proof -
    have ok: "only_inst n ?s1 (updateInstanceProtocols now ps ?s1)"
      by (rule updateInstanceProtocols_only [OF only_inst_ok [OF s1]])
    obtain i2 where "find_row inst_id n (t_inst (a_db (updateInstanceProtocols now ps ?s1))) = Some i2" "live i2"
      using updateInstanceProtocols_row [OF only_inst_ok [OF s1] a1, of now ps] i1(3) by (auto simp: live_def)
    then have "action_instance (updateInstanceProtocols now ps ?s1) = Some i2"
      using row_action_instance [OF only_inst_ok [OF ok]] by simp
    then show ?thesis using updateInstanceState_row [OF only_inst_ok [OF ok]] by blast
  qed
  show ?thesis
    using i1 st pr
    unfolding refresh_state_def Let_def expected_state_def ignoreCloudState_def
      areMandatoryPortsOpen_iff getActiveProtocols_all to_instance_state_active
    by (simp only: split: if_split) (auto simp: to_instance_state_active)
qed

section \<open>A concrete cloud\<close>

text \<open>A provider that keeps its servers in a list, for applying the properties.\<close>

type_synonym servers = "(string \<times> cloud_instance) list"

definition sample_provider :: "servers cloud_provider" where
  "sample_provider = null_provider
     \<lparr>p_instanceIdentifiers := (\<lambda>w. Inr (Some (map (\<lambda>(k, c). \<lparr>cid_id = k, cid_name = ci_name c\<rparr>) w))),
      p_instance := (\<lambda>k w. Inr (map_of w k)),
      p_deleteInstance := (\<lambda>k w. (None, AList.delete k w)),
      p_updateSecurityGroups := (\<lambda>k gs w. (Some (CloudException ''timeout''), w))\<rparr>"

definition sample_client :: "servers cloud_client" where
  "sample_client = \<lparr>cc_id = -1, cc_name = ''Default'', cc_type = ''web'', cc_provider = sample_provider,
     cc_server_name_prefix = ''VISA'', cc_visible = True\<rparr>"

definition sample_services :: "int list \<Rightarrow> servers services" where
  "sample_services ports = \<lparr>sv_gateway = \<lparr>gw_default = Some sample_client, gw_clients = [(-1, sample_client)]\<rparr>,
     sv_custom_groups = (\<lambda>_. [''gpu'']), sv_port_open = (\<lambda>h p. p \<in> set ports),
     sv_instruments = (\<lambda>es u. []), sv_public_key = None\<rparr>"

definition sample_server :: "cloud_state \<Rightarrow> cloud_instance" where
  "sample_server st = \<lparr>ci_id = ''compute-1'', ci_name = ''VISA-1'', ci_state = st,
     ci_address = Some ''10.0.0.2'', ci_image_id = ''image-1'', ci_flavor_id = ''flavour-1'',
     ci_created_at = 0, ci_security_groups = []\<rparr>"

definition sample_action :: "command_type \<Rightarrow> servers \<Rightarrow> servers action_state" where
  "sample_action t w = \<lparr>a_cmd = new_command None inst_alice t, a_db = sample_db, a_cloud = w\<rparr>"

lemma sample_getById: "inst_getById 1 sample_db = Some inst_alice"
  by (simp add: inst_getById_def sample_db_def live_def sample_insts)

lemma sample_action_ok: "action_ok 1 (sample_action t w)"
  by (simp add: action_ok_def sample_action_def sample_db_instances new_command_def)

lemma sample_action_instance: "action_instance (sample_action t w) = Some inst_alice"
  using action_instance_eq [OF sample_action_ok] sample_getById by (simp add: sample_action_def)

lemma sample_cloud_id: "getCloudId inst_alice = None" "compute_id inst_alice = Some ''compute-1''"
    "\<not> getDeleted inst_alice" "a_cloud (sample_action t w) = w"
  by (simp_all add: getDeleted_def sample_action_def getCloudId_def plan_cloud_id_def image_cloud_id_def sample_insts sample_plan_def
      sample_image_def)

lemma sample_getCloudClient: "getCloudClient (sv_gateway (sample_services ps)) None = Some sample_client"
  by (simp add: getCloudClient_def sample_services_def)

lemma sample_client_instance:
  "client_instance sample_client (Some k) w = Inr (map_of w k)"
  "p_deleteInstance (cc_provider sample_client) k w = (None, AList.delete k w)"
  "p_updateSecurityGroups (cc_provider sample_client) k gs w = (Some (CloudException ''timeout''), w)"
  by (simp_all add: client_instance_def sample_client_def sample_provider_def)

lemmas sample_cloud = sample_action_instance sample_cloud_id sample_getCloudClient sample_client_instance

section \<open>Properties\<close>

text \<open>C4: Whatever the command, an action changes the row of no instance but the one its command
  names, and keeps the table of instances well formed.\<close>

theorem actions_touch_own_instance_only:
  assumes "table_ok inst_id (t_inst (a_db s))" and "inst_id (cmd_inst (a_cmd s)) = Some n"
    and "run_action sv now t s = (r, s')"
  shows "table_ok inst_id (t_inst (a_db s')) \<and>
    (\<forall>m. m \<noteq> n \<longrightarrow> find_row inst_id m (t_inst (a_db s')) = find_row inst_id m (t_inst (a_db s)))"
  using run_action_only_inst [of n s sv now t] assms by (simp add: action_ok_def only_inst_def)

theorem actions_touch_own_instance_only_witness:
  "find_row inst_id 2 (t_inst (a_db (snd (run_action (sample_services [3389]) 7 DELETE
     (sample_action DELETE [(''compute-1'', sample_server C_ACTIVE)]))))) = Some inst_bob"
proof -
  let ?s = "sample_action DELETE [(''compute-1'', sample_server C_ACTIVE)]"
  obtain r s' where "run_action (sample_services [3389]) 7 DELETE ?s = (r, s')" by fastforce
  moreover have "find_row inst_id 2 (t_inst (a_db ?s)) = Some inst_bob"
    by (simp add: find_row_def sample_action_def sample_db_def)
  ultimately show ?thesis
    using actions_touch_own_instance_only [of ?s 1 "sample_services [3389]" 7 DELETE r s']
      sample_action_ok [unfolded action_ok_def] by simp
qed

text \<open>C21: A refresh that reaches the cloud stores the state that the cloud's answer and the open
  ports call for: a deletion or a start that is under way is not undone by a stale answer, an
  active server counts as starting until every mandatory port answers, as partially active until
  all do, and every other state is taken over as it is.\<close>

theorem refresh_stores_expected_state:
  assumes "table_ok inst_id (t_inst (a_db s))" and "inst_id (cmd_inst (a_cmd s)) = Some n"
    and "inst_getById n (a_db s) = Some i" and "compute_id i = Some cid"
    and "getCloudClient (sv_gateway sv) (getCloudId i) = Some c"
    and "client_instance c (Some cid) (a_cloud s) = Inr (Some ci)"
  shows "\<exists>s' i'. state_action sv now s = (None, s') \<and>
    find_row inst_id n (t_inst (a_db s')) = Some i' \<and> state i' = expected_state (sv_port_open sv) i ci"
proof -
  have ok: "action_ok n s" using assms(1,2) by (simp add: action_ok_def)
  then have i: "action_instance s = Some i" using action_instance_eq assms(3) by metis
  then have "state_action sv now s = (None, refresh_state sv now i ci s)"
    using assms(4-) by (simp add: state_action_def with_client_def)
  then show ?thesis using refresh_state_row [OF ok i] by simp
qed

theorem refresh_stores_expected_state_witness:
  "\<exists>s' i'. state_action (sample_services [3389]) 7
       (sample_action STATE [(''compute-1'', sample_server C_ACTIVE)]) = (None, s') \<and>
     find_row inst_id 1 (t_inst (a_db s')) = Some i' \<and> state i' = PARTIALLY_ACTIVE"
proof -
  let ?s = "sample_action STATE [(''compute-1'', sample_server C_ACTIVE)]"
  have "inst_getById 1 (a_db ?s) = Some inst_alice" by (simp add: sample_action_def sample_getById)
  moreover have "client_instance sample_client (Some ''compute-1'') (a_cloud ?s) = Inr (Some (sample_server C_ACTIVE))"
    by (simp add: sample_client_instance sample_action_def)
  moreover have "expected_state (sv_port_open (sample_services [3389])) inst_alice (sample_server C_ACTIVE) = PARTIALLY_ACTIVE"
    by (simp add: expected_state_def Let_def sample_server_def sample_services_def sample_insts sample_plan_def
        sample_image_def)
  ultimately show ?thesis
    using refresh_stores_expected_state [of ?s 1 inst_alice "''compute-1''" "sample_services [3389]" sample_client
        "sample_server C_ACTIVE" 7] sample_action_ok [unfolded action_ok_def] sample_cloud by simp
qed

lemma clearSession_action_instance: "action_instance (clearSessionForInstance now s) = action_instance s"
  by (auto simp: clearSessionForInstance_def action_instance_def on_id_def inst_getById_def clearSessions_t_inst
      split: option.splits)

lemma delete_updates:
  assumes "action_ok n s" and "action_instance s = Some i"
  shows "\<exists>i'. find_row inst_id n (t_inst (a_db (updateInstanceState now DELETED s))) = Some i' \<and>
      state i' = DELETED \<and> deleted_at i' = Some now"
    and "inst_getById n (a_db (updateInstanceState now DELETED s)) = None"
proof -
  show row: "\<exists>i'. find_row inst_id n (t_inst (a_db (updateInstanceState now DELETED s))) = Some i' \<and>
      state i' = DELETED \<and> deleted_at i' = Some now"
    using updateInstanceState_row [OF assms, of now DELETED] by auto
  have "table_ok inst_id (t_inst (a_db (updateInstanceState now DELETED s)))"
    using updateInstanceState_only [OF assms(1)] by (auto simp: only_inst_def)
  then show "inst_getById n (a_db (updateInstanceState now DELETED s)) = None"
    using row by (auto simp: inst_getById_find_row live_def)
qed

lemma delete_action_cases:
  assumes "action_ok n s" and "action_instance s = Some i"
    and "getCloudClient (sv_gateway sv) (getCloudId i) = Some c"
    and "delete_action sv now s = (r, s')"
  shows "(\<exists>s1. r = None \<and> s' = updateInstanceState now DELETED s1 \<and> action_ok n s1 \<and> action_instance s1 = Some i)
    \<or> r \<noteq> None \<and> a_db s' = a_db s"
proof -
  have nd: "\<not> getDeleted i" using action_instance_row [OF assms(1,2)] by (simp add: live_iff)
  have "action_ok n (clearSessionForInstance now (s\<lparr>a_cloud := w\<rparr>))
      \<and> action_instance (clearSessionForInstance now (s\<lparr>a_cloud := w\<rparr>)) = Some i" for w
    using only_inst_ok [OF then_only [OF set_cloud_only [OF assms(1)] clearSessionForInstance_only]] assms(2)
    by (simp add: clearSession_action_instance)
  then show ?thesis
    using assms nd unfolding delete_action_def with_client_def
    by (auto split: option.splits sum.splits prod.splits)
qed

text \<open>C22: A deletion of an instance whose cloud has a client either fails with an exception and leaves the
  database as it was, or marks the instance deleted: its state is DELETED, its deletion date is set and
  it is found no more. Without a client, or for an instance that is found no more, it returns without
  an error and nothing has changed.\<close>

theorem deletion_all_or_nothing:
  assumes "table_ok inst_id (t_inst (a_db s))" and "inst_id (cmd_inst (a_cmd s)) = Some n"
    and "delete_action sv now s = (r, s')"
  shows "case inst_getById n (a_db s) of
      None \<Rightarrow> r = None \<and> s' = s
    | Some i \<Rightarrow> (case getCloudClient (sv_gateway sv) (getCloudId i) of
        None \<Rightarrow> r = None \<and> s' = s
      | Some c \<Rightarrow>
          if r = None
          then inst_getById n (a_db s') = None \<and>
            (\<exists>i'. find_row inst_id n (t_inst (a_db s')) = Some i' \<and> state i' = DELETED \<and> deleted_at i' = Some now)
          else a_db s' = a_db s)"
proof -
  have ok: "action_ok n s" using assms(1,2) by (simp add: action_ok_def)
  show ?thesis
  proof (cases "inst_getById n (a_db s)")
    case None
    then have "action_instance s = None" using action_instance_eq [OF ok] by simp
    then show ?thesis using None assms(3) by (auto simp: delete_action_def with_client_def)
  next
    case (Some i)
    then have i: "action_instance s = Some i" using action_instance_eq [OF ok] by simp
    show ?thesis
    proof (cases "getCloudClient (sv_gateway sv) (getCloudId i)")
      case None
      then show ?thesis using i Some assms(3) by (auto simp: delete_action_def with_client_def)
    next
      case (Some c)
      show ?thesis using delete_action_cases [OF ok i Some assms(3)] delete_updates Some \<open>inst_getById n (a_db s) = Some i\<close>
        by (auto split: if_splits)
    qed
  qed
qed

theorem deletion_all_or_nothing_witness:
  "inst_getById 1 (a_db (snd (delete_action (sample_services []) 7
     (sample_action DELETE [(''compute-1'', sample_server C_ACTIVE)])))) = None"
proof -
  let ?s = "sample_action DELETE [(''compute-1'', sample_server C_ACTIVE)]"
  have "fst (delete_action (sample_services []) 7 ?s) = None"
    by (simp add: delete_action_def with_client_def sample_cloud)
  then obtain s' where s': "delete_action (sample_services []) 7 ?s = (None, s')"
    by (metis prod.collapse)
  have "inst_getById 1 (a_db ?s) = Some inst_alice" by (simp add: sample_action_def sample_getById)
  then show ?thesis
    using deletion_all_or_nothing [of ?s 1 "sample_services []" 7 None s'] s'
      sample_action_ok [unfolded action_ok_def] sample_cloud by simp
qed

text \<open>When the cloud no longer knows an instance, the refresh means to clear its IP address
  but marks it deleted first, after which it is not found: the row keeps the address it had.\<close>

theorem vanished_instance_keeps_ip_address:
  assumes "table_ok inst_id (t_inst (a_db s))" and "inst_id (cmd_inst (a_cmd s)) = Some n"
    and "inst_getById n (a_db s) = Some i" and "compute_id i = Some cid"
    and "getCloudClient (sv_gateway sv) (getCloudId i) = Some c"
    and "client_instance c (Some cid) (a_cloud s) = Inr None"
  shows "\<exists>s' i'. state_action sv now s = (None, s') \<and>
    find_row inst_id n (t_inst (a_db s')) = Some i' \<and> state i' = DELETED \<and> ip_address i' = ip_address i"
proof -
  have ok: "action_ok n s" using assms(1,2) by (simp add: action_ok_def)
  then have i: "action_instance s = Some i" using action_instance_eq assms(3) by metis
  let ?s1 = "updateInstanceState now DELETED s"
  have "action_ok n ?s1" using only_inst_ok [OF updateInstanceState_only [OF ok]] .
  then have "action_instance ?s1 = None" using action_instance_eq delete_updates(2) [OF ok i] by metis
  then have "a_db (updateInstanceIpAddress now None ?s1) = a_db ?s1"
    by (auto simp: updateInstanceIpAddress_def Let_def action_instance_def on_id_def split: option.splits)
  moreover have "state_action sv now s = (None, updateInstanceIpAddress now None ?s1)"
    using assms(4-) i by (simp add: state_action_def with_client_def)
  ultimately show ?thesis using updateInstanceState_row [OF ok i, of now DELETED] by auto
qed

theorem vanished_instance_keeps_ip_address_witness:
  "\<exists>s' i'. state_action (sample_services []) 7 (sample_action STATE []) = (None, s') \<and>
     find_row inst_id 1 (t_inst (a_db s')) = Some i' \<and> ip_address i' = Some ''10.0.0.1''"
proof -
  let ?s = "sample_action STATE []"
  have "inst_getById 1 (a_db ?s) = Some inst_alice" by (simp add: sample_action_def sample_getById)
  moreover have "client_instance sample_client (Some ''compute-1'') (a_cloud ?s) = Inr None"
    by (simp add: sample_client_instance sample_action_def)
  moreover have "ip_address inst_alice = Some ''10.0.0.1''" by (simp add: sample_insts)
  ultimately show ?thesis
    using vanished_instance_keeps_ip_address [of ?s 1 inst_alice "''compute-1''" "sample_services []" sample_client 7]
      sample_action_ok [unfolded action_ok_def] sample_cloud by auto
qed

text \<open>The groups of an instance are stored before the cloud is told. When the cloud refuses,
  the row already has the new groups, so that the next comparison sees nothing left to do.\<close>

theorem failed_group_update_is_recorded_as_done:
  assumes "table_ok inst_id (t_inst (a_db s))" and "inst_id (cmd_inst (a_cmd s)) = Some n"
    and "inst_getById n (a_db s) = Some i" and "compute_id i = Some cid"
    and "getCloudClient (sv_gateway sv) (getCloudId i) = Some c"
    and "getAllSecurityGroupNamesForInstance (sv_custom_groups sv) now i (a_db s) = Inr groups"
    and "\<And>w. fst (p_updateSecurityGroups (cc_provider c) cid groups w) \<noteq> None"
  shows "\<exists>e s' i'. update_groups_action sv now s = (Some e, s') \<and>
    find_row inst_id n (t_inst (a_db s')) = Some i' \<and> security_groups i' = groups"
proof -
  have ok: "action_ok n s" using assms(1,2) by (simp add: action_ok_def)
  then have i: "action_instance s = Some i" using action_instance_eq assms(3) by metis
  let ?s1 = "save_inst now (i\<lparr>security_groups := groups\<rparr>) s"
  obtain e w where w: "p_updateSecurityGroups (cc_provider c) cid groups (a_cloud ?s1) = (Some e, w)"
    using assms(7) [of "a_cloud ?s1"] by (metis not_None_eq prod.collapse)
  have "\<exists>i'. find_row inst_id n (t_inst (a_db ?s1)) = Some i' \<and> security_groups i' = groups"
    using save_inst_row(2) [OF ok, of i "i\<lparr>security_groups := groups\<rparr>" now] action_instance_row [OF ok i] by auto
  then show ?thesis
    using assms(4-6) i w by (simp add: update_groups_action_def with_client_def Let_def)
qed

theorem failed_group_update_is_recorded_as_done_witness:
  "\<exists>e s' i'. update_groups_action (sample_services []) 7 (sample_action UPDATE_SECURITY_GROUPS []) = (Some e, s') \<and>
     find_row inst_id 1 (t_inst (a_db s')) = Some i' \<and> security_groups i' = [''gpu'']"
proof -
  let ?s = "sample_action UPDATE_SECURITY_GROUPS []"
  have "inst_getById 1 (a_db ?s) = Some inst_alice" by (simp add: sample_action_def sample_getById)
  moreover have "getAllSecurityGroupNamesForInstance (sv_custom_groups (sample_services [])) 7 inst_alice (a_db ?s)
      = Inr [''gpu'']"
    by (simp add: group_eval sample_insts sample_roles sample_rows sample_action_def sample_services_def Let_def)
  ultimately show ?thesis
    using failed_group_update_is_recorded_as_done [of ?s 1 inst_alice "''compute-1''" "sample_services []" sample_client
        7 "[''gpu'']"] sample_action_ok [unfolded action_ok_def] sample_cloud by simp
qed

end
