(* ===== verification/Expirations.thy ===== *)
theory Expirations
  imports Actions
begin

text \<open>
  How instances come to their end: InstanceExpirationService, the extension requests that put
  it off, and the lifecycle job that calls them in order. Adding hours to a date is a function
  of a library, the argument \<open>addHours\<close>; sending mail is left out. Executing a command and
  waiting for its result is the argument \<open>exec\<close>, which changes the database and the cloud;
  \<open>execute_now\<close> is what the action manager does for an instance without other actions.
  The methods of the service are transactions: one that throws leaves the database as it was.
  The deletion of what has expired hands the work to other threads, whose effects stay.
\<close>

section \<open>InstanceExpirationService\<close>

definition HOURS_BEFORE_EXPIRATION_INACTIVITY :: int where "HOURS_BEFORE_EXPIRATION_INACTIVITY = 24"
definition HOURS_BEFORE_EXPIRATION_LIFETIME :: int where "HOURS_BEFORE_EXPIRATION_LIFETIME = 48"

definition getExpirationDate :: "inst \<Rightarrow> db \<Rightarrow> date option" where
  "getExpirationDate i d =
     (case ie_getByInstance i d of Some e \<Rightarrow> Some (ie_date e) | None \<Rightarrow> termination_date i)"

definition ie_create :: "date \<Rightarrow> inst \<Rightarrow> date \<Rightarrow> db \<Rightarrow> expiration \<times> db" where
  "ie_create now i t d =
     (case ie_getByInstance i d of
        Some e \<Rightarrow> (e, d)
      | None \<Rightarrow> ie_save now \<lparr>created_at = None, updated_at = None, ie_id = None,
          ie_inst = id_key (inst_id i), ie_date = t\<rparr> d)"

text \<open>Both lists are made before the first expiration is stored.\<close>

definition createExpirationForAllInactiveInstances ::
    "(date \<Rightarrow> int \<Rightarrow> date) \<Rightarrow> instance_configuration \<Rightarrow> date \<Rightarrow> db \<Rightarrow> exn option \<times> db" where
  "createExpirationForAllInactiveInstances addHours conf now d =
     (let userHours = userMaxInactivityDurationHours conf - HOURS_BEFORE_EXPIRATION_INACTIVITY;
          staffHours = staffMaxInactivityDurationHours conf - HOURS_BEFORE_EXPIRATION_INACTIVITY;
          forUsers = inst_getAllNewInactive (addHours now (- userHours)) d;
          forStaff = inst_getAllNewInactive (addHours now (- staffHours)) d
      in if list_ex (\<lambda>i. getOwner i = None) (forUsers @ forStaff) then (Some NullPointer, d)
         else transactional (for_each (\<lambda>i d.
             let hours = (if owner_is_staff now i then staffMaxInactivityDurationHours conf
                          else userMaxInactivityDurationHours conf)
             in case last_seen_at i of
                  None \<Rightarrow> (Some NullPointer, d)
                | Some t \<Rightarrow> (None, snd (ie_create now i (addHours t hours) d)))
           (filter (\<lambda>i. \<not> owner_is_staff now i) forUsers @ filter (owner_is_staff now) forStaff)) d)"

definition createExpirationForAllTerminatingInstances ::
    "(date \<Rightarrow> int \<Rightarrow> date) \<Rightarrow> date \<Rightarrow> db \<Rightarrow> exn option \<times> db" where
  "createExpirationForAllTerminatingInstances addHours now d =
     transactional (for_each (\<lambda>i d. case termination_date i of
         None \<Rightarrow> (None, d)
       | Some t \<Rightarrow> (None, snd (ie_create now i t d)))
       (inst_getAllNewTerminations (addHours now HOURS_BEFORE_EXPIRATION_LIFETIME) d)) d"

text \<open>An expiration that lies before the termination date was set for inactivity.\<close>

definition remove_if_active :: "expiration \<Rightarrow> db \<Rightarrow> exn option \<times> db" where
  "remove_if_active e d =
     (case inst_ref (ie_inst e) d of
        None \<Rightarrow> (Some NullPointer, d)
      | Some i \<Rightarrow> (case termination_date i of
          None \<Rightarrow> (None, ie_delete e d)
        | Some t \<Rightarrow>
            if t > ie_date e then
              (case (last_seen_at i, created_at e) of
                 (Some seen, Some made) \<Rightarrow> (None, if seen > made then ie_delete e d else d)
               | _ \<Rightarrow> (Some NullPointer, d))
            else (None, d)))"

definition removeExpirationForAllActiveInstances :: "db \<Rightarrow> exn option \<times> db" where
  "removeExpirationForAllActiveInstances d = transactional (for_each remove_if_active (ie_getAll d)) d"

definition onInstanceActivated :: "inst \<Rightarrow> db \<Rightarrow> db" where
  "onInstanceActivated i d =
     (case ie_getByInstance i d of
        None \<Rightarrow> d
      | Some e \<Rightarrow> (case termination_date i of
          None \<Rightarrow> ie_delete e d
        | Some t \<Rightarrow> if t > ie_date e then ie_delete e d else d))"

section \<open>Deletion of what has expired\<close>

type_synonym 'w executor = "command \<Rightarrow> db \<times> 'w \<Rightarrow> (exn + inst option) \<times> db \<times> 'w"

definition execute_now :: "'w services \<Rightarrow> date \<Rightarrow> 'w executor" where
  "execute_now sv now c dw =
     (case run_action sv now (cmd_type c) \<lparr>a_cmd = c, a_db = fst dw, a_cloud = snd dw\<rparr> of
        (Some e, s) \<Rightarrow> (Inl e, a_db s, a_cloud s)
      | (None, s) \<Rightarrow> (Inr (action_instance s), a_db s, a_cloud s))"

text \<open>The command has no user, so it is not stored. What fails gives the instance its state back.\<close>

definition delete_expired ::
    "'w executor \<Rightarrow> date \<Rightarrow> expiration \<Rightarrow> db \<times> 'w \<Rightarrow> exn option \<times> db \<times> 'w" where
  "delete_expired exec now e dw =
     (case inst_ref (ie_inst e) (fst dw) of
        None \<Rightarrow> (Some NullPointer, dw)
      | Some i \<Rightarrow>
          if getDeleted i then (None, ie_delete e (fst dw), snd dw)
          else
            (let (i1, d1) = inst_save now (i\<lparr>state := DELETING\<rparr>) (fst dw)
             in case exec (new_command None i1 DELETE) (d1, snd dw) of
                  (Inr None, d2, w2) \<Rightarrow> (None, ie_delete e d2, w2)
                | (Inr (Some _), d2, w2) \<Rightarrow> (None, d2, w2)
                | (Inl _, d2, w2) \<Rightarrow> (None, snd (inst_save now (i1\<lparr>state := state i\<rparr>) d2), w2)))"

definition deleteAllExpired :: "'w executor \<Rightarrow> date \<Rightarrow> db \<times> 'w \<Rightarrow> exn option \<times> db \<times> 'w" where
  "deleteAllExpired exec now dw =
     for_each (delete_expired exec now) (ie_getAllExpired now (fst dw)) dw"

section \<open>InstanceExtensionRequestService\<close>

definition extension_create :: "date \<Rightarrow> inst \<Rightarrow> string option \<Rightarrow> db \<Rightarrow> extension_request \<times> db" where
  "extension_create now i cs d =
     er_save now \<lparr>created_at = None, updated_at = None, er_id = None, er_inst = id_key (inst_id i),
       er_comments = cs, er_handler = None, er_handled_on = None, er_handler_comments = None,
       er_original_termination_date = termination_date i, er_extension_date = None,
       er_state = EXT_PENDING\<rparr> d"

definition grantExtension :: "date \<Rightarrow> inst \<Rightarrow> date option \<Rightarrow> db \<Rightarrow> db" where
  "grantExtension now i t d =
     (let (i1, d1) = inst_save now (i\<lparr>termination_date := t\<rparr>) d
      in case ie_getByInstance i1 d1 of None \<Rightarrow> d1 | Some e \<Rightarrow> ie_delete e d1)"

section \<open>InstanceLifecycleJob\<close>

definition lift_db :: "(db \<Rightarrow> exn option \<times> db) \<Rightarrow> db \<times> 'w \<Rightarrow> exn option \<times> db \<times> 'w" where
  "lift_db f dw = (case f (fst dw) of (r, d) \<Rightarrow> (r, d, snd dw))"

definition and_next ::
    "('s \<Rightarrow> exn option \<times> 's) \<Rightarrow> ('s \<Rightarrow> exn option \<times> 's) \<Rightarrow> 's \<Rightarrow> exn option \<times> 's" where
  "and_next f g s = (case f s of (Some e, s') \<Rightarrow> (Some e, s') | (None, s') \<Rightarrow> g s')"

definition lifecycle_job ::
    "(date \<Rightarrow> int \<Rightarrow> date) \<Rightarrow> instance_configuration \<Rightarrow> 'w executor \<Rightarrow> date \<Rightarrow> db \<times> 'w \<Rightarrow> exn option \<times> db \<times> 'w" where
  "lifecycle_job addHours conf exec now =
     and_next (lift_db removeExpirationForAllActiveInstances)
       (and_next (lift_db (createExpirationForAllInactiveInstances addHours conf now))
         (and_next (lift_db (createExpirationForAllTerminatingInstances addHours now))
           (deleteAllExpired exec now)))"

section \<open>Facts\<close>

lemma refers_iff: "refers n i \<longleftrightarrow> inst_id i = Some n"
  by (simp add: refers_def)

lemma has_expiration_iff: "has_expiration i d \<longleftrightarrow> ie_getByInstance i d \<noteq> None"
  by (simp add: has_expiration_def ie_getByInstance_def find_not_None_iff refers_def list_ex_iff
      del: not_None_eq)

lemma ie_getByInstance_Some:
  "ie_getByInstance i d = Some e \<Longrightarrow> e \<in> set (rows (t_expiration d)) \<and> inst_id i = Some (ie_inst e)"
  by (auto simp: ie_getByInstance_def refers_def dest!: find_Some_mem)

lemma ie_create_frame:
  "t_inst (snd (ie_create now i t d)) = t_inst d"
  by (auto simp: ie_create_def ie_save_def split: option.split prod.split)

lemma ie_create_rows:
  "rows (t_expiration (snd (ie_create now i t d))) =
     (if has_expiration i d then rows (t_expiration d)
      else rows (t_expiration d) @ [\<lparr>created_at = Some now, updated_at = Some now,
        ie_id = Some (next_id (t_expiration d)), ie_inst = id_key (inst_id i), ie_date = t\<rparr>])"
  by (auto simp: has_expiration_iff ie_create_def ie_save_def save_row_def persist_row_def on_create_def Let_def
      split: option.split)

lemma ie_create_table: "table_ok ie_id (t_expiration d) \<Longrightarrow> table_ok ie_id (t_expiration (snd (ie_create now i t d)))"
  using expirations.save_ok [of "t_expiration d"]
  by (auto simp: ie_create_def ie_save_def split: option.split prod.split) (metis snd_conv)

text \<open>At most one expiration for each instance, each with an identifier of its own.\<close>

definition expirations_ok :: "db \<Rightarrow> bool" where
  "expirations_ok d \<longleftrightarrow> table_ok ie_id (t_expiration d) \<and> expirations_unique d"

lemma ie_create_ok:
  assumes "expirations_ok d" and "inst_id i = Some n"
  shows "expirations_ok (snd (ie_create now i t d))"
proof -
  have "n \<notin> ie_inst ` set (rows (t_expiration d))" if "\<not> has_expiration i d"
    using that assms(2) by (auto simp: has_expiration_def list_ex_iff)
  then show ?thesis
    using assms ie_create_table by (auto simp: expirations_ok_def expirations_unique_def ie_create_rows)
qed

lemma ie_delete_rows: "rows (t_expiration (ie_delete e d)) = filter (\<lambda>x. ie_id x \<noteq> ie_id e) (rows (t_expiration d))"
  by (simp add: ie_delete_def remove_row_def)

lemma ie_delete_frame: "t_inst (ie_delete e d) = t_inst d"
  by (simp add: ie_delete_def)

lemma ie_delete_ok: "expirations_ok d \<Longrightarrow> expirations_ok (ie_delete e d)"
  using expirations.remove_ok [of "t_expiration d" e]
  by (auto simp: expirations_ok_def expirations_unique_def ie_delete_def remove_row_def distinct_map_filter)

lemma inst_save_frame: "t_expiration (snd (inst_save now i d)) = t_expiration d"
  by (simp add: inst_save_def split: prod.splits)

lemma expirations_ok_cong: "t_expiration d' = t_expiration d \<Longrightarrow> expirations_ok d' = expirations_ok d"
  by (simp add: expirations_ok_def expirations_unique_def)

lemma remove_if_active_ok: "expirations_ok d \<Longrightarrow> expirations_ok (snd (remove_if_active e d))"
  by (auto simp: remove_if_active_def ie_delete_ok split: option.splits)

lemma new_inactive_id:
  "table_ok inst_id (t_inst d) \<Longrightarrow> i \<in> set (inst_getAllNewInactive t d) \<Longrightarrow> \<exists>n. inst_id i = Some n"
  by (auto simp: table_ok_def inst_getAllNewInactive_def)

lemma new_termination_id:
  "table_ok inst_id (t_inst d) \<Longrightarrow> i \<in> set (inst_getAllNewTerminations t d) \<Longrightarrow> \<exists>n. inst_id i = Some n"
  by (auto simp: table_ok_def inst_getAllNewTerminations_def)

section \<open>Expirations for inactivity\<close>

definition inactivity_hours :: "instance_configuration \<Rightarrow> date \<Rightarrow> inst \<Rightarrow> int" where
  "inactivity_hours conf now i =
     (if owner_is_staff now i then staffMaxInactivityDurationHours conf else userMaxInactivityDurationHours conf)"

text \<open>An instance with an end is inactive when its limit is at most a day away.\<close>

definition nearly_inactive :: "instance_configuration \<Rightarrow> date \<Rightarrow> inst \<Rightarrow> bool" where
  "nearly_inactive conf now i \<longleftrightarrow> termination_date i \<noteq> None \<and>
     (case last_seen_at i of None \<Rightarrow> False
      | Some t \<Rightarrow> t + hours_ms (inactivity_hours conf now i) < now + hours_ms 24)"

text \<open>The instances for which the method stores an expiration, in its order.\<close>

definition inactive_selection :: "(date \<Rightarrow> int \<Rightarrow> date) \<Rightarrow> instance_configuration \<Rightarrow> date \<Rightarrow> db \<Rightarrow> inst list" where
  "inactive_selection addHours conf now d =
     filter (\<lambda>i. \<not> owner_is_staff now i) (inst_getAllNewInactive
       (addHours now (- (userMaxInactivityDurationHours conf - HOURS_BEFORE_EXPIRATION_INACTIVITY))) d) @
     filter (owner_is_staff now) (inst_getAllNewInactive
       (addHours now (- (staffMaxInactivityDurationHours conf - HOURS_BEFORE_EXPIRATION_INACTIVITY))) d)"

lemma inactive_selection_mem:
  assumes "\<And>t h. addHours t h = t + hours_ms h"
  shows "i \<in> set (inactive_selection addHours conf now d) \<longleftrightarrow>
    i \<in> set (rows (t_inst d)) \<and> live i \<and> nearly_inactive conf now i \<and> \<not> has_expiration i d"
  by (cases "last_seen_at i")
    (auto simp: inactive_selection_def inst_getAllNewInactive_def nearly_inactive_def inactivity_hours_def
      before_def assms HOURS_BEFORE_EXPIRATION_INACTIVITY_def hours_ms_def)

lemma distinct_map_disjoint_filters:
  assumes "distinct (map f xs)" and "\<And>x. P x \<Longrightarrow> \<not> Q x"
  shows "distinct (map f (filter P xs @ filter Q xs))"
proof -
  have "distinct (filter P xs @ filter Q xs)" using assms by (auto simp: distinct_map)
  moreover have "inj_on f (set (filter P xs @ filter Q xs))"
    using assms(1) by (auto simp: distinct_map intro: inj_on_subset)
  ultimately show ?thesis by (simp only: distinct_map simp_thms)
qed

lemma inactive_selection_distinct:
  assumes "table_ok inst_id (t_inst d)"
  shows "distinct (map inst_id (inactive_selection addHours conf now d))"
proof -
  have d: "distinct (map inst_id (rows (t_inst d)))" using assms by (simp add: table_ok_def)
  show ?thesis
    unfolding inactive_selection_def inst_getAllNewInactive_def filter_filter
    by (rule distinct_map_disjoint_filters [OF d]) blast
qed

text \<open>Storing an expiration for each instance of a list.\<close>

definition create_all :: "date \<Rightarrow> (inst \<Rightarrow> date) \<Rightarrow> inst list \<Rightarrow> db \<Rightarrow> db" where
  "create_all now h is d = fold (\<lambda>i d. snd (ie_create now i (h i) d)) is d"

lemma create_all_inst: "t_inst (create_all now h is d) = t_inst d"
  by (induction "is" arbitrary: d) (simp_all add: create_all_def ie_create_frame)

lemma create_all_ok:
  "expirations_ok d \<Longrightarrow> (\<And>i. i \<in> set is \<Longrightarrow> \<exists>n. inst_id i = Some n) \<Longrightarrow> expirations_ok (create_all now h is d)"
proof (induction "is" arbitrary: d)
  case (Cons i "is")
  then obtain n where "inst_id i = Some n" by auto
  then have "expirations_ok (snd (ie_create now i (h i) d))" using ie_create_ok Cons.prems(1) by blast
  then show ?case using Cons.IH Cons.prems(2) by (simp add: create_all_def)
qed (simp add: create_all_def)

lemma create_all_rows:
  assumes "distinct (map inst_id is)" and "\<And>i. i \<in> set is \<Longrightarrow> inst_id i \<noteq> None \<and> \<not> has_expiration i d"
  shows "\<exists>es. rows (t_expiration (create_all now h is d)) = rows (t_expiration d) @ es \<and>
    map (\<lambda>e. (Some (ie_inst e), ie_date e)) es = map (\<lambda>i. (inst_id i, h i)) is"
  using assms
proof (induction "is" arbitrary: d)
  case (Cons i "is")
  let ?d = "snd (ie_create now i (h i) d)"
  let ?e = "\<lparr>created_at = Some now, updated_at = Some now, ie_id = Some (next_id (t_expiration d)),
      ie_inst = id_key (inst_id i), ie_date = h i\<rparr>"
  have r: "rows (t_expiration ?d) = rows (t_expiration d) @ [?e]"
    using Cons.prems(2) [of i] by (simp add: ie_create_rows)
  obtain n where n: "inst_id i = Some n" using Cons.prems(2) [of i] by auto
  have "\<not> has_expiration j ?d" if "j \<in> set is" for j
  proof -
    have "inst_id j \<noteq> inst_id i" using Cons.prems(1) that by (auto simp: image_iff)
    then show ?thesis using Cons.prems(2) [of j] that n by (auto simp: has_expiration_def r)
  qed
  then obtain es where "rows (t_expiration (create_all now h is ?d)) = rows (t_expiration ?d) @ es"
      "map (\<lambda>e. (Some (ie_inst e), ie_date e)) es = map (\<lambda>i. (inst_id i, h i)) is"
    using Cons.IH [of ?d] Cons.prems by auto
  then have "rows (t_expiration (create_all now h (i # is) d)) = rows (t_expiration d) @ ?e # es \<and>
      map (\<lambda>e. (Some (ie_inst e), ie_date e)) (?e # es) = map (\<lambda>i. (inst_id i, h i)) (i # is)"
    by (simp add: create_all_def r n)
  then show ?case by blast
qed (simp add: create_all_def)

lemma createExpirationForAllInactiveInstances_eq:
  assumes "createExpirationForAllInactiveInstances addHours conf now d = (None, d')"
  shows "d' = create_all now (\<lambda>i. case last_seen_at i of None \<Rightarrow> 0 | Some t \<Rightarrow> addHours t (inactivity_hours conf now i))
    (inactive_selection addHours conf now d) d"
proof -
  let ?f = "\<lambda>i d. let hours = (if owner_is_staff now i then staffMaxInactivityDurationHours conf
      else userMaxInactivityDurationHours conf)
    in case last_seen_at i of None \<Rightarrow> (Some NullPointer, d)
       | Some t \<Rightarrow> (None, snd (ie_create now i (addHours t hours) d))"
  let ?h = "\<lambda>i. case last_seen_at i of None \<Rightarrow> 0 | Some t \<Rightarrow> addHours t (inactivity_hours conf now i)"
  let ?is = "inactive_selection addHours conf now d"
  have seen: "last_seen_at i \<noteq> None" if "i \<in> set ?is" for i
    using that by (auto simp: inactive_selection_def inst_getAllNewInactive_def before_def split: option.splits)
  have "for_each ?f ?is d = (None, fold (\<lambda>i d. snd (ie_create now i (?h i) d)) ?is d)"
    using seen by (intro for_each_fold) (auto simp: inactivity_hours_def Let_def split: option.split)
  then show ?thesis
    using assms unfolding createExpirationForAllInactiveInstances_def inactive_selection_def Let_def
    by (simp add: transactional_def create_all_def split: if_splits)
qed

section \<open>What the deletion of expired instances may change\<close>

lemma clearSessions_expirations: "t_expiration (clearSessionsForInstance now i d) = t_expiration d"
proof -
  have "t_expiration (fold (end_session now) ss d) = t_expiration d" for ss d
    by (induction ss arbitrary: d) (simp_all add: end_session_def ses_save_def split: prod.split)
  moreover have "t_expiration (fold (end_session_member now) ms d) = t_expiration d" for ms d
    by (induction ms arbitrary: d) (simp_all add: end_session_member_def sm_save_def split: prod.split)
  ultimately show ?thesis by (simp add: clearSessionsForInstance_def Let_def)
qed

text \<open>The expirations as an action sees them.\<close>

definition act_exp :: "'w action_state \<Rightarrow> expiration table" where
  "act_exp s = t_expiration (a_db s)"

lemma act_exp_helpers [simp]:
  "act_exp (save_inst now i s) = act_exp s" "act_exp (set_command_inst f s) = act_exp s"
  "act_exp (s\<lparr>a_cloud := w\<rparr>) = act_exp s" "act_exp (clearSessionForInstance now s) = act_exp s"
  by (auto simp: act_exp_def save_inst_def inst_save_frame clearSessionForInstance_def clearSessions_expirations
      split: option.split)

lemma act_exp_updates [simp]:
  "act_exp (updateInstanceState now st s) = act_exp s"
  "act_exp (updateInstanceProtocols now ps s) = act_exp s"
  "act_exp (updateInstanceIpAddress now ip s) = act_exp s"
  by (auto simp: updateInstanceState_def updateInstanceProtocols_def updateInstanceIpAddress_def Let_def
      split: option.split)

lemma act_exp_with_client:
  "(\<And>c i. act_exp (snd (f c i s)) = act_exp s) \<Longrightarrow> act_exp (snd (with_client sv f s)) = act_exp s"
  by (auto simp: with_client_def split: option.split)

lemma act_exp_power: "act_exp (snd (power_action m c msg now i s)) = act_exp s"
  by (auto simp: power_action_def split: option.split sum.split prod.split)

lemma act_exp_refresh: "act_exp (refresh_state sv now i ci s) = act_exp s"
  by (simp add: refresh_state_def Let_def)

lemma act_exp_create: "act_exp (snd (create_action sv now s)) = act_exp s"
  unfolding create_action_def
  by (rule act_exp_with_client) (simp add: Let_def split: option.split sum.split prod.split exn.split)

lemma act_exp_delete: "act_exp (snd (delete_action sv now s)) = act_exp s"
  unfolding delete_action_def
  by (auto intro!: act_exp_with_client split: option.split sum.split prod.split)

lemma act_exp_state: "act_exp (snd (state_action sv now s)) = act_exp s"
  unfolding state_action_def
  by (auto simp: act_exp_refresh intro!: act_exp_with_client split: option.split sum.split)

lemma act_exp_update_groups: "act_exp (snd (update_groups_action sv now s)) = act_exp s"
  unfolding update_groups_action_def
  by (auto simp: Let_def intro!: act_exp_with_client split: option.split sum.split prod.split)

lemma run_action_expirations: "act_exp (snd (run_action sv now t s)) = act_exp s"
  by (cases t)
    (simp_all add: act_exp_create act_exp_delete act_exp_state act_exp_update_groups start_action_def
      shutdown_action_def reboot_action_def act_exp_power act_exp_with_client)

text \<open>The tables that the deletion of what has expired works on, and the rows it leaves alone.\<close>

definition expiry_db_ok :: "db \<Rightarrow> bool" where
  "expiry_db_ok d \<longleftrightarrow> table_ok inst_id (t_inst d) \<and> expirations_ok d"

definition keeps_others :: "ident \<Rightarrow> db \<Rightarrow> db \<Rightarrow> bool" where
  "keeps_others n d d' \<longleftrightarrow> expiry_db_ok d' \<and>
     (\<forall>m. m \<noteq> n \<longrightarrow> find_row inst_id m (t_inst d') = find_row inst_id m (t_inst d))"

lemma keeps_others_trans: "keeps_others n d d' \<Longrightarrow> keeps_others n d' d'' \<Longrightarrow> keeps_others n d d''"
  by (simp add: keeps_others_def)

lemma ie_delete_keeps: "expiry_db_ok d \<Longrightarrow> keeps_others n d (ie_delete e d)"
  by (simp add: keeps_others_def expiry_db_ok_def ie_delete_frame ie_delete_ok)

lemma inst_save_keeps:
  assumes "expiry_db_ok d" and "find_row inst_id n (t_inst d) = Some z" and "inst_id i = Some n"
    and "inst_save now i d = (i', d')"
  shows "keeps_others n d d' \<and> inst_id i' = Some n \<and> find_row inst_id n (t_inst d') \<noteq> None"
proof -
  note t = inst_save_table [OF assms(4)]
  have ok: "table_ok inst_id (t_inst d)" using assms(1) by (simp add: expiry_db_ok_def)
  have id: "inst_id i' = Some n" using inst_save_id [OF assms(4,2,3)] by simp
  have "table_ok inst_id (t_inst d')" using inst_save_ok [OF ok, of now i] assms(4) by simp
  moreover have "t_expiration d' = t_expiration d" using inst_save_frame [of now i d] assms(4) by simp
  ultimately have "expiry_db_ok d'" using assms(1) expirations_ok_cong [of d' d] by (simp add: expiry_db_ok_def)
  moreover have "find_row inst_id m (t_inst d') = find_row inst_id m (t_inst d)" if "m \<noteq> n" for m
    using instances.save_row_other [OF t [symmetric], of m] id that by simp
  moreover have "find_row inst_id n (t_inst d') \<noteq> None"
    using instances.find_row_save [OF ok t [symmetric]] id by auto
  ultimately show ?thesis using id by (simp add: keeps_others_def)
qed

lemma execute_now_keeps:
  assumes "expiry_db_ok d" and "inst_id (cmd_inst c) = Some n" and "execute_now sv now c (d, w) = (r, d', w')"
  shows "keeps_others n d d'"
proof -
  let ?s = "\<lparr>a_cmd = c, a_db = d, a_cloud = w\<rparr>"
  have ok: "action_ok n ?s" using assms(1,2) by (simp add: action_ok_def expiry_db_ok_def)
  have d': "d' = a_db (snd (run_action sv now (cmd_type c) ?s))"
    using assms(3) by (auto simp: execute_now_def split: prod.splits option.splits)
  have "t_expiration d' = t_expiration d"
    using run_action_expirations [of sv now "cmd_type c" ?s] by (simp add: d' act_exp_def)
  then show ?thesis
    using run_action_only_inst [OF ok, of sv now "cmd_type c"] assms(1) expirations_ok_cong [of d' d]
    unfolding keeps_others_def only_inst_def expiry_db_ok_def d' by simp
qed

lemma execute_now_row:
  assumes "expiry_db_ok d" and "inst_id (cmd_inst c) = Some n" and "find_row inst_id n (t_inst d) \<noteq> None"
    and "execute_now sv now c (d, w) = (Inl e, d', w')" and "cmd_type c = DELETE"
  shows "t_inst d' = t_inst d"
proof -
  let ?s = "\<lparr>a_cmd = c, a_db = d, a_cloud = w\<rparr>"
  have ok: "action_ok n ?s" using assms(1,2) by (simp add: action_ok_def expiry_db_ok_def)
  obtain x s where r: "delete_action sv now ?s = (Some x, s)" "d' = a_db s"
    using assms(4,5) by (auto simp: execute_now_def split: prod.splits option.splits)
  then obtain i c where i: "action_instance ?s = Some i" "getCloudClient (sv_gateway sv) (getCloudId i) = Some c"
    by (auto simp: delete_action_def with_client_def split: option.splits)
  have "a_db s = a_db ?s" using delete_action_cases [OF ok i r(1)] by blast
  then show ?thesis by (simp add: r(2))
qed


lemma execute_delete_cases:
  assumes ok: "expiry_db_ok d" and row: "find_row inst_id n (t_inst d) = Some z" and live: "live z"
    and id: "inst_id (cmd_inst c) = Some n" and DELETE: "cmd_type c = DELETE"
    and ex: "execute_now sv now c (d, w) = (r, d', w')"
  shows "(\<exists>e. r = Inl e) \<and> t_inst d' = t_inst d \<and> getCloudClient (sv_gateway sv) (getCloudId z) \<noteq> None
    \<or> r = Inr None \<and> (\<exists>i'. find_row inst_id n (t_inst d') = Some i' \<and> state i' = DELETED \<and> deleted_at i' = Some now)
    \<or> (\<exists>j. r = Inr (Some j)) \<and> d' = d \<and> getCloudClient (sv_gateway sv) (getCloudId z) = None"
proof -
  let ?s = "\<lparr>a_cmd = c, a_db = d, a_cloud = w\<rparr>"
  have aok: "action_ok n ?s" using ok id by (simp add: action_ok_def expiry_db_ok_def)
  have z: "action_instance ?s = Some z"
    using action_instance_eq [OF aok] inst_getById_find_row [of d n] row live ok by (simp add: expiry_db_ok_def)
  obtain x s where run: "delete_action sv now ?s = (x, s)" by fastforce
  have r: "r = (case x of None \<Rightarrow> Inr (action_instance s) | Some e \<Rightarrow> Inl e)" "d' = a_db s"
    using ex DELETE run by (auto simp: execute_now_def split: option.splits)
  show ?thesis
  proof (cases "getCloudClient (sv_gateway sv) (getCloudId z)")
    case None
    then have "x = None" "s = ?s" using run z by (auto simp: delete_action_def with_client_def)
    then show ?thesis using r z None by simp
  next
    case (Some k)
    from delete_action_cases [OF aok z Some run] show ?thesis
    proof
      assume "\<exists>s1. x = None \<and> s = updateInstanceState now DELETED s1 \<and> action_ok n s1 \<and> action_instance s1 = Some z"
      then obtain s1 where s1: "x = None" "s = updateInstanceState now DELETED s1" "action_ok n s1"
          "action_instance s1 = Some z" by blast
      have "action_ok n s" using only_inst_ok [OF updateInstanceState_only [OF s1(3)]] s1(2) by simp
      then have "action_instance s = None" using action_instance_eq delete_updates(2) [OF s1(3,4)] s1(2) by metis
      then show ?thesis using r s1 delete_updates(1) [OF s1(3,4)] by simp
    next
      assume "x \<noteq> None \<and> a_db s = a_db ?s"
      then show ?thesis using r Some by auto
    qed
  qed
qed

lemma delete_expired_keeps:
  assumes ok: "expiry_db_ok d" and ex: "delete_expired (execute_now sv now) now e (d, w) = (r, d', w')"
  shows "keeps_others (ie_inst e) d d'"
proof (cases "inst_ref (ie_inst e) d")
  case None
  then show ?thesis using ok ex by (simp add: delete_expired_def keeps_others_def)
next
  case (Some i)
  let ?n = "ie_inst e" and ?x = "execute_now sv now"
  have row: "find_row inst_id ?n (t_inst d) = Some i" and n: "inst_id i = Some ?n"
    using Some instances.find_row_id by (auto simp: inst_ref_def)
  show ?thesis
  proof (cases "getDeleted i")
    case True
    then show ?thesis using ok ex Some ie_delete_keeps by (auto simp: delete_expired_def)
  next
    case False
    obtain i1 d1 where sv1: "inst_save now (i\<lparr>state := DELETING\<rparr>) d = (i1, d1)" by fastforce
    have k1: "keeps_others ?n d d1" and i1: "inst_id i1 = Some ?n"
      using inst_save_keeps [OF ok row _ sv1] n by auto
    then have ok1: "expiry_db_ok d1" by (simp add: keeps_others_def)
    obtain x d2 w2 where run: "?x (new_command None i1 DELETE) (d1, w) = (x, d2, w2)" by (metis prod.exhaust)
    have k2: "keeps_others ?n d1 d2"
      using execute_now_keeps [OF ok1 _ run] i1 by (simp add: new_command_def)
    then have ok2: "expiry_db_ok d2" by (simp add: keeps_others_def)
    have k12: "keeps_others ?n d d2" by (rule keeps_others_trans [OF k1 k2])
    show ?thesis
    proof (cases x)
      case (Inl err)
      have row1: "find_row inst_id ?n (t_inst d1) \<noteq> None"
        using inst_save_keeps [OF ok row _ sv1] n by auto
      have "t_inst d2 = t_inst d1"
        using execute_now_row [OF ok1 _ row1, of "new_command None i1 DELETE"] run i1 Inl
        by (simp add: new_command_def)
      then obtain z where z: "find_row inst_id ?n (t_inst d2) = Some z" using row1 by auto
      obtain i3 d3 where sv3: "inst_save now (i1\<lparr>state := state i\<rparr>) d2 = (i3, d3)" by fastforce
      have "keeps_others ?n d2 d3" using inst_save_keeps [OF ok2 z _ sv3] i1 by simp
      moreover have "d' = d3" using ex Some False sv1 run Inl sv3 by (simp add: delete_expired_def)
      ultimately show ?thesis using keeps_others_trans [OF k12] by simp
    next
      case (Inr y)
      then have "d' = d2 \<or> d' = ie_delete e d2"
        using ex Some False sv1 run by (auto simp: delete_expired_def split: option.splits)
      then show ?thesis using k12 keeps_others_trans [OF k12 ie_delete_keeps [OF ok2]] by auto
    qed
  qed
qed


lemma deleteAllExpired_keeps:
  assumes "expiry_db_ok d" and "set es \<subseteq> set xs"
    and "for_each (delete_expired (execute_now sv now) now) es (d, w) = (r, d', w')"
  shows "expiry_db_ok d' \<and> (\<forall>m. m \<notin> ie_inst ` set xs \<longrightarrow>
    find_row inst_id m (t_inst d') = find_row inst_id m (t_inst d))"
  using assms
proof (induction es arbitrary: d w)
  case (Cons e es)
  obtain r1 d1 w1 where one: "delete_expired (execute_now sv now) now e (d, w) = (r1, d1, w1)"
    by (metis prod.exhaust)
  note k = delete_expired_keeps [OF Cons.prems(1) one]
  then have ok1: "expiry_db_ok d1" by (simp add: keeps_others_def)
  have first: "find_row inst_id m (t_inst d1) = find_row inst_id m (t_inst d)" if "m \<notin> ie_inst ` set xs" for m
    using k that Cons.prems(2) by (auto simp: keeps_others_def)
  show ?case
  proof (cases r1)
    case None
    then have "for_each (delete_expired (execute_now sv now) now) es (d1, w1) = (r, d', w')"
      using Cons.prems(3) one by simp
    then show ?thesis using Cons.IH [OF ok1] Cons.prems(2) first by simp
  next
    case (Some err)
    then show ?thesis using Cons.prems(3) one ok1 first by simp
  qed
qed simp

text \<open>Deleting what has expired leaves every other instance as it is: the row of an instance
  without an expiration that is due is not changed, whatever fails on the way.\<close>

theorem deletion_spares_unexpired_instances:
  assumes "table_ok inst_id (t_inst d)" and "table_ok ie_id (t_expiration d)" and "expirations_unique d"
    and "deleteAllExpired (execute_now sv now) now (d, w) = (r, d', w')"
    and "\<And>e. e \<in> set (rows (t_expiration d)) \<Longrightarrow> ie_inst e = n \<Longrightarrow> now < ie_date e"
  shows "inst_getById n d' = inst_getById n d"
proof -
  have ok: "expiry_db_ok d" using assms(1-3) by (simp add: expiry_db_ok_def expirations_ok_def)
  have k: "expiry_db_ok d' \<and> (\<forall>m. m \<notin> ie_inst ` set (ie_getAllExpired now d) \<longrightarrow>
      find_row inst_id m (t_inst d') = find_row inst_id m (t_inst d))"
    using deleteAllExpired_keeps [OF ok subset_refl] assms(4) by (simp add: deleteAllExpired_def)
  have "n \<notin> ie_inst ` set (ie_getAllExpired now d)"
    using assms(5) by (fastforce simp: ie_getAllExpired_def)
  then show ?thesis using k ok by (simp add: expiry_db_ok_def inst_getById_find_row)
qed

theorem deletion_spares_unexpired_instances_witness:
  "\<exists>r d' w'. deleteAllExpired (execute_now (sample_services []) 9) 9
      (sample_db\<lparr>t_expiration := \<lparr>rows = [sample_expiration 1 1 5], next_id = 2\<rparr>\<rparr>,
       [(''compute-1'', sample_server C_ACTIVE)]) = (r, d', w') \<and> inst_getById 2 d' = Some inst_bob"
proof -
  let ?d = "sample_db\<lparr>t_expiration := \<lparr>rows = [sample_expiration 1 1 5], next_id = 2\<rparr>\<rparr>"
  let ?w = "[(''compute-1'', sample_server C_ACTIVE)]"
  obtain r d' w' where run: "deleteAllExpired (execute_now (sample_services []) 9) 9 (?d, ?w) = (r, d', w')"
    by (metis prod.exhaust)
  have "table_ok inst_id (t_inst ?d)" using sample_db_instances by simp
  moreover have "table_ok ie_id (t_expiration ?d)" "expirations_unique ?d"
    by (simp_all add: table_ok_def expirations_unique_def sample_expiration_def)
  moreover have "now < ie_date e" if "e \<in> set (rows (t_expiration ?d))" "ie_inst e = 2" for e now
    using that by (simp add: sample_expiration_def)
  ultimately have "inst_getById 2 d' = inst_getById 2 ?d"
    using deletion_spares_unexpired_instances [OF _ _ _ run] by blast
  moreover have "inst_getById 2 ?d = Some inst_bob"
    by (simp add: inst_getById_def sample_db_def live_def sample_insts)
  ultimately show ?thesis using run by auto
qed

lemma inst_save_row:
  assumes "table_ok inst_id (t_inst d)" and "find_row inst_id n (t_inst d) = Some z" and "inst_id i = Some n"
    and "inst_save now i d = (i', d')"
  shows "find_row inst_id n (t_inst d') = Some i'" and "state i' = state i" and "deleted_at i' = deleted_at i"
    and "inst_plan i' = inst_plan i" and "inst_id i' = Some n" and "t_expiration d' = t_expiration d"
proof -
  note t = inst_save_table [OF assms(4)]
  have "i' = on_update now (i\<lparr>members := fst (number_members now (member_next d) (members i))\<rparr>)"
    using t instances.save_row_same [OF assms(2)] assms(3) by simp
  then show "state i' = state i" "deleted_at i' = deleted_at i" "inst_plan i' = inst_plan i"
    and id: "inst_id i' = Some n"
    using assms(3) by (cases i, simp add: on_update_def)+
  show "find_row inst_id n (t_inst d') = Some i'"
    using instances.find_row_save [OF assms(1) t [symmetric]] id by auto
  show "t_expiration d' = t_expiration d" using inst_save_frame [of now i d] assms(4) by simp
qed

lemma execute_now_expirations: "execute_now sv now c (d, w) = (r, d', w') \<Longrightarrow> t_expiration d' = t_expiration d"
  using run_action_expirations [of sv now "cmd_type c" "\<lparr>a_cmd = c, a_db = d, a_cloud = w\<rparr>"]
  by (auto simp: execute_now_def act_exp_def split: prod.splits option.splits)

text \<open>Deleting one expired instance ends in one of three ways: the instance is deleted and
  its expiration is gone; or the deletion failed, the instance has its old state back and the
  expiration stays for the next run; or its cloud has no client, and the instance is left DELETING.\<close>

theorem expired_deletion_outcome:
  assumes "table_ok inst_id (t_inst d)" and "table_ok ie_id (t_expiration d)" and "expirations_unique d"
    and "e \<in> set (rows (t_expiration d))" and "inst_getById (ie_inst e) d = Some i"
    and "delete_expired (execute_now sv now) now e (d, w) = (r, d', w')"
  shows "r = None \<and> (\<exists>i'. inst_ref (ie_inst e) d' = Some i' \<and>
    (if e \<notin> set (rows (t_expiration d')) then state i' = DELETED \<and> deleted_at i' = Some now
     else if getCloudClient (sv_gateway sv) (getCloudId i) = None then state i' = DELETING \<and> live i'
     else state i' = state i \<and> live i'))"
proof -
  let ?n = "ie_inst e" and ?x = "execute_now sv now" and ?c = "getCloudClient (sv_gateway sv)"
  have ok: "expiry_db_ok d" using assms(1-3) by (simp add: expiry_db_ok_def expirations_ok_def)
  have row: "find_row inst_id ?n (t_inst d) = Some i" and n: "inst_id i = Some ?n" and lv: "live i"
    using assms(1,5) inst_getById_find_row [of d ?n] inst_getById_Some [OF assms(5)]
    by (auto split: option.splits if_splits)
  obtain i1 d1 where sv1: "inst_save now (i\<lparr>state := DELETING\<rparr>) d = (i1, d1)" by fastforce
  obtain x d2 w2 where run: "?x (new_command None i1 DELETE) (d1, w) = (x, d2, w2)" by (metis prod.exhaust)
  have dw: "delete_expired ?x now e (d, w) =
      (case x of Inr None \<Rightarrow> (None, ie_delete e d2, w2) | Inr (Some _) \<Rightarrow> (None, d2, w2)
       | Inl _ \<Rightarrow> (None, snd (inst_save now (i1\<lparr>state := state i\<rparr>) d2), w2))"
    using row lv sv1 run by (cases x) (simp_all add: delete_expired_def inst_ref_def live_iff split: option.split)
  note s1 = inst_save_row [OF assms(1) row _ sv1, simplified, OF n]
  have ok1: "expiry_db_ok d1" using inst_save_keeps [OF ok row _ sv1] n by (simp add: keeps_others_def)
  have lv1: "live i1" using lv s1(3) by (simp add: live_def)
  have e2: "e \<in> set (rows (t_expiration d2))" using execute_now_expirations [OF run] s1(6) assms(4) by simp
  have gone: "e \<notin> set (rows (t_expiration (ie_delete e d2)))" by (simp add: ie_delete_rows)
  have cloud: "getCloudId i1 = getCloudId i" using s1(4) by (simp add: getCloudId_def)
  have c: "inst_id (cmd_inst (new_command None i1 DELETE)) = Some ?n" "cmd_type (new_command None i1 DELETE) = DELETE"
    using s1(5) by (simp_all add: new_command_def)
  have ok2: "table_ok inst_id (t_inst d2)"
    using execute_now_keeps [OF ok1 c(1) run] by (simp add: keeps_others_def expiry_db_ok_def)
  from execute_delete_cases [OF ok1 s1(1) lv1 c run] consider
      err where "x = Inl err" "t_inst d2 = t_inst d1" "?c (getCloudId i) \<noteq> None"
    | i' where "x = Inr None" "find_row inst_id ?n (t_inst d2) = Some i'" "state i' = DELETED" "deleted_at i' = Some now"
    | j where "x = Inr (Some j)" "d2 = d1" "?c (getCloudId i) = None"
    unfolding cloud by blast
  then show ?thesis
  proof cases
    case 1
    then have row2: "find_row inst_id ?n (t_inst d2) = Some i1" using s1(1) by simp
    obtain i3 d3 where sv3: "inst_save now (i1\<lparr>state := state i\<rparr>) d2 = (i3, d3)" by fastforce
    note s3 = inst_save_row [OF ok2 row2 _ sv3, simplified, OF s1(5)]
    show ?thesis using dw assms(6) 1 sv3 s3 e2 lv1 by (auto simp: inst_ref_def live_def)
  next
    case 2
    then show ?thesis using dw assms(6) gone by (auto simp: inst_ref_def ie_delete_frame)
  next
    case 3
    then show ?thesis using dw assms(6) e2 s1 lv1 by (auto simp: inst_ref_def)
  qed
qed


definition expiry_sample :: db where
  "expiry_sample = sample_db\<lparr>t_expiration := \<lparr>rows = [sample_expiration 1 1 5], next_id = 2\<rparr>\<rparr>"

lemma expiry_sample_simps:
  "t_inst expiry_sample = t_inst sample_db" "rows (t_expiration expiry_sample) = [sample_expiration 1 1 5]"
  "table_ok ie_id (t_expiration expiry_sample)" "expirations_unique expiry_sample"
  by (simp_all add: expiry_sample_def table_ok_def expirations_unique_def sample_expiration_def)

theorem expired_deletion_outcome_witness:
  "\<exists>r d' w' i'. delete_expired (execute_now (sample_services []) 9) 9 (sample_expiration 1 1 5)
      (expiry_sample, [(''compute-1'', sample_server C_ACTIVE)]) = (r, d', w') \<and> inst_ref 1 d' = Some i' \<and>
     (state i' = DELETED \<and> deleted_at i' = Some 9 \<or> state i' = ACTIVE \<and> live i')"
proof -
  let ?w = "[(''compute-1'', sample_server C_ACTIVE)]" and ?e = "sample_expiration 1 1 5"
  obtain r d' w' where run: "delete_expired (execute_now (sample_services []) 9) 9 ?e (expiry_sample, ?w) = (r, d', w')"
    by (metis prod.exhaust)
  have e: "ie_inst ?e = 1" by (simp add: sample_expiration_def)
  have i: "inst_getById (ie_inst ?e) expiry_sample = Some inst_alice"
    using sample_getById by (simp add: e inst_getById_def expiry_sample_simps)
  have st: "state inst_alice = ACTIVE" by (simp add: sample_insts)
  show ?thesis
    using expired_deletion_outcome [OF _ expiry_sample_simps(3,4) _ i run] run
    by (auto simp: expiry_sample_simps sample_db_instances sample_getCloudClient sample_cloud_id e st split: if_splits)
qed

section \<open>The lifecycle job\<close>

definition same_instances :: "db \<Rightarrow> db \<Rightarrow> bool" where
  "same_instances d0 d \<longleftrightarrow> expirations_ok d \<and> t_inst d = t_inst d0"

lemma remove_if_active_same: "same_instances d0 d \<Longrightarrow> same_instances d0 (snd (remove_if_active e d))"
  using remove_if_active_ok [of d e]
  by (auto simp: same_instances_def remove_if_active_def ie_delete_frame split: option.splits)

lemma removeAllActive_same:
  "expirations_ok d \<Longrightarrow> same_instances d (snd (removeExpirationForAllActiveInstances d))"
  unfolding removeExpirationForAllActiveInstances_def
  by (rule transactional_invariant [where P = "same_instances d"], simp add: same_instances_def,
      rule for_each_invariant [where P = "same_instances d"], simp add: same_instances_def, rule remove_if_active_same)

lemma ie_create_same:
  "same_instances d0 d \<Longrightarrow> inst_id i = Some n \<Longrightarrow> same_instances d0 (snd (ie_create now i t d))"
  by (simp add: same_instances_def ie_create_ok ie_create_frame)

lemma createAllTerminating_same:
  assumes "table_ok inst_id (t_inst d)" and "expirations_ok d"
  shows "same_instances d (snd (createExpirationForAllTerminatingInstances addHours now d))"
proof -
  have start: "same_instances d d" using assms by (simp add: same_instances_def)
  have step: "same_instances d (snd (case termination_date i of None \<Rightarrow> (None, s)
      | Some t \<Rightarrow> (None, snd (ie_create now i t s))))"
    if i: "i \<in> set (inst_getAllNewTerminations (addHours now HOURS_BEFORE_EXPIRATION_LIFETIME) d)"
      and s: "same_instances d s" for i s
  proof -
    obtain n where "inst_id i = Some n" using new_termination_id [OF assms(1) i] by blast
    then show ?thesis using s ie_create_same by (cases "termination_date i") simp_all
  qed
  show ?thesis
    unfolding createExpirationForAllTerminatingInstances_def
    by (rule transactional_invariant [where P = "same_instances d"], rule start,
        rule for_each_invariant [where P = "same_instances d"], rule start, rule step)
qed

lemma createAllInactive_same:
  assumes "table_ok inst_id (t_inst d)" and "expirations_ok d"
  shows "same_instances d (snd (createExpirationForAllInactiveInstances addHours conf now d))"
proof (cases "createExpirationForAllInactiveInstances addHours conf now d")
  case (Pair r d')
  show ?thesis
  proof (cases r)
    case None
    have "\<exists>n. inst_id i = Some n" if "i \<in> set (inactive_selection addHours conf now d)" for i
      using that new_inactive_id [OF assms(1)] by (auto simp: inactive_selection_def)
    then have "expirations_ok (create_all now h (inactive_selection addHours conf now d) d)" for h
      using create_all_ok [OF assms(2)] by blast
    then show ?thesis
      using createExpirationForAllInactiveInstances_eq [of addHours conf now d d'] Pair None create_all_inst
      by (simp add: same_instances_def)
  next
    case (Some e)
    then have "d' = d"
      using Pair by (auto simp: createExpirationForAllInactiveInstances_def transactional_def Let_def
        split: if_splits prod.splits option.splits)
    then show ?thesis using Pair assms by (simp add: same_instances_def)
  qed
qed

lemma same_instances_ok: "expiry_db_ok d0 \<Longrightarrow> same_instances d0 d \<Longrightarrow> expiry_db_ok d"
  by (simp add: same_instances_def expiry_db_ok_def)

lemma lift_db_ok:
  "(\<And>d. expiry_db_ok d \<Longrightarrow> same_instances d (snd (f d))) \<Longrightarrow> expiry_db_ok (fst s) \<Longrightarrow>
     expiry_db_ok (fst (snd (lift_db f s)))"
  by (auto simp: lift_db_def split: prod.split intro: same_instances_ok) (metis same_instances_ok snd_conv)

lemma and_next_ok:
  "(\<And>s. P s \<Longrightarrow> P (snd (f s))) \<Longrightarrow> (\<And>s. P s \<Longrightarrow> P (snd (g s))) \<Longrightarrow> P s \<Longrightarrow> P (snd (and_next f g s))"
  by (auto simp: and_next_def split: prod.split option.split) (metis snd_conv)+

text \<open>C26: However the four steps of the lifecycle job end, no instance has two expirations
  afterwards, and the tables of instances and expirations stay well formed.\<close>

theorem lifecycle_keeps_expirations_unique:
  assumes "table_ok inst_id (t_inst d)" and "table_ok ie_id (t_expiration d)" and "expirations_unique d"
    and "lifecycle_job addHours conf (execute_now sv now) now (d, w) = (r, d', w')"
  shows "table_ok inst_id (t_inst d') \<and> table_ok ie_id (t_expiration d') \<and> expirations_unique d'"
proof -
  let ?P = "\<lambda>s :: db \<times> 'a. expiry_db_ok (fst s)"
  have delete: "?P (snd (deleteAllExpired (execute_now sv now) now s))" if "?P s" for s :: "db \<times> 'a"
    using deleteAllExpired_keeps [OF that subset_refl] unfolding deleteAllExpired_def
    by (metis prod.collapse)
  have "?P (snd (lifecycle_job addHours conf (execute_now sv now) now (d, w)))"
    unfolding lifecycle_job_def
    by (intro and_next_ok [where P = ?P] delete lift_db_ok)
      (use assms(1-3) removeAllActive_same createAllInactive_same createAllTerminating_same
        in \<open>simp_all add: expiry_db_ok_def expirations_ok_def\<close>)
  then show ?thesis using assms(4) by (simp add: expiry_db_ok_def expirations_ok_def)
qed

theorem lifecycle_keeps_expirations_unique_witness:
  "expirations_unique (fst (snd (lifecycle_job (\<lambda>t h. t + hours_ms h) default_configuration
     (execute_now (sample_services []) 9) 9 (expiry_sample, []))))"
  using lifecycle_keeps_expirations_unique [OF _ expiry_sample_simps(3,4)]
  by (metis expiry_sample_simps(1) sample_db_instances prod.collapse)

section \<open>What each step does\<close>

lemma ie_getByInstance_eq:
  assumes "expirations_unique d" and "inst_id i = Some n"
  shows "ie_getByInstance i d = Some e \<longleftrightarrow> e \<in> set (rows (t_expiration d)) \<and> ie_inst e = n"
proof -
  have "List.find (\<lambda>e. refers (ie_inst e) i) xs = Some e \<longleftrightarrow> e \<in> set xs \<and> ie_inst e = n"
    if "distinct (map ie_inst xs)" for xs
    using that assms(2) by (induction xs) (auto simp: refers_iff image_iff)
  then show ?thesis using assms(1) by (simp add: expirations_unique_def ie_getByInstance_def)
qed

lemma createExpirationForAllInactiveInstances_returns:
  assumes "\<forall>j \<in> set (rows (t_inst d)). getOwner j \<noteq> None"
  shows "fst (createExpirationForAllInactiveInstances addHours conf now d) = None"
proof -
  let ?f = "\<lambda>i d. let hours = (if owner_is_staff now i then staffMaxInactivityDurationHours conf
      else userMaxInactivityDurationHours conf)
    in case last_seen_at i of None \<Rightarrow> (Some NullPointer, d)
       | Some t \<Rightarrow> (None, snd (ie_create now i (addHours t hours) d))"
  let ?h = "\<lambda>i. case last_seen_at i of None \<Rightarrow> 0 | Some t \<Rightarrow> addHours t (inactivity_hours conf now i)"
  let ?is = "inactive_selection addHours conf now d"
  have seen: "last_seen_at i \<noteq> None" if "i \<in> set ?is" for i
    using that by (auto simp: inactive_selection_def inst_getAllNewInactive_def before_def split: option.splits)
  have "for_each ?f ?is d = (None, fold (\<lambda>i d. snd (ie_create now i (?h i) d)) ?is d)"
    using seen by (intro for_each_fold) (auto simp: inactivity_hours_def Let_def split: option.split)
  moreover have "\<not> list_ex (\<lambda>i. getOwner i = None) (inst_getAllNewInactive t d @ inst_getAllNewInactive u d)" for t u
    using assms by (auto simp: list_ex_iff inst_getAllNewInactive_def)
  ultimately show ?thesis
    unfolding createExpirationForAllInactiveInstances_def inactive_selection_def Let_def
    by (simp add: transactional_def del: list_ex_append)
qed

text \<open>The inactivity step gives an expiration to exactly the instances without one that have
  an end and whose inactivity limit, by their owner's group, is less than a day away; the new
  expiration lies that limit after the instance was last seen, and the others are kept.\<close>

theorem inactivity_expirations_exact:
  assumes "table_ok inst_id (t_inst d)" and "table_ok ie_id (t_expiration d)" and "expirations_unique d"
    and "\<And>t h. addHours t h = t + hours_ms h"
    and "\<forall>j \<in> set (rows (t_inst d)). getOwner j \<noteq> None"
    and "i \<in> set (rows (t_inst d))" and "live i"
  shows "\<exists>d'. createExpirationForAllInactiveInstances addHours conf now d = (None, d') \<and>
    (if \<not> has_expiration i d \<and> nearly_inactive conf now i
     then \<exists>e t. ie_getByInstance i d' = Some e \<and> last_seen_at i = Some t \<and>
       ie_date e = t + hours_ms (inactivity_hours conf now i)
     else ie_getByInstance i d' = ie_getByInstance i d)"
proof -
  let ?h = "\<lambda>i. case last_seen_at i of None \<Rightarrow> 0 | Some t \<Rightarrow> addHours t (inactivity_hours conf now i)"
  let ?is = "inactive_selection addHours conf now d"
  have "\<exists>d'. createExpirationForAllInactiveInstances addHours conf now d = (None, d')"
    using createExpirationForAllInactiveInstances_returns [OF assms(5)] by (metis prod.collapse)
  then obtain d' where run: "createExpirationForAllInactiveInstances addHours conf now d = (None, d')" ..
  note mem = inactive_selection_mem [where addHours = addHours, OF assms(4)]
  have ids: "inst_id j \<noteq> None \<and> \<not> has_expiration j d" if "j \<in> set ?is" for j
  proof -
    have j: "j \<in> set (rows (t_inst d))" "\<not> has_expiration j d" using that unfolding mem by blast+
    have "\<exists>n. inst_id j = Some n" using assms(1) j(1) unfolding table_ok_def by blast
    then show ?thesis using j(2) by auto
  qed
  have rows: "\<exists>es. rows (t_expiration (create_all now ?h ?is d)) = rows (t_expiration d) @ es \<and>
      map (\<lambda>e. (Some (ie_inst e), ie_date e)) es = map (\<lambda>i. (inst_id i, ?h i)) ?is"
    by (rule create_all_rows [OF inactive_selection_distinct [OF assms(1)] ids])
  have d': "create_all now ?h ?is d = d'" using createExpirationForAllInactiveInstances_eq [OF run] by (rule sym)
  from rows [unfolded d'] obtain es where es: "rows (t_expiration d') = rows (t_expiration d) @ es"
      "map (\<lambda>e. (Some (ie_inst e), ie_date e)) es = map (\<lambda>i. (inst_id i, ?h i)) ?is"
    by blast
  obtain n where n: "inst_id i = Some n" using assms(1,6) by (auto simp: table_ok_def)
  have "expirations_ok d'"
    using createAllInactive_same [OF assms(1), of addHours conf now] assms(2,3) run
    by (simp add: same_instances_def expirations_ok_def)
  then have uniq: "expirations_unique d'" by (simp add: expirations_ok_def)
  have "\<exists>e t. ie_getByInstance i d' = Some e \<and> last_seen_at i = Some t \<and>
      ie_date e = t + hours_ms (inactivity_hours conf now i)"
    if new: "\<not> has_expiration i d" "nearly_inactive conf now i"
  proof -
    obtain t where t: "last_seen_at i = Some t" using new by (auto simp: nearly_inactive_def split: option.splits)
    have "i \<in> set ?is" using mem new assms(6,7) by blast
    then have "(inst_id i, ?h i) \<in> set (map (\<lambda>i. (inst_id i, ?h i)) ?is)" by simp
    then obtain e where "e \<in> set es" "Some (ie_inst e) = inst_id i" "ie_date e = ?h i"
      unfolding es(2) [symmetric] by auto
    then show ?thesis using ie_getByInstance_eq [OF uniq n, of e] es(1) n t assms(4) by auto
  qed
  moreover have "ie_getByInstance i d' = ie_getByInstance i d"
    if old: "\<not> (\<not> has_expiration i d \<and> nearly_inactive conf now i)"
  proof -
    have "i \<notin> set ?is" using mem old by blast
    have other: "inst_id j \<noteq> Some n" if "j \<in> set ?is" for j
    proof
      assume "inst_id j = Some n"
      moreover have "j \<in> set (rows (t_inst d))" using that mem by blast
      ultimately have "j = i" using assms(1,6) n by (auto simp: table_ok_def distinct_map inj_on_def)
      then show False using that \<open>i \<notin> set ?is\<close> by simp
    qed
    have "\<not> refers (ie_inst e) i" if "e \<in> set es" for e
    proof -
      have "(Some (ie_inst e), ie_date e) \<in> set (map (\<lambda>i. (inst_id i, ?h i)) ?is)"
        unfolding es(2) [symmetric] using that by simp
      then obtain j where "j \<in> set ?is" "Some (ie_inst e) = inst_id j" by auto
      then show ?thesis using other [of j] n by (auto simp: refers_iff)
    qed
    then have "List.find (\<lambda>e. refers (ie_inst e) i) es = None" by (auto simp: find_None_iff)
    moreover have "List.find P (xs @ es) = List.find P xs" if "List.find P es = None" for P and xs :: "expiration list"
      using that by (induction xs) auto
    ultimately show ?thesis by (simp add: ie_getByInstance_def es(1))
  qed
  ultimately show ?thesis using run by auto
qed

theorem inactivity_expirations_exact_witness:
  "\<exists>d' e. createExpirationForAllInactiveInstances (\<lambda>t h. t + hours_ms h) default_configuration 300000000 sample_db
       = (None, d') \<and> ie_getByInstance inst_alice d' = Some e \<and> ie_date e = 345601000"
proof -
  have rows: "rows (t_inst sample_db) = [inst_alice, inst_bob]" by (simp add: sample_db_def)
  have e: "table_ok ie_id (t_expiration sample_db)" "expirations_unique sample_db" "\<not> has_expiration inst_alice sample_db"
    by (simp_all add: table_ok_def expirations_unique_def has_expiration_def sample_db_def empty_db_def)
  have o: "\<forall>j \<in> set (rows (t_inst sample_db)). getOwner j \<noteq> None"
    by (simp add: rows sample_insts getOwner_def isOwner_def isRole_def)
  have i: "inst_alice \<in> set (rows (t_inst sample_db))" "live inst_alice" "last_seen_at inst_alice = Some 1000"
      "termination_date inst_alice = Some 2000000000"
    by (simp_all add: rows sample_insts live_def)
  have h: "inactivity_hours default_configuration 300000000 inst_alice = 96"
    by (simp add: inactivity_hours_def default_configuration_def owner_is_staff_def getOwner_def isOwner_def isRole_def
        sample_insts sample_roles)
  have "nearly_inactive default_configuration 300000000 inst_alice"
    by (simp add: nearly_inactive_def i h hours_ms_def)
  then show ?thesis
    using inactivity_expirations_exact [OF sample_db_instances e(1,2) _ o i(1,2),
        of "\<lambda>t h. t + hours_ms h" default_configuration 300000000] e(3) i(3) h
    by (auto simp: hours_ms_def)
qed

text \<open>When the owner uses an instance again, an expiration for inactivity goes; one for the
  end of the instance's lifetime stays, and so do those of other instances.\<close>

theorem activation_keeps_lifetime_expirations:
  assumes "table_ok ie_id (t_expiration d)" and "expirations_unique d" and "inst_id i = Some n"
  shows "rows (t_expiration (onInstanceActivated i d)) =
    filter (\<lambda>e. ie_inst e = n \<longrightarrow> (\<exists>t. termination_date i = Some t \<and> t \<le> ie_date e)) (rows (t_expiration d))"
proof (cases "ie_getByInstance i d")
  case None
  then have "\<And>e. e \<in> set (rows (t_expiration d)) \<Longrightarrow> ie_inst e \<noteq> n"
    using ie_getByInstance_eq [OF assms(2,3)] by fastforce
  then show ?thesis using None by (simp add: onInstanceActivated_def)
next
  case (Some x)
  then have x: "x \<in> set (rows (t_expiration d))" "ie_inst x = n"
    using ie_getByInstance_eq [OF assms(2,3)] by blast+
  have same: "ie_inst e = n \<longleftrightarrow> e = x" "ie_id e = ie_id x \<longleftrightarrow> e = x" if "e \<in> set (rows (t_expiration d))" for e
    using that x assms(1,2) by (auto simp: expirations_unique_def table_ok_def distinct_map inj_on_def)
  show ?thesis
  proof (cases "\<exists>t. termination_date i = Some t \<and> t \<le> ie_date x")
    case True
    then have "onInstanceActivated i d = d" using Some by (auto simp: onInstanceActivated_def)
    moreover have "filter (\<lambda>e. ie_inst e = n \<longrightarrow> (\<exists>t. termination_date i = Some t \<and> t \<le> ie_date e))
        (rows (t_expiration d)) = rows (t_expiration d)"
      using same(1) True by (intro filter_True) auto
    ultimately show ?thesis by simp
  next
    case False
    then have "onInstanceActivated i d = ie_delete x d"
      using Some by (auto simp: onInstanceActivated_def split: option.split)
    then show ?thesis using same False by (auto simp: ie_delete_rows intro!: filter_cong)
  qed
qed

theorem activation_keeps_lifetime_expirations_witness:
  "rows (t_expiration (onInstanceActivated inst_alice expiry_sample)) = []"
  using activation_keeps_lifetime_expirations [OF expiry_sample_simps(3,4), of inst_alice 1]
  by (simp add: expiry_sample_simps sample_expiration_def sample_insts)

text \<open>A granted extension gives the instance its new end and leaves it without an expiration.\<close>

theorem granted_extension_removes_expiration:
  assumes "table_ok inst_id (t_inst d)" and "table_ok ie_id (t_expiration d)" and "expirations_unique d"
    and "inst_getById n d = Some z" and "inst_id i = Some n" and "live i"
  shows "\<exists>i'. inst_getById n (grantExtension now i t d) = Some i' \<and> termination_date i' = t \<and>
    \<not> has_expiration i' (grantExtension now i t d)"
proof -
  obtain i1 d1 where sv: "inst_save now (i\<lparr>termination_date := t\<rparr>) d = (i1, d1)" by fastforce
  have row: "find_row inst_id n (t_inst d) = Some z" 
    using assms(1,4) inst_getById_find_row [of d n] by (auto split: option.splits if_splits)
  note s1 = inst_save_row [OF assms(1) row _ sv, simplified, OF assms(5)]
  have t: "termination_date i1 = t"
    using inst_save_table [OF sv] instances.save_row_same [OF row] assms(5) by (cases i) (simp add: on_update_def)
  have ok: "table_ok inst_id (t_inst d1)" using inst_save_ok [OF assms(1)] sv by (metis snd_conv)
  have uniq: "expirations_unique d1" "table_ok ie_id (t_expiration d1)"
    using assms(2,3) s1(6) by (simp_all add: expirations_unique_def)
  let ?d = "grantExtension now i t d"
  have g: "?d = (case ie_getByInstance i1 d1 of None \<Rightarrow> d1 | Some e \<Rightarrow> ie_delete e d1)"
    using sv by (simp add: grantExtension_def)
  have inst: "t_inst ?d = t_inst d1" by (simp add: g ie_delete_frame split: option.split)
  have "inst_getById n d1 = Some i1"
    using inst_getById_find_row [OF ok, of n] s1(1,3) assms(6) by (simp add: live_def)
  then have 1: "inst_getById n ?d = Some i1" by (simp add: inst_getById_def inst)
  have "\<not> has_expiration i1 ?d"
  proof (cases "ie_getByInstance i1 d1")
    case None
    then show ?thesis by (simp add: g has_expiration_iff)
  next
    case (Some e)
    then have e: "e \<in> set (rows (t_expiration d1))" "ie_inst e = n"
      using ie_getByInstance_eq [OF uniq(1) s1(5)] by blast+
    have "f = e" if "f \<in> set (rows (t_expiration d1))" "ie_inst f = n" for f
      using that e uniq(1) by (auto simp: expirations_unique_def distinct_map inj_on_def)
    then show ?thesis using Some s1(5) by (auto simp: g has_expiration_def ie_delete_rows list_ex_iff)
  qed
  then show ?thesis using 1 t by blast
qed

theorem granted_extension_removes_expiration_witness:
  "\<exists>i'. inst_getById 1 (grantExtension 7 inst_alice (Some 99) expiry_sample) = Some i' \<and>
     termination_date i' = Some 99"
  using granted_extension_removes_expiration [OF _ expiry_sample_simps(3,4), of 1 inst_alice inst_alice 7 "Some 99"]
    sample_getById sample_db_instances
  by (auto simp: expiry_sample_simps inst_getById_def live_def sample_insts)

end
