(* ===== verification/Command_Queue.thy ===== *)
theory Command_Queue
  imports Samples
begin

text \<open>
  InstanceActionManager with its runners, futures and the dispatcher's pool (package
  concurrent of visa-business). Every instance that has work has a queue of futures, of
  which only the first has been handed to the pool. The manager's methods are synchronized,
  so each is one step; what a run of an action does is left open but for its outcome.
  Commands are objects that the manager, the runners and the callers share and change, so
  they live in a store, addressed by position; a command that is read from the database is
  a new object.
\<close>

section \<open>State\<close>

record fut =
  fu_cmd :: nat
  fu_run :: bool
  fu_cancelled :: bool

record qm =
  q_heap :: "command list"
  q_futs :: "fut list"
  q_actions :: "ident option \<Rightarrow> nat list option"
  q_pool :: "nat list"
  q_running :: "nat list"
  q_table :: "command table"

definition q_init :: "command table \<Rightarrow> qm" where
  "q_init t = \<lparr>q_heap = [], q_futs = [], q_actions = (\<lambda>_. None), q_pool = [], q_running = [], q_table = t\<rparr>"

definition fut_command :: "qm \<Rightarrow> nat \<Rightarrow> command" where
  "fut_command st f = q_heap st ! fu_cmd (q_futs st ! f)"

definition fut_key :: "qm \<Rightarrow> nat \<Rightarrow> ident option" where
  "fut_key st f = inst_id (cmd_inst (fut_command st f))"

definition fut_type :: "qm \<Rightarrow> nat \<Rightarrow> command_type" where
  "fut_type st f = cmd_type (fut_command st f)"

section \<open>Saving commands\<close>

text \<open>InstanceCommandService saves the commands of users only. Persisting gives the object its identifier.\<close>

definition command_save :: "date \<Rightarrow> command \<Rightarrow> command table \<Rightarrow> command \<times> command table" where
  "command_save now c t =
     (if cmd_user c = None then (c, t)
      else (let (c', t') = save_row cmd_id (\<lambda>n x. x\<lparr>cmd_id := Some n\<rparr>) on_create on_update now c t
            in (if cmd_id c = None then c' else c, t')))"

definition set_command_state :: "date \<Rightarrow> nat \<Rightarrow> command_state \<Rightarrow> qm \<Rightarrow> qm" where
  "set_command_state now ob s st =
     (let (c, t) = command_save now ((q_heap st ! ob)\<lparr>cmd_state := s\<rparr>) (q_table st)
      in st\<lparr>q_heap := (q_heap st)[ob := c], q_table := t\<rparr>)"

section \<open>The manager\<close>

text \<open>Running a future submits its runner to the pool, once, unless the future was cancelled.\<close>

definition run_future :: "nat \<Rightarrow> qm \<Rightarrow> qm" where
  "run_future f st =
     (let x = q_futs st ! f
      in if fu_run x \<or> fu_cancelled x then st
         else st\<lparr>q_futs := (q_futs st)[f := x\<lparr>fu_run := True\<rparr>], q_pool := q_pool st @ [f]\<rparr>)"

definition queue_command :: "date \<Rightarrow> nat \<Rightarrow> qm \<Rightarrow> nat \<times> qm" where
  "queue_command now ob st =
     (let c = q_heap st ! ob; k = inst_id (cmd_inst c);
          doExecute = (q_actions st k = None);
          q = (case q_actions st k of None \<Rightarrow> [] | Some q \<Rightarrow> q);
          (f, st1) = (case List.find (\<lambda>f. fut_type st f = cmd_type c) q of
              Some f \<Rightarrow> (f, set_command_state now ob TERMINATED st)
            | None \<Rightarrow>
                (length (q_futs st),
                 set_command_state now ob QUEUED
                   (st\<lparr>q_futs := q_futs st @ [\<lparr>fu_cmd = ob, fu_run = False, fu_cancelled = False\<rparr>],
                       q_actions := (q_actions st)(k \<mapsto> q @ [length (q_futs st)])\<rparr>)))
      in (f, if doExecute then run_future f st1 else st1))"

definition cancel_command :: "date \<Rightarrow> nat \<Rightarrow> qm \<Rightarrow> qm" where
  "cancel_command now ob st =
     (let st1 = set_command_state now ob CANCELLED st;
          c = q_heap st1 ! ob; k = inst_id (cmd_inst c);
          same = (\<lambda>f. command_equals (fut_command st1 f) c)
      in case q_actions st1 k of
           None \<Rightarrow> st1
         | Some q \<Rightarrow> (case List.find same q of
             None \<Rightarrow> st1
           | Some f \<Rightarrow>
               st1\<lparr>q_actions := (q_actions st1)(k \<mapsto> filter (\<lambda>g. \<not> same g) q),
                   q_futs := (let x = q_futs st1 ! f in
                     if fu_run x then q_futs st1 else (q_futs st1)[f := x\<lparr>fu_cancelled := True\<rparr>])\<rparr>))"

definition handleNextActionForInstance :: "ident option \<Rightarrow> qm \<Rightarrow> qm" where
  "handleNextActionForInstance k st =
     (case q_actions st k of
        None \<Rightarrow> st
      | Some q \<Rightarrow> (case tl q of
          [] \<Rightarrow> st\<lparr>q_actions := (q_actions st)(k := None)\<rparr>
        | g # gs \<Rightarrow> run_future g (st\<lparr>q_actions := (q_actions st)(k \<mapsto> g # gs)\<rparr>)))"

definition onActionStart :: "date \<Rightarrow> nat \<Rightarrow> qm \<Rightarrow> qm" where
  "onActionStart now f st = set_command_state now (fu_cmd (q_futs st ! f)) RUNNING st"

text \<open>The state in the database is read into the object; without a row the query throws.\<close>

definition getCommandStateFromDatabase :: "nat \<Rightarrow> qm \<Rightarrow> exn + command_state" where
  "getCommandStateFromDatabase ob st =
     (case cmd_id (q_heap st ! ob) of
        None \<Rightarrow> Inr (cmd_state (q_heap st ! ob))
      | Some n \<Rightarrow> (case find_row cmd_id n (q_table st) of
          None \<Rightarrow> Inl NoResult
        | Some r \<Rightarrow> Inr (cmd_state r)))"

text \<open>
  The end of a run: \<open>None\<close> when the action returned, \<open>Some msg\<close> when it threw. Both listener
  methods read the state in the database, overwrite it unless it is CANCELLED, and go on
  to the next action of the instance.
\<close>

definition onActionEnd :: "date \<Rightarrow> string option \<Rightarrow> nat \<Rightarrow> qm \<Rightarrow> qm" where
  "onActionEnd now outcome f st =
     (let ob = fu_cmd (q_futs st ! f);
          st0 = (case outcome of None \<Rightarrow> st
            | Some msg \<Rightarrow> st\<lparr>q_heap := (q_heap st)[ob := (q_heap st ! ob)\<lparr>cmd_message := Some (''Action failed: '' @ msg)\<rparr>]\<rparr>)
      in case getCommandStateFromDatabase ob st0 of
           Inl _ \<Rightarrow> st0
         | Inr s \<Rightarrow>
             (let st1 = st0\<lparr>q_heap := (q_heap st0)[ob := (q_heap st0 ! ob)\<lparr>cmd_state := s\<rparr>]\<rparr>;
                  st2 = (if s = CANCELLED then st1
                         else set_command_state now ob (if outcome = None then TERMINATED else FAILED) st1)
              in handleNextActionForInstance (inst_id (cmd_inst (q_heap st ! ob))) st2))"

section \<open>Steps\<close>

text \<open>A command object that a caller made or read, and queues. It has a row if it has an identifier.\<close>

definition submit :: "date \<Rightarrow> command \<Rightarrow> qm \<Rightarrow> qm" where
  "submit now c st = snd (queue_command now (length (q_heap st)) (st\<lparr>q_heap := q_heap st @ [c]\<rparr>))"

text \<open>InstanceCommandService reads the command it is to cancel from the database: a new object.\<close>

definition service_cancel :: "date \<Rightarrow> command \<Rightarrow> qm \<Rightarrow> qm" where
  "service_cancel now c st = cancel_command now (length (q_heap st)) (st\<lparr>q_heap := q_heap st @ [c]\<rparr>)"

definition begin_task :: "date \<Rightarrow> nat \<Rightarrow> qm \<Rightarrow> qm" where
  "begin_task now f st =
     onActionStart now f (st\<lparr>q_pool := remove1 f (q_pool st), q_running := q_running st @ [f]\<rparr>)"

definition end_task :: "date \<Rightarrow> string option \<Rightarrow> nat \<Rightarrow> qm \<Rightarrow> qm" where
  "end_task now outcome f st = onActionEnd now outcome f (st\<lparr>q_running := remove1 f (q_running st)\<rparr>)"

definition stored :: "command \<Rightarrow> qm \<Rightarrow> bool" where
  "stored c st \<longleftrightarrow> (case cmd_id c of None \<Rightarrow> True | Some n \<Rightarrow> find_row cmd_id n (q_table st) \<noteq> None)"

text \<open>A pool of \<open>N\<close> threads takes what was submitted in order.\<close>

inductive qstep :: "nat \<Rightarrow> qm \<Rightarrow> qm \<Rightarrow> bool" for N where
  submit: "stored c st \<Longrightarrow> qstep N st (submit now c st)"
| cancel: "stored c st \<Longrightarrow> qstep N st (service_cancel now c st)"
| begin_task: "q_pool st = f # fs \<Longrightarrow> length (q_running st) < N \<Longrightarrow> qstep N st (begin_task now f st)"
| end_task: "f \<in> set (q_running st) \<Longrightarrow> qstep N st (end_task now outcome f st)"

inductive qreachable :: "nat \<Rightarrow> qm \<Rightarrow> bool" for N where
  init: "table_ok cmd_id t \<Longrightarrow> qreachable N (q_init t)"
| step: "qreachable N st \<Longrightarrow> qstep N st st' \<Longrightarrow> qreachable N st'"

inductive_cases qstep_cases: "qstep N st st'"

section \<open>The invariant\<close>

text \<open>
  Objects with an identifier have a row. Every future has an object of its own and none was
  cancelled. A queue is not empty, has each command type at most once, holds futures of its
  own instance only, and its first future alone was submitted. The pool and the running
  tasks together are the first futures of the queues, without repetition. A queued command
  is RUNNING if its task runs and QUEUED otherwise.
\<close>

definition store_ok :: "qm \<Rightarrow> bool" where
  "store_ok st \<longleftrightarrow> table_ok cmd_id (q_table st) \<and> (\<forall>c \<in> set (q_heap st). stored c st)"

definition futs_ok :: "qm \<Rightarrow> bool" where
  "futs_ok st \<longleftrightarrow> (\<forall>x \<in> set (q_futs st). fu_cmd x < length (q_heap st) \<and> \<not> fu_cancelled x)
     \<and> distinct (map fu_cmd (q_futs st))"

definition queue_ok :: "qm \<Rightarrow> ident option \<Rightarrow> nat list \<Rightarrow> bool" where
  "queue_ok st k q \<longleftrightarrow> q \<noteq> [] \<and> distinct (map (fut_type st) q) \<and>
     (\<forall>f \<in> set q. f < length (q_futs st) \<and> fut_key st f = k) \<and>
     fu_run (q_futs st ! hd q) \<and> (\<forall>f \<in> set (tl q). \<not> fu_run (q_futs st ! f))"

definition queues_ok :: "qm \<Rightarrow> bool" where
  "queues_ok st \<longleftrightarrow> (\<forall>k q. q_actions st k = Some q \<longrightarrow> queue_ok st k q)"

definition heads :: "qm \<Rightarrow> nat set" where
  "heads st = {f. \<exists>k q. q_actions st k = Some q \<and> f = hd q}"

definition pool_ok :: "qm \<Rightarrow> bool" where
  "pool_ok st \<longleftrightarrow> distinct (q_pool st @ q_running st) \<and> set (q_pool st @ q_running st) = heads st"

definition states_ok :: "qm \<Rightarrow> bool" where
  "states_ok st \<longleftrightarrow> (\<forall>k q f. q_actions st k = Some q \<longrightarrow> f \<in> set q \<longrightarrow>
     cmd_state (fut_command st f) = (if f \<in> set (q_running st) then RUNNING else QUEUED))"

definition q_ok :: "qm \<Rightarrow> bool" where
  "q_ok st \<longleftrightarrow> store_ok st \<and> futs_ok st \<and> queues_ok st \<and> pool_ok st \<and> states_ok st"

section \<open>Facts on saving\<close>

lemma save_row_keeps_rows:
  "find_row cmd_id n t \<noteq> None \<Longrightarrow>
     find_row cmd_id n (snd (save_row cmd_id (\<lambda>n x. x\<lparr>cmd_id := Some n\<rparr>) on_create on_update now c t)) \<noteq> None"
proof -
  assume a: "find_row cmd_id n t \<noteq> None"
  obtain c' t' where s: "save_row cmd_id (\<lambda>n x. x\<lparr>cmd_id := Some n\<rparr>) on_create on_update now c t = (c', t')"
    by fastforce
  show ?thesis
  proof (cases "cmd_id c' = Some n")
    case True
    then have "\<exists>x \<in> set (rows t'). cmd_id x = Some n" using commands.save_row_mem [OF s] by blast
    then show ?thesis using s by (simp add: find_row_def find_not_None_iff del: not_None_eq)
  next
    case False
    then show ?thesis using commands.save_row_other [OF s False] a s by simp
  qed
qed

lemma command_save_props:
  assumes "command_save now c t = (c', t')"
  shows "cmd_inst c' = cmd_inst c \<and> cmd_type c' = cmd_type c \<and> cmd_state c' = cmd_state c \<and> cmd_user c' = cmd_user c"
    and "table_ok cmd_id t \<Longrightarrow> table_ok cmd_id t'"
    and "find_row cmd_id n t \<noteq> None \<Longrightarrow> find_row cmd_id n t' \<noteq> None"
    and "cmd_id c' = cmd_id c \<or> (\<exists>n. cmd_id c' = Some n \<and> find_row cmd_id n t' \<noteq> None)"
proof -
  obtain c2 t2 where s: "save_row cmd_id (\<lambda>n x. x\<lparr>cmd_id := Some n\<rparr>) on_create on_update now c t = (c2, t2)"
    by fastforce
  have c2: "cmd_inst c2 = cmd_inst c \<and> cmd_type c2 = cmd_type c \<and> cmd_state c2 = cmd_state c \<and> cmd_user c2 = cmd_user c"
    using s by (auto simp: save_row_def persist_row_def merge_row_def on_create_def on_update_def Let_def
        split: option.splits)
  show "cmd_inst c' = cmd_inst c \<and> cmd_type c' = cmd_type c \<and> cmd_state c' = cmd_state c \<and> cmd_user c' = cmd_user c"
    using assms c2 s by (auto simp: command_save_def split: if_splits)
  show "table_ok cmd_id t \<Longrightarrow> table_ok cmd_id t'"
    using assms s commands.save_ok [of t now c] by (auto simp: command_save_def split: if_splits)
  show "find_row cmd_id n t \<noteq> None \<Longrightarrow> find_row cmd_id n t' \<noteq> None"
    using assms s save_row_keeps_rows [of n t now c] by (auto simp: command_save_def split: if_splits)
  have "\<exists>n. cmd_id c2 = Some n \<and> find_row cmd_id n t2 \<noteq> None"
    using commands.save_row_mem [OF s] by (auto simp: find_row_def find_not_None_iff simp del: not_None_eq)
  then show "cmd_id c' = cmd_id c \<or> (\<exists>n. cmd_id c' = Some n \<and> find_row cmd_id n t' \<noteq> None)"
    using assms s by (auto simp: command_save_def split: if_splits)
qed

lemma set_command_state_fields [simp]:
  "q_futs (set_command_state now ob s st) = q_futs st"
  "q_actions (set_command_state now ob s st) = q_actions st"
  "q_pool (set_command_state now ob s st) = q_pool st"
  "q_running (set_command_state now ob s st) = q_running st"
  "length (q_heap (set_command_state now ob s st)) = length (q_heap st)"
  by (simp_all add: set_command_state_def split: prod.splits)

lemma set_command_state_heap:
  "p \<noteq> ob \<Longrightarrow> q_heap (set_command_state now ob s st) ! p = q_heap st ! p"
  "ob < length (q_heap st) \<Longrightarrow> cmd_state (q_heap (set_command_state now ob s st) ! ob) = s"
  "ob < length (q_heap st) \<Longrightarrow>
     cmd_inst (q_heap (set_command_state now ob s st) ! p) = cmd_inst (q_heap st ! p) \<and>
     cmd_type (q_heap (set_command_state now ob s st) ! p) = cmd_type (q_heap st ! p)"
  by (auto simp: set_command_state_def nth_list_update command_save_props(1) split: prod.splits)

lemma set_command_state_store:
  assumes "store_ok st" and "ob < length (q_heap st)"
  shows "store_ok (set_command_state now ob s st)"
proof -
  let ?c = "(q_heap st ! ob)\<lparr>cmd_state := s\<rparr>"
  obtain c' t' where sv: "command_save now ?c (q_table st) = (c', t')" by fastforce
  have old: "stored c st" if "c \<in> set (q_heap st)" for c using assms(1) that by (simp add: store_ok_def)
  have keep: "stored c st \<Longrightarrow> stored c (st\<lparr>q_heap := h, q_table := t'\<rparr>)" for c h
    using command_save_props(3) [OF sv] by (auto simp: stored_def split: option.splits)
  have "stored ?c st" using old [of "q_heap st ! ob"] assms(2) by (simp add: stored_def)
  then have "stored c' (st\<lparr>q_heap := h, q_table := t'\<rparr>)" for h
    using keep [of ?c] command_save_props(4) [OF sv] by (auto simp: stored_def)
  moreover have "table_ok cmd_id t'" using assms(1) command_save_props(2) [OF sv] by (simp add: store_ok_def)
  ultimately show ?thesis
    using sv old keep set_update_subset_insert [of "q_heap st" ob c']
    by (auto simp: store_ok_def set_command_state_def)
qed

section \<open>Preservation of the invariant\<close>

lemma set_command_state_fut:
  assumes "ob < length (q_heap st)"
  shows "fut_key (set_command_state now ob s st) f = fut_key st f"
    and "fut_type (set_command_state now ob s st) f = fut_type st f"
  using set_command_state_heap(3) [OF assms] by (simp_all add: fut_key_def fut_type_def fut_command_def)

lemma set_command_state_fut_state:
  assumes "ob < length (q_heap st)"
  shows "cmd_state (fut_command (set_command_state now ob s st) f)
    = (if fu_cmd (q_futs st ! f) = ob then s else cmd_state (fut_command st f))"
  using set_command_state_heap(1) set_command_state_heap(2) [OF assms] by (auto simp: fut_command_def)

lemma queues_ok_transfer:
  assumes "queues_ok st" and "q_futs st' = q_futs st" and "q_actions st' = q_actions st"
    and "\<And>f. f < length (q_futs st) \<Longrightarrow> fut_key st' f = fut_key st f \<and> fut_type st' f = fut_type st f"
  shows "queues_ok st'"
proof -
  have "queue_ok st' k q" if "queue_ok st k q" for k q
  proof -
    have "map (fut_type st') q = map (fut_type st) q" using that assms(4) by (auto simp: queue_ok_def)
    then have "distinct (map (fut_type st') q)" using that by (metis queue_ok_def)
    then show ?thesis using that assms(2,4) by (auto simp: queue_ok_def)
  qed
  then show ?thesis using assms(1,3) by (simp add: queues_ok_def)
qed

text \<open>Changing an object that no future holds.\<close>

lemma set_unheld_ok:
  assumes "q_ok st" and ob: "ob < length (q_heap st)" and "\<forall>x \<in> set (q_futs st). fu_cmd x \<noteq> ob"
  shows "q_ok (set_command_state now ob s st)"
proof -
  let ?st = "set_command_state now ob s st"
  have q: "queues_ok st" using assms(1) by (simp add: q_ok_def)
  have "queues_ok ?st"
    by (rule queues_ok_transfer [OF q]) (simp_all add: set_command_state_fut [OF ob])
  moreover have "states_ok ?st"
  proof -
    have "fu_cmd (q_futs st ! f) \<noteq> ob" if "q_actions st k = Some q" "f \<in> set q" for k q f
      using q assms(3) that by (fastforce simp: queues_ok_def queue_ok_def)
    then show ?thesis
      using assms(1) by (auto simp: q_ok_def states_ok_def set_command_state_fut_state [OF ob])
  qed
  ultimately show ?thesis
    using assms(1) set_command_state_store [OF _ ob] by (simp add: q_ok_def futs_ok_def pool_ok_def heads_def)
qed

lemma push_command:
  assumes "q_ok st" and "stored c st"
  shows "q_ok (st\<lparr>q_heap := q_heap st @ [c]\<rparr>)"
    and "\<forall>x \<in> set (q_futs st). fu_cmd x \<noteq> length (q_heap st)"
proof -
  let ?st = "st\<lparr>q_heap := q_heap st @ [c]\<rparr>"
  have f: "fu_cmd (q_futs st ! f) < length (q_heap st)" if "f < length (q_futs st)" for f
    using assms(1) that by (simp add: q_ok_def futs_ok_def)
  have same: "fut_command ?st f = fut_command st f" if "f < length (q_futs st)" for f
    using f [OF that] by (simp add: fut_command_def nth_append)
  have q: "queues_ok st" using assms(1) by (simp add: q_ok_def)
  have "queues_ok ?st"
    by (rule queues_ok_transfer [OF q]) (simp_all add: fut_key_def fut_type_def same)
  moreover have "states_ok ?st"
    using assms(1) q same by (auto simp: q_ok_def states_ok_def queues_ok_def queue_ok_def)
  moreover have "stored c' ?st = stored c' st" for c' by (cases "cmd_id c'") (simp_all add: stored_def)
  ultimately show "q_ok ?st"
    using assms by (auto simp: q_ok_def store_ok_def futs_ok_def pool_ok_def heads_def)
  show "\<forall>x \<in> set (q_futs st). fu_cmd x \<noteq> length (q_heap st)"
    using assms(1) by (auto simp: q_ok_def futs_ok_def)
qed

lemma heads_range: "q_ok st \<Longrightarrow> f \<in> heads st \<Longrightarrow> f < length (q_futs st)"
  by (auto simp: q_ok_def queues_ok_def queue_ok_def heads_def)

lemma tasks_range:
  "q_ok st \<Longrightarrow> f \<in> set (q_pool st) \<union> set (q_running st) \<Longrightarrow> f < length (q_futs st)"
  using heads_range [of st f] by (auto simp: q_ok_def pool_ok_def)

lemma heads_update:
  assumes "q_actions st' = (q_actions st)(k \<mapsto> q')" and "q_actions st k = Some q" and "hd q' = hd q"
  shows "heads st' = heads st"
proof -
  have "(\<exists>k' p. ((q_actions st)(k \<mapsto> q')) k' = Some p \<and> f = hd p) \<longleftrightarrow>
      (\<exists>k' p. q_actions st k' = Some p \<and> f = hd p)" for f
    using assms(2,3) by (metis fun_upd_apply option.inject)
  then show ?thesis using assms(1) by (simp add: heads_def)
qed

lemma heads_ran: "heads st = hd ` ran (q_actions st)"
  by (auto simp: heads_def ran_def)

lemma heads_new:
  "q_actions st' = (q_actions st)(k \<mapsto> q') \<Longrightarrow> q_actions st k = None \<Longrightarrow>
     heads st' = insert (hd q') (heads st)"
  by (simp add: heads_ran ran_map_upd)

text \<open>A new future at the end of the queue of an instance that has one, and in a new queue.\<close>

definition append_future :: "date \<Rightarrow> nat \<Rightarrow> ident option \<Rightarrow> nat list \<Rightarrow> qm \<Rightarrow> qm" where
  "append_future now ob k q st = set_command_state now ob QUEUED
     (st\<lparr>q_futs := q_futs st @ [\<lparr>fu_cmd = ob, fu_run = False, fu_cancelled = False\<rparr>],
         q_actions := (q_actions st)(k \<mapsto> q @ [length (q_futs st)])\<rparr>)"

lemma append_future_fields [simp]:
  "q_futs (append_future now ob k q st) = q_futs st @ [\<lparr>fu_cmd = ob, fu_run = False, fu_cancelled = False\<rparr>]"
  "q_actions (append_future now ob k q st) = (q_actions st)(k \<mapsto> q @ [length (q_futs st)])"
  "q_pool (append_future now ob k q st) = q_pool st"
  "q_running (append_future now ob k q st) = q_running st"
  "length (q_heap (append_future now ob k q st)) = length (q_heap st)"
  by (simp_all add: append_future_def)

lemma append_future_fut:
  assumes "ob < length (q_heap st)"
  shows "f < length (q_futs st) \<Longrightarrow> fut_key (append_future now ob k q st) f = fut_key st f"
    and "f < length (q_futs st) \<Longrightarrow> fut_type (append_future now ob k q st) f = fut_type st f"
    and "fut_key (append_future now ob k q st) (length (q_futs st)) = inst_id (cmd_inst (q_heap st ! ob))"
    and "fut_type (append_future now ob k q st) (length (q_futs st)) = cmd_type (q_heap st ! ob)"
    and "cmd_state (fut_command (append_future now ob k q st) (length (q_futs st))) = QUEUED"
    and "f < length (q_futs st) \<Longrightarrow> fu_cmd (q_futs st ! f) \<noteq> ob \<Longrightarrow>
      cmd_state (fut_command (append_future now ob k q st) f) = cmd_state (fut_command st f)"
  unfolding append_future_def
  by (simp_all add: set_command_state_fut set_command_state_fut_state assms)
    (simp_all add: fut_key_def fut_type_def fut_command_def nth_append)

lemma append_future_base:
  assumes "q_ok st" and ob: "ob < length (q_heap st)" and un: "\<forall>x \<in> set (q_futs st). fu_cmd x \<noteq> ob"
  shows "store_ok (append_future now ob k q st)" and "futs_ok (append_future now ob k q st)"
proof -
  have "store_ok st" and "futs_ok st" using assms(1) by (simp_all add: q_ok_def)
  then show "store_ok (append_future now ob k q st)"
    using ob unfolding append_future_def
    by (intro set_command_state_store) (auto simp: store_ok_def stored_def split: option.splits)
  show "futs_ok (append_future now ob k q st)"
    using \<open>futs_ok st\<close> ob un by (auto simp: futs_ok_def)
qed

lemma append_future_queue:
  assumes ok: "q_ok st" and ob: "ob < length (q_heap st)" and "queue_ok st k' q'"
  shows "queue_ok (append_future now ob k q st) k' q'"
proof -
  let ?st = "append_future now ob k q st"
  have r: "\<forall>f \<in> set q'. f < length (q_futs st)" using assms(3) by (simp add: queue_ok_def)
  then have "map (fut_type ?st) q' = map (fut_type st) q'" by (simp add: append_future_fut [OF ob])
  then have "distinct (map (fut_type ?st) q')" using assms(3) by (metis queue_ok_def)
  moreover have "hd q' \<in> set q'" "set (tl q') \<subseteq> set q'"
    using assms(3) by (auto simp: queue_ok_def dest: list.set_sel(2))
  ultimately show ?thesis
    using assms(3) r by (fastforce simp: queue_ok_def append_future_fut [OF ob] nth_append)
qed

lemma append_future_ok:
  assumes ok: "q_ok st" and ob: "ob < length (q_heap st)" and un: "\<forall>x \<in> set (q_futs st). fu_cmd x \<noteq> ob"
    and k: "k = inst_id (cmd_inst (q_heap st ! ob))" and q: "q_actions st k = Some q"
    and new: "\<forall>f \<in> set q. fut_type st f \<noteq> cmd_type (q_heap st ! ob)"
  shows "q_ok (append_future now ob k q st)"
proof -
  let ?st = "append_future now ob k q st" and ?f = "length (q_futs st)"
  have qs: "queue_ok st k' q'" if "q_actions st k' = Some q'" for k' q'
    using ok that by (simp add: q_ok_def queues_ok_def)
  have qk: "queue_ok ?st k q" by (rule append_future_queue [OF ok ob qs [OF q]])
  have ne: "q \<noteq> []" and r: "\<forall>f \<in> set q. f < ?f" using qs [OF q] by (simp_all add: queue_ok_def)
  have "cmd_type (q_heap st ! ob) \<notin> fut_type ?st ` set q"
    using new r by (auto simp: append_future_fut [OF ob])
  then have "queue_ok ?st k (q @ [?f])"
    using qk ne k by (auto simp: queue_ok_def append_future_fut [OF ob])
  then have 1: "queues_ok ?st" using append_future_queue [OF ok ob qs] by (auto simp: queues_ok_def)
  have "heads ?st = heads st" by (rule heads_update [where k = k and q = q and q' = "q @ [?f]"]) (use q ne in simp_all)
  then have 2: "pool_ok ?st" using ok by (simp add: q_ok_def pool_ok_def)
  have "?f \<notin> set (q_running st)" using tasks_range [OF ok] by auto
  moreover have "fu_cmd (q_futs st ! f) \<noteq> ob" if "f < ?f" for f using un that by simp
  ultimately have 3: "states_ok ?st"
    using ok qs q r by (auto simp: q_ok_def states_ok_def queue_ok_def append_future_fut [OF ob])
  show ?thesis using 1 2 3 append_future_base [OF ok ob un] by (simp add: q_ok_def)
qed

lemma run_new_future_ok:
  assumes ok: "q_ok st" and ob: "ob < length (q_heap st)" and un: "\<forall>x \<in> set (q_futs st). fu_cmd x \<noteq> ob"
    and k: "k = inst_id (cmd_inst (q_heap st ! ob))" and q: "q_actions st k = None"
  shows "q_ok (run_future (length (q_futs st)) (append_future now ob k [] st))"
proof -
  let ?f = "length (q_futs st)"
  let ?s1 = "append_future now ob k [] st"
  let ?st = "?s1\<lparr>q_futs := q_futs st @ [\<lparr>fu_cmd = ob, fu_run = True, fu_cancelled = False\<rparr>],
      q_pool := q_pool st @ [?f]\<rparr>"
  have st: "run_future ?f ?s1 = ?st" by (simp add: run_future_def Let_def nth_append)
  have "fu_cmd (q_futs ?st ! f) = fu_cmd (q_futs ?s1 ! f)" for f
    by (simp add: nth_append nth_Cons split: nat.split)
  then have cmd: "fut_command ?st f = fut_command ?s1 f" for f by (simp add: fut_command_def)
  then have kt: "fut_key ?st f = fut_key ?s1 f" "fut_type ?st f = fut_type ?s1 f" for f
    by (simp_all add: fut_key_def fut_type_def)
  have qs: "queue_ok st k' q'" if "q_actions st k' = Some q'" for k' q'
    using ok that by (simp add: q_ok_def queues_ok_def)
  have "queue_ok ?st k' q'" if "q_actions st k' = Some q'" for k' q'
  proof -
    note old = qs [OF that]
    have r: "\<forall>f \<in> set q'. f < ?f" using old by (simp add: queue_ok_def)
    have s1: "queue_ok ?s1 k' q'" by (rule append_future_queue [OF ok ob old])
    have same: "q_futs ?st ! f = q_futs ?s1 ! f" if "f < ?f" for f using that by (simp add: nth_append)
    have t: "map (fut_type ?st) q' = map (fut_type ?s1) q'" by (simp add: kt)
    have hd: "hd q' < ?f" using old r by (simp add: queue_ok_def)
    have "set (tl q') \<subseteq> set q'" by (cases q') auto
    then have tl: "\<forall>f \<in> set (tl q'). \<not> fu_run (q_futs ?st ! f)"
      using s1 same r unfolding queue_ok_def by (metis subsetD)
    have "fu_run (q_futs ?st ! hd q')" using s1 same [OF hd] unfolding queue_ok_def by metis
    moreover have "\<forall>f \<in> set q'. f < length (q_futs ?st) \<and> fut_key ?st f = k'"
      using s1 r unfolding queue_ok_def kt by simp
    moreover have "distinct (map (fut_type ?st) q')" "q' \<noteq> []" using s1 t unfolding queue_ok_def by metis+
    ultimately show ?thesis using tl unfolding queue_ok_def by blast
  qed
  moreover have "queue_ok ?st k [?f]"
    unfolding queue_ok_def kt list.map list.set by (simp add: append_future_fut(3) [OF ob] k [symmetric])
  ultimately have 1: "queues_ok ?st" by (auto simp: queues_ok_def)
  have new: "?f \<notin> heads st" using heads_range [OF ok] by auto
  have "heads ?st = insert ?f (heads st)"
    by (rule heads_new [where k = k and q' = "[?f]", unfolded list.sel(1)]) (use q in simp_all)
  then have 2: "pool_ok ?st" using ok new by (auto simp: q_ok_def pool_ok_def)
  have "?f \<notin> set (q_running st)" using tasks_range [OF ok] by auto
  moreover have "fu_cmd (q_futs st ! f) \<noteq> ob" if "f < ?f" for f using un that by simp
  ultimately have 3: "states_ok ?st"
    using ok qs by (auto simp: q_ok_def states_ok_def queue_ok_def cmd append_future_fut [OF ob])
  have "store_ok ?st" "futs_ok ?st"
    using append_future_base [OF ok ob un, of now k "[]"]
    by (auto simp: store_ok_def stored_def futs_ok_def split: option.splits)
  then show ?thesis using 1 2 3 st by (simp add: q_ok_def)
qed

lemma submit_ok:
  assumes "q_ok st" and "stored c st"
  shows "q_ok (submit now c st)"
proof -
  let ?s0 = "st\<lparr>q_heap := q_heap st @ [c]\<rparr>" and ?ob = "length (q_heap st)"
  let ?k = "inst_id (cmd_inst c)"
  note ok = push_command(1) [OF assms] and un = push_command(2) [OF assms]
  have ob: "?ob < length (q_heap ?s0)" "q_heap ?s0 ! ?ob = c" by simp_all
  show ?thesis
  proof (cases "q_actions st ?k")
    case None
    then have "submit now c st = run_future (length (q_futs ?s0)) (append_future now ?ob ?k [] ?s0)"
      by (simp add: submit_def queue_command_def append_future_def Let_def)
    then show ?thesis using run_new_future_ok [OF ok ob(1) _ _ , of ?k now] un None by simp
  next
    case (Some q)
    show ?thesis
    proof (cases "List.find (\<lambda>f. fut_type ?s0 f = cmd_type c) q")
      case None
      then have "submit now c st = append_future now ?ob ?k q ?s0"
        using Some by (simp add: submit_def queue_command_def append_future_def Let_def)
      moreover have "\<forall>f \<in> set q. fut_type ?s0 f \<noteq> cmd_type c"
        using None by (simp add: find_is_None_iff)
      ultimately show ?thesis using append_future_ok [OF ok ob(1), of ?k q now] un Some by simp
    next
      case (Some f)
      then have "submit now c st = set_command_state now ?ob TERMINATED ?s0"
        using \<open>q_actions st ?k = Some q\<close> by (simp add: submit_def queue_command_def Let_def)
      then show ?thesis using set_unheld_ok [OF ok ob(1)] un by simp
    qed
  qed
qed

text \<open>A cancellation finds no queued command that equals its own, which is CANCELLED.\<close>

lemma service_cancel_eq:
  assumes "q_ok st" and "stored c st"
  shows "service_cancel now c st
    = set_command_state now (length (q_heap st)) CANCELLED (st\<lparr>q_heap := q_heap st @ [c]\<rparr>)"
proof -
  let ?ob = "length (q_heap st)"
  let ?st = "set_command_state now ?ob CANCELLED (st\<lparr>q_heap := q_heap st @ [c]\<rparr>)"
  note ok = push_command(1) [OF assms] and un = push_command(2) [OF assms]
  have "q_ok ?st" by (rule set_unheld_ok [OF ok]) (use un in simp_all)
  then have states: "states_ok ?st" by (simp add: q_ok_def)
  have c: "cmd_state (q_heap ?st ! ?ob) = CANCELLED" by (rule set_command_state_heap(2)) simp
  have "\<not> command_equals (fut_command ?st f) (q_heap ?st ! ?ob)"
    if "q_actions ?st k = Some q" "f \<in> set q" for k q f
  proof -
    have "cmd_state (fut_command ?st f) = (if f \<in> set (q_running ?st) then RUNNING else QUEUED)"
      using states that unfolding states_ok_def by blast
    then have "cmd_state (fut_command ?st f) \<noteq> CANCELLED"
      by (cases "f \<in> set (q_running ?st)") (simp_all only: if_True if_False command_state.distinct not_False_eq_True)
    then show ?thesis using c by (simp add: command_equals_def)
  qed
  then have "q_actions ?st k = Some q \<Longrightarrow>
      List.find (\<lambda>f. command_equals (fut_command ?st f) (q_heap ?st ! ?ob)) q = None" for k q
    unfolding find_is_None_iff by blast
  then show ?thesis
    by (auto simp: service_cancel_def cancel_command_def Let_def split: option.split)
qed

lemma service_cancel_ok: "q_ok st \<Longrightarrow> stored c st \<Longrightarrow> q_ok (service_cancel now c st)"
  using push_command [of st c] set_unheld_ok [of "st\<lparr>q_heap := q_heap st @ [c]\<rparr>" "length (q_heap st)"]
  by (simp add: service_cancel_eq)

lemma queue_of_head:
  assumes "q_ok st" and "q_actions st k = Some q"
  shows "fut_key st (hd q) = k" and "hd q \<in> set q" and "hd q < length (q_futs st)" and "queue_ok st k q"
  using assms by (auto simp: q_ok_def queues_ok_def queue_ok_def)

lemma task_queue:
  assumes "q_ok st" and "f \<in> set (q_pool st) \<union> set (q_running st)"
  shows "\<exists>q. q_actions st (fut_key st f) = Some q \<and> f = hd q"
proof -
  have "f \<in> heads st" using assms by (auto simp: q_ok_def pool_ok_def)
  then obtain k q where "q_actions st k = Some q" "f = hd q" by (auto simp: heads_def)
  then show ?thesis using queue_of_head(1) [OF assms(1)] by metis
qed

lemma fut_cmd_unique:
  assumes "q_ok st" and "f < length (q_futs st)" and "g < length (q_futs st)"
    and "fu_cmd (q_futs st ! f) = fu_cmd (q_futs st ! g)"
  shows "f = g"
  using assms nth_eq_iff_index_eq [of "map fu_cmd (q_futs st)" f g] by (simp add: q_ok_def futs_ok_def)

lemma fut_object: "q_ok st \<Longrightarrow> f < length (q_futs st) \<Longrightarrow> fu_cmd (q_futs st ! f) < length (q_heap st)"
  by (simp add: q_ok_def futs_ok_def)

lemma begin_task_ok:
  assumes ok: "q_ok st" and p: "q_pool st = f # fs"
  shows "q_ok (begin_task now f st)"
proof -
  let ?ob = "fu_cmd (q_futs st ! f)"
  let ?s0 = "st\<lparr>q_pool := fs, q_running := q_running st @ [f]\<rparr>"
  have f: "f < length (q_futs st)" using tasks_range [OF ok] p by simp
  have ob: "?ob < length (q_heap ?s0)" using fut_object [OF ok f] by simp
  have st: "begin_task now f st = set_command_state now ?ob RUNNING ?s0"
    using p by (simp add: begin_task_def onActionStart_def)
  have q: "queues_ok st" using ok by (simp add: q_ok_def)
  have "queues_ok (set_command_state now ?ob RUNNING ?s0)"
    by (rule queues_ok_transfer [OF q])
      (use set_command_state_fut [OF ob] in \<open>simp_all add: fut_key_def fut_type_def fut_command_def\<close>)
  moreover have "store_ok (set_command_state now ?ob RUNNING ?s0)"
    by (rule set_command_state_store [OF _ ob])
      (use ok in \<open>auto simp: q_ok_def store_ok_def stored_def split: option.splits\<close>)
  moreover have "futs_ok (set_command_state now ?ob RUNNING ?s0)" using ok by (simp add: q_ok_def futs_ok_def)
  moreover have "pool_ok (set_command_state now ?ob RUNNING ?s0)"
    using ok p by (auto simp: q_ok_def pool_ok_def heads_def)
  moreover have "states_ok (set_command_state now ?ob RUNNING ?s0)"
  proof -
    have "cmd_state (fut_command (set_command_state now ?ob RUNNING ?s0) g)
        = (if g \<in> set (q_running st @ [f]) then RUNNING else QUEUED)"
      if "q_actions st k = Some q'" "g \<in> set q'" for k q' g
    proof -
      have g: "g < length (q_futs st)" using q that by (auto simp: queues_ok_def queue_ok_def)
      have "fu_cmd (q_futs st ! g) = ?ob \<longleftrightarrow> g = f" using fut_cmd_unique [OF ok g f] by auto
      moreover have "cmd_state (fut_command ?s0 g) = (if g \<in> set (q_running st) then RUNNING else QUEUED)"
        using ok that by (auto simp: q_ok_def states_ok_def fut_command_def)
      ultimately show ?thesis by (simp add: set_command_state_fut_state [OF ob])
    qed
    then show ?thesis by (simp add: states_ok_def)
  qed
  ultimately show ?thesis by (simp add: q_ok_def st)
qed

text \<open>Changes of the state, the message or the identifier of one object.\<close>

definition touch :: "nat \<Rightarrow> qm \<Rightarrow> qm \<Rightarrow> bool" where
  "touch ob st st' \<longleftrightarrow> q_futs st' = q_futs st \<and> q_actions st' = q_actions st \<and> q_pool st' = q_pool st \<and>
     q_running st' = q_running st \<and> length (q_heap st') = length (q_heap st) \<and>
     (\<forall>p. p \<noteq> ob \<longrightarrow> q_heap st' ! p = q_heap st ! p) \<and>
     cmd_inst (q_heap st' ! ob) = cmd_inst (q_heap st ! ob) \<and>
     cmd_type (q_heap st' ! ob) = cmd_type (q_heap st ! ob) \<and> store_ok st'"

lemma touch_trans: "touch ob st st' \<Longrightarrow> touch ob st' st'' \<Longrightarrow> touch ob st st''"
  by (simp add: touch_def)

lemma touch_state: "store_ok st \<Longrightarrow> ob < length (q_heap st) \<Longrightarrow> touch ob st (set_command_state now ob s st)"
  using set_command_state_heap(1) set_command_state_heap(3) [of ob st] set_command_state_store
  by (simp add: touch_def)

lemma touch_object:
  assumes "store_ok st" and "ob < length (q_heap st)" and "cmd_inst c = cmd_inst (q_heap st ! ob)"
    and "cmd_type c = cmd_type (q_heap st ! ob)" and "cmd_id c = cmd_id (q_heap st ! ob)"
  shows "touch ob st (st\<lparr>q_heap := (q_heap st)[ob := c]\<rparr>)"
proof -
  have same: "stored x (st\<lparr>q_heap := h\<rparr>) = stored x st" for x h
    by (cases "cmd_id x") (simp_all add: stored_def)
  have "stored (q_heap st ! ob) st" using assms(1,2) by (simp add: store_ok_def)
  then have "stored c st" using assms(5) by (simp add: stored_def)
  then have "\<forall>x \<in> set ((q_heap st)[ob := c]). stored x st"
    using assms(1) set_update_subset_insert [of "q_heap st" ob c] by (auto simp: store_ok_def)
  then show ?thesis using assms by (simp add: touch_def store_ok_def same)
qed

lemma onActionEnd_touch:
  assumes "store_ok st" and "fu_cmd (q_futs st ! f) < length (q_heap st)"
  shows "\<exists>st2. touch (fu_cmd (q_futs st ! f)) st st2 \<and>
    onActionEnd now outcome f st = handleNextActionForInstance (fut_key st f) st2"
proof -
  let ?ob = "fu_cmd (q_futs st ! f)"
  let ?m = "\<lambda>c. case outcome of None \<Rightarrow> c | Some msg \<Rightarrow> c\<lparr>cmd_message := Some (''Action failed: '' @ msg)\<rparr>"
  let ?st0 = "st\<lparr>q_heap := (q_heap st)[?ob := ?m (q_heap st ! ?ob)]\<rparr>"
  have t0: "touch ?ob st ?st0"
    by (rule touch_object [OF assms]) (simp_all split: option.split)
  then have s0: "store_ok ?st0" by (simp add: touch_def)
  have e0: "(case outcome of None \<Rightarrow> st | Some msg \<Rightarrow>
      st\<lparr>q_heap := (q_heap st)[?ob := (q_heap st ! ?ob)\<lparr>cmd_message := Some (''Action failed: '' @ msg)\<rparr>]\<rparr>) = ?st0"
    by (cases outcome) simp_all
  have "?m (q_heap st ! ?ob) \<in> set (q_heap ?st0)" using assms(2) by (simp add: set_update_memI)
  then have "stored (?m (q_heap st ! ?ob)) ?st0" using s0 by (simp add: store_ok_def)
  then obtain s where s: "getCommandStateFromDatabase ?ob ?st0 = Inr s"
    using assms(2) by (auto simp: getCommandStateFromDatabase_def stored_def split: option.splits)
  let ?st1 = "?st0\<lparr>q_heap := (q_heap ?st0)[?ob := (q_heap ?st0 ! ?ob)\<lparr>cmd_state := s\<rparr>]\<rparr>"
  have ob0: "?ob < length (q_heap ?st0)" using assms(2) by simp
  have t1: "touch ?ob ?st0 ?st1" by (rule touch_object [OF s0 ob0]) simp_all
  let ?st2 = "if s = CANCELLED then ?st1
    else set_command_state now ?ob (if outcome = None then TERMINATED else FAILED) ?st1"
  have "store_ok ?st1" using t1 by (simp add: touch_def)
  then have "touch ?ob ?st1 ?st2" using touch_state [of ?st1 ?ob] assms(2) touch_trans [of ?ob ?st1 ?st1 ?st1]
    by (auto simp: touch_def)
  then have "touch ?ob st ?st2" using t0 t1 touch_trans by blast
  moreover have "onActionEnd now outcome f st = handleNextActionForInstance (fut_key st f) ?st2"
    unfolding onActionEnd_def Let_def e0 s by (simp add: fut_key_def fut_command_def)
  ultimately show ?thesis by blast
qed

lemma touch_fut:
  assumes "touch ob st st'"
  shows "fut_key st' f = fut_key st f" and "fut_type st' f = fut_type st f"
    and "fu_cmd (q_futs st ! f) \<noteq> ob \<Longrightarrow> fut_command st' f = fut_command st f"
  using assms unfolding fut_key_def fut_type_def fut_command_def touch_def by metis+

lemma fut_frame [simp]:
  "fut_command (st\<lparr>q_actions := a\<rparr>) = fut_command st" "fut_command (st\<lparr>q_pool := p\<rparr>) = fut_command st"
  "fut_command (st\<lparr>q_running := r\<rparr>) = fut_command st"
  "fut_key (st\<lparr>q_actions := a\<rparr>) = fut_key st" "fut_key (st\<lparr>q_pool := p\<rparr>) = fut_key st"
  "fut_key (st\<lparr>q_running := r\<rparr>) = fut_key st"
  "fut_type (st\<lparr>q_actions := a\<rparr>) = fut_type st" "fut_type (st\<lparr>q_pool := p\<rparr>) = fut_type st"
  "fut_type (st\<lparr>q_running := r\<rparr>) = fut_type st"
  by (simp_all add: fun_eq_iff fut_command_def fut_key_def fut_type_def)

lemma stored_frame [simp]:
  "stored c (st\<lparr>q_actions := a\<rparr>) = stored c st" "stored c (st\<lparr>q_pool := p\<rparr>) = stored c st"
  "stored c (st\<lparr>q_futs := x\<rparr>) = stored c st" "stored c (st\<lparr>q_running := r\<rparr>) = stored c st"
  by (cases "cmd_id c"; simp add: stored_def)+

text \<open>
  What is left when the first future of a queue ends: \<open>st\<close> is the state before, \<open>st2\<close> the one in
  which the next action is looked for.
\<close>

definition ending :: "qm \<Rightarrow> qm \<Rightarrow> nat \<Rightarrow> bool" where
  "ending st st2 f \<longleftrightarrow> q_ok st \<and> f \<in> set (q_running st) \<and>
     touch (fu_cmd (q_futs st ! f)) (st\<lparr>q_running := remove1 f (q_running st)\<rparr>) st2"

lemma ending_fields:
  assumes "ending st st2 f"
  shows "q_futs st2 = q_futs st" "q_actions st2 = q_actions st" "q_pool st2 = q_pool st"
    "q_running st2 = remove1 f (q_running st)" "length (q_heap st2) = length (q_heap st)" "store_ok st2"
    "q_ok st" "f \<in> set (q_running st)" "f < length (q_futs st)" "futs_ok st2"
  using assms tasks_range [of st f] by (simp_all add: ending_def touch_def q_ok_def futs_ok_def)

lemma ending_futures:
  assumes "ending st st2 f"
  shows "fut_key st2 = fut_key st" and "fut_type st2 = fut_type st"
    and "g < length (q_futs st) \<Longrightarrow> g \<noteq> f \<Longrightarrow> fut_command st2 g = fut_command st g"
proof -
  have t: "touch (fu_cmd (q_futs st ! f)) (st\<lparr>q_running := remove1 f (q_running st)\<rparr>) st2"
    using assms by (simp add: ending_def)
  show "fut_key st2 = fut_key st" "fut_type st2 = fut_type st"
    using touch_fut(1,2) [OF t] by (simp_all add: fun_eq_iff)
  show "g < length (q_futs st) \<Longrightarrow> g \<noteq> f \<Longrightarrow> fut_command st2 g = fut_command st g"
    using touch_fut(3) [OF t, of g] fut_cmd_unique [of st g f] ending_fields(7,9) [OF assms] by auto
qed

lemma queue_member:
  assumes "q_ok st" and "q_actions st k = Some q" and "g \<in> set q"
  shows "g < length (q_futs st)" and "fut_key st g = k"
  using assms by (auto simp: q_ok_def queues_ok_def queue_ok_def)

lemma ending_queue:
  assumes "ending st st2 f"
  shows "\<exists>gs. q_actions st (fut_key st f) = Some (f # gs)"
proof -
  note ok = ending_fields(7) [OF assms]
  obtain q where q: "q_actions st (fut_key st f) = Some q" "f = hd q"
    using task_queue [OF ok, of f] ending_fields(8) [OF assms] by blast
  have "q \<noteq> []" using queue_of_head(4) [OF ok q(1)] unfolding queue_ok_def by blast
  then show ?thesis using q by (metis list.collapse)
qed

lemma ending_states:
  assumes e: "ending st st2 f" and q: "q_actions st k = Some q" "g \<in> set q" "g \<noteq> f"
  shows "cmd_state (fut_command st2 g) = (if g \<in> set (remove1 f (q_running st)) then RUNNING else QUEUED)"
proof -
  note ok = ending_fields(7) [OF e]
  have "fut_command st2 g = fut_command st g"
    using ending_futures(3) [OF e] queue_member(1) [OF ok q(1,2)] q(3) by simp
  moreover have "g \<in> set (remove1 f (q_running st)) \<longleftrightarrow> g \<in> set (q_running st)"
    using q(3) by simp
  ultimately show ?thesis using ok q(1,2) by (simp add: q_ok_def states_ok_def)
qed

lemma ending_tasks:
  assumes "ending st st2 f"
  shows "distinct (q_pool st @ remove1 f (q_running st))"
    and "set (q_pool st @ remove1 f (q_running st)) = heads st - {f}"
  using ending_fields(7,8) [OF assms] by (auto simp: q_ok_def pool_ok_def)

lemma ending_last:
  assumes e: "ending st st2 f" and q: "q_actions st (fut_key st f) = Some [f]"
  shows "q_ok (st2\<lparr>q_actions := (q_actions st2)(fut_key st f := None)\<rparr>)"
proof -
  let ?k = "fut_key st f"
  let ?st = "st2\<lparr>q_actions := (q_actions st2)(?k := None)\<rparr>"
  note fields = ending_fields [OF e] and fut = ending_futures(1,2) [OF e] and ok = ending_fields(7) [OF e]
  have 1: "queues_ok ?st"
    using ok by (auto simp: q_ok_def queues_ok_def queue_ok_def fut fields(1,2))
  have ne: "f \<notin> set q'" if "q_actions st k' = Some q'" "k' \<noteq> ?k" for k' q'
    using queue_member(2) [OF ok that(1)] that(2) by auto
  have hd: "hd q' \<noteq> f" if "q_actions st k' = Some q'" "k' \<noteq> ?k" for k' q'
    using ne [OF that] queue_of_head(2) [OF ok that(1)] by metis
  have "g \<in> heads ?st \<longleftrightarrow> g \<in> heads st - {f}" for g
  proof
    assume "g \<in> heads ?st"
    then obtain k' q' where "k' \<noteq> ?k" "q_actions st k' = Some q'" "g = hd q'"
      by (auto simp: heads_def fields(2) split: if_splits)
    then show "g \<in> heads st - {f}" using hd by (auto simp: heads_def)
  next
    assume "g \<in> heads st - {f}"
    then obtain k' q' where k': "q_actions st k' = Some q'" "g = hd q'" "g \<noteq> f" by (auto simp: heads_def)
    then have "k' \<noteq> ?k" using q by auto
    then show "g \<in> heads ?st" using k' by (auto simp: heads_def fields(2))
  qed
  then have "heads ?st = heads st - {f}" by blast
  then have 2: "pool_ok ?st" using ending_tasks [OF e] by (simp add: pool_ok_def fields(3,4))
  have 3: "states_ok ?st"
    unfolding states_ok_def
  proof (intro allI impI)
    fix k' q' g assume a: "q_actions ?st k' = Some q'" "g \<in> set q'"
    then have "q_actions st k' = Some q'" "k' \<noteq> ?k" by (auto simp: fields(2) split: if_splits)
    moreover from this have "g \<noteq> f" using ne a(2) by metis
    ultimately show "cmd_state (fut_command ?st g) = (if g \<in> set (q_running ?st) then RUNNING else QUEUED)"
      using ending_states [OF e _ a(2)] fields(4) by simp
  qed
  show ?thesis using 1 2 3 fields(6,10) by (simp add: q_ok_def store_ok_def futs_ok_def)
qed

lemma ending_next:
  assumes e: "ending st st2 f" and q: "q_actions st (fut_key st f) = Some (f # g # gs)"
  shows "q_ok (run_future g (st2\<lparr>q_actions := (q_actions st2)(fut_key st f \<mapsto> g # gs)\<rparr>))"
proof -
  let ?k = "fut_key st f"
  let ?x = "q_futs st ! g"
  let ?fs = "(q_futs st)[g := ?x\<lparr>fu_run := True\<rparr>]"
  let ?st = "st2\<lparr>q_actions := (q_actions st2)(?k \<mapsto> g # gs), q_futs := ?fs, q_pool := q_pool st2 @ [g]\<rparr>"
  note fields = ending_fields [OF e] and ok = ending_fields(7) [OF e]
  have qf: "queue_ok st ?k (f # g # gs)" using queue_of_head(4) [OF ok q] .
  then have g: "g < length (q_futs st)" "\<not> fu_run ?x" "g \<noteq> f" "f \<notin> set gs" "g \<notin> set gs"
    by (auto simp: queue_ok_def)
  have nc: "\<not> fu_cancelled ?x" using ok g(1) by (simp add: q_ok_def futs_ok_def)
  have st: "run_future g (st2\<lparr>q_actions := (q_actions st2)(?k \<mapsto> g # gs)\<rparr>) = ?st"
    using g(2) nc by (simp add: run_future_def Let_def fields(1))
  have cmd: "fu_cmd (?fs ! h) = fu_cmd (q_futs st ! h)" for h
    using g(1) by (simp add: nth_list_update)
  have fc: "fut_command ?st = fut_command st2"
    by (simp add: fun_eq_iff fut_command_def cmd fields(1))
  have fut: "fut_key ?st = fut_key st" "fut_type ?st = fut_type st"
    using ending_futures(1,2) [OF e] fc by (simp_all add: fun_eq_iff fut_key_def fut_type_def)
  have gk: "g \<notin> set q'" if "q_actions st k' = Some q'" "k' \<noteq> ?k" for k' q'
    using queue_member(2) [OF ok that(1), of g] queue_member(2) [OF ok q, of g] that(2) by auto
  have fk: "f \<notin> set q'" if "q_actions st k' = Some q'" "k' \<noteq> ?k" for k' q'
    using queue_member(2) [OF ok that(1)] that(2) by auto
  have same: "fu_run (?fs ! h) = fu_run (q_futs st ! h)" if "h \<noteq> g" for h
    using that by simp
  have "\<forall>h \<in> set gs. fu_run (?fs ! h) = fu_run (q_futs st ! h)" using same g(5) by metis
  then have "queue_ok ?st ?k (g # gs)"
    unfolding queue_ok_def fut using qf g(1) by (simp add: queue_ok_def)
  moreover have "queue_ok ?st k' q'" if "q_actions st k' = Some q'" "k' \<noteq> ?k" for k' q'
  proof -
    have old: "queue_ok st k' q'" using queue_of_head(4) [OF ok that(1)] .
    have "\<forall>h \<in> set q'. fu_run (?fs ! h) = fu_run (q_futs st ! h)" using gk [OF that] same by metis
    moreover have "hd q' \<in> set q'" "set (tl q') \<subseteq> set q'"
      using queue_of_head(2) [OF ok that(1)] by (cases q'; auto)+
    ultimately show ?thesis using old unfolding queue_ok_def fut by auto
  qed
  ultimately have 1: "queues_ok ?st" by (auto simp: queues_ok_def fields(2))
  have hd: "hd q' \<noteq> f \<and> hd q' \<noteq> g" if "q_actions st k' = Some q'" "k' \<noteq> ?k" for k' q'
    using fk [OF that] gk [OF that] queue_of_head(2) [OF ok that(1)] by metis
  have "h \<in> heads ?st \<longleftrightarrow> h = g \<or> h \<in> heads st - {f}" for h
  proof
    assume "h \<in> heads ?st"
    then show "h = g \<or> h \<in> heads st - {f}"
      using hd by (auto simp: heads_def fields(2) split: if_splits)
  next
    assume "h = g \<or> h \<in> heads st - {f}"
    then show "h \<in> heads ?st"
    proof
      assume "h = g"
      then have "q_actions ?st ?k = Some (g # gs) \<and> h = hd (g # gs)" by simp
      then show ?thesis unfolding heads_def by blast
    next
      assume "h \<in> heads st - {f}"
      then obtain k' q' where k': "q_actions st k' = Some q'" "h = hd q'" "h \<noteq> f" by (auto simp: heads_def)
      then have "k' \<noteq> ?k" using q by auto
      then have "q_actions ?st k' = Some q' \<and> h = hd q'" using k' by (simp add: fields(2))
      then show ?thesis unfolding heads_def by blast
    qed
  qed
  then have "heads ?st = insert g (heads st - {f})" by blast
  moreover have gh: "g \<notin> heads st"
  proof
    assume "g \<in> heads st"
    then obtain k' q' where k': "q_actions st k' = Some q'" "g = hd q'" by (auto simp: heads_def)
    show False
    proof (cases "k' = ?k")
      case True
      then have "q' = f # g # gs" using k'(1) q by simp
      then show False using k'(2) g(3) by (metis list.sel(1))
    next
      case False
      then show False using hd [OF k'(1)] k'(2) by simp
    qed
  qed
  ultimately have 2: "pool_ok ?st"
    using ending_tasks [OF e] by (auto simp: pool_ok_def fields(3,4))
  have gr: "g \<notin> set (q_running st)" using ok gh by (auto simp: q_ok_def pool_ok_def)
  have 3: "states_ok ?st"
    unfolding states_ok_def
  proof (intro allI impI)
    fix k' q' h assume a: "q_actions ?st k' = Some q'" "h \<in> set q'"
    have "\<exists>p. q_actions st k' = Some p \<and> h \<in> set p" "h \<noteq> f"
      using a q fk g(3,4) by (auto simp: fields(2) split: if_splits)
    then show "cmd_state (fut_command ?st h) = (if h \<in> set (q_running ?st) then RUNNING else QUEUED)"
      unfolding fc using ending_states [OF e, of k' _ h] fields(4) by auto
  qed
  have "store_ok ?st" using fields(6) by (simp add: store_ok_def)
  moreover have "futs_ok ?st"
  proof -
    have "map fu_cmd ?fs = map fu_cmd (q_futs st)" by (rule nth_equalityI) (simp_all add: cmd)
    moreover have "\<forall>x \<in> set ?fs. fu_cmd x < length (q_heap st2) \<and> \<not> fu_cancelled x"
      using fields(10) fields(1) g(1) nc set_update_subset_insert [of "q_futs st" g "?x\<lparr>fu_run := True\<rparr>"]
      by (auto simp: futs_ok_def)
    ultimately show ?thesis using fields(10) fields(1) by (simp add: futs_ok_def)
  qed
  ultimately show ?thesis using 1 2 3 st by (simp add: q_ok_def)
qed

lemma end_task_ending:
  assumes ok: "q_ok st" and f: "f \<in> set (q_running st)"
  shows "\<exists>st2. ending st st2 f \<and> end_task now outcome f st = handleNextActionForInstance (fut_key st f) st2"
proof -
  let ?s0 = "st\<lparr>q_running := remove1 f (q_running st)\<rparr>"
  have "store_ok ?s0" using ok by (simp add: q_ok_def store_ok_def)
  moreover have "fu_cmd (q_futs ?s0 ! f) < length (q_heap ?s0)"
    using fut_object [OF ok tasks_range [OF ok, of f]] f by simp
  ultimately obtain st2 where "touch (fu_cmd (q_futs st ! f)) ?s0 st2"
      "end_task now outcome f st = handleNextActionForInstance (fut_key st f) st2"
    using onActionEnd_touch [of ?s0 f now outcome] by (auto simp: end_task_def)
  then show ?thesis using ok f by (auto simp: ending_def)
qed

lemma end_task_ok:
  assumes ok: "q_ok st" and f: "f \<in> set (q_running st)"
  shows "q_ok (end_task now outcome f st)"
proof -
  obtain st2 where e: "ending st st2 f"
    and st2: "end_task now outcome f st = handleNextActionForInstance (fut_key st f) st2"
    using end_task_ending [OF assms] by blast
  obtain gs where q: "q_actions st (fut_key st f) = Some (f # gs)" using ending_queue [OF e] by blast
  show ?thesis
    using ending_last [OF e] ending_next [OF e] q ending_fields(2) [OF e] st2
    by (cases gs) (simp_all add: handleNextActionForInstance_def)
qed

lemma qstep_ok: "qstep N st st' \<Longrightarrow> q_ok st \<Longrightarrow> q_ok st'"
  by (induction rule: qstep.induct) (simp_all add: submit_ok service_cancel_ok begin_task_ok end_task_ok)

lemma q_init_ok: "table_ok cmd_id t \<Longrightarrow> q_ok (q_init t)"
  by (simp add: q_init_def q_ok_def store_ok_def futs_ok_def queues_ok_def pool_ok_def states_ok_def heads_def)

lemma qreachable_ok: "qreachable N st \<Longrightarrow> q_ok st"
  by (induction rule: qreachable.induct) (simp_all add: q_init_ok qstep_ok)

section \<open>Properties\<close>

lemma running_bounded: "qreachable N st \<Longrightarrow> length (q_running st) \<le> N"
proof (induction rule: qreachable.induct)
  case (init t)
  then show ?case by (simp add: q_init_def)
next
  case (step st st')
  have ok: "q_ok st" using qreachable_ok [OF step.hyps(1)] .
  from step.hyps(2) show ?case
  proof cases
    case (submit c now)
    have "q_running (run_future f x) = q_running x" for f x by (simp add: run_future_def Let_def)
    then show ?thesis using submit step.IH
      by (auto simp: submit_def queue_command_def Let_def split: option.splits)
  next
    case (cancel c now)
    then show ?thesis using step.IH by (simp add: service_cancel_eq [OF ok])
  next
    case (begin_task f fs now)
    then show ?thesis by (simp add: begin_task_def onActionStart_def)
  next
    case (end_task f now outcome)
    have r: "q_running (run_future g x) = q_running x" for g x by (simp add: run_future_def Let_def)
    have h: "q_running (handleNextActionForInstance k x) = q_running x" for k x
      by (simp add: handleNextActionForInstance_def r split: option.split list.split)
    have "q_running (onActionEnd now outcome f x) = q_running x" for x
      unfolding onActionEnd_def Let_def
      by (auto simp: h split: option.split sum.split)
    moreover have "length (remove1 f (q_running st)) \<le> N" using step.IH by (auto simp: length_remove1)
    ultimately show ?thesis using end_task(1) by (simp add: end_task_def)
  qed
qed

text \<open>C1: In every reachable state at most as many actions run as the pool has threads, no two
  running actions belong to the same instance, and a queue never holds a command type twice.\<close>

theorem one_action_per_instance:
  assumes "qreachable N st"
  shows "length (q_running st) \<le> N \<and> distinct (map (fut_key st) (q_running st)) \<and>
    (\<forall>k q. q_actions st k = Some q \<longrightarrow> distinct (map (fut_type st) q))"
proof -
  note ok = qreachable_ok [OF assms]
  have d: "distinct (q_running st)" using ok by (simp add: q_ok_def pool_ok_def)
  have "inj_on (fut_key st) (set (q_running st))"
  proof (rule inj_onI)
    fix f g assume "f \<in> set (q_running st)" "g \<in> set (q_running st)" "fut_key st f = fut_key st g"
    then show "f = g" using task_queue [OF ok, of f] task_queue [OF ok, of g] by (metis UnCI option.inject)
  qed
  moreover have "distinct (map (fut_type st) q)" if "q_actions st k = Some q" for k q
    using queue_of_head(4) [OF ok that] by (simp add: queue_ok_def)
  ultimately show ?thesis using running_bounded [OF assms] d by (simp add: distinct_map)
qed

definition one_command :: "command_type \<Rightarrow> command" where
  "one_command t = new_command None inst_alice t"

lemma one_command_stored: "stored (one_command t) st"
  by (simp add: stored_def one_command_def new_command_def)

theorem one_action_per_instance_witness:
  "length (q_running (begin_task 7 0 (submit 6 (one_command DELETE) (submit 5 (one_command STATE)
     (q_init \<lparr>rows = [], next_id = 1\<rparr>))))) \<le> 1"
proof -
  let ?s0 = "q_init \<lparr>rows = [], next_id = 1\<rparr>"
  let ?s = "submit 6 (one_command DELETE) (submit 5 (one_command STATE) ?s0)"
  have r: "qreachable 1 ?s"
    by (intro qreachable.step [OF _ qstep.submit] one_command_stored qreachable.init) (simp add: table_ok_def)
  have "q_pool ?s = [0]" "q_running ?s = []"
    by (simp_all add: submit_def queue_command_def q_init_def run_future_def set_command_state_def
        command_save_def one_command_def new_command_def fut_type_def fut_command_def Let_def)
  then have "qstep 1 ?s (begin_task 7 0 ?s)" by (intro qstep.begin_task) auto
  then show ?thesis using one_action_per_instance [OF qreachable.step [OF r]] by blast
qed

section \<open>The queues as lists of command types\<close>

text \<open>
  The contract of the manager: every instance has a list of the types of its commands. A
  command is added at the end unless its type is there already, and what starts and ends is the first.
\<close>

definition types :: "qm \<Rightarrow> ident option \<Rightarrow> command_type list" where
  "types st k = (case q_actions st k of None \<Rightarrow> [] | Some q \<Rightarrow> map (fut_type st) q)"

definition enqueue :: "ident option \<Rightarrow> command_type \<Rightarrow> (ident option \<Rightarrow> command_type list) \<Rightarrow> ident option \<Rightarrow> command_type list" where
  "enqueue k t a = (if t \<in> set (a k) then a else a(k := a k @ [t]))"

definition dequeue :: "ident option \<Rightarrow> (ident option \<Rightarrow> command_type list) \<Rightarrow> ident option \<Rightarrow> command_type list" where
  "dequeue k a = a(k := tl (a k))"

datatype queue_event =
    Submitted "ident option" command_type
  | Started "ident option" command_type
  | Ended "ident option" command_type
  | Cancelled

text \<open>The steps of the manager, each with its event: which instance and which type of command it concerns.\<close>

inductive event_step :: "nat \<Rightarrow> qm \<Rightarrow> queue_event \<Rightarrow> qm \<Rightarrow> bool" for N where
  submit: "stored c st \<Longrightarrow> event_step N st (Submitted (inst_id (cmd_inst c)) (cmd_type c)) (submit now c st)"
| cancel: "stored c st \<Longrightarrow> event_step N st Cancelled (service_cancel now c st)"
| begin_task: "q_pool st = f # fs \<Longrightarrow> length (q_running st) < N \<Longrightarrow>
    event_step N st (Started (fut_key st f) (fut_type st f)) (begin_task now f st)"
| end_task: "f \<in> set (q_running st) \<Longrightarrow> event_step N st (Ended (fut_key st f) (fut_type st f)) (end_task now outcome f st)"

lemma event_step_qstep: "(\<exists>e. event_step N st e st') \<longleftrightarrow> qstep N st st'"
  by (auto elim!: event_step.cases qstep.cases intro: qstep.intros event_step.intros)

text \<open>What an event does to the lists; one that is not possible has no result.\<close>

fun list_step :: "queue_event \<Rightarrow> (ident option \<Rightarrow> command_type list) \<Rightarrow> (ident option \<Rightarrow> command_type list) option" where
  "list_step (Submitted k t) a = Some (enqueue k t a)"
| "list_step (Started k t) a = (case a k of [] \<Rightarrow> None | u # us \<Rightarrow> if t = u then Some a else None)"
| "list_step (Ended k t) a = (case a k of [] \<Rightarrow> None | u # us \<Rightarrow> if t = u then Some (a(k := us)) else None)"
| "list_step Cancelled a = Some a"

lemma types_cong:
  assumes "q_actions st' = q_actions st"
    and "\<And>k q. q_actions st k = Some q \<Longrightarrow> map (fut_type st') q = map (fut_type st) q"
  shows "types st' = types st"
  using assms by (auto simp: types_def fun_eq_iff split: option.split)

lemma types_set_state: "ob < length (q_heap st) \<Longrightarrow> types (set_command_state now ob s st) = types st"
  by (rule types_cong) (simp_all add: set_command_state_fut)

lemma types_push:
  assumes "q_ok st"
  shows "types (st\<lparr>q_heap := q_heap st @ [c]\<rparr>) = types st"
proof (rule types_cong)
  fix k q assume q: "q_actions st k = Some q"
  have "fut_type (st\<lparr>q_heap := q_heap st @ [c]\<rparr>) f = fut_type st f" if "f \<in> set q" for f
    using fut_object [OF assms queue_member(1) [OF assms q that]]
    by (simp add: fut_type_def fut_command_def nth_append)
  then show "map (fut_type (st\<lparr>q_heap := q_heap st @ [c]\<rparr>)) q = map (fut_type st) q" by simp
qed simp

lemma types_run_future:
  assumes "g < length (q_futs st)"
  shows "types (run_future g st) = types st"
proof -
  have "fu_cmd ((q_futs st)[g := (q_futs st ! g)\<lparr>fu_run := True\<rparr>] ! f) = fu_cmd (q_futs st ! f)" for f
    using assms by (simp add: nth_list_update)
  then have "fut_type (run_future g st) = fut_type st"
    by (simp add: fun_eq_iff fut_type_def fut_command_def run_future_def Let_def)
  then show ?thesis by (intro types_cong) (simp_all add: run_future_def Let_def)
qed

lemma types_append_future:
  assumes ok: "q_ok st" and ob: "ob < length (q_heap st)" and k: "k = inst_id (cmd_inst (q_heap st ! ob))"
    and q: "q = (case q_actions st k of None \<Rightarrow> [] | Some p \<Rightarrow> p)"
  shows "types (append_future now ob k q st) = (types st)(k := types st k @ [cmd_type (q_heap st ! ob)])"
proof -
  have "map (fut_type (append_future now ob k q st)) p = map (fut_type st) p"
    if "q_actions st k' = Some p" for k' p
    using queue_member(1) [OF ok that] by (auto simp: append_future_fut [OF ob])
  then show ?thesis
    using q by (auto simp: types_def fun_eq_iff append_future_fut [OF ob] split: option.splits)
qed

lemma submit_types:
  assumes "q_ok st" and "stored c st"
  shows "types (submit now c st) = enqueue (inst_id (cmd_inst c)) (cmd_type c) (types st)"
proof -
  let ?s0 = "st\<lparr>q_heap := q_heap st @ [c]\<rparr>" and ?ob = "length (q_heap st)" and ?k = "inst_id (cmd_inst c)"
  note ok = push_command(1) [OF assms] and tp = types_push [OF assms(1), of c]
  have ob: "?ob < length (q_heap ?s0)" "q_heap ?s0 ! ?ob = c" by simp_all
  show ?thesis
  proof (cases "q_actions st ?k")
    case None
    have "submit now c st = run_future (length (q_futs ?s0)) (append_future now ?ob ?k [] ?s0)"
      using None by (simp add: submit_def queue_command_def append_future_def Let_def)
    moreover have "types st ?k = []" using None by (simp add: types_def)
    ultimately show ?thesis
      using types_append_future [OF ok ob(1), of ?k "[]" now] None tp
      by (simp add: types_run_future enqueue_def)
  next
    case (Some q)
    then have t: "types st ?k = map (fut_type ?s0) q" using tp by (metis (no_types, lifting) option.case(2) qm.select_convs(3) qm.surjective qm.update_convs(1) types_def)
    show ?thesis
    proof (cases "List.find (\<lambda>f. fut_type ?s0 f = cmd_type c) q")
      case None
      then have "submit now c st = append_future now ?ob ?k q ?s0"
        using Some by (simp add: submit_def queue_command_def append_future_def Let_def)
      moreover have "cmd_type c \<notin> set (types st ?k)"
        using None by (auto simp: t find_is_None_iff)
      ultimately show ?thesis
        using types_append_future [OF ok ob(1), of ?k q now] Some tp by (simp add: enqueue_def)
    next
      case (Some f)
      then have "submit now c st = set_command_state now ?ob TERMINATED ?s0"
        using \<open>q_actions st ?k = Some q\<close> by (simp add: submit_def queue_command_def Let_def)
      moreover have "cmd_type c \<in> set (types st ?k)" using Some by (force simp: t dest!: find_Some_mem)
      ultimately show ?thesis using types_set_state [OF ob(1), of now TERMINATED] tp by (simp add: enqueue_def)
    qed
  qed
qed

lemma ending_handle_next:
  assumes e: "ending st st2 f"
  shows "types (handleNextActionForInstance (fut_key st f) st2) = dequeue (fut_key st f) (types st)"
    and "types st (fut_key st f) \<noteq> []"
proof -
  let ?k = "fut_key st f"
  obtain gs where q: "q_actions st ?k = Some (f # gs)" using ending_queue [OF e] by blast
  then show "types st ?k \<noteq> []" by (simp add: types_def)
  note fields = ending_fields [OF e] and fut = ending_futures(2) [OF e]
  show "types (handleNextActionForInstance ?k st2) = dequeue ?k (types st)"
  proof (cases gs)
    case Nil
    then show ?thesis
      using q by (auto simp: handleNextActionForInstance_def types_def dequeue_def fields(2) fut fun_eq_iff
          split: option.split)
  next
    case (Cons g gs')
    have "g < length (q_futs st)" using queue_member(1) [OF fields(7) q, of g] Cons by simp
    then show ?thesis
      using q Cons
      by (auto simp: handleNextActionForInstance_def types_run_future fields(1,2))
        (auto simp: types_def dequeue_def fut fun_eq_iff fields(2) split: option.split)
  qed
qed

lemma begin_task_types:
  assumes ok: "q_ok st" and p: "q_pool st = f # fs"
  shows "types (begin_task now f st) = types st"
proof -
  let ?s0 = "st\<lparr>q_pool := fs, q_running := q_running st @ [f]\<rparr>"
  have "fu_cmd (q_futs st ! f) < length (q_heap ?s0)"
    using fut_object [OF ok tasks_range [OF ok, of f]] p by simp
  moreover have "types ?s0 = types st" by (rule types_cong) (simp_all add: fut_type_def fut_command_def)
  ultimately show ?thesis using p by (simp add: begin_task_def onActionStart_def types_set_state)
qed

lemma task_is_head:
  assumes "q_ok st" "f \<in> set (q_pool st) \<union> set (q_running st)"
  shows "\<exists>ts. types st (fut_key st f) = fut_type st f # ts"
proof -
  obtain q where q: "q_actions st (fut_key st f) = Some q" "f = hd q" using task_queue [OF assms] by blast
  have "q \<noteq> []" using queue_of_head(4) [OF assms(1) q(1)] unfolding queue_ok_def by blast
  then obtain fs where "q = f # fs" using q(2) by (cases q) simp_all
  then show ?thesis using q(1) by (simp add: types_def)
qed

text \<open>C2: The manager with its futures, shared command objects and pool implements one list of
  command types for each instance. A submission adds its type at the end of the list of its
  instance, unless it is there; an action that starts is the first of its list; when it ends it is
  taken off that list and no other; a cancellation changes no list. A step that the lists do
  not allow is not taken.\<close>

theorem manager_refines_type_lists:
  assumes "qreachable N st" and "event_step N st e st'"
  shows "list_step e (types st) = Some (types st')"
  using assms(2)
proof cases
  case (submit c now)
  then show ?thesis using submit_types [OF qreachable_ok [OF assms(1)]] by simp
next
  case (cancel c now)
  note ok = qreachable_ok [OF assms(1)]
  show ?thesis using cancel types_push [OF ok, of c] types_set_state by (simp add: service_cancel_eq [OF ok])
next
  case (begin_task f fs now)
  note ok = qreachable_ok [OF assms(1)]
  show ?thesis using begin_task begin_task_types [OF ok] task_is_head [OF ok, of f] by auto
next
  case (end_task f now outcome)
  note ok = qreachable_ok [OF assms(1)]
  obtain st2 where "ending st st2 f" "st' = handleNextActionForInstance (fut_key st f) st2"
    using end_task_ending [OF ok] end_task by metis
  then have "types st' = dequeue (fut_key st f) (types st)" using ending_handle_next by metis
  then show ?thesis using end_task task_is_head [OF ok, of f] by (auto simp: dequeue_def)
qed

theorem manager_refines_type_lists_witness:
  "list_step (Submitted (Some 1) STATE) (types (q_init \<lparr>rows = [], next_id = 1\<rparr>)) =
     Some (types (submit 5 (one_command STATE) (q_init \<lparr>rows = [], next_id = 1\<rparr>)))"
proof -
  let ?s = "q_init \<lparr>rows = [], next_id = 1\<rparr>"
  have "event_step 1 ?s (Submitted (inst_id (cmd_inst (one_command STATE))) (cmd_type (one_command STATE))) (submit 5 (one_command STATE) ?s)"
    by (intro event_step.submit one_command_stored)
  moreover have "inst_id (cmd_inst (one_command STATE)) = Some 1" "cmd_type (one_command STATE) = STATE"
    by (simp_all add: one_command_def new_command_def sample_insts)
  ultimately have "event_step 1 ?s (Submitted (Some 1) STATE) (submit 5 (one_command STATE) ?s)" by metis
  moreover have "qreachable 1 ?s" by (rule qreachable.init) (simp add: table_ok_def)
  ultimately show ?thesis using manager_refines_type_lists by blast
qed

section \<open>Progress\<close>

text \<open>The steps of the pool alone; each of them makes what is left to do smaller.\<close>

inductive pool_step :: "nat \<Rightarrow> qm \<Rightarrow> qm \<Rightarrow> bool" for N where
  begin_task: "q_pool st = f # fs \<Longrightarrow> length (q_running st) < N \<Longrightarrow> pool_step N st (begin_task now f st)"
| end_task: "f \<in> set (q_running st) \<Longrightarrow> pool_step N st (end_task now outcome f st)"

definition queued :: "qm \<Rightarrow> nat set" where
  "queued st = {f. \<exists>k q. q_actions st k = Some q \<and> f \<in> set q}"

definition work_left :: "qm \<Rightarrow> nat" where
  "work_left st = 2 * card (queued st) + length (q_pool st)"

lemma pool_step_qstep: "pool_step N st st' \<Longrightarrow> qstep N st st'"
  by (induction rule: pool_step.induct) (auto intro: qstep.intros)

lemma queued_finite: "q_ok st \<Longrightarrow> finite (queued st)"
proof -
  assume ok: "q_ok st"
  have "queued st \<subseteq> {..< length (q_futs st)}" using queue_member(1) [OF ok] by (auto simp: queued_def)
  then show ?thesis using finite_subset by blast
qed

lemma end_task_work:
  assumes ok: "q_ok st" and f: "f \<in> set (q_running st)"
  shows "work_left (end_task now outcome f st) < work_left st"
proof -
  obtain st2 where e: "ending st st2 f"
    and st': "end_task now outcome f st = handleNextActionForInstance (fut_key st f) st2"
    using end_task_ending [OF ok f] by blast
  let ?k = "fut_key st f" and ?st = "end_task now outcome f st"
  obtain gs where q: "q_actions st ?k = Some (f # gs)" using ending_queue [OF e] by blast
  note fields = ending_fields [OF e]
  have a: "q_actions ?st = (q_actions st)(?k := (if gs = [] then None else Some gs))"
    using q by (cases gs) (simp_all add: st' handleNextActionForInstance_def fields(2) run_future_def Let_def)
  have p: "length (q_pool ?st) \<le> length (q_pool st) + 1"
    using q by (cases gs) (simp_all add: st' handleNextActionForInstance_def fields(2,3) run_future_def Let_def)
  have "f \<notin> set gs" using queue_of_head(4) [OF ok q] by (auto simp: queue_ok_def)
  then have "f \<notin> queued ?st"
    using queue_member(2) [OF ok, of _ _ f] by (auto simp: queued_def a split: if_splits)
  moreover have "queued ?st \<subseteq> queued st" using q by (auto simp: queued_def a split: if_splits) (metis list.set_intros(2))
  moreover have "f \<in> queued st" using q unfolding queued_def by force
  ultimately have "card (queued ?st) < card (queued st)"
    using psubset_card_mono [OF queued_finite [OF ok], of "queued ?st"] by blast
  then show ?thesis using p by (simp add: work_left_def)
qed

lemma begin_task_work:
  assumes "q_pool st = f # fs"
  shows "work_left (begin_task now f st) < work_left st"
  using assms by (simp add: work_left_def queued_def begin_task_def onActionStart_def)

lemma pool_step_work: "q_ok st \<Longrightarrow> pool_step N st st' \<Longrightarrow> work_left st' < work_left st"
  by (auto elim!: pool_step.cases intro: begin_task_work end_task_work)

lemma work_can_go_on:
  assumes "q_ok st" and "0 < N" and "q_actions st k = Some q"
  shows "\<exists>st'. pool_step N st st'"
proof (cases "q_running st")
  case Nil
  have "hd q \<in> heads st" using assms(3) by (auto simp: heads_def)
  then have "q_pool st \<noteq> []" using assms(1) Nil by (auto simp: q_ok_def pool_ok_def)
  then obtain f fs where "q_pool st = f # fs" by (cases "q_pool st") auto
  moreover have "length (q_running st) < N" using Nil assms(2) by simp
  ultimately show ?thesis using pool_step.begin_task by blast
next
  case (Cons f fs)
  then have "f \<in> set (q_running st)" by simp
  then show ?thesis using pool_step.end_task by blast
qed

text \<open>C3: With at least one thread, the pool never gets stuck and never runs forever: from every
  reachable state its own steps lead to a state with no queue left, and each of these steps makes
  the measure of the remaining work smaller.\<close>

theorem queues_drain:
  assumes "qreachable N st" and "0 < N"
  shows "(\<exists>st'. (pool_step N)\<^sup>*\<^sup>* st st' \<and> q_actions st' = (\<lambda>_. None)) \<and>
    (\<forall>st'. pool_step N st st' \<longrightarrow> work_left st' < work_left st)"
proof
  show "\<forall>st'. pool_step N st st' \<longrightarrow> work_left st' < work_left st"
    using pool_step_work [OF qreachable_ok [OF assms(1)]] by blast
  show "\<exists>st'. (pool_step N)\<^sup>*\<^sup>* st st' \<and> q_actions st' = (\<lambda>_. None)"
    using assms(1)
  proof (induction "work_left st" arbitrary: st rule: less_induct)
    case less
    show ?case
    proof (cases "q_actions st = (\<lambda>_. None)")
      case True
      then show ?thesis by blast
    next
      case False
      then obtain k q where "q_actions st k = Some q" by (meson ext not_None_eq)
      then obtain st1 where s: "pool_step N st st1"
        using work_can_go_on [OF qreachable_ok [OF less.prems] assms(2)] by blast
      have "qreachable N st1" using less.prems pool_step_qstep [OF s] by (rule qreachable.step)
      then obtain st' where "(pool_step N)\<^sup>*\<^sup>* st1 st'" "q_actions st' = (\<lambda>_. None)"
        using less.hyps pool_step_work [OF qreachable_ok [OF less.prems] s] by blast
      then show ?thesis using s converse_rtranclp_into_rtranclp [of "pool_step N"] by blast
    qed
  qed
qed

theorem queues_drain_witness:
  "\<exists>st'. (pool_step 1)\<^sup>*\<^sup>* (submit 5 (one_command STATE) (q_init \<lparr>rows = [], next_id = 1\<rparr>)) st' \<and>
     q_actions st' = (\<lambda>_. None)"
proof -
  let ?s = "submit 5 (one_command STATE) (q_init \<lparr>rows = [], next_id = 1\<rparr>)"
  have "qreachable 1 ?s"
    by (intro qreachable.step [OF _ qstep.submit] one_command_stored qreachable.init) (simp add: table_ok_def)
  then show ?thesis by (rule conjunct1 [OF queues_drain [OF _ zero_less_one]])
qed

section \<open>Cancelling\<close>

lemma set_command_state_row:
  assumes "table_ok cmd_id (q_table st)" and "ob < length (q_heap st)"
    and "cmd_user (q_heap st ! ob) \<noteq> None" and "cmd_id (q_heap st ! ob) = Some n"
    and "find_row cmd_id n (q_table st) \<noteq> None"
  shows "\<exists>r. find_row cmd_id n (q_table (set_command_state now ob s st)) = Some r \<and> cmd_state r = s"
proof -
  let ?c = "(q_heap st ! ob)\<lparr>cmd_state := s\<rparr>"
  obtain c' t' where sv: "save_row cmd_id (\<lambda>n x. x\<lparr>cmd_id := Some n\<rparr>) on_create on_update now ?c (q_table st) = (c', t')"
    by fastforce
  obtain z where z: "find_row cmd_id n (q_table st) = Some z" using assms(5) by blast
  have "find_row cmd_id n t' = Some (on_update now ?c)"
    using commands.find_row_save_same [OF assms(1) z, of ?c now] assms(4) sv by simp
  moreover have "q_table (set_command_state now ob s st) = t'"
    using assms(3) sv by (auto simp: set_command_state_def command_save_def)
  ultimately show ?thesis by (simp add: on_update_def)
qed

text \<open>C25: Cancelling a command that waits does not stop it. The service reads the command again, its
  new state makes it differ from the queued object, so the queues and the pool stay as they were;
  and when the command's turn comes, its row goes from CANCELLED to RUNNING.\<close>

theorem cancelled_command_runs_anyway:
  assumes "qreachable N st" and "q_pool st = f # fs" and "length (q_running st) < N"
    and "cmd_id c = Some n" and "cmd_user c \<noteq> None" and "find_row cmd_id n (q_table st) \<noteq> None"
    and "cmd_id (fut_command st f) = Some n" and "cmd_user (fut_command st f) \<noteq> None"
  shows "let st1 = service_cancel now c st; st2 = begin_task now' f st1 in
    q_actions st1 = q_actions st \<and> q_pool st1 = q_pool st \<and>
    (\<exists>r. find_row cmd_id n (q_table st1) = Some r \<and> cmd_state r = CANCELLED) \<and>
    qstep N st1 st2 \<and> f \<in> set (q_running st2) \<and>
    (\<exists>r. find_row cmd_id n (q_table st2) = Some r \<and> cmd_state r = RUNNING)"
proof -
  note ok = qreachable_ok [OF assms(1)]
  have sc: "stored c st" using assms(4,6) by (simp add: stored_def)
  let ?s0 = "st\<lparr>q_heap := q_heap st @ [c]\<rparr>" and ?ob = "length (q_heap st)"
  let ?s1 = "service_cancel now c st"
  have e: "?s1 = set_command_state now ?ob CANCELLED ?s0" by (rule service_cancel_eq [OF ok sc])
  have ok1: "q_ok ?s1" using service_cancel_ok [OF ok sc] .
  have f: "f < length (q_futs st)" using tasks_range [OF ok, of f] assms(2) by simp
  note ob = fut_object [OF ok f]
  have h: "q_heap ?s1 ! fu_cmd (q_futs st ! f) = fut_command st f"
    using ob by (simp add: e set_command_state_heap(1) fut_command_def nth_append)
  have row1: "\<exists>r. find_row cmd_id n (q_table ?s1) = Some r \<and> cmd_state r = CANCELLED"
    unfolding e by (rule set_command_state_row) (use ok assms(4-6) in \<open>simp_all add: q_ok_def store_ok_def\<close>)
  let ?r = "?s1\<lparr>q_pool := fs, q_running := q_running st @ [f]\<rparr>"
  have b: "begin_task now' f ?s1 = set_command_state now' (fu_cmd (q_futs st ! f)) RUNNING ?r"
    using assms(2) by (simp add: begin_task_def onActionStart_def e)
  have "table_ok cmd_id (q_table ?s1)" using ok1 by (simp add: q_ok_def store_ok_def)
  moreover have "fu_cmd (q_futs st ! f) < length (q_heap ?s1)" using ob by (simp add: e)
  ultimately have row2: "\<exists>r. find_row cmd_id n (q_table (begin_task now' f ?s1)) = Some r \<and> cmd_state r = RUNNING"
    unfolding b using row1 assms(7,8) by (intro set_command_state_row) (auto simp: h)
  have "qstep N ?s1 (begin_task now' f ?s1)"
    using assms(2,3) by (intro qstep.begin_task [of _ f fs]) (simp_all add: e)
  then show ?thesis using row1 row2 assms(2) by (simp add: Let_def b) (simp add: e)
qed

definition user_command :: command where
  "user_command = (new_command (Some alice) inst_alice SHUTDOWN)\<lparr>cmd_id := Some 1\<rparr>"

definition queued_once :: qm where
  "queued_once = submit 5 user_command (q_init \<lparr>rows = [user_command], next_id = 2\<rparr>)"

lemma queued_once_eq:
  "q_pool queued_once = [0]" "q_running queued_once = []"
  "fut_command queued_once 0 = user_command\<lparr>cmd_state := QUEUED\<rparr>"
  "find_row cmd_id 1 (q_table queued_once) \<noteq> None"
  by (simp_all add: queued_once_def submit_def queue_command_def q_init_def run_future_def
      set_command_state_def command_save_def user_command_def new_command_def fut_type_def
      fut_command_def save_row_def merge_row_def find_row_def on_update_def Let_def)

theorem cancelled_command_runs_anyway_witness:
  "\<exists>r. find_row cmd_id 1 (q_table (begin_task 9 0 (service_cancel 8 user_command queued_once))) = Some r \<and>
     cmd_state r = RUNNING"
proof -
  have "stored user_command (q_init \<lparr>rows = [user_command], next_id = 2\<rparr>)"
    by (simp add: stored_def user_command_def new_command_def q_init_def find_row_def)
  then have "qreachable 1 queued_once"
    unfolding queued_once_def
    by (intro qreachable.step [OF _ qstep.submit] qreachable.init) (simp_all add: table_ok_def user_command_def)
  moreover have "cmd_id user_command = Some 1" "cmd_user user_command \<noteq> None"
    by (simp_all add: user_command_def new_command_def)
  ultimately show ?thesis
    using cancelled_command_runs_anyway [of 1 queued_once 0 "[]" user_command 1 8 9] queued_once_eq
    by (simp add: Let_def)
qed

end
