(* ===== verification/Account_Controller.thy ===== *)
theory Account_Controller
  imports Expirations Command_Queue
begin

text \<open>
  AccountInstanceController: the requests by which a signed-in user creates, changes, starts, stops and deletes
  instances and shares them with members, and the job that deletes what was marked for deletion. A request
  gives a reply or an error, and the database; what was saved before an error stays saved. The keyboard
  layouts, the queries for plans and experiments and the random text of a token are arguments. The fields that
  a data transfer object copies are those of the instance itself; mail and thumbnails are left out.
\<close>

section \<open>Replies\<close>

record instance_dto =
  dto_inst :: inst
  dto_membership :: "member_role option"
  dto_expiration :: "date option"
  dto_can_connect :: bool
  dto_unrestricted :: bool

datatype web_error =
    NotFound
  | NotAuthorized string
  | BadRequest string
  | ServerError exn

datatype reply =
    NoContent
  | InstanceReply instance_dto
  | MemberReply instance_member
  | TokenReply auth_token
  | ExtensionReply extension_request

type_synonym web_result = "web_error + reply"

definition mapInstance :: "date \<Rightarrow> user \<Rightarrow> inst \<Rightarrow> db \<Rightarrow> exn + instance_dto" where
  "mapInstance now u i d =
     and_then (mem_getByInstanceAndUser i u d) (\<lambda>m.
     and_then (canConnectWhileOwnerAway now i u d) (\<lambda>c. Inr
       \<lparr>dto_inst = i,
        dto_membership =
          (case m of Some x \<Rightarrow> Some (mem_role x)
           | None \<Rightarrow> if hasRole now u ADMIN_ROLE then Some SUPPORT
                     else if hasAnyRole now u [IT_SUPPORT_ROLE, INSTRUMENT_CONTROL_ROLE, INSTRUMENT_SCIENTIST_ROLE]
                     then Some SUPPORT else None),
        dto_expiration = getExpirationDate i d,
        dto_can_connect = c,
        dto_unrestricted = (unrestricted_member_access i \<noteq> None)\<rparr>))"

definition instance_reply :: "date \<Rightarrow> user \<Rightarrow> inst \<Rightarrow> db \<Rightarrow> web_result" where
  "instance_reply now u i d =
     (case mapInstance now u i d of Inl e \<Rightarrow> Inl (ServerError e) | Inr x \<Rightarrow> Inr (InstanceReply x))"

definition not_allowed :: "user \<Rightarrow> inst \<Rightarrow> web_error" where
  "not_allowed u i = (if isMember u i then NotAuthorized ''Not authorized to perform this action'' else NotFound)"

section \<open>Commands\<close>

text \<open>InstanceCommandService saves the command for the scheduler.\<close>

definition cmd_create :: "date \<Rightarrow> user option \<Rightarrow> inst \<Rightarrow> command_type \<Rightarrow> db \<Rightarrow> command \<times> db" where
  "cmd_create now u i t d =
     (case command_save now (new_command u i t) (t_command d) of (c, tab) \<Rightarrow> (c, d\<lparr>t_command := tab\<rparr>))"

definition requested_state :: "command_type \<Rightarrow> inst \<Rightarrow> inst" where
  "requested_state t i =
     (if t = START then i\<lparr>state := STARTING\<rparr>
      else if t = REBOOT then i\<lparr>state := REBOOTING\<rparr>
      else if t = SHUTDOWN then i\<lparr>state := STOPPING\<rparr>
      else if t = DELETE then i\<lparr>state := DELETING\<rparr>
      else i)"

definition performAction :: "date \<Rightarrow> inst \<Rightarrow> user \<Rightarrow> command_type \<Rightarrow> db \<Rightarrow> web_result \<times> db" where
  "performAction now i u t d =
     (if isOwnerOrAdmin now u i then
        (let (i1, d1) = inst_save now (requested_state t i) d; d2 = snd (cmd_create now (Some u) i1 t d1)
         in (instance_reply now u i1 d2, d2))
      else (Inl (not_allowed u i), d))"

definition delete_request :: "date \<Rightarrow> user \<Rightarrow> inst \<Rightarrow> db \<Rightarrow> web_result \<times> db" where
  "delete_request now u i d =
     (if compute_id i = None \<or> hasAnyState [STOPPED, ERROR, UNKNOWN, UNAVAILABLE] i
      then performAction now i u DELETE d
      else (let (i1, d1) = inst_save now (i\<lparr>delete_requested := True\<rparr>) d
            in if state i1 = STOPPING then (instance_reply now u i1 d1, d1)
               else performAction now i1 u SHUTDOWN d1))"

section \<open>Changes\<close>

record instance_update =
  up_name :: string
  up_comments :: "string option"
  up_width :: int
  up_height :: int
  up_layout :: string
  up_unrestricted :: bool

definition apply_update :: "date \<Rightarrow> instance_update \<Rightarrow> inst \<Rightarrow> inst" where
  "apply_update now x i =
     (let i1 = i\<lparr>inst_name := up_name x, comments := up_comments x, screen_width := up_width x,
                 screen_height := up_height x, keyboard_layout := up_layout x\<rparr>
      in if up_unrestricted x \<and> \<not> canAccessWhenOwnerAway i1 then i1\<lparr>unrestricted_member_access := Some now\<rparr>
         else if \<not> up_unrestricted x then i1\<lparr>unrestricted_member_access := None\<rparr>
         else i1)"

definition update_request :: "(string \<Rightarrow> bool) \<Rightarrow> date \<Rightarrow> user \<Rightarrow> inst \<Rightarrow> instance_update \<Rightarrow> db \<Rightarrow> web_result \<times> db" where
  "update_request layouts now u i x d =
     (if isOwnerOrAdmin now u i then
        (if \<not> layouts (up_layout x) then (Inl (BadRequest ''Invalid keyboard layout provided''), d)
         else (let (i1, d1) = inst_save now (apply_update now x i) d in (instance_reply now u i1 d1, d1)))
      else (Inl NotFound, d))"

section \<open>Members\<close>

text \<open>The reply to an added member is the new object, also when the instance had that member already.\<close>

definition addMember_request :: "date \<Rightarrow> user \<Rightarrow> inst \<Rightarrow> string \<Rightarrow> member_role \<Rightarrow> db \<Rightarrow> web_result \<times> db" where
  "addMember_request now u i v r d =
     (if isOwnerOrAdmin now u i then
        (case user_getById v d of
           None \<Rightarrow> (Inl (BadRequest ''User not found''), d)
         | Some w \<Rightarrow>
             (Inr (MemberReply (new_member w r)), snd (inst_save now (snd (addMember (new_member w r) i)) d)))
      else (Inl (not_allowed u i), d))"

definition updateMember_request :: "date \<Rightarrow> user \<Rightarrow> inst \<Rightarrow> instance_member \<Rightarrow> member_role \<Rightarrow> db \<Rightarrow> web_result \<times> db" where
  "updateMember_request now u i m r d =
     (if isOwnerOrAdmin now u i \<and> isMemberOf m i then
        (if r = OWNER then (Inl (BadRequest ''Cannot make a member an owner. There can only be one owner.''), d)
         else (Inr (MemberReply (m\<lparr>mem_role := r\<rparr>)), mem_merge now (m\<lparr>mem_role := r\<rparr>) d))
      else (Inl NotFound, d))"

definition removeMember_request :: "date \<Rightarrow> user \<Rightarrow> inst \<Rightarrow> instance_member \<Rightarrow> db \<Rightarrow> web_result \<times> db" where
  "removeMember_request now u i m d =
     (if isOwnerOrAdmin now u i then
        (if isMemberOf m i \<and> \<not> isRole OWNER m
         then (Inr NoContent, snd (inst_save now (removeMember m i) d))
         else (Inl NotFound, d))
      else (Inl (not_allowed u i), d))"

section \<open>Tokens and extensions\<close>

definition at_create :: "date \<Rightarrow> string \<Rightarrow> user \<Rightarrow> inst \<Rightarrow> db \<Rightarrow> auth_token \<times> db" where
  "at_create now uuid u i d =
     at_save now \<lparr>created_at = None, updated_at = None, at_id = None, at_token = uuid, at_user = u,
       at_inst = id_key (inst_id i)\<rparr> d"

definition token_request :: "date \<Rightarrow> string \<Rightarrow> user \<Rightarrow> inst \<Rightarrow> db \<Rightarrow> web_result \<times> db" where
  "token_request now uuid u i d =
     (if \<not> isAuthorisedForInstance now u i d then (Inl (NotAuthorized ''You do not have permission''), d)
      else if (case getMember u i of None \<Rightarrow> True | Some m \<Rightarrow> mem_role m \<noteq> OWNER) \<and> username i = None
      then (Inl (NotAuthorized ''You do not have permission''), d)
      else (let (x, d1) = at_create now uuid u i d in (Inr (TokenReply x), d1)))"

definition extension_request_post :: "date \<Rightarrow> user \<Rightarrow> inst \<Rightarrow> string option \<Rightarrow> db \<Rightarrow> web_result \<times> db" where
  "extension_request_post now u i cs d =
     (if isOwnerOrAdmin now u i then
        (case er_getForInstance i d of
           Inl e \<Rightarrow> (Inl (ServerError e), d)
         | Inr (Some r) \<Rightarrow> (Inr (ExtensionReply r), d)
         | Inr None \<Rightarrow> (let (r, d1) = extension_create now i cs d in (Inr (ExtensionReply r), d1)))
      else (Inl (NotAuthorized ''Not authorized to perform this action''), d))"

section \<open>Requests on an instance\<close>

datatype request =
    Reboot | Shutdown | Start | Delete
  | Update instance_update
  | AddMember string member_role
  | UpdateMember instance_member member_role
  | RemoveMember instance_member
  | CreateToken string
  | PostExtension "string option"

definition handle_request :: "(string \<Rightarrow> bool) \<Rightarrow> date \<Rightarrow> user \<Rightarrow> inst \<Rightarrow> request \<Rightarrow> db \<Rightarrow> web_result \<times> db" where
  "handle_request layouts now u i r d =
     (case r of
        Reboot \<Rightarrow> performAction now i u REBOOT d
      | Shutdown \<Rightarrow> performAction now i u SHUTDOWN d
      | Start \<Rightarrow> performAction now i u START d
      | Delete \<Rightarrow> delete_request now u i d
      | Update x \<Rightarrow> update_request layouts now u i x d
      | AddMember v ro \<Rightarrow> addMember_request now u i v ro d
      | UpdateMember m ro \<Rightarrow> updateMember_request now u i m ro d
      | RemoveMember m \<Rightarrow> removeMember_request now u i m d
      | CreateToken s \<Rightarrow> token_request now s u i d
      | PostExtension cs \<Rightarrow> extension_request_post now u i cs d)"

section \<open>Creation\<close>

record instance_creation =
  cr_name :: string
  cr_comments :: "string option"
  cr_plan :: ident
  cr_width :: int
  cr_height :: int
  cr_layout :: string
  cr_experiments :: "string list option"

text \<open>The queries of the services for plans and experiments.\<close>

record catalogue_queries =
  cq_plan :: "ident \<Rightarrow> plan option"
  cq_experiment :: "string \<Rightarrow> user \<Rightarrow> experiment_entity option"
  cq_for_admin :: "plan list"
  cq_for_instruments :: "user \<Rightarrow> plan list"
  cq_for_experiments :: "user \<Rightarrow> experiment_entity list \<Rightarrow> plan list"

definition offers :: "plan list \<Rightarrow> plan \<Rightarrow> bool" where
  "offers ps p \<longleftrightarrow> list_ex (\<lambda>q. plan_id q = plan_id p) ps"

definition plan_refused :: "catalogue_queries \<Rightarrow> date \<Rightarrow> user \<Rightarrow> plan \<Rightarrow> experiment_entity list \<Rightarrow> string option" where
  "plan_refused cq now u p es =
     (if hasRole now u ADMIN_ROLE then
        (if offers (cq_for_admin cq) p then None
         else Some ''Not authorized to create an instance with the selected Plan for the requested experiments'')
      else if es = [] then
        (if \<not> hasAnyRole now u [ADMIN_ROLE, STAFF_ROLE, GUEST_ROLE]
         then Some ''Not authorized to create an instance without any associated experiments''
         else if offers (cq_for_instruments cq u) p then None
         else Some ''Not authorized to create an instance with the selected Plan without any selected experiments'')
      else if offers (cq_for_experiments cq u es) p then None
      else Some ''Not authorized to create an instance with the selected Plan for the requested experiments'')"

definition quota_exceeded :: "user \<Rightarrow> db \<Rightarrow> bool" where
  "quota_exceeded u d \<longleftrightarrow>
     user_instance_quota u \<noteq> -1 \<and> int (inst_countAllForUserAndRole u OWNER d) \<ge> user_instance_quota u"

text \<open>The account: the login name and the parameters of the token. No result where no identifier is found.\<close>

definition create_request ::
    "(string \<Rightarrow> bool) \<Rightarrow> catalogue_queries \<Rightarrow> instance_configuration \<Rightarrow> (nat \<Rightarrow> string) \<Rightarrow> date \<Rightarrow> user \<Rightarrow> string \<Rightarrow>
     (string \<times> string option) list \<Rightarrow> instance_creation \<Rightarrow> db \<Rightarrow> (web_result \<times> db) option" where
  "create_request layouts cq conf gen now u login ps x d =
     (if quota_exceeded u d then Some (Inl (BadRequest ''Instance quota exceeded''), d)
      else if \<not> layouts (cr_layout x) then Some (Inl (BadRequest ''Invalid keyboard layout provided''), d)
      else case cq_plan cq (cr_plan x) of
        None \<Rightarrow> Some (Inl (BadRequest ''Invalid plan''), d)
      | Some p \<Rightarrow>
          (case cr_experiments x of
             None \<Rightarrow> Some (Inl (ServerError NullPointer), d)
           | Some ids \<Rightarrow>
               (let es = List.map_filter (\<lambda>s. cq_experiment cq s u) ids in
                if length es \<noteq> length ids
                then Some (Inl (NotAuthorized ''Not authorized to associate instance to requested experiments''), d)
                else case plan_refused cq now u p es of
                  Some msg \<Rightarrow> Some (Inl (NotAuthorized msg), d)
                | None \<Rightarrow>
                    map_option (\<lambda>(i, d1). let d2 = snd (cmd_create now (Some u) i CREATE d1) in (instance_reply now u i d2, d2))
                      (inst_create conf gen now
                         \<lparr>b_uid = [], b_name = cr_name x, b_comments = cr_comments x, b_plan = p, b_username = Some login,
                          b_state = BUILDING, b_screen_width = cr_width x, b_screen_height = cr_height x,
                          b_members = [new_member u OWNER], b_experiments = es, b_last_seen_at = None,
                          b_keyboard_layout = cr_layout x,
                          b_attributes = map (\<lambda>(k, v). \<lparr>attr_name = k, attr_value = v\<rparr>) ps\<rparr> d))))"

section \<open>The job that deletes\<close>

text \<open>
  InstanceDeleteJob: every stopped instance that is marked gets a command in the name of its owner, which is handed to
  the action manager. Without an owner the job ends with an exception.
\<close>

definition delete_marked :: "date \<Rightarrow> inst \<Rightarrow> db \<times> command list \<Rightarrow> exn option \<times> db \<times> command list" where
  "delete_marked now i s =
     (case s of (d, cs) \<Rightarrow>
        let (i1, d1) = inst_save now (i\<lparr>state := DELETING\<rparr>) d
        in case getOwner i1 of
             None \<Rightarrow> (Some NullPointer, d1, cs)
           | Some w \<Rightarrow> (let (c, d2) = cmd_create now (Some (mem_user w)) i1 DELETE d1 in (None, d2, cs @ [c])))"

definition delete_job :: "date \<Rightarrow> db \<Rightarrow> exn option \<times> db \<times> command list" where
  "delete_job now d = for_each (delete_marked now) (inst_getAllToDelete d) (d, [])"


section \<open>Facts\<close>

lemma number_members_numbered: "\<forall>m \<in> set ms. mem_id m \<noteq> None \<Longrightarrow> number_members now n ms = (ms, n)"
  by (induction ms) auto

lemma inst_save_frame_all:
  "t_command (snd (inst_save now i d)) = t_command d" "t_token (snd (inst_save now i d)) = t_token d"
  "t_extension (snd (inst_save now i d)) = t_extension d" "t_session (snd (inst_save now i d)) = t_session d"
  "t_session_member (snd (inst_save now i d)) = t_session_member d" "t_expiration (snd (inst_save now i d)) = t_expiration d"
  by (simp_all add: inst_save_def Let_def split: prod.splits)

text \<open>An instance that was read from the database and changed in some field.\<close>

definition loaded :: "inst \<Rightarrow> db \<Rightarrow> bool" where
  "loaded i d \<longleftrightarrow> (\<exists>n. inst_id i = Some n \<and> inst_getById n d = Some i) \<and> (\<forall>m \<in> set (members i). mem_id m \<noteq> None)"

lemma save_known:
  assumes "table_ok inst_id (t_inst d)" "inst_id j = Some n" "inst_getById n d = Some i" "live j"
    "fst (number_members now (member_next d) (members j)) = ms"
  shows "inst_save now j d = (on_update now (j\<lparr>members := ms\<rparr>), snd (inst_save now j d))"
    "inst_getById n (snd (inst_save now j d)) = Some (on_update now (j\<lparr>members := ms\<rparr>))"
    "k \<noteq> n \<Longrightarrow> inst_getById k (snd (inst_save now j d)) = inst_getById k d"
    "table_ok inst_id (t_inst (snd (inst_save now j d)))"
proof -
  obtain i' d' where sv: "inst_save now j d = (i', d')" by fastforce
  have "find_row inst_id n (t_inst d) = Some i"
    using assms(3) inst_getById_find_row [OF assms(1)] by (auto split: option.splits if_splits)
  from instances.save_row_same [OF this, of "j\<lparr>members := ms\<rparr>" now] inst_save_table [OF sv] assms(2,5)
  have i': "i' = on_update now (j\<lparr>members := ms\<rparr>)" by simp
  then have id: "inst_id i' = Some n" using assms(2) by (simp add: on_update_def)
  show "inst_save now j d = (on_update now (j\<lparr>members := ms\<rparr>), snd (inst_save now j d))" using sv i' by simp
  show "inst_getById n (snd (inst_save now j d)) = Some (on_update now (j\<lparr>members := ms\<rparr>))"
    using inst_save_getById [OF assms(1,4) sv] id i' sv by auto
  show "inst_getById k (snd (inst_save now j d)) = inst_getById k d" if "k \<noteq> n"
    using inst_save_other [OF assms(1) sv, of k] id that sv by simp
  show "table_ok inst_id (t_inst (snd (inst_save now j d)))" by (rule inst_save_ok [OF assms(1)])
qed

lemma save_loaded:
  assumes "table_ok inst_id (t_inst d)" "inst_id j = Some n" "inst_getById n d = Some i" "live j"
    "\<forall>m \<in> set (members j). mem_id m \<noteq> None"
  shows "inst_save now j d = (on_update now j, snd (inst_save now j d))"
    "inst_getById n (snd (inst_save now j d)) = Some (on_update now j)"
    "k \<noteq> n \<Longrightarrow> inst_getById k (snd (inst_save now j d)) = inst_getById k d"
    "table_ok inst_id (t_inst (snd (inst_save now j d)))"
  using save_known [OF assms(1-4), of now "members j"] number_members_numbered [OF assms(5)] by simp_all

lemma owner_or_admin_fields:
  "isOwnerOrAdmin now u (i\<lparr>delete_requested := b\<rparr>) = isOwnerOrAdmin now u i"
  "isOwnerOrAdmin now u (on_update t i) = isOwnerOrAdmin now u i"
  "isOwnerOrAdmin now u (requested_state c i) = isOwnerOrAdmin now u i"
  by (simp_all add: isOwnerOrAdmin_def isOwner_def on_update_def requested_state_def)

lemma performAction_refused: "\<not> isOwnerOrAdmin now u i \<Longrightarrow> performAction now i u t d = (Inl (not_allowed u i), d)"
  by (simp add: performAction_def)

text \<open>What a stranger's request to delete does.\<close>

lemma delete_by_stranger:
  assumes "\<not> isOwnerOrAdmin now u i" "loaded i d" "table_ok inst_id (t_inst d)"
  shows "snd (delete_request now u i d) =
    (if compute_id i = None \<or> hasAnyState [STOPPED, ERROR, UNKNOWN, UNAVAILABLE] i then d
     else snd (inst_save now (i\<lparr>delete_requested := True\<rparr>) d))"
proof -
  obtain n where n: "inst_id i = Some n" "inst_getById n d = Some i" "\<forall>m \<in> set (members i). mem_id m \<noteq> None"
    using assms(2) by (auto simp: loaded_def)
  have l: "live i" using inst_getById_Some [OF n(2)] by simp
  have sv: "inst_save now (i\<lparr>delete_requested := True\<rparr>) d =
      (on_update now (i\<lparr>delete_requested := True\<rparr>), snd (inst_save now (i\<lparr>delete_requested := True\<rparr>) d))"
    by (rule save_loaded(1) [OF assms(3) _ n(2)]) (use n l in \<open>simp_all add: live_def\<close>)
  have r: "\<not> isOwnerOrAdmin now u (on_update now (i\<lparr>delete_requested := True\<rparr>))" using assms(1) by (simp add: owner_or_admin_fields)
  show ?thesis unfolding delete_request_def
    by (subst sv) (simp add: performAction_refused [OF assms(1)] performAction_refused [OF r] Let_def)
qed

text \<open>
  C1: A request of a user who is neither owner nor administrator changes nothing and ends with an error, with two
  exceptions: a token changes the table of tokens only, and is given only to whoever may see the instance; a request to
  delete adds no command and leaves every other instance and all fields of this one but the mark for deletion.
\<close>

definition request_confined :: "date \<Rightarrow> user \<Rightarrow> inst \<Rightarrow> request \<Rightarrow> db \<Rightarrow> web_result \<times> db \<Rightarrow> bool" where
  "request_confined now u i r d x \<longleftrightarrow>
     (case r of
        Delete \<Rightarrow>
          t_command (snd x) = t_command d \<and> t_token (snd x) = t_token d \<and> t_extension (snd x) = t_extension d \<and>
          (\<forall>n. inst_id i \<noteq> Some n \<longrightarrow> inst_getById n (snd x) = inst_getById n d) \<and>
          (\<exists>n j. inst_id i = Some n \<and> inst_getById n (snd x) = Some j \<and>
             j\<lparr>delete_requested := delete_requested i, updated_at := updated_at i\<rparr> = i)
      | CreateToken s \<Rightarrow>
          (snd x)\<lparr>t_token := t_token d\<rparr> = d \<and> (\<not> isAuthorisedForInstance now u i d \<longrightarrow> snd x = d \<and> (\<exists>e. fst x = Inl e))
      | _ \<Rightarrow> snd x = d \<and> (\<exists>e. fst x = Inl e))"

theorem strangers_change_nothing_else:
  assumes "\<not> isOwnerOrAdmin now u i" "loaded i d" "table_ok inst_id (t_inst d)"
  shows "request_confined now u i r d (handle_request layouts now u i r d)"
proof (cases r)
  case Delete
  obtain n where n: "inst_id i = Some n" "inst_getById n d = Some i" "\<forall>m \<in> set (members i). mem_id m \<noteq> None"
    using assms(2) by (auto simp: loaded_def)
  have l: "live (i\<lparr>delete_requested := True\<rparr>)" using inst_getById_Some [OF n(2)] by (simp add: live_def)
  note s = save_loaded [OF assms(3) _ n(2) l, where now = now]
  have "(on_update now (i\<lparr>delete_requested := True\<rparr>))\<lparr>delete_requested := delete_requested i, updated_at := updated_at i\<rparr> = i"
    by (simp add: on_update_def)
  then show ?thesis using n s(2,3) unfolding Delete request_confined_def handle_request_def
    by (auto simp: delete_by_stranger [OF assms] inst_save_frame_all)
next
  case (CreateToken s)
  then show ?thesis
    by (auto simp: request_confined_def handle_request_def token_request_def at_create_def at_save_def Let_def split: prod.splits)
qed (use assms(1) in \<open>simp_all add: request_confined_def handle_request_def performAction_refused update_request_def
      addMember_request_def updateMember_request_def removeMember_request_def extension_request_post_def\<close>)


lemma sample_loaded: "loaded inst_alice sample_db" "loaded inst_bob sample_db"
proof -
  have "inst_getById 1 sample_db = Some inst_alice" "inst_getById 2 sample_db = Some inst_bob"
    by (simp_all add: inst_getById_def sample_db_def empty_db_def live_def sample_insts)
  then show "loaded inst_alice sample_db" "loaded inst_bob sample_db"
    by (auto simp: loaded_def inst_alice_def inst_bob_def sample_inst_def sample_member_def)
qed

lemma sample_owners:
  "isOwnerOrAdmin now alice inst_alice" "\<not> isOwnerOrAdmin now dave inst_alice" "\<not> isOwnerOrAdmin now bob inst_alice"
  "\<not> isOwnerOrAdmin now alice inst_bob" "isOwnerOrAdmin now bob inst_bob"
  by (simp_all add: isOwnerOrAdmin_def sample_roles isOwner_def isUser_def isRole_def user_equals_def sample_insts role_names)

theorem strangers_change_nothing_else_witness:
  "request_confined 5 dave inst_alice Delete sample_db (handle_request (\<lambda>_. True) 5 dave inst_alice Delete sample_db) \<and>
   request_confined 5 bob inst_alice Start sample_db (handle_request (\<lambda>_. True) 5 bob inst_alice Start sample_db)"
  using strangers_change_nothing_else sample_owners sample_loaded sample_db_instances by blast

section \<open>Deleting as a stranger\<close>

text \<open>C6: Anyone who is signed in can have a running instance of somebody else deleted: the request ends with an error, but the
  mark for deletion is saved, and as soon as the instance is stopped it is among those that the job deletes.
\<close>

theorem strangers_mark_for_deletion:
  assumes "\<not> isOwnerOrAdmin now u i" "loaded i d" "table_ok inst_id (t_inst d)" "state i \<noteq> STOPPING"
    and "compute_id i \<noteq> None" "\<not> hasAnyState [STOPPED, ERROR, UNKNOWN, UNAVAILABLE] i"
  shows "\<exists>j. fst (handle_request layouts now u i Delete d) = Inl (not_allowed u i) \<and>
    inst_getById (id_key (inst_id i)) (snd (handle_request layouts now u i Delete d)) = Some j \<and> delete_requested j \<and>
    (let (j', d') = inst_save later (j\<lparr>state := STOPPED\<rparr>) (snd (handle_request layouts now u i Delete d))
     in j' \<in> set (inst_getAllToDelete d'))"
proof -
  obtain n where n: "inst_id i = Some n" "inst_getById n d = Some i" "\<forall>m \<in> set (members i). mem_id m \<noteq> None"
    using assms(2) by (auto simp: loaded_def)
  define j where "j = on_update now (i\<lparr>delete_requested := True\<rparr>)"
  define d1 where "d1 = snd (inst_save now (i\<lparr>delete_requested := True\<rparr>) d)"
  have l: "live (i\<lparr>delete_requested := True\<rparr>)" using inst_getById_Some [OF n(2)] by (simp add: live_def)
  have s: "inst_save now (i\<lparr>delete_requested := True\<rparr>) d = (j, d1)" "inst_getById n d1 = Some j" "table_ok inst_id (t_inst d1)"
    using save_loaded(1,2,4) [OF assms(3) _ n(2) l, where now = now] n by (simp_all add: j_def d1_def)
  have j: "state j = state i" "inst_id j = Some n" "members j = members i" "live j" "delete_requested j"
    using l n by (simp_all add: j_def on_update_def live_def)
  have r: "\<not> isOwnerOrAdmin now u j" "not_allowed u j = not_allowed u i"
    using assms(1) by (simp_all add: j_def isOwnerOrAdmin_def isOwner_def not_allowed_def isMember_def on_update_def)
  have h: "handle_request layouts now u i Delete d = (Inl (not_allowed u i), d1)"
    using assms(4,6) assms(5) [simplified] by (auto simp: handle_request_def delete_request_def s(1) performAction_refused [OF r(1)] r(2) j(1))
  define j2 where "j2 = on_update later (j\<lparr>state := STOPPED\<rparr>)"
  define d2 where "d2 = snd (inst_save later (j\<lparr>state := STOPPED\<rparr>) d1)"
  have s2: "inst_save later (j\<lparr>state := STOPPED\<rparr>) d1 = (j2, d2)" "inst_getById n d2 = Some j2"
    using save_loaded(1,2) [OF s(3) _ s(2), of "j\<lparr>state := STOPPED\<rparr>" later] n(3) j by (simp_all add: j2_def d2_def live_def)
  have "j2 \<in> set (inst_getAllToDelete d2)"
    using inst_getById_Some [OF s2(2)] j(5) by (simp add: inst_getAllToDelete_def j2_def on_update_def)
  then show ?thesis using h s(2) n(1) j(5) s2(1) by auto
qed

theorem strangers_mark_for_deletion_witness:
  "\<exists>j. fst (handle_request (\<lambda>_. True) 5 dave inst_alice Delete sample_db) = Inl (not_allowed dave inst_alice) \<and>
    inst_getById (id_key (inst_id inst_alice)) (snd (handle_request (\<lambda>_. True) 5 dave inst_alice Delete sample_db)) = Some j \<and>
    delete_requested j \<and>
    (let (j', d') = inst_save 6 (j\<lparr>state := STOPPED\<rparr>) (snd (handle_request (\<lambda>_. True) 5 dave inst_alice Delete sample_db))
     in j' \<in> set (inst_getAllToDelete d'))"
  by (rule strangers_mark_for_deletion)
    (use sample_owners sample_loaded sample_db_instances in \<open>simp_all add: hasAnyState_def inst_alice_def sample_inst_def\<close>)


section \<open>What owners and administrators do\<close>

text \<open>C7: An action that an owner or administrator asks for sets the state of exactly that instance and adds exactly one
  command to the table, pending, of that type and in the name of the user.
\<close>

theorem allowed_actions_are_recorded:
  assumes "isOwnerOrAdmin now u i" "loaded i d" "table_ok inst_id (t_inst d)"
  shows "\<exists>c. let d' = snd (performAction now i u t d) in
    inst_getById (id_key (inst_id i)) d' = Some (on_update now (requested_state t i)) \<and>
    (\<forall>k. inst_id i \<noteq> Some k \<longrightarrow> inst_getById k d' = inst_getById k d) \<and>
    rows (t_command d') = rows (t_command d) @ [c] \<and> cmd_type c = t \<and> cmd_state c = PENDING \<and>
    map_option user_id (cmd_user c) = Some (user_id u) \<and> inst_equals (cmd_inst c) i \<and> c \<in> set (cmd_getAllPending d')"
proof -
  obtain n where n: "inst_id i = Some n" "inst_getById n d = Some i" "\<forall>m \<in> set (members i). mem_id m \<noteq> None"
    using assms(2) by (auto simp: loaded_def)
  have l: "live i" using inst_getById_Some [OF n(2)] by simp
  define j where "j = on_update now (requested_state t i)"
  define d1 where "d1 = snd (inst_save now (requested_state t i) d)"
  have s: "inst_save now (requested_state t i) d = (j, d1)" "inst_getById n d1 = Some j"
      "\<And>k. k \<noteq> n \<Longrightarrow> inst_getById k d1 = inst_getById k d" "table_ok inst_id (t_inst d1)"
    using save_loaded [OF assms(3) _ n(2), of "requested_state t i", where now = now] n l
    by (simp_all add: j_def d1_def requested_state_def live_def)
  have j: "inst_id j = Some n" using n(1) by (simp add: j_def on_update_def requested_state_def)
  define c where "c = (on_create now (new_command (Some u) j t))\<lparr>cmd_id := Some (next_id (t_command d))\<rparr>"
  define d2 where "d2 = snd (cmd_create now (Some u) j t d1)"
  have tc: "t_command d1 = t_command d" using inst_save_frame_all(1) by (simp add: d1_def)
  have d2: "t_inst d2 = t_inst d1" "rows (t_command d2) = rows (t_command d) @ [c]"
    by (simp_all add: d2_def cmd_create_def command_save_def save_row_def persist_row_def new_command_def c_def tc Let_def
        on_create_def)
  have c: "cmd_type c = t" "cmd_state c = PENDING" "cmd_user c = Some u" "cmd_inst c = j"
    by (simp_all add: c_def on_create_def new_command_def)
  have gi: "inst_getById k d2 = inst_getById k d1" for k using d2(1) by (simp add: inst_getById_def)
  have "find_row inst_id n (t_inst d2) = Some j"
    using s(2) inst_getById_find_row [OF s(4)] by (auto simp: d2(1) split: option.splits if_splits)
  then have "load_command d2 c = c" using j c by (simp add: load_command_def inst_ref_def) (simp add: c_def new_command_def on_create_def)
  then have "c \<in> set (cmd_getAllPending d2)"
    using d2(2) c by (force simp: cmd_getAllPending_def cmd_select_def)
  moreover have "snd (performAction now i u t d) = d2" using assms(1) by (simp add: performAction_def s(1) d2_def Let_def)
  ultimately show ?thesis using s d2 c gi n(1) j by (intro exI [of _ c]) (auto simp: Let_def inst_equals_def j_def)
qed

theorem allowed_actions_are_recorded_witness:
  "\<exists>c. let d' = snd (performAction 5 inst_alice alice SHUTDOWN sample_db) in
    inst_getById 1 d' = Some (on_update 5 (requested_state SHUTDOWN inst_alice)) \<and> rows (t_command d') = [c] \<and> cmd_type c = SHUTDOWN"
  using allowed_actions_are_recorded [OF sample_owners(1) sample_loaded(1) sample_db_instances, of 5 SHUTDOWN]
  by (auto simp: Let_def sample_db_def empty_db_def)

section \<open>Members of other instances\<close>

lemma find_map_same: "(\<And>x. P (f x) = P x) \<Longrightarrow> List.find P (map f xs) = map_option f (List.find P xs)"
  by (induction xs) auto

lemma mem_merge_getById: "inst_getById n (mem_merge now m d) = map_option (replace_member (on_update now m)) (inst_getById n d)"
  unfolding inst_getById_def mem_merge_def
  by (simp, subst find_map_same) (simp_all add: replace_member_def live_def)

text \<open>C8: The owner of one instance can change the role of a member of any other, if that user has the same role in both.
\<close>

theorem members_of_other_instances_change:
  assumes "isOwner u a" "isMemberWithRole (mem_user m) (mem_role m) a" "r \<noteq> OWNER"
    and "inst_getById n d = Some b" "m \<in> set (members b)"
  shows "fst (updateMember_request now u a m r d) = Inr (MemberReply (m\<lparr>mem_role := r\<rparr>)) \<and>
    (\<exists>b'. inst_getById n (snd (updateMember_request now u a m r d)) = Some b' \<and>
       on_update now (m\<lparr>mem_role := r\<rparr>) \<in> set (members b'))"
proof -
  have "isMemberOf m a" using assms(2) getMemberWithRole_None by (simp add: isMemberOf_def)
  then have "updateMember_request now u a m r d = (Inr (MemberReply (m\<lparr>mem_role := r\<rparr>)), mem_merge now (m\<lparr>mem_role := r\<rparr>) d)"
    using assms(1,3) by (simp add: updateMember_request_def isOwnerOrAdmin_def)
  moreover have "on_update now (m\<lparr>mem_role := r\<rparr>) \<in> set (members (replace_member (on_update now (m\<lparr>mem_role := r\<rparr>)) b))"
    using assms(5) by (auto simp: replace_member_def member_equals_def on_update_def intro!: rev_image_eqI [of m])
  ultimately show ?thesis using assms(4) by (simp add: mem_merge_getById)
qed

text \<open>Bob owns an instance that Alice may use as a guest, and makes her a normal user of an instance of Carol.\<close>

theorem members_of_other_instances_change_witness:
  "let b = sample_inst 3 ACTIVE [sample_member 5 carol OWNER, sample_member 6 alice GUEST];
       d = sample_db\<lparr>t_inst := \<lparr>rows = [inst_alice, inst_bob, b], next_id = 4\<rparr>\<rparr>
   in \<exists>b'. inst_getById 3 (snd (updateMember_request 5 bob inst_bob (sample_member 6 alice GUEST) USER d)) = Some b' \<and>
       on_update 5 (sample_member 6 alice USER) \<in> set (members b')"
proof -
  let ?b = "sample_inst 3 ACTIVE [sample_member 5 carol OWNER, sample_member 6 alice GUEST]"
  let ?d = "sample_db\<lparr>t_inst := \<lparr>rows = [inst_alice, inst_bob, ?b], next_id = 4\<rparr>\<rparr>"
  have "isOwner bob inst_bob" "isMemberWithRole (mem_user (sample_member 6 alice GUEST)) (mem_role (sample_member 6 alice GUEST)) inst_bob"
    "inst_getById 3 ?d = Some ?b" "sample_member 6 alice GUEST \<in> set (members ?b)"
    by (simp_all add: isOwner_def isMemberWithRole_def isUser_def isRole_def user_equals_def inst_getById_def live_def sample_insts)
  moreover have "(sample_member 6 alice GUEST)\<lparr>mem_role := USER\<rparr> = sample_member 6 alice USER"
    by (simp add: sample_member_def new_member_def)
  ultimately show ?thesis
    using members_of_other_instances_change [of bob inst_bob "sample_member 6 alice GUEST" USER 3 ?d ?b 5] by (simp add: Let_def)
qed

section \<open>Instances without an owner\<close>

lemma mem_merge_ok: "table_ok inst_id (t_inst d) \<Longrightarrow> table_ok inst_id (t_inst (mem_merge now m d))"
  by (auto simp: table_ok_def mem_merge_def replace_member_def o_def)

lemma no_membership:
  assumes "table_ok inst_id (t_inst d)" "inst_getById n d = Some i" "\<not> isMember v i"
  shows "mem_getByInstanceAndUser i v d = Inr None"
proof -
  have i: "i \<in> set (rows (t_inst d))" "inst_id i = Some n" using inst_getById_Some [OF assms(2)] by auto
  have "j = i" if "j \<in> set (rows (t_inst d))" "inst_id j = inst_id i" for j
    using assms(1) that i by (metis table_ok_def distinct_map inj_onD)
  then have "filter (isUser v) (members j) = []" if "j \<in> set (rows (t_inst d))" "inst_equals j i" for j
    using that assms(3) by (auto simp: inst_equals_def isMember_def list_ex_iff filter_empty_conv)
  then have "concat (map (\<lambda>j. filter (isUser v) (members j)) (filter (\<lambda>j. live j \<and> inst_equals j i) (rows (t_inst d)))) = []"
    by auto
  then show ?thesis by (simp only: mem_getByInstanceAndUser_def single_result.simps)
qed

lemma number_members_roles: "map mem_role (fst (number_members now n ms)) = map mem_role ms"
proof (induction ms arbitrary: n)
  case (Cons m ms)
  then show ?case using Cons.IH [of n] Cons.IH [of "n + 1"]
    by (cases "number_members now n ms"; cases "number_members now (n + 1) ms")
      (auto simp: on_create_def Let_def split: option.splits)
qed simp

text \<open>C9: An owner, or an administrator, can give the owner's own membership another role. Then the instance has no owner:
  no reply about it can be built for anyone who is no member, administrators included, and the job that deletes marked
  instances breaks off at it.
\<close>

theorem demoted_owner_breaks_instance:
  assumes "isOwnerOrAdmin now u i" "inst_getById n d = Some i" "table_ok inst_id (t_inst d)"
    and "m \<in> set (members i)" "isRole OWNER m" "\<And>x. x \<in> set (members i) \<Longrightarrow> isRole OWNER x \<Longrightarrow> x = m" "r \<noteq> OWNER"
  shows "\<exists>i'. inst_getById n (snd (updateMember_request now u i m r d)) = Some i' \<and> getOwner i' = None \<and>
    (\<forall>v. \<not> isMember v i' \<longrightarrow> mapInstance later v i' (snd (updateMember_request now u i m r d)) = Inl NullPointer) \<and>
    fst (delete_marked later i' (snd (updateMember_request now u i m r d), cs)) = Some NullPointer"
proof -
  let ?m = "m\<lparr>mem_role := r\<rparr>"
  define d' where "d' = mem_merge now ?m d"
  define i' where "i' = replace_member (on_update now ?m) i"
  have "isMemberWithRole (mem_user m) (mem_role m) i" using assms(4)
    by (auto simp: isMemberWithRole_def list_ex_iff isUser_def isRole_def intro!: bexI [of _ m])
  then have "isMemberOf m i" using getMemberWithRole_None by (simp add: isMemberOf_def)
  then have d': "snd (updateMember_request now u i m r d) = d'"
    using assms(1,7) by (simp add: updateMember_request_def d'_def)
  have g: "inst_getById n d' = Some i'" using assms(2) by (simp add: d'_def mem_merge_getById i'_def)
  have none: "\<not> isRole OWNER x" if "x \<in> set (members i')" for x
    using that assms(6,7) by (auto simp: i'_def replace_member_def member_equals_def on_update_def isRole_def split: if_splits)
  then have o: "getOwner i' = None" by (simp add: getOwner_def find_is_None_iff)
  have no: "\<not> isOwner v i'" for v using none by (auto simp: isOwner_def list_ex_iff)
  have "table_ok inst_id (t_inst d')" unfolding d'_def by (rule mem_merge_ok [OF assms(3)])
  then have "mapInstance later v i' d' = Inl NullPointer" if "\<not> isMember v i'" for v
    using no_membership [OF _ g that] that by (simp add: mapInstance_def canConnectWhileOwnerAway_def o no Let_def)
  moreover have "fst (delete_marked later i' (d', cs)) = Some NullPointer"
  proof -
    obtain i2 d2 where sv: "inst_save later (i'\<lparr>state := DELETING\<rparr>) d' = (i2, d2)" by fastforce
    have "getOwner i2 = None"
    proof -
      have "members i2 = fst (number_members later (member_next d') (members i'))"
        using live_save [OF inst_save_table [OF sv, symmetric]] by simp
      then have "set (map mem_role (members i2)) = set (map mem_role (members i'))" by (simp only: number_members_roles)
      moreover have "OWNER \<notin> set (map mem_role (members i'))" using none unfolding isRole_def by (metis imageE list.set_map)
      ultimately have "OWNER \<notin> set (map mem_role (members i2))" by simp
      then show ?thesis unfolding getOwner_def find_is_None_iff isRole_def by (metis image_eqI list.set_map)
    qed
    then show ?thesis by (simp add: delete_marked_def sv)
  qed
  ultimately show ?thesis unfolding d' using g o by blast
qed

theorem demoted_owner_breaks_instance_witness:
  "\<exists>i'. inst_getById 1 (snd (updateMember_request 5 alice inst_alice (sample_member 1 alice OWNER) USER sample_db)) = Some i' \<and>
    getOwner i' = None"
proof -
  have g: "inst_getById 1 sample_db = Some inst_alice"
    by (simp add: inst_getById_def sample_db_def empty_db_def live_def sample_insts)
  have m: "sample_member 1 alice OWNER \<in> set (members inst_alice)" by (simp add: inst_alice_def sample_inst_def)
  have o: "isRole OWNER (sample_member 1 alice OWNER)" by (simp add: isRole_def sample_member_def new_member_def)
  have x: "x = sample_member 1 alice OWNER" if "x \<in> set (members inst_alice)" "isRole OWNER x" for x
    using that by (auto simp: inst_alice_def sample_inst_def isRole_def sample_member_def new_member_def)
  have r: "USER \<noteq> OWNER" by simp
  from demoted_owner_breaks_instance [OF sample_owners(1) g sample_db_instances m o x r] show ?thesis by blast
qed

section \<open>Users with two roles\<close>

lemma number_members_new:
  "\<forall>m \<in> set ms. mem_id m \<noteq> None \<Longrightarrow> mem_id m = None \<Longrightarrow>
   number_members now n (ms @ [m]) = (ms @ [(on_create now m)\<lparr>mem_id := Some n\<rparr>], n + 1)"
  by (induction ms) auto

lemma single_result_two:
  "x \<in> set xs \<Longrightarrow> y \<in> set xs \<Longrightarrow> gid x \<noteq> gid y \<Longrightarrow> single_result gid xs = Inl NonUniqueResult"
proof (cases xs)
  case (Cons a ys)
  assume xy: "x \<in> set xs" "y \<in> set xs" "gid x \<noteq> gid y"
  have "\<not> list_all (\<lambda>z. gid z = gid a) ys"
  proof
    assume "list_all (\<lambda>z. gid z = gid a) ys"
    then have "gid z = gid a" if "z \<in> set xs" for z using that Cons by (auto simp: list_all_iff)
    then show False using xy by simp
  qed
  then show ?thesis using Cons by simp
qed simp

text \<open>A member can be added once more with another role. From then on no reply about the instance can be built for that
  user: the query for the one membership finds two, which is an exception.
\<close>

theorem second_role_locks_out:
  assumes "isOwnerOrAdmin now u i" "loaded i d" "table_ok inst_id (t_inst d)"
    and "\<forall>m \<in> set (members i). \<forall>k. mem_id m = Some k \<longrightarrow> k < member_next d"
    and "user_getById v d = Some w" "isMember w i" "\<not> isMemberWithRole w r i"
  shows "\<exists>i'. inst_getById (id_key (inst_id i)) (snd (addMember_request now u i v r d)) = Some i' \<and>
    mapInstance later w i' (snd (addMember_request now u i v r d)) = Inl NonUniqueResult"
proof -
  obtain n where n: "inst_id i = Some n" "inst_getById n d = Some i" "\<forall>m \<in> set (members i). mem_id m \<noteq> None"
    using assms(2) by (auto simp: loaded_def)
  have l: "live i" using inst_getById_Some [OF n(2)] by simp
  define m where "m = (on_create now (new_member w r))\<lparr>mem_id := Some (member_next d)\<rparr>"
  define j where "j = i\<lparr>members := members i @ [new_member w r]\<rparr>"
  define i' where "i' = on_update now (j\<lparr>members := members i @ [m]\<rparr>)"
  define d' where "d' = snd (inst_save now j d)"
  have "getMemberWithRole w r i = None" using assms(7) by (simp add: getMemberWithRole_None)
  then have j: "snd (addMember (new_member w r) i) = j" by (simp add: addMember_def new_member_def j_def)
  have "fst (number_members now (member_next d) (members j)) = members i @ [m]"
    using number_members_new [OF n(3), of "new_member w r" now "member_next d"] by (simp add: j_def m_def new_member_def)
  from save_known(2) [OF assms(3) _ n(2) _ this] have g: "inst_getById n d' = Some i'"
    using n(1) l by (simp add: d'_def i'_def j_def live_def)
  obtain x where x: "x \<in> set (members i)" "isUser w x" using assms(6) by (auto simp: isMember_def list_ex_iff)
  have "mem_id x \<noteq> mem_id m" using assms(4) x(1) n(3) by (force simp: m_def)
  moreover have "x \<in> set (members i')" "m \<in> set (members i')" using x(1) by (simp_all add: i'_def on_update_def)
  moreover have "isUser w m" by (simp add: m_def on_create_def new_member_def isUser_def)
  moreover have "i' \<in> set (rows (t_inst d'))" "live i'" using inst_getById_Some [OF g] by auto
  ultimately have "mem_getByInstanceAndUser i' w d' = Inl NonUniqueResult"
    unfolding mem_getByInstanceAndUser_def using x(2)
    by (intro single_result_two [of x _ m]) (auto simp: inst_equals_def intro!: bexI [of _ i'])
  moreover have "snd (addMember_request now u i v r d) = d'"
    using assms(1,5) by (simp add: addMember_request_def j d'_def)
  ultimately show ?thesis using g n(1) by (auto simp: mapInstance_def)
qed

theorem second_role_locks_out_witness:
  "\<exists>i'. inst_getById 1 (snd (addMember_request 5 alice inst_alice ''bob'' GUEST sample_db)) = Some i' \<and>
    mapInstance 6 bob i' (snd (addMember_request 5 alice inst_alice ''bob'' GUEST sample_db)) = Inl NonUniqueResult"
proof -
  have "\<forall>m \<in> set (members inst_alice). \<forall>k. mem_id m = Some k \<longrightarrow> k < member_next sample_db"
    by (simp add: inst_alice_def sample_inst_def sample_member_def sample_db_def)
  moreover have "user_getById ''bob'' sample_db = Some bob" by (simp add: user_getById_def sample_db_def)
  moreover have "isMember bob inst_alice" "\<not> isMemberWithRole bob GUEST inst_alice"
    by (simp_all add: isMember_def isMemberWithRole_def isUser_def isRole_def user_equals_def sample_insts)
  ultimately show ?thesis
    using second_role_locks_out [OF sample_owners(1) sample_loaded(1) sample_db_instances, of "''bob''" bob GUEST 5 6] by simp
qed

section \<open>Quotas\<close>

text \<open>A user with a quota never owns more live instances after a request to create one than the quota allows.\<close>

lemma create_owned:
  assumes "inst_create conf gen now b d = Some (i, d1)" "b_members b = [new_member u OWNER]"
  shows "inst_countAllForUserAndRole u OWNER d1 = Suc (inst_countAllForUserAndRole u OWNER d)"
proof -
  obtain s h where d1: "d1 = snd (inst_save now ((build_inst now (b\<lparr>b_uid := s, b_state := BUILDING, b_last_seen_at := Some now\<rparr>))
      \<lparr>termination_date := h\<rparr>) d)"
    using assms(1) unfolding inst_create_def Let_def by (auto split: option.splits) (metis snd_conv)
  show ?thesis using assms(2) unfolding d1
    by (simp add: inst_save_def build_inst_def new_member_def inst_countAllForUserAndRole_def inst_getAll_def save_row_def
        persist_row_def Let_def on_create_def live_def isUser_def isRole_def user_equals_def)
qed

theorem quota_is_kept:
  assumes "user_instance_quota u \<noteq> -1"
    and "create_request layouts cq conf gen now u login ps x d = Some (y, d')" "d' \<noteq> d"
  shows "int (inst_countAllForUserAndRole u OWNER d') \<le> user_instance_quota u"
proof -
  have q: "int (inst_countAllForUserAndRole u OWNER d) < user_instance_quota u"
    using assms by (auto simp: create_request_def quota_exceeded_def split: if_splits)
  obtain b i d1 where b: "inst_create conf gen now b d = Some (i, d1)" "b_members b = [new_member u OWNER]"
      "d' = snd (cmd_create now (Some u) i CREATE d1)"
    using assms(2,3) by (auto simp: create_request_def Let_def split: if_splits option.splits)
  have "t_inst d' = t_inst d1" using b(3) by (simp add: cmd_create_def split: prod.splits)
  then show ?thesis using create_owned [OF b(1,2)] q by (simp add: inst_countAllForUserAndRole_def inst_getAll_def)
qed

text \<open>Alice, who may own two instances and owns one, creates her second.\<close>

theorem quota_is_kept_witness:
  "\<exists>y d'. create_request (\<lambda>_. True) \<lparr>cq_plan = \<lambda>_. Some sample_plan, cq_experiment = \<lambda>_ _. None, cq_for_admin = [],
       cq_for_instruments = \<lambda>_. [sample_plan], cq_for_experiments = \<lambda>_ _. []\<rparr> default_configuration (\<lambda>_. ''abc'') 5 bob ''bob'' []
       \<lparr>cr_name = ''n'', cr_comments = None, cr_plan = 1, cr_width = 1, cr_height = 1, cr_layout = ''en'', cr_experiments = Some []\<rparr>
       sample_db = Some (y, d') \<and> int (inst_countAllForUserAndRole bob OWNER d') \<le> user_instance_quota bob"
proof -
  let ?cq = "\<lparr>cq_plan = \<lambda>_. Some sample_plan, cq_experiment = \<lambda>_ _. None, cq_for_admin = [],
       cq_for_instruments = \<lambda>_. [sample_plan], cq_for_experiments = \<lambda>_ _. []\<rparr>"
  let ?x = "\<lparr>cr_name = ''n'', cr_comments = None, cr_plan = 1, cr_width = 1, cr_height = 1, cr_layout = ''en'', cr_experiments = Some []\<rparr>"
  let ?b = "\<lparr>b_uid = [], b_name = ''n'', b_comments = None, b_plan = sample_plan, b_username = Some ''bob'', b_state = BUILDING,
    b_screen_width = 1, b_screen_height = 1, b_members = [new_member bob OWNER], b_experiments = [], b_last_seen_at = None,
    b_keyboard_layout = ''en'', b_attributes = []\<rparr>"
  have "uid_acceptable ''abc'' sample_db"
    by (simp add: uid_acceptable_def is_letter_def inst_getByUID_def sample_db_def sample_insts)
  then have "getUID (\<lambda>_. ''abc'') sample_db = Some ''abc''" by (simp add: getUID_def getUID_from.simps [of _ _ 0])
  then obtain i d1 where c: "inst_create default_configuration (\<lambda>_. ''abc'') 5 ?b sample_db = Some (i, d1)"
    by (simp add: inst_create_def Let_def) (metis prod.exhaust)
  define d2 where "d2 = snd (cmd_create 5 (Some bob) i CREATE d1)"
  have n: "inst_countAllForUserAndRole bob OWNER sample_db = 1"
    by (simp add: inst_countAllForUserAndRole_def inst_getAll_def sample_db_def live_def isUser_def isRole_def user_equals_def sample_insts)
  have q: "user_instance_quota bob = 2" by (simp add: sample_users)
  have "plan_refused ?cq 5 bob sample_plan [] = None"
    by (simp add: plan_refused_def sample_roles hasAnyRole_def offers_def role_names)
  moreover have "\<not> quota_exceeded bob sample_db" by (simp add: quota_exceeded_def n q)
  ultimately have r: "create_request (\<lambda>_. True) ?cq default_configuration (\<lambda>_. ''abc'') 5 bob ''bob'' [] ?x sample_db =
      Some (instance_reply 5 bob i d2, d2)"
    using c by (simp add: create_request_def Let_def map_filter_simps d2_def)
  have "t_inst d2 = t_inst d1" by (simp add: d2_def cmd_create_def split: prod.splits)
  then have "inst_countAllForUserAndRole bob OWNER d2 = 2"
    using create_owned [OF c, of bob] n by (simp add: inst_countAllForUserAndRole_def inst_getAll_def)
  then have "d2 \<noteq> sample_db" using n by auto
  then show ?thesis using quota_is_kept [OF _ r] q r by (intro exI conjI) auto
qed


section \<open>What the job deletes\<close>

definition deletable :: "inst \<Rightarrow> db \<Rightarrow> bool" where
  "deletable i d \<longleftrightarrow> loaded i d \<and> getOwner i \<noteq> None"

definition delete_command_for :: "inst \<Rightarrow> command \<Rightarrow> bool" where
  "delete_command_for i c \<longleftrightarrow> cmd_type c = DELETE \<and> cmd_state c = PENDING \<and> inst_equals (cmd_inst c) i \<and>
     map_option user_id (cmd_user c) = map_option (\<lambda>w. user_id (mem_user w)) (getOwner i) \<and> state (cmd_inst c) = DELETING"

lemma delete_marked_step:
  assumes "deletable i d" "table_ok inst_id (t_inst d)" "inst_id i = Some n"
  shows "\<exists>c d2. delete_marked now i (d, cs) = (None, d2, cs @ [c]) \<and> delete_command_for i c \<and> table_ok inst_id (t_inst d2) \<and>
    inst_getById n d2 = Some (on_update now (i\<lparr>state := DELETING\<rparr>)) \<and> (\<forall>k. k \<noteq> n \<longrightarrow> inst_getById k d2 = inst_getById k d)"
proof -
  have g: "inst_getById n d = Some i" "\<forall>m \<in> set (members i). mem_id m \<noteq> None"
    using assms(1,3) by (auto simp: deletable_def loaded_def)
  obtain w where w: "getOwner i = Some w" using assms(1) by (auto simp: deletable_def)
  define j where "j = on_update now (i\<lparr>state := DELETING\<rparr>)"
  define d1 where "d1 = snd (inst_save now (i\<lparr>state := DELETING\<rparr>) d)"
  have s: "inst_save now (i\<lparr>state := DELETING\<rparr>) d = (j, d1)" "inst_getById n d1 = Some j"
      "\<And>k. k \<noteq> n \<Longrightarrow> inst_getById k d1 = inst_getById k d" "table_ok inst_id (t_inst d1)"
    using save_loaded [OF assms(2) _ g(1), of "i\<lparr>state := DELETING\<rparr>", where now = now] assms(3) g inst_getById_Some [OF g(1)]
    by (simp_all add: j_def d1_def live_def)
  have o: "getOwner j = Some w" using w by (simp add: j_def on_update_def getOwner_def)
  obtain c d2 where c: "cmd_create now (Some (mem_user w)) j DELETE d1 = (c, d2)" by fastforce
  then have d2: "t_inst d2 = t_inst d1" and cc: "cmd_type c = DELETE" "cmd_state c = PENDING" "cmd_user c = Some (mem_user w)" "cmd_inst c = j"
    by (auto simp: cmd_create_def command_save_def save_row_def persist_row_def new_command_def on_create_def Let_def)
  have "delete_marked now i (d, cs) = (None, d2, cs @ [c])" by (simp add: delete_marked_def s(1) o c)
  moreover have "delete_command_for i c" using cc w by (simp add: delete_command_for_def inst_equals_def j_def on_update_def)
  moreover have "inst_getById k d2 = inst_getById k d1" for k using d2 by (simp add: inst_getById_def)
  ultimately show ?thesis using s(2-4) d2 by (auto simp: j_def)
qed

lemma delete_loop:
  assumes "table_ok inst_id (t_inst d)" "distinct (map inst_id is)" "\<And>i. i \<in> set is \<Longrightarrow> deletable i d"
  shows "\<exists>d' cs'. for_each (delete_marked now) is (d, cs) = (None, d', cs @ cs') \<and> list_all2 delete_command_for is cs' \<and>
    (\<forall>i \<in> set is. \<forall>n. inst_id i = Some n \<longrightarrow> inst_getById n d' = Some (on_update now (i\<lparr>state := DELETING\<rparr>))) \<and>
    (\<forall>n. Some n \<notin> inst_id ` set is \<longrightarrow> inst_getById n d' = inst_getById n d)"
  using assms
proof (induction "is" arbitrary: d cs)
  case (Cons i "is")
  obtain n where n: "inst_id i = Some n" using Cons.prems(3) [of i] by (auto simp: deletable_def loaded_def)
  obtain c d2 where s: "delete_marked now i (d, cs) = (None, d2, cs @ [c])" "delete_command_for i c" "table_ok inst_id (t_inst d2)"
      "inst_getById n d2 = Some (on_update now (i\<lparr>state := DELETING\<rparr>))" "\<forall>k. k \<noteq> n \<longrightarrow> inst_getById k d2 = inst_getById k d"
    using delete_marked_step [OF Cons.prems(3) [of i] Cons.prems(1) n, of now cs] by auto
  have nn: "inst_id j \<noteq> Some n" if "j \<in> set is" for j using Cons.prems(2) n that by (auto simp: image_iff)
  have "deletable j d2" if "j \<in> set is" for j
    using Cons.prems(3) [of j] that nn [OF that] s(5) by (auto simp: deletable_def loaded_def)
  from Cons.IH [OF s(3) _ this, of "cs @ [c]"] obtain d' cs' where r: "for_each (delete_marked now) is (d2, cs @ [c]) = (None, d', (cs @ [c]) @ cs')"
      "list_all2 delete_command_for is cs'"
      "\<forall>i \<in> set is. \<forall>n. inst_id i = Some n \<longrightarrow> inst_getById n d' = Some (on_update now (i\<lparr>state := DELETING\<rparr>))"
      "\<forall>n. Some n \<notin> inst_id ` set is \<longrightarrow> inst_getById n d' = inst_getById n d2"
    using Cons.prems(2) by auto
  have "Some n \<notin> inst_id ` set is" using nn by force
  then have "inst_getById n d' = Some (on_update now (i\<lparr>state := DELETING\<rparr>))" using r(4) s(4) by simp
  then show ?case using s r n by (intro exI [of _ d'] exI [of _ "c # cs'"]) auto
qed auto

text \<open>C11: Where every marked instance has an owner, the job that deletes ends without an exception: each stopped and marked
  instance, and no other, is put into the state DELETING and gets one command to delete it in the name of its owner.
\<close>

theorem delete_job_deletes_marked:
  assumes "table_ok inst_id (t_inst d)" "\<And>i. i \<in> set (inst_getAllToDelete d) \<Longrightarrow> deletable i d"
  shows "\<exists>d' cs. delete_job now d = (None, d', cs) \<and> list_all2 delete_command_for (inst_getAllToDelete d) cs \<and>
    (\<forall>n i. inst_getById n d = Some i \<longrightarrow> inst_getById n d' =
       Some (if state i = STOPPED \<and> delete_requested i then on_update now (i\<lparr>state := DELETING\<rparr>) else i))"
proof -
  let ?is = "inst_getAllToDelete d"
  have "distinct (map inst_id ?is)"
    using assms(1) by (auto simp: table_ok_def inst_getAllToDelete_def distinct_map_filter)
  from delete_loop [OF assms(1) this assms(2), of now "[]"] obtain d' cs where r: "delete_job now d = (None, d', cs)"
      "list_all2 delete_command_for ?is cs"
      "\<forall>i \<in> set ?is. \<forall>n. inst_id i = Some n \<longrightarrow> inst_getById n d' = Some (on_update now (i\<lparr>state := DELETING\<rparr>))"
      "\<forall>n. Some n \<notin> inst_id ` set ?is \<longrightarrow> inst_getById n d' = inst_getById n d"
    by (auto simp: delete_job_def)
  have "inst_getById n d' = Some (if state i = STOPPED \<and> delete_requested i then on_update now (i\<lparr>state := DELETING\<rparr>) else i)"
    if g: "inst_getById n d = Some i" for n i
  proof -
    have i: "i \<in> set (rows (t_inst d))" "inst_id i = Some n" "live i" using inst_getById_Some [OF g] by auto
    show ?thesis
    proof (cases "i \<in> set ?is")
      case True
      then show ?thesis using r(3) i(2) by (auto simp: inst_getAllToDelete_def)
    next
      case False
      have "j = i" if "j \<in> set (rows (t_inst d))" "inst_id j = Some n" for j
        using assms(1) that i by (metis table_ok_def distinct_map inj_onD)
      then have "Some n \<notin> inst_id ` set ?is" using False by (force simp: inst_getAllToDelete_def)
      then show ?thesis using r(4) g False i by (auto simp: inst_getAllToDelete_def)
    qed
  qed
  then show ?thesis using r(1,2) by blast
qed

theorem delete_job_deletes_marked_witness:
  "let i = inst_alice\<lparr>state := STOPPED, delete_requested := True\<rparr>; d = sample_db\<lparr>t_inst := \<lparr>rows = [i, inst_bob], next_id = 3\<rparr>\<rparr>
   in \<exists>d' c. delete_job 5 d = (None, d', [c]) \<and> delete_command_for i c \<and>
        inst_getById 1 d' = Some (on_update 5 (i\<lparr>state := DELETING\<rparr>)) \<and> inst_getById 2 d' = Some inst_bob"
proof -
  let ?i = "inst_alice\<lparr>state := STOPPED, delete_requested := True\<rparr>"
  let ?d = "sample_db\<lparr>t_inst := \<lparr>rows = [?i, inst_bob], next_id = 3\<rparr>\<rparr>"
  have t: "table_ok inst_id (t_inst ?d)" by (simp add: table_ok_def)
  have e: "inst_getAllToDelete ?d = [?i]" by (simp add: inst_getAllToDelete_def live_def sample_insts)
  have g: "inst_getById 1 ?d = Some ?i" "inst_getById 2 ?d = Some inst_bob"
    by (simp_all add: inst_getById_def live_def) (simp_all add: sample_insts)
  have "deletable ?i ?d" using g(1)
    by (auto simp: deletable_def loaded_def) (auto simp: getOwner_def isRole_def sample_insts)
  then obtain d' cs where "delete_job 5 ?d = (None, d', cs)" "list_all2 delete_command_for [?i] cs"
      "\<forall>n i. inst_getById n ?d = Some i \<longrightarrow> inst_getById n d' =
         Some (if state i = STOPPED \<and> delete_requested i then on_update 5 (i\<lparr>state := DELETING\<rparr>) else i)"
    using delete_job_deletes_marked [OF t, of 5] unfolding e by auto
  then show ?thesis using g unfolding Let_def by (auto simp: list_all2_Cons1) (simp_all add: sample_insts)
qed

end
