(* ===== verification/Jobs.thy ===== *)
theory Jobs
  imports Account_Controller "HOL-Library.Multiset"
begin

text \<open>
  The jobs of visa-scheduler, apart from those that delete: refreshing the states of the instances, running pending
  commands, updating security groups, removing servers that no instance knows, and removing old tokens and
  activities. A command that a job creates itself has no user, so it is not saved; the jobs hand their commands to
  the action manager, here a list. The clouds are arguments, their states a type of their own.
\<close>

section \<open>InstanceStateJob\<close>

text \<open>The states of the job's data, when it has any, are read from a text and given as a list here.\<close>

definition state_job_instances :: "instance_state list option \<Rightarrow> db \<Rightarrow> inst list" where
  "state_job_instances ss d = (case ss of None \<Rightarrow> inst_getAll d | Some xs \<Rightarrow> inst_getAllWithStates xs d)"

definition soft_delete :: "date \<Rightarrow> inst \<Rightarrow> db \<Rightarrow> db" where
  "soft_delete now i d = (if state i = DELETED then snd (inst_save now (setDeleted now True i) d) else d)"

definition state_job :: "date \<Rightarrow> instance_state list option \<Rightarrow> db \<Rightarrow> db \<times> command list" where
  "state_job now ss d =
     (let is = state_job_instances ss d
      in (fold (soft_delete now) is d, map (\<lambda>i. new_command None i STATE) (filter (\<lambda>i. state i \<noteq> DELETED) is)))"

section \<open>InstanceCommandExecutorJob\<close>

definition executor_job :: "date \<Rightarrow> db \<Rightarrow> qm \<Rightarrow> qm" where
  "executor_job now d st = fold (submit now) (cmd_getAllPending d) st"

section \<open>InstanceSecurityGroupUpdateJob\<close>

definition equalSecurityGroups :: "string list \<Rightarrow> string list \<Rightarrow> bool" where
  "equalSecurityGroups xs ys \<longleftrightarrow> (if length xs \<noteq> length ys then False else sort xs = sort ys)"

text \<open>The comparison sorts the list of the instance in place when the lengths agree, so the command holds the sorted list.\<close>

definition sort_groups :: "string list \<Rightarrow> inst \<Rightarrow> inst" where
  "sort_groups gs i =
     (if length (security_groups i) = length gs then i\<lparr>security_groups := sort (security_groups i)\<rparr> else i)"

definition groups_step :: "(inst \<Rightarrow> string list) \<Rightarrow> date \<Rightarrow> db \<Rightarrow> inst \<Rightarrow> command list \<Rightarrow> exn option \<times> command list" where
  "groups_step custom now d i cs =
     (case getAllSecurityGroupNamesForInstance custom now i d of
        Inl e \<Rightarrow> (Some e, cs)
      | Inr gs \<Rightarrow> (None, if equalSecurityGroups (security_groups i) gs then cs
                       else cs @ [new_command None (sort_groups gs i) UPDATE_SECURITY_GROUPS]))"

definition groups_job :: "(inst \<Rightarrow> string list) \<Rightarrow> date \<Rightarrow> db \<Rightarrow> exn option \<times> command list" where
  "groups_job custom now d = for_each (groups_step custom now d) (inst_getAll d) []"

section \<open>CloudInstanceCleanupJob\<close>

definition starts_with :: "string \<Rightarrow> string \<Rightarrow> bool" where
  "starts_with s p \<longleftrightarrow> take (length p) s = p"

definition zombies :: "'w cloud_client \<Rightarrow> inst list \<Rightarrow> cloud_identifier list \<Rightarrow> cloud_identifier list" where
  "zombies c is xs =
     filter (\<lambda>x. list_all (\<lambda>i. compute_id i \<noteq> Some (cid_id x)) is \<and> starts_with (cid_name x) (cc_server_name_prefix c)) xs"

text \<open>A cloud exception is logged, and the next cloud is looked at; any other exception ends the job.\<close>

definition logged :: "exn option \<times> 'w \<Rightarrow> exn option \<times> 'w" where
  "logged r = (case r of (Some (CloudException s), w) \<Rightarrow> (None, w) | _ \<Rightarrow> r)"

definition cleanup_client :: "'w cloud_client \<times> inst list \<Rightarrow> 'w \<Rightarrow> exn option \<times> 'w" where
  "cleanup_client ci w =
     (case ci of (c, is) \<Rightarrow>
        logged (case p_instanceIdentifiers (cc_provider c) w of
            Inl e \<Rightarrow> (Some e, w)
          | Inr None \<Rightarrow> (Some NullPointer, w)
          | Inr (Some xs) \<Rightarrow> for_each (\<lambda>x. p_deleteInstance (cc_provider c) (cid_id x)) (zombies c is xs) w))"

definition cleanup_job :: "'w gateway \<Rightarrow> db \<Rightarrow> 'w \<Rightarrow> exn option \<times> 'w" where
  "cleanup_job g d w = (case getAllByCloud g d of Inl e \<Rightarrow> (Some e, w) | Inr m \<Rightarrow> for_each cleanup_client m w)"

section \<open>InstanceAuthenticationTokenDeleteJob and InstanceActivityCleanupJob\<close>

definition token_expired :: "date \<Rightarrow> int \<Rightarrow> auth_token \<Rightarrow> bool" where
  "token_expired now seconds t =
     (case created_at t of None \<Rightarrow> False | Some c \<Rightarrow> c + seconds * 1000 < now)"

definition token_job :: "date \<Rightarrow> db \<Rightarrow> db" where
  "token_job now d = fold at_delete (filter (token_expired now 30) (at_getAll d)) d"

definition activity_job :: "instance_configuration \<Rightarrow> date \<Rightarrow> db \<Rightarrow> db" where
  "activity_job conf now d =
     (if activityRetentionPeriodDays conf \<noteq> 0
      then act_cleanup (now - hours_ms (24 * activityRetentionPeriodDays conf)) d else d)"


section \<open>Refreshing the states\<close>

lemma soft_delete_step:
  assumes "loaded i d" "table_ok inst_id (t_inst d)" "inst_id i = Some n" "state i = DELETED"
  shows "table_ok inst_id (t_inst (soft_delete now i d)) \<and> inst_getById n (soft_delete now i d) = None \<and>
    (\<forall>k. k \<noteq> n \<longrightarrow> inst_getById k (soft_delete now i d) = inst_getById k d)"
proof -
  let ?j = "setDeleted now True i"
  have g: "inst_getById n d = Some i" using assms(1,3) by (auto simp: loaded_def)
  obtain i' d' where sv: "inst_save now ?j d = (i', d')" by fastforce
  have f: "find_row inst_id n (t_inst d) = Some i"
    using g inst_getById_find_row [OF assms(2)] by (auto split: option.splits if_splits)
  have id: "inst_id i' = Some n" "deleted_at i' = Some now"
    using inst_save_id [OF sv f] assms(3) by (simp_all add: setDeleted_def)
  note t = inst_save_table [OF sv]
  have ok: "table_ok inst_id (t_inst d')" using inst_save_ok [OF assms(2), of now ?j] sv by simp
  have "find_row inst_id n (t_inst d') = Some i'"
    using instances.find_row_save [OF assms(2) t [symmetric]] id(1) by auto
  then have "inst_getById n d' = None" using inst_getById_find_row [OF ok] id(2) by (simp add: live_def)
  then show ?thesis using assms(4) ok sv inst_save_other [OF assms(2) sv] id(1) by (auto simp: soft_delete_def)
qed

lemma soft_delete_loop:
  assumes "table_ok inst_id (t_inst d)" "distinct (map inst_id is)" "\<And>i. i \<in> set is \<Longrightarrow> loaded i d"
  shows "(\<forall>i \<in> set is. \<forall>n. inst_id i = Some n \<longrightarrow>
      inst_getById n (fold (soft_delete now) is d) = (if state i = DELETED then None else Some i)) \<and>
    (\<forall>n. Some n \<notin> inst_id ` set is \<longrightarrow> inst_getById n (fold (soft_delete now) is d) = inst_getById n d)"
  using assms
proof (induction "is" arbitrary: d)
  case (Cons i "is")
  obtain n where n: "inst_id i = Some n" using Cons.prems(3) [of i] by (auto simp: loaded_def)
  let ?d = "soft_delete now i d"
  have s: "table_ok inst_id (t_inst ?d)" "inst_getById n ?d = (if state i = DELETED then None else Some i)"
      "\<forall>k. k \<noteq> n \<longrightarrow> inst_getById k ?d = inst_getById k d"
    using soft_delete_step [of i d n now] Cons.prems(1) Cons.prems(3) [of i] n
    by (auto simp: soft_delete_def [of now i d] loaded_def split: if_splits)
  have nn: "inst_id j \<noteq> Some n" if "j \<in> set is" for j using Cons.prems(2) n that by (auto simp: image_iff)
  have "loaded j ?d" if "j \<in> set is" for j
    using Cons.prems(3) [of j] that nn [OF that] s(3) by (auto simp: loaded_def)
  note r = Cons.IH [OF s(1) _ this]
  have "Some n \<notin> inst_id ` set is" using nn by force
  then show ?case using r Cons.prems(2) s n by auto
qed simp

text \<open>C12: Run for all instances, the job marks exactly those in the state DELETED as deleted, so that they are found no more, changes
  no other, and creates one command for each of the others, in their order.
\<close>

theorem state_job_outcome:
  assumes "table_ok inst_id (t_inst d)" "\<And>i. i \<in> set (inst_getAll d) \<Longrightarrow> loaded i d"
  shows "(\<forall>n i. inst_getById n d = Some i \<longrightarrow>
      inst_getById n (fst (state_job now None d)) = (if state i = DELETED then None else Some i)) \<and>
    map cmd_inst (snd (state_job now None d)) = filter (\<lambda>i. state i \<noteq> DELETED) (inst_getAll d) \<and>
    list_all (\<lambda>c. cmd_type c = STATE \<and> cmd_user c = None) (snd (state_job now None d))"
proof -
  have "distinct (map inst_id (inst_getAll d))" using assms(1) by (auto simp: table_ok_def inst_getAll_def distinct_map_filter)
  from soft_delete_loop [OF assms(1) this assms(2), of now]
  have "\<forall>i \<in> set (inst_getAll d). \<forall>n. inst_id i = Some n \<longrightarrow>
      inst_getById n (fst (state_job now None d)) = (if state i = DELETED then None else Some i)"
    by (simp add: state_job_def state_job_instances_def Let_def)
  then have "\<forall>n i. inst_getById n d = Some i \<longrightarrow>
      inst_getById n (fst (state_job now None d)) = (if state i = DELETED then None else Some i)"
    using inst_getById_Some inst_getAll_mem by blast
  moreover have "snd (state_job now None d) = map (\<lambda>i. new_command None i STATE) (filter (\<lambda>i. state i \<noteq> DELETED) (inst_getAll d))"
    by (simp add: state_job_def state_job_instances_def Let_def)
  ultimately show ?thesis by (simp add: new_command_def o_def list_all_iff)
qed

theorem state_job_outcome_witness:
  "let d = sample_db\<lparr>t_inst := \<lparr>rows = [inst_alice\<lparr>state := DELETED\<rparr>, inst_bob], next_id = 3\<rparr>\<rparr>
   in inst_getById 1 (fst (state_job 5 None d)) = None \<and> inst_getById 2 (fst (state_job 5 None d)) = Some inst_bob \<and>
      map cmd_inst (snd (state_job 5 None d)) = [inst_bob]"
proof -
  let ?i = "inst_alice\<lparr>state := DELETED\<rparr>"
  let ?d = "sample_db\<lparr>t_inst := \<lparr>rows = [?i, inst_bob], next_id = 3\<rparr>\<rparr>"
  have t: "table_ok inst_id (t_inst ?d)" by (simp add: table_ok_def)
  have g: "inst_getById 1 ?d = Some ?i" "inst_getById 2 ?d = Some inst_bob" "inst_getAll ?d = [?i, inst_bob]"
    by (simp_all add: inst_getById_def inst_getAll_def live_def) (simp_all add: sample_insts)
  have l: "loaded i ?d" if "i \<in> set (inst_getAll ?d)" for i
  proof -
    have "i = ?i \<or> i = inst_bob" using that unfolding g(3) by simp
    then show ?thesis using g(1,2) by (auto simp: loaded_def) (auto simp: sample_insts)
  qed
  have s: "state ?i = DELETED" "state inst_bob \<noteq> DELETED" by (simp_all add: sample_insts)
  note o = state_job_outcome [OF t l, of 5]
  have "inst_getById 1 (fst (state_job 5 None ?d)) = None" using o g(1) s(1) by simp
  moreover have "inst_getById 2 (fst (state_job 5 None ?d)) = Some inst_bob" using o g(2) s(2) by simp
  moreover have "map cmd_inst (snd (state_job 5 None ?d)) = [inst_bob]" using o unfolding g(3) using s by simp
  ultimately show ?thesis unfolding Let_def by blast
qed

section \<open>Updating security groups\<close>

lemma equal_groups_mset: "equalSecurityGroups xs ys \<longleftrightarrow> mset xs = mset ys"
proof
  assume "equalSecurityGroups xs ys"
  then have "sort xs = sort ys" by (simp add: equalSecurityGroups_def split: if_splits)
  then have "mset (sort xs) = mset (sort ys)" by (rule arg_cong)
  then show "mset xs = mset ys" unfolding mset_sort .
next
  assume m: "mset xs = mset ys"
  have "sort ys = sort xs" by (rule properties_for_sort) (simp_all only: mset_sort m sorted_sort)
  then show "equalSecurityGroups xs ys" using mset_eq_length [OF m] by (simp only: equalSecurityGroups_def if_False not_not simp_thms)
qed

definition groups_of :: "(inst \<Rightarrow> string list) \<Rightarrow> date \<Rightarrow> db \<Rightarrow> inst \<Rightarrow> string list" where
  "groups_of custom now d i =
     (case getAllSecurityGroupNamesForInstance custom now i d of Inl e \<Rightarrow> [] | Inr gs \<Rightarrow> gs)"

definition groups_changed :: "(inst \<Rightarrow> string list) \<Rightarrow> date \<Rightarrow> db \<Rightarrow> inst \<Rightarrow> bool" where
  "groups_changed custom now d i \<longleftrightarrow> mset (security_groups i) \<noteq> mset (groups_of custom now d i)"

lemma names_defined: "getAllSecurityGroupNamesForInstance custom now i d = Inl e \<longleftrightarrow> getOwner i = None \<and> e = NullPointer"
  by (auto simp: getAllSecurityGroupNamesForInstance_def Let_def split: option.splits)

lemma groups_loop:
  "for_each (groups_step custom now d) is cs =
     (if list_all (\<lambda>i. getOwner i \<noteq> None) is then None else Some NullPointer,
      cs @ map (\<lambda>i. new_command None (sort_groups (groups_of custom now d i) i) UPDATE_SECURITY_GROUPS)
             (filter (groups_changed custom now d) (takeWhile (\<lambda>i. getOwner i \<noteq> None) is)))"
proof (induction "is" arbitrary: cs)
  case (Cons i "is")
  show ?case
  proof (cases "getAllSecurityGroupNamesForInstance custom now i d")
    case (Inl e)
    then show ?thesis using names_defined [of custom now i d e] by (simp add: groups_step_def)
  next
    case (Inr gs)
    then have "getOwner i \<noteq> None" using names_defined [of custom now i d NullPointer] by auto
    then show ?thesis using Inr Cons.IH
      by (simp add: groups_step_def groups_changed_def groups_of_def equal_groups_mset)
  qed
qed simp

text \<open>C14: A command to update the groups is created for exactly those instances whose stored groups are not the computed ones in
  some order. An instance without an owner ends the job, and those after it are not looked at.
\<close>

theorem groups_job_exact:
  "groups_job custom now d =
     (if list_all (\<lambda>i. getOwner i \<noteq> None) (inst_getAll d) then None else Some NullPointer,
      map (\<lambda>i. new_command None (sort_groups (groups_of custom now d i) i) UPDATE_SECURITY_GROUPS)
        (filter (groups_changed custom now d) (takeWhile (\<lambda>i. getOwner i \<noteq> None) (inst_getAll d))))"
  by (simp add: groups_job_def groups_loop)

section \<open>Removing servers\<close>

text \<open>The servers of a cloud: \<open>server k s w\<close> is the name of the server \<open>s\<close> of client \<open>k\<close>, if there is one.\<close>

definition cloud_laws :: "(ident \<Rightarrow> string \<Rightarrow> 'w \<Rightarrow> string option) \<Rightarrow> 'w cloud_client \<Rightarrow> bool" where
  "cloud_laws server c \<longleftrightarrow>
     (\<forall>w xs x. p_instanceIdentifiers (cc_provider c) w = Inr (Some xs) \<longrightarrow> x \<in> set xs \<longrightarrow>
        server (cc_id c) (cid_id x) w = Some (cid_name x)) \<and>
     (\<forall>w s k t. k \<noteq> cc_id c \<or> t \<noteq> s \<longrightarrow> server k t (snd (p_deleteInstance (cc_provider c) s w)) = server k t w)"

lemma logged_snd: "snd (logged r) = snd r"
  by (auto simp: logged_def split: prod.splits option.splits exn.splits)

lemma cleanup_client_keeps:
  assumes "cloud_laws server c" "k \<noteq> cc_id c \<or> (\<exists>i \<in> set is. compute_id i = Some s) \<or>
      (\<forall>n. server k s w = Some n \<longrightarrow> \<not> starts_with n (cc_server_name_prefix c))"
  shows "server k s (snd (cleanup_client (c, is) w)) = server k s w"
proof (cases "p_instanceIdentifiers (cc_provider c) w")
  case (Inr ys)
  show ?thesis
  proof (cases ys)
    case (Some xs)
    have "server k s (snd (for_each (\<lambda>x. p_deleteInstance (cc_provider c) (cid_id x)) (zombies c is xs) w)) = server k s w"
    proof (rule for_each_invariant [of "\<lambda>v. server k s v = server k s w"])
      fix x v assume x: "x \<in> set (zombies c is xs)" and v: "server k s v = server k s w"
      have "k \<noteq> cc_id c \<or> s \<noteq> cid_id x"
        using x assms Inr Some unfolding zombies_def cloud_laws_def by (auto simp: list_all_iff)
      then show "server k s (snd (p_deleteInstance (cc_provider c) (cid_id x) v)) = server k s w"
        using assms(1) v unfolding cloud_laws_def by metis
    qed simp
    then show ?thesis using Inr Some by (simp add: cleanup_client_def logged_snd)
  qed (use Inr in \<open>simp add: cleanup_client_def logged_snd\<close>)
qed (simp add: cleanup_client_def logged_snd)

text \<open>C15: Where the clouds are separate from each other, the job leaves every server that belongs to a live instance, and every server
  whose name does not start with the prefix of its cloud, whatever requests fail on the way.
\<close>

theorem cleanup_spares_known_servers:
  assumes "\<And>c. c \<in> set (gateway_getAll g) \<Longrightarrow> cloud_laws server c" "distinct (map cc_id (gateway_getAll g))"
    and "c \<in> set (gateway_getAll g)"
    and "(\<exists>i \<in> set (inst_getAll d). served_by g c i \<and> compute_id i = Some s) \<or>
      (\<forall>n. server (cc_id c) s w = Some n \<longrightarrow> \<not> starts_with n (cc_server_name_prefix c))"
  shows "server (cc_id c) s (snd (cleanup_job g d w)) = server (cc_id c) s w"
proof (cases "getAllByCloud g d")
  case (Inr m)
  then have m: "m = map (\<lambda>c. (c, filter (served_by g c) (inst_getAll d))) (gateway_getAll g)"
    by (auto simp: getAllByCloud_def Let_def split: if_splits)
  have "server (cc_id c) s (snd (for_each cleanup_client m w)) = server (cc_id c) s w"
  proof (rule for_each_invariant [of "\<lambda>v. server (cc_id c) s v = server (cc_id c) s w"])
    fix x v assume x: "x \<in> set m" and v: "server (cc_id c) s v = server (cc_id c) s w"
    obtain c' where c': "c' \<in> set (gateway_getAll g)" "x = (c', filter (served_by g c') (inst_getAll d))" using x m by auto
    have same: "cc_id c' = cc_id c \<Longrightarrow> c' = c" using assms(2,3) c'(1) by (metis distinct_map inj_onD)
    have known: "\<exists>i \<in> set (filter (served_by g c) (inst_getAll d)). compute_id i = Some s"
      if "\<exists>i \<in> set (inst_getAll d). served_by g c i \<and> compute_id i = Some s"
      using that by (simp only: set_filter mem_Collect_eq bex_simps) blast
    have "cc_id c \<noteq> cc_id c' \<or> (\<exists>i \<in> set (filter (served_by g c') (inst_getAll d)). compute_id i = Some s) \<or>
        (\<forall>n. server (cc_id c) s v = Some n \<longrightarrow> \<not> starts_with n (cc_server_name_prefix c'))"
    proof (cases "cc_id c' = cc_id c")
      case True
      then have e: "c' = c" by (rule same)
      show ?thesis unfolding e v using assms(4) known by argo
    qed simp
    from cleanup_client_keeps [OF assms(1) [OF c'(1)] this] show "server (cc_id c) s (snd (cleanup_client x v)) = server (cc_id c) s w"
      unfolding c'(2) v .
  qed simp
  then show ?thesis using Inr by (simp add: cleanup_job_def)
qed (simp add: cleanup_job_def)

text \<open>A cloud with the servers of the sample: that of an instance, one of another name, and one that no instance knows.\<close>

definition listed_server :: "ident \<Rightarrow> string \<Rightarrow> (string \<times> string) list \<Rightarrow> string option" where
  "listed_server k s w = (if k = 1 then map_of w s else None)"

definition listed_client :: "(string \<times> string) list cloud_client" where
  "listed_client = \<lparr>cc_id = 1, cc_name = ''c'', cc_type = ''list'',
     cc_provider = null_provider
       \<lparr>p_instanceIdentifiers := \<lambda>w. Inr (Some (map (\<lambda>s. \<lparr>cid_id = s, cid_name = the (map_of w s)\<rparr>) (map fst w))),
        p_deleteInstance := \<lambda>s w. (None, filter (\<lambda>x. fst x \<noteq> s) w)\<rparr>,
     cc_server_name_prefix = ''VISA'', cc_visible = True\<rparr>"

lemma map_of_filter_other: "t \<noteq> s \<Longrightarrow> map_of (filter (\<lambda>x. fst x \<noteq> s) w) t = map_of w t"
  by (induction w) auto

lemma map_of_listed: "(s, n) \<in> set w \<Longrightarrow> map_of w s = Some (the (map_of w s))"
  by (induction w) auto

lemma listed_laws: "cloud_laws listed_server listed_client"
  by (auto simp: cloud_laws_def listed_client_def listed_server_def null_provider_def map_of_filter_other
      intro: map_of_listed)

theorem cleanup_spares_known_servers_witness:
  "let g = \<lparr>gw_default = Some listed_client, gw_clients = [(1, listed_client)]\<rparr>;
       w = [(''compute-1'', ''VISA-1''), (''other'', ''WEB-1''), (''lost'', ''VISA-9'')]
   in listed_server 1 ''compute-1'' (snd (cleanup_job g sample_db w)) = Some ''VISA-1'' \<and>
      listed_server 1 ''other'' (snd (cleanup_job g sample_db w)) = Some ''WEB-1''"
proof -
  let ?g = "\<lparr>gw_default = Some listed_client, gw_clients = [(1, listed_client)]\<rparr>"
  let ?w = "[(''compute-1'', ''VISA-1''), (''other'', ''WEB-1''), (''lost'', ''VISA-9'')]"
  have c: "cc_id listed_client = 1" "cc_server_name_prefix listed_client = ''VISA''" by (simp_all add: listed_client_def)
  have a: "gateway_getAll ?g = [listed_client]" by (simp add: gateway_getAll_def)
  have l: "c \<in> set (gateway_getAll ?g) \<Longrightarrow> cloud_laws listed_server c" for c using listed_laws a by simp
  have d: "distinct (map cc_id (gateway_getAll ?g))" "listed_client \<in> set (gateway_getAll ?g)" using a by simp_all
  have "served_by ?g listed_client inst_alice"
    by (simp add: served_by_def getCloudId_def plan_cloud_id_def image_cloud_id_def getCloudClient_def client_equals_def
        sample_insts sample_plan_def sample_image_def)
  moreover have "inst_alice \<in> set (inst_getAll sample_db)" "compute_id inst_alice = Some ''compute-1''"
    by (simp_all add: inst_getAll_def sample_db_def live_def) (simp_all add: sample_insts)
  ultimately have "\<exists>i \<in> set (inst_getAll sample_db). served_by ?g listed_client i \<and> compute_id i = Some ''compute-1''" by blast
  then have "listed_server (cc_id listed_client) ''compute-1'' (snd (cleanup_job ?g sample_db ?w)) =
      listed_server (cc_id listed_client) ''compute-1'' ?w"
    by (intro cleanup_spares_known_servers [OF l d]) auto
  moreover have "listed_server (cc_id listed_client) ''other'' (snd (cleanup_job ?g sample_db ?w)) =
      listed_server (cc_id listed_client) ''other'' ?w"
  proof (intro cleanup_spares_known_servers [OF l d] disjI2)
    have "listed_server (cc_id listed_client) ''other'' ?w = Some ''WEB-1''" by (simp add: c listed_server_def)
    moreover have "\<not> starts_with ''WEB-1'' (cc_server_name_prefix listed_client)" by (simp add: c starts_with_def)
    ultimately show "\<forall>n. listed_server (cc_id listed_client) ''other'' ?w = Some n \<longrightarrow>
        \<not> starts_with n (cc_server_name_prefix listed_client)" by (metis option.inject)
  qed
  ultimately show ?thesis unfolding Let_def by (simp add: c listed_server_def)
qed

text \<open>The prefix is compared without the hyphen that follows it in the name of a server.\<close>

lemma longer_prefixes_are_zombies:
  "x \<in> set xs \<Longrightarrow> list_all (\<lambda>i. compute_id i \<noteq> Some (cid_id x)) is \<Longrightarrow>
   cid_name x = cc_server_name_prefix c @ ''-TEST-1'' \<Longrightarrow> x \<in> set (zombies c is xs)"
  by (simp add: zombies_def starts_with_def)

section \<open>Old tokens\<close>

lemma at_delete_rows: "rows (t_token (at_delete x d)) = filter (\<lambda>t. at_id t \<noteq> at_id x) (rows (t_token d))"
  by (simp add: at_delete_def remove_row_def)

lemma at_delete_fold: "rows (t_token (fold at_delete xs d)) = filter (\<lambda>t. at_id t \<notin> at_id ` set xs) (rows (t_token d))"
proof (induction xs arbitrary: d)
  case (Cons x xs)
  have "(\<lambda>t. at_id t \<noteq> at_id x \<and> at_id t \<notin> at_id ` set xs) = (\<lambda>t. at_id t \<notin> at_id ` set (x # xs))" by auto
  then show ?case using Cons.IH [of "at_delete x d"] by (simp add: at_delete_rows)
qed simp

text \<open>Exactly the tokens created more than half a minute ago are removed.\<close>

theorem token_job_exact:
  assumes "table_ok at_id (t_token d)"
  shows "rows (t_token (token_job now d)) = filter (\<lambda>t. \<not> token_expired now 30 t) (rows (t_token d))"
proof -
  have "x = y" if "x \<in> set (rows (t_token d))" "y \<in> set (rows (t_token d))" "at_id x = at_id y" for x y
    using assms that by (metis table_ok_def distinct_map inj_onD)
  then show ?thesis unfolding token_job_def at_delete_fold at_getAll_def by (intro filter_cong) auto
qed


theorem token_job_exact_witness:
  "let t = \<lambda>n c. \<lparr>created_at = Some c, updated_at = None, at_id = Some n, at_token = ''t'', at_user = alice, at_inst = 1\<rparr>;
       d = sample_db\<lparr>t_token := \<lparr>rows = [t 1 0, t 2 50000], next_id = 3\<rparr>\<rparr>
   in rows (t_token (token_job 60000 d)) = [t 2 50000]"
proof -
  let ?t = "\<lambda>n c. \<lparr>created_at = Some c, updated_at = None, at_id = Some n, at_token = ''t'', at_user = alice, at_inst = 1\<rparr>"
  let ?d = "sample_db\<lparr>t_token := \<lparr>rows = [?t 1 0, ?t 2 50000], next_id = 3\<rparr>\<rparr>"
  have "table_ok at_id (t_token ?d)" by (simp add: table_ok_def)
  from token_job_exact [OF this, of 60000] show ?thesis by (simp add: token_expired_def Let_def)
qed

section \<open>Running pending commands\<close>

lemma submit_table:
  "\<exists>s \<in> {QUEUED, TERMINATED}. q_table (submit now c st) = snd (command_save now (c\<lparr>cmd_state := s\<rparr>) (q_table st))"
  by (auto simp: submit_def queue_command_def set_command_state_def run_future_def Let_def split: option.splits prod.splits if_splits)

definition has_row :: "qm \<Rightarrow> command \<Rightarrow> bool" where
  "has_row st c \<longleftrightarrow> cmd_user c \<noteq> None \<and> (\<exists>n. cmd_id c = Some n \<and> find_row cmd_id n (q_table st) \<noteq> None)"

lemma submit_rows:
  assumes "has_row st c"
  shows "r \<in> set (rows (q_table (submit now c st))) \<Longrightarrow>
      r \<in> set (rows (q_table st)) \<and> cmd_id r \<noteq> cmd_id c \<or> cmd_state r \<in> {QUEUED, TERMINATED}"
    "has_row st c' \<Longrightarrow> has_row (submit now c st) c'"
proof -
  obtain n z where n: "cmd_id c = Some n" "find_row cmd_id n (q_table st) = Some z" "cmd_user c \<noteq> None"
    using assms by (auto simp: has_row_def)
  obtain s where s: "s \<in> {QUEUED, TERMINATED}" "q_table (submit now c st) = snd (command_save now (c\<lparr>cmd_state := s\<rparr>) (q_table st))"
    using submit_table by blast
  let ?c = "c\<lparr>cmd_state := s\<rparr>"
  have t: "q_table (submit now c st) =
      snd (save_row cmd_id (\<lambda>n x. x\<lparr>cmd_id := Some n\<rparr>) on_create on_update now ?c (q_table st))"
    using n(3) s(2) by (auto simp: command_save_def split: prod.splits)
  show "has_row st c' \<Longrightarrow> has_row (submit now c st) c'"
    unfolding has_row_def t using save_row_keeps_rows by blast
  have "rows (q_table (submit now c st)) = map (\<lambda>r. if cmd_id r = Some n then on_update now ?c else r) (rows (q_table st))"
    unfolding t using commands.save_row_same [OF n(2), of ?c now] n(1) by simp
  then show "r \<in> set (rows (q_table (submit now c st))) \<Longrightarrow>
      r \<in> set (rows (q_table st)) \<and> cmd_id r \<noteq> cmd_id c \<or> cmd_state r \<in> {QUEUED, TERMINATED}"
    using n(1) s(1) by (auto simp: on_update_def split: if_splits)
qed

lemma submit_all:
  "list_all (has_row st) cs \<Longrightarrow>
    (\<forall>r \<in> set (rows (q_table (fold (submit now) cs st))).
      r \<in> set (rows (q_table st)) \<and> cmd_id r \<notin> cmd_id ` set cs \<or> cmd_state r \<in> {QUEUED, TERMINATED}) \<and>
    (qreachable N st \<longrightarrow> qreachable N (fold (submit now) cs st))"
proof (induction cs arbitrary: st)
  case (Cons c cs)
  have c: "has_row st c" "list_all (has_row (submit now c st)) cs"
    using Cons.prems submit_rows(2) [of st c] by (auto simp: list_all_iff)
  have "stored c st" using c(1) by (auto simp: stored_def has_row_def)
  then have "qreachable N st \<longrightarrow> qreachable N (submit now c st)" by (blast intro: qreachable.step qstep.submit)
  then show ?case using Cons.IH [OF c(2)] submit_rows(1) [OF c(1), of _ now] by fastforce
qed simp

text \<open>C13: When the job has handed the pending commands of users to the manager, none is pending any more, and the manager is in a state
  that it can reach, so that all its invariants hold.
\<close>

theorem executor_leaves_nothing_pending:
  assumes "qreachable N st" "t_command d = q_table st" "table_ok cmd_id (t_command d)"
    and "list_all (\<lambda>c. cmd_user c \<noteq> None) (rows (t_command d))"
  shows "qreachable N (executor_job now d st) \<and>
    list_all (\<lambda>c. cmd_state c \<noteq> PENDING) (rows (q_table (executor_job now d st)))"
proof -
  have ids: "cmd_id (load_command d c) = cmd_id c" "cmd_user (load_command d c) = cmd_user c" for c
    by (simp_all add: load_command_def split: option.splits)
  have p: "set (cmd_getAllPending d) = load_command d ` {c \<in> set (rows (t_command d)). cmd_state c = PENDING}"
    by (simp add: cmd_getAllPending_def cmd_select_def)
  have "has_row st c" if c: "c \<in> set (rows (t_command d))" for c
  proof -
    obtain n where "cmd_id c = Some n" using assms(3) c by (auto simp: table_ok_def)
    then show ?thesis using commands.find_row_mem [OF assms(3) c] assms(2,4) c by (auto simp: has_row_def list_all_iff)
  qed
  then have h: "list_all (has_row st) (cmd_getAllPending d)" using p ids by (auto simp: list_all_iff has_row_def)
  have "cmd_state r \<noteq> PENDING" if r: "r \<in> set (rows (q_table (executor_job now d st)))" for r
  proof
    assume pend: "cmd_state r = PENDING"
    then have "r \<in> set (rows (t_command d))" "cmd_id r \<notin> cmd_id ` set (cmd_getAllPending d)"
      using submit_all [OF h, of now N] r assms(2) by (auto simp: executor_job_def)
    moreover from this have "load_command d r \<in> set (cmd_getAllPending d)" using pend p by simp
    ultimately show False using ids(1) by (metis imageI)
  qed
  then show ?thesis using submit_all [OF h, of now N] assms(1) by (simp add: executor_job_def list_all_iff)
qed


theorem executor_leaves_nothing_pending_witness:
  "let c = (new_command (Some alice) inst_alice START)\<lparr>cmd_id := Some 1\<rparr>; t = \<lparr>rows = [c], next_id = 2\<rparr>
   in list_all (\<lambda>c. cmd_state c \<noteq> PENDING) (rows (q_table (executor_job 5 (sample_db\<lparr>t_command := t\<rparr>) (q_init t))))"
proof -
  let ?c = "(new_command (Some alice) inst_alice START)\<lparr>cmd_id := Some 1\<rparr>"
  let ?t = "\<lparr>rows = [?c], next_id = 2\<rparr>"
  have t: "table_ok cmd_id ?t" by (simp add: table_ok_def)
  have "qreachable 1 (q_init ?t)" by (rule qreachable.init [OF t])
  moreover have "t_command (sample_db\<lparr>t_command := ?t\<rparr>) = q_table (q_init ?t)" by (simp add: q_init_def)
  moreover have "list_all (\<lambda>c. cmd_user c \<noteq> None) (rows (t_command (sample_db\<lparr>t_command := ?t\<rparr>)))"
    by (simp add: new_command_def)
  ultimately show ?thesis
    using executor_leaves_nothing_pending [of 1 "q_init ?t" "sample_db\<lparr>t_command := ?t\<rparr>" 5] t by (simp add: Let_def)
qed

end
