(* ===== verification/Plans.thy ===== *)
theory Plans
  imports Account_Controller
begin

text \<open>
  The catalogue that administrators maintain: plans, that is pairs of an image and a flavour, the limits that keep a
  flavour to some instruments and roles, and the queries that say which plans a user may choose. A row names the rows
  it refers to by their identifiers, as foreign keys do. The join of a query is the list of its rows; an outer join
  without a match gives one row with nothing in it, and a comparison with nothing does not hold.
\<close>

section \<open>The catalogue\<close>

record plan_row = timestampable +
  pl_id :: "ident option"
  pl_flavour :: ident
  pl_image :: ident
  pl_preset :: bool
  pl_deleted_at :: "date option"

record flavour_limit =
  lim_id :: "ident option"
  lim_flavour :: ident
  lim_object :: ident
  lim_type :: string

record catalogue =
  ca_plans :: "plan_row table"
  ca_images :: "image table"
  ca_flavours :: "flavour table"
  ca_clouds :: "cloud_provider_configuration list"
  ca_protocols :: "image_protocol list"
  ca_limits :: "flavour_limit table"
  ca_instruments :: "ident list"
  ca_experiments :: "(string \<times> ident) list"
  ca_scientists :: "(ident \<times> string) list"
  ca_roles :: "role table"
  ca_user_roles :: "(string \<times> ident) list"

text \<open>An error of a request of an administrator.\<close>

datatype admin_error =
    EntityNotFound string
  | InvalidInput string
  | Failure exn




interpretation limits: entity lim_id "\<lambda>n x. x\<lparr>lim_id := Some n\<rparr>" "\<lambda>_ x. x" "\<lambda>_ x. x"
  by unfold_locales simp_all

section \<open>PlanRepository\<close>

definition cloud_row :: "catalogue \<Rightarrow> cloud_provider_configuration option \<Rightarrow> cloud_provider_configuration option" where
  "cloud_row d c = (case c of None \<Rightarrow> None | Some x \<Rightarrow> List.find (\<lambda>y. cpc_id y = cpc_id x) (ca_clouds d))"

definition cloud_live :: "catalogue \<Rightarrow> cloud_provider_configuration option \<Rightarrow> bool" where
  "cloud_live d c \<longleftrightarrow> (case cloud_row d c of None \<Rightarrow> True | Some x \<Rightarrow> cpc_deleted_at x = None)"

definition plan_image_row :: "catalogue \<Rightarrow> plan_row \<Rightarrow> image option" where
  "plan_image_row d p = find_row img_id (pl_image p) (ca_images d)"

definition plan_flavour_row :: "catalogue \<Rightarrow> plan_row \<Rightarrow> flavour option" where
  "plan_flavour_row d p = find_row fl_id (pl_flavour p) (ca_flavours d)"

definition plan_live :: "catalogue \<Rightarrow> plan_row \<Rightarrow> bool" where
  "plan_live d p \<longleftrightarrow>
     (case plan_image_row d p of None \<Rightarrow> False | Some im \<Rightarrow> \<not> img_deleted im \<and> cloud_live d (img_cloud im)) \<and>
     (case plan_flavour_row d p of None \<Rightarrow> False | Some f \<Rightarrow> \<not> fl_deleted f) \<and>
     pl_deleted_at p = None"

definition plan_visible :: "catalogue \<Rightarrow> plan_row \<Rightarrow> bool" where
  "plan_visible d p \<longleftrightarrow> plan_live d p \<and>
     (case plan_image_row d p of None \<Rightarrow> False
      | Some im \<Rightarrow> img_visible im \<and> (case cloud_row d (img_cloud im) of None \<Rightarrow> True | Some c \<Rightarrow> cpc_visible c))"


definition plan_getAllForAdmin :: "catalogue \<Rightarrow> plan_row list" where
  "plan_getAllForAdmin d = sort_key (\<lambda>p. id_key (pl_id p)) (filter (plan_live d) (rows (ca_plans d)))"

definition plan_getAll :: "catalogue \<Rightarrow> plan_row list" where
  "plan_getAll d = sort_key (\<lambda>p. id_key (pl_id p)) (filter (plan_visible d) (rows (ca_plans d)))"

definition left_join :: "('a \<Rightarrow> bool) \<Rightarrow> 'a list \<Rightarrow> 'a option list" where
  "left_join P xs = (let ys = filter P xs in if ys = [] then [None] else map Some ys)"

definition limit_join :: "string \<Rightarrow> catalogue \<Rightarrow> plan_row \<Rightarrow> flavour_limit option list" where
  "limit_join t d p = left_join (\<lambda>l. lim_flavour l = pl_flavour p \<and> lim_type l = t) (rows (ca_limits d))"

definition experiment_join :: "catalogue \<Rightarrow> flavour_limit option \<Rightarrow> (string \<times> ident) option list" where
  "experiment_join d l = left_join (\<lambda>e. map_option lim_object l = Some (snd e)) (ca_experiments d)"

definition scientist_join :: "catalogue \<Rightarrow> flavour_limit option \<Rightarrow> (ident \<times> string) option list" where
  "scientist_join d l = left_join (\<lambda>s. map_option lim_object l = Some (fst s)) (ca_scientists d)"

definition user_role_join :: "catalogue \<Rightarrow> flavour_limit option \<Rightarrow> (string \<times> ident) option list" where
  "user_role_join d l = left_join (\<lambda>ur. map_option lim_object l = Some (snd ur)) (ca_user_roles d)"

definition role_join :: "catalogue \<Rightarrow> (string \<times> ident) option \<Rightarrow> role option list" where
  "role_join d ur = left_join (\<lambda>r. ur \<noteq> None \<and> role_id r = map_option snd ur) (rows (ca_roles d))"

definition select_plans :: "(plan_row \<Rightarrow> bool) \<Rightarrow> catalogue \<Rightarrow> plan_row list" where
  "select_plans P d = sort_key (\<lambda>p. id_key (pl_id p)) (filter (\<lambda>p. plan_visible d p \<and> P p) (rows (ca_plans d)))"

definition plan_getAllForInstrumentIds :: "ident list \<Rightarrow> catalogue \<Rightarrow> plan_row list" where
  "plan_getAllForInstrumentIds ns d =
     select_plans (\<lambda>p. list_ex (\<lambda>l. case l of None \<Rightarrow> True | Some x \<Rightarrow> lim_object x \<in> set ns)
       (limit_join ''INSTRUMENT'' d p)) d"

definition plan_getAllForExperimentIds :: "string list \<Rightarrow> catalogue \<Rightarrow> plan_row list" where
  "plan_getAllForExperimentIds es d =
     select_plans (\<lambda>p. list_ex (\<lambda>l. list_ex (\<lambda>e. (case e of None \<Rightarrow> False | Some x \<Rightarrow> fst x \<in> set es) \<or> l = None)
       (experiment_join d l)) (limit_join ''INSTRUMENT'' d p)) d"

text \<open>The conditions of a row: the role is not deleted, and the user or an experiment matches, or nothing limits the flavour.\<close>

definition row_holds :: "string \<Rightarrow> string list \<Rightarrow> flavour_limit option \<Rightarrow> (string \<times> ident) option \<Rightarrow> (ident \<times> string) option \<Rightarrow>
    flavour_limit option \<Rightarrow> (string \<times> ident) option \<Rightarrow> role option \<Rightarrow> bool" where
  "row_holds u es ifl e ir rfl ur r \<longleftrightarrow>
     (case r of None \<Rightarrow> True | Some x \<Rightarrow> group_deleted_at x = None) \<and>
     (map_option snd ir = Some u \<or> map_option fst ur = Some u \<or>
      (case e of None \<Rightarrow> False | Some x \<Rightarrow> fst x \<in> set es) \<or> (ifl = None \<and> rfl = None))"

definition user_rows :: "string \<Rightarrow> string list \<Rightarrow> (flavour_limit option \<Rightarrow> (string \<times> ident) option list) \<Rightarrow>
    catalogue \<Rightarrow> plan_row \<Rightarrow> bool" where
  "user_rows u es ej d p \<longleftrightarrow>
     list_ex (\<lambda>ifl. list_ex (\<lambda>e. list_ex (\<lambda>ir. list_ex (\<lambda>rfl. list_ex (\<lambda>ur. list_ex (\<lambda>r. row_holds u es ifl e ir rfl ur r)
       (role_join d ur)) (user_role_join d rfl)) (limit_join ''ROLE'' d p)) (scientist_join d ifl)) (ej ifl))
       (limit_join ''INSTRUMENT'' d p)"

definition plan_getAllForUserAndExperimentIds :: "string \<Rightarrow> string list \<Rightarrow> catalogue \<Rightarrow> plan_row list" where
  "plan_getAllForUserAndExperimentIds u es d = select_plans (user_rows u es (experiment_join d) d) d"

text \<open>
  The query for all instruments has no experiments. The method without a user runs it too, where nothing is bound to the
  parameter of the query for the user, which fails.
\<close>

definition getAllForAllInstruments :: "catalogue \<Rightarrow> exn + plan_row list" where
  "getAllForAllInstruments d = Inl (IllegalArgument ''Named parameter not bound : user'')"

definition getAllForUserAndAllInstruments :: "string option \<Rightarrow> catalogue \<Rightarrow> exn + plan_row list" where
  "getAllForUserAndAllInstruments u d =
     (case u of None \<Rightarrow> getAllForAllInstruments d
      | Some v \<Rightarrow> Inr (select_plans (user_rows v [] (\<lambda>_. [None]) d) d))"

definition getAllForInstruments :: "ident list \<Rightarrow> catalogue \<Rightarrow> exn + plan_row list" where
  "getAllForInstruments ns d = (if ns = [] then getAllForAllInstruments d else Inr (plan_getAllForInstrumentIds ns d))"

definition getAllForExperiments :: "string list \<Rightarrow> catalogue \<Rightarrow> exn + plan_row list" where
  "getAllForExperiments es d = (if es = [] then getAllForAllInstruments d else Inr (plan_getAllForExperimentIds es d))"

definition getAllForUserAndExperiments :: "string option \<Rightarrow> string list \<Rightarrow> catalogue \<Rightarrow> exn + plan_row list" where
  "getAllForUserAndExperiments u es d =
     (if es = [] then getAllForUserAndAllInstruments u d
      else case u of None \<Rightarrow> getAllForExperiments es d | Some v \<Rightarrow> Inr (plan_getAllForUserAndExperimentIds v es d))"

section \<open>PlanController\<close>

text \<open>The identifiers of the experiments are those of the query parameter, read and split; an unknown one is left out.\<close>

definition plan_key :: "catalogue \<Rightarrow> plan_row \<Rightarrow> rat \<times> int" where
  "plan_key d p = (case plan_flavour_row d p of None \<Rightarrow> (0, 0) | Some f \<Rightarrow> (fl_cpu f, fl_memory f))"

definition plans_request :: "(string \<Rightarrow> bool) \<Rightarrow> date \<Rightarrow> user \<Rightarrow> string list option \<Rightarrow> catalogue \<Rightarrow> exn + plan_row list" where
  "plans_request known now u es d =
     and_then
       (if hasRole now u ADMIN_ROLE then Inr (plan_getAllForAdmin d)
        else case es of
          None \<Rightarrow> getAllForUserAndAllInstruments (Some (user_id u)) d
        | Some xs \<Rightarrow> getAllForUserAndExperiments (Some (user_id u)) (filter known xs) d)
       (\<lambda>ps. Inr (sort_key (plan_key d) ps))"

section \<open>MutationResolver: plans\<close>

definition image_getById :: "ident \<Rightarrow> catalogue \<Rightarrow> image option" where
  "image_getById n d =
     (case find_row img_id n (ca_images d) of None \<Rightarrow> None | Some i \<Rightarrow> if img_deleted i then None else Some i)"

definition flavour_getById :: "ident \<Rightarrow> catalogue \<Rightarrow> flavour option" where
  "flavour_getById n d =
     (case find_row fl_id n (ca_flavours d) of
        None \<Rightarrow> None
      | Some f \<Rightarrow> if \<not> fl_deleted f \<and> cloud_live d (fl_cloud f) then Some f else None)"

record plan_input =
  pin_image :: ident
  pin_flavour :: ident
  pin_preset :: bool

definition plan_save :: "date \<Rightarrow> plan_row \<Rightarrow> catalogue \<Rightarrow> catalogue" where
  "plan_save now p d =
     d\<lparr>ca_plans := snd (save_row pl_id (\<lambda>n x. x\<lparr>pl_id := Some n\<rparr>) on_create on_update now p (ca_plans d))\<rparr>"

definition reset_presets :: "date \<Rightarrow> catalogue \<Rightarrow> catalogue" where
  "reset_presets now d = fold (\<lambda>p. plan_save now (p\<lparr>pl_preset := False\<rparr>)) (plan_getAllForAdmin d) d"

definition createPlan :: "date \<Rightarrow> plan_input \<Rightarrow> catalogue \<Rightarrow> (admin_error + plan_row) \<times> catalogue" where
  "createPlan now x d =
     (case flavour_getById (pin_flavour x) d of
        None \<Rightarrow> (Inl (EntityNotFound ''Flavour not found for the given id''), d)
      | Some f \<Rightarrow> (case image_getById (pin_image x) d of
          None \<Rightarrow> (Inl (EntityNotFound ''Image not found for the given id''), d)
        | Some im \<Rightarrow>
            (let d1 = (if pin_preset x then reset_presets now d else d);
                 p = \<lparr>created_at = None, updated_at = None, pl_id = None, pl_flavour = pin_flavour x,
                      pl_image = pin_image x, pl_preset = pin_preset x, pl_deleted_at = None\<rparr>;
                 (p', t) = persist_row (\<lambda>n x. x\<lparr>pl_id := Some n\<rparr>) on_create now p (ca_plans d1)
             in (Inr p', d1\<lparr>ca_plans := t\<rparr>))))"



definition image_save :: "date \<Rightarrow> image \<Rightarrow> catalogue \<Rightarrow> catalogue" where
  "image_save now i d =
     d\<lparr>ca_images := snd (save_row img_id (\<lambda>n x. x\<lparr>img_id := Some n\<rparr>) on_create on_update now i (ca_images d))\<rparr>"




section \<open>MutationResolver: limits of flavours\<close>

definition limits_of :: "ident \<Rightarrow> string \<Rightarrow> catalogue \<Rightarrow> flavour_limit list" where
  "limits_of f t d =
     filter (\<lambda>l. lim_flavour l = f \<and> lim_type l = t \<and>
         (case find_row fl_id f (ca_flavours d) of None \<Rightarrow> False | Some x \<Rightarrow> \<not> fl_deleted x))
       (rows (ca_limits d))"

definition limit_delete :: "flavour_limit \<Rightarrow> catalogue \<Rightarrow> catalogue" where
  "limit_delete l d = d\<lparr>ca_limits := remove_row lim_id l (ca_limits d)\<rparr>"

definition limit_save :: "date \<Rightarrow> flavour_limit \<Rightarrow> catalogue \<Rightarrow> catalogue" where
  "limit_save now l d =
     d\<lparr>ca_limits := snd (save_row lim_id (\<lambda>n x. x\<lparr>lim_id := Some n\<rparr>) (\<lambda>_ x. x) (\<lambda>_ x. x) now l (ca_limits d))\<rparr>"

definition deleteFlavourLimits :: "flavour_limit list \<Rightarrow> catalogue \<Rightarrow> catalogue" where
  "deleteFlavourLimits ls d = fold limit_delete ls d"

definition createFlavourLimits :: "date \<Rightarrow> ident list \<Rightarrow> ident list \<Rightarrow> ident \<Rightarrow> string \<Rightarrow> catalogue \<Rightarrow> catalogue" where
  "createFlavourLimits now ns valid f t d =
     fold (\<lambda>n d. if n \<in> set valid then limit_save now \<lparr>lim_id = None, lim_flavour = f, lim_object = n, lim_type = t\<rparr> d else d) ns d"

definition live_role_ids :: "catalogue \<Rightarrow> ident list" where
  "live_role_ids d = map (\<lambda>r. id_key (role_id r)) (filter (\<lambda>r. group_deleted_at r = None) (rows (ca_roles d)))"

definition update_limits_of :: "date \<Rightarrow> string \<Rightarrow> ident list \<Rightarrow> ident list \<Rightarrow> ident \<Rightarrow> catalogue \<Rightarrow> catalogue" where
  "update_limits_of now t ns valid f d =
     (let current = limits_of f t d;
          d1 = deleteFlavourLimits (filter (\<lambda>l. lim_object l \<notin> set ns) current) d
      in createFlavourLimits now (filter (\<lambda>n. n \<notin> set (map lim_object current)) ns) valid f t d1)"

definition updateFlavourLimits :: "date \<Rightarrow> ident \<Rightarrow> ident list \<Rightarrow> ident list \<Rightarrow> catalogue \<Rightarrow> catalogue" where
  "updateFlavourLimits now f is rs d =
     (let d1 = update_limits_of now ''INSTRUMENT'' is (ca_instruments d) f d
      in update_limits_of now ''ROLE'' rs (live_role_ids d1) f d1)"

section \<open>MutationResolver: images and flavours\<close>

text \<open>Whether a cloud has an image or a flavour is asked of the cloud, here an argument.\<close>

definition validate_object :: "'w gateway \<Rightarrow> ('w cloud_client \<Rightarrow> string \<Rightarrow> exn + bool) \<Rightarrow> string \<Rightarrow> ident option \<Rightarrow> string \<Rightarrow> admin_error option" where
  "validate_object g has what cid s =
     (case getCloudClient g cid of
        None \<Rightarrow> Some (InvalidInput ''Invalid cloud Id'')
      | Some c \<Rightarrow> (case has c s of
          Inl (CloudException m) \<Rightarrow> Some (InvalidInput ''Error accessing Cloud'')
        | Inl e \<Rightarrow> Some (Failure e)
        | Inr False \<Rightarrow> Some (InvalidInput (''Invalid Cloud '' @ what @ '' Id''))
        | Inr True \<Rightarrow> None))"

definition getCloudProviderConfiguration :: "'w gateway \<Rightarrow> ident option \<Rightarrow> catalogue \<Rightarrow> admin_error + cloud_provider_configuration option" where
  "getCloudProviderConfiguration g cid d =
     (case cid of
        None \<Rightarrow> Inr None
      | Some n \<Rightarrow>
          if n > 0
          then (case getCloudClient g cid of
              None \<Rightarrow> Inl (Failure NullPointer)
            | Some c \<Rightarrow> Inr (List.find (\<lambda>x. cpc_deleted_at x = None \<and> cpc_id x = cc_id c) (ca_clouds d)))
          else Inr None)"

record image_input =
  iin_name :: string
  iin_version :: "string option"
  iin_description :: "string option"
  iin_icon :: "string option"
  iin_cloud :: "ident option"
  iin_compute_id :: string
  iin_visible :: bool
  iin_boot_command :: "string option"
  iin_autologin :: "string option"
  iin_protocols :: "ident list"

fun find_protocols :: "ident list \<Rightarrow> catalogue \<Rightarrow> admin_error + image_protocol list" where
  "find_protocols [] d = Inr []"
| "find_protocols (n # ns) d =
     (case List.find (\<lambda>p. ip_id p = Some n) (ca_protocols d) of
        None \<Rightarrow> Inl (EntityNotFound ''Protocol not found for the given id'')
      | Some p \<Rightarrow> and_then (find_protocols ns d) (\<lambda>ps. Inr (p # ps)))"

definition set_image :: "image_input \<Rightarrow> cloud_provider_configuration option \<Rightarrow> image_protocol list \<Rightarrow> image \<Rightarrow> image" where
  "set_image x c ps i =
     i\<lparr>img_name := iin_name x, img_version := iin_version x, img_description := iin_description x, img_icon := iin_icon x,
       img_cloud := c, img_compute_id := iin_compute_id x, img_visible := iin_visible x, img_boot_command := iin_boot_command x,
       img_autologin := iin_autologin x, img_protocols := ps\<rparr>"

definition new_image :: image where
  "new_image = \<lparr>created_at = None, updated_at = None, img_id = None, img_name = [], img_description = None, img_icon = None,
     img_compute_id = [], img_version = None, img_deleted = False, img_visible = False, img_boot_command = None,
     img_autologin = None, img_protocols = [], img_cloud = None\<rparr>"

text \<open>An image that is not found is a null reference in the update.\<close>

definition write_image :: "'w gateway \<Rightarrow> ('w cloud_client \<Rightarrow> string \<Rightarrow> exn + bool) \<Rightarrow> date \<Rightarrow> image_input \<Rightarrow> image option \<Rightarrow> catalogue \<Rightarrow>
    admin_error option \<times> catalogue" where
  "write_image g has now x i d =
     (case validate_object g has ''Image'' (iin_cloud x) (iin_compute_id x) of
        Some e \<Rightarrow> (Some e, d)
      | None \<Rightarrow> (case i of
          None \<Rightarrow> (Some (Failure NullPointer), d)
        | Some j \<Rightarrow>
            (case and_then (getCloudProviderConfiguration g (iin_cloud x) d) (\<lambda>c.
                 and_then (find_protocols (iin_protocols x) d) (\<lambda>ps. Inr (set_image x c ps j))) of
               Inl e \<Rightarrow> (Some e, d)
             | Inr k \<Rightarrow> (None, image_save now k d))))"


definition updateImage :: "'w gateway \<Rightarrow> ('w cloud_client \<Rightarrow> string \<Rightarrow> exn + bool) \<Rightarrow> date \<Rightarrow> ident \<Rightarrow> image_input \<Rightarrow> catalogue \<Rightarrow>
    admin_error option \<times> catalogue" where
  "updateImage g has now n x d = write_image g has now x (image_getById n d) d"



definition new_flavour :: flavour where
  "new_flavour = \<lparr>created_at = None, updated_at = None, fl_id = None, fl_name = [], fl_memory = 0, fl_cpu = 0,
     fl_compute_id = [], fl_deleted = False, fl_cloud = None\<rparr>"





section \<open>Who is offered which plan\<close>

lemma left_join_mem:
  "None \<in> set (left_join P xs) \<longleftrightarrow> (\<forall>x \<in> set xs. \<not> P x)"
  "Some y \<in> set (left_join P xs) \<longleftrightarrow> y \<in> set xs \<and> P y"
  by (auto simp: left_join_def Let_def filter_empty_conv)

lemma bex_option: "(\<exists>x \<in> S. P x) \<longleftrightarrow> (None \<in> S \<and> P None) \<or> (\<exists>y. Some y \<in> S \<and> P (Some y))"
  by (metis not_None_eq)

lemma left_join_ne: "\<exists>z. z \<in> set (left_join P xs)"
  by (cases "filter P xs") (auto simp: left_join_def Let_def)

definition limited :: "catalogue \<Rightarrow> string \<Rightarrow> plan_row \<Rightarrow> ident \<Rightarrow> bool" where
  "limited d t p n \<longleftrightarrow> (\<exists>l \<in> set (rows (ca_limits d)). lim_flavour l = pl_flavour p \<and> lim_type l = t \<and> lim_object l = n)"

definition role_deleted :: "catalogue \<Rightarrow> ident \<Rightarrow> bool" where
  "role_deleted d n \<longleftrightarrow> (\<exists>r \<in> set (rows (ca_roles d)). role_id r = Some n) \<and>
     (\<forall>r \<in> set (rows (ca_roles d)). role_id r = Some n \<longrightarrow> group_deleted_at r \<noteq> None)"

definition instrument_match :: "catalogue \<Rightarrow> string \<Rightarrow> string list \<Rightarrow> plan_row \<Rightarrow> bool" where
  "instrument_match d u es p \<longleftrightarrow> (\<exists>n. limited d ''INSTRUMENT'' p n \<and>
     ((n, u) \<in> set (ca_scientists d) \<or> (\<exists>e \<in> set es. (e, n) \<in> set (ca_experiments d))))"

definition role_match :: "catalogue \<Rightarrow> string \<Rightarrow> plan_row \<Rightarrow> bool" where
  "role_match d u p \<longleftrightarrow> (\<exists>n. limited d ''ROLE'' p n \<and> (u, n) \<in> set (ca_user_roles d) \<and> \<not> role_deleted d n)"

text \<open>Some role limit is for a role that is not deleted or that nobody has, or there is no role limit.\<close>

definition roles_pass :: "catalogue \<Rightarrow> plan_row \<Rightarrow> bool" where
  "roles_pass d p \<longleftrightarrow> (\<forall>n. \<not> limited d ''ROLE'' p n) \<or>
     (\<exists>n. limited d ''ROLE'' p n \<and> ((\<forall>v. (v, n) \<notin> set (ca_user_roles d)) \<or> \<not> role_deleted d n))"

definition offered :: "catalogue \<Rightarrow> string \<Rightarrow> string list \<Rightarrow> plan_row \<Rightarrow> bool" where
  "offered d u es p \<longleftrightarrow>
     (\<forall>n. \<not> limited d ''INSTRUMENT'' p n \<and> \<not> limited d ''ROLE'' p n) \<or>
     role_match d u p \<or> (instrument_match d u es p \<and> roles_pass d p)"

abbreviation live_role :: "role option \<Rightarrow> bool" where
  "live_role r \<equiv> (case r of None \<Rightarrow> True | Some x \<Rightarrow> group_deleted_at x = None)"

lemma role_join_live: "(\<exists>r \<in> set (role_join d ur). live_role r) \<longleftrightarrow> (case ur of None \<Rightarrow> True | Some x \<Rightarrow> \<not> role_deleted d (snd x))"
proof (cases ur)
  case None
  then have "None \<in> set (role_join d ur)" by (simp add: role_join_def left_join_mem)
  then show ?thesis using None by force
next
  case (Some x)
  have "None \<in> set (role_join d ur) \<longleftrightarrow> (\<forall>r \<in> set (rows (ca_roles d)). role_id r \<noteq> Some (snd x))"
    "Some r \<in> set (role_join d ur) \<longleftrightarrow> r \<in> set (rows (ca_roles d)) \<and> role_id r = Some (snd x)" for r
    using Some by (simp_all add: role_join_def left_join_mem)
  then have "(\<exists>r \<in> set (role_join d ur). live_role r) \<longleftrightarrow> \<not> role_deleted d (snd x)"
    unfolding role_deleted_def bex_option by auto
  then show ?thesis using Some by simp
qed

lemma role_rows_match:
  "(\<exists>rfl \<in> set (limit_join ''ROLE'' d p). \<exists>ur \<in> set (user_role_join d rfl). map_option fst ur = Some u \<and> (\<exists>r \<in> set (role_join d ur). live_role r))
    \<longleftrightarrow> role_match d u p"
proof
  assume "\<exists>rfl \<in> set (limit_join ''ROLE'' d p). \<exists>ur \<in> set (user_role_join d rfl). map_option fst ur = Some u \<and> (\<exists>r \<in> set (role_join d ur). live_role r)"
  then obtain rfl x where a: "rfl \<in> set (limit_join ''ROLE'' d p)" "Some x \<in> set (user_role_join d rfl)" "fst x = u" "\<not> role_deleted d (snd x)"
    unfolding role_join_live by fastforce
  from a(2) obtain l where l: "rfl = Some l" "lim_object l = snd x" "x \<in> set (ca_user_roles d)"
    by (cases rfl) (auto simp: user_role_join_def left_join_mem)
  then show "role_match d u p" using a by (auto simp: role_match_def limited_def limit_join_def left_join_mem)
next
  assume "role_match d u p"
  then obtain l where l: "l \<in> set (rows (ca_limits d))" "lim_flavour l = pl_flavour p" "lim_type l = ''ROLE''"
      "(u, lim_object l) \<in> set (ca_user_roles d)" "\<not> role_deleted d (lim_object l)"
    by (auto simp: role_match_def limited_def)
  have "Some l \<in> set (limit_join ''ROLE'' d p)" "Some (u, lim_object l) \<in> set (user_role_join d (Some l))"
    using l by (simp_all add: limit_join_def user_role_join_def left_join_mem)
  moreover have "\<exists>r \<in> set (role_join d (Some (u, lim_object l))). live_role r" using l(5) unfolding role_join_live by simp
  ultimately show "\<exists>rfl \<in> set (limit_join ''ROLE'' d p). \<exists>ur \<in> set (user_role_join d rfl). map_option fst ur = Some u \<and> (\<exists>r \<in> set (role_join d ur). live_role r)"
    by (metis option.simps(9) fst_conv)
qed

lemma role_rows_pass:
  "(\<exists>rfl \<in> set (limit_join ''ROLE'' d p). \<exists>ur \<in> set (user_role_join d rfl). \<exists>r \<in> set (role_join d ur). live_role r) \<longleftrightarrow> roles_pass d p"
proof -
  have l: "(\<exists>ur \<in> set (user_role_join d rfl). \<exists>r \<in> set (role_join d ur). live_role r) \<longleftrightarrow>
      (case rfl of None \<Rightarrow> True | Some l \<Rightarrow> (\<forall>v. (v, lim_object l) \<notin> set (ca_user_roles d)) \<or> \<not> role_deleted d (lim_object l))" for rfl
  proof (cases rfl)
    case None
    then have "None \<in> set (user_role_join d rfl)" by (simp add: user_role_join_def left_join_mem)
    then show ?thesis unfolding role_join_live using None by force
  next
    case (Some l)
    have n: "None \<in> set (user_role_join d rfl) \<longleftrightarrow> (\<forall>v. (v, lim_object l) \<notin> set (ca_user_roles d))"
      using Some by (auto simp: user_role_join_def left_join_mem)
    have s: "Some x \<in> set (user_role_join d rfl) \<longleftrightarrow> x \<in> set (ca_user_roles d) \<and> snd x = lim_object l" for x
      using Some by (auto simp: user_role_join_def left_join_mem)
    show ?thesis unfolding bex_option [of "set (user_role_join d rfl)"] role_join_live n s using Some by auto
  qed
  have "None \<in> set (limit_join ''ROLE'' d p) \<longleftrightarrow> (\<forall>n. \<not> limited d ''ROLE'' p n)"
    "(\<exists>l. Some l \<in> set (limit_join ''ROLE'' d p) \<and> P (lim_object l)) \<longleftrightarrow> (\<exists>n. limited d ''ROLE'' p n \<and> P n)" for P
    by (auto simp: limit_join_def limited_def left_join_mem)
  note j = this
  show ?thesis unfolding l roles_pass_def j(1) [symmetric] bex_option [of "set (limit_join ''ROLE'' d p)"]
    by (simp only: option.simps(4,5) simp_thms j(2) [of "\<lambda>n. (\<forall>v. (v, n) \<notin> set (ca_user_roles d)) \<or> \<not> role_deleted d n"])
qed

text \<open>The experiments joined, if any are, are those of the instrument of the limit.\<close>

definition joins_experiments :: "catalogue \<Rightarrow> string list \<Rightarrow> (flavour_limit option \<Rightarrow> (string \<times> ident) option list) \<Rightarrow> bool" where
  "joins_experiments d es ej \<longleftrightarrow> (\<forall>l. ej l \<noteq> [] \<and>
     ((\<exists>e \<in> set (ej l). case e of None \<Rightarrow> False | Some x \<Rightarrow> fst x \<in> set es) \<longleftrightarrow>
      (\<exists>n. map_option lim_object l = Some n \<and> (\<exists>e \<in> set es. (e, n) \<in> set (ca_experiments d)))))"

lemma experiment_join_joins: "joins_experiments d es (experiment_join d)"
proof -
  have "(\<exists>e \<in> set (experiment_join d l). case e of None \<Rightarrow> False | Some x \<Rightarrow> fst x \<in> set es) \<longleftrightarrow>
      (\<exists>x. Some x \<in> set (experiment_join d l) \<and> fst x \<in> set es)" for l
    by (force split: option.splits)
  moreover have "experiment_join d l \<noteq> []" for l
    using left_join_ne [of "\<lambda>e. map_option lim_object l = Some (snd e)" "ca_experiments d"] by (auto simp: experiment_join_def)
  ultimately show ?thesis unfolding joins_experiments_def by (auto simp: experiment_join_def left_join_mem)
qed

lemma no_join_joins: "joins_experiments d [] (\<lambda>_. [None])"
  by (simp add: joins_experiments_def)

lemma instrument_rows_match:
  assumes "joins_experiments d es ej"
  shows "(\<exists>ifl \<in> set (limit_join ''INSTRUMENT'' d p). (\<exists>ir \<in> set (scientist_join d ifl). map_option snd ir = Some u) \<or>
      (\<exists>e \<in> set (ej ifl). case e of None \<Rightarrow> False | Some x \<Rightarrow> fst x \<in> set es)) \<longleftrightarrow> instrument_match d u es p"
proof -
  have s: "(\<exists>ir \<in> set (scientist_join d ifl). map_option snd ir = Some u) \<longleftrightarrow>
      (\<exists>n. map_option lim_object ifl = Some n \<and> (n, u) \<in> set (ca_scientists d))" for ifl
  proof -
    have "(\<exists>ir \<in> set (scientist_join d ifl). map_option snd ir = Some u) \<longleftrightarrow> (\<exists>x. Some x \<in> set (scientist_join d ifl) \<and> snd x = u)"
      by force
    then show ?thesis by (auto simp: scientist_join_def left_join_mem)
  qed
  have e: "(\<exists>e \<in> set (ej ifl). case e of None \<Rightarrow> False | Some x \<Rightarrow> fst x \<in> set es) \<longleftrightarrow>
      (\<exists>n. map_option lim_object ifl = Some n \<and> (\<exists>e \<in> set es. (e, n) \<in> set (ca_experiments d)))" for ifl
    using assms unfolding joins_experiments_def by blast
  have "(\<exists>ifl \<in> set (limit_join ''INSTRUMENT'' d p). \<exists>n. map_option lim_object ifl = Some n \<and> P n) \<longleftrightarrow>
      (\<exists>l. Some l \<in> set (limit_join ''INSTRUMENT'' d p) \<and> P (lim_object l))" for P by force
  then show ?thesis unfolding s e
    by (simp add: instrument_match_def limited_def limit_join_def left_join_mem flip: ex_disj_distrib conj_disj_distribL) blast
qed

lemma user_rows_offered:
  assumes "joins_experiments d es ej"
  shows "user_rows u es ej d p \<longleftrightarrow> offered d u es p"
proof -
  let ?LI = "set (limit_join ''INSTRUMENT'' d p)" let ?LR = "set (limit_join ''ROLE'' d p)"
  let ?live = "\<lambda>ur. \<exists>r \<in> set (role_join d ur). live_role r"
  let ?im = "\<lambda>ifl. (\<exists>ir \<in> set (scientist_join d ifl). map_option snd ir = Some u) \<or>
      (\<exists>e \<in> set (ej ifl). case e of None \<Rightarrow> False | Some x \<Rightarrow> fst x \<in> set es)"
  have ne: "\<exists>e. e \<in> set (ej ifl)" "\<exists>z. z \<in> set (scientist_join d ifl)" "\<exists>z. z \<in> ?LI" for ifl
    using assms left_join_ne unfolding joins_experiments_def scientist_join_def limit_join_def
    by (metis all_not_in_conv set_empty, fast+)
  have "user_rows u es ej d p \<longleftrightarrow>
      ((\<exists>ifl \<in> ?LI. ?im ifl) \<and> (\<exists>rfl \<in> ?LR. \<exists>ur \<in> set (user_role_join d rfl). ?live ur)) \<or>
      (\<exists>rfl \<in> ?LR. \<exists>ur \<in> set (user_role_join d rfl). map_option fst ur = Some u \<and> ?live ur) \<or>
      (None \<in> ?LI \<and> None \<in> ?LR \<and> (\<exists>ur \<in> set (user_role_join d None). ?live ur))"
    unfolding user_rows_def list_ex_iff row_holds_def using ne by (smt (verit))
  moreover have "\<exists>ur \<in> set (user_role_join d None). ?live ur"
    unfolding role_join_live by (force simp: user_role_join_def left_join_mem intro: bexI [of _ None])
  moreover have "None \<in> set (limit_join t d p) \<longleftrightarrow> (\<forall>n. \<not> limited d t p n)" for t
    by (auto simp: limit_join_def limited_def left_join_mem)
  ultimately show ?thesis unfolding instrument_rows_match [OF assms] role_rows_pass role_rows_match offered_def by blast
qed

lemma select_plans_cong: "(\<And>p. P p = Q p) \<Longrightarrow> d = e \<Longrightarrow> select_plans P d = select_plans Q e"
  by (simp add: select_plans_def)

lemma select_plans_set: "set (select_plans P d) = {p \<in> set (rows (ca_plans d)). plan_visible d p \<and> P p}"
  by (auto simp: select_plans_def)

text \<open>C16: A user who is no administrator is offered, in the order of their sizes, exactly the visible plans whose flavour has no limit,
  or is limited to a live role of the user, or is limited to an instrument of which the user is scientist or has one of
  the experiments given while its role limits pass; the request never fails.
\<close>

theorem plans_offered_exactly:
  assumes "\<not> hasRole now u ADMIN_ROLE"
  shows "\<exists>ps. plans_request known now u es d = Inr ps \<and> sorted (map (plan_key d) ps) \<and>
    set ps = {p \<in> set (rows (ca_plans d)). plan_visible d p \<and>
      offered d (user_id u) (case es of None \<Rightarrow> [] | Some xs \<Rightarrow> filter known xs) p}"
proof -
  have all: "getAllForUserAndAllInstruments (Some (user_id u)) d = Inr (select_plans (offered d (user_id u) []) d)"
    using user_rows_offered [OF no_join_joins] by (simp add: getAllForUserAndAllInstruments_def cong: select_plans_cong)
  have "getAllForUserAndExperiments (Some (user_id u)) xs d = Inr (select_plans (offered d (user_id u) xs) d)" for xs
    using all user_rows_offered [OF experiment_join_joins]
    by (simp add: getAllForUserAndExperiments_def plan_getAllForUserAndExperimentIds_def cong: select_plans_cong)
  then show ?thesis using assms all by (cases es) (simp_all add: plans_request_def select_plans_set)
qed

text \<open>
  When every role that limits a flavour is a deleted group that still has members, its plans are offered to nobody, not even to
  the scientists of the instruments that it is limited to as well.
\<close>

lemma deleted_group_hides_plan:
  assumes "limited d ''ROLE'' p k"
    and "\<And>n. limited d ''ROLE'' p n \<Longrightarrow> role_deleted d n \<and> (\<exists>v. (v, n) \<in> set (ca_user_roles d))"
  shows "\<not> offered d u es p"
  using assms unfolding offered_def role_match_def roles_pass_def by blast

definition sample_plan_row :: plan_row where
  "sample_plan_row = \<lparr>created_at = None, updated_at = None, pl_id = Some 1, pl_flavour = 1, pl_image = 1, pl_preset = False,
     pl_deleted_at = None\<rparr>"

definition sample_catalogue :: catalogue where
  "sample_catalogue =
     \<lparr>ca_plans = \<lparr>rows = [sample_plan_row], next_id = 2\<rparr>,
      ca_images = \<lparr>rows = [new_image\<lparr>img_id := Some 1, img_visible := True\<rparr>], next_id = 2\<rparr>,
      ca_flavours = \<lparr>rows = [new_flavour\<lparr>fl_id := Some 1\<rparr>], next_id = 2\<rparr>, ca_clouds = [], ca_protocols = [],
      ca_limits = \<lparr>rows = [\<lparr>lim_id = Some 1, lim_flavour = 1, lim_object = 7, lim_type = ''INSTRUMENT''\<rparr>], next_id = 2\<rparr>,
      ca_instruments = [7, 8], ca_experiments = [(''e'', 7)], ca_scientists = [], ca_roles = \<lparr>rows = [], next_id = 1\<rparr>,
      ca_user_roles = []\<rparr>"

lemmas catalogue_samples = sample_catalogue_def sample_plan_row_def new_image_def new_flavour_def

lemma sample_plan_live: "plan_live sample_catalogue sample_plan_row" "plan_visible sample_catalogue sample_plan_row"
  by (simp_all add: plan_visible_def plan_live_def plan_image_row_def plan_flavour_row_def find_row_def cloud_live_def cloud_row_def
      catalogue_samples)

theorem plans_offered_exactly_witness:
  "(\<exists>ps. plans_request (\<lambda>_. True) 0 alice (Some [''e'']) sample_catalogue = Inr ps \<and> set ps = {sample_plan_row}) \<and>
   (\<exists>ps. plans_request (\<lambda>_. True) 0 alice None sample_catalogue = Inr ps \<and> set ps = {})"
proof -
  let ?d = sample_catalogue
  have a: "\<not> hasRole 0 alice ADMIN_ROLE" by (simp add: hasRole_iff sample_users role_names)
  have l: "limited ?d t sample_plan_row n \<longleftrightarrow> t = ''INSTRUMENT'' \<and> n = 7" for t n by (auto simp: limited_def catalogue_samples)
  have "ca_experiments ?d = [(''e'', 7)]" "ca_scientists ?d = []" by (simp_all add: catalogue_samples)
  then have o: "offered ?d u es sample_plan_row \<longleftrightarrow> ''e'' \<in> set es" for u es
    by (simp add: offered_def l role_match_def instrument_match_def roles_pass_def)
  have r: "rows (ca_plans ?d) = [sample_plan_row]" by (simp add: sample_catalogue_def)
  have set_eq: "{q \<in> set (rows (ca_plans ?d)). plan_visible ?d q \<and> offered ?d u es q} =
      (if ''e'' \<in> set es then {sample_plan_row} else {})" for u es
    unfolding r using sample_plan_live(2) o [of u es] by auto
  have c: "(case Some [''e''] of None \<Rightarrow> [] | Some xs \<Rightarrow> filter (\<lambda>_. True) xs) = [''e'']"
    "(case None of None \<Rightarrow> [] | Some xs \<Rightarrow> filter (\<lambda>_. True) xs) = ([] :: string list)" by simp_all
  show ?thesis
    using plans_offered_exactly [OF a, of "\<lambda>_. True" "Some [''e'']" ?d] plans_offered_exactly [OF a, of "\<lambda>_. True" None ?d]
    unfolding set_eq c by auto
qed

section \<open>One preset plan\<close>

definition presets :: "catalogue \<Rightarrow> plan_row list" where
  "presets d = filter (\<lambda>p. plan_live d p \<and> pl_preset p) (rows (ca_plans d))"


definition refers_in :: "catalogue \<Rightarrow> ident \<Rightarrow> ident \<Rightarrow> bool" where
  "refers_in d m f \<longleftrightarrow> find_row img_id m (ca_images d) \<noteq> None \<and> find_row fl_id f (ca_flavours d) \<noteq> None"

definition references_ok :: "catalogue \<Rightarrow> bool" where
  "references_ok d \<longleftrightarrow> (\<forall>p \<in> set (rows (ca_plans d)). refers_in d (pl_image p) (pl_flavour p))"


definition catalogue_ok :: "catalogue \<Rightarrow> bool" where
  "catalogue_ok d \<longleftrightarrow> table_ok pl_id (ca_plans d) \<and> table_ok img_id (ca_images d) \<and> table_ok fl_id (ca_flavours d) \<and>
     references_ok d \<and> length (presets d) \<le> 1"

lemma plan_live_plans [simp]: "plan_live (d\<lparr>ca_plans := t\<rparr>) p = plan_live d p"
  by (simp add: plan_live_def plan_image_row_def plan_flavour_row_def cloud_live_def cloud_row_def cong: option.case_cong)

lemma plan_live_preset [simp]:
  "plan_live d (p\<lparr>pl_preset := b\<rparr>) = plan_live d p" "plan_live d (on_update now p) = plan_live d p"
  by (simp_all add: plan_live_def plan_image_row_def plan_flavour_row_def on_update_def)





























section \<open>The limits of a flavour\<close>

lemma delete_limits:
  "deleteFlavourLimits ls d = d\<lparr>ca_limits := (ca_limits d)\<lparr>rows := filter (\<lambda>l. lim_id l \<notin> lim_id ` set ls) (rows (ca_limits d))\<rparr>\<rparr>"
  unfolding deleteFlavourLimits_def
proof (induction ls arbitrary: d)
  case (Cons x ls)
  have "(\<lambda>l. lim_id l \<noteq> lim_id x \<and> lim_id l \<notin> lim_id ` set ls) = (\<lambda>l. lim_id l \<notin> lim_id ` set (x # ls))" by auto
  then show ?case using Cons.IH [of "limit_delete x d"] by (simp add: limit_delete_def remove_row_def)
qed simp

lemma create_limits:
  "\<exists>new k. createFlavourLimits now ns valid f t d = d\<lparr>ca_limits := \<lparr>rows = rows (ca_limits d) @ new, next_id = k\<rparr>\<rparr> \<and>
     map lim_object new = filter (\<lambda>n. n \<in> set valid) ns \<and> (\<forall>l \<in> set new. lim_flavour l = f \<and> lim_type l = t)"
  unfolding createFlavourLimits_def
proof (induction ns arbitrary: d)
  case Nil
  then show ?case by (intro exI [of _ "[]"] exI [of _ "next_id (ca_limits d)"]) simp
next
  case (Cons n ns)
  let ?l = "\<lparr>lim_id = Some (next_id (ca_limits d)), lim_flavour = f, lim_object = n, lim_type = t\<rparr>"
  have s: "limit_save now \<lparr>lim_id = None, lim_flavour = f, lim_object = n, lim_type = t\<rparr> d =
      d\<lparr>ca_limits := \<lparr>rows = rows (ca_limits d) @ [?l], next_id = next_id (ca_limits d) + 1\<rparr>\<rparr>"
    by (simp add: limit_save_def save_row_def persist_row_def Let_def)
  show ?case
  proof (cases "n \<in> set valid")
    case True
    obtain new k where "fold (\<lambda>n d. if n \<in> set valid then limit_save now \<lparr>lim_id = None, lim_flavour = f, lim_object = n, lim_type = t\<rparr> d else d)
        ns (d\<lparr>ca_limits := \<lparr>rows = rows (ca_limits d) @ [?l], next_id = next_id (ca_limits d) + 1\<rparr>\<rparr>) =
        d\<lparr>ca_limits := \<lparr>rows = (rows (ca_limits d) @ [?l]) @ new, next_id = k\<rparr>\<rparr>"
      "map lim_object new = filter (\<lambda>n. n \<in> set valid) ns" "\<forall>l \<in> set new. lim_flavour l = f \<and> lim_type l = t"
      using Cons.IH [of "d\<lparr>ca_limits := \<lparr>rows = rows (ca_limits d) @ [?l], next_id = next_id (ca_limits d) + 1\<rparr>\<rparr>"] by auto
    then show ?thesis using True s by (intro exI [of _ "?l # new"] exI [of _ k]) simp
  qed (use Cons.IH [of d] in simp)
qed

text \<open>One pass changes the limits of its flavour and type only.\<close>

lemma update_limits_pass:
  assumes "table_ok lim_id (ca_limits d)" "find_row fl_id f (ca_flavours d) = Some x" "\<not> fl_deleted x"
    and e_def: "e = update_limits_of now t ns valid f d"
  shows "lim_object ` set (limits_of f t e) = {n \<in> set ns. n \<in> set valid \<or> n \<in> lim_object ` set (limits_of f t d)}"
    "\<exists>l. e = d\<lparr>ca_limits := l\<rparr>"
    "filter (\<lambda>l. lim_flavour l \<noteq> f \<or> lim_type l \<noteq> t) (rows (ca_limits e)) =
     filter (\<lambda>l. lim_flavour l \<noteq> f \<or> lim_type l \<noteq> t) (rows (ca_limits d))"
    "table_ok lim_id (ca_limits e)"
proof -
  let ?cur = "limits_of f t d"
  let ?gone = "filter (\<lambda>l. lim_object l \<notin> set ns) ?cur"
  let ?d = "deleteFlavourLimits ?gone d"
  have inj: "l = m" if "l \<in> set (rows (ca_limits d))" "m \<in> set (rows (ca_limits d))" "lim_id l = lim_id m" for l m
    using assms(1) that unfolding table_ok_def by (metis distinct_map inj_onD)
  have cur: "set ?cur = {l \<in> set (rows (ca_limits d)). lim_flavour l = f \<and> lim_type l = t}"
    using assms(2,3) by (auto simp: limits_of_def)
  have d1: "rows (ca_limits ?d) = filter (\<lambda>l. l \<notin> set ?gone) (rows (ca_limits d))"
    unfolding delete_limits using inj by (auto simp: cur intro!: filter_cong)
  obtain new k where new: "e = ?d\<lparr>ca_limits := \<lparr>rows = rows (ca_limits ?d) @ new, next_id = k\<rparr>\<rparr>"
      "map lim_object new = filter (\<lambda>n. n \<in> set valid) (filter (\<lambda>n. n \<notin> set (map lim_object ?cur)) ns)"
      "\<forall>l \<in> set new. lim_flavour l = f \<and> lim_type l = t"
    using create_limits [of now "filter (\<lambda>n. n \<notin> set (map lim_object ?cur)) ns" valid f t ?d]
    unfolding e_def update_limits_of_def Let_def by blast
  have obj: "lim_object ` set new = {n \<in> set ns. n \<in> set valid \<and> n \<notin> lim_object ` set ?cur}"
    using arg_cong [OF new(2), of set] by auto
  have "ca_flavours e = ca_flavours d" by (simp add: new(1) delete_limits)
  then have "set (limits_of f t e) = {l \<in> set (rows (ca_limits e)). lim_flavour l = f \<and> lim_type l = t}"
    using assms(2,3) by (auto simp: limits_of_def)
  also have "\<dots> = {l \<in> set ?cur. lim_object l \<in> set ns} \<union> set new"
    using new(3) by (auto simp: new(1) d1 cur)
  finally show "lim_object ` set (limits_of f t e) = {n \<in> set ns. n \<in> set valid \<or> n \<in> lim_object ` set ?cur}"
    using obj by (auto simp: image_Un)
  show "\<exists>l. e = d\<lparr>ca_limits := l\<rparr>" by (simp add: new(1) delete_limits) blast
  have "filter (\<lambda>l. lim_flavour l \<noteq> f \<or> lim_type l \<noteq> t) new = []" using new(3) by (auto simp: filter_empty_conv)
  then show "filter (\<lambda>l. lim_flavour l \<noteq> f \<or> lim_type l \<noteq> t) (rows (ca_limits e)) =
     filter (\<lambda>l. lim_flavour l \<noteq> f \<or> lim_type l \<noteq> t) (rows (ca_limits d))"
    by (auto simp: new(1) d1 cur intro!: filter_cong)
  have del: "table_ok lim_id (ca_limits (fold limit_delete ls e))" if "table_ok lim_id (ca_limits e)" for ls e
    using that by (induction ls arbitrary: e) (simp_all add: limit_delete_def limits.remove_ok)
  have "table_ok lim_id (ca_limits (createFlavourLimits now ms valid f t e))" if "table_ok lim_id (ca_limits e)" for ms e
    using that unfolding createFlavourLimits_def by (induction ms arbitrary: e) (simp_all add: limit_save_def limits.save_ok)
  then show "table_ok lim_id (ca_limits e)"
    unfolding e_def update_limits_of_def Let_def deleteFlavourLimits_def using del assms(1) by blast
qed




lemma catalogue_ok_limits [simp]: "catalogue_ok (d\<lparr>ca_limits := l\<rparr>) = catalogue_ok d"
proof -
  have "plan_live (d\<lparr>ca_limits := l\<rparr>) = plan_live d"
    by (rule ext) (simp add: plan_live_def plan_image_row_def plan_flavour_row_def cloud_live_def cloud_row_def cong: option.case_cong)
  then show ?thesis by (simp add: catalogue_ok_def references_ok_def refers_in_def presets_def)
qed









text \<open>
  Giving an image of a deleted cloud another cloud: the plan of the image can be used again, still as the preset one, beside the
  plan that an administrator has made the preset one since.
\<close>

definition sample_deleted_cloud :: cloud_provider_configuration where
  "sample_deleted_cloud = \<lparr>created_at = None, updated_at = None, cpc_id = 3, cpc_type = ''web'', cpc_name = ''old'',
     cpc_server_name_prefix = ''VISA-'', cpc_visible = True, cpc_parameters = [], cpc_deleted_at = Some 2\<rparr>"

definition two_clouds_catalogue :: catalogue where
  "two_clouds_catalogue = sample_catalogue
     \<lparr>ca_plans := \<lparr>rows = [sample_plan_row\<lparr>pl_image := 2, pl_preset := True\<rparr>], next_id = 2\<rparr>,
      ca_images := \<lparr>rows = [new_image\<lparr>img_id := Some 1\<rparr>, new_image\<lparr>img_id := Some 2, img_cloud := Some sample_deleted_cloud\<rparr>],
        next_id = 3\<rparr>,
      ca_clouds := [sample_deleted_cloud]\<rparr>"

definition default_gateway :: "unit gateway" where
  "default_gateway = \<lparr>gw_default = Some \<lparr>cc_id = -1, cc_name = ''Default'', cc_type = ''null'', cc_provider = null_provider,
     cc_server_name_prefix = ''VISA-'', cc_visible = True\<rparr>, gw_clients = []\<rparr>"

lemma moved_image_revives_preset:
  "let d = snd (createPlan 4 \<lparr>pin_image = 1, pin_flavour = 1, pin_preset = True\<rparr> two_clouds_catalogue);
       i = \<lparr>iin_name = ''image'', iin_version = None, iin_description = None, iin_icon = None, iin_cloud = None,
            iin_compute_id = ''i'', iin_visible = True, iin_boot_command = None, iin_autologin = None, iin_protocols = []\<rparr>
   in presets two_clouds_catalogue = [] \<and> length (presets d) = 1 \<and>
      length (presets (snd (updateImage default_gateway (\<lambda>c s. Inr True) 5 2 i d))) = 2"
  by code_simp

text \<open>C18: After a change of a flavour's limits the flavour is limited to exactly those of the instruments and roles given that exist or that
  limited it before, and the limits of other flavours stay.
\<close>

theorem flavour_limits_exact:
  fixes now :: date and "is" rs :: "ident list"
  assumes "table_ok lim_id (ca_limits d)" "find_row fl_id f (ca_flavours d) = Some x" "\<not> fl_deleted x"
  defines "e \<equiv> updateFlavourLimits now f is rs d"
  shows "lim_object ` set (limits_of f ''INSTRUMENT'' e) =
      {n \<in> set is. n \<in> set (ca_instruments d) \<or> n \<in> lim_object ` set (limits_of f ''INSTRUMENT'' d)} \<and>
    lim_object ` set (limits_of f ''ROLE'' e) =
      {n \<in> set rs. n \<in> set (live_role_ids d) \<or> n \<in> lim_object ` set (limits_of f ''ROLE'' d)} \<and>
    filter (\<lambda>l. lim_flavour l \<noteq> f) (rows (ca_limits e)) = filter (\<lambda>l. lim_flavour l \<noteq> f) (rows (ca_limits d))"
proof -
  let ?d = "update_limits_of now ''INSTRUMENT'' is (ca_instruments d) f d"
  note p = update_limits_pass [where now = now and t = "''INSTRUMENT''" and ns = "is" and valid = "ca_instruments d", OF assms(1-3) refl]
  obtain l where l: "?d = d\<lparr>ca_limits := l\<rparr>" using p(2) by blast
  have e: "e = update_limits_of now ''ROLE'' rs (live_role_ids ?d) f ?d" by (simp add: e_def updateFlavourLimits_def Let_def)
  have q0: "find_row fl_id f (ca_flavours ?d) = Some x" using assms(2) l by simp
  note q = update_limits_pass [where now = now and t = "''ROLE''" and ns = rs and valid = "live_role_ids ?d", OF p(4) q0 assms(3) refl, folded e]
  have roles: "live_role_ids ?d = live_role_ids d" using l by (simp add: live_role_ids_def)
  have of_rows: "limits_of f t a = filter (\<lambda>l. lim_flavour l = f \<and> lim_type l = t) (rows (ca_limits a))"
    if "find_row fl_id f (ca_flavours a) = Some x" for t a
    using that assms(3) by (simp add: limits_of_def)
  obtain m where m: "e = ?d\<lparr>ca_limits := m\<rparr>" using q(2) by blast
  then have e0: "find_row fl_id f (ca_flavours e) = Some x" using q0 by simp
  have keep: "filter P xs = filter P ys" if "filter Q xs = filter Q ys" "\<And>l. P l \<Longrightarrow> Q l" for P Q and xs ys :: "flavour_limit list"
  proof -
    have "filter P zs = filter P (filter Q zs)" for zs using that(2) by (auto simp: filter_filter intro: filter_cong)
    then show ?thesis using that(1) by metis
  qed
  have "limits_of f ''INSTRUMENT'' e = limits_of f ''INSTRUMENT'' ?d"
    unfolding of_rows [OF e0] of_rows [OF q0] by (rule keep [OF q(3)]) auto
  moreover have "limits_of f ''ROLE'' ?d = limits_of f ''ROLE'' d"
    unfolding of_rows [OF q0] of_rows [OF assms(2)] by (rule keep [OF p(3)]) auto
  moreover have "filter (\<lambda>l. lim_flavour l \<noteq> f) (rows (ca_limits e)) = filter (\<lambda>l. lim_flavour l \<noteq> f) (rows (ca_limits ?d))"
    by (rule keep [OF q(3)]) auto
  moreover have "filter (\<lambda>l. lim_flavour l \<noteq> f) (rows (ca_limits ?d)) = filter (\<lambda>l. lim_flavour l \<noteq> f) (rows (ca_limits d))"
    by (rule keep [OF p(3)]) auto
  ultimately show ?thesis using p(1) q(1) roles by simp
qed

theorem flavour_limits_exact_witness:
  "let d = updateFlavourLimits 5 1 [8, 9] [] sample_catalogue in lim_object ` set (limits_of 1 ''INSTRUMENT'' d) = {8}"
proof -
  let ?d = sample_catalogue
  have "table_ok lim_id (ca_limits ?d)" "find_row fl_id 1 (ca_flavours ?d) = Some (new_flavour\<lparr>fl_id := Some 1\<rparr>)"
      "\<not> fl_deleted (new_flavour\<lparr>fl_id := Some 1\<rparr>)"
    by (simp_all add: catalogue_samples table_ok_def find_row_def)
  from flavour_limits_exact [OF this, of 5 "[8, 9]" "[]"]
  have "lim_object ` set (limits_of 1 ''INSTRUMENT'' (updateFlavourLimits 5 1 [8, 9] [] ?d)) =
      {n \<in> set [8, 9]. n \<in> set (ca_instruments ?d) \<or> n \<in> lim_object ` set (limits_of 1 ''INSTRUMENT'' ?d)}" by blast
  also have "\<dots> = {8}" by (auto simp: catalogue_samples limits_of_def find_row_def)
  finally show ?thesis by (simp add: Let_def)
qed

end
