(* ===== verification/Administration.thy ===== *)
theory Administration
  imports Plans
begin

text \<open>
  What administrators do with users, roles, security groups and instances: the other mutations of MutationResolver and
  InstanceActionScheduler. Users hold their roles by reference, so a user that is read has the roles as the table has
  them. The parser of dates, for one pattern, is an argument of the request that uses it.
\<close>

section \<open>Roles\<close>

record accounts =
  ac_users :: "user list"
  ac_roles :: "role table"

definition role_getById :: "ident \<Rightarrow> accounts \<Rightarrow> role option" where
  "role_getById n d =
     (case find_row role_id n (ac_roles d) of None \<Rightarrow> None | Some r \<Rightarrow> if group_deleted_at r = None then Some r else None)"

definition role_getByName :: "string \<Rightarrow> accounts \<Rightarrow> exn + role option" where
  "role_getByName s d =
     single_result role_id (filter (\<lambda>r. role_name r = s \<and> group_deleted_at r = None) (rows (ac_roles d)))"

text \<open>The names of all roles are unique in the table, those of deleted ones too.\<close>

definition role_save :: "role \<Rightarrow> accounts \<Rightarrow> (admin_error + role) \<times> accounts" where
  "role_save r d =
     (if list_ex (\<lambda>x. role_name x = role_name r \<and> role_id x \<noteq> role_id r) (rows (ac_roles d))
      then (Inl (Failure (RuntimeException ''uk_role_name'')), d)
      else let (r', t) = save_row role_id (\<lambda>n x. x\<lparr>role_id := Some n\<rparr>) (\<lambda>_ x. x) (\<lambda>_ x. x) 0 r (ac_roles d)
           in (Inr r', d\<lparr>ac_roles := t\<rparr>))"

definition createRole :: "date \<Rightarrow> string \<Rightarrow> string option \<Rightarrow> accounts \<Rightarrow> (admin_error + role) \<times> accounts" where
  "createRole now s t d =
     (case role_getByName s d of
        Inl e \<Rightarrow> (Inl (Failure e), d)
      | Inr (Some r) \<Rightarrow> (Inl (InvalidInput ''Role with given name already exists''), d)
      | Inr None \<Rightarrow>
          role_save \<lparr>role_id = None, role_name = s, role_description = t, group_created_at = Some now, group_deleted_at = None\<rparr> d)"

definition updateRole :: "ident \<Rightarrow> string \<Rightarrow> string option \<Rightarrow> accounts \<Rightarrow> (admin_error + role) \<times> accounts" where
  "updateRole n s t d =
     (case role_getById n d of
        None \<Rightarrow> (Inl (EntityNotFound ''Role with given Id does not exist''), d)
      | Some r \<Rightarrow> (case role_getByName s d of
          Inl e \<Rightarrow> (Inl (Failure e), d)
        | Inr x \<Rightarrow>
            if x \<noteq> None \<and> role_id (the x) \<noteq> Some n
            then (Inl (InvalidInput ''Role with given name already exists''), d)
            else role_save (r\<lparr>role_name := s, role_description := t\<rparr>) d))"

definition deleteRole :: "date \<Rightarrow> ident \<Rightarrow> accounts \<Rightarrow> (admin_error + bool) \<times> accounts" where
  "deleteRole now n d =
     (case role_getById n d of
        None \<Rightarrow> (Inl (EntityNotFound ''Role with given Id does not exist''), d)
      | Some r \<Rightarrow> (case role_save (r\<lparr>group_deleted_at := Some now\<rparr>) d of
          (Inl e, d1) \<Rightarrow> (Inl e, d1)
        | (Inr _, d1) \<Rightarrow> (Inr True, d1)))"

section \<open>Users\<close>

definition current_role :: "accounts \<Rightarrow> role \<Rightarrow> role" where
  "current_role d r =
     (case role_id r of None \<Rightarrow> r
      | Some n \<Rightarrow> (case find_row role_id n (ac_roles d) of None \<Rightarrow> r | Some x \<Rightarrow> x))"

definition load_user :: "accounts \<Rightarrow> user \<Rightarrow> user" where
  "load_user d u = u\<lparr>user_roles := map (\<lambda>ur. ur\<lparr>ur_role := current_role d (ur_role ur)\<rparr>) (user_roles u)\<rparr>"

definition find_user :: "string \<Rightarrow> accounts \<Rightarrow> user option" where
  "find_user s d = map_option (load_user d) (List.find (\<lambda>u. user_id u = s) (ac_users d))"

definition save_user :: "user \<Rightarrow> accounts \<Rightarrow> accounts" where
  "save_user u d = d\<lparr>ac_users := map (\<lambda>v. if user_equals v u then u else v) (ac_users d)\<rparr>"

definition updateUserRole :: "string \<Rightarrow> string \<Rightarrow> bool \<Rightarrow> accounts \<Rightarrow> (admin_error + user) \<times> accounts" where
  "updateUserRole s n on d =
     (case find_user s d of
        None \<Rightarrow> (Inl (EntityNotFound ''User not found for the given user id''), d)
      | Some u \<Rightarrow> (case role_getByName n d of
          Inl e \<Rightarrow> (Inl (Failure e), d)
        | Inr None \<Rightarrow> (Inl (EntityNotFound ''Role not found for the given role name''), d)
        | Inr (Some r) \<Rightarrow>
            (let v = (if on then addRole u r None else removeRole u r) in (Inr v, save_user v d))))"

record user_input =
  uin_quota :: int
  uin_admin :: bool
  uin_guest :: bool
  uin_guest_expires :: "string option"
  uin_groups :: "ident list"

definition role_equals :: "role \<Rightarrow> role \<Rightarrow> bool" where
  "role_equals a b \<longleftrightarrow> role_name a = role_name b"

definition role_in :: "role \<Rightarrow> role list \<Rightarrow> bool" where
  "role_in r rs \<longleftrightarrow> list_ex (role_equals r) rs"

definition input_groups :: "user_input \<Rightarrow> accounts \<Rightarrow> role list" where
  "input_groups x d = List.map_filter (\<lambda>n. role_getById n d) (uin_groups x)"

text \<open>A role that is not found is a null reference when it is added or removed.\<close>

definition switch_role :: "bool \<Rightarrow> role option \<Rightarrow> date option \<Rightarrow> user \<Rightarrow> admin_error + user" where
  "switch_role on r e u =
     (case r of None \<Rightarrow> Inl (Failure NullPointer) | Some x \<Rightarrow> Inr (if on then addRole u x e else removeRole u x))"

definition guest_expiry :: "(string \<Rightarrow> date option) \<Rightarrow> user_input \<Rightarrow> admin_error + date option" where
  "guest_expiry parse x =
     (case uin_guest_expires x of
        None \<Rightarrow> Inr None
      | Some s \<Rightarrow> (case parse s of None \<Rightarrow> Inl (InvalidInput ''Unparseable date'') | Some t \<Rightarrow> Inr (Some t)))"

definition updateUser :: "(string \<Rightarrow> date option) \<Rightarrow> string \<Rightarrow> user_input \<Rightarrow> accounts \<Rightarrow> (admin_error + user) \<times> accounts" where
  "updateUser parse s x d =
     (case find_user s d of
        None \<Rightarrow> (Inl (EntityNotFound ''User not found for the given user id''), d)
      | Some u \<Rightarrow>
          (case role_getByName ADMIN_ROLE d of Inl e \<Rightarrow> (Inl (Failure e), d) | Inr admin \<Rightarrow>
          (case role_getByName GUEST_ROLE d of Inl e \<Rightarrow> (Inl (Failure e), d) | Inr guest \<Rightarrow>
            (let given = input_groups x d; held = getGroups u;
                 adds = filter (\<lambda>r. \<not> role_in r held) given;
                 removals = filter (\<lambda>r. \<not> role_in r given) held
             in case and_then (switch_role (uin_admin x) admin None u) (\<lambda>u1.
                     and_then (if uin_guest x then guest_expiry parse x else Inr None) (\<lambda>t.
                     and_then (switch_role (uin_guest x) guest t u1) (\<lambda>u2.
                       Inr ((fold (\<lambda>r v. removeRole v r) removals (fold (\<lambda>r v. addRole v r None) adds u2))
                              \<lparr>user_instance_quota := uin_quota x\<rparr>)))) of
                  Inl e \<Rightarrow> (Inl e, d)
                | Inr v \<Rightarrow> (Inr v, save_user v d)))))"

section \<open>Instances\<close>

definition scheduler_execute :: "date \<Rightarrow> inst \<Rightarrow> user \<Rightarrow> command_type \<Rightarrow> db \<Rightarrow> admin_error option \<times> db" where
  "scheduler_execute now i u t d =
     (if t \<in> {START, REBOOT, SHUTDOWN, DELETE}
      then (let (i1, d1) = inst_save now (requested_state t i) d in (None, snd (cmd_create now (Some u) i1 t d1)))
      else (Some (Failure (IllegalArgument ''Invalid state provided'')), d))"

definition performInstanceAction :: "date \<Rightarrow> ident \<Rightarrow> command_type \<Rightarrow> user \<Rightarrow> db \<Rightarrow> admin_error option \<times> db" where
  "performInstanceAction now n t u d =
     (case inst_getById n d of
        None \<Rightarrow> (Some (EntityNotFound ''Instance not found for the given id''), d)
      | Some i \<Rightarrow> scheduler_execute now i u t d)"

definition admin_deleteInstance :: "date \<Rightarrow> ident \<Rightarrow> user \<Rightarrow> db \<Rightarrow> admin_error option \<times> db" where
  "admin_deleteInstance now n u d =
     (case inst_getById n d of
        None \<Rightarrow> (Some (EntityNotFound ''Instance not found for the given id''), d)
      | Some i \<Rightarrow>
          if compute_id i = None \<or> hasAnyState [STOPPED, ERROR, UNKNOWN, UNAVAILABLE] i
          then performInstanceAction now n DELETE u d
          else performInstanceAction now n SHUTDOWN u (snd (inst_save now (i\<lparr>delete_requested := True\<rparr>) d)))"

section \<open>Security groups and their filters\<close>

record group_tables =
  gt_groups :: "security_group table"
  gt_filters :: "security_group_filter table"

interpretation group_filters: entity sgf_id "\<lambda>n x. x\<lparr>sgf_id := Some n\<rparr>" "\<lambda>_ x. x" "\<lambda>_ x. x"
  by unfold_locales simp_all

interpretation groups: entity sg_id "\<lambda>n x. x\<lparr>sg_id := Some n\<rparr>" "\<lambda>_ x. x" "\<lambda>_ x. x"
  by unfold_locales simp_all

definition sg_getById :: "ident \<Rightarrow> group_tables \<Rightarrow> security_group option" where
  "sg_getById n d =
     (case find_row sg_id n (gt_groups d) of None \<Rightarrow> None | Some g \<Rightarrow> if sg_cloud_live g then Some g else None)"

definition filter_by_key :: "ident \<Rightarrow> ident \<Rightarrow> string \<Rightarrow> group_tables \<Rightarrow> exn + security_group_filter option" where
  "filter_by_key g n t d =
     single_result sgf_id (filter (\<lambda>f. sg_id (sgf_group f) = Some g \<and> sgf_object_id f = n \<and> sgf_object_type f = t) (rows (gt_filters d)))"

record filter_input =
  sin_group :: ident
  sin_object :: ident
  sin_type :: string

text \<open>Whether an instrument, a role or a flavour exists is an argument.\<close>

definition validate_filter :: "(string \<Rightarrow> ident \<Rightarrow> bool) \<Rightarrow> filter_input \<Rightarrow> group_tables \<Rightarrow> admin_error + security_group" where
  "validate_filter known x d =
     (case sg_getById (sin_group x) d of
        None \<Rightarrow> Inl (EntityNotFound ''SecurityGroup not found for the given id'')
      | Some g \<Rightarrow>
          if sin_type x \<notin> {''INSTRUMENT'', ''ROLE'', ''FLAVOUR''} then Inl (InvalidInput ''ObjectType is not valid for SecurityGroupFilter'')
          else if sin_type x = ''INSTRUMENT'' \<and> \<not> known ''INSTRUMENT'' (sin_object x) then Inl (EntityNotFound ''Instrument not found for the given id'')
          else if sin_type x = ''ROLE'' \<and> \<not> known ''ROLE'' (sin_object x) then Inl (EntityNotFound ''Role not found for the given id'')
          else if sin_type x = ''FLAVOUR'' \<and> \<not> known ''FLAVOUR'' (sin_object x) then Inl (EntityNotFound ''Flavour not found for the given id'')
          else Inr g)"

definition filter_save :: "security_group_filter \<Rightarrow> group_tables \<Rightarrow> security_group_filter \<times> group_tables" where
  "filter_save f d =
     (let (f', t) = save_row sgf_id (\<lambda>n x. x\<lparr>sgf_id := Some n\<rparr>) (\<lambda>_ x. x) (\<lambda>_ x. x) 0 f (gt_filters d) in (f', d\<lparr>gt_filters := t\<rparr>))"

definition createSecurityGroupFilter :: "(string \<Rightarrow> ident \<Rightarrow> bool) \<Rightarrow> filter_input \<Rightarrow> group_tables \<Rightarrow>
    (admin_error + security_group_filter) \<times> group_tables" where
  "createSecurityGroupFilter known x d =
     (case filter_by_key (sin_group x) (sin_object x) (sin_type x) d of
        Inl e \<Rightarrow> (Inl (Failure e), d)
      | Inr (Some f) \<Rightarrow> (Inl (InvalidInput ''A security group filter for the given object id and type already exists''), d)
      | Inr None \<Rightarrow> (case validate_filter known x d of
          Inl e \<Rightarrow> (Inl e, d)
        | Inr g \<Rightarrow>
            (let (f, d1) = filter_save \<lparr>sgf_id = None, sgf_object_id = sin_object x, sgf_object_type = sin_type x, sgf_group = g\<rparr> d
             in (Inr f, d1))))"

definition updateSecurityGroupFilter :: "(string \<Rightarrow> ident \<Rightarrow> bool) \<Rightarrow> ident \<Rightarrow> filter_input \<Rightarrow> group_tables \<Rightarrow>
    (admin_error + security_group_filter) \<times> group_tables" where
  "updateSecurityGroupFilter known n x d =
     (case find_row sgf_id n (gt_filters d) of
        None \<Rightarrow> (Inl (EntityNotFound ''SecurityGroupFilter was not found for the given id''), d)
      | Some f \<Rightarrow> (case validate_filter known x d of
          Inl e \<Rightarrow> (Inl e, d)
        | Inr g \<Rightarrow>
            (let (f', d1) = filter_save (f\<lparr>sgf_group := g, sgf_object_id := sin_object x, sgf_object_type := sin_type x\<rparr>) d
             in (Inr f', d1))))"

definition filter_delete :: "security_group_filter \<Rightarrow> group_tables \<Rightarrow> group_tables" where
  "filter_delete f d = d\<lparr>gt_filters := remove_row sgf_id f (gt_filters d)\<rparr>"

definition deleteSecurityGroupFilter :: "ident \<Rightarrow> group_tables \<Rightarrow> (admin_error + security_group_filter) \<times> group_tables" where
  "deleteSecurityGroupFilter n d =
     (case find_row sgf_id n (gt_filters d) of
        None \<Rightarrow> (Inl (EntityNotFound ''SecurityGroupFilter not found for the given id''), d)
      | Some f \<Rightarrow> (Inr f, filter_delete f d))"

definition deleteSecurityGroup :: "ident \<Rightarrow> group_tables \<Rightarrow> (admin_error + security_group) \<times> group_tables" where
  "deleteSecurityGroup n d =
     (case sg_getById n d of
        None \<Rightarrow> (Inl (EntityNotFound ''Security group not found for the given id''), d)
      | Some g \<Rightarrow>
          (let d1 = fold filter_delete (filter (\<lambda>f. sg_id (sgf_group f) = Some n) (rows (gt_filters d))) d
           in (Inr g, d1\<lparr>gt_groups := remove_row sg_id g (gt_groups d1)\<rparr>)))"

section \<open>Roles of a user\<close>

definition accounts_ok :: "accounts \<Rightarrow> bool" where
  "accounts_ok d \<longleftrightarrow> table_ok role_id (ac_roles d) \<and> distinct (map role_name (rows (ac_roles d)))"

definition roles_known :: "accounts \<Rightarrow> user \<Rightarrow> bool" where
  "roles_known d u \<longleftrightarrow> role_names_distinct u \<and> ur_role ` set (user_roles u) \<subseteq> set (rows (ac_roles d))"

abbreviation held_roles :: "user \<Rightarrow> role set" where
  "held_roles u \<equiv> ur_role ` set (user_roles u)"

interpretation roles: entity role_id "\<lambda>n x. x\<lparr>role_id := Some n\<rparr>" "\<lambda>_ x. x" "\<lambda>_ x. x"
  by unfold_locales simp_all

lemma role_by_name: "accounts_ok d \<Longrightarrow> r \<in> set (rows (ac_roles d)) \<Longrightarrow> q \<in> set (rows (ac_roles d)) \<Longrightarrow> role_name r = role_name q \<longleftrightarrow> r = q"
  by (auto simp: accounts_ok_def distinct_map dest: inj_onD)

lemma getByName_Some: "role_getByName s d = Inr (Some r) \<Longrightarrow> r \<in> set (rows (ac_roles d)) \<and> role_name r = s \<and> group_deleted_at r = None"
  by (cases "filter (\<lambda>r. role_name r = s \<and> group_deleted_at r = None) (rows (ac_roles d))")
    (auto simp: role_getByName_def dest: filter_eq_Cons_D split: if_splits)

lemma getById_Some: "role_getById n d = Some r \<Longrightarrow> r \<in> set (rows (ac_roles d)) \<and> group_deleted_at r = None"
  by (auto simp: role_getById_def find_row_def split: option.splits if_splits dest: find_Some_mem)

lemma input_groups_mem: "r \<in> set (input_groups x d) \<Longrightarrow> r \<in> set (rows (ac_roles d)) \<and> group_deleted_at r = None"
  by (auto simp: input_groups_def map_filter_def dest: getById_Some)

lemma first_expiry_roles: "map ur_role (set_first_expiry n e urs) = map ur_role urs"
  by (induction urs) auto

lemma add_known:
  assumes "accounts_ok d" "roles_known d u" "r \<in> set (rows (ac_roles d))"
  shows "held_roles (addRole u r e) = insert r (held_roles u)" "roles_known d (addRole u r e)"
proof -
  have "r \<in> held_roles u" if "findRole u (role_name r) = Some ur" for ur
  proof -
    have "ur \<in> set (user_roles u)" "role_name (ur_role ur) = role_name r"
      using that by (auto simp: findRole_def dest: find_Some_mem)
    moreover from this have "ur_role ur = r" using role_by_name [OF assms(1) _ assms(3)] assms(2) by (auto simp: roles_known_def)
    ultimately show ?thesis by blast
  qed
  then show h: "held_roles (addRole u r e) = insert r (held_roles u)"
    using arg_cong [OF first_expiry_roles, of set] by (auto simp: addRole_def split: option.splits)
  show "roles_known d (addRole u r e)" using assms h addRole_distinct by (auto simp: roles_known_def)
qed

lemma remove_known:
  assumes "accounts_ok d" "roles_known d u" "r \<in> set (rows (ac_roles d))"
  shows "held_roles (removeRole u r) = held_roles u - {r}" "roles_known d (removeRole u r)"
proof -
  have "set (user_roles (removeRole u r)) = {ur \<in> set (user_roles u). role_name (ur_role ur) \<noteq> role_name r}"
    using assms(2) by (simp add: removeRole_roles remove_first_names roles_known_def role_names_distinct_def)
  moreover have "role_name (ur_role ur) = role_name r \<longleftrightarrow> ur_role ur = r" if "ur \<in> set (user_roles u)" for ur
    using role_by_name [OF assms(1) _ assms(3)] assms(2) that by (auto simp: roles_known_def)
  ultimately show h: "held_roles (removeRole u r) = held_roles u - {r}" by auto
  show "roles_known d (removeRole u r)" using assms(2) h removeRole_distinct by (auto simp: roles_known_def)
qed

lemma add_all_known:
  "accounts_ok d \<Longrightarrow> roles_known d u \<Longrightarrow> set rs \<subseteq> set (rows (ac_roles d)) \<Longrightarrow>
    held_roles (fold (\<lambda>r v. addRole v r None) rs u) = held_roles u \<union> set rs \<and> roles_known d (fold (\<lambda>r v. addRole v r None) rs u)"
  by (induction rs arbitrary: u) (auto simp: add_known)

lemma remove_all_known:
  "accounts_ok d \<Longrightarrow> roles_known d u \<Longrightarrow> set rs \<subseteq> set (rows (ac_roles d)) \<Longrightarrow>
    held_roles (fold (\<lambda>r v. removeRole v r) rs u) = held_roles u - set rs \<and> roles_known d (fold (\<lambda>r v. removeRole v r) rs u)"
  by (induction rs arbitrary: u) (auto simp: remove_known)

lemma groups_held: "set (getGroups u) = {r \<in> held_roles u. group_created_at r \<noteq> None \<and> group_deleted_at r = None}"
  by (auto simp: getGroups_def)

text \<open>An ordinary role that is not deleted is given by adding it, and by no other addition.\<close>

lemma add_all_hasRole:
  assumes "accounts_ok d" "a \<in> set (rows (ac_roles d))" "group_created_at a = None" "group_deleted_at a = None"
  shows "roles_known d u \<Longrightarrow> set rs \<subseteq> set (rows (ac_roles d)) \<Longrightarrow>
    hasRole now (fold (\<lambda>r v. addRole v r None) rs u) (role_name a) \<longleftrightarrow> hasRole now u (role_name a) \<or> a \<in> set rs"
proof (induction rs arbitrary: u)
  case (Cons r rs)
  have r: "r \<in> set (rows (ac_roles d))" "roles_known d (addRole u r None)"
    using Cons.prems add_known(2) [OF assms(1)] by auto
  have "hasRole now (addRole u r None) (role_name a) \<longleftrightarrow> hasRole now u (role_name a) \<or> a = r"
  proof (cases "a = r")
    case True
    have "\<forall>ur \<in> set (user_roles u). role_name (ur_role ur) = role_name r \<longrightarrow> ur_role ur = r"
      using role_by_name [OF assms(1) _ r(1)] Cons.prems(1) by (auto simp: roles_known_def)
    then show ?thesis using True assms(3,4) addRole_gives [of now r None u] by (simp add: active_at_def)
  next
    case False
    then have "role_name a \<noteq> role_name r" using role_by_name [OF assms(1,2) r(1)] by simp
    then show ?thesis using False addRole_other by simp
  qed
  then show ?case using Cons.IH [OF r(2)] Cons.prems(2) by auto
qed simp

lemma remove_all_hasRole:
  assumes "accounts_ok d" "a \<in> set (rows (ac_roles d))"
  shows "roles_known d u \<Longrightarrow> set rs \<subseteq> set (rows (ac_roles d)) - {a} \<Longrightarrow>
    hasRole now (fold (\<lambda>r v. removeRole v r) rs u) (role_name a) = hasRole now u (role_name a)"
proof (induction rs arbitrary: u)
  case (Cons r rs)
  have "role_name a \<noteq> role_name r" using role_by_name [OF assms, of r] Cons.prems(2) by auto
  then have "hasRole now (removeRole u r) (role_name a) = hasRole now u (role_name a)"
    using hasRole_removeRole [of u now r] Cons.prems(1) by (simp add: roles_known_def)
  then show ?case using Cons remove_known(2) [OF assms(1)] by auto
qed simp

lemma quota_kept:
  "user_id (addRole u r e) = user_id u" "user_id (removeRole u r) = user_id u"
  by (auto simp: addRole_def removeRole_def split: option.splits)

lemma folds_id:
  "user_id (fold (\<lambda>r v. addRole v r None) rs u) = user_id u" "user_id (fold (\<lambda>r v. removeRole v r) rs u) = user_id u"
  by (induction rs arbitrary: u) (simp_all add: quota_kept)

lemma first_expiry_set:
  assumes "x \<in> set (set_first_expiry n e xs)" "role_name (ur_role x) = n" "distinct (map (\<lambda>q. role_name (ur_role q)) xs)"
  shows "ur_expires_at x = e"
  using assms
proof (induction xs)
  case (Cons q xs)
  show ?case
  proof (cases "role_name (ur_role q) = n")
    case True
    then have "role_name (ur_role x) \<notin> set (map (\<lambda>q. role_name (ur_role q)) xs)" using Cons.prems(2,3) by simp
    then have "x \<notin> set xs" by fastforce
    then show ?thesis using True Cons.prems(1) by simp
  next
    case False
    then have "x \<in> set (set_first_expiry n e xs)" using Cons.prems(1,2) by auto
    then show ?thesis using Cons.IH Cons.prems(2,3) by simp
  qed
qed simp

text \<open>Adding a live ordinary role with an expiry gives it until then and replaces any other expiry.\<close>

lemma add_known_hasRole:
  assumes "accounts_ok d" "roles_known d u" "r \<in> set (rows (ac_roles d))" "group_created_at r = None" "group_deleted_at r = None"
  shows "hasRole now (addRole u r e) (role_name r) \<longleftrightarrow> (case e of None \<Rightarrow> True | Some t \<Rightarrow> t > now)"
proof
  have eq: "\<forall>ur \<in> set (user_roles u). role_name (ur_role ur) = role_name r \<longrightarrow> ur_role ur = r"
    using role_by_name [OF assms(1) _ assms(3)] assms(2) by (auto simp: roles_known_def)
  show "hasRole now (addRole u r e) (role_name r)" if "case e of None \<Rightarrow> True | Some t \<Rightarrow> t > now"
    using that assms(4,5) eq by (intro addRole_gives) (simp_all add: active_at_def)
  assume "hasRole now (addRole u r e) (role_name r)"
  then obtain ur where ur: "ur \<in> set (user_roles (addRole u r e))" "active_at now ur" "role_name (ur_role ur) = role_name r"
    by (auto simp: hasRole_iff)
  have "ur_expires_at ur = e"
  proof (cases "findRole u (role_name r)")
    case None
    then have "\<forall>q \<in> set (user_roles u). role_name (ur_role q) \<noteq> role_name r" by (auto simp: findRole_def find_None_iff)
    then show ?thesis using ur(1,3) None by (auto simp: addRole_def)
  next
    case (Some x)
    have "user_roles (addRole u r e) = set_first_expiry (role_name r) e (user_roles u)" using Some by (simp add: addRole_def)
    then show ?thesis using ur(1,3) assms(2) by (intro first_expiry_set [of ur "role_name r" e "user_roles u"]) (simp_all add: roles_known_def role_names_distinct_def)
  qed
  then show "case e of None \<Rightarrow> True | Some t \<Rightarrow> t > now" using ur(2) by (simp add: active_at_def)
qed

text \<open>C19: An update of a user that finds its roles and reads its date leaves the user with exactly these roles: those listed, the
  administrator role if it is asked for, the guest role if it is asked for, and every other role held before that is no live
  group. So the groups are exactly those listed; the user is an administrator exactly when that is asked for or the role
  listed, and a guest exactly when the guest role is listed, or is asked for and its date, if there is one, has not come.
\<close>

theorem user_update_exact:
  assumes "accounts_ok d" "find_user s d = Some u" "roles_known d u"
    and "role_getByName ADMIN_ROLE d = Inr (Some a)" "role_getByName GUEST_ROLE d = Inr (Some g)"
    and "group_created_at a = None" "group_created_at g = None" "uin_guest x \<Longrightarrow> guest_expiry parse x = Inr t"
  shows "\<exists>v. updateUser parse s x d = (Inr v, save_user v d) \<and>
    held_roles v = (held_roles u - {a, g} - set (getGroups u)) \<union> set (input_groups x d) \<union>
      (if uin_admin x then {a} else {}) \<union> (if uin_guest x then {g} else {}) \<and>
    set (getGroups v) = {r \<in> set (input_groups x d). group_created_at r \<noteq> None} \<and>
    (\<forall>now. hasRole now v ADMIN_ROLE \<longleftrightarrow> uin_admin x \<or> a \<in> set (input_groups x d)) \<and>
    (\<forall>now. hasRole now v GUEST_ROLE \<longleftrightarrow>
       g \<in> set (input_groups x d) \<or> (uin_guest x \<and> (case t of None \<Rightarrow> True | Some e \<Rightarrow> e > now))) \<and>
    user_instance_quota v = uin_quota x \<and> user_id v = user_id u"
proof -
  let ?given = "input_groups x d" let ?held = "getGroups u"
  let ?adds = "filter (\<lambda>r. \<not> role_in r ?held) ?given" let ?removals = "filter (\<lambda>r. \<not> role_in r ?given) ?held"
  define u1 where "u1 = (if uin_admin x then addRole u a None else removeRole u a)"
  define e where "e = (if uin_guest x then t else None)"
  define u2 where "u2 = (if uin_guest x then addRole u1 g e else removeRole u1 g)"
  define u3 where "u3 = fold (\<lambda>r v. addRole v r None) ?adds u2"
  define v where "v = (fold (\<lambda>r v. removeRole v r) ?removals u3)\<lparr>user_instance_quota := uin_quota x\<rparr>"
  have a: "a \<in> set (rows (ac_roles d))" "role_name a = ADMIN_ROLE" "group_deleted_at a = None" using getByName_Some [OF assms(4)] by auto
  have g: "g \<in> set (rows (ac_roles d))" "role_name g = GUEST_ROLE" "group_deleted_at g = None" using getByName_Some [OF assms(5)] by auto
  have ag: "a \<noteq> g" using a(2) g(2) by (auto simp: role_names)
  have upd: "updateUser parse s x d = (Inr v, save_user v d)"
    using assms(2,4,5,8) by (simp add: updateUser_def switch_role_def Let_def u1_def u2_def u3_def v_def e_def)
  have given: "set ?given \<subseteq> set (rows (ac_roles d))" using input_groups_mem by auto
  have held: "set ?held \<subseteq> set (rows (ac_roles d))" using assms(3) by (auto simp: groups_held roles_known_def)
  have ina: "role_in r qs \<longleftrightarrow> r \<in> set qs" if "r \<in> set (rows (ac_roles d))" "set qs \<subseteq> set (rows (ac_roles d))" for r qs
    using that role_by_name [OF assms(1)] by (auto simp: role_in_def role_equals_def list_ex_iff)
  have sets: "set ?adds = set ?given - set ?held" "set ?removals = set ?held - set ?given"
    using ina given held by auto
  have k1: "roles_known d u1" "held_roles u1 = held_roles u - {a} \<union> (if uin_admin x then {a} else {})"
    using add_known [OF assms(1,3) a(1)] remove_known [OF assms(1,3) a(1)] by (auto simp: u1_def)
  have k2: "roles_known d u2" "held_roles u2 = held_roles u1 - {g} \<union> (if uin_guest x then {g} else {})"
    using add_known [OF assms(1) k1(1) g(1)] remove_known [OF assms(1) k1(1) g(1)] by (auto simp: u2_def)
  have k3: "held_roles u3 = held_roles u2 \<union> set ?adds" "roles_known d u3"
    using add_all_known [OF assms(1) k2(1), of ?adds] given by (auto simp: u3_def)
  have kv: "held_roles v = held_roles u3 - set ?removals"
    using remove_all_known [OF assms(1) k3(2), of ?removals] held by (auto simp: v_def)
  have ng: "a \<notin> set ?held" "g \<notin> set ?held" "set ?held \<subseteq> held_roles u" using assms(6,7) by (auto simp: groups_held)
  have hv: "held_roles v = (held_roles u - {a, g} - set ?held) \<union> set ?given \<union>
      (if uin_admin x then {a} else {}) \<union> (if uin_guest x then {g} else {})"
    unfolding kv k3(1) k2(2) k1(2) sets using ng ag by auto
  then have "set (getGroups v) = {r \<in> set ?given. group_created_at r \<noteq> None}"
    using assms(6,7) input_groups_mem by (auto simp: groups_held split: if_splits)
  moreover have keep: "hasRole now v (role_name r) \<longleftrightarrow> hasRole now u2 (role_name r) \<or> r \<in> set ?given"
    if "r \<in> {a, g}" for r now
  proof -
    have r: "r \<in> set (rows (ac_roles d))" "group_created_at r = None" "group_deleted_at r = None" "r \<notin> set ?held"
      using that a g assms(6,7) ng by auto
    then have "hasRole now v (role_name r) = hasRole now u3 (role_name r)"
      using remove_all_hasRole [OF assms(1) r(1) k3(2), of ?removals now] held by (auto simp: v_def hasRole_iff)
    then show ?thesis using add_all_hasRole [OF assms(1) r(1-3) k2(1), of ?adds now] given sets(1) r(4) by (auto simp: u3_def)
  qed
  moreover have "hasRole now u2 ADMIN_ROLE \<longleftrightarrow> uin_admin x" for now
    using addRole_other [of ADMIN_ROLE g now u1 e] hasRole_removeRole [of u1 now g ADMIN_ROLE] k1(1) g(2)
      add_known_hasRole [OF assms(1,3) a(1) assms(6) a(3), of now None] hasRole_removeRole [of u now a] assms(3) a(2)
    by (simp add: u2_def u1_def roles_known_def role_names split: if_splits)
  moreover have "hasRole now u2 GUEST_ROLE \<longleftrightarrow> uin_guest x \<and> (case t of None \<Rightarrow> True | Some e \<Rightarrow> e > now)" for now
    using add_known_hasRole [OF assms(1) k1(1) g(1) assms(7) g(3), of now t] hasRole_removeRole [of u1 now g] k1(1) g(2)
    by (auto simp: u2_def e_def roles_known_def)
  ultimately show ?thesis using upd hv keep [of a] keep [of g] a(2) g(2)
    by (intro exI [of _ v]) (auto simp: v_def folds_id quota_kept u1_def u2_def u3_def)
qed

section \<open>Deleting a role\<close>

lemma role_save_same:
  assumes "accounts_ok d" "role_getById n d = Some r" "role_id r = Some n"
  shows "role_save (r\<lparr>group_deleted_at := t\<rparr>) d =
    (Inr (r\<lparr>group_deleted_at := t\<rparr>),
     d\<lparr>ac_roles := (ac_roles d)\<lparr>rows := map (\<lambda>q. if role_id q = Some n then r\<lparr>group_deleted_at := t\<rparr> else q) (rows (ac_roles d))\<rparr>\<rparr>)"
proof -
  have f: "find_row role_id n (ac_roles d) = Some r" using assms(2) by (auto simp: role_getById_def split: option.splits if_splits)
  have "\<not> list_ex (\<lambda>x. role_name x = role_name r \<and> role_id x \<noteq> role_id r) (rows (ac_roles d))"
    using role_by_name [OF assms(1)] getById_Some [OF assms(2)] by (auto simp: list_ex_iff)
  then show ?thesis using roles.save_row_same [OF f, of "r\<lparr>group_deleted_at := t\<rparr>"] assms(3) by (simp add: role_save_def)
qed

lemma and_then_isl: "(\<And>y. isl (f y)) \<Longrightarrow> isl (and_then r f)"
  by (cases r) simp_all

lemma update_without_role:
  assumes "role_getByName ADMIN_ROLE d = Inr None \<or> role_getByName GUEST_ROLE d = Inr None"
  shows "isl (fst (updateUser parse w x d)) \<and> snd (updateUser parse w x d) = d"
proof -
  have step: "isl (fst (case r of Inl e \<Rightarrow> (Inl e, d) | Inr v \<Rightarrow> (Inr v, save_user v d))) \<and>
      snd (case r of Inl e \<Rightarrow> (Inl e, d) | Inr v \<Rightarrow> (Inr v, save_user v d)) = d" if "isl r" for r :: "admin_error + user"
    using that by (cases r) simp_all
  show ?thesis
  proof (cases "find_user w d")
    case (Some u)
    show ?thesis
    proof (cases "role_getByName ADMIN_ROLE d")
      case (Inr admin)
      show ?thesis
      proof (cases "role_getByName GUEST_ROLE d")
        case (Inr guest)
        then have "admin = None \<or> guest = None" using assms \<open>role_getByName ADMIN_ROLE d = Inr admin\<close> by auto
        then have "isl (and_then (switch_role b admin None u) (\<lambda>u1. and_then r (\<lambda>t. and_then (switch_role c guest t u1) f)))" for b c r f
          by (cases "admin = None") (simp add: switch_role_def, rule and_then_isl, rule and_then_isl, simp add: switch_role_def)
        then show ?thesis unfolding updateUser_def Some Inr \<open>role_getByName ADMIN_ROLE d = Inr admin\<close> option.simps sum.simps Let_def
          by (intro step)
      qed (use Some Inr in \<open>simp add: updateUser_def\<close>)
    qed (use Some in \<open>simp add: updateUser_def\<close>)
  qed (simp add: updateUser_def)
qed

text \<open>C20: Deleting the role of administrators or guests succeeds; after that no user can be updated and no role of that name can be created.
\<close>

theorem deleted_system_role_blocks_updates:
  fixes now :: date
  assumes "accounts_ok d" "role_getByName s d = Inr (Some r)" "role_id r = Some n" "s \<in> {ADMIN_ROLE, GUEST_ROLE}"
  defines "e \<equiv> snd (deleteRole now n d)"
  shows "fst (deleteRole now n d) = Inr True \<and> isl (fst (updateUser parse w x e)) \<and> snd (updateUser parse w x e) = e \<and>
    createRole later s t e = (Inl (Failure (RuntimeException ''uk_role_name'')), e)"
proof -
  have r: "r \<in> set (rows (ac_roles d))" "role_name r = s" "group_deleted_at r = None" using getByName_Some [OF assms(2)] by auto
  have t: "table_ok role_id (ac_roles d)" using assms(1) by (simp add: accounts_ok_def)
  have g: "role_getById n d = Some r" using roles.find_row_mem [OF t r(1) assms(3)] r(3) by (simp add: role_getById_def)
  let ?q = "r\<lparr>group_deleted_at := Some now\<rparr>"
  let ?rows = "map (\<lambda>q. if role_id q = Some n then ?q else q) (rows (ac_roles d))"
  have e: "fst (deleteRole now n d) = Inr True" "rows (ac_roles e) = ?rows"
    using role_save_same [OF assms(1) g assms(3), of "Some now"] g by (simp_all add: e_def deleteRole_def)
  have "role_name q = s \<longrightarrow> role_id q = Some n" if "q \<in> set (rows (ac_roles d))" for q
    using role_by_name [OF assms(1) that r(1)] r(2) assms(3) by auto
  then have "filter (\<lambda>q. role_name q = s \<and> group_deleted_at q = None) ?rows = []" by (auto simp: filter_empty_conv)
  then have none: "role_getByName s e = Inr None" by (simp only: role_getByName_def e(2) single_result.simps)
  have "?q \<in> set ?rows" using r(1) assms(3) by force
  then have "list_ex (\<lambda>q. role_name q = s \<and> role_id q \<noteq> None) (rows (ac_roles e))"
    unfolding list_ex_iff e(2) by (rule bexI [rotated]) (simp add: r(2) assms(3))
  then have "createRole later s t e = (Inl (Failure (RuntimeException ''uk_role_name'')), e)"
    by (simp add: createRole_def role_save_def none)
  moreover have "isl (fst (updateUser parse w x e)) \<and> snd (updateUser parse w x e) = e"
    using update_without_role none assms(4) by blast
  ultimately show ?thesis using e(1) by simp
qed

text \<open>An account with an administrator, and a group.\<close>

definition sample_accounts :: accounts where
  "sample_accounts =
     \<lparr>ac_users = [alice\<lparr>user_roles := []\<rparr>],
      ac_roles = \<lparr>rows = [\<lparr>role_id = Some 1, role_name = ADMIN_ROLE, role_description = None, group_created_at = None, group_deleted_at = None\<rparr>,
          \<lparr>role_id = Some 2, role_name = GUEST_ROLE, role_description = None, group_created_at = None, group_deleted_at = None\<rparr>,
          \<lparr>role_id = Some 3, role_name = ''PHYSICS'', role_description = None, group_created_at = Some 0, group_deleted_at = None\<rparr>], next_id = 4\<rparr>\<rparr>"

lemma sample_accounts_ok: "accounts_ok sample_accounts"
  by (simp add: accounts_ok_def table_ok_def sample_accounts_def role_names)

lemma sample_role_lookup:
  "role_getByName ADMIN_ROLE sample_accounts = Inr (Some (rows (ac_roles sample_accounts) ! 0))"
  "role_getByName GUEST_ROLE sample_accounts = Inr (Some (rows (ac_roles sample_accounts) ! 1))"
  "role_getById 3 sample_accounts = Some (rows (ac_roles sample_accounts) ! 2)"
  by (simp_all add: role_getByName_def role_getById_def find_row_def sample_accounts_def role_names)

theorem user_update_exact_witness:
  "let x = \<lparr>uin_quota = 3, uin_admin = True, uin_guest = True, uin_guest_expires = Some ''d'', uin_groups = [3, 9]\<rparr>
   in \<exists>v. fst (updateUser (\<lambda>_. Some 5) ''alice'' x sample_accounts) = Inr v \<and> map role_name (getGroups v) = [''PHYSICS''] \<and>
        hasRole 0 v ADMIN_ROLE \<and> hasRole 4 v GUEST_ROLE \<and> \<not> hasRole 5 v GUEST_ROLE"
proof -
  let ?x = "\<lparr>uin_quota = 3, uin_admin = True, uin_guest = True, uin_guest_expires = Some ''d'', uin_groups = [3, 9]\<rparr>"
  let ?r = "rows (ac_roles sample_accounts)"
  have u: "find_user ''alice'' sample_accounts = Some (alice\<lparr>user_roles := []\<rparr>)"
    by (simp add: find_user_def load_user_def sample_accounts_def sample_users)
  have k: "roles_known sample_accounts (alice\<lparr>user_roles := []\<rparr>)" by (simp add: roles_known_def role_names_distinct_def)
  have c: "group_created_at (?r ! 0) = None" "group_created_at (?r ! 1) = None" "group_created_at (?r ! 2) = Some 0" "role_name (?r ! 2) = ''PHYSICS''"
    by (simp_all add: sample_accounts_def)
  have "role_getById 9 sample_accounts = None" by (simp add: role_getById_def find_row_def sample_accounts_def)
  then have g: "input_groups ?x sample_accounts = [?r ! 2]" using sample_role_lookup(3) by (simp add: input_groups_def map_filter_simps)
  have ng: "?r ! 1 \<noteq> ?r ! 2" using c(2,3) by auto
  obtain v where v: "updateUser (\<lambda>_. Some 5) ''alice'' ?x sample_accounts = (Inr v, save_user v sample_accounts)"
      "hasRole 0 v ADMIN_ROLE" "hasRole 4 v GUEST_ROLE" "\<not> hasRole 5 v GUEST_ROLE"
    using user_update_exact [OF sample_accounts_ok u k sample_role_lookup(1,2) c(1,2), of ?x "\<lambda>_. Some 5" "Some 5"] g ng
    by (auto simp: guest_expiry_def)
  moreover have "map role_name (getGroups v) = [''PHYSICS'']"
  proof -
    have "map role_name (getGroups v) = map role_name (getGroups (projr (fst (updateUser (\<lambda>_. Some 5) ''alice'' ?x sample_accounts))))"
      using v(1) by simp
    also have "\<dots> = [''PHYSICS'']" by code_simp
    finally show ?thesis .
  qed
  ultimately show ?thesis by (auto simp: Let_def)
qed

theorem deleted_system_role_blocks_updates_witness:
  "let e = snd (deleteRole 5 1 sample_accounts)
   in isl (fst (updateUser (\<lambda>_. None) ''alice'' \<lparr>uin_quota = 3, uin_admin = False, uin_guest = False, uin_guest_expires = None, uin_groups = []\<rparr> e)) \<and>
      isl (fst (createRole 6 ADMIN_ROLE None e))"
proof -
  have "role_id (rows (ac_roles sample_accounts) ! 0) = Some 1" by (simp add: sample_accounts_def)
  from deleted_system_role_blocks_updates [OF sample_accounts_ok sample_role_lookup(1) this, of 5 "\<lambda>_. None" "''alice''"
      "\<lparr>uin_quota = 3, uin_admin = False, uin_guest = False, uin_guest_expires = None, uin_groups = []\<rparr>" 6 None]
  show ?thesis by (simp add: Let_def)
qed

section \<open>Deleting an instance\<close>

lemma scheduler_is_performAction:
  "isOwnerOrAdmin now u i \<Longrightarrow> t \<in> {START, REBOOT, SHUTDOWN, DELETE} \<Longrightarrow> scheduler_execute now i u t d = (None, snd (performAction now i u t d))"
  by (auto simp: scheduler_execute_def performAction_def Let_def split: prod.splits)

text \<open>For an administrator, deleting an instance through the administration changes the database as the request on the instance does,
  unless the instance is being stopped, where that request only sets the mark.
\<close>

theorem admin_deletion_as_request:
  assumes "hasRole now u ADMIN_ROLE" "loaded i d" "table_ok inst_id (t_inst d)" "inst_id i = Some n" "state i \<noteq> STOPPING"
  shows "admin_deleteInstance now n u d = (None, snd (delete_request now u i d))"
proof -
  have g: "inst_getById n d = Some i" "\<forall>m \<in> set (members i). mem_id m \<noteq> None" using assms(2,4) by (auto simp: loaded_def)
  have a: "isOwnerOrAdmin now u i" using assms(1) by (simp add: isOwnerOrAdmin_def)
  show ?thesis
  proof (cases "compute_id i = None \<or> hasAnyState [STOPPED, ERROR, UNKNOWN, UNAVAILABLE] i")
    case True
    then show ?thesis using g(1) scheduler_is_performAction [OF a, of DELETE d]
      by (simp add: admin_deleteInstance_def performInstanceAction_def delete_request_def)
  next
    case False
    let ?j = "on_update now (i\<lparr>delete_requested := True\<rparr>)"
    define d1 where "d1 = snd (inst_save now (i\<lparr>delete_requested := True\<rparr>) d)"
    have "live i" using inst_getById_Some [OF g(1)] by simp
    then have s: "inst_save now (i\<lparr>delete_requested := True\<rparr>) d = (?j, d1)" "inst_getById n d1 = Some ?j"
      using save_loaded [OF assms(3) _ g(1), of "i\<lparr>delete_requested := True\<rparr>"] assms(4) g(2) by (simp_all add: live_def d1_def)
    have "isOwnerOrAdmin now u ?j" "state ?j \<noteq> STOPPING" using a assms(5) by (simp_all add: isOwnerOrAdmin_def isOwner_def on_update_def)
    then show ?thesis using False g(1) s scheduler_is_performAction [of now u ?j SHUTDOWN d1]
      by (auto simp: admin_deleteInstance_def performInstanceAction_def delete_request_def)
  qed
qed

theorem admin_deletion_as_request_witness:
  "let u = alice\<lparr>user_roles := [\<lparr>ur_role = rows (ac_roles sample_accounts) ! 0, ur_expires_at = None\<rparr>]\<rparr>
   in admin_deleteInstance 5 1 u sample_db = (None, snd (delete_request 5 u inst_alice sample_db))"
proof -
  let ?u = "alice\<lparr>user_roles := [\<lparr>ur_role = rows (ac_roles sample_accounts) ! 0, ur_expires_at = None\<rparr>]\<rparr>"
  have "hasRole 5 ?u ADMIN_ROLE" by (simp add: hasRole_iff active_at_def sample_accounts_def)
  moreover have "inst_id inst_alice = Some 1" "state inst_alice \<noteq> STOPPING" by (simp_all add: sample_insts)
  ultimately show ?thesis
    using admin_deletion_as_request [OF _ sample_loaded(1) sample_db_instances, of 5 ?u 1] by (simp add: Let_def)
qed

section \<open>Filters of security groups\<close>

lemma filter_delete_fold:
  "rows (gt_filters (fold filter_delete fs d)) = filter (\<lambda>f. sgf_id f \<notin> sgf_id ` set fs) (rows (gt_filters d)) \<and>
   gt_groups (fold filter_delete fs d) = gt_groups d"
proof (induction fs arbitrary: d)
  case (Cons x fs)
  have "(\<lambda>f. sgf_id f \<noteq> sgf_id x \<and> sgf_id f \<notin> sgf_id ` set fs) = (\<lambda>f. sgf_id f \<notin> sgf_id ` set (x # fs))" by auto
  then show ?case using Cons.IH [of "filter_delete x d"] by (simp add: filter_delete_def remove_row_def)
qed simp

text \<open>Deleting a security group removes exactly the filters of that group with it, and the group is found no more.
\<close>

theorem deleted_group_leaves_no_filter:
  assumes "sg_getById n d = Some g" "table_ok sgf_id (gt_filters d)"
  defines "e \<equiv> snd (deleteSecurityGroup n d)"
  shows "rows (gt_filters e) = filter (\<lambda>f. sg_id (sgf_group f) \<noteq> Some n) (rows (gt_filters d)) \<and>
    sg_getById n e = None \<and> (\<forall>k. k \<noteq> n \<longrightarrow> sg_getById k e = sg_getById k d)"
proof -
  let ?fs = "filter (\<lambda>f. sg_id (sgf_group f) = Some n) (rows (gt_filters d))"
  have id: "sg_id g = Some n" using assms(1) groups.find_row_id by (fastforce simp: sg_getById_def split: option.splits if_splits)
  have e: "e = (fold filter_delete ?fs d)\<lparr>gt_groups := remove_row sg_id g (gt_groups d)\<rparr>"
    using assms(1) filter_delete_fold [of ?fs d] by (simp add: e_def deleteSecurityGroup_def Let_def)
  have inj: "x = y" if "x \<in> set (rows (gt_filters d))" "y \<in> set (rows (gt_filters d))" "sgf_id x = sgf_id y" for x y
    using assms(2) that unfolding table_ok_def by (metis distinct_map inj_onD)
  have "rows (gt_filters e) = filter (\<lambda>f. sgf_id f \<notin> sgf_id ` set ?fs) (rows (gt_filters d))"
    unfolding e using filter_delete_fold [of ?fs d] by simp
  also have "\<dots> = filter (\<lambda>f. sg_id (sgf_group f) \<noteq> Some n) (rows (gt_filters d))"
    using inj by (intro filter_cong) (auto simp: image_iff)
  finally show ?thesis using id groups.find_row_remove [of _ g "gt_groups d"] by (auto simp: e sg_getById_def)
qed

text \<open>An update of a filter does not look for another of the same group and object; with two of them, a creation fails in the query.\<close>

lemma filter_update_duplicates:
  assumes "find_row sgf_id n (gt_filters d) = Some f" "table_ok sgf_id (gt_filters d)" "validate_filter known x d = Inr g"
    and "f' \<in> set (rows (gt_filters d))" "sgf_id f' \<noteq> Some n"
    and "sg_id (sgf_group f') = Some (sin_group x)" "sgf_object_id f' = sin_object x" "sgf_object_type f' = sin_type x"
  shows "fst (createSecurityGroupFilter known x (snd (updateSecurityGroupFilter known n x d))) = Inl (Failure NonUniqueResult)"
proof -
  have id: "sgf_id f = Some n" using group_filters.find_row_id [OF assms(1)] by simp
  let ?f = "f\<lparr>sgf_group := g, sgf_object_id := sin_object x, sgf_object_type := sin_type x\<rparr>"
  have gid: "sg_id g = Some (sin_group x)"
    using assms(3) groups.find_row_id by (fastforce simp: validate_filter_def sg_getById_def split: option.splits if_splits)
  have r: "rows (gt_filters (snd (updateSecurityGroupFilter known n x d))) = map (\<lambda>r. if sgf_id r = Some n then ?f else r) (rows (gt_filters d))"
    using assms(1,3) group_filters.save_row_same [OF assms(1), of ?f 0] id
    by (simp add: updateSecurityGroupFilter_def filter_save_def Let_def)
  let ?hits = "filter (\<lambda>h. sg_id (sgf_group h) = Some (sin_group x) \<and> sgf_object_id h = sin_object x \<and> sgf_object_type h = sin_type x)
      (map (\<lambda>r. if sgf_id r = Some n then ?f else r) (rows (gt_filters d)))"
  have "?f \<in> set ?hits" "f' \<in> set ?hits"
    using gid id group_filters.find_row_id [OF assms(1)] assms(4-8) by (force, force)
  moreover have "sgf_id ?f \<noteq> sgf_id f'" using id assms(5) by simp
  ultimately have "single_result sgf_id ?hits = Inl NonUniqueResult"
    by (rule single_result_two)
  then show ?thesis by (simp add: createSecurityGroupFilter_def filter_by_key_def r)
qed

theorem deleted_group_leaves_no_filter_witness:
  "let g = \<lparr>sg_id = Some 1, sg_name = ''a'', sg_cloud = None\<rparr>; h = \<lparr>sg_id = Some 2, sg_name = ''b'', sg_cloud = None\<rparr>;
       f = \<lambda>n k. \<lparr>sgf_id = Some n, sgf_object_id = 7, sgf_object_type = ''ROLE'', sgf_group = k\<rparr>;
       d = \<lparr>gt_groups = \<lparr>rows = [g, h], next_id = 3\<rparr>, gt_filters = \<lparr>rows = [f 1 g, f 2 h, f 3 g], next_id = 4\<rparr>\<rparr>
   in rows (gt_filters (snd (deleteSecurityGroup 1 d))) = [f 2 h]"
proof -
  let ?g = "\<lparr>sg_id = Some 1, sg_name = ''a'', sg_cloud = None\<rparr>" let ?h = "\<lparr>sg_id = Some 2, sg_name = ''b'', sg_cloud = None\<rparr>"
  let ?f = "\<lambda>n k. \<lparr>sgf_id = Some n, sgf_object_id = 7, sgf_object_type = ''ROLE'', sgf_group = k\<rparr>"
  let ?d = "\<lparr>gt_groups = \<lparr>rows = [?g, ?h], next_id = 3\<rparr>, gt_filters = \<lparr>rows = [?f 1 ?g, ?f 2 ?h, ?f 3 ?g], next_id = 4\<rparr>\<rparr>"
  have "sg_getById 1 ?d = Some ?g" "table_ok sgf_id (gt_filters ?d)"
    by (simp_all add: sg_getById_def find_row_def sg_cloud_live_def table_ok_def)
  from deleted_group_leaves_no_filter [OF this] show ?thesis by (simp add: Let_def)
qed

end
