(* ===== verification/Script_Prelude.thy ===== *)
theory Script_Prelude
  imports Main "HOL-Library.Word" "HOL-Library.Char_ord"
begin

unbundle bit_operations_syntax

text \<open>
  The JavaScript values that the models of the bundled scripts use. A string is the list of its
  UTF-16 code units, a typed array of bytes the list of its elements. A number that a script
  combines bit by bit is a 32-bit word, since \<^verbatim>\<open><<\<close>, \<^verbatim>\<open>>>\<close>, \<^verbatim>\<open>&\<close> and \<^verbatim>\<open>|\<close> work on 32-bit integers; all other numbers
  are integers of HOL, where the model's comments say why no rounding can occur.
\<close>

type_synonym js = "nat list"

definition lit :: "string \<Rightarrow> js" where
  "lit s = map of_char s"

text \<open>\<^verbatim>\<open>indexOf\<close> of a code unit; \<^verbatim>\<open>replace\<close> of one code unit by a string, everywhere; \<^verbatim>\<open>join\<close> and \<^verbatim>\<open>split\<close>.\<close>

fun js_index_from :: "nat \<Rightarrow> 'a list \<Rightarrow> 'a \<Rightarrow> int" where
  "js_index_from k [] c = -1"
| "js_index_from k (x # xs) c = (if x = c then int k else js_index_from (Suc k) xs c)"

definition js_indexOf :: "'a list \<Rightarrow> 'a \<Rightarrow> int" where
  "js_indexOf xs c = js_index_from 0 xs c"

definition js_replace :: "nat \<Rightarrow> js \<Rightarrow> js \<Rightarrow> js" where
  "js_replace c r s = concat (map (\<lambda>x. if x = c then r else [x]) s)"

fun js_join :: "js \<Rightarrow> js list \<Rightarrow> js" where
  "js_join sep [] = []"
| "js_join sep [x] = x"
| "js_join sep (x # y # ys) = x @ sep @ js_join sep (y # ys)"

fun js_split :: "nat \<Rightarrow> js \<Rightarrow> js list" where
  "js_split c [] = [[]]"
| "js_split c (x # xs) =
     (if x = c then [] # js_split c xs else (case js_split c xs of [] \<Rightarrow> [[x]] | y # ys \<Rightarrow> (x # y) # ys))"

text \<open>\<^verbatim>\<open>xs[i]\<close>, which is \<^verbatim>\<open>undefined\<close> out of range.\<close>

definition js_at :: "'a list \<Rightarrow> int \<Rightarrow> 'a option" where
  "js_at xs i = (if 0 \<le> i \<and> i < int (length xs) then Some (xs ! nat i) else None)"

text \<open>\<^verbatim>\<open>String(n)\<close> of a natural number.\<close>

fun decimal :: "nat \<Rightarrow> js" where
  "decimal n = (if n < 10 then [48 + n] else decimal (n div 10) @ [48 + n mod 10])"

declare decimal.simps [simp del]

lemma js_index_from_nth:
  "distinct xs \<Longrightarrow> i < length xs \<Longrightarrow> js_index_from k xs (xs ! i) = int (k + i)"
proof (induction xs arbitrary: k i)
  case (Cons x xs)
  then show ?case by (cases i) auto
qed simp

lemma js_indexOf_nth: "distinct xs \<Longrightarrow> i < length xs \<Longrightarrow> js_indexOf xs (xs ! i) = int i"
  by (simp add: js_indexOf_def js_index_from_nth)

lemma js_index_from_absent: "js_index_from k xs c = -1 \<longleftrightarrow> c \<notin> set xs"
  by (induction xs arbitrary: k) auto

lemma js_indexOf_absent: "js_indexOf xs c = -1 \<longleftrightarrow> c \<notin> set xs"
  by (simp add: js_indexOf_def js_index_from_absent)

lemma js_replace_simps [simp]:
  "js_replace c r [] = []" "js_replace c r (x # xs) = (if x = c then r else [x]) @ js_replace c r xs"
  "js_replace c r (s @ t) = js_replace c r s @ js_replace c r t"
  by (simp_all add: js_replace_def)

lemma js_split_not_Nil [simp]: "js_split c s \<noteq> []"
  by (cases s) (auto split: list.split)

lemma js_join_split: "js_join [c] (js_split c s) = s"
proof (induction s)
  case (Cons x xs)
  obtain y ys where y: "js_split c xs = y # ys" by (cases "js_split c xs") auto
  then show ?case using Cons.IH by (cases ys) auto
qed simp

lemma js_split_plain: "c \<notin> set s \<Longrightarrow> js_split c s = [s]"
  by (induction s) auto

lemma js_split_append: "c \<notin> set s \<Longrightarrow> js_split c (s @ c # t) = s # js_split c t"
  by (induction s) auto

lemma js_split_join:
  "xs \<noteq> [] \<Longrightarrow> (\<And>x. x \<in> set xs \<Longrightarrow> c \<notin> set x) \<Longrightarrow> js_split c (js_join [c] xs) = xs"
  by (induction "[c]" xs rule: js_join.induct) (simp_all add: js_split_plain js_split_append)

text \<open>Bits of a word as arithmetic.\<close>

lemma unat_and_mask: "unat (w AND mask m) = unat (w :: 'a::len word) mod 2 ^ m"
  unfolding take_bit_eq_mask [symmetric] unsigned_take_bit_eq by (rule take_bit_eq_mod)

lemma decimal_value: "foldl (\<lambda>v d. 10 * v + (d - 48)) 0 (decimal n) = n"
proof (induction n rule: decimal.induct)
  case (1 n)
  then show ?case by (cases "n < 10") (simp_all add: decimal.simps [of n])
qed

lemma unat_drop_bit: "unat (drop_bit k w) = unat (w :: 'a::len word) div 2 ^ k"
  unfolding unat_drop_bit_eq by (rule drop_bit_eq_div)

end
