(* ===== verification/Script_State.thy ===== *)
theory Script_State
  imports Script_Prelude
begin

text \<open>
  The state of the Swagger UI: the paths of the immutable maps (\<^verbatim>\<open>getIn\<close>, \<^verbatim>\<open>updateIn\<close>), the layout
  plugin with its toggles, and the authorisation plugin. A value of the state is a primitive, a plain
  object or an immutable map; the order in which a map lists its keys is not observable here, so a
  map is an association list without meaning in its order. Lists do not occur in these two parts
  of the state. A \<^verbatim>\<open>TypeError\<close> or a failed \<^verbatim>\<open>invariant\<close> is \<^const>\<open>None\<close>.
\<close>

datatype jv =
    JUndef
  | JNull
  | JBool bool
  | JStr js
  | JObj "(js \<times> jv) list"
  | JMap "(js \<times> jv) list"

fun truthy :: "jv \<Rightarrow> bool" where
  "truthy JUndef = False"
| "truthy JNull = False"
| "truthy (JBool b) = b"
| "truthy (JStr s) = (s \<noteq> [])"
| "truthy (JObj m) = True"
| "truthy (JMap m) = True"

fun aset :: "'k \<Rightarrow> 'v \<Rightarrow> ('k \<times> 'v) list \<Rightarrow> ('k \<times> 'v) list" where
  "aset k v [] = [(k, v)]"
| "aset k v ((k', v') # m) = (if k' = k then (k, v) # m else (k', v') # aset k v m)"

definition adel :: "'k \<Rightarrow> ('k \<times> 'v) list \<Rightarrow> ('k \<times> 'v) list" where
  "adel k m = filter (\<lambda>(k', _). k' \<noteq> k) m"

lemma map_of_aset [simp]: "map_of (aset k v m) k' = (if k' = k then Some v else map_of m k')"
  by (induction m) auto

lemma map_of_adel [simp]: "map_of (adel k m) k' = (if k' = k then None else map_of m k')"
  by (induction m) (auto simp: adel_def)

section \<open>Paths\<close>

text \<open>
  \<^verbatim>\<open>r && r.get ? r.get(i, vn) : vn\<close>: a plain object has no \<^verbatim>\<open>get\<close> but a property of that name, which is
  then called; a missing one ends the walk with the default.
\<close>

fun getIn :: "jv \<Rightarrow> js list \<Rightarrow> jv \<Rightarrow> jv option" where
  "getIn r [] d = Some r"
| "getIn r (i # is) d =
     (case r of
        JMap m \<Rightarrow> (case map_of m i of None \<Rightarrow> Some d | Some r' \<Rightarrow> getIn r' is d)
      | JObj m \<Rightarrow> (case map_of m (lit ''get'') of
            Some g \<Rightarrow> if truthy g then None else Some d
          | None \<Rightarrow> Some d)
      | _ \<Rightarrow> Some d)"

text \<open>
  \<^verbatim>\<open>updateInDeepMap\<close>: the argument and the result are \<^const>\<open>None\<close> for the mark \<^verbatim>\<open>NOT_SET\<close>; the outer option is
  the invariant \<^verbatim>\<open>invalid keyPath\<close>. The updater gets the default in place of a missing value. Of the
  values here only a map has the method \<^verbatim>\<open>set\<close>; a plain object with a property \<^verbatim>\<open>set\<close> passes the
  invariant and throws at the next call.
\<close>

fun is_map :: "jv \<Rightarrow> bool" where
  "is_map (JMap m) = True"
| "is_map _ = False"

fun entries :: "jv option \<Rightarrow> (js \<times> jv) list" where
  "entries (Some (JMap m)) = m"
| "entries _ = []"

fun updateInDeep :: "jv option \<Rightarrow> js list \<Rightarrow> jv option \<Rightarrow> (jv option \<Rightarrow> jv option) \<Rightarrow> jv option option" where
  "updateInDeep e [] d f =
     (let a = (case e of None \<Rightarrow> d | Some v \<Rightarrow> Some v); s = f a in Some (if s = a then e else s))"
| "updateInDeep e (k # ks) d f =
     (if (case e of None \<Rightarrow> True | Some v \<Rightarrow> is_map v)
      then (case updateInDeep (map_of (entries e) k) ks d f of
              None \<Rightarrow> None
            | Some None \<Rightarrow> Some (if map_of (entries e) k = None then e else map_option (\<lambda>_. JMap (adel k (entries e))) e)
            | Some (Some u) \<Rightarrow> Some (Some (JMap (aset k u (entries e)))))
      else None)"

text \<open>\<^verbatim>\<open>setIn\<close> of \<^verbatim>\<open>Map\<close>.\<close>

definition setIn :: "jv \<Rightarrow> js list \<Rightarrow> jv \<Rightarrow> jv option" where
  "setIn s ks v = (case updateInDeep (Some s) ks None (\<lambda>_. Some v) of Some (Some s') \<Rightarrow> Some s' | _ \<Rightarrow> None)"

lemma updateInDeep_const:
  "updateInDeep e ks None (\<lambda>_. Some v) = Some r \<Longrightarrow> \<exists>w. r = Some w"
  by (induction ks arbitrary: e r) (auto split: if_splits option.splits)

lemma updateInDeep_unset:
  "updateInDeep None ks None (\<lambda>_. Some v) = updateInDeep (Some (JMap [])) ks None (\<lambda>_. Some v)"
proof (cases ks)
  case (Cons k ls)
  then show ?thesis using updateInDeep_const [of None ls v]
    by (cases "updateInDeep None ls None (\<lambda>_. Some v)") auto
qed simp

lemma setIn_Nil [simp]: "setIn s [] v = Some v"
  by (simp add: setIn_def)

lemma setIn_Cons:
  "setIn s (k # ks) v =
     (case s of
        JMap m \<Rightarrow> map_option (\<lambda>u. JMap (aset k u m)) (setIn (case map_of m k of Some x \<Rightarrow> x | None \<Rightarrow> JMap []) ks v)
      | _ \<Rightarrow> None)"
proof (cases s)
  case (JMap m)
  have "updateInDeep (map_of m k) ks None (\<lambda>_. Some v) =
      updateInDeep (Some (case map_of m k of Some x \<Rightarrow> x | None \<Rightarrow> JMap [])) ks None (\<lambda>_. Some v)"
    using updateInDeep_unset [of ks v] by (cases "map_of m k") simp_all
  then show ?thesis
    using JMap updateInDeep_const [of "Some (case map_of m k of Some x \<Rightarrow> x | None \<Rightarrow> JMap [])" ks v]
    by (auto simp: setIn_def split: option.splits)
qed (auto simp: setIn_def)

lemma getIn_setIn: "setIn s ks v = Some s' \<Longrightarrow> getIn s' ks d = Some v"
proof (induction ks arbitrary: s s')
  case (Cons k ks)
  then show ?case by (auto simp: setIn_Cons split: jv.splits option.splits)
qed simp

text \<open>Neither path runs into the other.\<close>

definition apart :: "'a list \<Rightarrow> 'a list \<Rightarrow> bool" where
  "apart ks ls \<longleftrightarrow> take (length ls) ks \<noteq> ls \<and> take (length ks) ls \<noteq> ks"

lemma apart_Nil [simp]: "\<not> apart [] ls" "\<not> apart ks []"
  by (simp_all add: apart_def)

lemma apart_Cons [simp]: "apart (k # ks) (l # ls) \<longleftrightarrow> k \<noteq> l \<or> apart ks ls"
  by (auto simp: apart_def)

lemma getIn_empty: "ls \<noteq> [] \<Longrightarrow> getIn (JMap []) ls d = Some d"
  by (cases ls) simp_all

lemma getIn_setIn_apart:
  "setIn s ks v = Some s' \<Longrightarrow> apart ks ls \<Longrightarrow> getIn s' ls d = getIn s ls d"
proof (induction ks arbitrary: s s' ls)
  case (Cons k ks)
  obtain l ls' where ls: "ls = l # ls'" using Cons.prems(2) by (cases ls) auto
  obtain m u where s: "s = JMap m" "s' = JMap (aset k u m)"
    and u: "setIn (case map_of m k of Some x \<Rightarrow> x | None \<Rightarrow> JMap []) ks v = Some u"
    using Cons.prems(1) by (auto simp: setIn_Cons split: jv.splits)
  show ?case
  proof (cases "l = k")
    case True
    then have a: "apart ks ls'" using Cons.prems(2) ls by simp
    then have "getIn u ls' d = getIn (case map_of m k of Some x \<Rightarrow> x | None \<Rightarrow> JMap []) ls' d"
      by (rule Cons.IH [OF u])
    moreover have "ls' \<noteq> []" using a by auto
    ultimately show ?thesis using s ls True by (cases "map_of m k") (simp_all add: getIn_empty)
  qed (use s ls in simp)
qed simp

section \<open>Layout\<close>

datatype layout_action =
    UPDATE_LAYOUT js
  | SHOW "js list" jv
  | UPDATE_MODE "js list" jv

text \<open>
  The argument \<^verbatim>\<open>thing\<close> is a string or an array; \<^verbatim>\<open>show\<close>'s second argument is \<^verbatim>\<open>true\<close> by default,
  \<^verbatim>\<open>changeMode\<close>'s the empty string, and \<^verbatim>\<open>undefined\<close> counts as absent.
\<close>

definition normalizeArray :: "js + js list \<Rightarrow> js list" where
  "normalizeArray e = (case e of Inr a \<Rightarrow> a | Inl s \<Rightarrow> [s])"

definition show_action :: "js + js list \<Rightarrow> jv \<Rightarrow> layout_action" where
  "show_action thing shown = SHOW (normalizeArray thing) (if shown = JUndef then JBool True else shown)"

definition changeMode :: "js + js list \<Rightarrow> jv \<Rightarrow> layout_action" where
  "changeMode thing mode = UPDATE_MODE (normalizeArray thing) (if mode = JUndef then JStr [] else mode)"

text \<open>\<^verbatim>\<open>(n || "") + ""\<close>, for modes that are strings or falsy.\<close>

definition mode_text :: "jv \<Rightarrow> js" where
  "mode_text v = (case v of JStr s \<Rightarrow> s | JBool True \<Rightarrow> lit ''true'' | JObj _ \<Rightarrow> lit ''[object Object]'' | _ \<Rightarrow> [])"

definition layout_reducer :: "jv \<Rightarrow> layout_action \<Rightarrow> jv option" where
  "layout_reducer e t =
     (case t of
        UPDATE_LAYOUT l \<Rightarrow> setIn e [lit ''layout''] (JStr l)
      | SHOW r n \<Rightarrow> setIn e (lit ''shown'' # r) n
      | UPDATE_MODE r n \<Rightarrow> setIn e (lit ''modes'' # r) (JStr (mode_text n)))"

definition isShown :: "jv \<Rightarrow> js + js list \<Rightarrow> jv \<Rightarrow> bool option" where
  "isShown e t r = map_option truthy (getIn e (lit ''shown'' # normalizeArray t) r)"

definition whatMode :: "jv \<Rightarrow> js + js list \<Rightarrow> jv \<Rightarrow> jv option" where
  "whatMode e t r = getIn e (lit ''modes'' # normalizeArray t) (if r = JUndef then JStr [] else r)"

text \<open>The response header's \<^verbatim>\<open>toggleShown\<close> reads the selector with the default \<^verbatim>\<open>false\<close>.\<close>

definition toggleShown :: "js + js list \<Rightarrow> jv \<Rightarrow> jv option" where
  "toggleShown key e =
     Option.bind (isShown e key (JBool False)) (\<lambda>b. layout_reducer e (show_action key (JBool (\<not> b))))"

text \<open>Whenever \<^verbatim>\<open>toggleShown\<close> does not throw it turns the shown state of its own key around, leaves every key whose path is apart from it and every mode as they were.\<close>

theorem toggle_flips_only_its_key:
  assumes "toggleShown key e = Some e'"
  shows "isShown e' key (JBool d) = map_option Not (isShown e key (JBool False)) \<and>
    (\<forall>other r. apart (normalizeArray key) (normalizeArray other) \<longrightarrow> isShown e' other r = isShown e other r) \<and>
    (\<forall>any m. whatMode e' any m = whatMode e any m)"
proof -
  obtain b where b: "isShown e key (JBool False) = Some b"
    and s: "setIn e (lit ''shown'' # normalizeArray key) (JBool (\<not> b)) = Some e'"
    using assms by (auto simp: toggleShown_def layout_reducer_def show_action_def split: bind_splits)
  have "isShown e' key (JBool d) = Some (\<not> b)"
    unfolding isShown_def getIn_setIn [OF s] by simp
  moreover have "isShown e' other r = isShown e other r" if "apart (normalizeArray key) (normalizeArray other)" for other r
    unfolding isShown_def by (subst getIn_setIn_apart [OF s]) (use that in simp_all)
  moreover have "whatMode e' any m = whatMode e any m" for any m
    unfolding whatMode_def by (rule getIn_setIn_apart [OF s]) (simp add: lit_def)
  ultimately show ?thesis using b by simp
qed

theorem toggle_flips_only_its_key_witness:
  "let key = Inr [lit ''operations'', lit ''pets'']; other = Inr [lit ''operations'', lit ''users''];
       e = the (toggleShown key (JMap []))
   in isShown e key (JBool False) = Some True \<and> isShown e other (JBool False) = Some False"
proof -
  let ?key = "Inr [lit ''operations'', lit ''pets''] :: js + js list"
  let ?other = "Inr [lit ''operations'', lit ''users''] :: js + js list"
  obtain e' where e: "toggleShown ?key (JMap []) = Some e'"
    by (simp add: toggleShown_def isShown_def layout_reducer_def show_action_def normalizeArray_def setIn_Cons)
  have "apart (normalizeArray ?key) (normalizeArray ?other)"
    by (simp add: normalizeArray_def lit_def)
  then have "isShown e' ?key (JBool False) = map_option Not (isShown (JMap []) ?key (JBool False)) \<and>
      isShown e' ?other (JBool False) = isShown (JMap []) ?other (JBool False)"
    using toggle_flips_only_its_key [OF e] by blast
  moreover have "isShown (JMap []) k (JBool False) = Some False" for k
    by (simp add: isShown_def)
  ultimately show ?thesis by (simp only: e option.sel Let_def option.map simp_thms)
qed

end
