(* ===== verification/Script_Auth.thy ===== *)
theory Script_Auth
  imports Script_State
begin

text \<open>
  The authorisation plugin of the Swagger UI: its actions, its reducers and the selector that says
  whether an operation's security requirements are met. \<^verbatim>\<open>btoa\<close>, which a package outside the file
  provides, and the text of an immutable map (\<^verbatim>\<open>map_text\<close>) are arguments.
\<close>

datatype auth_action =
    SHOW_AUTH_POPUP jv
  | AUTHORIZE "(js \<times> jv) list"
  | AUTHORIZE_OAUTH2 js "(js \<times> jv) list" jv
  | LOGOUT "js list"
  | CONFIGURE_AUTH jv

text \<open>\<^verbatim>\<open>fromJS\<close> turns plain objects into maps, all the way down; a map stays as it is.\<close>

fun fromJS :: "jv \<Rightarrow> jv" where
  "fromJS (JObj m) = JMap (map (\<lambda>(k, v). (k, fromJS v)) m)"
| "fromJS v = v"

definition js_text :: "(jv \<Rightarrow> js) \<Rightarrow> jv \<Rightarrow> js" where
  "js_text map_text v =
     (case v of
        JUndef \<Rightarrow> lit ''undefined''
      | JNull \<Rightarrow> lit ''null''
      | JBool b \<Rightarrow> (if b then lit ''true'' else lit ''false'')
      | JStr s \<Rightarrow> s
      | JObj _ \<Rightarrow> lit ''[object Object]''
      | JMap _ \<Rightarrow> map_text v)"

text \<open>\<^verbatim>\<open>e.get(k) || Map()\<close>, \<^verbatim>\<open>e.get(k)\<close> and \<^verbatim>\<open>e.set(k, v)\<close> of a map; \<^const>\<open>None\<close> where there is no such method.\<close>

definition map_get :: "jv \<Rightarrow> js \<Rightarrow> jv option" where
  "map_get e k = (if is_map e then Some (case map_of (entries (Some e)) k of Some v \<Rightarrow> v | None \<Rightarrow> JUndef) else None)"

definition map_set :: "jv \<Rightarrow> js \<Rightarrow> jv \<Rightarrow> jv option" where
  "map_set e k v = (if is_map e then Some (JMap (aset k v (entries (Some e)))) else None)"

definition authorized :: "jv \<Rightarrow> jv option" where
  "authorized e = map_option (\<lambda>v. if truthy v then v else JMap []) (map_get e (lit ''authorized''))"

text \<open>One entry of the payload: an API key is stored as it is, basic credentials as a header.\<close>

definition authorize_entry :: "(js \<Rightarrow> js) \<Rightarrow> (jv \<Rightarrow> js) \<Rightarrow> js \<times> jv \<Rightarrow> jv \<Rightarrow> jv option" where
  "authorize_entry btoa map_text entry o1 =
     (case entry of (r, n) \<Rightarrow>
       if \<not> is_map n then None
       else Option.bind (getIn n [lit ''schema'', lit ''type''] JUndef) (\<lambda>u.
         if u = JStr (lit ''apiKey'') then map_set o1 r n
         else if u = JStr (lit ''basic'') then
           Option.bind (getIn n [lit ''value'', lit ''username''] JUndef) (\<lambda>s.
           Option.bind (getIn n [lit ''value'', lit ''password''] JUndef) (\<lambda>l.
           Option.bind (map_get n (lit ''schema'')) (\<lambda>schema.
           if \<not> is_map o1 then None
           else Option.bind (setIn o1 [r, lit ''value'']
                   (JObj [(lit ''username'', s),
                          (lit ''header'', JStr (lit ''Basic '' @ btoa (js_text map_text s @ lit '':'' @ js_text map_text l)))]))
                 (\<lambda>o2. setIn o2 [r, lit ''schema''] schema))))
         else Some o1))"

fun authorize_entries :: "(js \<Rightarrow> js) \<Rightarrow> (jv \<Rightarrow> js) \<Rightarrow> (js \<times> jv) list \<Rightarrow> jv \<Rightarrow> jv option" where
  "authorize_entries btoa map_text [] o1 = Some o1"
| "authorize_entries btoa map_text (x # xs) o1 =
     Option.bind (authorize_entry btoa map_text x o1) (authorize_entries btoa map_text xs)"

definition auth_reducer :: "(js \<Rightarrow> js) \<Rightarrow> (jv \<Rightarrow> js) \<Rightarrow> jv \<Rightarrow> auth_action \<Rightarrow> jv option" where
  "auth_reducer btoa map_text e t =
     (case t of
        SHOW_AUTH_POPUP r \<Rightarrow> map_set e (lit ''showDefinitions'') r
      | AUTHORIZE r \<Rightarrow>
          Option.bind (authorized e) (\<lambda>o1.
          Option.bind (authorize_entries btoa map_text (entries (Some (fromJS (JObj r)))) o1)
            (map_set e (lit ''authorized'')))
      | AUTHORIZE_OAUTH2 name n token \<Rightarrow>
          (if is_map e
           then setIn e [lit ''authorized'', name]
                  (fromJS (JObj (aset (lit ''token'') token (aset (lit ''name'') (JStr name) n))))
           else None)
      | LOGOUT r \<Rightarrow>
          Option.bind (map_get e (lit ''authorized'')) (\<lambda>a.
          if is_map a then map_set e (lit ''authorized'') (JMap (fold adel r (entries (Some a)))) else None)
      | CONFIGURE_AUTH r \<Rightarrow> map_set e (lit ''configs'') r)"

text \<open>
  \<^verbatim>\<open>isAuthorized\<close>: the requirements are a list of objects, of which only the keys matter. The answer is
  \<^verbatim>\<open>null\<close> (the inner \<^const>\<open>None\<close>) where they are no list.
\<close>

definition isAuthorized :: "jv \<Rightarrow> js list list option \<Rightarrow> bool option option" where
  "isAuthorized e t =
     Option.bind (authorized e) (\<lambda>n.
       case t of
         None \<Rightarrow> Some None
       | Some reqs \<Rightarrow>
           if is_map n \<or> (\<forall>r \<in> set reqs. r = [])
           then Some (Some (filter (\<lambda>r. False \<notin> set (map (\<lambda>k. truthy (case map_of (entries (Some n)) k of Some v \<Rightarrow> v | None \<Rightarrow> JUndef)) r)) reqs \<noteq> []))
           else None)"

section \<open>What the actions do to the authorisations\<close>

text \<open>The security schemes with an authorisation.\<close>

definition signed_in :: "jv \<Rightarrow> js \<Rightarrow> bool" where
  "signed_in e k \<longleftrightarrow> (case map_of (entries (authorized e)) k of Some v \<Rightarrow> truthy v | None \<Rightarrow> False)"

definition known_type :: "jv \<Rightarrow> bool" where
  "known_type n \<longleftrightarrow> getIn (fromJS n) [lit ''schema'', lit ''type''] JUndef \<in>
     {Some (JStr (lit ''apiKey'')), Some (JStr (lit ''basic''))}"

lemma is_map_cases: "is_map e \<longleftrightarrow> (\<exists>m. e = JMap m)"
  by (cases e) auto

lemma map_set_SomeD:
  "map_set e k v = Some e' \<Longrightarrow> \<exists>m. e = JMap m \<and> e' = JMap (aset k v m)"
  by (auto simp: map_set_def is_map_cases split: if_splits)

lemma entries_Some_is_map: "is_map v \<Longrightarrow> \<exists>m. v = JMap m \<and> entries (Some v) = m"
  by (auto simp: is_map_cases)

lemma authorized_aset_other:
  "k \<noteq> lit ''authorized'' \<Longrightarrow> authorized (JMap (aset k v m)) = authorized (JMap m)"
  by (simp add: authorized_def map_get_def)

lemma authorized_aset:
  "authorized (JMap (aset (lit ''authorized'') (JMap a) m)) = Some (JMap a)"
  by (simp add: authorized_def map_get_def)

lemma map_of_fold_adel: "map_of (fold adel ns m) k = (if k \<in> set ns then None else map_of m k)"
  by (induction ns arbitrary: m) auto

definition has_key :: "jv \<Rightarrow> js \<Rightarrow> bool" where
  "has_key n k \<longleftrightarrow> (case map_of (entries (Some n)) k of Some v \<Rightarrow> truthy v | None \<Rightarrow> False)"

definition stored_type :: "jv \<Rightarrow> bool" where
  "stored_type n \<longleftrightarrow> getIn n [lit ''schema'', lit ''type''] JUndef \<in>
     {Some (JStr (lit ''apiKey'')), Some (JStr (lit ''basic''))}"

lemma is_map_truthy: "is_map v \<Longrightarrow> truthy v"
  by (cases v) simp_all

lemma setIn_is_map: "setIn s (k # ks) v = Some s' \<Longrightarrow> is_map s \<and> is_map s'"
  by (cases s) (auto simp: setIn_Cons)

lemma has_key_setIn:
  assumes "setIn s [r, l] v = Some s'"
  shows "has_key s' k \<longleftrightarrow> has_key s k \<or> k = r"
proof -
  obtain m u where s: "s = JMap m" "s' = JMap (aset r u m)"
    and u: "setIn (case map_of m r of Some x \<Rightarrow> x | None \<Rightarrow> JMap []) [l] v = Some u"
    using assms by (cases s) (auto simp: setIn_Cons [where k = r])
  have "truthy u" using setIn_is_map [OF u] is_map_truthy by blast
  then show ?thesis using s by (simp add: has_key_def)
qed

lemma authorize_entry_effect:
  assumes "authorize_entry btoa map_text (r, n) o1 = Some o2"
  shows "(has_key o2 k \<longleftrightarrow> has_key o1 k \<or> k = r \<and> stored_type n) \<and> (truthy o1 \<longrightarrow> truthy o2)"
proof -
  obtain u where n: "is_map n" and u: "getIn n [lit ''schema'', lit ''type''] JUndef = Some u"
    using assms unfolding authorize_entry_def by (auto split: if_splits bind_splits)
  consider "u = JStr (lit ''apiKey'')" | "u = JStr (lit ''basic'')" | "u \<notin> {JStr (lit ''apiKey''), JStr (lit ''basic'')}"
    by blast
  then show ?thesis
  proof cases
    case 1
    then have "map_set o1 r n = Some o2" using assms n u by (simp add: authorize_entry_def)
    then obtain m where "o1 = JMap m" "o2 = JMap (aset r n m)" using map_set_SomeD by blast
    moreover have "stored_type n" using 1 u by (simp add: stored_type_def)
    ultimately show ?thesis using is_map_truthy [OF n] by (auto simp: has_key_def)
  next
    case 2
    then have ne: "u \<noteq> JStr (lit ''apiKey'')" by (simp add: lit_def)
    obtain x o3 y where s: "setIn o1 [r, lit ''value''] x = Some o3" "setIn o3 [r, lit ''schema''] y = Some o2"
      using assms n u 2 ne unfolding authorize_entry_def by (auto split: if_splits bind_splits)
    have "stored_type n" using 2 u by (simp add: stored_type_def)
    moreover have "truthy o2" using setIn_is_map [OF s(2)] is_map_truthy by blast
    ultimately show ?thesis using has_key_setIn [OF s(1)] has_key_setIn [OF s(2)] by blast
  next
    case 3
    then have "\<not> stored_type n" using u by (simp add: stored_type_def)
    then show ?thesis using assms n u 3 by (simp add: authorize_entry_def)
  qed
qed

lemma authorize_entries_effect:
  "authorize_entries btoa map_text xs o1 = Some o2 \<Longrightarrow>
   (has_key o2 k \<longleftrightarrow> has_key o1 k \<or> (\<exists>n. (k, n) \<in> set xs \<and> stored_type n)) \<and> (truthy o1 \<longrightarrow> truthy o2)"
proof (induction xs arbitrary: o1)
  case (Cons x xs)
  obtain r n where x: "x = (r, n)" by (cases x)
  obtain o3 where o3: "authorize_entry btoa map_text (r, n) o1 = Some o3" "authorize_entries btoa map_text xs o3 = Some o2"
    using Cons.prems x by (auto split: bind_splits)
  show ?case using authorize_entry_effect [OF o3(1), of k] Cons.IH [OF o3(2)] x by auto
qed simp

lemma known_type_stored: "known_type n = stored_type (fromJS n)"
  by (simp only: known_type_def stored_type_def)

lemma signed_in_has_key: "authorized e = Some n \<Longrightarrow> signed_in e k = has_key n k"
  by (simp add: signed_in_def has_key_def)

lemma signed_in_aset_other:
  "k \<noteq> lit ''authorized'' \<Longrightarrow> signed_in (JMap (aset k v m)) = signed_in (JMap m)"
  by (simp add: signed_in_def authorized_aset_other fun_eq_iff)

text \<open>The schemes that are authorised after an action, given those before it.\<close>

definition signed_after :: "auth_action \<Rightarrow> (js \<Rightarrow> bool) \<Rightarrow> js \<Rightarrow> bool" where
  "signed_after t before k \<longleftrightarrow>
    (case t of
       AUTHORIZE r \<Rightarrow> before k \<or> (\<exists>n. (k, n) \<in> set r \<and> known_type n)
     | AUTHORIZE_OAUTH2 name n token \<Rightarrow> before k \<or> k = name
     | LOGOUT r \<Rightarrow> before k \<and> k \<notin> set r
     | _ \<Rightarrow> before k)"

lemma signed_in_step:
  assumes "auth_reducer btoa map_text e t = Some e'"
  shows "signed_in e' k \<longleftrightarrow> signed_after t (signed_in e) k"
proof (cases t)
  case (SHOW_AUTH_POPUP r)
  then show ?thesis using assms map_set_SomeD [of e "lit ''showDefinitions''" r e']
    by (auto simp: auth_reducer_def signed_in_aset_other lit_def signed_after_def)
next
  case (CONFIGURE_AUTH r)
  then show ?thesis using assms map_set_SomeD [of e "lit ''configs''" r e']
    by (auto simp: auth_reducer_def signed_in_aset_other lit_def signed_after_def)
next
  case (AUTHORIZE r)
  then obtain o1 o2 where o: "authorized e = Some o1"
      "authorize_entries btoa map_text (entries (Some (fromJS (JObj r)))) o1 = Some o2"
      "map_set e (lit ''authorized'') o2 = Some e'"
    using assms by (auto simp: auth_reducer_def split: bind_splits)
  have "truthy o1" using o(1) by (auto simp: authorized_def)
  then have "truthy o2" using authorize_entries_effect [OF o(2)] by blast
  then have "authorized e' = Some o2"
    using map_set_SomeD [OF o(3)] by (auto simp: authorized_def map_get_def)
  moreover have "(\<exists>n. (k, n) \<in> set (entries (Some (fromJS (JObj r)))) \<and> stored_type n) \<longleftrightarrow> (\<exists>n. (k, n) \<in> set r \<and> known_type n)"
    by (force simp: known_type_stored)
  ultimately show ?thesis using authorize_entries_effect [OF o(2), of k] AUTHORIZE o(1) by (simp add: signed_in_has_key signed_after_def)
next
  case (AUTHORIZE_OAUTH2 name n token)
  define v where "v = fromJS (JObj (aset (lit ''token'') token (aset (lit ''name'') (JStr name) n)))"
  obtain m where e: "e = JMap m" and s: "setIn e [lit ''authorized'', name] v = Some e'"
    using assms AUTHORIZE_OAUTH2 by (auto simp: auth_reducer_def is_map_cases v_def split: if_splits)
  define a where "a = (case map_of m (lit ''authorized'') of Some x \<Rightarrow> x | None \<Rightarrow> JMap [])"
  obtain u where u: "setIn a [name] v = Some u" and e': "e' = JMap (aset (lit ''authorized'') u m)"
    using s e by (auto simp: setIn_Cons [where k = "lit ''authorized''"] a_def)
  obtain am where a: "a = JMap am" and um: "u = JMap (aset name v am)"
    using u by (cases a) (auto simp: setIn_Cons)
  have "authorized e = Some a" using a a_def e by (auto simp: authorized_def map_get_def split: option.splits)
  moreover have "authorized e' = Some u" using e' um by (simp add: authorized_aset)
  moreover have "truthy v" by (simp add: v_def)
  ultimately show ?thesis using AUTHORIZE_OAUTH2 a um by (simp add: signed_in_has_key has_key_def signed_after_def)
next
  case (LOGOUT r)
  then obtain a e0 where e: "map_get e (lit ''authorized'') = Some (JMap a)"
      "map_set e (lit ''authorized'') (JMap (fold adel r a)) = Some e'"
    using assms by (auto simp: auth_reducer_def is_map_cases split: bind_splits if_splits)
  then have "authorized e = Some (JMap a)" by (simp add: authorized_def)
  moreover have "authorized e' = Some (JMap (fold adel r a))"
    using map_set_SomeD [OF e(2)] by (auto simp: authorized_aset)
  ultimately show ?thesis using LOGOUT by (auto simp: signed_in_has_key has_key_def map_of_fold_adel signed_after_def split: option.splits)
qed

lemma truthy_of_option:
  "truthy (case x of Some v \<Rightarrow> v | None \<Rightarrow> JUndef) = (case x of Some v \<Rightarrow> truthy v | None \<Rightarrow> False)"
  by (cases x) simp_all

lemma isAuthorized_signed_in:
  assumes "isAuthorized e (Some reqs) = Some b"
  shows "b = Some (\<exists>r \<in> set reqs. \<forall>k \<in> set r. signed_in e k)"
proof -
  obtain n where n: "authorized e = Some n" using assms by (auto simp: isAuthorized_def split: bind_splits)
  have "(False \<notin> set (map (has_key n) r)) = (\<forall>k \<in> set r. signed_in e k)" for r
    using signed_in_has_key [OF n] by auto
  moreover have "b = Some (filter (\<lambda>r. False \<notin> set (map (has_key n) r)) reqs \<noteq> [])"
    using assms n by (auto simp: isAuthorized_def has_key_def truthy_of_option split: if_splits)
  ultimately show ?thesis by (auto simp: filter_empty_conv)
qed

text \<open>The effect of every authorisation action, on the schemes and on the operations: a login adds exactly the schemes of its payload that are API keys or basic credentials, an OAuth2 login adds its scheme, a logout removes exactly the schemes it names, the other actions change none; and an operation counts as authorised just when one of its alternatives needs only schemes that are then signed in.\<close>

theorem auth_action_effect:
  assumes "auth_reducer btoa map_text e t = Some e'"
  shows "(\<forall>k. signed_in e' k \<longleftrightarrow> signed_after t (signed_in e) k) \<and>
    (isAuthorized e' (Some reqs) = Some b \<longrightarrow>
     b = Some (\<exists>r \<in> set reqs. \<forall>k \<in> set r. signed_after t (signed_in e) k))"
  using signed_in_step [OF assms] isAuthorized_signed_in [of e' reqs b] by auto

text \<open>A login with an API key and a logout, with the requirements of an operation that takes either of two keys.\<close>

theorem auth_action_effect_witness:
  "let login = AUTHORIZE [(lit ''key'', JObj [(lit ''schema'', JObj [(lit ''type'', JStr (lit ''apiKey''))])])];
       e = the (auth_reducer id (\<lambda>_. []) (JMap []) login)
   in signed_in e (lit ''key'') \<and> isAuthorized e (Some [[lit ''key''], [lit ''other'']]) = Some (Some True)"
proof -
  let ?login = "AUTHORIZE [(lit ''key'', JObj [(lit ''schema'', JObj [(lit ''type'', JStr (lit ''apiKey''))])])]"
  have known: "known_type (JObj [(lit ''schema'', JObj [(lit ''type'', JStr (lit ''apiKey''))])])"
    by (simp add: known_type_def)
  obtain e where e: "auth_reducer id (\<lambda>_. []) (JMap []) ?login = Some e" and m: "is_map e"
    and am: "\<exists>n. authorized e = Some n \<and> is_map n"
    by (simp add: auth_reducer_def authorized_def map_get_def map_set_def authorize_entry_def)
  then obtain b where "isAuthorized e (Some [[lit ''key''], [lit ''other'']]) = Some b"
    by (auto simp: isAuthorized_def)
  then show ?thesis
    using auth_action_effect [OF e, of "[[lit ''key''], [lit ''other'']]" b] known
    by (simp only: e option.sel Let_def) (simp add: signed_after_def)
qed

end
