(* ===== verification/Script_Forms.thy ===== *)
theory Script_Forms
  imports Script_Prelude "HOL-Library.List_Lexorder"
begin

text \<open>
  What the Swagger UI does with the parameters of an operation: the check of the values that were
  typed in, the status code whose response is shown first, names of models and of titles, and the
  list behind an array input.
\<close>

section \<open>Validation of a parameter\<close>

text \<open>A value is absent, a string, a plain array or an immutable list; strings are all that a form yields.\<close>

datatype pvalue = Absent | Text js | PlainArray "pvalue list" | IList "js list"

record param =
  pm_in :: js
  pm_required :: bool
  pm_type :: js
  pm_item_type :: js
  pm_value :: pvalue
  pm_value_xml :: pvalue

datatype param_error = RequiredError | NumberError | IntegerError | ItemError nat param_error

definition is_digit :: "nat \<Rightarrow> bool" where
  "is_digit c \<longleftrightarrow> 48 \<le> c \<and> c \<le> 57"

definition is_line_terminator :: "nat \<Rightarrow> bool" where
  "is_line_terminator c \<longleftrightarrow> c = 10 \<or> c = 13 \<or> c = 8232 \<or> c = 8233"

definition drop_minus :: "js \<Rightarrow> js" where
  "drop_minus s = (case s of c # r \<Rightarrow> if c = 45 then r else s | [] \<Rightarrow> [])"

text \<open>The expressions \<^verbatim>\<open>/^-?\d+(.?\d+)?$/\<close> and \<^verbatim>\<open>/^-?\d+$/\<close>: the digits are taken greedily.\<close>

definition number_regex :: "js \<Rightarrow> bool" where
  "number_regex s =
     (let b = drop_minus s in
      takeWhile is_digit b \<noteq> [] \<and>
      (case dropWhile is_digit b of
         [] \<Rightarrow> True
       | c # ds \<Rightarrow> \<not> is_line_terminator c \<and> ds \<noteq> [] \<and> (\<forall>d \<in> set ds. is_digit d)))"

definition integer_regex :: "js \<Rightarrow> bool" where
  "integer_regex s = (let b = drop_minus s in b \<noteq> [] \<and> (\<forall>d \<in> set b. is_digit d))"

definition validateNumber :: "js \<Rightarrow> param_error option" where
  "validateNumber e = (if number_regex e then None else Some NumberError)"

definition validateInteger :: "js \<Rightarrow> param_error option" where
  "validateInteger e = (if integer_regex e then None else Some IntegerError)"

definition truthy_value :: "pvalue \<Rightarrow> bool" where
  "truthy_value v = (case v of Absent \<Rightarrow> False | Text s \<Rightarrow> s \<noteq> [] | _ \<Rightarrow> True)"

definition item_errors :: "js \<Rightarrow> js list \<Rightarrow> param_error list" where
  "item_errors u es =
     concat (map (\<lambda>(t, e).
       (case (if u = lit ''number'' then validateNumber e else if u = lit ''integer'' then validateInteger e else None) of
          None \<Rightarrow> [] | Some n \<Rightarrow> [ItemError t n])) (zip [0..<length es] es))"

text \<open>
  \<^const>\<open>None\<close> is a \<^verbatim>\<open>TypeError\<close>: only an immutable list has \<^verbatim>\<open>count\<close>. A number or integer that is no string
  is tested as the text it converts to, which \<^verbatim>\<open>to_text\<close> gives.
\<close>

definition validateParam :: "(pvalue \<Rightarrow> js) \<Rightarrow> param \<Rightarrow> bool \<Rightarrow> param_error list option" where
  "validateParam to_text e isXml =
     (let n = (if isXml \<and> pm_in e = lit ''body'' then pm_value_xml e else pm_value e);
          o1 = pm_required e; a = pm_type e in
      if o1 \<and> (\<not> truthy_value n \<or> a = lit ''array'' \<and> n = PlainArray []) then Some [RequiredError]
      else if \<not> truthy_value n then Some []
      else if a = lit ''number'' then
        Some (case validateNumber (to_text n) of None \<Rightarrow> [] | Some u \<Rightarrow> [u])
      else if a = lit ''integer'' then
        Some (case validateInteger (to_text n) of None \<Rightarrow> [] | Some u \<Rightarrow> [u])
      else if a = lit ''array'' then
        (case n of
           IList es \<Rightarrow> if length es = 0 then Some [] else Some (item_errors (pm_item_type e) es)
         | _ \<Rightarrow> None)
      else Some [])"

text \<open>The strings that count as numbers: beside the decimal fractions, all that have any one character for the point.\<close>

lemma number_regex_iff:
  "number_regex s \<longleftrightarrow>
     (\<exists>ds. drop_minus s = ds \<and> ds \<noteq> [] \<and> (\<forall>d \<in> set ds. is_digit d)) \<or>
     (\<exists>ds c es. drop_minus s = ds @ c # es \<and> ds \<noteq> [] \<and> es \<noteq> [] \<and> \<not> is_line_terminator c \<and>
        (\<forall>d \<in> set ds \<union> set es. is_digit d))" (is "?l \<longleftrightarrow> ?r")
proof
  assume l: ?l
  let ?b = "drop_minus s"
  have b: "?b = takeWhile is_digit ?b @ dropWhile is_digit ?b" by simp
  have d: "\<forall>d \<in> set (takeWhile is_digit ?b). is_digit d" by (auto dest: set_takeWhileD)
  show ?r
  proof (cases "dropWhile is_digit ?b")
    case Nil
    then have "takeWhile is_digit ?b = ?b" using b by simp
    then show ?thesis using l d by (auto simp: number_regex_def Let_def)
  next
    case (Cons c es)
    then show ?thesis using l b d by (intro disjI2 exI [where x = "takeWhile is_digit ?b"] exI [where x = c] exI [where x = es])
        (auto simp: number_regex_def Let_def)
  qed
next
  assume ?r
  then show ?l
  proof
    assume "\<exists>ds. drop_minus s = ds \<and> ds \<noteq> [] \<and> (\<forall>d \<in> set ds. is_digit d)"
    then have "takeWhile is_digit (drop_minus s) = drop_minus s" "dropWhile is_digit (drop_minus s) = []" "drop_minus s \<noteq> []"
      by (simp_all add: takeWhile_eq_all_conv dropWhile_eq_Nil_conv)
    then show ?l by (simp only: number_regex_def Let_def list.case simp_thms)
  next
    assume "\<exists>ds c es. drop_minus s = ds @ c # es \<and> ds \<noteq> [] \<and> es \<noteq> [] \<and> \<not> is_line_terminator c \<and>
        (\<forall>d \<in> set ds \<union> set es. is_digit d)"
    then obtain ds c es where s: "drop_minus s = ds @ c # es" "ds \<noteq> []" "es \<noteq> []" "\<not> is_line_terminator c"
      "\<forall>d \<in> set ds. is_digit d" "\<forall>d \<in> set es. is_digit d" by blast
    show ?l
    proof (cases "is_digit c")
      case True
      then have tw: "takeWhile is_digit (ds @ c # es) = ds @ c # es" "dropWhile is_digit (ds @ c # es) = []"
        using s(5,6) by (auto simp: takeWhile_eq_all_conv dropWhile_eq_Nil_conv)
      show ?thesis unfolding number_regex_def Let_def s(1) tw by simp
    next
      case False
      then have tw: "takeWhile is_digit (ds @ c # es) = ds" "dropWhile is_digit (ds @ c # es) = c # es"
        using s(5) by (simp_all add: takeWhile_append dropWhile_append)
      show ?thesis unfolding number_regex_def Let_def s(1) tw using s by simp
    qed
  qed
qed

text \<open>Two values pass the check of a parameter against its declaration: a required array whose
  immutable list is empty, whatever the item type, and a number whose point is replaced by any other
  character, such as \<^verbatim>\<open>1x5\<close>.
\<close>

theorem parameter_check_gaps:
  "validateParam to_text \<lparr>pm_in = place, pm_required = True, pm_type = lit ''array'', pm_item_type = items,
      pm_value = IList [], pm_value_xml = v\<rparr> False = Some [] \<and>
   validateParam (\<lambda>v. case v of Text s \<Rightarrow> s | _ \<Rightarrow> to_text v)
     \<lparr>pm_in = place, pm_required = True, pm_type = lit ''number'', pm_item_type = items,
      pm_value = Text (lit ''1x5''), pm_value_xml = v\<rparr> False = Some []"
proof -
  have "number_regex (lit ''1x5'')"
    by (simp add: number_regex_def lit_def drop_minus_def is_digit_def is_line_terminator_def)
  moreover have "lit ''array'' \<noteq> lit ''number''" "lit ''array'' \<noteq> lit ''integer''" "lit ''number'' \<noteq> lit ''array''"
    by (simp_all add: lit_def)
  ultimately show ?thesis by (simp add: validateParam_def truthy_value_def validateNumber_def Let_def) (simp add: lit_def)
qed

section \<open>Status codes and names\<close>

text \<open>\<^verbatim>\<open>defaultStatusCode\<close>: the comparison of strings is that of their code units; \<^verbatim>\<open>first\<close> of nothing is \<^verbatim>\<open>undefined\<close>.\<close>

definition defaultStatusCode :: "js list \<Rightarrow> js option" where
  "defaultStatusCode t =
     (if lit ''default'' \<in> set t then Some (lit ''default'')
      else (case sort (filter (\<lambda>e. e \<noteq> [] \<and> hd e = 50) t) of [] \<Rightarrow> None | x # _ \<Rightarrow> Some x))"

lemma defaultStatusCode_first_success:
  assumes "lit ''default'' \<notin> set t"
  shows "defaultStatusCode t = None \<longleftrightarrow> (\<forall>e \<in> set t. e = [] \<or> hd e \<noteq> 50)"
    and "defaultStatusCode t = Some x \<Longrightarrow> x \<in> set t \<and> hd x = 50 \<and> (\<forall>e \<in> set t. e \<noteq> [] \<and> hd e = 50 \<longrightarrow> x \<le> e)"
proof -
  let ?f = "filter (\<lambda>e. e \<noteq> [] \<and> hd e = 50) t"
  have s: "set (sort ?f) = set ?f" "sorted (sort ?f)" by simp_all
  show "defaultStatusCode t = None \<longleftrightarrow> (\<forall>e \<in> set t. e = [] \<or> hd e \<noteq> 50)"
    using assms s(1) by (cases "sort ?f") (auto simp: defaultStatusCode_def)
  assume "defaultStatusCode t = Some x"
  then obtain ys where "sort ?f = x # ys" using assms by (auto simp: defaultStatusCode_def split: list.splits)
  then show "x \<in> set t \<and> hd x = 50 \<and> (\<forall>e \<in> set t. e \<noteq> [] \<and> hd e = 50 \<longrightarrow> x \<le> e)"
    using s by auto
qed

text \<open>
  \<^verbatim>\<open>getModelName\<close>: behind the last \<^verbatim>\<open>#/definitions/\<close> before which there is no line terminator, since the
  dot of the expression is greedy and matches none; a text whose only occurrences lie behind one
  stays as it is.
\<close>

definition definitions_mark :: js where
  "definitions_mark = lit ''#/definitions/''"

definition mark_at :: "js \<Rightarrow> nat \<Rightarrow> bool" where
  "mark_at e p \<longleftrightarrow> take (length definitions_mark) (drop p e) = definitions_mark"

definition getModelName :: "js \<Rightarrow> js option" where
  "getModelName e =
     (let ps = filter (mark_at e) [0..<length e] in
      if ps = [] then None
      else (case filter (\<lambda>p. \<forall>c \<in> set (take p e). \<not> is_line_terminator c) ps of
              [] \<Rightarrow> Some e
            | q # qs \<Rightarrow> Some (drop (last (q # qs) + length definitions_mark) e)))"

lemma last_filter_upt:
  assumes "P k" and "k < n" and "\<And>j. k < j \<Longrightarrow> j < n \<Longrightarrow> \<not> P j"
  shows "last (filter P [0..<n]) = k" "filter P [0..<n] \<noteq> []"
proof -
  have "[0..<n] = [0..<k] @ k # [Suc k..<n]"
    using assms(2) by (metis le_eq_less_or_eq less_imp_le_nat upt_add_eq_append upt_conv_Cons zero_le add_0 le_add_diff_inverse)
  moreover have "filter P [Suc k..<n] = []" using assms(3) by (auto simp: filter_empty_conv)
  ultimately have "filter P [0..<n] = filter P [0..<k] @ [k]" using assms(1) by simp
  then show "last (filter P [0..<n]) = k" "filter P [0..<n] \<noteq> []" by simp_all
qed

lemma getModelName_reference:
  assumes "\<forall>c \<in> set prefix. \<not> is_line_terminator c" and "35 \<notin> set name"
  shows "getModelName (prefix @ definitions_mark @ name) = Some name"
proof -
  let ?e = "prefix @ definitions_mark @ name"
  let ?k = "length prefix"
  have mark: "definitions_mark = 35 # tl definitions_mark" "35 \<notin> set (tl definitions_mark)"
    by (simp_all add: definitions_mark_def lit_def)
  have at: "mark_at ?e ?k" by (simp add: mark_at_def)
  have not_at: "\<not> mark_at ?e j" if "?k < j" for j
  proof
    assume "mark_at ?e j"
    then have m: "take (length definitions_mark) (drop j ?e) = definitions_mark" by (simp add: mark_at_def)
    have "35 \<in> set definitions_mark" by (simp add: definitions_mark_def lit_def)
    then have "35 \<in> set (take (length definitions_mark) (drop j ?e))" by (simp only: m)
    then have "35 \<in> set (drop j ?e)" by (rule in_set_takeD)
    moreover define i where "i = j - Suc ?k"
    have "?e = (prefix @ [35]) @ (tl definitions_mark @ name)" by (simp add: definitions_mark_def lit_def)
    then have "drop j ?e = drop j ((prefix @ [35]) @ (tl definitions_mark @ name))" by (rule arg_cong)
    then have "drop j ?e = drop i (tl definitions_mark @ name)" using that unfolding drop_append by (simp add: i_def)
    ultimately have "35 \<in> set (drop i (tl definitions_mark @ name))" by (simp only:)
    then have "35 \<in> set (tl definitions_mark @ name)" by (rule in_set_dropD)
    then show False using mark(2) assms(2) by simp
  qed
  have len: "?k < length ?e" by (simp add: definitions_mark_def lit_def)
  let ?ps = "filter (mark_at ?e) [0..<length ?e]"
  have ne: "?ps \<noteq> []" by (rule last_filter_upt(2) [of "mark_at ?e" ?k, OF at len]) (rule not_at)
  let ?P = "\<lambda>p. mark_at ?e p \<and> (\<forall>c \<in> set (take p ?e). \<not> is_line_terminator c)"
  let ?qs = "filter (\<lambda>p. \<forall>c \<in> set (take p ?e). \<not> is_line_terminator c) ?ps"
  have P: "?qs = filter ?P [0..<length ?e]" unfolding filter_filter by (rule arg_cong [where f = "\<lambda>g. filter g _"]) blast
  have Pk: "?P ?k" using at assms(1) by simp
  have Pj: "\<not> ?P j" if "?k < j" "j < length ?e" for j using not_at [OF that(1)] by blast
  have q: "last ?qs = ?k" "?qs \<noteq> []"
    unfolding P by (rule last_filter_upt [of ?P ?k "length ?e", OF Pk len Pj]; assumption)+
  obtain p ps where ps: "?qs = p # ps" using q(2) by (cases ?qs) blast+
  have "getModelName ?e = Some (drop (last (p # ps) + length definitions_mark) ?e)"
    unfolding getModelName_def Let_def if_not_P [OF ne] ps by (simp only: list.case)
  also have "last (p # ps) = ?k" using q(1) ps by (simp only:)
  also have "drop (?k + length definitions_mark) ?e = name" by simp
  finally show ?thesis .
qed

text \<open>Titles: the first letter of every word, given by \<^verbatim>\<open>up\<close>; an empty word has none, which is a \<^verbatim>\<open>TypeError\<close>.\<close>

definition capitalise :: "(nat \<Rightarrow> js) \<Rightarrow> js \<Rightarrow> js option" where
  "capitalise up e =
     (let ws = js_split 32 e in
      if [] \<in> set ws then None else Some (js_join (lit '' '') (map (\<lambda>w. up (hd w) @ tl w) ws)))"

lemma capitalise_words:
  assumes "capitalise up e = Some r" and "\<And>c. 32 \<notin> set (up c)" and "\<And>w. w \<in> set (js_split 32 e) \<Longrightarrow> 32 \<notin> set w"
  shows "js_split 32 r = map (\<lambda>w. up (hd w) @ tl w) (js_split 32 e)"
proof -
  have "r = js_join [32] (map (\<lambda>w. up (hd w) @ tl w) (js_split 32 e))"
    using assms(1) by (auto simp: capitalise_def Let_def lit_def split: if_splits)
  moreover have "32 \<notin> set x" if x: "x \<in> set (map (\<lambda>w. up (hd w) @ tl w) (js_split 32 e))" for x
  proof -
    obtain w where w: "w \<in> set (js_split 32 e)" "x = up (hd w) @ tl w" using x by auto
    have "32 \<notin> set (tl w)" using assms(3) [OF w(1)] list.set_sel(2) [of w 32] by (cases w) simp_all
    then show ?thesis using assms(2) [of "hd w"] w(2) by simp
  qed
  moreover have "map (\<lambda>w. up (hd w) @ tl w) (js_split 32 e) \<noteq> []" by simp
  ultimately show ?thesis using js_split_join by blast
qed

section \<open>Array inputs\<close>

text \<open>
  The list behind an array input; it is absent until the first item is added, an item is \<^const>\<open>None\<close> where
  setting one behind the end leaves a hole. An outer \<^const>\<open>None\<close> is a \<^verbatim>\<open>TypeError\<close>.
\<close>

type_synonym items = "js option list option"

definition addItem :: "items \<Rightarrow> items" where
  "addItem e = Some ((case e of Some xs \<Rightarrow> xs | None \<Rightarrow> []) @ [Some []])"

definition onItemChange :: "js \<Rightarrow> nat \<Rightarrow> items \<Rightarrow> items option" where
  "onItemChange v i e =
     map_option (\<lambda>xs. Some (if i < length xs then xs[i := Some v] else xs @ replicate (i - length xs) None @ [Some v])) e"

definition removeItem :: "nat \<Rightarrow> items \<Rightarrow> items option" where
  "removeItem i e = map_option (\<lambda>xs. Some (if i < length xs then take i xs @ drop (Suc i) xs else xs)) e"

lemma array_input_edits:
  "removeItem (length xs) (addItem (Some xs)) = Some (Some xs)"
  "i \<le> length xs \<Longrightarrow> onItemChange v i (if i < length xs then Some xs else addItem (Some xs)) =
     Some (Some (take i xs @ Some v # drop (Suc i) xs))"
  "addItem None = addItem (Some [])"
  by (auto simp: addItem_def removeItem_def onItemChange_def upd_conv_take_nth_drop nth_append list_update_append)

end
