(* ===== verification/Script_Scanner.thy ===== *)
theory Script_Scanner
  imports Script_Prelude
begin

text \<open>
  The scanner of the JavaScript parser: the skipping of white space and comments with its count of
  lines, the words and the punctuators. The text is the argument \<^verbatim>\<open>src\<close>, which the scanner never changes;
  the record holds the rest of the state that these operations use. A character past the end is
  \<^const>\<open>None\<close>. A syntax error that is not tolerated is \<^const>\<open>None\<close> in place of the new state.
\<close>

record scanner =
  sc_index :: nat
  sc_lineNumber :: nat
  sc_lineStart :: nat
  sc_curlyStack :: "js list"

definition new_scanner :: "js \<Rightarrow> scanner" where
  "new_scanner src = \<lparr>sc_index = 0, sc_lineNumber = (if length src > 0 then 1 else 0), sc_lineStart = 0, sc_curlyStack = []\<rparr>"

definition char_at :: "js \<Rightarrow> nat \<Rightarrow> nat option" where
  "char_at src i = (if i < length src then Some (src ! i) else None)"

definition eof :: "js \<Rightarrow> scanner \<Rightarrow> bool" where
  "eof src s \<longleftrightarrow> sc_index s \<ge> length src"

definition isWhiteSpace :: "nat \<Rightarrow> bool" where
  "isWhiteSpace e \<longleftrightarrow> e = 32 \<or> e = 9 \<or> e = 11 \<or> e = 12 \<or> e = 160 \<or>
     e \<ge> 5760 \<and> e \<in> set [5760, 8192, 8193, 8194, 8195, 8196, 8197, 8198, 8199, 8200, 8201, 8202, 8239, 8287, 12288, 65279]"

definition isLineTerminator :: "nat \<Rightarrow> bool" where
  "isLineTerminator e \<longleftrightarrow> e = 10 \<or> e = 13 \<or> e = 8232 \<or> e = 8233"

record comment =
  cm_multiLine :: bool
  cm_slice :: "nat \<times> nat"
  cm_range :: "nat \<times> nat"
  cm_start :: "nat \<times> nat"
  cm_end :: "nat \<times> nat"

text \<open>The line and the column of the scanner, as in \<^verbatim>\<open>loc\<close>, with an offset back from the index.\<close>

definition loc_back :: "nat \<Rightarrow> scanner \<Rightarrow> nat \<times> nat" where
  "loc_back k s = (sc_lineNumber s, sc_index s - sc_lineStart s - k)"

definition newline_at_index :: "scanner \<Rightarrow> scanner" where
  "newline_at_index s = s\<lparr>sc_lineNumber := Suc (sc_lineNumber s), sc_lineStart := sc_index s\<rparr>"

definition advance :: "nat \<Rightarrow> scanner \<Rightarrow> scanner" where
  "advance k s = s\<lparr>sc_index := sc_index s + k\<rparr>"

lemma advance_simps [simp]:
  "sc_index (advance k s) = sc_index s + k" "sc_lineNumber (advance k s) = sc_lineNumber s"
  "sc_lineStart (advance k s) = sc_lineStart s" "advance 0 s = s"
  by (simp_all add: advance_def)

lemma newline_at_index_simps [simp]:
  "sc_index (newline_at_index s) = sc_index s" "sc_lineNumber (newline_at_index s) = Suc (sc_lineNumber s)"
  "sc_lineStart (newline_at_index s) = sc_index s"
  by (simp_all add: newline_at_index_def)

text \<open>\<^verbatim>\<open>e\<close> is the length of the comment's opening, which has been read; \<^verbatim>\<open>t\<close> and \<^verbatim>\<open>l\<close> are its start.\<close>

function skip_single :: "js \<Rightarrow> nat \<Rightarrow> nat \<Rightarrow> nat \<times> nat \<Rightarrow> scanner \<Rightarrow> comment \<times> scanner" where
  "skip_single src e t l s =
     (if eof src s then
        (\<lparr>cm_multiLine = False, cm_slice = (t + e, sc_index s), cm_range = (t, sc_index s), cm_start = l, cm_end = loc_back 0 s\<rparr>, s)
      else
        (let s1 = advance 1 s in
         if isLineTerminator (src ! sc_index s) then
           (\<lparr>cm_multiLine = False, cm_slice = (t + e, sc_index s1 - 1), cm_range = (t, sc_index s1 - 1), cm_start = l, cm_end = loc_back 1 s1\<rparr>,
            newline_at_index
              (if src ! sc_index s = 13 \<and> char_at src (sc_index s1) = Some 10 then advance 1 s1 else s1))
         else skip_single src e t l s1))"
  by pat_completeness auto
termination
  by (relation "measure (\<lambda>(src, e, t, l, s). length src - sc_index s)") (auto simp: eof_def)

declare skip_single.simps [simp del]

definition skipSingleLineComment :: "js \<Rightarrow> nat \<Rightarrow> scanner \<Rightarrow> comment \<times> scanner" where
  "skipSingleLineComment src e s = skip_single src e (sc_index s - e) (loc_back e s) s"

function skip_multi :: "js \<Rightarrow> nat \<Rightarrow> nat \<times> nat \<Rightarrow> scanner \<Rightarrow> comment \<times> bool \<times> scanner" where
  "skip_multi src t l s =
     (if eof src s then
        (\<lparr>cm_multiLine = True, cm_slice = (t + 2, sc_index s), cm_range = (t, sc_index s), cm_start = l, cm_end = loc_back 0 s\<rparr>, False, s)
      else
        (let r = src ! sc_index s in
         if isLineTerminator r then
           skip_multi src t l
             (newline_at_index (advance (if r = 13 \<and> char_at src (Suc (sc_index s)) = Some 10 then 2 else 1) s))
         else if r = 42 then
           (if char_at src (Suc (sc_index s)) = Some 47
            then (let s1 = advance 2 s in
                  (\<lparr>cm_multiLine = True, cm_slice = (t + 2, sc_index s1 - 2), cm_range = (t, sc_index s1), cm_start = l, cm_end = loc_back 0 s1\<rparr>, True, s1))
            else skip_multi src t l (advance 1 s))
         else skip_multi src t l (advance 1 s)))"
  by pat_completeness auto
termination
  by (relation "measure (\<lambda>(src, t, l, s). length src - sc_index s)") (auto simp: eof_def)

declare skip_multi.simps [simp del]

text \<open>A comment that the text's end cuts off is an error, unless errors are tolerated.\<close>

definition skipMultiLineComment :: "bool \<Rightarrow> js \<Rightarrow> scanner \<Rightarrow> (comment \<times> scanner) option" where
  "skipMultiLineComment tolerant src s =
     (case skip_multi src (sc_index s - 2) (loc_back 2 s) s of
        (c, closed, s') \<Rightarrow> if closed \<or> tolerant then Some (c, s') else None)"

text \<open>
  The comments that are met are collected only if they are tracked (\<^verbatim>\<open>tc\<close>); \<^verbatim>\<open>first\<close> says that only white space and
  comments were read on this line, which is where \<^verbatim>\<open>-->\<close> opens a comment.
\<close>

definition slice4 :: "js \<Rightarrow> nat \<Rightarrow> js" where
  "slice4 src i = take 3 (drop (Suc i) src)"

lemma skip_single_progress: "length src - sc_index (snd (skip_single src e t l s)) \<le> length src - sc_index s"
proof (induction src e t l s rule: skip_single.induct)
  case (1 src e t l s)
  show ?case
  proof (cases "eof src s \<or> isLineTerminator (src ! sc_index s)")
    case True
    then show ?thesis by (subst skip_single.simps) (auto simp: Let_def)
  next
    case False
    then have "skip_single src e t l s = skip_single src e t l (advance 1 s)"
      by (subst skip_single.simps) (simp add: Let_def)
    moreover have "length src - sc_index (snd (skip_single src e t l (advance 1 s))) \<le> length src - sc_index (advance 1 s)"
      using "1.IH" False by blast
    ultimately show ?thesis by simp
  qed
qed

lemma skip_multi_progress: "length src - sc_index (snd (snd (skip_multi src t l s))) \<le> length src - sc_index s"
proof (induction src t l s rule: skip_multi.induct)
  case (1 src t l s)
  have step: "length src - sc_index (snd (snd (skip_multi src t l s'))) \<le> length src - sc_index s"
    if "length src - sc_index (snd (snd (skip_multi src t l s'))) \<le> length src - sc_index s'" "sc_index s \<le> sc_index s'" for s'
    using that by simp
  consider "eof src s" | "\<not> eof src s" "isLineTerminator (src ! sc_index s)"
    | "\<not> eof src s" "\<not> isLineTerminator (src ! sc_index s)" "src ! sc_index s = 42" "char_at src (Suc (sc_index s)) = Some 47"
    | "\<not> eof src s" "\<not> isLineTerminator (src ! sc_index s)" "\<not> (src ! sc_index s = 42 \<and> char_at src (Suc (sc_index s)) = Some 47)"
    by blast
  then show ?case
  proof cases
    case 1
    then show ?thesis by (subst skip_multi.simps) simp
  next
    case 2
    let ?s = "newline_at_index (advance (if src ! sc_index s = 13 \<and> char_at src (Suc (sc_index s)) = Some 10 then 2 else 1) s)"
    have "skip_multi src t l s = skip_multi src t l ?s" by (subst skip_multi.simps) (simp only: 2 Let_def if_True if_False)
    then show ?thesis using step [OF "1.IH"(1) [OF 2(1) refl 2(2)]] by simp
  next
    case 3
    then show ?thesis by (subst skip_multi.simps) (simp add: Let_def)
  next
    case 4
    then have "skip_multi src t l s = skip_multi src t l (advance 1 s)"
      by (subst skip_multi.simps) (auto simp: Let_def)
    moreover have "length src - sc_index (snd (snd (skip_multi src t l (advance 1 s)))) \<le> length src - sc_index (advance 1 s)"
      using "1.IH"(2,3) 4 by blast
    ultimately show ?thesis by (simp add: step)
  qed
qed

lemma skipSingle_progress:
  "(c, s') = skipSingleLineComment src e s \<Longrightarrow> length src - sc_index s' \<le> length src - sc_index s"
  using skip_single_progress [of src e "sc_index s - e" "loc_back e s" s] by (simp add: skipSingleLineComment_def prod_eq_iff)

lemma skipMulti_progress:
  "skipMultiLineComment tolerant src s = Some (c, s') \<Longrightarrow> length src - sc_index s' \<le> length src - sc_index s"
  using skip_multi_progress [of src "sc_index s - 2" "loc_back 2 s" s]
  by (auto simp: skipMultiLineComment_def split: prod.splits if_splits)

definition tracked :: "bool \<Rightarrow> comment list \<Rightarrow> comment \<Rightarrow> comment list" where
  "tracked tc e c = (if tc then e @ [c] else e)"

function scan_loop :: "bool \<Rightarrow> bool \<Rightarrow> js \<Rightarrow> bool \<Rightarrow> comment list \<Rightarrow> scanner \<Rightarrow> (comment list \<times> scanner) option" where
  "scan_loop tolerant tc src first e s =
     (if eof src s then Some (e, s)
      else
        (let n = src ! sc_index s; i = sc_index s in
         if isWhiteSpace n then scan_loop tolerant tc src first e (advance 1 s)
         else if isLineTerminator n then
           scan_loop tolerant tc src True e
             (newline_at_index (advance (if n = 13 \<and> char_at src (Suc i) = Some 10 then 2 else 1) s))
         else if n = 47 then
           (if char_at src (Suc i) = Some 47 then
              (case skipSingleLineComment src 2 (advance 2 s) of
                 (c, s') \<Rightarrow> scan_loop tolerant tc src True (tracked tc e c) s')
            else if char_at src (Suc i) = Some 42 then
              (case skipMultiLineComment tolerant src (advance 2 s) of
                 None \<Rightarrow> None
               | Some (c, s') \<Rightarrow> scan_loop tolerant tc src first (tracked tc e c) s')
            else Some (e, s))
         else if first \<and> n = 45 then
           (if char_at src (i + 1) = Some 45 \<and> char_at src (i + 2) = Some 62 then
              (case skipSingleLineComment src 3 (advance 3 s) of
                 (c, s') \<Rightarrow> scan_loop tolerant tc src first (tracked tc e c) s')
            else Some (e, s))
         else if n = 60 then
           (if slice4 src i = lit ''!--'' then
              (case skipSingleLineComment src 4 (advance 4 s) of
                 (c, s') \<Rightarrow> scan_loop tolerant tc src first (tracked tc e c) s')
            else Some (e, s))
         else Some (e, s)))"
  by pat_completeness auto
termination
proof (relation "measure (\<lambda>(tolerant, tc, src, first, e, s). length src - sc_index s)", goal_cases)
  case (4 tolerant tc src first e s x xa c s')
  then show ?case using skipSingle_progress by (fastforce simp: eof_def)
next
  case (5 tolerant tc src first e s x xa y c s')
  then show ?case using skipMulti_progress by (fastforce simp: eof_def)
next
  case (6 tolerant tc src first e s x xa c s')
  then show ?case using skipSingle_progress by (fastforce simp: eof_def)
next
  case (7 tolerant tc src first e s x xa c s')
  then show ?case using skipSingle_progress by (fastforce simp: eof_def)
qed (auto simp: eof_def)

declare scan_loop.simps [simp del]

definition scanComments :: "bool \<Rightarrow> bool \<Rightarrow> js \<Rightarrow> scanner \<Rightarrow> (comment list \<times> scanner) option" where
  "scanComments tolerant tc src s = scan_loop tolerant tc src (sc_index s = 0) [] s"

text \<open>
  \<^verbatim>\<open>collectComments\<close>: what the delegate is told of each comment (its kind and text, and where it lies),
  which is nothing unless comments are configured; \<^verbatim>\<open>trackComment\<close> is that same setting.
\<close>

record delivered =
  dl_block :: bool
  dl_value :: js
  dl_start :: "(nat \<times> nat) \<times> nat"
  dl_end :: "(nat \<times> nat) \<times> nat"

definition collectComments :: "bool \<Rightarrow> bool \<Rightarrow> js \<Rightarrow> scanner \<Rightarrow> (delivered list \<times> scanner) option" where
  "collectComments tolerant config_comment src s =
     (if config_comment
      then map_option (\<lambda>(e, s').
             (map (\<lambda>n. \<lparr>dl_block = cm_multiLine n, dl_value = drop (fst (cm_slice n)) (take (snd (cm_slice n)) src),
                dl_start = (cm_start n, fst (cm_range n)), dl_end = (cm_end n, snd (cm_range n))\<rparr>) e, s'))
           (scanComments tolerant True src s)
      else map_option (\<lambda>(e, s'). ([], s')) (scanComments tolerant False src s))"

section \<open>Lines\<close>

text \<open>A line starts at 0 and behind every terminator, where a carriage return and a line feed are one.\<close>

definition line_start :: "js \<Rightarrow> nat \<Rightarrow> bool" where
  "line_start src p \<longleftrightarrow> p = 0 \<or>
     p \<le> length src \<and> isLineTerminator (src ! (p - 1)) \<and> \<not> (src ! (p - 1) = 13 \<and> char_at src p = Some 10)"

definition line_starts :: "js \<Rightarrow> nat \<Rightarrow> nat list" where
  "line_starts src i = filter (line_start src) [0..<Suc i]"

definition line_ok :: "js \<Rightarrow> scanner \<Rightarrow> bool" where
  "line_ok src s \<longleftrightarrow> sc_index s \<le> length src \<and>
     sc_lineNumber s = length (line_starts src (sc_index s)) \<and> sc_lineStart s = last (line_starts src (sc_index s))"

lemma line_starts_Suc: "line_starts src (Suc i) = line_starts src i @ (if line_start src (Suc i) then [Suc i] else [])"
  by (simp add: line_starts_def)

lemma line_ok_new: "src \<noteq> [] \<Longrightarrow> line_ok src (new_scanner src)"
  by (simp add: line_ok_def new_scanner_def line_starts_def line_start_def)

lemma line_ok_char:
  assumes "line_ok src s" and "\<not> eof src s" and "\<not> isLineTerminator (src ! sc_index s)"
  shows "line_ok src (advance 1 s)"
proof -
  have "\<not> line_start src (Suc (sc_index s))" using assms(3) by (simp add: line_start_def)
  then show ?thesis using assms by (simp add: line_ok_def eof_def line_starts_Suc)
qed

lemma line_ok_newline:
  assumes "line_ok src s" and "\<not> eof src s" and "isLineTerminator (src ! sc_index s)"
  shows "line_ok src (newline_at_index (advance (if src ! sc_index s = 13 \<and> char_at src (Suc (sc_index s)) = Some 10 then 2 else 1) s))"
proof (cases "src ! sc_index s = 13 \<and> char_at src (Suc (sc_index s)) = Some 10")
  case True
  then have i: "Suc (sc_index s) < length src" "src ! Suc (sc_index s) = 10"
    by (auto simp: char_at_def split: if_splits)
  have "\<not> line_start src (Suc (sc_index s))" using True by (simp add: line_start_def)
  moreover have "line_start src (Suc (Suc (sc_index s)))" using i by (simp add: line_start_def isLineTerminator_def)
  ultimately show ?thesis using True assms i by (simp add: line_ok_def line_starts_Suc)
next
  case False
  have "line_start src (Suc (sc_index s))" using False assms by (auto simp: line_start_def eof_def)
  then show ?thesis using False assms by (simp add: line_ok_def line_starts_Suc eof_def)
qed

text \<open>Several characters at once.\<close>

lemma line_ok_chars:
  "line_ok src s \<Longrightarrow> (\<And>j. j < k \<Longrightarrow> \<exists>c. char_at src (sc_index s + j) = Some c \<and> \<not> isLineTerminator c) \<Longrightarrow> line_ok src (advance k s)"
proof (induction k)
  case (Suc k)
  have "line_ok src (advance k s)" using Suc by simp
  moreover have "\<not> eof src (advance k s)" "\<not> isLineTerminator (src ! sc_index (advance k s))"
    using Suc.prems(2) [of k] by (auto simp: eof_def char_at_def split: if_splits)
  ultimately have "line_ok src (advance 1 (advance k s))" by (rule line_ok_char)
  then show ?case by (simp add: advance_def)
qed simp

lemma line_ok_skip_single: "line_ok src s \<Longrightarrow> line_ok src (snd (skip_single src e t l s))"
proof (induction src e t l s rule: skip_single.induct)
  case (1 src e t l s)
  consider "eof src s" | "\<not> eof src s" "isLineTerminator (src ! sc_index s)" | "\<not> eof src s" "\<not> isLineTerminator (src ! sc_index s)"
    by blast
  then show ?case
  proof cases
    case 1
    then show ?thesis using "1.prems" by (subst skip_single.simps) simp
  next
    case 2
    have "snd (skip_single src e t l s) =
        newline_at_index (advance (if src ! sc_index s = 13 \<and> char_at src (Suc (sc_index s)) = Some 10 then 2 else 1) s)"
      by (subst skip_single.simps) (use 2 in \<open>simp add: Let_def advance_def\<close>)
    then show ?thesis using line_ok_newline [OF "1.prems" 2] by simp
  next
    case 3
    then have "skip_single src e t l s = skip_single src e t l (advance 1 s)"
      by (subst skip_single.simps) (simp add: Let_def)
    then show ?thesis using "1.IH" [OF 3(1) refl 3(2)] line_ok_char [OF "1.prems" 3] by simp
  qed
qed

lemma line_ok_skip_multi: "line_ok src s \<Longrightarrow> line_ok src (snd (snd (skip_multi src t l s)))"
proof (induction src t l s rule: skip_multi.induct)
  case (1 src t l s)
  consider "eof src s" | "\<not> eof src s" "isLineTerminator (src ! sc_index s)"
    | "\<not> eof src s" "\<not> isLineTerminator (src ! sc_index s)" "src ! sc_index s = 42" "char_at src (Suc (sc_index s)) = Some 47"
    | "\<not> eof src s" "\<not> isLineTerminator (src ! sc_index s)" "\<not> (src ! sc_index s = 42 \<and> char_at src (Suc (sc_index s)) = Some 47)"
    by blast
  then show ?case
  proof cases
    case 1
    then show ?thesis using "1.prems" by (subst skip_multi.simps) simp
  next
    case 2
    let ?s = "newline_at_index (advance (if src ! sc_index s = 13 \<and> char_at src (Suc (sc_index s)) = Some 10 then 2 else 1) s)"
    have "skip_multi src t l s = skip_multi src t l ?s" by (subst skip_multi.simps) (simp only: 2 Let_def if_True if_False)
    then show ?thesis using "1.IH"(1) [OF 2(1) refl 2(2) line_ok_newline [OF "1.prems" 2]] by simp
  next
    case 3
    have "line_ok src (advance 2 s)"
    proof (rule line_ok_chars [OF "1.prems"])
      fix j :: nat
      assume "j < 2"
      then show "\<exists>c. char_at src (sc_index s + j) = Some c \<and> \<not> isLineTerminator c"
        using 3 by (auto simp: less_2_cases_iff char_at_def eof_def isLineTerminator_def split: if_splits)
    qed
    then show ?thesis using 3 by (subst skip_multi.simps) (simp add: Let_def)
  next
    case 4
    then have "skip_multi src t l s = skip_multi src t l (advance 1 s)"
      by (subst skip_multi.simps) (auto simp: Let_def)
    moreover have "line_ok src (snd (snd (skip_multi src t l (advance 1 s))))"
      using "1.IH"(2,3) 4 line_ok_char [OF "1.prems" 4(1,2)] by blast
    ultimately show ?thesis by simp
  qed
qed

text \<open>Where the scanner stands when white space and comments are behind it.\<close>

definition at_token :: "js \<Rightarrow> scanner \<Rightarrow> bool" where
  "at_token src s \<longleftrightarrow> eof src s \<or>
     (\<not> isWhiteSpace (src ! sc_index s) \<and> \<not> isLineTerminator (src ! sc_index s) \<and>
      \<not> (src ! sc_index s = 47 \<and> char_at src (Suc (sc_index s)) \<in> {Some 47, Some 42}) \<and>
      \<not> (src ! sc_index s = 60 \<and> slice4 src (sc_index s) = lit ''!--''))"

lemma line_ok_skipSingle: "skipSingleLineComment src e s = (c, s') \<Longrightarrow> line_ok src s \<Longrightarrow> line_ok src s'"
  using line_ok_skip_single [of src s e "sc_index s - e" "loc_back e s"] by (simp add: skipSingleLineComment_def)

lemma line_ok_skipMulti: "skipMultiLineComment tolerant src s = Some (c, s') \<Longrightarrow> line_ok src s \<Longrightarrow> line_ok src s'"
  using line_ok_skip_multi [of src s "sc_index s - 2" "loc_back 2 s"]
  by (auto simp: skipMultiLineComment_def split: prod.splits if_splits)

lemma line_ok_open2:
  assumes "line_ok src s" and "\<not> eof src s" and "src ! sc_index s = 47" and "char_at src (Suc (sc_index s)) = Some d"
    and "d = 47 \<or> d = 42"
  shows "line_ok src (advance 2 s)"
  by (rule line_ok_chars [OF assms(1)])
    (use assms in \<open>auto simp: less_2_cases_iff char_at_def eof_def isLineTerminator_def split: if_splits\<close>)

lemma line_ok_open3:
  assumes "line_ok src s" and "\<not> eof src s" and "src ! sc_index s = 45"
    and "char_at src (sc_index s + 1) = Some 45" and "char_at src (sc_index s + 2) = Some 62"
  shows "line_ok src (advance 3 s)"
proof (rule line_ok_chars [OF assms(1)])
  fix j :: nat
  assume "j < 3"
  then have "j = 0 \<or> j = 1 \<or> j = 2" by auto
  then show "\<exists>c. char_at src (sc_index s + j) = Some c \<and> \<not> isLineTerminator c"
    using assms by (auto simp: char_at_def eof_def isLineTerminator_def split: if_splits)
qed

lemma slice4_chars:
  assumes "slice4 src i = [a, b, c]"
  shows "char_at src (i + 1) = Some a" "char_at src (i + 2) = Some b" "char_at src (i + 3) = Some c"
proof -
  have len: "i + 4 \<le> length src" using arg_cong [OF assms, of length] by (simp add: slice4_def)
  have "src ! (Suc i + k) = [a, b, c] ! k" if "k < 3" for k
    using arg_cong [OF assms, of "\<lambda>xs. xs ! k"] that len by (simp add: slice4_def)
  from this [of 0] this [of 1] this [of 2] len
  show "char_at src (i + 1) = Some a" "char_at src (i + 2) = Some b" "char_at src (i + 3) = Some c"
    by (simp_all add: char_at_def numeral_3_eq_3)
qed

lemma line_ok_open4:
  assumes "line_ok src s" and "\<not> eof src s" and "src ! sc_index s = 60" and "slice4 src (sc_index s) = lit ''!--''"
  shows "line_ok src (advance 4 s)"
proof (rule line_ok_chars [OF assms(1)])
  fix j :: nat
  assume "j < 4"
  then have "j = 0 \<or> j = 1 \<or> j = 2 \<or> j = 3" by auto
  moreover have "slice4 src (sc_index s) = [33, 45, 45]" using assms(4) by (simp add: lit_def)
  ultimately show "\<exists>c. char_at src (sc_index s + j) = Some c \<and> \<not> isLineTerminator c"
    using assms(2,3) slice4_chars [of src "sc_index s"] by (auto simp: char_at_def eof_def isLineTerminator_def split: if_splits)
qed

lemma scan_loop_ok:
  "line_ok src s \<Longrightarrow> scan_loop tolerant tc src first e s = Some (e', s') \<Longrightarrow> line_ok src s' \<and> at_token src s'"
proof (induction tolerant tc src first e s rule: scan_loop.induct)
  case (1 tolerant tc src first e s)
  note simps = scan_loop.simps [of tolerant tc src first e s]
  let ?n = "src ! sc_index s"
  show ?case
  proof (cases "eof src s")
    case True
    then show ?thesis using "1.prems" by (simp add: simps at_token_def)
  next
    case noteof: False
    show ?thesis
    proof (cases "isWhiteSpace ?n")
      case True
      then have "\<not> isLineTerminator ?n" by (auto simp: isWhiteSpace_def isLineTerminator_def)
      then show ?thesis
        using "1.IH"(1) [OF noteof refl refl True] line_ok_char [OF "1.prems"(1) noteof] "1.prems"(2) noteof True
        by (simp add: simps Let_def)
    next
      case ws: False
      show ?thesis
      proof (cases "isLineTerminator ?n")
        case True
        then show ?thesis
          using "1.IH"(2) [OF noteof refl refl ws True line_ok_newline [OF "1.prems"(1) noteof True]] "1.prems"(2) noteof ws
          by (simp only: simps Let_def if_True if_False)
      next
        case lt: False
        have at_stop: "scan_loop tolerant tc src first e s = Some (e, s) \<and> at_token src s"
          if "\<not> (?n = 47 \<and> char_at src (Suc (sc_index s)) = Some 47)" "\<not> (?n = 47 \<and> char_at src (Suc (sc_index s)) = Some 42)"
            "\<not> (?n = 45 \<and> first \<and> char_at src (sc_index s + 1) = Some 45 \<and> char_at src (sc_index s + 2) = Some 62)"
            "\<not> (?n = 60 \<and> slice4 src (sc_index s) = lit ''!--'')"
        proof
          show "scan_loop tolerant tc src first e s = Some (e, s)"
            using that noteof ws lt by (auto simp: simps Let_def)
          show "at_token src s" using that noteof ws lt by (auto simp: at_token_def)
        qed
        consider (line) "?n = 47" "char_at src (Suc (sc_index s)) = Some 47"
          | (block) "?n = 47" "char_at src (Suc (sc_index s)) = Some 42"
          | (close) "?n = 45" "first" "char_at src (sc_index s + 1) = Some 45" "char_at src (sc_index s + 2) = Some 62"
          | (html) "?n = 60" "slice4 src (sc_index s) = lit ''!--''"
          | (stop) "scan_loop tolerant tc src first e s = Some (e, s)" "at_token src s"
          using at_stop by blast
        then show ?thesis
        proof cases
          case line
          obtain c s1 where c: "skipSingleLineComment src 2 (advance 2 s) = (c, s1)" by fastforce
          have "line_ok src s1" by (rule line_ok_skipSingle [OF c line_ok_open2 [OF "1.prems"(1) noteof line]]) simp
          then show ?thesis using "1.IH"(3) [OF noteof refl refl ws lt line c [symmetric]] "1.prems"(2) noteof ws lt line c
            by (simp add: simps Let_def)
        next
          case block
          then obtain c s1 where c: "skipMultiLineComment tolerant src (advance 2 s) = Some (c, s1)"
            using "1.prems"(2) noteof ws lt by (auto simp: simps Let_def split: option.splits)
          have "line_ok src s1" by (rule line_ok_skipMulti [OF c line_ok_open2 [OF "1.prems"(1) noteof block]]) simp
          moreover have "char_at src (Suc (sc_index s)) \<noteq> Some 47" using block by simp
          ultimately show ?thesis using "1.IH"(4) [OF noteof refl refl ws lt block(1) _ block(2) c refl] "1.prems"(2) noteof ws lt block c
            by (simp add: simps Let_def)
        next
          case close
          obtain c s1 where c: "skipSingleLineComment src 3 (advance 3 s) = (c, s1)" by fastforce
          have "line_ok src s1" by (rule line_ok_skipSingle [OF c line_ok_open3 [OF "1.prems"(1) noteof close(1,3,4)]])
          moreover have "scan_loop tolerant tc src first e s = scan_loop tolerant tc src first (tracked tc e c) s1"
            by (subst simps) (use noteof ws lt close c in \<open>simp add: Let_def\<close>)
          moreover have "?n \<noteq> 47" "first \<and> ?n = 45" "char_at src (sc_index s + 1) = Some 45 \<and> char_at src (sc_index s + 2) = Some 62"
            using close by simp_all
          ultimately show ?thesis using "1.IH"(5) [OF noteof refl refl ws lt _ _ _ c [symmetric]] "1.prems"(2) by metis
        next
          case html
          obtain c s1 where c: "skipSingleLineComment src 4 (advance 4 s) = (c, s1)" by fastforce
          have "line_ok src s1" by (rule line_ok_skipSingle [OF c line_ok_open4 [OF "1.prems"(1) noteof html]])
          moreover have "?n \<noteq> 47" "\<not> (first \<and> ?n = 45)" using html by simp_all
          ultimately show ?thesis using "1.IH"(6) [OF noteof refl refl ws lt _ _ html c [symmetric]] "1.prems"(2) noteof ws lt html c
            by (simp add: simps Let_def)
        next
          case stop
          then show ?thesis using "1.prems" by simp
        qed
      qed
    qed
  qed
qed

text \<open>In a text that is not empty, whenever the scanner's line number and line start are right, they are right again after \<^verbatim>\<open>collectComments\<close> (whatever comments, CR, LF, CRLF and Unicode separators it met), and it stands at the end or at a character that starts neither white space nor a comment.\<close>

theorem comments_keep_lines:
  assumes "line_ok src s" and "collectComments tolerant config_comment src s = Some (cs, s')"
  shows "line_ok src s' \<and> at_token src s'"
  using assms scan_loop_ok by (auto simp: collectComments_def scanComments_def split: if_splits)

theorem comments_keep_lines_witness:
  "\<exists>cs s'. collectComments False True (lit '' /*a*/ x'') (new_scanner (lit '' /*a*/ x'')) = Some (cs, s') \<and>
     line_ok (lit '' /*a*/ x'') s' \<and> at_token (lit '' /*a*/ x'') s'"
proof -
  let ?src = "lit '' /*a*/ x''"
  have ok: "line_ok ?src (new_scanner ?src)" by (rule line_ok_new) (simp add: lit_def)
  have "collectComments False True ?src (new_scanner ?src) \<noteq> None" by code_simp
  then obtain cs s' where c: "collectComments False True ?src (new_scanner ?src) = Some (cs, s')" by auto
  then show ?thesis using comments_keep_lines [OF ok c] by blast
qed

section \<open>Words and punctuators\<close>

definition isKeyword :: "js \<Rightarrow> bool" where
  "isKeyword e =
     (if length e = 2 then e \<in> lit ` {''if'', ''in'', ''do''}
      else if length e = 3 then e \<in> lit ` {''var'', ''for'', ''new'', ''try'', ''let''}
      else if length e = 4 then e \<in> lit ` {''this'', ''else'', ''case'', ''void'', ''with'', ''enum''}
      else if length e = 5 then e \<in> lit ` {''while'', ''break'', ''catch'', ''throw'', ''const'', ''yield'', ''class'', ''super''}
      else if length e = 6 then e \<in> lit ` {''return'', ''typeof'', ''delete'', ''switch'', ''export'', ''import''}
      else if length e = 7 then e \<in> lit ` {''default'', ''finally'', ''extends''}
      else if length e = 8 then e \<in> lit ` {''function'', ''continue'', ''debugger''}
      else if length e = 10 then e \<in> lit ` {''instanceof''}
      else False)"

text \<open>
  \<^verbatim>\<open>scanPunctuator\<close>: the token's text, or \<^const>\<open>None\<close> where the scanner throws. \<^verbatim>\<open>substr\<close> stops at the end of the
  text.
\<close>

definition substr :: "js \<Rightarrow> nat \<Rightarrow> nat \<Rightarrow> js" where
  "substr src i n = take n (drop i src)"

definition punct4 :: "js set" where
  "punct4 = {lit ''>>>=''}"

definition punct3 :: "js set" where
  "punct3 = lit ` {''==='', ''!=='', ''>>>'', ''<<='', ''>>='', ''**=''}"

definition punct2 :: "js set" where
  "punct2 = lit ` {''&&'', ''||'', ''=='', ''!='', ''+='', ''-='', ''*='', ''/='', ''++'', ''--'', ''<<'', ''>>'', ''&='',
     ''|='', ''^='', ''%='', ''<='', ''>='', ''=>'', ''**''}"

definition punct1 :: "js set" where
  "punct1 = lit ` {''<'', ''>'', ''='', ''!'', ''+'', ''-'', ''*'', ''%'', ''&'', ''|'', ''^'', ''/''}"

definition single_punct :: "js set" where
  "single_punct = lit ` {'')'', '';'', '','', ''['', '']'', '':'', ''?'', ''~''}"

definition scanPunctuator :: "js \<Rightarrow> scanner \<Rightarrow> (js \<times> scanner) option" where
  "scanPunctuator src s =
     (let i = sc_index s; t = substr src i 1 in
      if t = lit ''('' then Some (t, advance 1 s)
      else if t = lit ''{'' then Some (t, advance 1 (s\<lparr>sc_curlyStack := sc_curlyStack s @ [lit ''{'']\<rparr>))
      else if t = lit ''.'' then
        (if substr src (Suc i) 1 = lit ''.'' \<and> substr src (Suc (Suc i)) 1 = lit ''.'' then Some (lit ''...'', advance 3 s)
         else Some (t, advance 1 s))
      else if t = lit ''}'' then Some (t, advance 1 (s\<lparr>sc_curlyStack := butlast (sc_curlyStack s)\<rparr>))
      else if t \<in> single_punct then Some (t, advance 1 s)
      else if substr src i 4 \<in> punct4 then Some (substr src i 4, advance 4 s)
      else if substr src i 3 \<in> punct3 then Some (substr src i 3, advance 3 s)
      else if substr src i 2 \<in> punct2 then Some (substr src i 2, advance 2 s)
      else if t \<in> punct1 then Some (t, advance 1 s)
      else None)"

text \<open>All punctuators, and the longest of them that the text goes on with.\<close>

definition punctuators :: "js set" where
  "punctuators = lit ` {''('', ''{'', ''.'', ''...'', ''}''} \<union> single_punct \<union> punct4 \<union> punct3 \<union> punct2 \<union> punct1"

lemma punct_length:
  "q \<in> punct4 \<Longrightarrow> length q = 4" "q \<in> punct3 \<Longrightarrow> length q = 3" "q \<in> punct2 \<Longrightarrow> length q = 2"
  "q \<in> punct1 \<Longrightarrow> length q = 1" "q \<in> single_punct \<Longrightarrow> length q = 1"
  by (auto simp: punct4_def punct3_def punct2_def punct1_def single_punct_def lit_def)

lemma punct_first: "q \<in> punct4 \<or> q \<in> punct3 \<or> q \<in> punct2 \<Longrightarrow> take 1 q \<in> punct1"
  by (auto simp: punct4_def punct3_def punct2_def punct1_def lit_def)

lemma punct1_not_other: "q \<in> punct1 \<Longrightarrow> q \<notin> single_punct \<union> lit ` {''('', ''{'', ''.'', ''}''}"
  by (auto simp: punct1_def single_punct_def lit_def)

lemma single_punct_not_dot: "q \<in> single_punct \<Longrightarrow> q \<noteq> lit ''.''"
  by (auto simp: single_punct_def lit_def)

lemma substr_first: "substr src i (length q) = q \<Longrightarrow> q \<noteq> [] \<Longrightarrow> take 1 q = substr src i 1"
proof -
  assume "substr src i (length q) = q" "q \<noteq> []"
  then have "take 1 q = take 1 (take (length q) (drop i src))" "min 1 (length q) = 1"
    by (simp_all add: substr_def Suc_le_eq)
  then show ?thesis by (simp only: substr_def take_take)
qed

lemma substr_length: "length (substr src i n) = n \<Longrightarrow> substr src i (length (substr src i n)) = substr src i n"
  by simp

lemma dots_iff:
  "substr src i 3 = lit ''...'' \<longleftrightarrow>
     substr src i 1 = lit ''.'' \<and> substr src (Suc i) 1 = lit ''.'' \<and> substr src (Suc (Suc i)) 1 = lit ''.''"
proof -
  have "drop (Suc i) src = drop 1 (drop i src)" "drop (Suc (Suc i)) src = drop 2 (drop i src)" by simp_all
  moreover obtain xs where "drop i src = xs" by simp
  ultimately show ?thesis
    by (cases xs; cases "tl xs"; cases "tl (tl xs)") (auto simp: substr_def lit_def numeral_3_eq_3 numeral_2_eq_2)
qed

text \<open>A punctuator that the text goes on with, by its length.\<close>

lemma matching_punctuator:
  assumes "q \<in> punctuators" and "substr src i (length q) = q"
  shows "length q = 4 \<and> substr src i 4 \<in> punct4 \<and> substr src i 1 \<in> punct1 \<or>
    length q = 3 \<and> (substr src i 3 \<in> punct3 \<and> substr src i 1 \<in> punct1 \<or> substr src i 3 = lit ''...'') \<or>
    length q = 2 \<and> substr src i 2 \<in> punct2 \<and> substr src i 1 \<in> punct1 \<or>
    length q = 1 \<and> substr src i 1 \<in> punct1 \<union> single_punct \<union> lit ` {''('', ''{'', ''.'', ''}''}"
proof -
  have lits: "length (lit ''('') = 1" "length (lit ''{'') = 1" "length (lit ''.'') = 1" "length (lit ''...'') = 3" "length (lit ''}'') = 1"
    by (simp_all add: lit_def)
  have "q \<noteq> []" using assms(1) punct_length lits by (fastforce simp: punctuators_def)
  note first = substr_first [OF assms(2) this]
  consider "q \<in> punct4" | "q \<in> punct3" | "q \<in> punct2" | "q = lit ''...''"
    | "q \<in> punct1 \<union> single_punct \<union> lit ` {''('', ''{'', ''.'', ''}''}"
    using assms(1) by (auto simp: punctuators_def)
  then show ?thesis
  proof cases
    case 5
    then have "length q = 1" using punct_length lits by auto
    then show ?thesis using 5 assms(2) by simp
  qed (use punct_length [of q] punct_first [of q] first assms(2) lits in auto)
qed

text \<open>What it means for a result to be the longest match.\<close>

definition munches :: "js \<Rightarrow> scanner \<Rightarrow> (js \<times> scanner) option \<Rightarrow> bool" where
  "munches src s r =
     (case r of
        None \<Rightarrow> \<forall>p \<in> punctuators. substr src (sc_index s) (length p) \<noteq> p
      | Some (p, s') \<Rightarrow>
          p \<in> punctuators \<and> substr src (sc_index s) (length p) = p \<and> sc_index s' = sc_index s + length p \<and>
          (\<forall>q \<in> punctuators. substr src (sc_index s) (length q) = q \<longrightarrow> length q \<le> length p))"

lemma munchesI:
  assumes "scanPunctuator src s = Some (p, advance (length p) s1)" and "sc_index s1 = sc_index s" and "p \<in> punctuators"
    and "substr src (sc_index s) (length p) = p"
    and "\<And>q. q \<in> punctuators \<Longrightarrow> substr src (sc_index s) (length q) = q \<Longrightarrow> length q \<le> length p"
  shows "munches src s (scanPunctuator src s)"
  using assms by (simp add: munches_def)

lemma munches_prefix:
  assumes "scanPunctuator src s = Some (substr src (sc_index s) k, advance k s)"
    and "length (substr src (sc_index s) k) = k" and "substr src (sc_index s) k \<in> punctuators"
    and "\<And>q. q \<in> punctuators \<Longrightarrow> substr src (sc_index s) (length q) = q \<Longrightarrow> length q \<le> k"
  shows "munches src s (scanPunctuator src s)"
  by (rule munchesI [of src s "substr src (sc_index s) k" s]) (use assms in simp_all)

lemma punct_lits:
  "length (lit ''('') = 1" "length (lit ''{'') = 1" "length (lit ''.'') = 1" "length (lit ''...'') = 3" "length (lit ''}'') = 1"
  "lit ''.'' \<noteq> lit ''(''" "lit ''.'' \<noteq> lit ''{''"
  by (simp_all add: lit_def)

lemma munches_single:
  assumes other: "substr src (sc_index s) 1 \<in> single_punct \<union> lit ` {''('', ''{'', ''}''}"
  shows "munches src s (scanPunctuator src s)"
proof -
  let ?i = "sc_index s"
  let ?t = "substr src ?i 1"
  have t: "?t \<in> punctuators" "length ?t = 1" using other punct_length punct_lits by (auto simp: punctuators_def)
  consider "?t = lit ''(''" | "?t = lit ''{''" | "?t = lit ''}''"
    | "?t \<in> single_punct" "?t \<notin> lit ` {''('', ''{'', ''}''}"
    using other by blast
  then have "\<exists>s1. scanPunctuator src s = Some (?t, advance 1 s1) \<and> sc_index s1 = ?i"
  proof cases
    case 4
    then have "scanPunctuator src s = Some (?t, advance 1 s)"
      using single_punct_not_dot [of ?t] by (simp add: scanPunctuator_def Let_def)
    then show ?thesis by blast
  qed (auto simp: scanPunctuator_def Let_def lit_def)
  then obtain s1 where s1: "scanPunctuator src s = Some (?t, advance 1 s1)" "sc_index s1 = ?i" by blast
  have n1: "?t \<notin> punct1" using other punct1_not_other [of ?t] by auto
  have "?t \<noteq> lit ''.''" using other single_punct_not_dot [of ?t] by (auto simp: lit_def)
  then have n3: "substr src ?i 3 \<noteq> lit ''...''" unfolding dots_iff by simp
  show ?thesis
  proof (rule munchesI [of src s ?t s1])
    show "length q \<le> length ?t" if "q \<in> punctuators" "substr src ?i (length q) = q" for q
      using matching_punctuator [OF that] n1 n3 t(2) by linarith
  qed (use s1 t in simp_all)
qed

lemma munches_dots:
  assumes "substr src (sc_index s) 3 = lit ''...''"
  shows "munches src s (scanPunctuator src s)"
proof (rule munchesI [of src s "lit ''...''" s])
  have n1: "substr src (sc_index s) 1 \<notin> punct1" using assms punct1_not_other by (auto simp: dots_iff)
  show "scanPunctuator src s = Some (lit ''...'', advance (length (lit ''...'')) s)"
    using assms [unfolded dots_iff] by (simp add: scanPunctuator_def Let_def punct_lits)
  show "length q \<le> length (lit ''...'')" if "q \<in> punctuators" "substr src (sc_index s) (length q) = q" for q
    unfolding punct_lits using matching_punctuator [OF that] n1 by linarith
qed (use assms punct_lits in \<open>simp_all add: punctuators_def\<close>)

lemma munches_dot:
  assumes "substr src (sc_index s) 1 = lit ''.''" and "substr src (sc_index s) 3 \<noteq> lit ''...''"
  shows "munches src s (scanPunctuator src s)"
proof (rule munchesI [of src s "lit ''.''" s])
  have n1: "substr src (sc_index s) 1 \<notin> punct1" using assms punct1_not_other by auto
  show "scanPunctuator src s = Some (lit ''.'', advance (length (lit ''.'')) s)"
    using assms [unfolded dots_iff] by (auto simp: scanPunctuator_def Let_def punct_lits)
  show "length q \<le> length (lit ''.'')" if "q \<in> punctuators" "substr src (sc_index s) (length q) = q" for q
    unfolding punct_lits using matching_punctuator [OF that] n1 assms(2) by linarith
qed (use assms punct_lits in \<open>simp_all add: punctuators_def\<close>)

lemma munches_operator:
  assumes munch: "substr src (sc_index s) 1 \<notin> single_punct \<union> lit ` {''('', ''{'', ''.'', ''}''}"
      "substr src (sc_index s) 3 \<noteq> lit ''...''"
  shows "munches src s (scanPunctuator src s)"
proof -
  let ?i = "sc_index s"
  have scan: "scanPunctuator src s =
    (if substr src ?i 4 \<in> punct4 then Some (substr src ?i 4, advance 4 s)
     else if substr src ?i 3 \<in> punct3 then Some (substr src ?i 3, advance 3 s)
     else if substr src ?i 2 \<in> punct2 then Some (substr src ?i 2, advance 2 s)
     else if substr src ?i 1 \<in> punct1 then Some (substr src ?i 1, advance 1 s)
     else None)"
    using munch(1) by (simp add: scanPunctuator_def Let_def)
  consider (4) "substr src ?i 4 \<in> punct4" | (3) "substr src ?i 4 \<notin> punct4" "substr src ?i 3 \<in> punct3"
    | (2) "substr src ?i 4 \<notin> punct4" "substr src ?i 3 \<notin> punct3" "substr src ?i 2 \<in> punct2"
    | (1) "substr src ?i 4 \<notin> punct4" "substr src ?i 3 \<notin> punct3" "substr src ?i 2 \<notin> punct2" "substr src ?i 1 \<in> punct1"
    | (0) "substr src ?i 4 \<notin> punct4" "substr src ?i 3 \<notin> punct3" "substr src ?i 2 \<notin> punct2" "substr src ?i 1 \<notin> punct1"
    by blast
  then show ?thesis
  proof cases
    case 4
    show ?thesis
    proof (rule munches_prefix [of src s 4])
      show "length q \<le> 4" if "q \<in> punctuators" "substr src ?i (length q) = q" for q
        using matching_punctuator [OF that] by linarith
    qed (use 4 scan punct_length(1) in \<open>simp_all add: punctuators_def\<close>)
  next
    case 3
    show ?thesis
    proof (rule munches_prefix [of src s 3])
      show "length q \<le> 3" if "q \<in> punctuators" "substr src ?i (length q) = q" for q
        using matching_punctuator [OF that] 3 by linarith
    qed (use 3 scan punct_length(2) in \<open>simp_all add: punctuators_def\<close>)
  next
    case 2
    show ?thesis
    proof (rule munches_prefix [of src s 2])
      show "length q \<le> 2" if "q \<in> punctuators" "substr src ?i (length q) = q" for q
        using matching_punctuator [OF that] 2 munch(2) by linarith
    qed (use 2 scan punct_length(3) in \<open>simp_all add: punctuators_def\<close>)
  next
    case 1
    show ?thesis
    proof (rule munches_prefix [of src s 1])
      show "length q \<le> 1" if "q \<in> punctuators" "substr src ?i (length q) = q" for q
        using matching_punctuator [OF that] 1 munch(2) by linarith
    qed (use 1 scan punct_length(4) in \<open>simp_all add: punctuators_def\<close>)
  next
    case 0
    have "substr src ?i (length q) \<noteq> q" if "q \<in> punctuators" for q
      using matching_punctuator [OF that, of src ?i] 0 munch by blast
    then show ?thesis using scan 0 by (simp add: munches_def)
  qed
qed

text \<open>Punctuators are scanned by maximal munch: the scanner takes a punctuator of the language that the text goes on with, none that the text goes on with is longer, and it throws just where there is none.\<close>

theorem punctuator_is_longest_match:
  "case scanPunctuator src s of
     None \<Rightarrow> \<forall>p \<in> punctuators. substr src (sc_index s) (length p) \<noteq> p
   | Some (p, s') \<Rightarrow>
       p \<in> punctuators \<and> substr src (sc_index s) (length p) = p \<and> sc_index s' = sc_index s + length p \<and>
       (\<forall>q \<in> punctuators. substr src (sc_index s) (length q) = q \<longrightarrow> length q \<le> length p)"
proof -
  let ?t = "substr src (sc_index s) 1"
  consider "?t \<in> single_punct \<union> lit ` {''('', ''{'', ''}''}" | "substr src (sc_index s) 3 = lit ''...''"
    | "?t = lit ''.''" "substr src (sc_index s) 3 \<noteq> lit ''...''"
    | "?t \<notin> single_punct \<union> lit ` {''('', ''{'', ''.'', ''}''}" "substr src (sc_index s) 3 \<noteq> lit ''...''"
    by blast
  then have "munches src s (scanPunctuator src s)"
    using munches_single munches_dots munches_dot munches_operator by cases blast+
  then show ?thesis unfolding munches_def .
qed

text \<open>In \<^verbatim>\<open>>>=1\<close> the scanner does not stop at \<^verbatim>\<open>>\<close> or \<^verbatim>\<open>>>\<close>.\<close>

theorem punctuator_is_longest_match_witness:
  "\<exists>p s'. scanPunctuator (lit ''>>=1'') (new_scanner (lit ''>>=1'')) = Some (p, s') \<and> length p \<ge> 3"
proof -
  let ?src = "lit ''>>=1''" and ?q = "lit ''>>=''"
  have q: "?q \<in> punctuators" "substr ?src (sc_index (new_scanner ?src)) (length ?q) = ?q" "length ?q = 3"
    by (simp_all add: punctuators_def punct3_def substr_def new_scanner_def lit_def)
  obtain p s' where p: "scanPunctuator ?src (new_scanner ?src) = Some (p, s')"
    by (cases "scanPunctuator ?src (new_scanner ?src)")
      (auto simp: scanPunctuator_def new_scanner_def substr_def lit_def punct4_def punct3_def punct2_def punct1_def single_punct_def)
  have "length ?q \<le> length p"
    using punctuator_is_longest_match [of ?src "new_scanner ?src"] q(1,2) unfolding p by simp
  then show ?thesis using p q(3) by simp
qed

end
