(* ===== verification/Script_Precedence.thy ===== *)
theory Script_Precedence
  imports Script_Prelude
begin

text \<open>
  Binary expressions in the JavaScript parser that the YAML library brings along: the table of the
  precedences and the loop with an explicit stack. The parser of the operands is an argument that
  reads from the list of tokens still ahead; positions of the nodes are left out. The operator's
  node is the token's text.
\<close>

datatype token_type =
    BooleanLiteral
  | EOF
  | Identifier
  | Keyword
  | NullLiteral
  | NumericLiteral
  | Punctuator
  | StringLiteral
  | RegularExpression
  | Template

record token =
  tok_type :: token_type
  tok_value :: js

definition operatorPrecedence :: "(js \<times> nat) list" where
  "operatorPrecedence = map (\<lambda>(s, p). (lit s, p))
     [('')'', 0), ('';'', 0), ('','', 0), (''='', 0), ('']'', 0), (''||'', 1), (''&&'', 2), (''|'', 3),
      (''^'', 4), (''&'', 5), (''=='', 6), (''!='', 6), (''==='', 6), (''!=='', 6), (''<'', 7), (''>'', 7),
      (''<='', 7), (''>='', 7), (''<<'', 8), (''>>'', 8), (''>>>'', 8), (''+'', 9), (''-'', 9), (''*'', 11),
      (''/'', 11), (''%'', 11)]"

definition binaryPrecedence :: "bool \<Rightarrow> token \<Rightarrow> nat" where
  "binaryPrecedence allowIn e =
     (if tok_type e = Punctuator then (case map_of operatorPrecedence (tok_value e) of Some p \<Rightarrow> p | None \<Rightarrow> 0)
      else if tok_type e = Keyword \<and> (tok_value e = lit ''instanceof'' \<or> allowIn \<and> tok_value e = lit ''in'') then 7
      else 0)"

datatype 'e expr = Operand 'e | BinaryExpression token "'e expr" "'e expr"

text \<open>
  The stack of the loop: the operand on top and, below it, operators each with the operand that it
  stands to the right of. An operator keeps the precedence it was pushed with.
\<close>

type_synonym 'e opstack = "'e expr \<times> (token \<times> 'e expr) list"

fun reduce_stack :: "(token \<Rightarrow> nat) \<Rightarrow> nat \<Rightarrow> 'e opstack \<Rightarrow> 'e opstack" where
  "reduce_stack prec i (o1, []) = (o1, [])"
| "reduce_stack prec i (o1, (u, s) # a) =
     (if i \<le> prec u then reduce_stack prec i (BinaryExpression u s o1, a) else (o1, (u, s) # a))"

fun unwind_stack :: "'e opstack \<Rightarrow> 'e expr" where
  "unwind_stack (t, []) = t"
| "unwind_stack (t, (u, s) # a) = unwind_stack (BinaryExpression u s t, a)"

text \<open>The token after the last one is EOF, whose precedence is 0. An operand that does not parse is an exception.\<close>

partial_function (option) binary_loop ::
  "(token list \<Rightarrow> ('e \<times> token list) option) \<Rightarrow> (token \<Rightarrow> nat) \<Rightarrow> 'e opstack \<Rightarrow> token list \<Rightarrow> ('e opstack \<times> token list) option option"
where
  "binary_loop operand prec a ts =
     (case ts of
        [] \<Rightarrow> Some (Some (a, ts))
      | r # rest \<Rightarrow>
          if prec r \<le> 0 then Some (Some (a, ts))
          else (case operand rest of
                  None \<Rightarrow> Some None
                | Some (x, rest') \<Rightarrow>
                    (case reduce_stack prec (prec r) a of
                       (o1, b) \<Rightarrow> binary_loop operand prec (Operand x, (r, o1) # b) rest')))"

definition parseBinaryExpression ::
  "(token list \<Rightarrow> ('e \<times> token list) option) \<Rightarrow> bool \<Rightarrow> token list \<Rightarrow> ('e expr \<times> token list) option option"
where
  "parseBinaryExpression operand allowIn ts =
     (case operand ts of
        None \<Rightarrow> Some None
      | Some (x, rest) \<Rightarrow>
          (case rest of
             [] \<Rightarrow> Some (Some (Operand x, rest))
           | r # rest1 \<Rightarrow>
               if binaryPrecedence allowIn r > 0 then
                 (case operand rest1 of
                    None \<Rightarrow> Some None
                  | Some (y, rest2) \<Rightarrow>
                      map_option (map_option (\<lambda>(a, ts'). (unwind_stack a, ts')))
                        (binary_loop operand (binaryPrecedence allowIn) (Operand y, [(r, Operand x)]) rest2))
               else Some (Some (Operand x, rest))))"

section \<open>Specification\<close>

text \<open>
  The operands and operators that a run reads; the in-order sequence of a tree; and what it means
  that the tree follows the precedences, all operators being left-associative.
\<close>

inductive reads ::
  "(token list \<Rightarrow> ('e \<times> token list) option) \<Rightarrow> (token \<Rightarrow> nat) \<Rightarrow> token list \<Rightarrow> (token \<times> 'e) list \<Rightarrow> token list \<Rightarrow> bool"
  for operand prec where
  reads_stop: "(case ts of [] \<Rightarrow> True | r # _ \<Rightarrow> prec r = 0) \<Longrightarrow> reads operand prec ts [] ts"
| reads_more: "prec r > 0 \<Longrightarrow> operand rest = Some (x, rest') \<Longrightarrow> reads operand prec rest' xs ts' \<Longrightarrow>
    reads operand prec (r # rest) ((r, x) # xs) ts'"

fun yield :: "'e expr \<Rightarrow> 'e \<times> (token \<times> 'e) list" where
  "yield (Operand x) = (x, [])"
| "yield (BinaryExpression u l r) =
     (fst (yield l), snd (yield l) @ (u, fst (yield r)) # snd (yield r))"

fun root_prec_ge :: "(token \<Rightarrow> nat) \<Rightarrow> nat \<Rightarrow> 'e expr \<Rightarrow> bool" where
  "root_prec_ge prec p (Operand x) = True"
| "root_prec_ge prec p (BinaryExpression u l r) = (p \<le> prec u)"

fun follows :: "(token \<Rightarrow> nat) \<Rightarrow> 'e expr \<Rightarrow> bool" where
  "follows prec (Operand x) = True"
| "follows prec (BinaryExpression u l r) =
     (follows prec l \<and> follows prec r \<and> root_prec_ge prec (prec u) l \<and> root_prec_ge prec (Suc (prec u)) r)"

text \<open>The precedences determine the tree.\<close>

lemma root_prec_ge_mono: "root_prec_ge prec p t \<Longrightarrow> q \<le> p \<Longrightarrow> root_prec_ge prec q t"
  by (cases t) auto

lemma follows_all_ge:
  "follows prec t \<Longrightarrow> root_prec_ge prec p t \<Longrightarrow> \<forall>(u, x) \<in> set (snd (yield t)). p \<le> prec u"
proof (induction t arbitrary: p)
  case (BinaryExpression u l r)
  then have "root_prec_ge prec p l" "root_prec_ge prec p r"
    by (auto elim: root_prec_ge_mono)
  then show ?case using BinaryExpression by fastforce
qed simp

lemma split_at_last_min:
  assumes "xs @ (u, x) # ys = xs' @ (u', x') # ys'"
    and "\<forall>(v, _) \<in> set xs. p u \<le> p v" and "\<forall>(v, _) \<in> set ys. p u < (p v :: nat)"
    and "\<forall>(v, _) \<in> set xs'. p u' \<le> p v" and "\<forall>(v, _) \<in> set ys'. p u' < p v"
  shows "xs = xs' \<and> u = u' \<and> x = x' \<and> ys = ys'"
proof -
  from assms(1) obtain zs where
    "xs = xs' @ zs \<and> zs @ (u, x) # ys = (u', x') # ys' \<or> xs @ zs = xs' \<and> (u, x) # ys = zs @ (u', x') # ys'"
    unfolding append_eq_append_conv2 by blast
  then show ?thesis
  proof
    assume a: "xs = xs' @ zs \<and> zs @ (u, x) # ys = (u', x') # ys'"
    show ?thesis
    proof (cases zs)
      case (Cons z zs')
      then have "z = (u', x')" "(u, x) \<in> set ys'" "z \<in> set xs" using a by auto
      then show ?thesis using assms by fastforce
    qed (use a in simp)
  next
    assume a: "xs @ zs = xs' \<and> (u, x) # ys = zs @ (u', x') # ys'"
    show ?thesis
    proof (cases zs)
      case (Cons z zs')
      then have "z = (u, x)" "(u', x') \<in> set ys" "z \<in> set xs'" using a by auto
      then show ?thesis using assms by fastforce
    qed (use a in simp)
  qed
qed

lemma follows_unique:
  "follows prec s \<Longrightarrow> follows prec t \<Longrightarrow> yield s = yield t \<Longrightarrow> s = t"
proof (induction s arbitrary: t)
  case (Operand x)
  then show ?case by (cases t) auto
next
  case (BinaryExpression u l r)
  obtain u' l' r' where t: "t = BinaryExpression u' l' r'"
    using BinaryExpression.prems(3) by (cases t) auto
  have "snd (yield l) = snd (yield l') \<and> u = u' \<and> fst (yield r) = fst (yield r') \<and> snd (yield r) = snd (yield r')"
  proof (rule split_at_last_min [where p = prec])
    show "snd (yield l) @ (u, fst (yield r)) # snd (yield r) = snd (yield l') @ (u', fst (yield r')) # snd (yield r')"
      using BinaryExpression.prems(3) t by simp
  qed (use BinaryExpression.prems t follows_all_ge [of prec] in \<open>fastforce simp: Suc_le_eq\<close>)+
  moreover have "fst (yield l) = fst (yield l')" using BinaryExpression.prems(3) t by simp
  ultimately show ?case using BinaryExpression t by (auto simp: prod_eq_iff)
qed

section \<open>The loop\<close>

text \<open>The stack: its precedences increase towards the top, and every operand on it follows the precedences.\<close>

fun stack_yield :: "'e opstack \<Rightarrow> 'e \<times> (token \<times> 'e) list" where
  "stack_yield (t, []) = yield t"
| "stack_yield (t, (u, s) # a) =
     (fst (stack_yield (s, a)), snd (stack_yield (s, a)) @ (u, fst (yield t)) # snd (yield t))"

fun stack_ok :: "(token \<Rightarrow> nat) \<Rightarrow> 'e opstack \<Rightarrow> bool" where
  "stack_ok prec (t, []) = follows prec t"
| "stack_ok prec (t, (u, s) # a) =
     (follows prec t \<and> root_prec_ge prec (Suc (prec u)) t \<and> root_prec_ge prec (prec u) s \<and> stack_ok prec (s, a) \<and>
      (case a of [] \<Rightarrow> True | (v, _) # _ \<Rightarrow> prec v < prec u))"

lemma stack_yield_reduce: "stack_yield (BinaryExpression u s t, a) = stack_yield (t, (u, s) # a)"
  by (cases "(t, a)" rule: stack_yield.cases) auto

lemma reduce_stack_yield: "stack_yield (reduce_stack prec i a) = stack_yield a"
  by (induction prec i a rule: reduce_stack.induct) (auto simp: stack_yield_reduce simp del: stack_yield.simps)

lemma stack_ok_reduce: "stack_ok prec (t, (u, s) # a) \<Longrightarrow> stack_ok prec (BinaryExpression u s t, a)"
  by (cases a) (auto split: list.splits)

lemma reduce_stack_ok:
  "stack_ok prec a \<Longrightarrow> root_prec_ge prec i (fst a) \<Longrightarrow> reduce_stack prec i a = (o1, b) \<Longrightarrow>
   stack_ok prec (o1, b) \<and> root_prec_ge prec i o1 \<and> (case b of [] \<Rightarrow> True | (v, _) # _ \<Rightarrow> prec v < i)"
proof (induction prec i a rule: reduce_stack.induct)
  case (2 prec i o1' u s a)
  show ?case
  proof (cases "i \<le> prec u")
    case True
    then show ?thesis using 2 stack_ok_reduce [OF 2(2)] by (simp del: stack_ok.simps)
  next
    case False
    then show ?thesis using 2 by auto
  qed
qed auto

lemma push_ok:
  assumes "stack_ok prec a" and "reduce_stack prec (prec r) a = (o1, b)"
    and "\<exists>t c. a = (t, c) \<and> (\<exists>x. t = Operand x)"
  shows "stack_ok prec (Operand x, (r, o1) # b)"
proof -
  have "root_prec_ge prec (prec r) (fst a)" using assms(3) by auto
  from reduce_stack_ok [OF assms(1) this assms(2)] show ?thesis by simp
qed

lemma push_yield:
  assumes "reduce_stack prec i a = (o1, b)"
  shows "stack_yield (Operand x, (r, o1) # b) = (fst (stack_yield a), snd (stack_yield a) @ [(r, x)])"
  using reduce_stack_yield [of prec i a] assms by simp

lemma unwind_ok: "stack_ok prec a \<Longrightarrow> follows prec (unwind_stack a) \<and> yield (unwind_stack a) = stack_yield a"
proof (induction a rule: unwind_stack.induct)
  case (2 t u s a)
  then show ?case using stack_ok_reduce [OF 2(2)]
    by (simp del: stack_ok.simps stack_yield.simps add: stack_yield_reduce)
qed simp

lemma binary_loop_outcome:
  assumes consume: "\<And>ts x rest. operand ts = Some (x, rest) \<Longrightarrow> length rest \<le> length ts"
  shows "stack_ok prec (Operand y, c) \<Longrightarrow>
   \<exists>r. binary_loop operand prec (Operand y, c) ts = Some r \<and>
     (\<forall>a ts'. r = Some (a, ts') \<longrightarrow>
        (\<exists>xs. reads operand prec ts xs ts' \<and> stack_ok prec a \<and>
           stack_yield a = (fst (stack_yield (Operand y, c)), snd (stack_yield (Operand y, c)) @ xs)))"
proof (induction "length ts" arbitrary: y c ts rule: less_induct)
  case less
  note simps = binary_loop.simps [of operand prec "(Operand y, c)" ts]
  show ?case
  proof (cases "case ts of [] \<Rightarrow> True | r # _ \<Rightarrow> prec r = 0")
    case True
    then have "binary_loop operand prec (Operand y, c) ts = Some (Some ((Operand y, c), ts))"
      by (subst simps) (auto split: list.splits)
    then show ?thesis using less.prems reads_stop [OF True, of operand] by fastforce
  next
    case False
    then obtain r rest where ts: "ts = r # rest" "prec r > 0" by (auto split: list.splits)
    show ?thesis
    proof (cases "operand rest")
      case None
      then have "binary_loop operand prec (Operand y, c) ts = Some None" using ts by (subst simps) simp
      then show ?thesis by simp
    next
      case (Some p)
      then obtain x rest' where p: "operand rest = Some (x, rest')" by (cases p) simp
      obtain o1 b where red: "reduce_stack prec (prec r) (Operand y, c) = (o1, b)" by fastforce
      have ok: "stack_ok prec (Operand x, (r, o1) # b)" by (rule push_ok [OF less.prems red]) auto
      have "length rest' < length ts" using consume [OF p] ts by simp
      note IH = less.hyps [OF this ok]
      have loop: "binary_loop operand prec (Operand y, c) ts = binary_loop operand prec (Operand x, (r, o1) # b) rest'"
        by (subst simps) (use ts p red in simp)
      from IH obtain res where res: "binary_loop operand prec (Operand x, (r, o1) # b) rest' = Some res"
        and out: "\<And>a ts'. res = Some (a, ts') \<Longrightarrow>
          \<exists>xs. reads operand prec rest' xs ts' \<and> stack_ok prec a \<and>
            stack_yield a = (fst (stack_yield (Operand x, (r, o1) # b)), snd (stack_yield (Operand x, (r, o1) # b)) @ xs)"
        by blast
      have "\<exists>xs. reads operand prec ts xs ts' \<and> stack_ok prec a \<and>
           stack_yield a = (fst (stack_yield (Operand y, c)), snd (stack_yield (Operand y, c)) @ xs)"
        if "res = Some (a, ts')" for a ts'
      proof -
        obtain xs where xs: "reads operand prec rest' xs ts'" "stack_ok prec a"
          "stack_yield a = (fst (stack_yield (Operand x, (r, o1) # b)), snd (stack_yield (Operand x, (r, o1) # b)) @ xs)"
          using out [OF \<open>res = Some (a, ts')\<close>] by blast
        then show ?thesis
          using reads_more [where prec = prec, OF ts(2) p xs(1)] ts(1) push_yield [OF red, of x r] by auto
      qed
      then show ?thesis using loop res by simp
    qed
  qed
qed

text \<open>What the loop returns, once an operand and an operator have been read.\<close>

lemma unwound_loop:
  assumes "stack_ok prec a" and "stack_yield a = (x, (r, y) # xs)" and "reads operand prec rest2 xs ts'"
    and "operand ts = Some (x, r # rest1)" and "prec r > 0" and "operand rest1 = Some (y, rest2)"
  shows "(\<exists>rest. operand ts = Some (fst (yield (unwind_stack a)), rest) \<and> reads operand prec rest (snd (yield (unwind_stack a))) ts') \<and>
    follows prec (unwind_stack a) \<and> (\<forall>s. follows prec s \<and> yield s = yield (unwind_stack a) \<longrightarrow> s = unwind_stack a)"
proof -
  have "follows prec (unwind_stack a)" "yield (unwind_stack a) = (x, (r, y) # xs)"
    using unwind_ok [OF assms(1)] assms(2) by simp_all
  moreover have "reads operand prec (r # rest1) ((r, y) # xs) ts'" by (rule reads_more [OF assms(5,6,3)])
  ultimately show ?thesis using assms(4) follows_unique [of prec _ "unwind_stack a"] by (metis fst_conv snd_conv)
qed

text \<open>C27: For an operand parser that never gives tokens back, parsing a binary expression ends; the tree it returns holds, in their order, exactly the operands and operators read up to the first token that is no operator, follows the precedences with left association, and is the only tree that does.\<close>

theorem binary_expression_follows_precedence:
  assumes "\<And>ts x rest. operand ts = Some (x, rest) \<Longrightarrow> length rest \<le> length ts"
  shows "\<exists>r. parseBinaryExpression operand allowIn ts = Some r \<and>
    (\<forall>t ts'. r = Some (t, ts') \<longrightarrow>
       (\<exists>rest. operand ts = Some (fst (yield t), rest) \<and>
          reads operand (binaryPrecedence allowIn) rest (snd (yield t)) ts') \<and>
       follows (binaryPrecedence allowIn) t \<and>
       (\<forall>s. follows (binaryPrecedence allowIn) s \<and> yield s = yield t \<longrightarrow> s = t))"
proof (cases "operand ts")
  case None
  then show ?thesis by (simp add: parseBinaryExpression_def)
next
  case (Some p)
  let ?prec = "binaryPrecedence allowIn"
  obtain x rest where p: "operand ts = Some (x, rest)" using Some by (cases p) simp
  show ?thesis
  proof (cases "case rest of [] \<Rightarrow> True | r # _ \<Rightarrow> ?prec r = 0")
    case True
    then have "parseBinaryExpression operand allowIn ts = Some (Some (Operand x, rest))"
      using p by (auto simp: parseBinaryExpression_def split: list.splits)
    then show ?thesis using p reads_stop [OF True, of operand] follows_unique [of ?prec _ "Operand x"] by auto
  next
    case False
    then obtain r rest1 where rest: "rest = r # rest1" "?prec r > 0" by (auto split: list.splits)
    show ?thesis
    proof (cases "operand rest1")
      case None
      then show ?thesis using p rest by (simp add: parseBinaryExpression_def)
    next
      case (Some q)
      then obtain y rest2 where q: "operand rest1 = Some (y, rest2)" by (cases q) simp
      have "\<exists>res. binary_loop operand ?prec (Operand y, [(r, Operand x)]) rest2 = Some res \<and>
          (\<forall>a ts'. res = Some (a, ts') \<longrightarrow> (\<exists>xs. reads operand ?prec rest2 xs ts' \<and> stack_ok ?prec a \<and>
             stack_yield a = (fst (stack_yield (Operand y, [(r, Operand x)])), snd (stack_yield (Operand y, [(r, Operand x)])) @ xs)))"
        by (rule binary_loop_outcome) (use assms in \<open>auto\<close>)
      then obtain res
        where res: "binary_loop operand ?prec (Operand y, [(r, Operand x)]) rest2 = Some res"
        and out: "\<And>a ts'. res = Some (a, ts') \<Longrightarrow>
          \<exists>xs. reads operand ?prec rest2 xs ts' \<and> stack_ok ?prec a \<and> stack_yield a = (x, (r, y) # xs)"
        by auto
      have parse: "parseBinaryExpression operand allowIn ts = Some (map_option (\<lambda>(a, ts'). (unwind_stack a, ts')) res)"
        using p rest q res by (simp add: parseBinaryExpression_def)
      show ?thesis
        unfolding parse using out unwound_loop [of ?prec _ x r y _ operand rest2 _ ts rest1] p [unfolded rest(1)] rest(2) q
        by (intro exI [of _ "map_option (\<lambda>(a, ts'). (unwind_stack a, ts')) res"]) fastforce
    qed
  qed
qed

text \<open>Operands of one token: \<^verbatim>\<open>a + b * c\<close>.\<close>

definition tok_op :: "string \<Rightarrow> token" where
  "tok_op s = \<lparr>tok_type = Punctuator, tok_value = lit s\<rparr>"

definition one_token :: "token list \<Rightarrow> (token \<times> token list) option" where
  "one_token ts = (case ts of [] \<Rightarrow> None | t # ts' \<Rightarrow> Some (t, ts'))"

theorem binary_expression_follows_precedence_witness:
  "\<exists>r. parseBinaryExpression one_token True [tok_op ''a'', tok_op ''+'', tok_op ''b'', tok_op ''*'', tok_op ''c''] = Some r"
proof -
  have "length rest \<le> length ts" if "one_token ts = Some (x, rest)" for ts x rest
    using that by (auto simp: one_token_def split: list.splits)
  then show ?thesis using binary_expression_follows_precedence [of one_token] by blast
qed

end
