(* ===== verification/Script_Base64.thy ===== *)
theory Script_Base64
  imports Script_Prelude
begin

text \<open>
  The binary type of the YAML library that the API documentation page loads
  (\<^verbatim>\<open>swagger-ui-standalone-preset.js\<close>): the test, the reader and the writer of base64 text, with the
  accumulator that the scripts shift as a 32-bit integer. The lemmas cut both loops into groups of
  three bytes and four characters; the properties are the round trip and its exception.
\<close>

section \<open>Base64: the binary type of YAML\<close>

definition BASE64_MAP :: js where
  "BASE64_MAP = lit (''ABCDEFGHIJKLMNOPQRSTUVWXYZabcdefghijklmnopqrstuvwxyz0123456789+/='' @ [CHR 0x0A, CHR 0x0D])"

definition resolveYamlBinary :: "js option \<Rightarrow> bool" where
  "resolveYamlBinary e =
     (case e of None \<Rightarrow> False
      | Some s \<Rightarrow>
          list_all (\<lambda>c. js_indexOf BASE64_MAP c \<ge> 0) s \<and>
          (length (filter (\<lambda>c. js_indexOf BASE64_MAP c \<le> 64) s) * 6) mod 8 = 0)"

text \<open>The accumulator is a 32-bit integer; \<^verbatim>\<open>indexOf\<close> gives -1 for a character that is not in the table.\<close>

definition byte_at :: "nat \<Rightarrow> 32 word \<Rightarrow> nat" where
  "byte_at k w = unat (signed_drop_bit k w AND 255)"

fun construct_loop :: "nat \<Rightarrow> 32 word \<Rightarrow> js \<Rightarrow> nat list \<times> 32 word" where
  "construct_loop t bits [] = ([], bits)"
| "construct_loop t bits (c # cs) =
     (let out = (if t mod 4 = 0 \<and> t \<noteq> 0 then [byte_at 16 bits, byte_at 8 bits, byte_at 0 bits] else []);
          (rest, final) = construct_loop (Suc t) (push_bit 6 bits OR word_of_int (js_indexOf BASE64_MAP c)) cs
      in (out @ rest, final))"

definition constructYamlBinary :: "js \<Rightarrow> nat list" where
  "constructYamlBinary e =
     (let i = filter (\<lambda>c. c \<notin> {10, 13, 61}) e;
          (out, o1) = construct_loop 0 0 i;
          r = (length i mod 4) * 6
      in out @ (if r = 0 then [byte_at 16 o1, byte_at 8 o1, byte_at 0 o1]
                else if r = 18 then [byte_at 10 o1, byte_at 2 o1]
                else if r = 12 then [byte_at 4 o1] else []))"

definition sextet :: "nat \<Rightarrow> 32 word \<Rightarrow> nat" where
  "sextet k w = BASE64_MAP ! unat (signed_drop_bit k w AND 63)"

definition sextet_up :: "nat \<Rightarrow> 32 word \<Rightarrow> nat" where
  "sextet_up k w = BASE64_MAP ! unat (push_bit k w AND 63)"

fun represent_loop :: "nat \<Rightarrow> 32 word \<Rightarrow> nat list \<Rightarrow> js \<times> 32 word" where
  "represent_loop t n [] = ([], n)"
| "represent_loop t n (b # bs) =
     (let out = (if t mod 3 = 0 \<and> t \<noteq> 0 then [sextet 18 n, sextet 12 n, sextet 6 n, sextet 0 n] else []);
          (rest, final) = represent_loop (Suc t) (push_bit 8 n + of_nat b) bs
      in (out @ rest, final))"

definition representYamlBinary :: "nat list \<Rightarrow> js" where
  "representYamlBinary e =
     (let (out, n) = represent_loop 0 0 e; r = length e mod 3; pad = BASE64_MAP ! 64
      in out @ (if r = 0 then [sextet 18 n, sextet 12 n, sextet 6 n, sextet 0 n]
                else if r = 2 then [sextet 10 n, sextet 4 n, sextet_up 2 n, pad]
                else if r = 1 then [sextet 2 n, sextet_up 4 n, pad, pad] else []))"

section \<open>Groups of three bytes\<close>

lemma signed_drop_mask:
  "k + m \<le> LENGTH('a) \<Longrightarrow> unat (signed_drop_bit k w AND mask m) = unat (w :: 'a::len word) div 2 ^ k mod 2 ^ m"
proof -
  assume k: "k + m \<le> LENGTH('a)"
  have "signed_drop_bit k w AND mask m = drop_bit k w AND mask m"
    by (rule bit_word_eqI) (use k in \<open>auto simp: bit_simps\<close>)
  then show ?thesis by (simp add: unat_and_mask unat_drop_bit)
qed

lemma mask_numerals: "(255 :: 32 word) = mask 8" "(63 :: 32 word) = mask 6"
  by (simp_all add: mask_eq_exp_minus_1)

lemma byte_at_eq: "k \<le> 24 \<Longrightarrow> byte_at k w = unat w div 2 ^ k mod 256"
  by (simp add: byte_at_def mask_numerals signed_drop_mask)

lemma sextet_eq: "k \<le> 26 \<Longrightarrow> sextet k w = BASE64_MAP ! (unat w div 2 ^ k mod 64)"
  by (simp add: sextet_def mask_numerals signed_drop_mask)

lemma unat_push: "unat (push_bit k (w :: 32 word)) = unat w * 2 ^ k mod 2 ^ 32"
  unfolding unsigned_push_bit_eq by (simp add: take_bit_eq_mod push_bit_eq_mult)

lemma sextet_up_eq: "k \<le> 6 \<Longrightarrow> sextet_up k w = BASE64_MAP ! (unat w * 2 ^ k mod 64)"
proof -
  have "(64 :: nat) dvd 2 ^ 32" by simp
  then show ?thesis by (simp add: sextet_up_def mask_numerals unat_and_mask unat_push mod_mod_cancel)
qed

lemma shift_in_byte: "b < 256 \<Longrightarrow> unat (push_bit 8 n + of_nat b :: 32 word) mod 2 ^ 24 = (unat n * 256 + b) mod 2 ^ 24"
proof -
  assume b: "b < 256"
  have "unat (push_bit 8 n + of_nat b :: 32 word) = (unat n * 256 + b) mod 2 ^ 32"
    by (simp add: unat_word_ariths unat_push unat_of_nat mod_add_left_eq mod_add_right_eq)
  then show ?thesis using mod_mod_cancel [of "2 ^ 24" "2 ^ 32 :: nat"] by (simp add: le_imp_power_dvd)
qed

lemma shift_in_sextet:
  "0 \<le> i \<Longrightarrow> i < 64 \<Longrightarrow> unat (push_bit 6 n OR word_of_int i :: 32 word) mod 2 ^ 24 = (unat n * 64 + nat i) mod 2 ^ 24"
proof -
  assume i: "0 \<le> i" "i < 64"
  have "push_bit 6 n AND word_of_int i = (0 :: 32 word)"
  proof (rule bit_word_eqI)
    fix j assume j: "j < LENGTH(32)"
    have "take_bit 6 i = i" using i by (simp add: take_bit_int_eq_self)
    then have "j < 6" if "bit i j" using that by (metis bit_take_bit_iff)
    then show "bit (push_bit 6 n AND word_of_int i :: 32 word) j = bit 0 j"
      by (auto simp: bit_simps)
  qed
  then have "push_bit 6 n OR word_of_int i = push_bit 6 n + (word_of_int i :: 32 word)"
    by (rule disjunctive_add_eq_or [symmetric])
  also have "unat \<dots> = (unat n * 64 + nat i) mod 2 ^ 32"
    using i by (simp add: unat_word_ariths unat_push mod_add_left_eq unsigned_of_int nat_mod_as_int take_bit_int_eq_self)
  finally show ?thesis using mod_mod_cancel [of "2 ^ 24" "2 ^ 32 :: nat"] by (simp add: le_imp_power_dvd)
qed

text \<open>Both loops without the accumulator: what becomes of a group of three bytes or four characters.\<close>

definition quad :: "nat \<Rightarrow> js" where
  "quad v = map (\<lambda>k. BASE64_MAP ! (v div 2 ^ k mod 64)) [18, 12, 6, 0]"

fun encode_groups :: "nat list \<Rightarrow> js" where
  "encode_groups (a # b # c # bs) = quad (a * 65536 + b * 256 + c) @ encode_groups bs"
| "encode_groups [a, b] = take 3 (quad ((a * 256 + b) * 256)) @ [BASE64_MAP ! 64]"
| "encode_groups [a] = take 2 (quad (a * 65536)) @ [BASE64_MAP ! 64, BASE64_MAP ! 64]"
| "encode_groups [] = []"

definition represent_from :: "nat \<Rightarrow> 32 word \<Rightarrow> nat list \<Rightarrow> js" where
  "represent_from t w bs =
     (let (out, n) = represent_loop t w bs; r = (t + length bs) mod 3; pad = BASE64_MAP ! 64
      in out @ (if r = 0 then [sextet 18 n, sextet 12 n, sextet 6 n, sextet 0 n]
                else if r = 2 then [sextet 10 n, sextet 4 n, sextet_up 2 n, pad]
                else [sextet 2 n, sextet_up 4 n, pad, pad]))"

lemma field_of_mod: "k + m \<le> l \<Longrightarrow> x mod 2 ^ l div 2 ^ k mod 2 ^ m = x div 2 ^ k mod (2 ^ m :: nat)"
proof -
  assume k: "k + m \<le> l"
  then have l: "(2 :: nat) ^ l = 2 ^ k * 2 ^ (l - k)" by (simp flip: power_add)
  have "x mod 2 ^ l div 2 ^ k = x div 2 ^ k mod 2 ^ (l - k)" unfolding l by (simp add: mod_mult2_eq)
  moreover have "(2 :: nat) ^ m dvd 2 ^ (l - k)" using k by (intro le_imp_power_dvd) simp
  ultimately show ?thesis by (simp add: mod_mod_cancel)
qed

lemmas field64 = field_of_mod [where l = 24 and m = 6, simplified]

lemma quad_cong: "v mod 2 ^ 24 = w mod 2 ^ 24 \<Longrightarrow> quad v = quad w"
proof -
  assume eq: "v mod 2 ^ 24 = w mod 2 ^ 24"
  have "v div 2 ^ k mod 64 = w div 2 ^ k mod 64" if "k \<in> {18, 12, 6, 0}" for k
    using that field64 [of k v] field64 [of k w] eq by auto
  from this [of 18] this [of 12] this [of 6] this [of 0] show ?thesis by (simp add: quad_def)
qed

lemma quad_sextets: "[sextet 18 n, sextet 12 n, sextet 6 n, sextet 0 n] = quad (unat n)"
  by (simp add: quad_def sextet_eq)

lemma mod_step: "u mod m = v mod m \<Longrightarrow> (u * 256 + c) mod m = (v * 256 + c) mod (m :: nat)"
  by (metis mod_add_left_eq mod_mult_left_eq)

lemma three_bytes:
  assumes "a < 256" and "b < 256" and "c < 256"
  shows "unat (push_bit 8 (push_bit 8 (push_bit 8 n + of_nat a) + of_nat b) + of_nat c :: 32 word) mod 2 ^ 24
    = a * 65536 + b * 256 + c"
proof -
  let ?x = "push_bit 8 n + of_nat a :: 32 word"
  let ?y = "push_bit 8 ?x + of_nat b :: 32 word"
  have "unat (push_bit 8 ?y + of_nat c) mod 2 ^ 24 = (unat ?y * 256 + c) mod 2 ^ 24"
    by (rule shift_in_byte [OF assms(3)])
  also have "\<dots> = ((unat ?x * 256 + b) * 256 + c) mod 2 ^ 24"
    by (rule mod_step, rule shift_in_byte [OF assms(2)])
  also have "\<dots> = (((unat n * 256 + a) * 256 + b) * 256 + c) mod 2 ^ 24"
    by (rule mod_step, rule mod_step, rule shift_in_byte [OF assms(1)])
  also have "((unat n * 256 + a) * 256 + b) * 256 + c = a * 65536 + b * 256 + c + unat n * 2 ^ 24" by simp
  also have "\<dots> mod 2 ^ 24 = a * 65536 + b * 256 + c" using assms by simp
  finally show ?thesis .
qed

lemma two_bytes:
  assumes "a < 256" and "b < 256"
  shows "unat (push_bit 8 (push_bit 8 n + of_nat a) + of_nat b :: 32 word) mod 2 ^ 16 = a * 256 + b"
proof -
  let ?x = "push_bit 8 n + of_nat a :: 32 word"
  have "unat (push_bit 8 ?x + of_nat b) mod 2 ^ 24 = (unat ?x * 256 + b) mod 2 ^ 24"
    by (rule shift_in_byte [OF assms(2)])
  also have "\<dots> = ((unat n * 256 + a) * 256 + b) mod 2 ^ 24"
    by (rule mod_step, rule shift_in_byte [OF assms(1)])
  finally have "unat (push_bit 8 ?x + of_nat b) mod 2 ^ 24 mod 2 ^ 16 =
      (a * 256 + b + unat n * 2 ^ 16) mod 2 ^ 24 mod 2 ^ 16" by (simp add: ac_simps)
  moreover have "(2 :: nat) ^ 16 dvd 2 ^ 24" by (simp add: le_imp_power_dvd)
  ultimately show ?thesis using assms by (simp only: mod_mod_cancel mod_mult_self1) simp
qed

lemma one_byte:
  assumes "a < 256"
  shows "unat (push_bit 8 n + of_nat a :: 32 word) mod 2 ^ 8 = a"
proof -
  have "unat (push_bit 8 n + of_nat a :: 32 word) mod 2 ^ 24 mod 2 ^ 8 = (a + unat n * 2 ^ 8) mod 2 ^ 24 mod 2 ^ 8"
    using shift_in_byte [OF assms, of n] by (simp add: ac_simps)
  moreover have "(2 :: nat) ^ 8 dvd 2 ^ 24" by (simp add: le_imp_power_dvd)
  ultimately show ?thesis using assms by (simp only: mod_mod_cancel mod_mult_self1) simp
qed

lemma tail_two: "unat m mod 2 ^ 16 = v \<Longrightarrow>
    [sextet 10 m, sextet 4 m, sextet_up 2 m] = take 3 (quad (v * 256))"
proof -
  assume v: "unat m mod 2 ^ 16 = v"
  have "v div 2 ^ 10 mod 2 ^ 6 = unat m div 2 ^ 10 mod 2 ^ 6" "v div 2 ^ 4 mod 2 ^ 6 = unat m div 2 ^ 4 mod 2 ^ 6"
    unfolding v [symmetric] by (simp_all only: field_of_mod)
  moreover have "v * 256 div 262144 = v div 1024" "v * 256 div 4096 = v div 16" "v * 256 div 64 = v * 4"
    using div_mult_mult2 [of 256 v 1024] div_mult_mult2 [of 256 v 16] div_mult_mult2 [of 64 "v * 4" 1] by simp_all
  moreover have "v * 4 mod 64 = unat m * 4 mod 64" unfolding v [symmetric] by (simp add: mult_mod_left mod_mod_cancel)
  ultimately show ?thesis by (simp add: sextet_eq sextet_up_eq quad_def ac_simps)
qed

lemma tail_one: "unat m mod 2 ^ 8 = v \<Longrightarrow> [sextet 2 m, sextet_up 4 m] = take 2 (quad (v * 65536))"
proof -
  assume v: "unat m mod 2 ^ 8 = v"
  have "v div 2 ^ 2 mod 2 ^ 6 = unat m div 2 ^ 2 mod 2 ^ 6"
    unfolding v [symmetric] by (simp only: field_of_mod)
  moreover have "v * 65536 div 262144 = v div 4" "v * 65536 div 4096 = v * 16"
    using div_mult_mult2 [of 65536 v 4] div_mult_mult2 [of 4096 "v * 16" 1] by simp_all
  moreover have "v * 16 mod 64 = unat m * 16 mod 64" unfolding v [symmetric] by (simp add: mult_mod_left mod_mod_cancel)
  ultimately show ?thesis by (simp add: sextet_eq sextet_up_eq quad_def ac_simps)
qed

lemma represent_from_Cons:
  "represent_from t n (b # bs) =
     (if t mod 3 = 0 \<and> t \<noteq> 0 then quad (unat n) else []) @ represent_from (Suc t) (push_bit 8 n + of_nat b) bs"
  unfolding represent_from_def represent_loop.simps quad_sextets
  by (simp add: Let_def split: prod.split)

lemma represent_from_groups:
  "list_all (\<lambda>b. b < 256) bs \<Longrightarrow> t mod 3 = 0 \<Longrightarrow> t \<noteq> 0 \<Longrightarrow>
     represent_from t n bs = quad (unat n) @ encode_groups bs"
proof (induction bs arbitrary: t n rule: encode_groups.induct)
  case (1 a b c bs)
  let ?m = "push_bit 8 (push_bit 8 (push_bit 8 n + of_nat a) + of_nat b) + of_nat c :: 32 word"
  have t: "Suc t mod 3 = 1" "Suc (Suc t) mod 3 = 2" "Suc (Suc (Suc t)) mod 3 = 0" using 1(3) by presburger+
  have "represent_from t n (a # b # c # bs) = quad (unat n) @ represent_from (Suc (Suc (Suc t))) ?m bs"
    using 1(3,4) t by (simp add: represent_from_Cons del: One_nat_def)
  also have "\<dots> = quad (unat n) @ quad (unat ?m) @ encode_groups bs" using 1 t by simp
  also have "quad (unat ?m) = quad (a * 65536 + b * 256 + c)"
    using three_bytes [of a b c n] 1(2) by (intro quad_cong) simp
  finally show ?case by simp
next
  case (2 a b)
  let ?m = "push_bit 8 (push_bit 8 n + of_nat a) + of_nat b :: 32 word"
  have t: "Suc t mod 3 = 1" "Suc (Suc t) mod 3 = 2" using 2 by presburger+
  have "represent_from t n [a, b] = quad (unat n) @ [sextet 10 ?m, sextet 4 ?m, sextet_up 2 ?m, BASE64_MAP ! 64]"
    using 2 t by (simp add: represent_from_def quad_sextets Let_def)
  then show ?case using tail_two [OF two_bytes [of a b n]] 2(1) by simp
next
  case (3 a)
  let ?m = "push_bit 8 n + of_nat a :: 32 word"
  have t: "Suc t mod 3 = 1" using 3 by presburger
  have "represent_from t n [a] =
      quad (unat n) @ [sextet 2 ?m, sextet_up 4 ?m, BASE64_MAP ! 64, BASE64_MAP ! 64]"
    using 3 t by (simp add: represent_from_def quad_sextets Let_def)
  then show ?case using tail_one [OF one_byte [of a n]] 3(1) by simp
next
  case 4
  then show ?case by (simp add: represent_from_def quad_sextets)
qed

lemma representYamlBinary_from: "representYamlBinary bs = represent_from 0 0 bs"
  unfolding representYamlBinary_def represent_from_def Let_def by (auto split: prod.split)

lemma first_positions: "(Suc 0 mod Suc (Suc (Suc 0)) = 0) = False" "(Suc (Suc 0) mod Suc (Suc (Suc 0)) = 0) = False"
  by simp_all

lemma representYamlBinary_groups:
  assumes "bs \<noteq> []" and "list_all (\<lambda>b. b < 256) bs"
  shows "representYamlBinary bs = encode_groups bs"
  using assms
proof (induction bs rule: encode_groups.induct)
  case (1 a b c bs)
  let ?m = "push_bit 8 (push_bit 8 (push_bit 8 0 + of_nat a) + of_nat b) + of_nat c :: 32 word"
  have "represent_from 0 0 (a # b # c # bs) = represent_from 3 ?m bs"
    unfolding represent_from_Cons numeral_3_eq_3 by (simp only: first_positions simp_thms if_False append_Nil)
  then have "representYamlBinary (a # b # c # bs) = represent_from 3 ?m bs"
    by (simp only: representYamlBinary_from)
  also have "\<dots> = quad (unat ?m) @ encode_groups bs" using 1 by (intro represent_from_groups) simp_all
  also have "quad (unat ?m) = quad (a * 65536 + b * 256 + c)"
    using three_bytes [of a b c 0] 1(3) by (intro quad_cong) simp
  finally show ?case by simp
next
  case (2 a b)
  let ?m = "push_bit 8 (push_bit 8 0 + of_nat a) + of_nat b :: 32 word"
  have "representYamlBinary [a, b] = [sextet 10 ?m, sextet 4 ?m, sextet_up 2 ?m, BASE64_MAP ! 64]"
    by (simp add: representYamlBinary_def Let_def)
  then show ?case using tail_two [OF two_bytes [of a b 0]] 2(2) by simp
next
  case (3 a)
  let ?m = "push_bit 8 0 + of_nat a :: 32 word"
  have "representYamlBinary [a] = [sextet 2 ?m, sextet_up 4 ?m, BASE64_MAP ! 64, BASE64_MAP ! 64]"
    by (simp add: representYamlBinary_def Let_def)
  then show ?case using tail_one [OF one_byte [of a 0]] 3(2) by simp
qed simp

definition triple :: "nat \<Rightarrow> nat list" where
  "triple v = map (\<lambda>k. v div 2 ^ k mod 256) [16, 8, 0]"

fun decode_groups :: "nat list \<Rightarrow> nat list" where
  "decode_groups (w # x # y # z # ks) = triple (((w * 64 + x) * 64 + y) * 64 + z) @ decode_groups ks"
| "decode_groups [x, y, z] = take 2 (triple (((x * 64 + y) * 64 + z) * 64))"
| "decode_groups [x, y] = take 1 (triple ((x * 64 + y) * 4096))"
| "decode_groups ks = []"

definition construct_from :: "nat \<Rightarrow> 32 word \<Rightarrow> js \<Rightarrow> nat list" where
  "construct_from t o0 i =
     (let (out, o1) = construct_loop t o0 i; r = ((t + length i) mod 4) * 6
      in out @ (if r = 0 then [byte_at 16 o1, byte_at 8 o1, byte_at 0 o1]
                else if r = 18 then [byte_at 10 o1, byte_at 2 o1]
                else if r = 12 then [byte_at 4 o1] else []))"

lemma base64_map_simps: "distinct BASE64_MAP" "length BASE64_MAP = 67"
  by (simp_all add: BASE64_MAP_def lit_def)

lemma base64_index [simp]: "k < 64 \<Longrightarrow> js_indexOf BASE64_MAP (BASE64_MAP ! k) = int k"
  by (simp add: js_indexOf_nth base64_map_simps)

definition accumulate :: "32 word \<Rightarrow> nat list \<Rightarrow> 32 word" where
  "accumulate b ks = fold (\<lambda>k b. push_bit 6 b OR word_of_int (int k)) ks b"

lemma shift_sextet: "k < 64 \<Longrightarrow> unat (push_bit 6 b OR of_nat k :: 32 word) mod 2 ^ 24 = (unat b * 64 + k) mod 2 ^ 24"
  using shift_in_sextet [of "int k" b] by simp

lemma mod_step64: "u mod m = v mod m \<Longrightarrow> (u * 64 + c) mod m = (v * 64 + c) mod (m :: nat)"
  by (metis mod_add_left_eq mod_mult_left_eq)

lemma accumulate_eq:
  "list_all (\<lambda>k. k < 64) ks \<Longrightarrow>
     unat (accumulate b ks) mod 2 ^ 24 = fold (\<lambda>k v. v * 64 + k) ks (unat b) mod 2 ^ 24"
proof (induction ks rule: rev_induct)
  case (snoc k ks)
  have "unat (accumulate b (ks @ [k])) mod 2 ^ 24 = (unat (accumulate b ks) * 64 + k) mod 2 ^ 24"
    using snoc.prems shift_sextet [of k "accumulate b ks"] by (simp add: accumulate_def)
  also have "\<dots> = (fold (\<lambda>k v. v * 64 + k) ks (unat b) * 64 + k) mod 2 ^ 24"
    using snoc by (intro mod_step64) simp
  finally show ?case by simp
qed (simp add: accumulate_def)

lemma bytes_triple: "[byte_at 16 b, byte_at 8 b, byte_at 0 b] = triple (unat b)"
  by (simp add: triple_def byte_at_eq)

lemmas field256 = field_of_mod [where l = 24 and m = 8, simplified]

lemma triple_cong: "v mod 2 ^ 24 = w mod 2 ^ 24 \<Longrightarrow> triple v = triple w"
proof -
  assume eq: "v mod 2 ^ 24 = w mod 2 ^ 24"
  have "v div 2 ^ k mod 256 = w div 2 ^ k mod 256" if "k \<in> {16, 8, 0}" for k
    using that field256 [of k v] field256 [of k w] eq by auto
  from this [of 16] this [of 8] this [of 0] show ?thesis by (simp add: triple_def)
qed

lemma construct_from_Cons:
  "construct_from t b (c # cs) =
     (if t mod 4 = 0 \<and> t \<noteq> 0 then triple (unat b) else []) @
     construct_from (Suc t) (push_bit 6 b OR word_of_int (js_indexOf BASE64_MAP c)) cs"
  unfolding construct_from_def construct_loop.simps bytes_triple
  by (simp add: Let_def split: prod.split)

lemma byte_of_mod:
  assumes "k + 8 \<le> l" and "l \<le> 24" and "unat b mod 2 ^ l = v mod 2 ^ l"
  shows "byte_at k b = v div 2 ^ k mod 256"
proof -
  have k: "k \<le> 24" using assms(1,2) by linarith
  have "unat b div 2 ^ k mod 2 ^ 8 = unat b mod 2 ^ l div 2 ^ k mod 2 ^ 8"
    by (rule field_of_mod [OF assms(1), symmetric])
  also have "\<dots> = v div 2 ^ k mod 2 ^ 8"
    unfolding assms(3) by (rule field_of_mod [OF assms(1)])
  finally have f: "unat b div 2 ^ k mod 2 ^ 8 = v div 2 ^ k mod 2 ^ 8" .
  have p: "(2 :: nat) ^ 8 = 256" by simp
  show ?thesis using f unfolding byte_at_eq [OF k] p .
qed

lemma accumulate_low:
  assumes "list_all (\<lambda>k. k < 64) ks" and "6 * length ks \<le> 24"
  shows "unat (accumulate b ks) mod 2 ^ (6 * length ks) = fold (\<lambda>k v. v * 64 + k) ks 0 mod 2 ^ (6 * length ks)"
proof -
  have "fold (\<lambda>k v. v * 64 + k) ks c = c * 2 ^ (6 * length ks) + fold (\<lambda>k v. v * 64 + k) ks (0 :: nat)" for c
    by (induction ks rule: rev_induct) (simp_all add: power_add algebra_simps)
  then have "fold (\<lambda>k v. v * 64 + k) ks (unat b) mod 2 ^ (6 * length ks) =
      fold (\<lambda>k v. v * 64 + k) ks 0 mod 2 ^ (6 * length ks)"
    by (metis add.commute mod_mult_self1)
  moreover have "unat (accumulate b ks) mod 2 ^ 24 mod 2 ^ (6 * length ks) =
      fold (\<lambda>k v. v * 64 + k) ks (unat b) mod 2 ^ 24 mod 2 ^ (6 * length ks)"
    using accumulate_eq [OF assms(1)] by simp
  moreover have "(2 :: nat) ^ (6 * length ks) dvd 2 ^ 24" by (rule le_imp_power_dvd [OF assms(2)])
  ultimately show ?thesis by (simp only: mod_mod_cancel)
qed

definition b64 :: "nat list \<Rightarrow> js" where
  "b64 ks = map (\<lambda>k. BASE64_MAP ! k) ks"

lemma construct_from_b64:
  "k < 64 \<Longrightarrow> construct_from t b (b64 (k # ks)) =
     (if t mod 4 = 0 \<and> t \<noteq> 0 then triple (unat b) else []) @ construct_from (Suc t) (accumulate b [k]) (b64 ks)"
  by (simp add: b64_def construct_from_Cons accumulate_def)

lemma accumulate_append: "accumulate (accumulate b ks) ls = accumulate b (ks @ ls)"
  by (simp add: accumulate_def)

lemma construct_end:
  assumes "t mod 4 = 0" and "list_all (\<lambda>k. k < 64) ks" and "length ks < 4"
  shows "construct_from (t + length ks) (accumulate b ks) [] =
    (if ks = [] then triple (unat b) else decode_groups ks)"
proof -
  consider "ks = []" | k where "ks = [k]" | x y where "ks = [x, y]" | x y z where "ks = [x, y, z]"
    using assms(3) by (cases ks rule: remdups_adj.cases; cases "tl (tl ks)") auto
  then show ?thesis
  proof cases
    case 1
    then show ?thesis using assms(1) by (simp add: construct_from_def bytes_triple accumulate_def)
  next
    case 2
    have "(t + 1) mod 4 = 1" using assms(1) by presburger
    then show ?thesis using 2 by (simp add: construct_from_def)
  next
    case 3
    have "(t + 2) mod 4 = 2" using assms(1) by presburger
    moreover have "byte_at 4 (accumulate b ks) = (x * 64 + y) div 2 ^ 4 mod 256"
      using accumulate_low [OF assms(2), of b] 3 by (intro byte_of_mod [where l = 12]) simp_all
    moreover have "(x * 64 + y) * 4096 div 65536 = (x * 64 + y) div 16"
      using div_mult_mult2 [of 4096 "x * 64 + y" 16] by simp
    ultimately show ?thesis using 3 by (simp add: construct_from_def triple_def)
  next
    case 4
    let ?v = "(x * 64 + y) * 64 + z"
    have "(t + 3) mod 4 = 3" "(3 + t) mod 4 = 3" using assms(1) by presburger+
    moreover have "byte_at 10 (accumulate b ks) = ?v div 2 ^ 10 mod 256" "byte_at 2 (accumulate b ks) = ?v div 2 ^ 2 mod 256"
      using accumulate_low [OF assms(2), of b] 4 by (intro byte_of_mod [where l = 18]; simp)+
    moreover have "?v * 64 div 65536 = ?v div 1024" "?v * 64 div 256 = ?v div 4"
      using div_mult_mult2 [of 64 ?v 1024] div_mult_mult2 [of 64 ?v 4] by simp_all
    ultimately show ?thesis using 4 by (simp add: construct_from_def triple_def Let_def)
  qed
qed

lemma positions:
  assumes "t mod 4 = (0 :: nat)"
  shows "(Suc t mod 4 = 0) = False" "(Suc (Suc t) mod 4 = 0) = False" "(Suc (Suc (Suc t)) mod 4 = 0) = False"
    "Suc (Suc (Suc (Suc t))) mod 4 = 0"
  using assms by presburger+

lemma construct_some:
  assumes "list_all (\<lambda>k. k < 64) ks" and "t mod 4 = 0" and "ks \<noteq> []" and "length ks \<le> 4"
  shows "construct_from t b (b64 (ks @ ls)) =
    (if t \<noteq> 0 then triple (unat b) else []) @ construct_from (t + length ks) (accumulate b ks) (b64 ls)"
proof -
  consider k where "ks = [k]" | x y where "ks = [x, y]" | x y z where "ks = [x, y, z]"
    | w x y z where "ks = [w, x, y, z]"
    using assms(3,4) by (cases ks rule: remdups_adj.cases; cases "tl (tl ks)"; cases "tl (tl (tl ks))") auto
  then show ?thesis
    using assms(1,2)
    by cases (simp_all only: append_Cons append_Nil construct_from_b64 positions list.pred_inject simp_thms if_False
      accumulate_append list.size add_Suc_right add_0_right)
qed

lemma construct_from_groups:
  "list_all (\<lambda>k. k < 64) ks \<Longrightarrow> t mod 4 = 0 \<Longrightarrow>
     construct_from t b (b64 ks) = (if t \<noteq> 0 \<or> ks = [] then triple (unat b) else []) @ decode_groups ks"
proof (induction ks arbitrary: t b rule: decode_groups.induct)
  case (1 w x y z ks)
  let ?m = "accumulate b [w, x, y, z]" and ?v = "((w * 64 + x) * 64 + y) * 64 + z"
  have four: "length [w, x, y, z] = 4" by simp
  have t: "(t + 4) mod 4 = 0" using 1(3) by simp
  have "construct_from t b (b64 (w # x # y # z # ks)) =
      (if t \<noteq> 0 then triple (unat b) else []) @ construct_from (t + 4) ?m (b64 ks)"
    using construct_some [of "[w, x, y, z]" t b ks, unfolded four] 1(2,3) by simp
  also have "construct_from (t + 4) ?m (b64 ks) = triple (unat ?m) @ decode_groups ks"
    using 1(1) [OF _ t] 1(2) by simp
  also have "triple (unat ?m) = triple ?v"
    using accumulate_low [of "[w, x, y, z]" b] 1(2) by (intro triple_cong) simp
  finally show ?case by simp
next
  case (2 x y z)
  then show ?case using construct_end [OF 2(2,1), of b] construct_some [OF 2(1,2), of b "[]"] by (simp add: b64_def)
next
  case (3 x y)
  then show ?case using construct_end [OF 3(2,1), of b] construct_some [OF 3(1,2), of b "[]"] by (simp add: b64_def)
next
  case "4_1"
  then show ?case using construct_end [of t "[]" b] by (simp add: b64_def accumulate_def)
next
  case "4_2"
  then show ?case using construct_end [OF "4_2"(2,1), of b] construct_some [OF "4_2"(1,2), of b "[]"]
    by (simp add: b64_def)
qed

lemma quad_b64: "quad v = b64 [v div 2 ^ 18 mod 64, v div 2 ^ 12 mod 64, v div 2 ^ 6 mod 64, v mod 64]"
  by (simp add: quad_def b64_def)

lemma b64_kept: "list_all (\<lambda>k. k < 64) ks \<Longrightarrow> filter (\<lambda>c. c \<notin> {10, 13, 61}) (b64 ks) = b64 ks"
proof -
  have "BASE64_MAP ! k \<notin> {10, 13, 61}" if "k < 64" for k
  proof -
    have "{BASE64_MAP ! 64, BASE64_MAP ! 65, BASE64_MAP ! 66} = {10, 13, 61}"
      by (auto simp: BASE64_MAP_def lit_def)
    moreover have "BASE64_MAP ! k \<noteq> BASE64_MAP ! j" if "j \<in> {64, 65, 66}" for j
      using that \<open>k < 64\<close> nth_eq_iff_index_eq [OF base64_map_simps(1), of k j] by (auto simp: base64_map_simps)
    ultimately show ?thesis by (metis insert_iff singletonD)
  qed
  moreover assume "list_all (\<lambda>k. k < 64) ks"
  ultimately show ?thesis by (induction ks) (auto simp: b64_def)
qed

text \<open>The sextets of the groups of three bytes.\<close>

fun sextets :: "nat list \<Rightarrow> nat list" where
  "sextets (a # b # c # bs) =
     (let v = a * 65536 + b * 256 + c in [v div 2 ^ 18 mod 64, v div 2 ^ 12 mod 64, v div 2 ^ 6 mod 64, v mod 64] @ sextets bs)"
| "sextets [a, b] =
     (let v = (a * 256 + b) * 256 in [v div 2 ^ 18 mod 64, v div 2 ^ 12 mod 64, v div 2 ^ 6 mod 64])"
| "sextets [a] = (let v = a * 65536 in [v div 2 ^ 18 mod 64, v div 2 ^ 12 mod 64])"
| "sextets [] = []"

lemma sextets_range: "list_all (\<lambda>k. k < 64) (sextets bs)"
  by (induction bs rule: sextets.induct) (simp_all add: Let_def)

lemma encode_groups_kept: "filter (\<lambda>c. c \<notin> {10, 13, 61}) (encode_groups bs) = b64 (sextets bs)"
proof -
  have pad: "BASE64_MAP ! 64 = 61" by (simp add: BASE64_MAP_def lit_def)
  have "\<exists>p. encode_groups bs = b64 (sextets bs) @ p \<and> set p \<subseteq> {61}"
  proof (induction bs rule: sextets.induct)
    case (1 a b c bs)
    then show ?case by (auto simp: quad_b64 b64_def Let_def)
  qed (auto simp: quad_b64 b64_def Let_def pad)
  then obtain p where "encode_groups bs = b64 (sextets bs) @ p" "filter (\<lambda>c. c \<notin> {10, 13, 61}) p = []"
    by (auto simp: filter_empty_conv)
  then show ?thesis using b64_kept [OF sextets_range] by simp
qed

lemma digits64: "v < 2 ^ 24 \<Longrightarrow>
    (((v div 2 ^ 18 mod 64) * 64 + v div 2 ^ 12 mod 64) * 64 + v div 2 ^ 6 mod 64) * 64 + v mod 64 = (v :: nat)"
proof -
  assume v: "v < 2 ^ 24"
  have d: "v div 2 ^ 12 = v div 2 ^ 6 div 64" "v div 2 ^ 18 = v div 2 ^ 6 div 64 div 64"
    by (simp_all flip: div_mult2_eq)
  have "v div 2 ^ 6 div 64 div 64 mod 64 = v div 2 ^ 6 div 64 div 64"
    using v by (simp flip: div_mult2_eq add: less_mult_imp_div_less)
  moreover have "v div 2 ^ 6 * 64 + v mod 64 = v" using div_mult_mod_eq [of v 64] by simp
  ultimately show ?thesis unfolding d by (simp only: div_mult_mod_eq)
qed

lemma byte_groups:
  assumes "b < 256" and "c < 256"
  shows "(a * 65536 + b * 256 + c) div 65536 = a" "(a * 65536 + b * 256 + c) div 256 = a * 256 + b"
    "(a * 65536 + b * 256 + c) mod 256 = (c :: nat)"
proof -
  show "(a * 65536 + b * 256 + c) div 65536 = a" "(a * 65536 + b * 256 + c) div 256 = a * 256 + b"
    using assms by (intro div_nat_eqI; simp)+
  have "a * 65536 + b * 256 + c = c + (a * 256 + b) * 256" by simp
  then show "(a * 65536 + b * 256 + c) mod 256 = c" using assms(2) by (simp only: mod_mult_self1 mod_less)
qed

lemma decode_sextets: "list_all (\<lambda>b. b < 256) bs \<Longrightarrow> decode_groups (sextets bs) = bs"
proof (induction bs rule: sextets.induct)
  case (1 a b c bs)
  let ?v = "a * 65536 + b * 256 + c"
  have "?v < 2 ^ 24" using 1(2) by simp
  then have "decode_groups (sextets (a # b # c # bs)) = triple ?v @ decode_groups (sextets bs)"
    using digits64 [of ?v] by (simp add: Let_def)
  moreover have "?v div 65536 = a" "?v div 256 = a * 256 + b" "?v mod 256 = c"
    using 1(2) by (simp_all add: byte_groups)
  ultimately show ?case using 1 by (simp add: triple_def)
next
  case (2 a b)
  let ?v = "(a * 256 + b) * 256"
  have "?v < 2 ^ 24" "?v mod 64 = 0" using 2 by (simp_all add: mod_mult_right_eq)
  then have "decode_groups (sextets [a, b]) = take 2 (triple ?v)"
    using digits64 [of ?v] by (simp add: Let_def)
  moreover have "?v div 65536 = a" "?v div 256 = a * 256 + b" using 2 by simp_all
  ultimately show ?case using 2 by (simp add: triple_def)
next
  case (3 a)
  let ?v = "a * 65536"
  have "?v < 2 ^ 24" "?v mod 64 = 0" "?v div 2 ^ 6 mod 64 = 0" using 3 by simp_all
  then have "((?v div 2 ^ 18 mod 64 * 64 + ?v div 2 ^ 12 mod 64) * 64 + 0) * 64 + 0 = ?v" using digits64 [of ?v] by metis
  moreover have "((x * 64 + y) * 64 + 0) * 64 + 0 = (x * 64 + y) * (4096 :: nat)" for x y by simp
  ultimately have "(?v div 2 ^ 18 mod 64 * 64 + ?v div 2 ^ 12 mod 64) * 4096 = ?v" by metis
  then have "decode_groups (sextets [a]) = take 1 (triple ?v)"
    unfolding sextets.simps Let_def decode_groups.simps by (rule arg_cong)
  then show ?case using 3 by (simp add: triple_def)
qed simp

lemma constructYamlBinary_from: "constructYamlBinary e = construct_from 0 0 (filter (\<lambda>c. c \<notin> {10, 13, 61}) e)"
  unfolding constructYamlBinary_def construct_from_def Let_def by (simp split: prod.split)

lemma sextets_not_Nil: "bs \<noteq> [] \<Longrightarrow> sextets bs \<noteq> []"
  by (cases bs rule: sextets.cases) (simp_all add: Let_def)

text \<open>Base64: what the YAML dumper writes for a buffer of at least one byte, the loader reads
  back byte by byte.\<close>

theorem yaml_binary_round_trip:
  assumes "bs \<noteq> []" and "list_all (\<lambda>b. b < 256) bs"
  shows "constructYamlBinary (representYamlBinary bs) = bs"
proof -
  have "constructYamlBinary (representYamlBinary bs) = construct_from 0 0 (b64 (sextets bs))"
    using representYamlBinary_groups [OF assms] by (simp only: constructYamlBinary_from encode_groups_kept)
  also have "\<dots> = decode_groups (sextets bs)"
    using construct_from_groups [OF sextets_range, of 0 0 bs] sextets_not_Nil [OF assms(1)] by simp
  finally show ?thesis using decode_sextets [OF assms(2)] by simp
qed

theorem yaml_binary_round_trip_witness: "constructYamlBinary (representYamlBinary [86, 73, 83, 65]) = [86, 73, 83, 65]"
  using yaml_binary_round_trip [of "[86, 73, 83, 65]"] by simp

text \<open>The dumper writes the empty buffer as four characters, which the loader reads as three bytes.\<close>

theorem yaml_binary_empty_buffer:
  "representYamlBinary [] = lit ''AAAA'' \<and> constructYamlBinary (representYamlBinary []) = [0, 0, 0]"
  by code_simp

end
