(* ===== verification/Script_Yaml_Refs.thy ===== *)
theory Script_Yaml_Refs
  imports Script_Prelude "HOL-Library.Multiset"
begin

text \<open>
  How the YAML dumper finds the objects that it must write with an anchor: \<^verbatim>\<open>inspectNode\<close> and
  \<^verbatim>\<open>getDuplicateReferences\<close>. Objects and arrays live in a heap, which may be cyclic: an address stands
  for the identity of an object, the heap gives the values of its properties in order. The recursion
  has fuel; that the number of objects is enough of it is proved.
\<close>

datatype val = Prim | Ref nat

type_synonym heap = "nat \<Rightarrow> val list"

text \<open>The state is the list of the objects met, and that of the positions of those met again.\<close>

fun inspectNode :: "heap \<Rightarrow> nat \<Rightarrow> val \<Rightarrow> nat list \<times> nat list \<Rightarrow> (nat list \<times> nat list) option"
  and inspectNodes :: "heap \<Rightarrow> nat \<Rightarrow> val list \<Rightarrow> nat list \<times> nat list \<Rightarrow> (nat list \<times> nat list) option" where
  "inspectNode h 0 e st = None"
| "inspectNode h (Suc fuel) Prim st = Some st"
| "inspectNode h (Suc fuel) (Ref a) (t, r) =
     (let n = js_indexOf t a in
      if n \<noteq> -1 then Some (t, if js_indexOf r (nat n) = -1 then r @ [nat n] else r)
      else inspectNodes h fuel (h a) (t @ [a], r))"
| "inspectNodes h fuel [] st = Some st"
| "inspectNodes h fuel (e # es) st =
     (case inspectNode h fuel e st of None \<Rightarrow> None | Some st' \<Rightarrow> inspectNodes h fuel es st')"

definition getDuplicateReferences :: "heap \<Rightarrow> nat \<Rightarrow> val \<Rightarrow> nat list option" where
  "getDuplicateReferences h fuel e =
     map_option (\<lambda>(n, s). map (\<lambda>i. n ! i) s) (inspectNode h fuel e ([], []))"

section \<open>Specification\<close>

fun ref_count :: "val \<Rightarrow> nat \<Rightarrow> nat" where
  "ref_count Prim a = 0"
| "ref_count (Ref b) a = (if b = a then 1 else 0)"

definition refs :: "val list \<Rightarrow> nat \<Rightarrow> nat" where
  "refs es a = sum_list (map (\<lambda>e. ref_count e a) es)"

text \<open>How often an object is referred to from a list of values and from the objects of a list.\<close>

definition met :: "heap \<Rightarrow> val list \<Rightarrow> nat list \<Rightarrow> nat \<Rightarrow> nat" where
  "met h es new a = refs es a + sum_list (map (\<lambda>b. refs (h b) a) new)"

lemma refs_simps [simp]: "refs [] a = 0" "refs (e # es) a = ref_count e a + refs es a"
  by (simp_all add: refs_def)

lemma met_simps:
  "met h [] [] a = 0" "met h (e # es) (new1 @ new2) a = met h [e] new1 a + met h es new2 a"
  "met h [Ref b] (b # new) a = (if b = a then 1 else 0) + met h (h b) new a"
  by (simp_all add: met_def)

inductive_set reachable :: "heap \<Rightarrow> val list \<Rightarrow> nat set" for h es where
  reach_start: "Ref a \<in> set es \<Longrightarrow> a \<in> reachable h es"
| reach_step: "b \<in> reachable h es \<Longrightarrow> Ref a \<in> set (h b) \<Longrightarrow> a \<in> reachable h es"

text \<open>
  What a call does to the state: it appends new objects; an object met in the call is new or was
  there; the positions stay distinct; an old object's position is added when it is met, a new
  object's when it is met twice.
\<close>

definition call_ok :: "heap \<Rightarrow> val list \<Rightarrow> nat list \<times> nat list \<Rightarrow> nat list \<times> nat list \<Rightarrow> bool" where
  "call_ok h es st st' \<longleftrightarrow>
     (\<exists>new. fst st' = fst st @ new \<and> distinct (fst st') \<and> distinct (snd st') \<and>
        (\<forall>i \<in> set (snd st'). i < length (fst st')) \<and>
        (\<forall>a. met h es new a \<ge> 1 \<longrightarrow> a \<in> set (fst st')) \<and>
        (\<forall>a \<in> set new. met h es new a \<ge> 1) \<and>
        (\<forall>i < length (fst st'). i \<in> set (snd st') \<longleftrightarrow>
           (if i < length (fst st) then i \<in> set (snd st) \<or> met h es new (fst st' ! i) \<ge> 1
            else met h es new (fst st' ! i) \<ge> 2)))"

definition state_ok :: "nat list \<times> nat list \<Rightarrow> bool" where
  "state_ok st \<longleftrightarrow> distinct (fst st) \<and> distinct (snd st) \<and> (\<forall>i \<in> set (snd st). i < length (fst st))"

lemma call_ok_state: "call_ok h es st st' \<Longrightarrow> state_ok st'"
  by (auto simp: call_ok_def state_ok_def)

lemma call_ok_refl: "state_ok st \<Longrightarrow> refs es = (\<lambda>a. 0) \<Longrightarrow> call_ok h es st st"
  by (auto simp: call_ok_def state_ok_def met_def intro!: exI [where x = "[]"])

lemma call_ok_trans:
  assumes "call_ok h [e] st st1" and "call_ok h es st1 st2"
  shows "call_ok h (e # es) st st2"
proof -
  obtain new1 where 1: "fst st1 = fst st @ new1" "distinct (fst st1)"
      "\<forall>a. met h [e] new1 a \<ge> 1 \<longrightarrow> a \<in> set (fst st1)" "\<forall>a \<in> set new1. met h [e] new1 a \<ge> 1"
      "\<forall>i < length (fst st1). i \<in> set (snd st1) \<longleftrightarrow>
        (if i < length (fst st) then i \<in> set (snd st) \<or> met h [e] new1 (fst st1 ! i) \<ge> 1 else met h [e] new1 (fst st1 ! i) \<ge> 2)"
    using assms(1) unfolding call_ok_def by blast
  obtain new2 where 2: "fst st2 = fst st1 @ new2" "distinct (fst st2)" "distinct (snd st2)"
      "\<forall>i \<in> set (snd st2). i < length (fst st2)"
      "\<forall>a. met h es new2 a \<ge> 1 \<longrightarrow> a \<in> set (fst st2)" "\<forall>a \<in> set new2. met h es new2 a \<ge> 1"
      "\<forall>i < length (fst st2). i \<in> set (snd st2) \<longleftrightarrow>
        (if i < length (fst st1) then i \<in> set (snd st1) \<or> met h es new2 (fst st2 ! i) \<ge> 1 else met h es new2 (fst st2 ! i) \<ge> 2)"
    using assms(2) unfolding call_ok_def by blast
  let ?m = "met h (e # es) (new1 @ new2)"
  have m: "?m a = met h [e] new1 a + met h es new2 a" for a by (rule met_simps(2))
  have dup: "i \<in> set (snd st2) \<longleftrightarrow>
      (if i < length (fst st) then i \<in> set (snd st) \<or> ?m (fst st2 ! i) \<ge> 1 else ?m (fst st2 ! i) \<ge> 2)"
    if i: "i < length (fst st2)" for i
  proof (cases "i < length (fst st1)")
    case True
    have at: "fst st2 ! i = fst st1 ! i" using True 2(1) by (simp add: nth_append)
    show ?thesis
    proof (cases "i < length (fst st)")
      case old: True
      then show ?thesis using True i at 1(5) 2(7) m by auto
    next
      case new: False
      then have "fst st1 ! i \<in> set new1" using True 1(1) by (simp add: nth_append)
      then have "met h [e] new1 (fst st1 ! i) \<ge> 1" using 1(4) by blast
      then show ?thesis using new True i at 1(5) 2(7) m by auto
    qed
  next
    case False
    then have "fst st2 ! i \<in> set new2" using 2(1) i by (simp add: nth_append)
    then have "fst st2 ! i \<notin> set (fst st1)" using 2(1,2) by auto
    then have "met h [e] new1 (fst st2 ! i) = 0" using 1(3) by (meson leI less_one)
    moreover have "\<not> i < length (fst st)" using False 1(1) by simp
    ultimately show ?thesis using False i 2(7) m by auto
  qed
  show ?thesis
    unfolding call_ok_def
  proof (intro exI [where x = "new1 @ new2"] conjI)
    show "\<forall>a. 1 \<le> ?m a \<longrightarrow> a \<in> set (fst st2)"
    proof (intro allI impI)
      fix a
      assume "1 \<le> ?m a"
      then have "1 \<le> met h [e] new1 a \<or> 1 \<le> met h es new2 a" using m [of a] by linarith
      then show "a \<in> set (fst st2)" using 1(3) 2(1,5) by auto
    qed
    show "\<forall>a \<in> set (new1 @ new2). 1 \<le> ?m a"
    proof
      fix a
      assume "a \<in> set (new1 @ new2)"
      then have "1 \<le> met h [e] new1 a \<or> 1 \<le> met h es new2 a" using 1(4) 2(6) by auto
      then show "1 \<le> ?m a" using m [of a] by linarith
    qed
  qed (use 1(1) 2 dup in auto)
qed

lemma call_ok_known:
  assumes "state_ok (t, r)" and "i < length t" and "t ! i = a"
  shows "call_ok h [Ref a] (t, r) (t, if js_indexOf r i = -1 then r @ [i] else r)"
proof -
  have i: "t ! j = a \<longleftrightarrow> j = i" if "j < length t" for j
    using assms that by (auto simp: state_ok_def nth_eq_iff_index_eq)
  have "a \<in> set t" using assms(2,3) by auto
  then show ?thesis
    unfolding call_ok_def using assms i
    by (intro exI [where x = "[]"]) (auto simp: state_ok_def met_def js_indexOf_absent)
qed

lemma call_ok_new:
  assumes "call_ok h (h a) (t @ [a], r) st'" and "state_ok (t, r)" and "a \<notin> set t"
  shows "call_ok h [Ref a] (t, r) st'"
proof -
  obtain new where n: "fst st' = (t @ [a]) @ new" "distinct (fst st')" "distinct (snd st')"
      "\<forall>i \<in> set (snd st'). i < length (fst st')"
      "\<forall>b. met h (h a) new b \<ge> 1 \<longrightarrow> b \<in> set (fst st')" "\<forall>b \<in> set new. met h (h a) new b \<ge> 1"
      "\<forall>i < length (fst st'). i \<in> set (snd st') \<longleftrightarrow>
        (if i < length (t @ [a]) then i \<in> set r \<or> met h (h a) new (fst st' ! i) \<ge> 1 else met h (h a) new (fst st' ! i) \<ge> 2)"
    using assms(1) unfolding call_ok_def fst_conv snd_conv by blast
  have m: "met h [Ref a] (a # new) b = (if a = b then 1 else 0) + met h (h a) new b" for b
    by (rule met_simps(3))
  have a: "fst st' ! i = a \<longleftrightarrow> i = length t" if "i < length (fst st')" for i
    using n(1,2) that nth_eq_iff_index_eq [OF n(2), of i "length t"] by (auto simp: nth_append)
  have r: "length t \<notin> set r" using assms(2) by (auto simp: state_ok_def)
  have dup: "i \<in> set (snd st') \<longleftrightarrow>
      (if i < length t then i \<in> set r \<or> met h [Ref a] (a # new) (fst st' ! i) \<ge> 1
       else met h [Ref a] (a # new) (fst st' ! i) \<ge> 2)" if i: "i < length (fst st')" for i
  proof (cases "i = length t")
    case True
    then show ?thesis using n(7) i a [OF i] r m [of "fst st' ! i"] by (simp add: n(1))
  next
    case False
    then have "fst st' ! i \<noteq> a" using a [OF i] by blast
    then have "met h [Ref a] (a # new) (fst st' ! i) = met h (h a) new (fst st' ! i)" using m by simp
    moreover have "i < length (t @ [a]) \<longleftrightarrow> i < length t" using False by auto
    ultimately show ?thesis using n(7) i by simp
  qed
  show ?thesis
    unfolding call_ok_def fst_conv snd_conv
  proof (intro exI [where x = "a # new"] conjI)
    show "\<forall>b. 1 \<le> met h [Ref a] (a # new) b \<longrightarrow> b \<in> set (fst st')"
      using m n(1,5) by (auto split: if_splits)
    show "\<forall>b \<in> set (a # new). 1 \<le> met h [Ref a] (a # new) b"
      using m n(6) by (auto simp: trans_le_add2)
  qed (use n(1-4) dup in auto)
qed

lemma js_index_from_ge: "js_index_from k xs c = -1 \<or> js_index_from k xs c \<ge> int k"
proof (induction xs arbitrary: k)
  case (Cons x xs)
  then show ?case by (cases "x = c") (use Cons [of "Suc k"] in auto)
qed simp

lemma js_index_from_at:
  "js_index_from k xs c \<noteq> -1 \<Longrightarrow> nat (js_index_from k xs c - int k) < length xs \<and> xs ! nat (js_index_from k xs c - int k) = c"
proof (induction xs arbitrary: k)
  case (Cons x xs)
  show ?case
  proof (cases "x = c")
    case False
    then have ne: "js_index_from (Suc k) xs c \<noteq> -1" using Cons.prems by simp
    then have "js_index_from (Suc k) xs c \<ge> int (Suc k)" using js_index_from_ge [of "Suc k" xs c] by simp
    then have "nat (js_index_from (Suc k) xs c - int k) = Suc (nat (js_index_from (Suc k) xs c - int (Suc k)))" by simp
    then show ?thesis using Cons.IH [OF ne] False by simp
  qed simp
qed simp

lemma js_indexOf_at: "js_indexOf xs c \<noteq> -1 \<Longrightarrow> nat (js_indexOf xs c) < length xs \<and> xs ! nat (js_indexOf xs c) = c"
  using js_index_from_at [of 0 xs c] by (simp add: js_indexOf_def)

lemma inspect_call_ok:
  "state_ok st \<Longrightarrow> inspectNode h fuel e st = Some st' \<Longrightarrow> call_ok h [e] st st'"
  "state_ok st \<Longrightarrow> inspectNodes h fuel es st = Some st' \<Longrightarrow> call_ok h es st st'"
proof (induction h fuel e st and h fuel es st arbitrary: st' and st' rule: inspectNode_inspectNodes.induct)
  case (2 h fuel st)
  then show ?case by (simp add: call_ok_refl fun_eq_iff)
next
  case (3 h fuel a t r)
  show ?case
  proof (cases "js_indexOf t a = -1")
    case True
    then have "a \<notin> set t" by (simp add: js_indexOf_absent)
    moreover have "state_ok (t @ [a], r)"
      using 3(2) \<open>a \<notin> set t\<close> by (auto simp: state_ok_def less_Suc_eq)
    ultimately show ?thesis using 3 True call_ok_new by (simp add: Let_def)
  next
    case False
    then have st': "st' = (t, if js_indexOf r (nat (js_indexOf t a)) = -1 then r @ [nat (js_indexOf t a)] else r)"
      using 3(3) by (simp add: Let_def)
    show ?thesis unfolding st' using js_indexOf_at [OF False] by (intro call_ok_known [OF 3(2)]) simp_all
  qed
next
  case (4 h fuel st)
  then show ?case by (simp add: call_ok_refl fun_eq_iff)
next
  case (5 h fuel e es st)
  obtain st1 where st1: "inspectNode h fuel e st = Some st1" "inspectNodes h fuel es st1 = Some st'"
    using 5(4) by (auto split: option.splits)
  have ok: "call_ok h [e] st st1" by (rule 5(1) [OF 5(3) st1(1)])
  show ?case by (rule call_ok_trans [OF ok]) (rule 5(2) [OF st1(1) call_ok_state [OF ok] st1(2)])
qed simp

text \<open>More fuel than objects not met yet.\<close>

lemma inspect_returns:
  assumes "finite A" and "\<And>a b. a \<in> A \<Longrightarrow> Ref b \<in> set (h a) \<Longrightarrow> b \<in> A"
  shows "state_ok st \<Longrightarrow> (\<And>b. e = Ref b \<Longrightarrow> b \<in> A) \<Longrightarrow> card (A - set (fst st)) < fuel \<Longrightarrow> inspectNode h fuel e st \<noteq> None"
    and "state_ok st \<Longrightarrow> (\<And>b. Ref b \<in> set es \<Longrightarrow> b \<in> A) \<Longrightarrow> card (A - set (fst st)) < fuel \<Longrightarrow> inspectNodes h fuel es st \<noteq> None"
  using assms(2)
proof (induction h fuel e st and h fuel es st rule: inspectNode_inspectNodes.induct)
  case (3 h fuel a t r)
  show ?case
  proof (cases "js_indexOf t a = -1")
    case True
    then have a: "a \<notin> set t" "a \<in> A" using 3(3) by (simp_all add: js_indexOf_absent)
    have "state_ok (t @ [a], r)" using 3(2) a by (auto simp: state_ok_def less_Suc_eq)
    moreover have "card (A - set (t @ [a])) < fuel"
    proof -
      have i: "A - set t = insert a (A - set (t @ [a]))" using a by auto
      have "card (insert a (A - set (t @ [a]))) = Suc (card (A - set (t @ [a])))"
        by (rule card_insert_disjoint) (use assms(1) in simp_all)
      then have "card (A - set t) = Suc (card (A - set (t @ [a])))" by (simp only: i)
      then show ?thesis using 3(4) by simp
    qed
    moreover have "b \<in> A" if "Ref b \<in> set (h a)" for b using 3(5) a(2) that by blast
    moreover have "\<not> js_indexOf t a \<noteq> -1" using True by simp
    ultimately have "inspectNodes h fuel (h a) (t @ [a], r) \<noteq> None"
      using 3(1) [OF refl] 3(5) unfolding fst_conv by metis
    then show ?thesis using True by (simp only: inspectNode.simps Let_def if_True if_False simp_thms)
  qed (simp add: Let_def)
next
  case (5 h fuel e es st)
  have "inspectNode h fuel e st \<noteq> None" by (rule 5(1)) (use 5(3-6) in simp_all)
  then obtain st' where st': "inspectNode h fuel e st = Some st'" by auto
  then have ok: "call_ok h [e] st st'" using inspect_call_ok(1) 5(3) by blast
  then have "set (fst st) \<subseteq> set (fst st')" by (auto simp: call_ok_def)
  then have "card (A - set (fst st')) \<le> card (A - set (fst st))" using assms(1) by (intro card_mono) auto
  then have "inspectNodes h fuel es st' \<noteq> None"
    by (intro 5(2) [OF st' call_ok_state [OF ok]]) (use 5(4-6) in simp_all)
  then show ?case using st' by simp
qed simp_all

text \<open>What is met is reachable, and all of that.\<close>

lemma inspect_reachable:
  "inspectNode h fuel e st = Some st' \<Longrightarrow> set (fst st') \<subseteq> set (fst st) \<union> reachable h [e]"
  "inspectNodes h fuel es st = Some st' \<Longrightarrow> set (fst st') \<subseteq> set (fst st) \<union> reachable h es"
proof (induction h fuel e st and h fuel es st arbitrary: st' and st' rule: inspectNode_inspectNodes.induct)
  case (3 h fuel a t r)
  have a: "a \<in> reachable h [Ref a]" by (rule reach_start) simp
  have sub: "reachable h (h a) \<subseteq> reachable h [Ref a]"
  proof
    fix b
    assume "b \<in> reachable h (h a)"
    then show "b \<in> reachable h [Ref a]"
      by (induction rule: reachable.induct) (auto intro: reach_step a)
  qed
  show ?case
  proof (cases "js_indexOf t a = -1")
    case True
    then have "set (fst st') \<subseteq> set (t @ [a]) \<union> reachable h (h a)" using 3 by (simp add: Let_def)
    then show ?thesis using a sub by auto
  next
    case False
    then show ?thesis using 3(2) by (auto simp: Let_def)
  qed
next
  case (5 h fuel e es st)
  obtain st1 where st1: "inspectNode h fuel e st = Some st1" "inspectNodes h fuel es st1 = Some st'"
    using 5(3) by (auto split: option.splits)
  have mono: "reachable h xs \<subseteq> reachable h ys" if "set xs \<subseteq> set ys" for xs ys
  proof
    fix b
    assume "b \<in> reachable h xs"
    then show "b \<in> reachable h ys"
      by (induction rule: reachable.induct) (use that in \<open>auto intro: reach_start reach_step\<close>)
  qed
  have "reachable h [e] \<subseteq> reachable h (e # es)" "reachable h es \<subseteq> reachable h (e # es)"
    by (rule mono; auto)+
  then show ?case using 5(1) [OF st1(1)] 5(2) [OF st1] by blast
qed simp_all

lemma refs_pos: "Ref a \<in> set es \<Longrightarrow> 1 \<le> refs es a"
  by (induction es) auto

lemma reachable_met:
  assumes "call_ok h [e] ([], []) st'"
  shows "reachable h [e] \<subseteq> set (fst st')"
proof
  obtain new where n: "fst st' = new" "\<forall>a. met h [e] new a \<ge> 1 \<longrightarrow> a \<in> set new"
    using assms by (auto simp: call_ok_def)
  fix a
  assume "a \<in> reachable h [e]"
  then show "a \<in> set (fst st')"
  proof (induction rule: reachable.induct)
    case (reach_start a)
    then have "1 \<le> refs [e] a" by (rule refs_pos)
    then have "met h [e] new a \<ge> 1" by (simp add: met_def)
    then show ?case using n by simp
  next
    case (reach_step b a)
    have "1 \<le> refs (h b) a" by (rule refs_pos [OF reach_step(2)])
    also have "\<dots> \<le> sum_list (map (\<lambda>b. refs (h b) a) new)"
      by (rule member_le_sum_list) (use reach_step n(1) in auto)
    finally have "met h [e] new a \<ge> 1" by (simp add: met_def)
    then show ?case using n by simp
  qed
qed

text \<open>The number of references to an object, from the root and from all properties of reachable objects.\<close>

definition references_to :: "heap \<Rightarrow> val \<Rightarrow> nat \<Rightarrow> nat" where
  "references_to h e a = ref_count e a + (\<Sum>b \<in> reachable h [e]. refs (h b) a)"

text \<open>C40: On every finite heap, cyclic or not, the search for shared objects ends; it returns, each once, exactly the objects that the document refers to more than once, which are those the dumper writes with an anchor.\<close>

theorem duplicate_references_exact:
  assumes "finite A" and "\<And>a b. a \<in> A \<Longrightarrow> Ref b \<in> set (h a) \<Longrightarrow> b \<in> A" and "\<And>b. e = Ref b \<Longrightarrow> b \<in> A"
    and "card A < fuel"
  shows "\<exists>dups. getDuplicateReferences h fuel e = Some dups \<and> distinct dups \<and>
    set dups = {a. references_to h e a \<ge> 2}"
proof -
  have ok: "state_ok ([], [])" by (simp add: state_ok_def)
  have "inspectNode h fuel e ([], []) \<noteq> None"
    by (rule inspect_returns(1) [OF assms(1,2) ok assms(3)]) (use assms(4) in simp_all)
  then obtain n s where st: "inspectNode h fuel e ([], []) = Some (n, s)" by auto
  have call: "call_ok h [e] ([], []) (n, s)" by (rule inspect_call_ok(1) [OF ok st])
  then have c: "distinct n" "distinct s" "\<forall>i \<in> set s. i < length n" "\<forall>a. met h [e] n a \<ge> 1 \<longrightarrow> a \<in> set n"
      "\<forall>i < length n. i \<in> set s \<longleftrightarrow> met h [e] n (n ! i) \<ge> 2"
    by (auto simp: call_ok_def)
  have "set n = reachable h [e]"
    using inspect_reachable(1) [OF st] reachable_met [OF call] by auto
  then have met: "met h [e] n a = references_to h e a" for a
    using sum_list_distinct_conv_sum_set [OF c(1)] by (simp add: met_def references_to_def)
  have "distinct (map (\<lambda>i. n ! i) s)"
    using c(1-3) by (auto simp: distinct_map inj_on_def nth_eq_iff_index_eq)
  moreover have "set (map (\<lambda>i. n ! i) s) = {a. references_to h e a \<ge> 2}"
  proof (intro set_eqI iffI)
    fix a
    assume "a \<in> {a. references_to h e a \<ge> 2}"
    then have a: "met h [e] n a \<ge> 2" using met by simp
    then have "met h [e] n a \<ge> 1" by simp
    then obtain i where "i < length n" "n ! i = a" using c(4) by (meson in_set_conv_nth)
    then show "a \<in> set (map (\<lambda>i. n ! i) s)" using c(5) a by auto
  qed (use c(3,5) met in auto)
  ultimately show ?thesis using st by (simp add: getDuplicateReferences_def)
qed

text \<open>A list that holds the same object twice, the object referring to the list.\<close>

theorem duplicate_references_exact_witness:
  "let h = (\<lambda>a. if a = 0 then [Ref 1, Prim, Ref 1] else if a = 1 then [Ref 0] else [])
   in \<exists>dups. getDuplicateReferences h 3 (Ref 0) = Some dups \<and> distinct dups \<and>
     set dups = {a. references_to h (Ref 0) a \<ge> 2}"
  unfolding Let_def
  by (rule duplicate_references_exact [where A = "{0, 1}"]) (auto split: if_splits)

end
