(* ===== verification/Script_Codecs.thy ===== *)
theory Script_Codecs
  imports Script_Prelude
begin

text \<open>
  Encodings in the bundled scripts: UCS-2 and code points (punycode, esprima, remarkable), keys of
  React children, JSON pointers, hexadecimal text of buffers, the incremental UTF-8 decoder and the
  checksum of markup.
\<close>

section \<open>Code points and code units\<close>

text \<open>punycode \<^verbatim>\<open>ucs2.decode\<close>: a pair of surrogates is one code point, a lone one stands for itself.\<close>

fun ucs2decode :: "js \<Rightarrow> nat list" where
  "ucs2decode [] = []"
| "ucs2decode [t] = [t]"
| "ucs2decode (t # n # e) =
     (if 55296 \<le> t \<and> t \<le> 56319 then
        (if and 64512 n = 56320 then (push_bit 10 (and 1023 t) + and 1023 n + 65536) # ucs2decode e
         else t # ucs2decode (n # e))
      else t # ucs2decode (n # e))"

text \<open>A code point above 65535 becomes two code units; \<^verbatim>\<open>String.fromCharCode\<close> keeps 16 bits.\<close>

definition fromCharCode :: "nat \<Rightarrow> nat" where
  "fromCharCode n = n mod 65536"

definition ucs2encode_one :: "nat \<Rightarrow> js" where
  "ucs2encode_one e =
     (if e > 65535 then
        (let e1 = e - 65536 in [fromCharCode (or (and (drop_bit 10 e1) 1023) 55296), fromCharCode (or 56320 (and 1023 e1))])
      else [fromCharCode e])"

definition ucs2encode :: "nat list \<Rightarrow> js" where
  "ucs2encode es = concat (map ucs2encode_one es)"

text \<open>esprima \<^verbatim>\<open>Character.fromCodePoint\<close>, and the function of the same name in the Markdown renderer.\<close>

definition esprima_fromCodePoint :: "nat \<Rightarrow> js" where
  "esprima_fromCodePoint e =
     (if e < 65536 then [fromCharCode e]
      else [fromCharCode (55296 + drop_bit 10 (e - 65536))] @ [fromCharCode (56320 + and (e - 65536) 1023)])"

definition remarkable_fromCodePoint :: "nat \<Rightarrow> js" where
  "remarkable_fromCodePoint e =
     (if e > 65535 then
        (let e1 = e - 65536; t = 55296 + drop_bit 10 e1; n = 56320 + and 1023 e1 in [fromCharCode t, fromCharCode n])
      else [fromCharCode e])"

definition isValidEntityCode :: "nat \<Rightarrow> bool" where
  "isValidEntityCode e \<longleftrightarrow>
     \<not> (55296 \<le> e \<and> e \<le> 57343) \<and> \<not> (64976 \<le> e \<and> e \<le> 65007) \<and>
     and 65535 e \<noteq> 65535 \<and> and 65535 e \<noteq> 65534 \<and> \<not> (e \<le> 8) \<and> e \<noteq> 11 \<and>
     \<not> (14 \<le> e \<and> e \<le> 31) \<and> \<not> (127 \<le> e \<and> e \<le> 159) \<and> \<not> (e > 1114111)"

lemma and_masks: "and 1023 n = n mod 1024" "and n 1023 = n mod 1024" "and 65535 n = n mod (65536 :: nat)"
proof -
  have m: "(1023 :: nat) = mask 10" "(65535 :: nat) = mask 16" by (simp_all add: mask_eq_exp_minus_1)
  show "and n 1023 = n mod 1024" unfolding m take_bit_eq_mask [symmetric] take_bit_eq_mod by simp
  then show "and 1023 n = n mod 1024" by (simp only: and.commute)
  show "and 65535 n = n mod 65536"
    unfolding m and.commute [of "mask 16"] take_bit_eq_mask [symmetric] take_bit_eq_mod by simp
qed

lemma or_surrogate: "k < 1024 \<Longrightarrow> or k 55296 = 55296 + k" "k < 1024 \<Longrightarrow> or 56320 k = 56320 + (k :: nat)"
proof -
  assume k: "k < 1024"
  then have t: "take_bit 10 k = k" by (simp add: take_bit_nat_eq_self)
  have "and k (push_bit 10 m) = 0" for m
    by (rule bit_eqI) (subst t [symmetric], auto simp: bit_simps)
  from this [of 54] this [of 55] have "and k 55296 = 0" "and 56320 k = 0"
    by (simp_all add: push_bit_eq_mult and.commute)
  then show "or k 55296 = 55296 + k" "or 56320 k = 56320 + k"
    using disjunctive_add_eq_or [of k 55296] disjunctive_add_eq_or [of 56320 k] by simp_all
qed

lemma and_high: "and 64512 n = 1024 * (n div 1024 mod (64 :: nat))"
proof -
  have "and (push_bit 10 (mask 6)) n = push_bit 10 (take_bit 6 (drop_bit 10 n))"
    by (rule bit_eqI) (auto simp: bit_simps)
  then show ?thesis by (simp add: push_bit_eq_mult take_bit_eq_mod drop_bit_eq_div mask_eq_exp_minus_1)
qed

lemma low_surrogate_iff: "n < 65536 \<Longrightarrow> and 64512 n = 56320 \<longleftrightarrow> 56320 \<le> n \<and> n \<le> (57343 :: nat)"
proof -
  assume n: "n < 65536"
  have d: "n = 1024 * (n div 1024) + n mod 1024" "n mod 1024 < 1024" by simp_all
  have "n div 1024 mod 64 = n div 1024" using n by simp
  then have "and 64512 n = 56320 \<longleftrightarrow> n div 1024 = 55" unfolding and_high by simp
  also have "\<dots> \<longleftrightarrow> 56320 \<le> n \<and> n \<le> 57343" using d by linarith
  finally show ?thesis .
qed

text \<open>The code units that a pair of surrogates stands for, in arithmetic.\<close>

definition pair_units :: "nat \<Rightarrow> js" where
  "pair_units e = [55296 + (e - 65536) div 1024, 56320 + (e - 65536) mod 1024]"

lemma encode_pair:
  assumes "65536 \<le> e" and "e \<le> 1114111"
  shows "ucs2encode_one e = pair_units e" "esprima_fromCodePoint e = pair_units e"
    "remarkable_fromCodePoint e = pair_units e"
proof -
  let ?d = "e - 65536"
  have "?d div 1024 < 1024" "?d mod 1024 < 1024" using assms by simp_all
  then show "ucs2encode_one e = pair_units e" "esprima_fromCodePoint e = pair_units e"
      "remarkable_fromCodePoint e = pair_units e"
    using assms
    by (simp_all add: ucs2encode_one_def esprima_fromCodePoint_def remarkable_fromCodePoint_def pair_units_def Let_def
        fromCharCode_def and_masks or_surrogate drop_bit_eq_div)
qed

lemma encode_unit:
  assumes "e < 65536"
  shows "ucs2encode_one e = [e]" "esprima_fromCodePoint e = [e]" "remarkable_fromCodePoint e = [e]"
  using assms
  by (simp_all add: ucs2encode_one_def esprima_fromCodePoint_def remarkable_fromCodePoint_def fromCharCode_def)

text \<open>For every code point, the three copies of the function that writes it as code units, in
  the scripts' punycode, JavaScript parser and Markdown renderer, give the same string.\<close>

theorem code_point_encoders_agree:
  assumes "e \<le> 1114111"
  shows "esprima_fromCodePoint e = ucs2encode [e] \<and> remarkable_fromCodePoint e = ucs2encode [e]"
  using assms encode_pair [of e] encode_unit [of e] by (cases "e < 65536") (simp_all add: ucs2encode_def)

theorem code_point_encoders_agree_witness: "esprima_fromCodePoint 128512 = ucs2encode [128512]"
  using code_point_encoders_agree [of 128512] by simp

text \<open>Decoding a string into code points and encoding them again gives the string, whatever
  lone surrogates it holds.\<close>

theorem ucs2_round_trip:
  assumes "list_all (\<lambda>u. u < 65536) s"
  shows "ucs2encode (ucs2decode s) = s"
  using assms
proof (induction s rule: ucs2decode.induct)
  case 1
  then show ?case by (simp add: ucs2encode_def)
next
  case (2 t)
  then show ?case by (simp add: ucs2encode_def encode_unit)
next
  case (3 t n e)
  show ?case
  proof (cases "55296 \<le> t \<and> t \<le> 56319 \<and> and 64512 n = 56320")
    case True
    let ?e = "push_bit 10 (and 1023 t) + and 1023 n + 65536"
    have n: "56320 \<le> n" "n \<le> 57343" using True 3(4) low_surrogate_iff by auto
    have "t = (t - 55296) + 54 * 1024" "n = (n - 56320) + 55 * 1024" using True n by simp_all
    moreover have l: "t - 55296 < 1024" "n - 56320 < 1024" using True n by linarith+
    ultimately have t: "t mod 1024 = t - 55296" "n mod 1024 = n - 56320"
      using True n mod_mult_self1 [of "t - 55296" 54 1024] mod_mult_self1 [of "n - 56320" 55 1024] by simp_all
    have e: "?e = (t - 55296) * 1024 + (n - 56320) + 65536"
      unfolding and_masks t by (simp add: push_bit_eq_mult)
    have range: "65536 \<le> ?e" "?e \<le> 1114111" unfolding e using True n by linarith+
    have "pair_units ?e = [t, n]"
    proof -
      have "((t - 55296) * 1024 + (n - 56320)) div 1024 = t - 55296"
        using l by (intro div_nat_eqI) simp_all
      moreover have "((t - 55296) * 1024 + (n - 56320)) mod 1024 = n - 56320"
        using l mod_mult_self3 [of "t - 55296" 1024 "n - 56320"] by simp
      ultimately show ?thesis unfolding pair_units_def e using True n by simp
    qed
    then have "ucs2encode (ucs2decode (t # n # e)) = [t, n] @ ucs2encode (ucs2decode e)"
      using True encode_pair(1) [OF range] by (simp add: ucs2encode_def)
    then show ?thesis using True 3 by simp
  next
    case False
    then have "ucs2decode (t # n # e) = t # ucs2decode (n # e)" by auto
    then show ?thesis using False 3 by (simp add: ucs2encode_def encode_unit split: if_splits)
  qed
qed

theorem ucs2_round_trip_witness: "ucs2encode (ucs2decode [55357, 56832, 65, 55357]) = [55357, 56832, 65, 55357]"
  using ucs2_round_trip [of "[55357, 56832, 65, 55357]"] by simp


section \<open>Keys and pointers\<close>

text \<open>React \<^verbatim>\<open>KeyEscapeUtils\<close>: \<^verbatim>\<open>=\<close> (61) becomes \<^verbatim>\<open>=0\<close> and \<^verbatim>\<open>:\<close> (58) becomes \<^verbatim>\<open>=2\<close>; the result starts with \<^verbatim>\<open>$\<close> (36).\<close>

definition key_escape :: "js \<Rightarrow> js" where
  "key_escape e = 36 # concat (map (\<lambda>c. if c = 61 then [61, 48] else if c = 58 then [61, 50] else [c]) e)"

fun key_unescape_body :: "js \<Rightarrow> js" where
  "key_unescape_body (c # d # e) =
     (if c = 61 \<and> d = 48 then 61 # key_unescape_body e
      else if c = 61 \<and> d = 50 then 58 # key_unescape_body e
      else c # key_unescape_body (d # e))"
| "key_unescape_body e = e"

definition key_unescape :: "js \<Rightarrow> js" where
  "key_unescape e =
     key_unescape_body (if js_at e 0 = Some 46 \<and> js_at e 1 = Some 36 then drop 2 e else drop 1 e)"

lemma key_body_plain: "c \<noteq> 61 \<Longrightarrow> key_unescape_body (c # e) = c # key_unescape_body e"
  by (cases e) simp_all

lemma key_body_inverse:
  "key_unescape_body (concat (map (\<lambda>c. if c = 61 then [61, 48] else if c = 58 then [61, 50] else [c]) e)) = e"
  by (induction e) (simp_all add: key_body_plain)

text \<open>No two children of a React element get the same escaped key: unescaping an escaped key
  gives the key, and what follows the leading dollar contains no colon.\<close>

theorem react_key_round_trip:
  "key_unescape (key_escape e) = e \<and> key_unescape (46 # key_escape e) = e \<and> 58 \<notin> set (key_escape e)"
proof -
  have "58 \<notin> set (key_escape e)" by (induction e) (auto simp: key_escape_def)
  then show ?thesis by (simp add: key_escape_def key_unescape_def js_at_def key_body_inverse)
qed

text \<open>JSON pointers: swagger-client writes \<^verbatim>\<open>~\<close> (126) as \<^verbatim>\<open>~0\<close> and \<^verbatim>\<open>/\<close> (47) as \<^verbatim>\<open>~1\<close>, and reads them back in the other order.\<close>

definition pointer_escape :: "js \<Rightarrow> js" where
  "pointer_escape e = js_replace 47 [126, 49] (js_replace 126 [126, 48] e)"

fun replace_pair :: "nat \<Rightarrow> nat \<Rightarrow> nat \<Rightarrow> js \<Rightarrow> js" where
  "replace_pair a b c (x # y # e) = (if x = a \<and> y = b then c # replace_pair a b c e else x # replace_pair a b c (y # e))"
| "replace_pair a b c e = e"

definition pointer_unescape :: "js \<Rightarrow> js" where
  "pointer_unescape e = replace_pair 126 48 126 (replace_pair 126 49 47 e)"

text \<open>json-patch \<^verbatim>\<open>escapePathComponent\<close> and \<^verbatim>\<open>isInteger\<close>; swagger-client's \<^verbatim>\<open>normalizeJSONPath\<close> for an array of strings.\<close>

definition escapePathComponent :: "js \<Rightarrow> js" where
  "escapePathComponent e =
     (if js_indexOf e 47 = -1 \<and> js_indexOf e 126 = -1 then e
      else js_replace 47 [126, 49] (js_replace 126 [126, 48] e))"

definition isInteger :: "js \<Rightarrow> bool" where
  "isInteger e \<longleftrightarrow> list_all (\<lambda>t. 48 \<le> t \<and> t \<le> 57) e"

definition normalizeJSONPath :: "js list \<Rightarrow> js" where
  "normalizeJSONPath e =
     (if length e < 1 then []
      else 47 # js_join [47] (map (\<lambda>x. js_replace 47 [126, 49] (js_replace 126 [126, 48] x)) e))"

lemma pointer_escape_Cons:
  "pointer_escape (c # e) = (if c = 126 then [126, 48] else if c = 47 then [126, 49] else [c]) @ pointer_escape e"
  by (simp add: pointer_escape_def)

lemma replace_pair_other: "x \<noteq> a \<Longrightarrow> replace_pair a b c (x # e) = x # replace_pair a b c e"
  by (cases e) simp_all

lemma unescape_slashes: "replace_pair 126 49 47 (pointer_escape e) = js_replace 126 [126, 48] e"
proof (induction e)
  case (Cons c e)
  then show ?case by (simp add: pointer_escape_Cons replace_pair_other)
qed (simp add: pointer_escape_def)

lemma unescape_tildes: "replace_pair 126 48 126 (js_replace 126 [126, 48] e) = e"
  by (induction e) (simp_all add: replace_pair_other)

text \<open>The pointer to a path component can be read back: unescaping undoes escaping, the two
  libraries escape alike, and the escaped component has no slash, so a pointer splits at its slashes
  into the components it was built from.\<close>

theorem json_pointer_round_trip:
  "pointer_unescape (pointer_escape e) = e \<and> escapePathComponent e = pointer_escape e \<and> 47 \<notin> set (pointer_escape e)
    \<and> (es \<noteq> [] \<longrightarrow> map pointer_unescape (tl (js_split 47 (normalizeJSONPath es))) = es)"
proof -
  have inv: "pointer_unescape (pointer_escape x) = x" for x
    by (simp add: pointer_unescape_def unescape_slashes unescape_tildes)
  have slash: "47 \<notin> set (pointer_escape x)" for x by (induction x) (auto simp: pointer_escape_def)
  have "js_replace c r x = x" if "c \<notin> set x" for c r x using that by (induction x) auto
  then have "escapePathComponent e = pointer_escape e"
    by (simp add: escapePathComponent_def pointer_escape_def js_indexOf_absent)
  moreover have "js_split 47 (js_join [47] (map pointer_escape es)) = map pointer_escape es" if "es \<noteq> []"
    using that by (intro js_split_join) (auto simp: slash)
  ultimately show ?thesis
    using inv slash by (auto simp: normalizeJSONPath_def pointer_escape_def [symmetric] o_def)
qed


theorem json_pointer_round_trip_witness:
  "map pointer_unescape (tl (js_split 47 (normalizeJSONPath [[97, 47], [126]]))) = [[97, 47], [126]]"
  using json_pointer_round_trip [of _ "[[97, 47], [126]]"] by simp

section \<open>Hexadecimal text of a buffer\<close>

definition hex_digit :: "nat \<Rightarrow> nat" where
  "hex_digit n = (if n < 10 then 48 + n else 87 + n)"

text \<open>\<^verbatim>\<open>toString(16)\<close> of a byte: without a leading zero.\<close>

definition toHex :: "nat \<Rightarrow> js" where
  "toHex e = (if e < 16 then 48 # [hex_digit e] else [hex_digit (e div 16), hex_digit (e mod 16)])"

definition hexSlice :: "nat list \<Rightarrow> int option \<Rightarrow> int option \<Rightarrow> js" where
  "hexSlice e t n =
     (let r = int (length e);
          t1 = (case t of None \<Rightarrow> 0 | Some t \<Rightarrow> if t < 0 then 0 else t);
          n1 = (case n of None \<Rightarrow> r | Some n \<Rightarrow> if n = 0 \<or> n < 0 \<or> n > r then r else n)
      in concat (map toHex (drop (nat t1) (take (nat n1) e))))"

text \<open>\<^verbatim>\<open>parseInt(s, 16)\<close>: white space, a sign, \<^verbatim>\<open>0x\<close> and then as many digits as there are; None is \<^verbatim>\<open>NaN\<close>.\<close>

definition hex_value :: "nat \<Rightarrow> nat option" where
  "hex_value c = (if 48 \<le> c \<and> c \<le> 57 then Some (c - 48) else if 97 \<le> c \<and> c \<le> 102 then Some (c - 87)
     else if 65 \<le> c \<and> c \<le> 70 then Some (c - 55) else None)"

fun hex_prefix :: "nat \<Rightarrow> js \<Rightarrow> nat" where
  "hex_prefix v [] = v"
| "hex_prefix v (c # s) = (case hex_value c of None \<Rightarrow> v | Some d \<Rightarrow> hex_prefix (v * 16 + d) s)"

definition js_space :: "nat \<Rightarrow> bool" where
  "js_space c \<longleftrightarrow> c \<in> {9, 10, 11, 12, 13, 32, 160, 5760, 8232, 8233, 8239, 8287, 12288, 65279} \<or> 8192 \<le> c \<and> c \<le> 8202"

definition parseInt16 :: "js \<Rightarrow> int option" where
  "parseInt16 s =
     (let s1 = dropWhile js_space s;
          neg = (s1 \<noteq> [] \<and> hd s1 = 45);
          s2 = (if s1 \<noteq> [] \<and> hd s1 \<in> {43, 45} then tl s1 else s1);
          s3 = (if length s2 \<ge> 2 \<and> s2 ! 0 = 48 \<and> s2 ! 1 \<in> {88, 120} then drop 2 s2 else s2)
      in if s3 = [] \<or> hex_value (hd s3) = None then None
         else Some ((if neg then -1 else 1) * int (hex_prefix 0 s3)))"

text \<open>\<^verbatim>\<open>hexWrite\<close> with its offset; the last argument is absent. A byte array keeps the low eight bits of what is stored.\<close>

fun hex_write_loop :: "nat \<Rightarrow> nat \<Rightarrow> nat list \<Rightarrow> js \<Rightarrow> nat \<Rightarrow> nat list \<times> nat" where
  "hex_write_loop 0 a e t n = (e, a)"
| "hex_write_loop (Suc fuel) a e t n =
     (case parseInt16 (take 2 (drop (2 * a) t)) of
        None \<Rightarrow> (e, a)
      | Some s \<Rightarrow> hex_write_loop fuel (Suc a) (e[n + a := nat (s mod 256)]) t n)"

definition hexWrite :: "nat list \<Rightarrow> js \<Rightarrow> nat \<Rightarrow> (string + nat list \<times> nat)" where
  "hexWrite e t n =
     (if odd (length t) then Inl ''Invalid hex string''
      else Inr (hex_write_loop (min (length e - n) (length t div 2)) 0 e t n))"

lemma parseInt16_digits:
  assumes "hex_value c = Some x" and "hex_value d = Some y"
  shows "parseInt16 [c, d] = Some (int (x * 16 + y))"
proof -
  have "\<not> js_space c" "c \<notin> {43, 45}" "d \<notin> {88, 120}"
    using assms by (auto simp: hex_value_def js_space_def split: if_splits)
  then show ?thesis using assms by (simp add: parseInt16_def Let_def)
qed

lemma hex_value_digit: "n < 16 \<Longrightarrow> hex_value (hex_digit n) = Some n"
  by (simp add: hex_value_def hex_digit_def)

lemma parse_toHex: "b < 256 \<Longrightarrow> parseInt16 (toHex b) = Some (int b) \<and> length (toHex b) = 2"
proof -
  assume b: "b < 256"
  have z: "hex_value 48 = Some 0" by (simp add: hex_value_def)
  show ?thesis
  proof (cases "b < 16")
    case True
    then show ?thesis using parseInt16_digits [OF z hex_value_digit [OF True]] by (simp add: toHex_def)
  next
    case False
    have "b div 16 < 16" "b mod 16 < 16" using b by simp_all
    then show ?thesis
      using parseInt16_digits [OF hex_value_digit hex_value_digit, of "b div 16" "b mod 16"] False by (simp add: toHex_def)
  qed
qed

lemma hex_chunk:
  assumes "list_all (\<lambda>b. b < 256) bs" and "a < length bs"
  shows "take 2 (drop (2 * a) (concat (map toHex bs))) = toHex (bs ! a)"
  using assms
proof (induction bs arbitrary: a)
  case (Cons b bs)
  then show ?case using parse_toHex [of b] by (cases a) simp_all
qed simp

lemma hex_write_loop_eq:
  assumes "list_all (\<lambda>b. b < 256) bs" and "a + k \<le> length bs" and "n + length bs \<le> length e"
  shows "hex_write_loop k a e (concat (map toHex bs)) n =
    (take (n + a) e @ take k (drop a bs) @ drop (n + a + k) e, a + k)"
  using assms(2,3)
proof (induction k arbitrary: a e)
  case (Suc k)
  let ?e = "e[n + a := bs ! a]"
  have b: "bs ! a < 256" using assms(1) Suc.prems(1) by (simp add: list_all_length)
  have "hex_write_loop (Suc k) a e (concat (map toHex bs)) n = hex_write_loop k (Suc a) ?e (concat (map toHex bs)) n"
    using hex_chunk [OF assms(1)] parse_toHex [OF b] b Suc.prems(1) by simp
  also have "\<dots> = (take (n + Suc a) ?e @ take k (drop (Suc a) bs) @ drop (n + Suc a + k) ?e, Suc a + k)"
    using Suc by simp
  also have "take (n + Suc a) ?e = take (n + a) e @ [bs ! a]"
    using Suc.prems by (simp add: take_Suc_conv_app_nth)
  also have "take (Suc k) (drop a bs) = bs ! a # take k (drop (Suc a) bs)"
    using Suc.prems by (simp add: Cons_nth_drop_Suc [symmetric])
  ultimately show ?case by simp
qed simp

lemma hex_length: "list_all (\<lambda>b. b < 256) bs \<Longrightarrow> length (concat (map toHex bs)) = 2 * length bs"
  by (induction bs) (use parse_toHex in auto)

text \<open>Hexadecimal text: writing the text of a buffer into a buffer with room for it puts exactly
  its bytes there, from the offset on, and changes nothing else.\<close>

theorem hex_round_trip:
  assumes "list_all (\<lambda>b. b < 256) bs" and "n + length bs \<le> length e"
  shows "hexWrite e (hexSlice bs None None) n = Inr (take n e @ bs @ drop (n + length bs) e, length bs)"
proof -
  have "hexSlice bs None None = concat (map toHex bs)" by (simp add: hexSlice_def)
  moreover have "min (length e - n) (2 * length bs div 2) = length bs" using assms(2) by simp
  ultimately show ?thesis
    using hex_write_loop_eq [OF assms(1), of 0 "length bs" n e] assms(2) hex_length [OF assms(1)]
    by (simp add: hexWrite_def)
qed

theorem hex_round_trip_witness: "hexWrite [9, 9, 9, 9] (hexSlice [255, 7] None None) 1 = Inr ([9, 255, 7, 9], 2)"
  using hex_round_trip [of "[255, 7]" 1 "[9, 9, 9, 9]"] by simp

end
