(* ===== verification/Script_Strings.thy ===== *)
theory Script_Strings
  imports Script_Codecs
begin

text \<open>Access to strings by code points and the iterator of strings (core-js).\<close>

text \<open>
  \<^verbatim>\<open>createStringAt\<close>: the code point or the text at a position; there is none out of range. The pair of surrogates is
  combined with a shift, which cannot overflow.
\<close>

definition pair_at :: "js \<Rightarrow> nat \<Rightarrow> bool" where
  "pair_at s u \<longleftrightarrow>
     \<not> (s ! u < 55296 \<or> s ! u > 56319 \<or> u + 1 = length s \<or> s ! (u + 1) < 56320 \<or> s ! (u + 1) > 57343)"

definition codePointAt :: "js \<Rightarrow> int \<Rightarrow> nat option" where
  "codePointAt s u =
     (if u < 0 \<or> u \<ge> int (length s) then None
      else let r = s ! nat u
           in Some (if pair_at s (nat u) then push_bit 10 (r - 55296) + (s ! (nat u + 1) - 56320) + 65536 else r))"

definition stringAt :: "js \<Rightarrow> int \<Rightarrow> js" where
  "stringAt s u =
     (if u < 0 \<or> u \<ge> int (length s) then []
      else if pair_at s (nat u) then take 2 (drop (nat u) s) else [s ! nat u])"

record string_iterator =
  i_text :: js
  i_index :: nat

definition string_next :: "string_iterator \<Rightarrow> js option \<times> string_iterator" where
  "string_next it =
     (if i_index it \<ge> length (i_text it) then (None, it)
      else let e = stringAt (i_text it) (int (i_index it)) in (Some e, it\<lparr>i_index := i_index it + length e\<rparr>))"

text \<open>What a loop over the iterator sees; each step takes at least one code unit.\<close>

lemma stringAt_length: "u < length s \<Longrightarrow> \<exists>k. length (stringAt s (int u)) = Suc k \<and> Suc k \<le> length s - u"
  by (intro exI [of _ "length (stringAt s (int u)) - 1"]) (auto simp: stringAt_def pair_at_def)

lemma string_next_shorter:
  "string_next it = (Some e, it') \<Longrightarrow> length (i_text it') - i_index it' < length (i_text it) - i_index it"
  using stringAt_length [of "i_index it" "i_text it"] by (auto simp: string_next_def Let_def split: if_splits)

function iterated :: "string_iterator \<Rightarrow> js list" where
  "iterated it = (case string_next it of (None, it') \<Rightarrow> [] | (Some e, it') \<Rightarrow> e # iterated it')"
  by pat_completeness auto
termination
  by (relation "measure (\<lambda>it. length (i_text it) - i_index it)") (auto dest!: string_next_shorter [OF sym])

declare iterated.simps [simp del]

text \<open>How much of a text its first character takes, as \<^const>\<open>ucs2decode\<close> sees it.\<close>

lemma decode_step:
  assumes "\<forall>c \<in> set s. c < 65536" and "s \<noteq> []"
  shows "ucs2decode s = the (codePointAt s 0) # ucs2decode (drop (length (stringAt s 0)) s)"
proof (cases s rule: ucs2decode.cases)
  case (3 t n e)
  have low: "and 64512 n = 56320 \<longleftrightarrow> 56320 \<le> n \<and> n \<le> 57343" using assms(1) 3 by (intro low_surrogate_iff) simp
  show ?thesis
  proof (cases "55296 \<le> t \<and> t \<le> 56319 \<and> 56320 \<le> n \<and> n \<le> 57343")
    case True
    then have "pair_at s 0" by (simp add: pair_at_def 3)
    moreover have "and 1023 t = t - 55296" "and 1023 n = n - 56320"
    proof -
      have "t = 54 * 1024 + (t - 55296)" "n = 55 * 1024 + (n - 56320)" "t - 55296 < 1024" "n - 56320 < 1024"
        using True by linarith+
      then show "and 1023 t = t - 55296" "and 1023 n = n - 56320" unfolding and_masks by (metis mod_less mod_mult_self3)+
    qed
    ultimately show ?thesis using True low 3 by (simp add: codePointAt_def stringAt_def)
  next
    case False
    then have "\<not> pair_at s 0" by (auto simp: pair_at_def 3)
    moreover have "ucs2decode s = t # ucs2decode (n # e)" using False low 3 by auto
    ultimately show ?thesis using 3 by (simp add: codePointAt_def stringAt_def)
  qed
qed (use assms(2) in \<open>simp_all add: codePointAt_def stringAt_def pair_at_def\<close>)

lemma pair_at_drop: "i < length s \<Longrightarrow> pair_at (drop i s) 0 = pair_at s i"
  by (auto simp: pair_at_def)

lemma stringAt_drop: "i < length s \<Longrightarrow> stringAt s (int i) = stringAt (drop i s) 0"
  by (simp add: stringAt_def pair_at_drop take_drop)

lemma iterated_at:
  "\<forall>c \<in> set s. c < 65536 \<Longrightarrow> i \<le> length s \<Longrightarrow>
   concat (iterated \<lparr>i_text = s, i_index = i\<rparr>) = drop i s \<and>
   map (\<lambda>e. the (codePointAt e 0)) (iterated \<lparr>i_text = s, i_index = i\<rparr>) = ucs2decode (drop i s)"
proof (induction "length s - i" arbitrary: i rule: less_induct)
  case less
  show ?case
  proof (cases "i < length s")
    case True
    let ?e = "stringAt (drop i s) 0"
    obtain k where e: "stringAt s (int i) = ?e" "length ?e = Suc k" "Suc k \<le> length s - i"
      using stringAt_drop [OF True] stringAt_length [OF True] by auto
    have it: "iterated \<lparr>i_text = s, i_index = i\<rparr> = ?e # iterated \<lparr>i_text = s, i_index = i + length ?e\<rparr>"
      using True e(1) by (subst iterated.simps) (simp add: string_next_def Let_def)
    have take: "?e = take (length ?e) (drop i s)"
    proof (cases "pair_at (drop i s) 0")
      case True
      then have "2 \<le> length (drop i s)" using \<open>i < length s\<close> by (auto simp: pair_at_def)
      then show ?thesis using True by (simp add: stringAt_def min_def)
    qed (use True in \<open>simp add: stringAt_def take_Suc hd_drop_conv_nth\<close>)
    have cp: "codePointAt ?e 0 = codePointAt (drop i s) 0"
      using True by (auto simp: stringAt_def codePointAt_def pair_at_def nth_append)
    have "concat (iterated \<lparr>i_text = s, i_index = i + length ?e\<rparr>) = drop (i + length ?e) s"
      "map (\<lambda>e. the (codePointAt e 0)) (iterated \<lparr>i_text = s, i_index = i + length ?e\<rparr>) = ucs2decode (drop (i + length ?e) s)"
      using less.hyps [of "i + length ?e"] less.prems e True by auto
    moreover have "ucs2decode (drop i s) = the (codePointAt (drop i s) 0) # ucs2decode (drop (length ?e) (drop i s))"
      using decode_step [of "drop i s"] less.prems(1) True by (auto dest: in_set_dropD)
    moreover have "drop i s = ?e @ drop (i + length ?e) s" using take append_take_drop_id [of "length ?e" "drop i s"] by (metis drop_drop add.commute)
    ultimately show ?thesis unfolding it using cp by (simp add: add.commute)
  next
    case False
    then have "iterated \<lparr>i_text = s, i_index = i\<rparr> = []" by (subst iterated.simps) (simp add: string_next_def)
    then show ?thesis using False by simp
  qed
qed

text \<open>Iterating over a string ends, yields the string in pieces, and the code points of the pieces are those of the decoder of
  punycode, pairs of surrogates and lone ones included.
\<close>

theorem strings_iterate_by_code_point:
  assumes "\<forall>c \<in> set s. c < 65536"
  shows "concat (iterated \<lparr>i_text = s, i_index = 0\<rparr>) = s \<and>
    map (\<lambda>e. the (codePointAt e 0)) (iterated \<lparr>i_text = s, i_index = 0\<rparr>) = ucs2decode s"
  using iterated_at [OF assms, of 0] by simp

theorem strings_iterate_by_code_point_witness:
  "map (\<lambda>e. the (codePointAt e 0)) (iterated \<lparr>i_text = [55357, 56832, 56832, 97], i_index = 0\<rparr>) = ucs2decode [55357, 56832, 56832, 97]"
  using strings_iterate_by_code_point [of "[55357, 56832, 56832, 97]"] by simp

end
