(* ===== verification/Script_Numbers.thy ===== *)
theory Script_Numbers
  imports Script_Prelude
begin

text \<open>
  Arithmetic in the bundled scripts: 32-bit multiplication, unsigned integers in byte arrays, the
  checksum of React's markup, the limbs in which \<^verbatim>\<open>toFixed\<close> computes and the indices of slices.
\<close>

section \<open>Multiplication of 32-bit integers\<close>

text \<open>The sum is below \<^verbatim>\<open>2^53\<close>, so the number that \<^verbatim>\<open>|0\<close> reduces to 32 bits is exact.\<close>

definition imul :: "32 word \<Rightarrow> 32 word \<Rightarrow> 32 word" where
  "imul e t =
     (let n = unat (65535 AND e); r = unat (65535 AND t)
      in of_nat (n * r + unat (push_bit 16 (of_nat (unat (drop_bit 16 e) * r + n * unat (drop_bit 16 t)) :: 32 word))))"

lemma unat_low16: "unat (65535 AND (e :: 32 word)) = unat e mod 65536"
proof -
  have m: "(65535 :: 32 word) = mask 16" by (simp add: mask_eq_exp_minus_1)
  show ?thesis unfolding m and.commute [of "mask 16"] unat_and_mask by simp
qed

lemma limb_product:
  "n * r + (E * r + n * T) * 65536 + E * T * 4294967296 = (E * 65536 + n) * (T * 65536 + (r :: nat))"
  by (simp add: algebra_simps)

text \<open>The multiplication that the immutable collections hash with is multiplication modulo \<open>2^32\<close>.\<close>

theorem imul_is_word_multiplication: "imul e t = e * t"
proof -
  let ?E = "unat e div 65536" and ?T = "unat t div 65536" and ?n = "unat e mod 65536" and ?r = "unat t mod 65536"
  have word: "w = of_nat (unat w div 65536 * 65536 + unat w mod 65536)" for w :: "32 word" by simp
  have two32: "(4294967296 :: 32 word) = 0" by simp
  have "imul e t = of_nat (?n * ?r) + push_bit 16 (of_nat (?E * ?r + ?n * ?T))"
    by (simp add: imul_def Let_def unat_low16 unat_drop_bit)
  also have "\<dots> = of_nat (?n * ?r + (?E * ?r + ?n * ?T) * 65536)"
    by (simp add: push_bit_eq_mult)
  also have "\<dots> = of_nat (?n * ?r + (?E * ?r + ?n * ?T) * 65536 + ?E * ?T * 4294967296)"
    by (simp add: two32)
  also have "?n * ?r + (?E * ?r + ?n * ?T) * 65536 + ?E * ?T * 4294967296 = (?E * 65536 + ?n) * (?T * 65536 + ?r)"
    by (rule limb_product)
  also have "of_nat \<dots> = e * t" using word [of e] word [of t] by (simp only: of_nat_mult)
  finally show ?thesis .
qed

section \<open>Unsigned integers in a byte array\<close>

text \<open>The errors of the checks, and the array without them; a byte array keeps the low eight bits.\<close>

definition checkOffset :: "int \<Rightarrow> int \<Rightarrow> int \<Rightarrow> string option" where
  "checkOffset e t r =
     (if e < 0 then Some ''offset is not uint''
      else if e + t > r then Some ''Trying to access beyond buffer length'' else None)"

definition checkInt :: "nat list \<Rightarrow> int \<Rightarrow> int \<Rightarrow> int \<Rightarrow> int \<Rightarrow> int \<Rightarrow> string option" where
  "checkInt e t r i n s =
     (if t > n \<or> t < s then Some ''value is out of bounds''
      else if r + i > int (length e) then Some ''Index out of range'' else None)"

definition readUInt32LE :: "nat list \<Rightarrow> int \<Rightarrow> string + int" where
  "readUInt32LE this e =
     (case checkOffset e 4 (int (length this)) of Some x \<Rightarrow> Inl x
      | None \<Rightarrow> (let i = nat e; low = (of_nat (this ! i) OR push_bit 8 (of_nat (this ! (i + 1)))
          OR push_bit 16 (of_nat (this ! (i + 2))) :: 32 word)
        in Inr (sint low + 16777216 * int (this ! (i + 3)))))"

definition put :: "int \<Rightarrow> nat \<Rightarrow> nat list \<Rightarrow> nat list" where
  "put i v xs = (if 0 \<le> i then xs[nat i := v mod 256] else xs)"

definition writeUInt32LE :: "nat list \<Rightarrow> int \<Rightarrow> int \<Rightarrow> string + (nat list \<times> int)" where
  "writeUInt32LE this e t =
     (case checkInt this e t 4 4294967295 0 of Some x \<Rightarrow> Inl x
      | None \<Rightarrow> (let w = word_of_int e :: 32 word
        in Inr (put t (unat (255 AND w)) (put (t + 1) (unat (drop_bit 8 w)) (put (t + 2) (unat (drop_bit 16 w))
             (put (t + 3) (unat (drop_bit 24 w)) this))), t + 4)))"

lemma low_bytes:
  assumes "a < 256" and "b < 256" and "c < 256"
  shows "sint (of_nat a OR push_bit 8 (of_nat b) OR push_bit 16 (of_nat c) :: 32 word) = int (a + b * 256 + c * 65536)"
proof -
  let ?a = "of_nat a :: 32 word" and ?b = "of_nat b :: 32 word" and ?c = "of_nat c :: 32 word"
  have low: "j < 8" if "x < 256" and "bit x j" for x j :: nat
  proof -
    have "take_bit 8 x = x" using that(1) by (simp add: take_bit_nat_eq_self)
    then show ?thesis using that(2) by (metis bit_take_bit_iff)
  qed
  have "?a AND push_bit 8 ?b = 0" by (intro bit_word_eqI) (auto simp: bit_simps dest!: low [OF assms(1)])
  then have 1: "?a OR push_bit 8 ?b = ?a + push_bit 8 ?b" by (rule disjunctive_add_eq_or [symmetric])
  have "(?a OR push_bit 8 ?b) AND push_bit 16 ?c = 0"
    by (intro bit_word_eqI) (auto simp: bit_simps dest!: low [OF assms(1)] low [OF assms(2)])
  then have "?a OR push_bit 8 ?b OR push_bit 16 ?c = ?a + push_bit 8 ?b + push_bit 16 ?c"
    using disjunctive_add_eq_or [of "?a OR push_bit 8 ?b" "push_bit 16 ?c"] 1 by (metis or.assoc)
  also have "\<dots> = of_nat (a + b * 256 + c * 65536)" by (simp add: push_bit_eq_mult)
  finally have w: "?a OR push_bit 8 ?b OR push_bit 16 ?c = of_nat (a + b * 256 + c * 65536)" .
  have "a + b * 256 + c * 65536 < 2 ^ 24" using assms by simp
  then show ?thesis unfolding w by (simp add: signed_of_nat signed_take_bit_int_eq_self del: of_nat_add of_nat_mult)
qed

text \<open>An unsigned 32-bit integer written into a buffer is read back from the same place, and
  no byte outside its four is changed.\<close>

theorem uint32_round_trip:
  assumes "0 \<le> v" and "v < 2 ^ 32" and "0 \<le> t" and "t + 4 \<le> int (length b)"
  shows "\<exists>b'. writeUInt32LE b v t = Inr (b', t + 4) \<and> readUInt32LE b' t = Inr v \<and>
    take (nat t) b' = take (nat t) b \<and> drop (nat t + 4) b' = drop (nat t + 4) b"
proof -
  let ?v = "nat v" and ?i = "nat t"
  let ?w = "word_of_int v :: 32 word"
  have w: "unat ?w = ?v" using assms(1,2) by (simp add: unsigned_of_int nat_mod_as_int take_bit_int_eq_self)
  have m: "(255 :: 32 word) = mask 8" by (simp add: mask_eq_exp_minus_1)
  have b0: "unat (255 AND ?w) = ?v mod 256" unfolding m and.commute [of "mask 8"] unat_and_mask w by simp
  have bs: "unat (drop_bit 8 ?w) = ?v div 2 ^ 8" "unat (drop_bit 16 ?w) = ?v div 2 ^ 16" "unat (drop_bit 24 ?w) = ?v div 2 ^ 24"
    by (simp_all only: unat_drop_bit w)
  define b' where "b' = b[?i + 3 := ?v div 2 ^ 24 mod 256, ?i + 2 := ?v div 2 ^ 16 mod 256,
      ?i + 1 := ?v div 2 ^ 8 mod 256, ?i := ?v mod 256]"
  have n: "nat (t + 1) = ?i + 1" "nat (t + 2) = ?i + 2" "nat (t + 3) = ?i + 3" using assms(3) by simp_all
  have wr: "writeUInt32LE b v t = Inr (b', t + 4)"
    using assms by (simp add: writeUInt32LE_def checkInt_def put_def b0 bs n b'_def)
  have len: "?i + 4 \<le> length b" using assms(3,4) by linarith
  then have nth: "b' ! ?i = ?v mod 256" "b' ! (?i + 1) = ?v div 2 ^ 8 mod 256" "b' ! (?i + 2) = ?v div 2 ^ 16 mod 256"
      "b' ! (?i + 3) = ?v div 2 ^ 24 mod 256" "length b' = length b"
    by (simp_all add: b'_def)
  have q: "?v div 2 ^ 24 mod 256 = ?v div 2 ^ 24" using assms(1,2) by (simp add: nat_less_iff less_mult_imp_div_less)
  have e: "?v = ?v mod 256 + ?v div 2 ^ 8 mod 256 * 256 + ?v div 2 ^ 16 mod 256 * 65536 + ?v div 2 ^ 24 * 16777216"
  proof -
    have d: "?v div 2 ^ 16 = ?v div 2 ^ 8 div 256" "?v div 2 ^ 24 = ?v div 2 ^ 8 div 256 div 256"
      by (simp_all flip: div_mult2_eq)
    have "?v = ?v div 2 ^ 8 * 256 + ?v mod 256" "?v div 2 ^ 8 = ?v div 2 ^ 8 div 256 * 256 + ?v div 2 ^ 8 mod 256"
        "?v div 2 ^ 8 div 256 = ?v div 2 ^ 8 div 256 div 256 * 256 + ?v div 2 ^ 8 div 256 mod 256"
      by simp_all
    then show ?thesis unfolding d by linarith
  qed
  have "int ?v = int (?v mod 256 + ?v div 2 ^ 8 mod 256 * 256 + ?v div 2 ^ 16 mod 256 * 65536
      + ?v div 2 ^ 24 mod 256 * 16777216)"
    unfolding q by (rule arg_cong [OF e])
  also have "\<dots> = int (?v mod 256 + ?v div 2 ^ 8 mod 256 * 256 + ?v div 2 ^ 16 mod 256 * 65536)
      + 16777216 * int (?v div 2 ^ 24 mod 256)" by simp
  finally have i: "int ?v = \<dots>" .
  have "readUInt32LE b' t = Inr (int (?v mod 256 + ?v div 2 ^ 8 mod 256 * 256 + ?v div 2 ^ 16 mod 256 * 65536)
      + 16777216 * int (?v div 2 ^ 24 mod 256))"
    using assms(3,4) nth low_bytes [of "?v mod 256" "?v div 2 ^ 8 mod 256" "?v div 2 ^ 16 mod 256"]
    by (simp add: readUInt32LE_def checkOffset_def)
  then have "readUInt32LE b' t = Inr (int ?v)" unfolding i .
  moreover have "take ?i b' = take ?i b" "drop (?i + 4) b' = drop (?i + 4) b" by (simp_all add: b'_def)
  ultimately show ?thesis using wr assms(1) by auto
qed

theorem uint32_round_trip_witness: "\<exists>b'. writeUInt32LE [1, 2, 3, 4, 5, 6] 3735928559 1 = Inr (b', 5) \<and> readUInt32LE b' 1 = Inr 3735928559"
  using uint32_round_trip [of 3735928559 1 "[1, 2, 3, 4, 5, 6]"] by auto

section \<open>Adler-32\<close>

text \<open>Four characters at a time, with both sums reduced after at most 4096 characters; below that
  number neither sum reaches \<^verbatim>\<open>2^53\<close>. The result combines 16-bit halves as a 32-bit integer.\<close>

definition MOD_ADLER :: nat where "MOD_ADLER = 65521"

text \<open>One pass of the inner loop, from \<^verbatim>\<open>o\<close> to \<^verbatim>\<open>s\<close>.\<close>

fun adler_four :: "nat \<times> nat \<Rightarrow> js \<Rightarrow> nat \<times> nat" where
  "adler_four (t, n) (a # b # c # d # e) =
     (let t1 = t + a; t2 = t1 + b; t3 = t2 + c; t4 = t3 + d in adler_four (t4, n + (t1 + t2 + t3 + t4)) e)"
| "adler_four tn e = tn"

function adler_blocks :: "nat \<Rightarrow> nat \<times> nat \<Rightarrow> nat \<Rightarrow> js \<Rightarrow> nat \<times> nat" where
  "adler_blocks o1 tn a e =
     (if o1 < a then
        (let s = min (o1 + 4096) a; (t, n) = adler_four tn (drop o1 (take s e))
         in adler_blocks s (t mod MOD_ADLER, n mod MOD_ADLER) a e)
      else tn)"
  by pat_completeness auto
termination by (relation "measure (\<lambda>(o1, tn, a, e). a - o1)") auto

declare adler_blocks.simps [simp del]

fun adler_tail :: "nat \<times> nat \<Rightarrow> js \<Rightarrow> nat \<times> nat" where
  "adler_tail (t, n) [] = (t, n)"
| "adler_tail (t, n) (c # e) = adler_tail (t + c, n + (t + c)) e"

definition adler32 :: "js \<Rightarrow> 32 word" where
  "adler32 e =
     (let a = length e div 4 * 4; (t, n) = adler_tail (adler_blocks 0 (1, 0) a e) (drop a e)
      in of_nat (t mod MOD_ADLER) OR push_bit 16 (of_nat (n mod MOD_ADLER)))"

text \<open>The checksum as it is defined: one character after the other, modulo 65521.\<close>

definition adler_spec :: "js \<Rightarrow> nat \<times> nat" where
  "adler_spec e = fold (\<lambda>c (t, n). ((t + c) mod MOD_ADLER, (n + t + c) mod MOD_ADLER)) e (1, 0)"

definition same_sums :: "nat \<times> nat \<Rightarrow> nat \<times> nat \<Rightarrow> bool" where
  "same_sums p q \<longleftrightarrow> fst p mod MOD_ADLER = fst q mod MOD_ADLER \<and> snd p mod MOD_ADLER = snd q mod MOD_ADLER"

lemma adler_tail_Nil [simp]: "adler_tail p [] = p"
  by (cases p) simp

lemma adler_tail_append: "adler_tail p (xs @ ys) = adler_tail (adler_tail p xs) ys"
  by (induction p xs rule: adler_tail.induct) simp_all

lemma adler_four_tail: "4 dvd length e \<Longrightarrow> adler_four p e = adler_tail p e"
proof (induction p e rule: adler_four.induct)
  case (1 t n a b c d e)
  then have "4 dvd length e" unfolding list.size add_0_right add_Suc_right by presburger
  then show ?case using 1(1) [OF refl refl refl refl] by (simp add: Let_def ac_simps)
next
  case "2_1"
  show ?case by (simp add: adler_tail_Nil)
qed (auto dest: dvd_imp_le)

lemma adler_tail_cong: "same_sums p q \<Longrightarrow> same_sums (adler_tail p e) (adler_tail q e)"
proof (induction e arbitrary: p q)
  case (Cons c e)
  obtain t n u m where "p = (t, n)" "q = (u, m)" by fastforce
  moreover then have "same_sums (t + c, n + (t + c)) (u + c, m + (u + c))"
    using Cons.prems unfolding same_sums_def fst_conv snd_conv by (intro conjI mod_add_cong) simp_all
  ultimately show ?case using Cons.IH by simp
qed simp

lemma drop_take_split:
  assumes "k \<le> s" and "s \<le> a" and "a \<le> length e"
  shows "drop k (take a e) = drop k (take s e) @ drop s (take a e)"
proof -
  have "take a e = take s e @ drop s (take a e)"
    using append_take_drop_id [of s "take a e"] assms(2) by (simp add: min_def)
  then have "drop k (take a e) = drop k (take s e @ drop s (take a e))" by simp
  then show ?thesis using assms by simp
qed

lemma adler_blocks_tail:
  "4 dvd a \<Longrightarrow> 4 dvd o1 \<Longrightarrow> o1 \<le> a \<Longrightarrow> a \<le> length e \<Longrightarrow>
     same_sums (adler_blocks o1 p a e) (adler_tail p (drop o1 (take a e)))"
proof (induction o1 p a e rule: adler_blocks.induct)
  case (1 o1 p a e)
  show ?case
  proof (cases "o1 < a")
    case True
    let ?s = "min (o1 + 4096) a"
    obtain t n where tn: "adler_four p (drop o1 (take ?s e)) = (t, n)" by fastforce
    have s: "4 dvd ?s" "o1 \<le> ?s" "?s \<le> a" using 1(2,3) True by (auto simp: min_def)
    have "length (drop o1 (take ?s e)) = ?s - o1" using s 1(5) by simp
    then have "4 dvd length (drop o1 (take ?s e))" using s(1) 1(3) by (metis dvd_diff_nat)
    then have t: "adler_tail p (drop o1 (take ?s e)) = (t, n)" using tn adler_four_tail by metis
    have "drop o1 (take a e) = drop o1 (take ?s e) @ drop ?s (take a e)"
      by (rule drop_take_split [OF s(2,3) 1(5)])
    then have "adler_tail p (drop o1 (take a e)) = adler_tail (t, n) (drop ?s (take a e))"
      by (simp add: adler_tail_append t)
    moreover have "same_sums (adler_blocks ?s (t mod MOD_ADLER, n mod MOD_ADLER) a e)
        (adler_tail (t mod MOD_ADLER, n mod MOD_ADLER) (drop ?s (take a e)))"
      using 1(1) [OF True refl tn [symmetric] refl] s 1(2,5) by simp
    moreover have "same_sums (adler_tail (t mod MOD_ADLER, n mod MOD_ADLER) x) (adler_tail (t, n) x)" for x
      by (rule adler_tail_cong) (simp add: same_sums_def)
    moreover have "adler_blocks o1 p a e = adler_blocks ?s (t mod MOD_ADLER, n mod MOD_ADLER) a e"
      using True tn by (subst adler_blocks.simps) simp
    ultimately show ?thesis by (simp only: same_sums_def)
  next
    case False
    then show ?thesis using 1(4) adler_blocks.simps [of o1 p a e] by (simp add: same_sums_def)
  qed
qed

lemma adler_spec_tail: "same_sums (fold (\<lambda>c (t, n). ((t + c) mod MOD_ADLER, (n + t + c) mod MOD_ADLER)) e p) (adler_tail p e)"
proof (induction e arbitrary: p)
  case (Cons c e)
  obtain t n where p: "p = (t, n)" by fastforce
  let ?f = "\<lambda>e p. fold (\<lambda>c (t, n). ((t + c) mod MOD_ADLER, (n + t + c) mod MOD_ADLER)) e p"
  have "same_sums (adler_tail ((t + c) mod MOD_ADLER, (n + t + c) mod MOD_ADLER) e) (adler_tail (t + c, n + (t + c)) e)"
    by (rule adler_tail_cong) (simp add: same_sums_def add.assoc)
  then show ?case using Cons.IH [of "((t + c) mod MOD_ADLER, (n + t + c) mod MOD_ADLER)"]
    unfolding p by (simp add: same_sums_def)
qed (simp add: same_sums_def)

lemma adler_spec_range: "fst (adler_spec e) < MOD_ADLER \<and> snd (adler_spec e) < MOD_ADLER"
  unfolding adler_spec_def
  by (induction e rule: rev_induct) (simp_all add: MOD_ADLER_def split: prod.split)

text \<open>The unrolled checksum with its delayed reductions is Adler-32: the two sums modulo 65521
  of the definition, one in each half of the 32-bit result.\<close>

theorem adler32_is_adler:
  "adler32 e = of_nat (fst (adler_spec e)) OR push_bit 16 (of_nat (snd (adler_spec e)))"
proof -
  let ?a = "length e div 4 * 4"
  obtain t n where tn: "adler_tail (adler_blocks 0 (1, 0) ?a e) (drop ?a e) = (t, n)"
    by (cases "adler_tail (adler_blocks 0 (1, 0) ?a e) (drop ?a e)")
  have "same_sums (adler_blocks 0 (1, 0) ?a e) (adler_tail (1, 0) (take ?a e))"
    using adler_blocks_tail [of ?a 0 e "(1, 0)"] by simp
  from adler_tail_cong [OF this, of "drop ?a e"]
  have "same_sums (t, n) (adler_tail (1, 0) e)"
    unfolding tn adler_tail_append [symmetric] append_take_drop_id .
  then have "same_sums (t, n) (adler_spec e)"
    using adler_spec_tail [of e "(1, 0)"] by (simp add: adler_spec_def same_sums_def)
  then have "t mod MOD_ADLER = fst (adler_spec e)" "n mod MOD_ADLER = snd (adler_spec e)"
    using adler_spec_range [of e] by (simp_all add: same_sums_def)
  then show ?thesis using tn by (simp add: adler32_def Let_def)
qed


section \<open>The limbs of \<open>toFixed\<close>\<close>

text \<open>Six limbs of seven decimal digits, lowest first. The factors are at most \<open>10^7\<close> and \<open>2^23\<close>, so no
  intermediate number reaches \<^verbatim>\<open>2^53\<close>.\<close>

fun fixed_multiply :: "nat \<Rightarrow> nat \<Rightarrow> nat list \<Rightarrow> nat list" where
  "fixed_multiply e r [] = []"
| "fixed_multiply e r (c # cs) =
     (let r1 = r + e * c in r1 mod 10000000 # fixed_multiply e (r1 div 10000000) cs)"

text \<open>The division starts at the highest limb: the list is traversed from its end.\<close>

fun fixed_divide_rev :: "nat \<Rightarrow> nat \<Rightarrow> nat list \<Rightarrow> nat list" where
  "fixed_divide_rev e n [] = []"
| "fixed_divide_rev e n (c # cs) =
     (let n1 = n + c in n1 div e # fixed_divide_rev e ((n1 mod e) * 10000000) cs)"

definition fixed_divide :: "nat \<Rightarrow> nat list \<Rightarrow> nat list" where
  "fixed_divide e cs = rev (fixed_divide_rev e 0 (rev cs))"

fun limbs_value :: "nat list \<Rightarrow> nat" where
  "limbs_value [] = 0"
| "limbs_value (c # cs) = c + 10000000 * limbs_value cs"

definition limbs_ok :: "nat list \<Rightarrow> bool" where
  "limbs_ok cs \<longleftrightarrow> length cs = 6 \<and> list_all (\<lambda>c. c < 10000000) cs"

lemma fixed_multiply_length [simp]: "length (fixed_multiply e r cs) = length cs"
  by (induction cs arbitrary: r) (simp_all add: Let_def)

lemma fixed_multiply_range: "list_all (\<lambda>c. c < 10000000) (fixed_multiply e r cs)"
  by (induction cs arbitrary: r) (simp_all add: Let_def)

lemma fixed_multiply_value:
  "limbs_value (fixed_multiply e r cs) = (r + e * limbs_value cs) mod 10000000 ^ length cs"
proof (induction cs arbitrary: r)
  case (Cons c cs)
  let ?b = "10000000 :: nat" and ?r = "r + e * c"
  have "limbs_value (fixed_multiply e r (c # cs)) =
      ?r mod ?b + ?b * ((?r div ?b + e * limbs_value cs) mod ?b ^ length cs)"
    using Cons.IH by (simp add: Let_def)
  also have "?r div ?b + e * limbs_value cs = (?r + e * limbs_value cs * ?b) div ?b" by simp
  also have "?r mod ?b = (?r + e * limbs_value cs * ?b) mod ?b" by simp
  also have "(?r + e * limbs_value cs * ?b) mod ?b + ?b * ((?r + e * limbs_value cs * ?b) div ?b mod ?b ^ length cs)
      = (?r + e * limbs_value cs * ?b) mod (?b * ?b ^ length cs)"
    by (simp only: mod_mult2_eq add.commute)
  finally show ?case by (simp add: algebra_simps)
qed simp

lemma limbs_value_append: "limbs_value (xs @ ys) = limbs_value xs + 10000000 ^ length xs * limbs_value ys"
  by (induction xs) (simp_all add: algebra_simps)

lemma fixed_divide_rev_length [simp]: "length (fixed_divide_rev e n cs) = length cs"
  by (induction cs arbitrary: n) (simp_all add: Let_def)

text \<open>Dividing digit by digit: \<open>m\<close> is the remainder carried down from the limbs above.\<close>

lemma regroup: "x * p + v + e * (p * q) = (x + e * q) * p + (v :: nat)"
  by (simp add: algebra_simps)

lemma fixed_divide_rev_value:
  "m < e \<Longrightarrow> limbs_value (rev (fixed_divide_rev e (m * 10000000) cs))
     = (m * 10000000 ^ length cs + limbs_value (rev cs)) div e"
proof (induction cs arbitrary: m)
  case (Cons c cs)
  let ?B = "10000000 :: nat" and ?k = "length cs"
  let ?n = "m * ?B + c"
  have "limbs_value (rev (fixed_divide_rev e (m * ?B) (c # cs))) =
      limbs_value (rev (fixed_divide_rev e (?n mod e * ?B) cs)) + ?B ^ ?k * (?n div e)"
    by (simp add: Let_def limbs_value_append)
  also have "\<dots> = (?n mod e * ?B ^ ?k + limbs_value (rev cs)) div e + ?B ^ ?k * (?n div e)"
    using Cons.IH [of "?n mod e"] Cons.prems by simp
  also have "\<dots> = (?n mod e * ?B ^ ?k + limbs_value (rev cs) + e * (?B ^ ?k * (?n div e))) div e"
    using Cons.prems by simp
  also have "?n mod e * ?B ^ ?k + limbs_value (rev cs) + e * (?B ^ ?k * (?n div e))
      = (?n mod e + e * (?n div e)) * ?B ^ ?k + limbs_value (rev cs)" by (rule regroup)
  also have "?n mod e + e * (?n div e) = ?n" by simp
  also have "?n * ?B ^ ?k + limbs_value (rev cs) = m * ?B ^ length (c # cs) + limbs_value (rev (c # cs))"
    by (simp add: limbs_value_append algebra_simps)
  finally show ?case .
qed simp

lemma fixed_divide_rev_range:
  "m < e \<Longrightarrow> list_all (\<lambda>c. c < 10000000) cs \<Longrightarrow> list_all (\<lambda>c. c < 10000000) (fixed_divide_rev e (m * 10000000) cs)"
proof (induction cs arbitrary: m)
  case (Cons c cs)
  have "m * 10000000 + c < (m + 1) * 10000000" using Cons.prems by simp
  also have "\<dots> \<le> e * 10000000" using Cons.prems(1) by (intro mult_le_mono1) simp
  finally have "(m * 10000000 + c) div e < 10000000" by (simp add: less_mult_imp_div_less mult.commute)
  then show ?case using Cons.IH [of "(m * 10000000 + c) mod e"] Cons.prems by (simp add: Let_def)
qed simp

text \<open>The two loops of \<open>toFixed\<close> compute on the number that the six limbs represent:
  one multiplies and adds modulo \<open>10^42\<close>, the other divides and rounds down, and both leave seven
  digits in each limb.\<close>

theorem to_fixed_limbs:
  assumes "limbs_ok cs" and "0 < e"
  shows "limbs_ok (fixed_multiply e r cs) \<and> limbs_value (fixed_multiply e r cs) = (r + e * limbs_value cs) mod 10 ^ 42 \<and>
    limbs_ok (fixed_divide e cs) \<and> limbs_value (fixed_divide e cs) = limbs_value cs div e"
proof -
  have "(10000000 :: nat) ^ 6 = 10 ^ 42" by simp
  then have "limbs_value (fixed_multiply e r cs) = (r + e * limbs_value cs) mod 10 ^ 42"
    using fixed_multiply_value [of e r cs] assms(1) by (simp only: limbs_ok_def)
  moreover have "limbs_value (fixed_divide e cs) = limbs_value cs div e"
    using fixed_divide_rev_value [of 0 e "rev cs"] assms(2) by (simp add: fixed_divide_def)
  moreover have "limbs_ok (fixed_divide e cs)"
    using fixed_divide_rev_range [of 0 e "rev cs"] assms by (simp add: fixed_divide_def limbs_ok_def list_all_rev)
  ultimately show ?thesis using assms(1) fixed_multiply_range by (simp add: limbs_ok_def)
qed

theorem to_fixed_limbs_witness: "limbs_value (fixed_divide 3 [1, 2, 0, 0, 0, 0]) = 6666667"
  using to_fixed_limbs [of "[1, 2, 0, 0, 0, 0]" 3 0] by (simp add: limbs_ok_def)

section \<open>Indices of slices\<close>

text \<open>immutable: \<^verbatim>\<open>wholeSlice\<close> and \<^verbatim>\<open>resolveIndex\<close>, with \<^verbatim>\<open>resolveBegin\<close> and \<^verbatim>\<open>resolveEnd\<close>; None is \<^verbatim>\<open>undefined\<close>, and \<^verbatim>\<open>NaN\<close> as a result.\<close>

definition wholeSlice :: "int option \<Rightarrow> int option \<Rightarrow> int option \<Rightarrow> bool" where
  "wholeSlice e t n \<longleftrightarrow>
     (case e of Some e \<Rightarrow> e = 0 \<or> (case n of Some n \<Rightarrow> e \<le> - n | None \<Rightarrow> False)
              | None \<Rightarrow> False) \<and>
     (case t of None \<Rightarrow> True | Some t \<Rightarrow> (case n of Some n \<Rightarrow> t \<ge> n | None \<Rightarrow> False))"

definition resolveIndex :: "int option \<Rightarrow> int option \<Rightarrow> int \<Rightarrow> int option" where
  "resolveIndex e t n =
     (case e of None \<Rightarrow> Some n
      | Some e \<Rightarrow>
          if e < 0 then map_option (\<lambda>t. max 0 (t + e)) t
          else (case t of None \<Rightarrow> Some e | Some t \<Rightarrow> Some (min t e)))"

text \<open>lodash \<^verbatim>\<open>baseSlice\<close>: the copy of a part of an array, with indices that count from the end when negative.\<close>

definition baseSlice :: "'a list \<Rightarrow> int \<Rightarrow> int \<Rightarrow> 'a list" where
  "baseSlice e t r =
     (let len = int (length e);
          t1 = (if t < 0 then (if - t > len then 0 else len + t) else t);
          r1 = (if r > len then len else r);
          r2 = (if r1 < 0 then r1 + len else r1);
          size = (if t1 > r2 then 0 else r2 - t1)
      in map (\<lambda>i. e ! (i + nat t1)) [0 ..< nat size])"


definition from_end :: "nat \<Rightarrow> int \<Rightarrow> nat" where
  "from_end n i = nat (if i < 0 then max 0 (int n + i) else min (int n) i)"

lemma map_nth_slice: "k + m \<le> length e \<Longrightarrow> map (\<lambda>i. e ! (i + k)) [0 ..< m] = take m (drop k e)"
  by (rule nth_equalityI) (simp_all add: add.commute)

text \<open>lodash's copying loop selects the elements between the two positions, each counted from the
  end when negative and cut to the array; it never reads outside the array.\<close>

theorem baseSlice_is_take_drop: "baseSlice e t r = drop (from_end (length e) t) (take (from_end (length e) r) e)"
proof -
  let ?n = "int (length e)"
  define t1 where "t1 = (if t < 0 then (if - t > ?n then 0 else ?n + t) else t)"
  define r2 where "r2 = (if (if r > ?n then ?n else r) < 0 then (if r > ?n then ?n else r) + ?n else (if r > ?n then ?n else r))"
  have r2: "r2 \<le> ?n" "nat r2 = from_end (length e) r" by (auto simp: r2_def from_end_def)
  have t1: "0 \<le> t1" "t1 \<le> ?n \<Longrightarrow> nat t1 = from_end (length e) t" "?n < t1 \<Longrightarrow> from_end (length e) t = length e"
    by (auto simp: t1_def from_end_def split: if_splits)
  have b: "baseSlice e t r = map (\<lambda>i. e ! (i + nat t1)) [0 ..< nat (if t1 > r2 then 0 else r2 - t1)]"
    by (simp add: baseSlice_def Let_def t1_def r2_def)
  show ?thesis
  proof (cases "t1 > r2")
    case True
    have "from_end (length e) r \<le> from_end (length e) t"
      using True t1 r2 by (cases "t1 \<le> ?n") linarith+
    then show ?thesis unfolding b using True by simp
  next
    case False
    then have "nat t1 + nat (r2 - t1) \<le> length e" using t1(1) r2(1) by linarith
    moreover have "nat (r2 - t1) = nat r2 - nat t1" using t1(1) by linarith
    moreover have "nat t1 = from_end (length e) t" using t1(2) False r2(1) by linarith
    ultimately show ?thesis unfolding b using False map_nth_slice [of "nat t1" "nat (r2 - t1)" e] r2(2)
      by (simp add: drop_take)
  qed
qed

end
