(* ===== verification/Script_Decoder.thy ===== *)
theory Script_Decoder
  imports Script_Prelude
begin

text \<open>
  The string decoder that turns the chunks of a byte stream into text, for UTF-16LE: a chunk may end
  within a code unit or between the two halves of a surrogate pair, and what is incomplete waits in
  the decoder for the next chunk. Bytes and code units are natural numbers.
\<close>

text \<open>\<^verbatim>\<open>utf16leSlice\<close> of the buffer: a last byte alone gives \<^verbatim>\<open>fromCharCode(NaN)\<close>, which is the code unit 0.\<close>

fun utf16leSlice :: "nat list \<Rightarrow> js" where
  "utf16leSlice [] = []"
| "utf16leSlice [x] = [0]"
| "utf16leSlice (x # y # r) = (x + 256 * y) # utf16leSlice r"

record decoder =
  lastNeed :: nat
  lastTotal :: nat
  lastChar :: "nat list"

text \<open>A new decoder's four bytes are not initialised.\<close>

definition new_decoder :: "nat list \<Rightarrow> decoder" where
  "new_decoder junk = \<lparr>lastNeed = 0, lastTotal = 0, lastChar = junk\<rparr>"

text \<open>\<^verbatim>\<open>source.copy(target, at)\<close>.\<close>

definition copy_at :: "nat \<Rightarrow> nat list \<Rightarrow> nat list \<Rightarrow> nat list" where
  "copy_at k xs target = take k target @ xs @ drop (k + length xs) target"

definition fillLast :: "nat list \<Rightarrow> decoder \<Rightarrow> js option \<times> decoder" where
  "fillLast e s =
     (let at = lastTotal s - lastNeed s in
      if lastNeed s \<le> length e then
        (let s' = s\<lparr>lastChar := copy_at at (take (lastNeed s) e) (lastChar s)\<rparr>
         in (Some (utf16leSlice (take (lastTotal s) (lastChar s'))), s'))
      else (None, s\<lparr>lastChar := copy_at at e (lastChar s), lastNeed := lastNeed s - length e\<rparr>))"

definition utf16Text :: "nat list \<Rightarrow> nat \<Rightarrow> decoder \<Rightarrow> js \<times> decoder" where
  "utf16Text e t s =
     (if (length e - t) mod 2 = 0 then
        (let n = utf16leSlice (drop t e) in
         if n \<noteq> [] \<and> 55296 \<le> last n \<and> last n \<le> 56319 then
           (butlast n, s\<lparr>lastNeed := 2, lastTotal := 4,
              lastChar := (lastChar s)[0 := e ! (length e - 2), 1 := e ! (length e - 1)]\<rparr>)
         else (n, s))
      else (utf16leSlice (drop t (take (length e - 1) e)),
            s\<lparr>lastNeed := 1, lastTotal := 2, lastChar := (lastChar s)[0 := e ! (length e - 1)]\<rparr>))"

definition decoder_write :: "nat list \<Rightarrow> decoder \<Rightarrow> js \<times> decoder" where
  "decoder_write e s =
     (if length e = 0 then ([], s)
      else if lastNeed s \<noteq> 0 then
        (case fillLast e s of
           (None, s') \<Rightarrow> ([], s')
         | (Some t, s') \<Rightarrow>
             (let n = lastNeed s'; s'' = s'\<lparr>lastNeed := 0\<rparr>
              in if n < length e then (let (u, s3) = utf16Text e n s'' in (t @ u, s3)) else (t, s'')))
      else utf16Text e 0 s)"

definition utf16End :: "nat list \<Rightarrow> decoder \<Rightarrow> js" where
  "utf16End e s =
     (let (t, s') = decoder_write e s
      in if lastNeed s' \<noteq> 0 then t @ utf16leSlice (take (lastTotal s' - lastNeed s') (lastChar s')) else t)"

text \<open>The text of all chunks, the last one given to \<^verbatim>\<open>end\<close>.\<close>

fun decode_chunks :: "nat list list \<Rightarrow> nat list \<Rightarrow> decoder \<Rightarrow> js" where
  "decode_chunks [] final s = utf16End final s"
| "decode_chunks (e # es) final s = (let (t, s') = decoder_write e s in t @ decode_chunks es final s')"

section \<open>What waits in the decoder\<close>

definition waiting :: "decoder \<Rightarrow> nat list" where
  "waiting s = (if lastNeed s = 0 then [] else take (lastTotal s - lastNeed s) (lastChar s))"

definition decoder_ok :: "decoder \<Rightarrow> bool" where
  "decoder_ok s \<longleftrightarrow> length (lastChar s) = 4 \<and>
     (lastNeed s = 0 \<or> lastNeed s = 1 \<and> lastTotal s = 2 \<or> lastNeed s \<in> {1, 2} \<and> lastTotal s = 4)"

lemma utf16leSlice_append: "even (length xs) \<Longrightarrow> utf16leSlice (xs @ ys) = utf16leSlice xs @ utf16leSlice ys"
  by (induction xs rule: utf16leSlice.induct) auto

lemma utf16leSlice_Nil: "utf16leSlice xs = [] \<longleftrightarrow> xs = []"
  by (cases xs rule: utf16leSlice.cases) auto

lemma last_two:
  assumes "2 \<le> length xs"
  shows "xs = take (length xs - 2) xs @ [xs ! (length xs - 2), xs ! (length xs - 1)]"
proof -
  obtain ys y z where "xs = ys @ [y, z]"
    using assms by (cases xs rule: rev_exhaust; cases "butlast xs" rule: rev_exhaust) auto
  then show ?thesis by (simp add: nth_append)
qed

text \<open>An even number of bytes is used up, in whole code units; the others wait.\<close>

lemma utf16Text_waiting:
  assumes "utf16Text e t s = (u, s')" and "t < length e" and "decoder_ok s" and "lastNeed s = 0"
  shows "decoder_ok s' \<and> (\<exists>c. drop t e = c @ waiting s' \<and> even (length c) \<and> u = utf16leSlice c)"
proof (cases "(length e - t) mod 2 = 0")
  case True
  let ?d = "drop t e"
  have ev: "even (length ?d)" using True by (simp add: even_iff_mod_2_eq_zero)
  have "length ?d \<noteq> 1" using ev by (metis odd_one)
  moreover have "length ?d \<noteq> 0" using assms(2) by simp
  ultimately have two: "2 \<le> length ?d" by linarith
  let ?c = "take (length ?d - 2) ?d"
  have d: "?d = ?c @ [e ! (length e - 2), e ! (length e - 1)]"
    using last_two [OF two] two by simp
  have "length ?c = length ?d - 2" by simp
  then have evc: "even (length ?c)" using ev two by (simp only: dvd_diff_nat dvd_refl)
  show ?thesis
  proof (cases "55296 \<le> last (utf16leSlice ?d) \<and> last (utf16leSlice ?d) \<le> 56319")
    case hi: True
    have "?d \<noteq> []" using assms(2) by simp
    then have r: "u = butlast (utf16leSlice ?d)"
      "s' = s\<lparr>lastNeed := 2, lastTotal := 4, lastChar := (lastChar s)[0 := e ! (length e - 2), 1 := e ! (length e - 1)]\<rparr>"
      using assms(1) True hi by (simp_all add: utf16Text_def Let_def utf16leSlice_Nil split: if_splits)
    have "u = utf16leSlice ?c"
      using r(1) utf16leSlice_append [OF evc, of "[e ! (length e - 2), e ! (length e - 1)]"] d by simp
    moreover obtain w x y z where "lastChar s = [w, x, y, z]"
      using assms(3) by (auto simp: decoder_ok_def length_Suc_conv numeral_eq_Suc)
    then have "waiting s' = [e ! (length e - 2), e ! (length e - 1)]" "decoder_ok s'"
      using r(2) by (simp_all add: waiting_def decoder_ok_def)
    ultimately show ?thesis using d evc by metis
  next
    case False
    then have "u = utf16leSlice ?d" "s' = s"
      using assms(1) True by (auto simp: utf16Text_def Let_def split: if_splits)
    then show ?thesis using assms(3,4) ev by (intro conjI exI [where x = ?d]) (simp_all add: waiting_def)
  qed
next
  case False
  let ?c = "drop t (take (length e - 1) e)"
  have e: "e = take (length e - 1) e @ [e ! (length e - 1)]"
    using assms(2) by (metis diff_less length_greater_0_conv less_nat_zero_code less_numeral_extra(1)
        append_butlast_last_id butlast_conv_take last_conv_nth list.size(3))
  have "t \<le> length e - 1" using assms(2) by simp
  then have d: "drop t e = ?c @ [e ! (length e - 1)]" by (subst e) simp
  have "even (length ?c)" using False assms(2) by (auto simp: even_iff_mod_2_eq_zero) presburger
  moreover have r: "u = utf16leSlice ?c" "s' = s\<lparr>lastNeed := 1, lastTotal := 2, lastChar := (lastChar s)[0 := e ! (length e - 1)]\<rparr>"
    using assms(1) False by (simp_all add: utf16Text_def)
  moreover obtain w x y z where "lastChar s = [w, x, y, z]"
    using assms(3) by (auto simp: decoder_ok_def length_Suc_conv numeral_eq_Suc)
  then have "waiting s' = [e ! (length e - 1)]" "decoder_ok s'"
    using r(2) by (simp_all add: waiting_def decoder_ok_def)
  ultimately show ?thesis using d by metis
qed

lemma take_copy_at:
  "k \<le> length target \<Longrightarrow> k + length xs \<le> length target \<Longrightarrow> take (k + length xs) (copy_at k xs target) = take k target @ xs"
  by (simp add: copy_at_def)

lemma length_copy_at: "k + length xs \<le> length target \<Longrightarrow> length (copy_at k xs target) = length target"
  by (simp add: copy_at_def)

lemma decoder_write_waiting:
  assumes "decoder_write e s = (u, s')" and "decoder_ok s"
  shows "decoder_ok s' \<and> (\<exists>c. waiting s @ e = c @ waiting s' \<and> even (length c) \<and> u = utf16leSlice c)"
proof (cases "e = [] \<or> lastNeed s = 0")
  case True
  show ?thesis
  proof (cases "e = []")
    case True
    then have "u = []" "s' = s" using assms(1) by (simp_all add: decoder_write_def)
    then show ?thesis using assms(2) True by (intro conjI exI [where x = "[]"]) simp_all
  next
    case False
    then have "utf16Text e 0 s = (u, s')" "lastNeed s = 0" using True assms(1) by (simp_all add: decoder_write_def)
    then show ?thesis using utf16Text_waiting [of e 0 s u s'] assms(2) False by (simp add: waiting_def)
  qed
next
  case False
  let ?at = "lastTotal s - lastNeed s"
  have len: "length (lastChar s) = 4" "lastTotal s \<le> 4" "0 < ?at" "?at + lastNeed s = lastTotal s" "even (lastTotal s)"
    using assms(2) False by (auto simp: decoder_ok_def)
  have w: "waiting s = take ?at (lastChar s)" using False by (simp add: waiting_def)
  show ?thesis
  proof (cases "lastNeed s \<le> length e")
    case True
    let ?xs = "take (lastNeed s) e"
    let ?s = "s\<lparr>lastChar := copy_at ?at ?xs (lastChar s)\<rparr>"
    have xs: "length ?xs = lastNeed s" using True by simp
    have c: "take (lastTotal s) (lastChar ?s) = waiting s @ ?xs"
      using take_copy_at [of ?at "lastChar s" ?xs] len xs w by simp
    have even: "even (length (waiting s @ ?xs))" using w xs len by simp
    have ok: "decoder_ok (?s\<lparr>lastNeed := 0\<rparr>)"
      using length_copy_at [of ?at ?xs "lastChar s"] len xs by (simp add: decoder_ok_def)
    have f: "fillLast e s = (Some (utf16leSlice (waiting s @ ?xs)), ?s)"
      using True c by (simp add: fillLast_def Let_def)
    show ?thesis
    proof (cases "lastNeed s < length e")
      case lt: True
      obtain v s3 where v: "utf16Text e (lastNeed s) (?s\<lparr>lastNeed := 0\<rparr>) = (v, s3)" by fastforce
      have r: "u = utf16leSlice (waiting s @ ?xs) @ v" "s' = s3"
        using assms(1) f False lt v by (simp_all add: decoder_write_def Let_def)
      from utf16Text_waiting [OF v lt ok] obtain c where c: "decoder_ok s3"
        "drop (lastNeed s) e = c @ waiting s3" "even (length c)" "v = utf16leSlice c" by auto
      have "waiting s @ e = (waiting s @ ?xs @ c) @ waiting s3"
        using c(2) by (metis append.assoc append_take_drop_id)
      moreover have "u = utf16leSlice (waiting s @ ?xs @ c)"
        using r(1) c(4) utf16leSlice_append [OF even, of c] by simp
      moreover have "even (length (waiting s @ ?xs @ c))" using even c(3) by simp
      ultimately show ?thesis using c(1) r(2) by blast
    next
      case nlt: False
      then have e: "?xs = e" by simp
      have r: "u = utf16leSlice (waiting s @ ?xs)" "s' = ?s\<lparr>lastNeed := 0\<rparr>"
        using assms(1) f False nlt by (simp_all add: decoder_write_def Let_def)
      have "waiting s' = []" using r(2) by (simp add: waiting_def)
      then show ?thesis using r even ok e by (intro conjI exI [where x = "waiting s @ e"]) simp_all
    qed
  next
    case short: False
    let ?s = "s\<lparr>lastChar := copy_at ?at e (lastChar s), lastNeed := lastNeed s - length e\<rparr>"
    have r: "u = []" "s' = ?s" using assms(1) False short by (simp_all add: decoder_write_def fillLast_def Let_def)
    have "1 \<le> length e" "length e < lastNeed s" using False short by (simp_all add: Suc_le_eq)
    moreover have "lastNeed s = 0 \<or> lastNeed s = 1 \<or> lastNeed s = 2 \<and> lastTotal s = 4"
      using assms(2) by (auto simp: decoder_ok_def)
    ultimately have one: "length e = 1" "lastNeed s = 2" "lastTotal s = 4" by linarith+
    have "waiting s' = take (?at + length e) (copy_at ?at e (lastChar s))" using r(2) one by (simp add: waiting_def)
    also have "\<dots> = waiting s @ e" using take_copy_at [of ?at "lastChar s" e] len one w by simp
    finally have "waiting s' = waiting s @ e" .
    moreover have "decoder_ok s'" using r(2) one len length_copy_at [of ?at e "lastChar s"] by (simp add: decoder_ok_def)
    ultimately show ?thesis using r(1) by (intro conjI exI [where x = "[]"]) simp_all
  qed
qed

lemma utf16End_waiting: "decoder_ok s \<Longrightarrow> utf16End e s = utf16leSlice (waiting s @ e)"
proof -
  assume ok: "decoder_ok s"
  obtain u s' where u: "decoder_write e s = (u, s')" by fastforce
  from decoder_write_waiting [OF u ok] obtain c where
    "waiting s @ e = c @ waiting s'" "even (length c)" "u = utf16leSlice c" by blast
  then show ?thesis using u utf16leSlice_append [of c "waiting s'"] by (auto simp: utf16End_def waiting_def)
qed

text \<open>C39: However a byte sequence is cut into chunks, the streaming UTF-16 decoder gives the text that decoding it in one piece gives, for every sequence of bytes, complete or not, and whatever bytes the new decoder's memory held.\<close>

theorem chunked_decoding_is_decoding:
  assumes "length junk = 4"
  shows "decode_chunks chunks final (new_decoder junk) = utf16leSlice (concat chunks @ final)"
proof -
  have "decoder_ok s \<Longrightarrow> decode_chunks chunks final s = utf16leSlice (waiting s @ concat chunks @ final)" for s
  proof (induction chunks arbitrary: s)
    case (Cons e es)
    obtain u s' where u: "decoder_write e s = (u, s')" by fastforce
    from decoder_write_waiting [OF u Cons.prems] obtain c where c: "decoder_ok s'"
      "waiting s @ e = c @ waiting s'" "even (length c)" "u = utf16leSlice c" by blast
    have "decode_chunks (e # es) final s = u @ utf16leSlice (waiting s' @ concat es @ final)"
      using u Cons.IH [OF c(1)] by simp
    also have "\<dots> = utf16leSlice (c @ waiting s' @ concat es @ final)"
      using c(3,4) by (simp add: utf16leSlice_append)
    also have "c @ waiting s' @ concat es @ final = waiting s @ concat (e # es) @ final"
      using c(2) by (metis append.assoc concat.simps(2))
    finally show ?case .
  qed (simp add: utf16End_waiting)
  moreover have "decoder_ok (new_decoder junk)" using assms by (simp add: decoder_ok_def new_decoder_def)
  ultimately show ?thesis by (simp add: waiting_def new_decoder_def)
qed

theorem chunked_decoding_is_decoding_witness:
  "decode_chunks [[65], [0, 61, 216], [0]] [222, 66, 0] (new_decoder [9, 9, 9, 9]) = [65, 55357, 56832, 66]"
proof -
  have "decode_chunks [[65], [0, 61, 216], [0]] [222, 66, 0] (new_decoder [9, 9, 9, 9]) =
      utf16leSlice (concat [[65], [0, 61, 216], [0]] @ [222, 66, 0])"
    by (rule chunked_decoding_is_decoding) simp
  then show ?thesis by simp
qed

end
