(* ===== verification/Script_Url.thy ===== *)
theory Script_Url
  imports Script_Prelude
begin

text \<open>
  The resolution of a relative path against a base path in the URL parser. The code walks over the segments from the back and counts the \<^verbatim>\<open>..\<close>
  that wait for a segment to remove.
\<close>

definition dot :: js where "dot = lit ''.''"

definition dotdot :: js where "dotdot = lit ''..''"

text \<open>The loop from the last segment to the first: the segments that stay, and whether the first one was removed.\<close>

fun resolve_loop :: "js list \<Rightarrow> nat \<Rightarrow> js list \<Rightarrow> js list \<times> bool" where
  "resolve_loop [] a rest = (rest, False)"
| "resolve_loop (x # before) a rest =
     (if x = dot then resolve_loop before a rest
      else if x = dotdot then resolve_loop before (Suc a) rest
      else if a > 0 then
        (if before = [] then (rest, True) else resolve_loop before (a - 1) rest)
      else resolve_loop before a (x # rest))"

definition url_resolve :: "js \<Rightarrow> js \<Rightarrow> js" where
  "url_resolve relative base =
     (let n = butlast (js_split 47 (if base = [] then lit ''/'' else base)) @ js_split 47 relative;
          o1 = last n;
          (kept, unshift) = resolve_loop (rev n) 0 [];
          kept = (if unshift then [] # kept else kept);
          kept = (if o1 = dot \<or> o1 = dotdot then kept @ [[]] else kept)
      in js_join (lit ''/'') kept)"

section \<open>Removal of dot segments from the front\<close>

text \<open>The usual description: a stack of segments, which \<^verbatim>\<open>..\<close> pops and which is never below the root.\<close>

fun remove_dots :: "js list \<Rightarrow> js list \<Rightarrow> js list" where
  "remove_dots stack [] = stack"
| "remove_dots stack (x # xs) =
     (if x = dot then remove_dots stack xs
      else if x = dotdot then remove_dots (butlast stack) xs
      else remove_dots (stack @ [x]) xs)"

lemma remove_dots_snoc:
  "remove_dots stack (xs @ [x]) =
     (if x = dot then remove_dots stack xs else if x = dotdot then butlast (remove_dots stack xs)
      else remove_dots stack xs @ [x])"
proof (induction xs arbitrary: stack)
  case (Cons y ys)
  show ?case by (simp only: append_Cons remove_dots.simps Cons split: if_split) simp
qed simp

text \<open>
  From the back, with \<^verbatim>\<open>a\<close> segments to remove, and behind a first segment that is empty, which is how
  an absolute path starts: the segments that stay are those of the stack, less \<^verbatim>\<open>a\<close>.
\<close>

lemma resolve_loop_absolute:
  "(case resolve_loop (rev ([] # xs)) a rest of (kept, unshift) \<Rightarrow> if unshift then [] # kept else kept) =
   [] # take (length (remove_dots [] xs) - a) (remove_dots [] xs) @ rest"
proof (induction xs arbitrary: a rest rule: rev_induct)
  case Nil
  then show ?case by (auto simp: dot_def dotdot_def lit_def)
next
  case (snoc x xs)
  let ?s = "remove_dots [] xs"
  consider "x = dot" | "x \<noteq> dot" "x = dotdot" | "x \<noteq> dot" "x \<noteq> dotdot" "a = 0" | "x \<noteq> dot" "x \<noteq> dotdot" "a > 0"
    by blast
  then show ?case
  proof cases
    case 1
    then show ?thesis using snoc.IH [of a rest] by (simp add: remove_dots_snoc)
  next
    case 2
    then show ?thesis using snoc.IH [of "Suc a" rest] by (simp add: remove_dots_snoc butlast_conv_take)
  next
    case 3
    then show ?thesis using snoc.IH [of 0 "x # rest"] by (simp add: remove_dots_snoc)
  next
    case 4
    then obtain b where a: "a = Suc b" by (cases a) auto
    then show ?thesis using snoc.IH [of b rest] 4 by (simp add: remove_dots_snoc)
  qed
qed

lemma js_split_absolute: "js_split 47 (47 # p) = [] # js_split 47 p"
  by simp

lemma remove_dots_clean:
  "set stack \<inter> {dot, dotdot} = {} \<Longrightarrow> set (remove_dots stack xs) \<inter> {dot, dotdot} = {}"
proof (induction stack xs rule: remove_dots.induct)
  case (2 stack x xs)
  then show ?case using in_set_butlastD [of _ stack] by auto
qed simp

text \<open>Against an absolute base path (an empty one counts as the root), the walk from the back gives the path that removing dot segments from the front gives, with a trailing slash after a final dot segment; no segment of it is a dot segment.\<close>

theorem resolve_removes_dot_segments:
  "let segments = butlast (js_split 47 p) @ js_split 47 relative;
       stack = remove_dots [] segments
   in url_resolve relative (47 # p) =
        js_join (lit ''/'') ([] # stack @ (if last (js_split 47 relative) \<in> {dot, dotdot} then [[]] else [])) \<and>
      set stack \<inter> {dot, dotdot} = {}"
proof -
  let ?segments = "butlast (js_split 47 p) @ js_split 47 relative"
  have n: "butlast (js_split 47 (47 # p)) @ js_split 47 relative = [] # ?segments"
    by simp
  have l: "last ([] # ?segments) = last (js_split 47 relative)" by simp
  have loop: "(case resolve_loop (rev ([] # ?segments)) 0 [] of (kept, unshift) \<Rightarrow> if unshift then [] # kept else kept) =
      [] # remove_dots [] ?segments"
    using resolve_loop_absolute [of ?segments 0 "[]"] by simp
  obtain kept unshift where k: "resolve_loop (rev ([] # ?segments)) 0 [] = (kept, unshift)" by fastforce
  have "(if unshift then [] # kept else kept) = [] # remove_dots [] ?segments"
    using loop unfolding k by simp
  then show ?thesis
    using remove_dots_clean [of "[]" ?segments]
    by (simp only: url_resolve_def Let_def n l k split list.simps if_False) simp
qed

end
