(* ===== verification/Script_Collections.thy ===== *)
theory Script_Collections
  imports Script_Prelude
begin

text \<open>
  The loops over arrays that the bundled libraries share: the factory of the array methods
  (\<^verbatim>\<open>forEach\<close>, \<^verbatim>\<open>map\<close>, \<^verbatim>\<open>filter\<close>, \<^verbatim>\<open>some\<close>, \<^verbatim>\<open>every\<close>, \<^verbatim>\<open>find\<close>, \<^verbatim>\<open>findIndex\<close> are one loop), the \<^verbatim>\<open>each\<close> that may stop
  early, the search for an index from a start, and the accumulation of one or many values. A hole of
  an array is \<^const>\<open>None\<close>. Callbacks are pure functions of the element and the index.
\<close>

section \<open>The factory of the array methods\<close>

datatype ('a, 'b) outcome =
    RUndefined
  | RMapped "'b option list"
  | RFiltered "'a option list"
  | RBool bool
  | RFound "'a option"
  | RIndex int

text \<open>The state of the loop is the array built so far, which \<^verbatim>\<open>map\<close> makes with the full length and holes.\<close>

fun method_loop ::
  "nat \<Rightarrow> ('a option \<Rightarrow> nat \<Rightarrow> 'b) \<Rightarrow> ('b \<Rightarrow> bool) \<Rightarrow> nat \<Rightarrow> 'a option list \<Rightarrow> 'b option list \<Rightarrow> 'a option list \<Rightarrow> ('a, 'b) outcome"
where
  "method_loop e f tr x [] w v =
     (if e = 6 then RIndex (-1)
      else if e = 3 then RBool False
      else if e = 4 then RBool True
      else if e = 1 then RMapped w
      else if e = 2 then RFiltered v
      else RUndefined)"
| "method_loop e f tr x (m # g) w v =
     (if (e = 5 \<or> e = 6 \<or> m \<noteq> None) \<and> e \<noteq> 0 then
        (let y = f m x in
         if e = 1 then method_loop e f tr (Suc x) g (w[x := Some y]) v
         else if tr y then
           (if e = 3 then RBool True
            else if e = 5 then RFound m
            else if e = 6 then RIndex (int x)
            else if e = 2 then method_loop e f tr (Suc x) g w (v @ [m])
            else method_loop e f tr (Suc x) g w v)
         else if e = 4 then RBool False
         else method_loop e f tr (Suc x) g w v)
      else method_loop e f tr (Suc x) g w v)"

definition array_method :: "nat \<Rightarrow> ('a option \<Rightarrow> nat \<Rightarrow> 'b) \<Rightarrow> ('b \<Rightarrow> bool) \<Rightarrow> 'a option list \<Rightarrow> ('a, 'b) outcome" where
  "array_method e f tr t = method_loop e f tr 0 t (replicate (length t) None) []"

lemma method_loop_some:
  "method_loop 3 f tr x t w v = RBool (\<exists>i < length t. t ! i \<noteq> None \<and> tr (f (t ! i) (x + i)))"
proof (induction t arbitrary: x)
  case (Cons m t)
  have "(\<exists>i < length (m # t). (m # t) ! i \<noteq> None \<and> tr (f ((m # t) ! i) (x + i))) \<longleftrightarrow>
      m \<noteq> None \<and> tr (f m x) \<or> (\<exists>i < length t. t ! i \<noteq> None \<and> tr (f (t ! i) (Suc x + i)))"
    using less_Suc_eq_0_disj by auto
  then show ?case using Cons by (simp add: Let_def)
qed simp

lemma method_loop_every:
  "method_loop 4 f tr x t w v = RBool (\<forall>i < length t. t ! i \<noteq> None \<longrightarrow> tr (f (t ! i) (x + i)))"
proof (induction t arbitrary: x)
  case (Cons m t)
  have "(\<forall>i < length (m # t). (m # t) ! i \<noteq> None \<longrightarrow> tr (f ((m # t) ! i) (x + i))) \<longleftrightarrow>
      (m \<noteq> None \<longrightarrow> tr (f m x)) \<and> (\<forall>i < length t. t ! i \<noteq> None \<longrightarrow> tr (f (t ! i) (Suc x + i)))"
    using less_Suc_eq_0_disj by auto
  then show ?case using Cons by (simp add: Let_def)
qed simp

lemma method_loop_filter:
  "method_loop 2 f tr x t w v =
     RFiltered (v @ map fst (filter (\<lambda>(m, i). m \<noteq> None \<and> tr (f m i)) (zip t [x..<x + length t])))"
proof (induction t arbitrary: x v)
  case (Cons m t)
  have "[x..<x + length (m # t)] = x # [Suc x..<Suc x + length t]" by (simp add: upt_rec)
  then show ?case using Cons by (simp add: Let_def)
qed simp

lemma method_loop_map:
  "length w = x + length t \<Longrightarrow> drop x w = replicate (length t) None \<Longrightarrow>
   method_loop 1 f tr x t w v =
     RMapped (take x w @ map (\<lambda>(m, i). if m = None then None else Some (f m i)) (zip t [x..<x + length t]))"
proof (induction t arbitrary: x w)
  case (Cons m t)
  have u: "[x..<x + length (m # t)] = x # [Suc x..<Suc x + length t]" by (simp add: upt_rec)
  have x: "x < length w" using Cons.prems(1) by simp
  have wx: "w ! x = None" using arg_cong [OF Cons.prems(2), of "\<lambda>l. l ! 0"] x by simp
  have d: "drop (Suc x) w = replicate (length t) None"
    using Cons.prems(2) x by (metis drop_Suc length_Cons replicate_Suc list.sel(3) tl_drop)
  show ?case
  proof (cases m)
    case None
    then have "method_loop 1 f tr x (m # t) w v = method_loop 1 f tr (Suc x) t w v" by simp
    also have "\<dots> = RMapped (take (Suc x) w @ map (\<lambda>(m, i). if m = None then None else Some (f m i)) (zip t [Suc x..<Suc x + length t]))"
      using Cons.IH [of w "Suc x"] Cons.prems(1) d by simp
    finally show ?thesis using u None wx x by (simp add: take_Suc_conv_app_nth)
  next
    case (Some a)
    then have "method_loop 1 f tr x (m # t) w v = method_loop 1 f tr (Suc x) t (w[x := Some (f m x)]) v" by (simp add: Let_def)
    also have "\<dots> = RMapped (take (Suc x) (w[x := Some (f m x)]) @ map (\<lambda>(m, i). if m = None then None else Some (f m i)) (zip t [Suc x..<Suc x + length t]))"
      using Cons.IH [of "w[x := Some (f m x)]" "Suc x"] Cons.prems(1) d by simp
    finally show ?thesis using u Some x by (simp add: take_Suc_conv_app_nth)
  qed
qed simp

text \<open>The first element that the callback accepts, with holes looked at as \<^verbatim>\<open>undefined\<close>.\<close>

lemma method_loop_findIndex:
  "method_loop 6 f tr x t w v =
     RIndex (case filter (\<lambda>i. tr (f (t ! i) (x + i))) [0..<length t] of [] \<Rightarrow> -1 | i # _ \<Rightarrow> int (x + i))"
proof (induction t arbitrary: x)
  case (Cons m t)
  have "[0..<length (m # t)] = 0 # map Suc [0..<length t]" by (simp add: upt_conv_Cons map_Suc_upt del: upt_Suc)
  then have "filter (\<lambda>i. tr (f ((m # t) ! i) (x + i))) [0..<length (m # t)] =
      (if tr (f m x) then [0] else []) @ map Suc (filter (\<lambda>i. tr (f (t ! i) (Suc x + i))) [0..<length t])"
    by (simp add: filter_map o_def)
  then show ?case using Cons [of "Suc x"] by (simp add: Let_def split: list.splits)
qed simp

text \<open>The one loop behind seven array methods does what each of them should, also on arrays with
  holes, which \<^verbatim>\<open>some\<close>, \<^verbatim>\<open>every\<close>, \<^verbatim>\<open>filter\<close> and \<^verbatim>\<open>map\<close> skip (\<^verbatim>\<open>map\<close> keeps them) and \<^verbatim>\<open>findIndex\<close> does not.
\<close>

theorem array_methods_meet_their_meaning:
  "array_method 3 f tr t = RBool (\<exists>i < length t. t ! i \<noteq> None \<and> tr (f (t ! i) i)) \<and>
   array_method 4 f tr t = RBool (\<not> (\<exists>i < length t. t ! i \<noteq> None \<and> \<not> tr (f (t ! i) i))) \<and>
   array_method 2 f tr t = RFiltered (map fst (filter (\<lambda>(m, i). m \<noteq> None \<and> tr (f m i)) (zip t [0..<length t]))) \<and>
   array_method 1 f tr t = RMapped (map (\<lambda>(m, i). if m = None then None else Some (f m i)) (zip t [0..<length t])) \<and>
   array_method 6 f tr t =
     RIndex (case filter (\<lambda>i. tr (f (t ! i) i)) [0..<length t] of [] \<Rightarrow> -1 | i # _ \<Rightarrow> int i)"
  unfolding array_method_def method_loop_some method_loop_every method_loop_filter method_loop_findIndex
  using method_loop_map [of "replicate (length t) None" 0 t f tr "[]"] by (auto split: list.split)

section \<open>Loops that stop early\<close>

text \<open>\<^verbatim>\<open>createBaseEach\<close> on an array: the indices visited, until the callback returns \<^verbatim>\<open>false\<close>.\<close>

function each_up :: "('a \<Rightarrow> nat \<Rightarrow> bool) \<Rightarrow> 'a list \<Rightarrow> nat \<Rightarrow> nat list" where
  "each_up go s a = (if a < length s then a # (if go (s ! a) a then each_up go s (Suc a) else []) else [])"
  by pat_completeness auto
termination by (relation "measure (\<lambda>(go, s, a). length s - a)") auto

fun each_down :: "('a \<Rightarrow> nat \<Rightarrow> bool) \<Rightarrow> 'a list \<Rightarrow> nat \<Rightarrow> nat list" where
  "each_down go s 0 = []"
| "each_down go s (Suc a) = a # (if go (s ! a) a then each_down go s a else [])"

declare each_up.simps [simp del]

definition createBaseEach :: "bool \<Rightarrow> ('a \<Rightarrow> nat \<Rightarrow> bool) \<Rightarrow> 'a list \<Rightarrow> nat list" where
  "createBaseEach fromRight go n = (if fromRight then each_down go n (length n) else each_up go n 0)"

fun until :: "('a \<Rightarrow> bool) \<Rightarrow> 'a list \<Rightarrow> 'a list" where
  "until go [] = []"
| "until go (x # xs) = x # (if go x then until go xs else [])"

lemma each_up_until: "a \<le> length s \<Longrightarrow> each_up go s a = until (\<lambda>i. go (s ! i) i) [a..<length s]"
proof (induction "length s - a" arbitrary: a)
  case 0
  then show ?case by (subst each_up.simps) simp
next
  case (Suc n)
  then have "each_up go s (Suc a) = until (\<lambda>i. go (s ! i) i) [Suc a..<length s]" by simp
  then show ?case using Suc by (subst each_up.simps) (simp add: upt_conv_Cons)
qed

lemma each_down_until: "each_down go s a = until (\<lambda>i. go (s ! i) i) (rev [0..<a])"
  by (induction a) simp_all

lemma createBaseEach_until:
  "createBaseEach fromRight go s = until (\<lambda>i. go (s ! i) i) (if fromRight then rev [0..<length s] else [0..<length s])"
  by (simp add: createBaseEach_def each_up_until each_down_until)

section \<open>Search from an index\<close>

text \<open>\<^verbatim>\<open>baseFindIndex\<close> in both directions, and \<^verbatim>\<open>findIndex\<close>, whose start counts from the end when it is negative.\<close>

function find_up :: "('a \<Rightarrow> bool) \<Rightarrow> 'a list \<Rightarrow> nat \<Rightarrow> int" where
  "find_up t e i = (if i < length e then if t (e ! i) then int i else find_up t e (Suc i) else -1)"
  by pat_completeness auto
termination by (relation "measure (\<lambda>(t, e, i). length e - i)") auto

declare find_up.simps [simp del]

definition findIndex :: "'a list \<Rightarrow> ('a \<Rightarrow> bool) \<Rightarrow> int \<Rightarrow> int" where
  "findIndex e t n =
     (let r = int (length e) in
      if r = 0 then -1
      else (let u = (if n < 0 then max (r + n) 0 else n) in find_up t e (nat u)))"

lemma find_up_first:
  "find_up t e i = (case filter (\<lambda>j. t (e ! j)) [i..<length e] of [] \<Rightarrow> -1 | j # _ \<Rightarrow> int j)"
proof (induction "length e - i" arbitrary: i)
  case 0
  then show ?case by (subst find_up.simps) simp
next
  case (Suc n)
  then have "find_up t e (Suc i) = (case filter (\<lambda>j. t (e ! j)) [Suc i..<length e] of [] \<Rightarrow> -1 | j # _ \<Rightarrow> int j)"
    by simp
  moreover have "i < length e" using Suc(2) by simp
  ultimately show ?case by (subst find_up.simps) (simp add: upt_conv_Cons)
qed

lemma findIndex_first:
  "findIndex e t n =
     (case filter (\<lambda>j. t (e ! j)) [nat (if n < 0 then int (length e) + n else n)..<length e] of [] \<Rightarrow> -1 | j # _ \<Rightarrow> int j)"
proof (cases "e = []")
  case False
  have "nat (if n < 0 then max (int (length e) + n) 0 else n) = nat (if n < 0 then int (length e) + n else n)"
    by (simp add: max_def)
  then show ?thesis using False by (simp only: findIndex_def find_up_first Let_def length_0_conv of_nat_eq_0_iff if_False)
qed (simp add: findIndex_def)

section \<open>Accumulation\<close>

datatype 'a acc = Nothing | One 'a | Many "'a list"

text \<open>\<^verbatim>\<open>accumulateInto\<close>: nothing, one value or an array of values; the next value must be there.\<close>

definition accumulateInto :: "'a acc \<Rightarrow> 'a acc \<Rightarrow> 'a acc option" where
  "accumulateInto e t =
     (case t of
        Nothing \<Rightarrow> None
      | _ \<Rightarrow> Some (case e of
          Nothing \<Rightarrow> t
        | Many xs \<Rightarrow> (case t of Many ys \<Rightarrow> Many (xs @ ys) | One y \<Rightarrow> Many (xs @ [y]) | Nothing \<Rightarrow> e)
        | One x \<Rightarrow> (case t of Many ys \<Rightarrow> Many (x # ys) | One y \<Rightarrow> Many [x, y] | Nothing \<Rightarrow> e)))"

fun acc_list :: "'a acc \<Rightarrow> 'a list" where
  "acc_list Nothing = []"
| "acc_list (One x) = [x]"
| "acc_list (Many xs) = xs"

lemma accumulateInto_appends:
  "accumulateInto e t = Some r \<Longrightarrow> acc_list r = acc_list e @ acc_list t"
  "accumulateInto e t = None \<longleftrightarrow> t = Nothing"
  by (auto simp: accumulateInto_def split: acc.splits)

end
