(* ===== verification/Script_Lru.thy ===== *)
theory Script_Lru
  imports Script_Prelude
begin

text \<open>
  The queue that bounds memoized functions: \<^verbatim>\<open>lru-queue\<close>, with its counters and its two tables. A
  search for the next used index can only be shown to end from the invariant, so it is a partial
  function. The abstraction is the list of identifiers, the least recently used first.
\<close>

record 'id lru =
  lru_size :: nat
  lru_base :: nat
  lru_queue :: "nat \<rightharpoonup> 'id"
  lru_map :: "'id \<rightharpoonup> nat"
  lru_index :: nat

definition lru_new :: "'id lru" where
  "lru_new = \<lparr>lru_size = 0, lru_base = 1, lru_queue = Map.empty, lru_map = Map.empty, lru_index = 0\<rparr>"

partial_function (option) next_used :: "(nat \<rightharpoonup> 'id) \<Rightarrow> nat \<Rightarrow> nat option" where
  "next_used s a = (if s (Suc a) \<noteq> None then Some (Suc a) else next_used s (Suc a))"

definition lru_delete :: "'id \<Rightarrow> 'id lru \<Rightarrow> 'id lru option" where
  "lru_delete e q =
     (case lru_map q e of
        None \<Rightarrow> Some q
      | Some t \<Rightarrow>
          (let q1 = q\<lparr>lru_queue := (lru_queue q)(t := None), lru_map := (lru_map q)(e := None), lru_size := lru_size q - 1\<rparr>
           in if lru_base q1 = t then
                (if lru_size q1 = 0 then Some (q1\<lparr>lru_index := 0, lru_base := 1\<rparr>)
                 else map_option (\<lambda>a. q1\<lparr>lru_base := a\<rparr>) (next_used (lru_queue q1) (lru_base q1)))
              else Some q1))"

text \<open>The result is the identifier that had to go, if any; the outer option is the search's.\<close>

definition lru_hit :: "nat \<Rightarrow> 'id \<Rightarrow> 'id lru \<Rightarrow> ('id option \<times> 'id lru) option" where
  "lru_hit limit r q =
     (let o1 = lru_map q r; l = Suc (lru_index q);
          q1 = q\<lparr>lru_index := l, lru_queue := (lru_queue q)(l \<mapsto> r), lru_map := (lru_map q)(r \<mapsto> l)\<rparr>
      in case o1 of
           None \<Rightarrow>
             (let q2 = q1\<lparr>lru_size := Suc (lru_size q1)\<rparr>
              in if lru_size q2 \<le> limit then Some (None, q2)
                 else (case lru_queue q2 (lru_base q2) of
                     None \<Rightarrow> Some (None, q2)
                   | Some x \<Rightarrow> map_option (\<lambda>q3. (Some x, q3)) (lru_delete x q2)))
         | Some i \<Rightarrow>
             (let q2 = q1\<lparr>lru_queue := (lru_queue q1)(i := None)\<rparr>
              in if lru_base q2 = i
                 then map_option (\<lambda>a. (None, q2\<lparr>lru_base := a\<rparr>)) (next_used (lru_queue q2) (lru_base q2))
                 else Some (None, q2)))"

definition lru_clear :: "'id lru \<Rightarrow> 'id lru" where
  "lru_clear q = lru_new"

section \<open>The list of identifiers\<close>

definition list_hit :: "nat \<Rightarrow> 'id \<Rightarrow> 'id list \<Rightarrow> 'id option \<times> 'id list" where
  "list_hit limit r ids =
     (if r \<in> set ids then (None, remove1 r ids @ [r])
      else if length ids < limit then (None, ids @ [r])
      else (Some (hd (ids @ [r])), tl (ids @ [r])))"

text \<open>The queue holds the identifiers at increasing indices, from the base on.\<close>

definition lru_rel :: "'id lru \<Rightarrow> nat list \<Rightarrow> 'id list \<Rightarrow> bool" where
  "lru_rel q js ids \<longleftrightarrow>
     length js = length ids \<and> sorted_wrt (<) js \<and> distinct ids \<and>
     lru_queue q = map_of (zip js ids) \<and> lru_map q = map_of (zip ids js) \<and> lru_size q = length ids \<and>
     (\<forall>j \<in> set js. j \<le> lru_index q) \<and>
     lru_base q = (case js of [] \<Rightarrow> 1 | j # _ \<Rightarrow> j) \<and> (js = [] \<longrightarrow> lru_index q = 0)"

definition represents :: "'id lru \<Rightarrow> 'id list \<Rightarrow> bool" where
  "represents q ids \<longleftrightarrow> (\<exists>js. lru_rel q js ids)"

lemma map_of_zip_absent: "length xs = length ys \<Longrightarrow> x \<notin> set xs \<Longrightarrow> map_of (zip xs ys) x = None"
  by (induction xs ys rule: list_induct2) auto

lemma map_of_zip_remove:
  assumes "length xs = length ys" and "distinct (xs @ x # xs')" and "length xs' = length ys'"
  shows "(map_of (zip (xs @ x # xs') (ys @ y # ys')))(x := None) = map_of (zip (xs @ xs') (ys @ ys'))"
  using assms
proof (induction xs ys rule: list_induct2)
  case Nil
  then have "map_of (zip xs' ys') x = None" by (intro map_of_zip_absent) auto
  then show ?case by (auto simp: fun_eq_iff)
next
  case (Cons a as b bs)
  let ?m = "map_of (zip (as @ x # xs') (bs @ y # ys'))"
  have "(map_of (zip ((a # as) @ x # xs') ((b # bs) @ y # ys')))(x := None) = (?m(a \<mapsto> b))(x := None)"
    by (simp only: append_Cons zip_Cons_Cons map_of.simps fst_conv snd_conv)
  also have "\<dots> = (?m(x := None))(a \<mapsto> b)" using Cons.prems by (intro fun_upd_twist) auto
  also have "?m(x := None) = map_of (zip (as @ xs') (bs @ ys'))" by (rule Cons.IH) (use Cons.prems in auto)
  finally show ?case by (simp only: append_Cons zip_Cons_Cons map_of.simps fst_conv snd_conv)
qed

lemma map_of_zip_snoc:
  assumes "length xs = length ys" and "x \<notin> set xs"
  shows "(map_of (zip xs ys))(x \<mapsto> y) = map_of (zip (xs @ [x]) (ys @ [y]))"
  using assms
proof (induction xs ys rule: list_induct2)
  case (Cons a as b bs)
  have "(map_of (zip (a # as) (b # bs)))(x \<mapsto> y) = ((map_of (zip as bs))(x \<mapsto> y))(a \<mapsto> b)"
    using Cons.prems fun_upd_twist [of x a "map_of (zip as bs)"] by simp
  also have "(map_of (zip as bs))(x \<mapsto> y) = map_of (zip (as @ [x]) (bs @ [y]))"
    by (rule Cons.IH) (use Cons.prems in simp)
  finally show ?case by (simp only: append_Cons zip_Cons_Cons map_of.simps fst_conv snd_conv)
qed simp

lemma next_used_hd:
  assumes "sorted_wrt (<) (j # js)" and "length ids = length (j # js)" and "a < j"
  shows "next_used (map_of (zip (j # js) ids)) a = Some j"
  using assms(3)
proof (induction "j - a" arbitrary: a rule: less_induct)
  case less
  let ?s = "map_of (zip (j # js) ids)"
  have dom: "dom ?s = set (j # js)" using assms(2) by (simp add: dom_map_of_zip)
  show ?case
  proof (cases "Suc a = j")
    case True
    then have "?s (Suc a) \<noteq> None" using dom by (auto simp: domIff)
    then show ?thesis using True by (subst next_used.simps) simp
  next
    case False
    then have a: "Suc a < j" using less.prems by simp
    then have "Suc a \<notin> set (j # js)" using assms(1) by auto
    then have "?s (Suc a) = None" using dom by (auto simp: domIff)
    then show ?thesis using less.hyps [of "Suc a"] a less.prems by (subst next_used.simps) simp
  qed
qed


section \<open>Refinement\<close>

lemma lru_rel_dom:
  assumes "lru_rel q js ids"
  shows "dom (lru_map q) = set ids" "dom (lru_queue q) = set js" "distinct js" "length js = length ids"
  using assms by (auto simp: lru_rel_def dom_map_of_zip strict_sorted_iff)

text \<open>Where an identifier stands.\<close>

lemma lru_rel_split:
  assumes "lru_rel q js ids" and "lru_map q x = Some j"
  obtains js1 js2 ids1 ids2 where "js = js1 @ j # js2" "ids = ids1 @ x # ids2" "length js1 = length ids1"
proof -
  have len: "length ids = length js" and m: "lru_map q = map_of (zip ids js)" and "distinct ids"
    using assms(1) by (auto simp: lru_rel_def)
  then have "(x, j) \<in> set (zip ids js)" using assms(2) by (simp add: map_of_zip_is_Some map_of_SomeD)
  then obtain k where k: "k < length ids" "ids ! k = x" "js ! k = j" using len by (auto simp: in_set_zip)
  then have "js = take k js @ j # drop (Suc k) js" "ids = take k ids @ x # drop (Suc k) ids"
    using len id_take_nth_drop [of k js] id_take_nth_drop [of k ids] by simp_all
  then show ?thesis using that len k(1) by (metis length_take)
qed

lemma lru_delete_rel:
  assumes "lru_rel q js ids"
  shows "\<exists>q' js'. lru_delete x q = Some q' \<and> lru_rel q' js' (remove1 x ids)"
proof (cases "lru_map q x")
  case None
  then have "x \<notin> set ids" using lru_rel_dom(1) [OF assms] by auto
  then show ?thesis using None assms by (auto simp: lru_delete_def remove1_idem)
next
  case (Some j)
  then obtain js1 js2 ids1 ids2 where js: "js = js1 @ j # js2" and ids: "ids = ids1 @ x # ids2" and len: "length js1 = length ids1"
    using lru_rel_split [OF assms] by blast
  have len2: "length js2 = length ids2" using assms js ids len by (simp add: lru_rel_def)
  have d: "distinct (js1 @ j # js2)" "distinct (ids1 @ x # ids2)"
    using lru_rel_dom(3) [OF assms] assms js ids by (auto simp: lru_rel_def)
  let ?q = "q\<lparr>lru_queue := (lru_queue q)(j := None), lru_map := (lru_map q)(x := None), lru_size := lru_size q - 1\<rparr>"
  have tables: "lru_queue ?q = map_of (zip (js1 @ js2) (ids1 @ ids2))" "lru_map ?q = map_of (zip (ids1 @ ids2) (js1 @ js2))"
    using assms js ids map_of_zip_remove [OF len d(1) len2] map_of_zip_remove [OF len [symmetric] d(2) len2 [symmetric]]
    by (simp_all add: lru_rel_def)
  have sorted: "sorted_wrt (<) (js1 @ js2)" "sorted_wrt (<) (j # js2)" "\<forall>i \<in> set (js1 @ js2). i \<le> lru_index q"
    using assms js by (auto simp: lru_rel_def sorted_wrt_append)
  have r: "remove1 x ids = ids1 @ ids2" using d(2) ids by (simp add: remove1_append)
  have size: "lru_size ?q = length (ids1 @ ids2)" using assms ids by (simp add: lru_rel_def)
  have base: "lru_base q = hd (js1 @ [j])" using assms js by (cases js1) (simp_all add: lru_rel_def)
  show ?thesis
  proof (cases js1)
    case (Cons i js3)
    then have "lru_base ?q \<noteq> j" using base d(1) by auto
    then have "lru_delete x q = Some ?q" using Some by (simp add: lru_delete_def Let_def)
    moreover have "lru_rel ?q (js1 @ js2) (ids1 @ ids2)"
      using tables sorted size base Cons len len2 d by (simp add: lru_rel_def)
    ultimately show ?thesis using r by auto
  next
    case Nil
    then have b: "lru_base ?q = j" and ids1: "ids1 = []" using base len by simp_all
    show ?thesis
    proof (cases js2)
      case Nil
      then have "lru_delete x q = Some (?q\<lparr>lru_index := 0, lru_base := 1\<rparr>)"
        using Some b size ids1 len2 by (simp add: lru_delete_def Let_def)
      moreover have "lru_rel (?q\<lparr>lru_index := 0, lru_base := 1\<rparr>) [] (ids1 @ ids2)"
        using tables size Nil \<open>js1 = []\<close> ids1 len2 by (simp add: lru_rel_def)
      ultimately show ?thesis using r by auto
    next
      case (Cons i js3)
      then have "next_used (lru_queue ?q) j = Some i"
        using next_used_hd [of i js3 ids2 j] sorted(2) len2 tables(1) \<open>js1 = []\<close> ids1 by simp
      then have "lru_delete x q = Some (?q\<lparr>lru_base := i\<rparr>)"
        using Some b size ids1 len2 Cons by (cases ids2) (simp_all add: lru_delete_def Let_def)
      moreover have "lru_rel (?q\<lparr>lru_base := i\<rparr>) (js1 @ js2) (ids1 @ ids2)"
        using tables sorted size Cons \<open>js1 = []\<close> ids1 len2 d by (simp add: lru_rel_def)
      ultimately show ?thesis using r by auto
    qed
  qed
qed


lemma case_hd: "xs \<noteq> [] \<Longrightarrow> (case xs of [] \<Rightarrow> c | x # _ \<Rightarrow> x) = hd xs"
  by (cases xs) simp_all

lemma lru_append_rel:
  assumes "lru_rel q js ids" and "lru_map q r = None"
  shows "lru_rel (q\<lparr>lru_index := Suc (lru_index q), lru_queue := (lru_queue q)(Suc (lru_index q) \<mapsto> r),
      lru_map := (lru_map q)(r \<mapsto> Suc (lru_index q)), lru_size := Suc (lru_size q)\<rparr>)
    (js @ [Suc (lru_index q)]) (ids @ [r])"
proof -
  let ?l = "Suc (lru_index q)"
  have l: "?l \<notin> set js" "r \<notin> set ids" "length js = length ids"
    using assms lru_rel_dom [OF assms(1)] by (auto simp: lru_rel_def)
  then show ?thesis
    using assms(1) map_of_zip_snoc [OF l(3,1), of r] map_of_zip_snoc [OF l(3) [symmetric] l(2), of ?l]
    by (cases js) (auto simp: lru_rel_def sorted_wrt_append less_Suc_eq_le le_SucI)
qed

lemma lru_touch_rel:
  assumes "lru_rel q js ids" and "lru_map q r = Some i"
  shows "\<exists>q' js'. lru_hit limit r q = Some (None, q') \<and> lru_rel q' js' (remove1 r ids @ [r])"
proof -
  let ?l = "Suc (lru_index q)"
  obtain js1 js2 ids1 ids2 where js: "js = js1 @ i # js2" and ids: "ids = ids1 @ r # ids2" and len: "length js1 = length ids1"
    using lru_rel_split [OF assms] by blast
  have len2: "length js2 = length ids2" using assms(1) js ids len by (simp add: lru_rel_def)
  have d: "distinct (js1 @ i # js2)" "distinct (ids1 @ r # ids2)"
    using lru_rel_dom(3) [OF assms(1)] assms js ids by (auto simp: lru_rel_def)
  have le: "\<forall>j \<in> set js. j \<le> lru_index q" using assms(1) by (simp add: lru_rel_def)
  then have l: "?l \<notin> set js" by auto
  let ?q = "q\<lparr>lru_index := ?l, lru_queue := ((lru_queue q)(?l \<mapsto> r))(i := None), lru_map := (lru_map q)(r \<mapsto> ?l)\<rparr>"
  let ?js = "js1 @ js2 @ [?l]" and ?ids = "ids1 @ ids2 @ [r]"
  have "lru_queue ?q = ((lru_queue q)(i := None))(?l \<mapsto> r)" using l js by (auto simp: fun_upd_twist)
  also have "(lru_queue q)(i := None) = map_of (zip (js1 @ js2) (ids1 @ ids2))"
    using assms(1) js ids map_of_zip_remove [OF len d(1) len2] by (simp add: lru_rel_def)
  also have "\<dots>(?l \<mapsto> r) = map_of (zip ((js1 @ js2) @ [?l]) ((ids1 @ ids2) @ [r]))"
    using l js len len2 by (intro map_of_zip_snoc) auto
  finally have queue: "lru_queue ?q = map_of (zip ?js ?ids)" by (simp only: append_assoc)
  have "lru_map ?q = ((lru_map q)(r := None))(r \<mapsto> ?l)" by simp
  also have "(lru_map q)(r := None) = map_of (zip (ids1 @ ids2) (js1 @ js2))"
    using assms(1) js ids map_of_zip_remove [OF len [symmetric] d(2) len2 [symmetric]] by (simp add: lru_rel_def)
  also have "\<dots>(r \<mapsto> ?l) = map_of (zip ((ids1 @ ids2) @ [r]) ((js1 @ js2) @ [?l]))"
    using d(2) len len2 by (intro map_of_zip_snoc) auto
  finally have map: "lru_map ?q = map_of (zip ?ids ?js)" by (simp only: append_assoc)
  have sorted: "sorted_wrt (<) ?js" "sorted_wrt (<) (i # js2)" "\<forall>j \<in> set ?js. j \<le> ?l" "i < ?l"
    using assms(1) js le by (auto simp: lru_rel_def sorted_wrt_append less_Suc_eq_le le_SucI)
  have r: "remove1 r ids @ [r] = ?ids" using d(2) ids by (simp add: remove1_append)
  have size: "lru_size ?q = length ?ids" using assms(1) ids by (simp add: lru_rel_def)
  have base: "lru_base ?q = hd (js1 @ [i])" using assms(1) js by (cases js1) (simp_all add: lru_rel_def)
  have rel: "lru_rel (?q\<lparr>lru_base := hd ?js\<rparr>) ?js ?ids"
    using queue map sorted size d(2) len len2 case_hd [of ?js] by (auto simp: lru_rel_def)
  show ?thesis
  proof (cases js1)
    case (Cons j js3)
    then have b: "lru_base ?q = hd ?js" "lru_base ?q \<noteq> i" using base d(1) by auto
    then have "lru_hit limit r q = Some (None, ?q)" using assms(2) by (simp add: lru_hit_def Let_def)
    moreover have "?q = ?q\<lparr>lru_base := hd ?js\<rparr>" using b(1) by simp
    ultimately show ?thesis using rel r by metis
  next
    case Nil
    obtain j js3 where j: "js2 @ [?l] = j # js3" by (cases "js2 @ [?l]") auto
    then have "i < j" using sorted(2,4) by (cases js2) auto
    moreover have "sorted_wrt (<) (js2 @ [?l])" "length ?ids = length (js2 @ [?l])"
      using sorted(1) Nil len len2 by (simp_all add: sorted_wrt_append)
    then have "sorted_wrt (<) (j # js3)" "length ?ids = length (j # js3)" unfolding j by blast+
    ultimately have "next_used (lru_queue ?q) i = Some j"
      using next_used_hd [of j js3 ?ids i] queue Nil j by simp
    then have "lru_hit limit r q = Some (None, ?q\<lparr>lru_base := hd ?js\<rparr>)"
      using assms(2) base Nil j by (simp add: lru_hit_def Let_def)
    then show ?thesis using rel r by metis
  qed
qed

text \<open>The queue with its index tables behaves as a list in order of use: hitting an identifier
  moves or adds it at the end and, beyond the limit, gives back and drops the one used longest ago;
  deleting takes it out; and the search for the next used index always ends.\<close>

theorem lru_queue_refines_list:
  assumes "represents q ids"
  shows "(\<exists>q'. lru_hit limit x q = Some (fst (list_hit limit x ids), q') \<and> represents q' (snd (list_hit limit x ids))) \<and>
    (\<exists>q'. lru_delete x q = Some q' \<and> represents q' (remove1 x ids))"
proof -
  obtain js where rel: "lru_rel q js ids" using assms by (auto simp: represents_def)
  have del: "\<exists>q'. lru_delete x q = Some q' \<and> represents q' (remove1 x ids)"
    using lru_delete_rel [OF rel] by (auto simp: represents_def)
  have "\<exists>q'. lru_hit limit x q = Some (fst (list_hit limit x ids), q') \<and> represents q' (snd (list_hit limit x ids))"
  proof (cases "lru_map q x")
    case (Some i)
    then have "x \<in> set ids" using lru_rel_dom(1) [OF rel] by auto
    then show ?thesis using lru_touch_rel [OF rel Some, of limit] by (auto simp: list_hit_def represents_def)
  next
    case None
    then have x: "x \<notin> set ids" using lru_rel_dom(1) [OF rel] by auto
    let ?l = "Suc (lru_index q)"
    let ?q = "q\<lparr>lru_index := ?l, lru_queue := (lru_queue q)(?l \<mapsto> x), lru_map := (lru_map q)(x \<mapsto> ?l),
      lru_size := Suc (lru_size q)\<rparr>"
    note app = lru_append_rel [OF rel None]
    have size: "lru_size q = length ids" using rel by (simp add: lru_rel_def)
    show ?thesis
    proof (cases "length ids < limit")
      case True
      then have "lru_hit limit x q = Some (None, ?q)" using None size by (simp add: lru_hit_def Let_def)
      then show ?thesis using app x True by (auto simp: list_hit_def represents_def)
    next
      case False
      let ?y = "hd (ids @ [x])"
      have "lru_queue ?q (lru_base ?q) = Some ?y"
        using app by (cases "js @ [?l]"; cases "ids @ [x]") (auto simp: lru_rel_def)
      moreover obtain q' js' where q': "lru_delete ?y ?q = Some q'" "lru_rel q' js' (remove1 ?y (ids @ [x]))"
        using lru_delete_rel [OF app] by blast
      moreover have "remove1 ?y (ids @ [x]) = tl (ids @ [x])" by (cases ids) simp_all
      ultimately have "lru_hit limit x q = Some (Some ?y, q')" "represents q' (tl (ids @ [x]))"
        using None size False by (auto simp: lru_hit_def Let_def represents_def)
      then show ?thesis using x False by (simp add: list_hit_def)
    qed
  qed
  then show ?thesis using del by blast
qed

lemma lru_new_represents: "represents lru_new []"
  by (auto simp: represents_def lru_rel_def lru_new_def intro!: exI [of _ "[]"])

theorem lru_queue_refines_list_witness:
  "\<exists>q'. lru_hit 1 (7 :: nat) lru_new = Some (None, q') \<and> represents q' [7]"
  using lru_queue_refines_list [OF lru_new_represents, of 1 "7 :: nat"] by (simp add: list_hit_def)

end
