(* ===== verification/Script_Style.thy ===== *)
theory Script_Style
  imports Script_Prelude
begin

text \<open>
  The style loader: every module of style sheets that several parts of the program ask for is in the
  page once, with a counter of those who use it. A style sheet's text with its media is a value of
  type \<^typ>\<open>'c\<close>; of the page only this is kept, whether the element of a part is attached and what it shows.
\<close>

record 'c part =
  part_attached :: bool
  part_css :: 'c

record 'c dom_style =
  style_refs :: int
  style_parts :: "'c part list"

type_synonym ('i, 'c) dom_styles = "'i \<rightharpoonup> 'c dom_style"

text \<open>\<^verbatim>\<open>listToStyles\<close>: the parts of one id are collected at the id's first place.\<close>

fun add_part :: "'i \<Rightarrow> 'c \<Rightarrow> ('i \<times> 'c list) list \<Rightarrow> ('i \<times> 'c list) list" where
  "add_part i c [] = [(i, [c])]"
| "add_part i c ((j, cs) # t) = (if j = i then (j, cs @ [c]) # t else (j, cs) # add_part i c t)"

definition listToStyles :: "('i \<times> 'c) list \<Rightarrow> ('i \<times> 'c list) list" where
  "listToStyles e = fold (\<lambda>(i, c). add_part i c) e []"

text \<open>A part is attached when it is made; called without a new text it removes its element.\<close>

definition addStyle :: "'c \<Rightarrow> 'c part" where
  "addStyle c = \<lparr>part_attached = True, part_css = c\<rparr>"

definition call_part :: "'c part \<Rightarrow> 'c option \<Rightarrow> 'c part" where
  "call_part p t = (case t of Some c \<Rightarrow> p\<lparr>part_css := c\<rparr> | None \<Rightarrow> p\<lparr>part_attached := False\<rparr>)"

definition add_style :: "'i \<times> 'c list \<Rightarrow> ('i, 'c) dom_styles \<Rightarrow> ('i, 'c) dom_styles" where
  "add_style r h =
     (case r of (i, parts) \<Rightarrow>
       (case h i of
          Some d \<Rightarrow>
            h(i \<mapsto> d\<lparr>style_refs := style_refs d + 1,
              style_parts :=
                map (\<lambda>k. call_part (style_parts d ! k) (if k < length parts then Some (parts ! k) else None))
                  [0..<length (style_parts d)] @
                map addStyle (drop (length (style_parts d)) parts)\<rparr>)
        | None \<Rightarrow> h(i \<mapsto> \<lparr>style_refs = 1, style_parts = map addStyle parts\<rparr>)))"

definition addStylesToDom :: "('i \<times> 'c list) list \<Rightarrow> ('i, 'c) dom_styles \<Rightarrow> ('i, 'c) dom_styles" where
  "addStylesToDom e h = fold add_style e h"

text \<open>\<^verbatim>\<open>h[s.id].refs--\<close> throws where there is no entry; the elements of an entry without users are removed with it.\<close>

fun drop_refs :: "('i \<times> 'c list) list \<Rightarrow> ('i, 'c) dom_styles \<Rightarrow> ('i, 'c) dom_styles option" where
  "drop_refs [] h = Some h"
| "drop_refs (s # n) h =
     (case h (fst s) of
        None \<Rightarrow> None
      | Some d \<Rightarrow> drop_refs n (h(fst s \<mapsto> d\<lparr>style_refs := style_refs d - 1\<rparr>)))"

definition delete_unused :: "('i \<times> 'c list) list \<Rightarrow> ('i, 'c) dom_styles \<Rightarrow> ('i, 'c) dom_styles" where
  "delete_unused n h =
     fold (\<lambda>s h. case h (fst s) of Some d \<Rightarrow> if style_refs d = 0 then h(fst s := None) else h | None \<Rightarrow> h) n h"

text \<open>
  The loader takes a list of modules and returns the function that later replaces them by a new list
  or, without one, takes them back.
\<close>

definition load_styles :: "('i \<times> 'c) list \<Rightarrow> ('i, 'c) dom_styles \<Rightarrow> ('i, 'c) dom_styles" where
  "load_styles e h = addStylesToDom (listToStyles e) h"

definition update_styles :: "('i \<times> 'c) list \<Rightarrow> ('i \<times> 'c) list option \<Rightarrow> ('i, 'c) dom_styles \<Rightarrow> ('i, 'c) dom_styles option" where
  "update_styles loaded e h =
     (let n = listToStyles loaded in
      map_option (\<lambda>h1. delete_unused n (case e of Some l \<Rightarrow> addStylesToDom (listToStyles l) h1 | None \<Rightarrow> h1)) (drop_refs n h))"

section \<open>Counting\<close>

definition refs_of :: "('i, 'c) dom_styles \<Rightarrow> 'i \<Rightarrow> int" where
  "refs_of h i = (case h i of Some d \<Rightarrow> style_refs d | None \<Rightarrow> 0)"

definition counted :: "('i, 'c) dom_styles \<Rightarrow> bool" where
  "counted h \<longleftrightarrow> (\<forall>i d. h i = Some d \<longrightarrow> style_refs d > 0)"

text \<open>The users that an id has in a list: one or none, as its parts are collected.\<close>

definition used :: "('i \<times> 'c) list \<Rightarrow> 'i \<Rightarrow> int" where
  "used e i = (if i \<in> fst ` set e then 1 else 0)"

lemma add_part_ids: "fst ` set (add_part i c t) = insert i (fst ` set t)"
proof (induction t)
  case (Cons p t)
  obtain j cs where p: "p = (j, cs)" by fastforce
  show ?case
  proof (cases "j = i")
    case False
    then have "fst ` set (add_part i c (p # t)) = insert j (fst ` set (add_part i c t))" using p by simp
    also have "\<dots> = insert i (fst ` set (p # t))" unfolding Cons by (simp add: p insert_commute)
    finally show ?thesis .
  qed (simp add: p)
qed simp

lemma add_part_distinct: "distinct (map fst t) \<Longrightarrow> distinct (map fst (add_part i c t))"
proof (induction t)
  case (Cons p t)
  obtain j cs where p: "p = (j, cs)" by fastforce
  show ?case using Cons add_part_ids [of i c t] p by (auto simp: image_iff)
qed simp

lemma listToStyles_ids: "fst ` set (listToStyles e) = fst ` set e"
proof -
  have "fst ` set (fold (\<lambda>(i, c). add_part i c) e t) = fst ` set t \<union> fst ` set e" for t
  proof (induction e arbitrary: t)
    case (Cons p e)
    obtain i c where p: "p = (i, c)" by fastforce
    have "fst ` set (fold (\<lambda>(i, c). add_part i c) (p # e) t) = fst ` set (add_part i c t) \<union> fst ` set e"
      using Cons [of "add_part i c t"] p by simp
    then show ?case unfolding add_part_ids by (simp add: p)
  qed simp
  then show ?thesis by (simp add: listToStyles_def)
qed

lemma listToStyles_distinct: "distinct (map fst (listToStyles e))"
proof -
  have "distinct (map fst t) \<Longrightarrow> distinct (map fst (fold (\<lambda>(i, c). add_part i c) e t))" for t
    by (induction e arbitrary: t) (auto intro!: add_part_distinct)
  then show ?thesis by (simp add: listToStyles_def)
qed

lemma refs_of_upd: "refs_of (h(i \<mapsto> d)) j = (if j = i then style_refs d else refs_of h j)"
  by (simp add: refs_of_def)

lemma add_style_refs: "refs_of (add_style s h) i = refs_of h i + (if i = fst s then 1 else 0)"
  by (auto simp: add_style_def refs_of_def split: prod.splits option.splits)

lemma add_style_dom: "dom (add_style s h) = insert (fst s) (dom h)"
  by (auto simp: add_style_def split: prod.splits option.splits)

lemma addStylesToDom_refs:
  "distinct (map fst n) \<Longrightarrow> refs_of (addStylesToDom n h) i = refs_of h i + (if i \<in> fst ` set n then 1 else 0)"
  by (induction n arbitrary: h) (auto simp: addStylesToDom_def add_style_refs)

lemma addStylesToDom_dom: "dom (addStylesToDom n h) = dom h \<union> fst ` set n"
  by (induction n arbitrary: h) (auto simp: addStylesToDom_def add_style_dom)

lemma drop_refs_refs:
  "drop_refs n h = Some h' \<Longrightarrow> distinct (map fst n) \<Longrightarrow>
   refs_of h' i = refs_of h i - (if i \<in> fst ` set n then 1 else 0) \<and> dom h' = dom h"
proof (induction n arbitrary: h)
  case (Cons s n)
  obtain d k where d: "h (fst s) = Some d" and k: "k = h(fst s \<mapsto> d\<lparr>style_refs := style_refs d - 1\<rparr>)" "drop_refs n k = Some h'"
    using Cons.prems(1) by (auto split: option.splits)
  have "refs_of h (fst s) = style_refs d" using d by (simp add: refs_of_def)
  then have "refs_of k i = refs_of h i - (if i = fst s then 1 else 0)" by (simp add: k(1) refs_of_upd)
  moreover have "dom k = dom h" using d by (auto simp: k(1))
  ultimately show ?case using Cons.IH [OF k(2)] Cons.prems(2) by auto
qed simp

lemma drop_refs_Some_iff: "drop_refs n h \<noteq> None \<longleftrightarrow> fst ` set n \<subseteq> dom h"
proof (induction n arbitrary: h)
  case (Cons s n)
  show ?case
  proof (cases "h (fst s)")
    case (Some d)
    let ?h = "h(fst s \<mapsto> d\<lparr>style_refs := style_refs d - 1\<rparr>)"
    have "dom ?h = dom h" using Some by auto
    then have "drop_refs n ?h \<noteq> None \<longleftrightarrow> fst ` set n \<subseteq> dom h" unfolding Cons by simp
    moreover have "fst s \<in> dom h" using Some by auto
    ultimately show ?thesis using Some by simp
  qed auto
qed simp

lemma delete_unused_apply:
  "delete_unused n h i =
     (if i \<in> fst ` set n \<and> (\<exists>d. h i = Some d \<and> style_refs d = 0) then None else h i)"
  unfolding delete_unused_def
proof (induction n arbitrary: h)
  case (Cons s n)
  show ?case by (simp add: Cons split: option.splits) auto
qed simp

lemma counted_iff: "counted k \<longleftrightarrow> (\<forall>i \<in> dom k. refs_of k i > 0)"
  by (force simp: counted_def refs_of_def)

lemma counted_pos: "counted h \<Longrightarrow> refs_of h i \<ge> 0" "counted h \<Longrightarrow> h i \<noteq> None \<longleftrightarrow> refs_of h i > 0"
  by (auto simp: counted_def refs_of_def split: option.splits intro: less_imp_le)

lemma load_styles_refs: "refs_of (load_styles e h) i = refs_of h i + used e i"
  by (simp add: load_styles_def addStylesToDom_refs [OF listToStyles_distinct] listToStyles_ids used_def)

lemma load_styles_counted: "counted h \<Longrightarrow> counted (load_styles e h)"
  unfolding counted_iff load_styles_refs using counted_pos [of h]
  by (auto simp: counted_iff load_styles_def addStylesToDom_dom listToStyles_ids used_def domIff add_nonneg_pos)

lemma update_styles_counted:
  assumes "counted h"
  shows "case update_styles e new h of
       None \<Rightarrow> \<exists>i \<in> fst ` set e. h i = None
     | Some h' \<Rightarrow> counted h' \<and>
         (\<forall>i. refs_of h' i = refs_of h i - used e i + (case new of None \<Rightarrow> 0 | Some l \<Rightarrow> used l i))"
proof (cases "drop_refs (listToStyles e) h")
  case None
  then have "\<not> fst ` set e \<subseteq> dom h" using drop_refs_Some_iff [of "listToStyles e" h] listToStyles_ids by metis
  then obtain i where "i \<in> fst ` set e" "h i = None" by (auto simp: subset_iff domIff)
  then show ?thesis using None by (simp only: update_styles_def Let_def option.map option.case) blast
next
  case (Some h1)
  let ?h2 = "case new of Some l \<Rightarrow> addStylesToDom (listToStyles l) h1 | None \<Rightarrow> h1"
  let ?h3 = "delete_unused (listToStyles e) ?h2"
  have 1: "refs_of h1 i = refs_of h i - used e i" "dom h1 = dom h" for i
    using drop_refs_refs [OF Some listToStyles_distinct, of i] by (simp_all add: listToStyles_ids used_def)
  have sub: "fst ` set e \<subseteq> dom h" using drop_refs_Some_iff [of "listToStyles e" h] Some by (simp add: listToStyles_ids)
  have 2: "refs_of ?h2 i = refs_of h1 i + (case new of None \<Rightarrow> 0 | Some l \<Rightarrow> used l i)" for i
    by (simp add: addStylesToDom_refs [OF listToStyles_distinct] listToStyles_ids used_def split: option.split)
  have 3: "refs_of ?h3 i = refs_of ?h2 i" for i
    by (auto simp: refs_of_def delete_unused_apply split: option.splits)
  have refs: "refs_of ?h3 i = refs_of h i - used e i + (case new of None \<Rightarrow> 0 | Some l \<Rightarrow> used l i)" for i
    using 1 2 3 by simp
  have "counted ?h3"
    unfolding counted_iff
  proof
    fix i
    assume i: "i \<in> dom ?h3"
    then have i2: "?h3 i = ?h2 i" "i \<in> dom ?h2" by (auto simp: delete_unused_apply domIff split: if_splits)
    show "refs_of ?h3 i > 0"
    proof (cases "i \<in> fst ` set e")
      case True
      then have "refs_of h i > 0" using sub counted_pos(2) [OF assms, of i] by auto
      then have "refs_of ?h3 i \<ge> 0" using refs [of i] by (auto simp: used_def split: option.split)
      moreover have "refs_of ?h3 i \<noteq> 0"
        using i True unfolding 3 by (auto simp: delete_unused_apply refs_of_def domIff listToStyles_ids split: option.splits if_splits)
      ultimately show ?thesis by simp
    next
      case False
      have "i \<in> dom h \<or> (\<exists>l. new = Some l \<and> i \<in> fst ` set l)"
        using i2(2) 1(2) by (auto simp: addStylesToDom_dom listToStyles_ids split: option.splits)
      then have "refs_of h i > 0 \<or> (\<exists>l. new = Some l \<and> used l i = 1)" using counted_pos(2) [OF assms, of i] by (auto simp: used_def)
      then show ?thesis using refs [of i] False counted_pos(1) [OF assms, of i] by (auto simp: used_def split: option.splits)
    qed
  qed
  then show ?thesis using Some refs by (simp add: update_styles_def Let_def)
qed

text \<open>The loader counts its users: loading adds one user to every id of the list, however many parts it has; replacing a loaded list takes one user from each of its ids and adds one to each of the new list's ids; an id is in the page exactly as long as it has users, and the update throws exactly when an id of the old list is not there.\<close>

theorem style_users_are_counted:
  assumes "counted h"
  shows "counted (load_styles e h) \<and> (\<forall>i. refs_of (load_styles e h) i = refs_of h i + used e i) \<and>
    (case update_styles e new h of
       None \<Rightarrow> \<exists>i \<in> fst ` set e. h i = None
     | Some h' \<Rightarrow> counted h' \<and>
         (\<forall>i. refs_of h' i = refs_of h i - used e i + (case new of None \<Rightarrow> 0 | Some l \<Rightarrow> used l i)))"
  by (intro conjI allI load_styles_counted [OF assms] load_styles_refs update_styles_counted [OF assms])

theorem style_users_are_counted_witness:
  "counted (load_styles [(1 :: nat, ''a''), (1, ''b'')] Map.empty)"
  using style_users_are_counted [of Map.empty "[(1 :: nat, ''a''), (1, ''b'')]" None] by (simp add: counted_def)

end
