(* ===== verification/Script_Frames.thy ===== *)
theory Script_Frames
  imports Complex_Main
begin

text \<open>
  The replacement of \<^verbatim>\<open>requestAnimationFrame\<close> that the animations use where the browser has none, as a
  step relation: requests, cancellations, the timer that starts a frame, and the callbacks of a
  frame, between which callbacks may request and cancel. Times are real numbers. What ran is kept in
  a log.
\<close>

record raf_entry =
  raf_handle :: nat
  raf_cancelled :: bool

record raf =
  raf_last :: real
  raf_id :: nat
  raf_queue :: "raf_entry list"
  raf_timers :: nat
  raf_running :: "raf_entry list"
  raf_log :: "nat list"

definition raf_init :: raf where
  "raf_init = \<lparr>raf_last = 0, raf_id = 0, raf_queue = [], raf_timers = 0, raf_running = [], raf_log = []\<rparr>"

definition frame_duration :: real where
  "frame_duration = 1000 / 60"

definition raf_request :: "real \<Rightarrow> raf \<Rightarrow> raf" where
  "raf_request now s =
     (let s1 = (if raf_queue s = []
                then (let n = max 0 (frame_duration - (now - raf_last s))
                      in s\<lparr>raf_last := n + now, raf_timers := Suc (raf_timers s)\<rparr>)
                else s)
      in s1\<lparr>raf_id := Suc (raf_id s1),
            raf_queue := raf_queue s1 @ [\<lparr>raf_handle = Suc (raf_id s1), raf_cancelled = False\<rparr>]\<rparr>)"

definition raf_cancel :: "nat \<Rightarrow> raf \<Rightarrow> raf" where
  "raf_cancel h s =
     s\<lparr>raf_queue := map (\<lambda>e. if raf_handle e = h then e\<lparr>raf_cancelled := True\<rparr> else e) (raf_queue s)\<rparr>"

text \<open>The timer's function copies the queue, empties it and calls the callbacks that are not cancelled.\<close>

definition raf_frame :: "raf \<Rightarrow> raf" where
  "raf_frame s = s\<lparr>raf_timers := raf_timers s - 1, raf_running := raf_queue s, raf_queue := []\<rparr>"

definition raf_callback :: "raf \<Rightarrow> raf" where
  "raf_callback s =
     (case raf_running s of
        [] \<Rightarrow> s
      | e # es \<Rightarrow> s\<lparr>raf_running := es, raf_log := (if raf_cancelled e then raf_log s else raf_log s @ [raf_handle e])\<rparr>)"

inductive raf_step :: "raf \<Rightarrow> raf \<Rightarrow> bool" where
  step_request: "raf_step s (raf_request now s)"
| step_cancel: "raf_step s (raf_cancel h s)"
| step_frame: "raf_timers s > 0 \<Longrightarrow> raf_running s = [] \<Longrightarrow> raf_step s (raf_frame s)"
| step_callback: "raf_running s \<noteq> [] \<Longrightarrow> raf_step s (raf_callback s)"

inductive_cases raf_stepE: "raf_step s s'"

text \<open>
  The invariant: what ran, what runs and what waits are in the order of the requests, each once;
  there is one timer as long as a callback waits, and none otherwise.
\<close>

definition raf_order :: "raf \<Rightarrow> nat list" where
  "raf_order s = raf_log s @ map raf_handle (raf_running s) @ map raf_handle (raf_queue s)"

definition raf_inv :: "raf \<Rightarrow> bool" where
  "raf_inv s \<longleftrightarrow> sorted_wrt (<) (raf_order s) \<and> (\<forall>h \<in> set (raf_order s). h \<le> raf_id s) \<and>
     raf_timers s = (if raf_queue s = [] then 0 else 1)"

lemma raf_inv_init: "raf_inv raf_init"
  by (simp add: raf_inv_def raf_init_def raf_order_def)

lemma raf_request_order: "raf_order (raf_request now s) = raf_order s @ [Suc (raf_id s)]"
  by (simp add: raf_order_def raf_request_def Let_def)

lemma raf_cancel_order: "raf_order (raf_cancel h s) = raf_order s"
  by (simp add: raf_order_def raf_cancel_def o_def if_distrib cong: if_cong)

lemma raf_callback_order: "\<exists>xs ys. raf_order s = xs @ ys \<and> (raf_order (raf_callback s) = xs @ ys \<or> raf_order (raf_callback s) = xs @ tl ys)"
proof (cases "raf_running s")
  case Nil
  then show ?thesis by (auto simp: raf_callback_def)
next
  case (Cons e es)
  then show ?thesis
    by (intro exI [where x = "raf_log s"] exI [where x = "map raf_handle (raf_running s) @ map raf_handle (raf_queue s)"])
      (simp add: raf_order_def raf_callback_def)
qed

lemma raf_inv_step: "raf_step s s' \<Longrightarrow> raf_inv s \<Longrightarrow> raf_inv s'"
proof (erule raf_stepE)
  fix now
  assume "s' = raf_request now s" "raf_inv s"
  moreover have "raf_timers (raf_request now s) = (if raf_queue s = [] then Suc (raf_timers s) else raf_timers s)"
    "raf_queue (raf_request now s) \<noteq> []" "raf_id (raf_request now s) = Suc (raf_id s)"
    by (simp_all add: raf_request_def Let_def)
  ultimately show "raf_inv s'"
    by (fastforce simp: raf_inv_def raf_request_order sorted_wrt_append less_Suc_eq_le)
next
  fix h
  assume "s' = raf_cancel h s" "raf_inv s"
  moreover have "raf_timers (raf_cancel h s) = raf_timers s" "raf_id (raf_cancel h s) = raf_id s"
    "raf_queue (raf_cancel h s) = [] \<longleftrightarrow> raf_queue s = []" by (simp_all add: raf_cancel_def)
  ultimately show "raf_inv s'" by (simp add: raf_inv_def raf_cancel_order)
next
  assume "s' = raf_frame s" "raf_timers s > 0" "raf_running s = []" "raf_inv s"
  then show "raf_inv s'" by (auto simp: raf_inv_def raf_frame_def raf_order_def split: if_splits)
next
  assume s: "s' = raf_callback s" and inv: "raf_inv s"
  obtain xs ys where o: "raf_order s = xs @ ys" "raf_order (raf_callback s) = xs @ ys \<or> raf_order (raf_callback s) = xs @ tl ys"
    using raf_callback_order by blast
  have "sorted_wrt (<) (xs @ ys)" "\<forall>h \<in> set (xs @ ys). h \<le> raf_id s" using inv o(1) by (simp_all add: raf_inv_def)
  then have "sorted_wrt (<) (xs @ tl ys) \<and> (\<forall>h \<in> set (xs @ tl ys). h \<le> raf_id s)"
    by (cases ys) (auto simp: sorted_wrt_append)
  then have "sorted_wrt (<) (raf_order s')" "\<forall>h \<in> set (raf_order s'). h \<le> raf_id s"
    using inv s o by (auto simp: raf_inv_def)
  moreover have "raf_timers s' = raf_timers s" "raf_queue s' = raf_queue s" "raf_id s' = raf_id s"
    using s by (simp_all add: raf_callback_def split: list.split)
  ultimately show "raf_inv s'" using inv by (auto simp: raf_inv_def)
qed

lemma raf_reachable_inv: "raf_step\<^sup>*\<^sup>* raf_init s \<Longrightarrow> raf_inv s"
  by (induction rule: rtranclp_induct) (auto intro: raf_inv_init raf_inv_step)

text \<open>In every run the callbacks are called in the order in which they were requested, none twice,
  and at any time one timer is set if a callback waits for a frame and none if not.
\<close>

theorem frames_run_callbacks_in_order:
  assumes "raf_step\<^sup>*\<^sup>* raf_init s"
  shows "sorted_wrt (<) (raf_log s) \<and> distinct (raf_log s) \<and> raf_timers s = (if raf_queue s = [] then 0 else 1)"
  using raf_reachable_inv [OF assms]
  by (auto simp: raf_inv_def raf_order_def sorted_wrt_append strict_sorted_iff)

theorem frames_run_callbacks_in_order_witness:
  "\<exists>s. raf_step\<^sup>*\<^sup>* raf_init s \<and> raf_log s = [1, 2] \<and> sorted_wrt (<) (raf_log s)"
proof -
  let ?s1 = "raf_request 6 (raf_request 5 raf_init)"
  let ?s2 = "raf_callback (raf_callback (raf_frame ?s1))"
  have r1: "raf_step\<^sup>*\<^sup>* raf_init ?s1"
    by (rule rtranclp.rtrancl_into_rtrancl [of raf_step _ "raf_request 5 raf_init"])
      (rule r_into_rtranclp step_request)+
  have "raf_step ?s1 (raf_frame ?s1)"
    by (rule step_frame) (simp_all add: raf_request_def raf_init_def Let_def)
  note r2 = rtranclp.rtrancl_into_rtrancl [OF r1 this]
  have "raf_step (raf_frame ?s1) (raf_callback (raf_frame ?s1))"
    by (rule step_callback) (simp add: raf_request_def raf_init_def raf_frame_def Let_def)
  note r3 = rtranclp.rtrancl_into_rtrancl [OF r2 this]
  have "raf_step (raf_callback (raf_frame ?s1)) ?s2"
    by (rule step_callback) (simp add: raf_request_def raf_init_def raf_frame_def raf_callback_def Let_def)
  note r4 = rtranclp.rtrancl_into_rtrancl [OF r3 this]
  moreover have "raf_log ?s2 = [1, 2]" by (simp add: raf_request_def raf_init_def raf_frame_def raf_callback_def Let_def)
  ultimately show ?thesis using frames_run_callbacks_in_order [of ?s2] by blast
qed

text \<open>
  A cancellation between two callbacks of one frame comes too late: the queue is empty by then, and
  the callbacks of the frame are on a copy.
\<close>

lemma cancel_within_frame_is_lost:
  assumes "raf_running s = e # es" and "\<not> raf_cancelled e"
  shows "raf_log (raf_callback (raf_cancel (raf_handle e) s)) = raf_log s @ [raf_handle e]"
  using assms by (simp add: raf_cancel_def raf_callback_def)

text \<open>Two frames are requested at least one frame's duration apart.\<close>

lemma frames_are_apart:
  "raf_queue s = [] \<Longrightarrow> raf_last (raf_request now s) \<ge> raf_last s + frame_duration"
  by (simp add: raf_request_def Let_def max_def)

end
