(* ===== verification/Script_Markdown.thy ===== *)
theory Script_Markdown
  imports Script_Prelude
begin

text \<open>
  Parts of the Markdown renderer: the ordered rules of its parsers with the cache of the active ones,
  the expansion of tabs before a text is cut into lines, and the runs of emphasis marks.
\<close>

section \<open>Rules\<close>

record 'f rule =
  rule_name :: js
  rule_enabled :: bool
  rule_fn :: 'f
  rule_alt :: "js list"

record 'f ruler =
  ruler_rules :: "'f rule list"
  ruler_cache :: "(js \<rightharpoonup> 'f list) option"

definition new_ruler :: "'f ruler" where
  "new_ruler = \<lparr>ruler_rules = [], ruler_cache = None\<rparr>"

fun find_rule :: "js \<Rightarrow> 'f rule list \<Rightarrow> nat option" where
  "find_rule e [] = None"
| "find_rule e (r # rs) = (if rule_name r = e then Some 0 else map_option Suc (find_rule e rs))"

text \<open>The chains are the empty name and the alternatives of the enabled rules.\<close>

definition chain_active :: "js \<Rightarrow> 'f rule \<Rightarrow> bool" where
  "chain_active t n \<longleftrightarrow> rule_enabled n \<and> \<not> (t \<noteq> [] \<and> t \<notin> set (rule_alt n))"

definition compile_rules :: "'f rule list \<Rightarrow> (js \<rightharpoonup> 'f list)" where
  "compile_rules rs =
     (let t = remdups ([] # concat (map rule_alt (filter rule_enabled rs)))
      in map_of (map (\<lambda>c. (c, map rule_fn (filter (chain_active c) rs))) t))"

definition getRules :: "js \<Rightarrow> 'f ruler \<Rightarrow> 'f list \<times> 'f ruler" where
  "getRules e r =
     (let r1 = (if ruler_cache r = None then r\<lparr>ruler_cache := Some (compile_rules (ruler_rules r))\<rparr> else r)
      in (case the (ruler_cache r1) e of Some fs \<Rightarrow> fs | None \<Rightarrow> [], r1))"

text \<open>The operations: the flag is false where an unknown name throws, at which the state stays as it is then.\<close>

definition set_rules :: "'f rule list \<Rightarrow> 'f ruler \<Rightarrow> 'f ruler" where
  "set_rules rs r = r\<lparr>ruler_rules := rs, ruler_cache := None\<rparr>"

definition at_rule :: "js \<Rightarrow> 'f \<Rightarrow> js list \<Rightarrow> 'f ruler \<Rightarrow> bool \<times> 'f ruler" where
  "at_rule e t alt r =
     (case find_rule e (ruler_rules r) of
        None \<Rightarrow> (False, r)
      | Some i \<Rightarrow> (True, set_rules ((ruler_rules r)[i := (ruler_rules r ! i)\<lparr>rule_fn := t, rule_alt := alt\<rparr>]) r))"

definition before_rule :: "js \<Rightarrow> js \<Rightarrow> 'f \<Rightarrow> js list \<Rightarrow> 'f ruler \<Rightarrow> bool \<times> 'f ruler" where
  "before_rule e t n alt r =
     (case find_rule e (ruler_rules r) of
        None \<Rightarrow> (False, r)
      | Some i \<Rightarrow> (True, set_rules (take i (ruler_rules r) @
            \<lparr>rule_name = t, rule_enabled = True, rule_fn = n, rule_alt = alt\<rparr> # drop i (ruler_rules r)) r))"

definition after_rule :: "js \<Rightarrow> js \<Rightarrow> 'f \<Rightarrow> js list \<Rightarrow> 'f ruler \<Rightarrow> bool \<times> 'f ruler" where
  "after_rule e t n alt r =
     (case find_rule e (ruler_rules r) of
        None \<Rightarrow> (False, r)
      | Some i \<Rightarrow> (True, set_rules (take (Suc i) (ruler_rules r) @
            \<lparr>rule_name = t, rule_enabled = True, rule_fn = n, rule_alt = alt\<rparr> # drop (Suc i) (ruler_rules r)) r))"

definition push_rule :: "js \<Rightarrow> 'f \<Rightarrow> js list \<Rightarrow> 'f ruler \<Rightarrow> bool \<times> 'f ruler" where
  "push_rule e t alt r =
     (True, set_rules (ruler_rules r @ [\<lparr>rule_name = e, rule_enabled = True, rule_fn = t, rule_alt = alt\<rparr>]) r)"

fun switch_rules :: "bool \<Rightarrow> js list \<Rightarrow> 'f rule list \<Rightarrow> bool \<times> 'f rule list" where
  "switch_rules on [] rs = (True, rs)"
| "switch_rules on (e # es) rs =
     (case find_rule e rs of
        None \<Rightarrow> (False, rs)
      | Some i \<Rightarrow> switch_rules on es (rs[i := (rs ! i)\<lparr>rule_enabled := on\<rparr>]))"

definition switch_cached :: "bool \<times> 'f rule list \<Rightarrow> 'f ruler \<Rightarrow> bool \<times> 'f ruler" where
  "switch_cached x r =
     (case x of (ok, rs) \<Rightarrow> (ok, r\<lparr>ruler_rules := rs, ruler_cache := (if ok then None else ruler_cache r)\<rparr>))"

definition enable_rules :: "js list \<Rightarrow> bool \<Rightarrow> 'f ruler \<Rightarrow> bool \<times> 'f ruler" where
  "enable_rules e strict r =
     switch_cached
       (switch_rules True e (if strict then map (\<lambda>x. x\<lparr>rule_enabled := False\<rparr>) (ruler_rules r) else ruler_rules r)) r"

definition disable_rules :: "js list \<Rightarrow> 'f ruler \<Rightarrow> bool \<times> 'f ruler" where
  "disable_rules e r = switch_cached (switch_rules False e (ruler_rules r)) r"

text \<open>The cache is absent or that of the rules.\<close>

definition ruler_ok :: "'f ruler \<Rightarrow> bool" where
  "ruler_ok r \<longleftrightarrow> ruler_cache r = None \<or> ruler_cache r = Some (compile_rules (ruler_rules r))"

lemma compile_rules_apply:
  "(case compile_rules rs c of Some fs \<Rightarrow> fs | None \<Rightarrow> []) = map rule_fn (filter (chain_active c) rs)"
proof (cases "c \<in> set ([] # concat (map rule_alt (filter rule_enabled rs)))")
  case True
  have look: "map_of (map (\<lambda>c. (c, g c)) cs) c = Some (g c)" if "c \<in> set cs" for cs and g :: "js \<Rightarrow> 'a list"
    using that by (induction cs) auto
  have "compile_rules rs c = Some (map rule_fn (filter (chain_active c) rs))"
    unfolding compile_rules_def Let_def by (rule look) (use True in \<open>simp only: set_remdups\<close>)
  then show ?thesis by simp
next
  case False
  then have "compile_rules rs c = None" by (auto simp: compile_rules_def Let_def map_of_eq_None_iff)
  moreover have "filter (chain_active c) rs = []" using False by (auto simp: filter_empty_conv chain_active_def)
  ultimately show ?thesis by simp
qed

lemma getRules_ok:
  "ruler_ok r \<Longrightarrow> fst (getRules c r) = map rule_fn (filter (chain_active c) (ruler_rules r)) \<and>
     ruler_ok (snd (getRules c r)) \<and> ruler_rules (snd (getRules c r)) = ruler_rules r"
  using compile_rules_apply [of "ruler_rules r" c] by (auto simp: ruler_ok_def getRules_def Let_def)

datatype 'f ruler_op =
    OpAt js 'f "js list"
  | OpBefore js js 'f "js list"
  | OpAfter js js 'f "js list"
  | OpPush js 'f "js list"
  | OpEnable "js list" bool
  | OpDisable "js list"
  | OpGetRules js

fun ruler_step :: "'f ruler_op \<Rightarrow> 'f ruler \<Rightarrow> bool \<times> 'f ruler" where
  "ruler_step (OpAt e t a) r = at_rule e t a r"
| "ruler_step (OpBefore e n t a) r = before_rule e n t a r"
| "ruler_step (OpAfter e n t a) r = after_rule e n t a r"
| "ruler_step (OpPush e t a) r = push_rule e t a r"
| "ruler_step (OpEnable e s) r = enable_rules e s r"
| "ruler_step (OpDisable e) r = disable_rules e r"
| "ruler_step (OpGetRules e) r = (True, snd (getRules e r))"

lemma ruler_step_ok:
  "ruler_ok r \<Longrightarrow> ruler_step c r = (True, r') \<Longrightarrow> ruler_ok r'"
proof (cases c)
  case (OpGetRules e)
  then show "ruler_ok r \<Longrightarrow> ruler_step c r = (True, r') \<Longrightarrow> ruler_ok r'" using getRules_ok [of r e] by auto
qed (auto simp: ruler_ok_def at_rule_def before_rule_def after_rule_def push_rule_def enable_rules_def disable_rules_def
    switch_cached_def set_rules_def split: option.splits prod.splits)

fun ruler_run :: "'f ruler_op list \<Rightarrow> 'f ruler \<Rightarrow> 'f ruler option" where
  "ruler_run [] r = Some r"
| "ruler_run (c # cs) r = (case ruler_step c r of (ok, r') \<Rightarrow> if ok then ruler_run cs r' else None)"

lemma ruler_run_ok: "ruler_run cs r = Some r' \<Longrightarrow> ruler_ok r \<Longrightarrow> ruler_ok r'"
proof (induction cs arbitrary: r)
  case (Cons c cs)
  obtain r1 where "ruler_step c r = (True, r1)" "ruler_run cs r1 = Some r'"
    using Cons.prems(1) by (auto split: prod.splits if_splits)
  then show ?case using Cons.IH Cons.prems(2) ruler_step_ok by blast
qed simp

text \<open>After any sequence of operations on a new ruler none of which throws, the rules handed out for
  a chain are exactly the functions of the enabled rules of that chain, in the order of the rules,
  whatever was cached before.
\<close>

theorem ruler_cache_is_coherent:
  assumes "ruler_run cs new_ruler = Some r"
  shows "fst (getRules chain r) = map rule_fn (filter (chain_active chain) (ruler_rules r))"
proof -
  have "ruler_ok r" by (rule ruler_run_ok [OF assms]) (simp add: ruler_ok_def new_ruler_def)
  then show ?thesis using getRules_ok by blast
qed

theorem ruler_cache_is_coherent_witness:
  "\<exists>r. ruler_run [OpPush (lit ''a'') (1 :: nat) [], OpGetRules [], OpDisable [lit ''a'']] new_ruler = Some r \<and>
     fst (getRules [] r) = []"
proof -
  obtain r where r: "ruler_run [OpPush (lit ''a'') (1 :: nat) [], OpGetRules [], OpDisable [lit ''a'']] new_ruler = Some r"
    and e: "filter rule_enabled (ruler_rules r) = []"
    by (simp add: push_rule_def set_rules_def getRules_def disable_rules_def switch_cached_def new_ruler_def Let_def)
  have "filter (chain_active []) (ruler_rules r) = []" using e by (auto simp: chain_active_def filter_empty_conv)
  then show ?thesis using ruler_cache_is_coherent [OF r, of "[]"] r by auto
qed

text \<open>
  Where enabling throws at an unknown name, the rules before it are enabled but the cache stays, so
  that the parser goes on without them.
\<close>

lemma failed_enable_leaves_stale_cache:
  "\<exists>r r'. ruler_ok r \<and> enable_rules [lit ''a'', lit ''x''] False r = (False, r') \<and>
     fst (getRules [] r') = [] \<and> map rule_fn (filter (chain_active []) (ruler_rules r')) = [1 :: nat]"
proof -
  let ?rule = "\<lparr>rule_name = lit ''a'', rule_enabled = False, rule_fn = 1 :: nat, rule_alt = []\<rparr>"
  let ?r = "\<lparr>ruler_rules = [?rule], ruler_cache = Some (compile_rules [?rule])\<rparr>"
  let ?r' = "\<lparr>ruler_rules = [?rule\<lparr>rule_enabled := True\<rparr>], ruler_cache = Some (compile_rules [?rule])\<rparr>"
  have "ruler_ok ?r" by (simp add: ruler_ok_def)
  moreover have "enable_rules [lit ''a'', lit ''x''] False ?r = (False, ?r')"
    by (simp add: enable_rules_def switch_cached_def lit_def)
  moreover have "fst (getRules [] ?r') = []" by (simp add: getRules_def compile_rules_def Let_def chain_active_def)
  moreover have "map rule_fn (filter (chain_active []) (ruler_rules ?r')) = [1]" by (simp add: chain_active_def)
  ultimately show ?thesis by (intro exI conjI)
qed

section \<open>Tabs\<close>

text \<open>
  The callback of the replacement sees line feeds and tabs, with their index in the text; \<^verbatim>\<open>a\<close> is where the
  line starts, \<^verbatim>\<open>l\<close> where the last tab of the line ended, from the line's start.
\<close>

fun expand_from :: "nat \<Rightarrow> nat \<Rightarrow> nat \<Rightarrow> js \<Rightarrow> js" where
  "expand_from n a l [] = []"
| "expand_from n a l (c # s) =
     (if c = 10 then c # expand_from (Suc n) (n + 1) 0 s
      else if c = 9 then drop ((n - a - l) mod 4) (replicate 4 32) @ expand_from (Suc n) a (n - a + 1) s
      else c # expand_from (Suc n) a l s)"

definition expand_tabs :: "js \<Rightarrow> js" where
  "expand_tabs e = (if js_indexOf e 9 \<ge> 0 then expand_from 0 0 0 e else e)"

text \<open>By columns: a tab fills up to the next multiple of four.\<close>

fun fill_tabs :: "nat \<Rightarrow> js \<Rightarrow> js" where
  "fill_tabs col [] = []"
| "fill_tabs col (c # s) =
     (if c = 10 then c # fill_tabs 0 s
      else if c = 9 then replicate (4 - col mod 4) 32 @ fill_tabs (4 * (col div 4 + 1)) s
      else c # fill_tabs (Suc col) s)"

lemma expand_from_fill:
  "a + l \<le> n \<Longrightarrow> col mod 4 = (n - a - l) mod 4 \<Longrightarrow> expand_from n a l s = fill_tabs col s"
proof (induction s arbitrary: n a l col)
  case (Cons c s)
  have "drop (col mod 4) (replicate 4 (32 :: nat)) = replicate (4 - col mod 4) 32" by simp
  moreover have "expand_from (Suc n) (n + 1) 0 s = fill_tabs 0 s" by (rule Cons.IH) simp_all
  moreover have "expand_from (Suc n) a (n - a + 1) s = fill_tabs (4 * (col div 4 + 1)) s"
    by (rule Cons.IH) (use Cons.prems in simp_all)
  moreover have "expand_from (Suc n) a l s = fill_tabs (Suc col) s"
  proof (rule Cons.IH)
    have "Suc n - a - l = Suc (n - a - l)" using Cons.prems(1) by simp
    then show "Suc col mod 4 = (Suc n - a - l) mod 4" using Cons.prems(2) by (metis mod_Suc)
  qed (use Cons.prems(1) in simp)
  ultimately show ?case using Cons.prems(2) by simp
qed simp

lemma fill_tabs_plain: "9 \<notin> set s \<Longrightarrow> fill_tabs col s = s"
  by (induction s arbitrary: col) auto

text \<open>The expansion of tabs, which computes with offsets into the unexpanded text, fills every tab up to the next column that is a multiple of four, on every line; no tab is left.\<close>

theorem tabs_fill_to_columns:
  "expand_tabs s = fill_tabs 0 s \<and> 9 \<notin> set (expand_tabs s)"
proof -
  have none: "9 \<notin> set (fill_tabs col s)" for col s
    by (induction s arbitrary: col) auto
  have "js_indexOf s 9 \<ge> 0 \<longleftrightarrow> 9 \<in> set s"
  proof -
    have "js_index_from k xs c = -1 \<or> js_index_from k xs c \<ge> 0" for k and xs :: "nat list" and c
      by (induction xs arbitrary: k) auto
    then show ?thesis using js_indexOf_absent [of s 9] unfolding js_indexOf_def by force
  qed
  then have "expand_tabs s = fill_tabs 0 s"
    using expand_from_fill [of 0 0 0 0 s] fill_tabs_plain [of s 0] by (simp add: expand_tabs_def)
  then show ?thesis using none by simp
qed

section \<open>Emphasis\<close>

definition isAlphaNum :: "int \<Rightarrow> bool" where
  "isAlphaNum e \<longleftrightarrow> e \<ge> 48 \<and> e \<le> 57 \<or> e \<ge> 65 \<and> e \<le> 90 \<or> e \<ge> 97 \<and> e \<le> 122"

record delims =
  can_open :: bool
  can_close :: bool
  delim_count :: nat

function run_end :: "js \<Rightarrow> nat \<Rightarrow> nat \<Rightarrow> nat \<Rightarrow> nat" where
  "run_end src posMax l a = (if a < posMax \<and> src ! a = l then run_end src posMax l (Suc a) else a)"
  by pat_completeness auto
termination by (relation "measure (\<lambda>(src, posMax, l, a). posMax - a)") auto

declare run_end.simps [simp del]

definition scanDelims :: "js \<Rightarrow> nat \<Rightarrow> nat \<Rightarrow> delims" where
  "scanDelims src posMax t =
     (let l = src ! t;
          r = (if t > 0 then int (src ! (t - 1)) else -1);
          a = run_end src posMax l t;
          i = a - t;
          o1 = (if a < posMax then int (src ! a) else -1);
          s0 = \<not> a \<ge> posMax;
          s1 = (s0 \<and> \<not> (o1 = 32 \<or> o1 = 10));
          u1 = (\<not> (r = 32 \<or> r = 10))
      in if i \<ge> 4 then \<lparr>can_open = False, can_close = False, delim_count = i\<rparr>
         else if l = 95 then \<lparr>can_open = (s1 \<and> \<not> isAlphaNum r), can_close = (u1 \<and> \<not> isAlphaNum o1), delim_count = i\<rparr>
         else \<lparr>can_open = s1, can_close = u1, delim_count = i\<rparr>)"

lemma run_end_run:
  "a \<le> posMax \<Longrightarrow> a \<le> run_end src posMax l a \<and> run_end src posMax l a \<le> posMax \<and>
   (\<forall>i. a \<le> i \<and> i < run_end src posMax l a \<longrightarrow> src ! i = l) \<and>
   (run_end src posMax l a < posMax \<longrightarrow> src ! run_end src posMax l a \<noteq> l)"
proof (induction "posMax - a" arbitrary: a)
  case 0
  then show ?case by (subst (1 2 3 4 5) run_end.simps) simp
next
  case (Suc n)
  show ?case
  proof (cases "src ! a = l")
    case True
    moreover have "a < posMax" using Suc(2) by simp
    ultimately have "run_end src posMax l a = run_end src posMax l (Suc a)" by (subst run_end.simps) simp
    then obtain e where e: "run_end src posMax l (Suc a) = e" "run_end src posMax l a = e" by simp
    have IH: "Suc a \<le> e \<and> e \<le> posMax \<and> (\<forall>i. Suc a \<le> i \<and> i < e \<longrightarrow> src ! i = l) \<and> (e < posMax \<longrightarrow> src ! e \<noteq> l)"
      unfolding e(1) [symmetric] by (rule Suc(1)) (use Suc(2) in linarith)+
    have "src ! i = l" if "a \<le> i" "i < e" for i using IH True that by (cases "i = a") simp_all
    then show ?thesis unfolding e(2) using IH by simp
  next
    case False
    then have "run_end src posMax l a = a" by (subst run_end.simps) simp
    then show ?thesis using False Suc.prems by simp
  qed
qed

text \<open>The marks that are counted are a run of the same character; four and more neither open nor close emphasis.\<close>

lemma scanDelims_run:
  assumes "t < posMax"
  shows "\<forall>i < delim_count (scanDelims src posMax t). src ! (t + i) = src ! t"
    and "delim_count (scanDelims src posMax t) \<ge> 1"
    and "delim_count (scanDelims src posMax t) \<ge> 4 \<Longrightarrow> \<not> can_open (scanDelims src posMax t) \<and> \<not> can_close (scanDelims src posMax t)"
proof -
  have d: "delim_count (scanDelims src posMax t) = run_end src posMax (src ! t) t - t"
    by (simp add: scanDelims_def Let_def)
  show "\<forall>i < delim_count (scanDelims src posMax t). src ! (t + i) = src ! t"
  proof (intro allI impI)
    fix i
    assume "i < delim_count (scanDelims src posMax t)"
    then have "t \<le> t + i \<and> t + i < run_end src posMax (src ! t) t" unfolding d by linarith
    then show "src ! (t + i) = src ! t" using run_end_run [of t posMax src "src ! t"] assms less_imp_le_nat by blast
  qed
  have "run_end src posMax (src ! t) t = run_end src posMax (src ! t) (Suc t)" using assms by (subst run_end.simps) simp
  then show "delim_count (scanDelims src posMax t) \<ge> 1"
    using run_end_run [of "Suc t" posMax src "src ! t"] assms unfolding d by linarith
  assume "delim_count (scanDelims src posMax t) \<ge> 4"
  then have "run_end src posMax (src ! t) t - t \<ge> 4" unfolding d .
  then show "\<not> can_open (scanDelims src posMax t) \<and> \<not> can_close (scanDelims src posMax t)"
    by (simp only: scanDelims_def Let_def if_True delims.simps simp_thms)
qed

end
