(* ===== verification/Script_Modules.thy ===== *)
theory Script_Modules
  imports Script_Prelude
begin

text \<open>
  The function with which every script of the bundle loads the modules it is made of. The value of
  \<^verbatim>\<open>module.exports\<close> is a reference, of type \<open>'x\<close>; \<^verbatim>\<open>fresh\<close> gives the empty object that a module starts with. The code of a
  module is seen through what it does to modules: it sets its exports, it requires a module and goes on with
  what it gets, or with \<^const>\<open>None\<close> where it catches what is thrown, it ends or it throws.
\<close>

datatype 'x body = Finish | Throw | Export 'x "'x body" | Require nat "'x option \<Rightarrow> 'x body"

record 'x cached =
  m_exports :: 'x
  m_loaded :: bool

text \<open>The log, which the code does not keep, lists the modules whose code was started.\<close>

record 'x loader =
  l_cache :: "nat \<rightharpoonup> 'x cached"
  l_log :: "nat list"

definition set_exports :: "nat \<Rightarrow> 'x \<Rightarrow> 'x loader \<Rightarrow> 'x loader" where
  "set_exports i x s = s\<lparr>l_cache := (l_cache s)(i := map_option (\<lambda>m. m\<lparr>m_exports := x\<rparr>) (l_cache s i))\<rparr>"

definition set_loaded :: "nat \<Rightarrow> 'x loader \<Rightarrow> 'x loader" where
  "set_loaded i s = s\<lparr>l_cache := (l_cache s)(i := map_option (\<lambda>m. m\<lparr>m_loaded := True\<rparr>) (l_cache s i))\<rparr>"

text \<open>The result says whether the code ended; the outer \<^const>\<open>None\<close> is that of \<^verbatim>\<open>require\<close>.\<close>

primrec run_body :: "(nat \<Rightarrow> 'x loader \<Rightarrow> ('x option \<times> 'x loader) option) \<Rightarrow> nat \<Rightarrow> 'x body \<Rightarrow> 'x loader \<Rightarrow> (bool \<times> 'x loader) option" where
  "run_body req i Finish s = Some (True, s)"
| "run_body req i Throw s = Some (False, s)"
| "run_body req i (Export x b) s = run_body req i b (set_exports i x s)"
| "run_body req i (Require j k) s = (case req j s of None \<Rightarrow> None | Some (r, s') \<Rightarrow> run_body req i (k r) s')"

text \<open>
  \<^verbatim>\<open>require\<close> with fuel, \<^const>\<open>None\<close> where it does not suffice; the inner \<^const>\<open>None\<close> is an exception, also
  that of a number that is no module, which is in the cache by then.
\<close>

fun require :: "(nat \<rightharpoonup> 'x body) \<Rightarrow> (nat \<Rightarrow> 'x) \<Rightarrow> nat \<Rightarrow> nat \<Rightarrow> 'x loader \<Rightarrow> ('x option \<times> 'x loader) option" where
  "require e fresh 0 i s = None"
| "require e fresh (Suc fuel) i s =
     (case l_cache s i of
        Some m \<Rightarrow> Some (Some (m_exports m), s)
      | None \<Rightarrow>
          (let s1 = s\<lparr>l_cache := (l_cache s)(i \<mapsto> \<lparr>m_exports = fresh i, m_loaded = False\<rparr>)\<rparr>
           in case e i of
                None \<Rightarrow> Some (None, s1)
              | Some b \<Rightarrow>
                  (case run_body (require e fresh fuel) i b (s1\<lparr>l_log := l_log s1 @ [i]\<rparr>) of
                     None \<Rightarrow> None
                   | Some (ended, s2) \<Rightarrow>
                       if ended then (let s3 = set_loaded i s2 in Some (map_option m_exports (l_cache s3 i), s3))
                       else Some (None, s2))))"

section \<open>Every module is started once\<close>

definition log_ok :: "(nat \<rightharpoonup> 'x body) \<Rightarrow> 'x loader \<Rightarrow> bool" where
  "log_ok e s \<longleftrightarrow> distinct (l_log s) \<and> set (l_log s) = dom (l_cache s) \<inter> dom e"

text \<open>What a call leaves as it was: all that was in the cache, but for the module \<open>i\<close> whose code is running.\<close>

definition extends :: "nat option \<Rightarrow> 'x loader \<Rightarrow> 'x loader \<Rightarrow> bool" where
  "extends i s s' \<longleftrightarrow>
     (\<forall>j m. l_cache s j = Some m \<longrightarrow>
        (if i = Some j then \<exists>x. l_cache s' j = Some (m\<lparr>m_exports := x\<rparr>) else l_cache s' j = Some m)) \<and>
     (\<exists>new. l_log s' = l_log s @ new)"

lemma extends_own:
  assumes "extends (Some j) s s'" and "l_cache s j = Some m"
  shows "\<exists>x. l_cache s' j = Some (m\<lparr>m_exports := x\<rparr>)"
proof -
  have "if Some j = Some j then \<exists>x. l_cache s' j = Some (m\<lparr>m_exports := x\<rparr>) else l_cache s' j = Some m"
    using assms unfolding extends_def by blast
  then show ?thesis by simp
qed

lemma extends_dom: "extends i s s' \<Longrightarrow> dom (l_cache s) \<subseteq> dom (l_cache s')"
  by (fastforce simp: extends_def dom_def split: if_splits)

lemma cached_same: "\<exists>x. m = m\<lparr>m_exports := x\<rparr>"
  by (cases m) auto

lemma extends_refl: "extends i s s"
  by (auto simp: extends_def intro: cached_same)

lemma extends_weaken: "extends None s s' \<Longrightarrow> extends i s s'"
  by (auto simp: extends_def intro: cached_same)

lemma extends_trans:
  assumes "extends i s s'" and "extends i s' s''"
  shows "extends i s s''"
proof -
  have "if i = Some j then \<exists>x. l_cache s'' j = Some (m\<lparr>m_exports := x\<rparr>) else l_cache s'' j = Some m"
    if old: "l_cache s j = Some m" for j m
  proof (cases "i = Some j")
    case True
    then obtain x where "l_cache s' j = Some (m\<lparr>m_exports := x\<rparr>)" using extends_own [OF assms(1) [unfolded True] old] by blast
    then obtain y where "l_cache s'' j = Some (m\<lparr>m_exports := x, m_exports := y\<rparr>)"
      using extends_own [OF assms(2) [unfolded True]] by blast
    then show ?thesis using True by auto
  next
    case False
    then show ?thesis using assms old by (simp add: extends_def)
  qed
  then show ?thesis using assms by (auto simp: extends_def)
qed

definition require_ok :: "(nat \<rightharpoonup> 'x body) \<Rightarrow> nat \<Rightarrow> 'x loader \<Rightarrow> 'x option \<times> 'x loader \<Rightarrow> bool" where
  "require_ok e i s p \<longleftrightarrow>
     (case p of (r, s') \<Rightarrow> log_ok e s' \<and> extends None s s' \<and> i \<in> dom (l_cache s') \<and>
       (\<forall>x. r = Some x \<longrightarrow> (\<exists>m. l_cache s' i = Some m \<and> m_exports m = x \<and> (i \<notin> dom (l_cache s) \<longrightarrow> m_loaded m))))"

lemma set_exports_ok: "log_ok e s \<Longrightarrow> log_ok e (set_exports i x s)" "extends (Some i) s (set_exports i x s)"
  by (auto simp: log_ok_def set_exports_def extends_def domIff split: if_splits)

text \<open>A call has at most the fuel that it needs for the modules that are not in the cache.\<close>

definition missing :: "(nat \<rightharpoonup> 'x body) \<Rightarrow> 'x loader \<Rightarrow> nat" where
  "missing e s = card (dom e - dom (l_cache s))"

lemma missing_mono: "finite (dom e) \<Longrightarrow> dom (l_cache s) \<subseteq> dom (l_cache s') \<Longrightarrow> missing e s' \<le> missing e s"
  unfolding missing_def by (rule card_mono) auto

lemma run_body_ok:
  assumes "finite (dom e)"
    and "\<And>j s. log_ok e s \<Longrightarrow> missing e s < n \<Longrightarrow> \<exists>p. req j s = Some p \<and> require_ok e j s p"
  shows "log_ok e s \<Longrightarrow> missing e s < n \<Longrightarrow> \<exists>r s'. run_body req i b s = Some (r, s') \<and> log_ok e s' \<and> extends (Some i) s s'"
proof (induction b arbitrary: s)
  case (Export x b)
  have "missing e (set_exports i x s) \<le> missing e s"
    using assms(1) extends_dom [OF set_exports_ok(2)] by (intro missing_mono)
  then obtain r s' where "run_body req i b (set_exports i x s) = Some (r, s')" "log_ok e s'" "extends (Some i) (set_exports i x s) s'"
    using Export.IH [of "set_exports i x s"] set_exports_ok(1) Export.prems by (metis order_le_less_trans)
  then show ?case using extends_trans [OF set_exports_ok(2)] by auto
next
  case (Require j k)
  obtain r s1 where req: "req j s = Some (r, s1)" "require_ok e j s (r, s1)" using assms(2) [OF Require.prems, of j] by auto
  then have ok: "log_ok e s1" "extends None s s1" by (simp_all add: require_ok_def)
  then have "missing e s1 < n" using Require.prems(2) missing_mono [OF assms(1) extends_dom] by (metis order_le_less_trans)
  then obtain r' s' where "run_body req i (k r) s1 = Some (r', s')" "log_ok e s'" "extends (Some i) s1 s'"
    using Require.IH [of "k r" s1] ok(1) by auto
  then show ?case using req(1) extends_trans [OF extends_weaken [OF ok(2)]] by auto
qed (auto simp: extends_refl)

lemma require_ok:
  assumes "finite (dom e)"
  shows "log_ok e s \<Longrightarrow> missing e s < fuel \<Longrightarrow> \<exists>p. require e fresh fuel i s = Some p \<and> require_ok e i s p"
proof (induction fuel arbitrary: i s)
  case (Suc fuel)
  show ?case
  proof (cases "l_cache s i")
    case (Some m)
    then show ?thesis using Suc.prems(1) by (auto simp: require_ok_def extends_refl domIff)
  next
    case None
    let ?s1 = "s\<lparr>l_cache := (l_cache s)(i \<mapsto> \<lparr>m_exports = fresh i, m_loaded = False\<rparr>)\<rparr>"
    have ext: "extends None s ?s1" using None by (auto simp: extends_def)
    show ?thesis
    proof (cases "e i")
      case none: None
      have "log_ok e ?s1" using Suc.prems(1) none by (auto simp: log_ok_def)
      then show ?thesis using None none ext by (simp add: require_ok_def Let_def)
    next
      case (Some b)
      let ?s2 = "?s1\<lparr>l_log := l_log ?s1 @ [i]\<rparr>"
      have log: "log_ok e ?s2" using Suc.prems(1) None Some by (auto simp: log_ok_def domIff)
      have "dom e - dom (l_cache ?s2) = (dom e - dom (l_cache s)) - {i}" by auto
      moreover have "i \<in> dom e - dom (l_cache s)" using None Some by auto
      ultimately have "missing e ?s2 < missing e s"
        unfolding missing_def using assms by (metis card_Diff1_less finite_Diff)
      then have less: "missing e ?s2 < fuel" using Suc.prems(2) by simp
      obtain ended s' where run: "run_body (require e fresh fuel) i b ?s2 = Some (ended, s')" "log_ok e s'" "extends (Some i) ?s2 s'"
        using run_body_ok [OF assms Suc.IH log less] by blast
      have "l_cache s' j = Some m" if "l_cache s j = Some m" for j m
      proof -
        have "j \<noteq> i" using None that by auto
        then show ?thesis using run(3) that by (simp add: extends_def)
      qed
      then have old: "extends None s s'" using run(3) by (auto simp: extends_def)
      obtain x where x: "l_cache s' i = Some \<lparr>m_exports = x, m_loaded = False\<rparr>" using extends_own [OF run(3)] by auto
      have loaded: "log_ok e (set_loaded i s')" "extends None s (set_loaded i s')"
        using run(2) old None x by (auto simp: log_ok_def set_loaded_def extends_def domIff split: if_splits)
      show ?thesis
        using None Some run(1,2) old x loaded by (auto simp: require_ok_def Let_def set_loaded_def)
    qed
  qed
qed simp

text \<open>C30: Loading a module of a finite bundle ends, however the modules require each other, in circles too: then the code of
  every module that is in the cache was started exactly once; what was in the cache before is unchanged, and
  a module that is returned and was not being loaded already has been loaded to its end.
\<close>

theorem modules_are_loaded_once:
  assumes "finite (dom e)" and "distinct (l_log s) \<and> set (l_log s) = dom (l_cache s) \<inter> dom e"
    and "card (dom e - dom (l_cache s)) < fuel"
  shows "\<exists>r s'. require e fresh fuel i s = Some (r, s') \<and>
    distinct (l_log s') \<and> set (l_log s') = dom (l_cache s') \<inter> dom e \<and>
    (\<forall>j \<in> dom (l_cache s). l_cache s' j = l_cache s j) \<and>
    (\<forall>x. r = Some x \<longrightarrow> (\<exists>m. l_cache s' i = Some m \<and> m_exports m = x \<and> (i \<notin> dom (l_cache s) \<longrightarrow> m_loaded m)))"
proof -
  obtain r s' where r: "require e fresh fuel i s = Some (r, s')" "require_ok e i s (r, s')"
    using require_ok [OF assms(1), of s fuel fresh i] assms(2,3) by (auto simp: log_ok_def missing_def)
  have "\<forall>j \<in> dom (l_cache s). l_cache s' j = l_cache s j"
    using r(2) by (auto simp: require_ok_def extends_def)
  then show ?thesis using r unfolding require_ok_def log_ok_def prod.case by blast
qed

text \<open>Two modules that require each other.\<close>

theorem modules_are_loaded_once_witness:
  "\<exists>r s'. require [0 \<mapsto> Require 1 (\<lambda>_. Export 10 Finish), 1 \<mapsto> Require 0 (\<lambda>_. Export (11::nat) Finish)] (\<lambda>i. i) 3 0
     \<lparr>l_cache = Map.empty, l_log = []\<rparr> = Some (r, s') \<and> distinct (l_log s')"
  using modules_are_loaded_once [of "[0 \<mapsto> Require 1 (\<lambda>_. Export 10 Finish), 1 \<mapsto> Require 0 (\<lambda>_. Export (11::nat) Finish)]"
      "\<lparr>l_cache = Map.empty, l_log = []\<rparr>" 3 "\<lambda>i. i" 0]
  by fastforce

text \<open>A number that is no module throws when it is required first, and gives an empty object from then on.\<close>

lemma unknown_module_throws_once:
  assumes "e i = None" and "l_cache s i = None"
  shows "\<exists>s'. require e fresh (Suc n) i s = Some (None, s') \<and> require e fresh (Suc n) i s' = Some (Some (fresh i), s')"
  using assms by (simp add: Let_def)

end
