(* ===== verification/Script_Generators.thy ===== *)
theory Script_Generators
  imports Script_Prelude
begin

text \<open>
  The context of a generator in regenerator-runtime: the table of the try statements of the function it
  was compiled from, and what throwing, leaving a statement and ending a \<^verbatim>\<open>finally\<close> block do. A location is a
  number, a missing value (\<^verbatim>\<open>undefined\<close>) is \<^const>\<open>None\<close>. The entry \<^verbatim>\<open>root\<close> is the first of every try_table.
\<close>

datatype location = Loc nat | End

datatype completion_type = Normal | Break | Continue | Return | Throw

text \<open>What a completion carries: a value, or the location that \<^verbatim>\<open>break\<close> and \<^verbatim>\<open>continue\<close> go to.\<close>

datatype 'v carried = Undefined | Value 'v | Target nat

record 'v completion =
  c_type :: completion_type
  c_arg :: "'v carried"

record 'v entry =
  tryLoc :: "nat option"
  catchLoc :: "nat option"
  finallyLoc :: "nat option"
  afterLoc :: "nat option"
  completion :: "'v completion"

datatype gmethod = MNext | MThrow | MReturn

record 'v gcontext =
  x_prev :: nat
  x_next :: location
  x_done :: bool
  x_method :: gmethod
  x_arg :: "'v carried"
  x_rval :: "'v carried"
  x_entries :: "'v entry list"

text \<open>An exception leaves the operation with a value, or with an error that the runtime makes.\<close>

datatype 'v raised = Thrown "'v carried" | RuntimeError string

definition pushTryEntry :: "nat option list \<Rightarrow> 'v entry" where
  "pushTryEntry e =
     \<lparr>tryLoc = (case js_at e 0 of Some l \<Rightarrow> l | None \<Rightarrow> None),
      catchLoc = (case js_at e 1 of Some l \<Rightarrow> l | None \<Rightarrow> None),
      finallyLoc = (case js_at e 2 of Some l \<Rightarrow> l | None \<Rightarrow> None),
      afterLoc = (case js_at e 2 of Some (Some _) \<Rightarrow> (case js_at e 3 of Some l \<Rightarrow> l | None \<Rightarrow> None) | _ \<Rightarrow> None),
      completion = \<lparr>c_type = Normal, c_arg = Undefined\<rparr>\<rparr>"

definition root_entry :: "'v entry" where
  "root_entry = \<lparr>tryLoc = None, catchLoc = None, finallyLoc = None, afterLoc = None, completion = \<lparr>c_type = Normal, c_arg = Undefined\<rparr>\<rparr>"

definition reset_entry :: "'v entry \<Rightarrow> 'v entry" where
  "reset_entry e = e\<lparr>completion := \<lparr>c_type = Normal, c_arg = Undefined\<rparr>\<rparr>"

definition new_context :: "nat option list list \<Rightarrow> 'v gcontext" where
  "new_context e =
     \<lparr>x_prev = 0, x_next = Loc 0, x_done = False, x_method = MNext, x_arg = Undefined, x_rval = Undefined,
      x_entries = map reset_entry (root_entry # map pushTryEntry e)\<rparr>"

definition stop :: "'v gcontext \<Rightarrow> ('v raised + 'v carried) \<times> 'v gcontext" where
  "stop x =
     (let x1 = x\<lparr>x_done := True\<rparr>; t = completion (hd (x_entries x))
      in (if c_type t = Throw then Inl (Thrown (c_arg t)) else Inr (x_rval x), x1))"

definition set_completion :: "nat \<Rightarrow> 'v completion \<Rightarrow> 'v gcontext \<Rightarrow> 'v gcontext" where
  "set_completion k c x = x\<lparr>x_entries := (x_entries x)[k := (x_entries x ! k)\<lparr>completion := c\<rparr>]\<rparr>"

section \<open>Throwing\<close>

definition handle :: "nat \<Rightarrow> 'v carried \<Rightarrow> location \<Rightarrow> bool \<Rightarrow> 'v gcontext \<Rightarrow> ('v raised + bool) \<times> 'v gcontext" where
  "handle k e l caught x =
     (let x1 = (set_completion k \<lparr>c_type = Throw, c_arg = e\<rparr> x)\<lparr>x_next := l\<rparr>
      in (Inr caught, if caught then x1\<lparr>x_method := MNext, x_arg := Undefined\<rparr> else x1))"

text \<open>The entries below position \<open>k\<close>, from the last one down; nothing is returned where there is none left.\<close>

fun dispatch_from :: "nat \<Rightarrow> 'v carried \<Rightarrow> 'v gcontext \<Rightarrow> ('v raised + bool) \<times> 'v gcontext" where
  "dispatch_from 0 e x = (Inr False, x)"
| "dispatch_from (Suc k) e x =
     (let o1 = x_entries x ! k in
      case tryLoc o1 of
        None \<Rightarrow> handle k e End False x
      | Some t \<Rightarrow>
          if t \<le> x_prev x then
            (case (catchLoc o1, finallyLoc o1) of
               (Some a, Some s) \<Rightarrow>
                 if x_prev x < a then handle k e (Loc a) True x
                 else if x_prev x < s then handle k e (Loc s) False x
                 else dispatch_from k e x
             | (Some a, None) \<Rightarrow> if x_prev x < a then handle k e (Loc a) True x else dispatch_from k e x
             | (None, None) \<Rightarrow> (Inl (RuntimeError ''try statement without catch or finally''), x)
             | (None, Some s) \<Rightarrow> if x_prev x < s then handle k e (Loc s) False x else dispatch_from k e x)
          else dispatch_from k e x)"

definition dispatchException :: "'v carried \<Rightarrow> 'v gcontext \<Rightarrow> ('v raised + bool) \<times> 'v gcontext" where
  "dispatchException e x =
     (if x_done x then (Inl (Thrown e), x) else dispatch_from (length (x_entries x)) e x)"

section \<open>Leaving a statement\<close>

definition complete :: "'v completion \<Rightarrow> nat option \<Rightarrow> 'v gcontext \<Rightarrow> ('v raised + unit) \<times> 'v gcontext" where
  "complete e t x =
     (case c_type e of
        Throw \<Rightarrow> (Inl (Thrown (c_arg e)), x)
      | Return \<Rightarrow> (Inr (), x\<lparr>x_rval := c_arg e, x_arg := c_arg e, x_method := MReturn, x_next := End\<rparr>)
      | Normal \<Rightarrow> (Inr (), case t of Some l \<Rightarrow> if l \<noteq> 0 then x\<lparr>x_next := Loc l\<rparr> else x | None \<Rightarrow> x)
      | _ \<Rightarrow> (Inr (), case c_arg e of Target l \<Rightarrow> x\<lparr>x_next := Loc l\<rparr> | _ \<Rightarrow> x))"

definition leaves :: "nat \<Rightarrow> 'v entry \<Rightarrow> bool" where
  "leaves prev r \<longleftrightarrow>
     (case (tryLoc r, finallyLoc r) of (Some t, Some s) \<Rightarrow> t \<le> prev \<and> prev < s | _ \<Rightarrow> False)"

text \<open>The last position of an entry that satisfies a condition.\<close>

fun last_entry :: "('v entry \<Rightarrow> bool) \<Rightarrow> nat \<Rightarrow> 'v entry list \<Rightarrow> nat option" where
  "last_entry P 0 es = None"
| "last_entry P (Suc k) es = (if P (es ! k) then Some k else last_entry P k es)"

definition abrupt :: "completion_type \<Rightarrow> 'v carried \<Rightarrow> 'v gcontext \<Rightarrow> ('v raised + unit) \<times> 'v gcontext" where
  "abrupt e t x =
     (let o1 = last_entry (leaves (x_prev x)) (length (x_entries x)) (x_entries x);
          inside = (\<lambda>k. (e = Break \<or> e = Continue) \<and>
            (case (t, tryLoc (x_entries x ! k), finallyLoc (x_entries x ! k)) of
               (Target l, Some a, Some s) \<Rightarrow> a \<le> l \<and> l \<le> s | _ \<Rightarrow> False));
          i = \<lparr>c_type = e, c_arg = t\<rparr>
      in case o1 of
           None \<Rightarrow> complete i None x
         | Some k \<Rightarrow>
             if inside k then complete i None x
             else (Inr (), (set_completion k i x)\<lparr>x_method := MNext,
                     x_next := (case finallyLoc (x_entries x ! k) of Some s \<Rightarrow> Loc s | None \<Rightarrow> End)\<rparr>))"

text \<open>\<^verbatim>\<open>finish\<close> returns nothing (the second \<^const>\<open>None\<close>) where there is no such \<^verbatim>\<open>finally\<close> block.\<close>

definition finish :: "nat \<Rightarrow> 'v gcontext \<Rightarrow> ('v raised + unit option) \<times> 'v gcontext" where
  "finish l x =
     (case last_entry (\<lambda>n. finallyLoc n = Some l) (length (x_entries x)) (x_entries x) of
        None \<Rightarrow> (Inr None, x)
      | Some k \<Rightarrow>
          (case complete (completion (x_entries x ! k)) (afterLoc (x_entries x ! k)) x of
             (Inl err, x1) \<Rightarrow> (Inl err, x1)
           | (Inr _, x1) \<Rightarrow> (Inr (Some ()), set_completion k \<lparr>c_type = Normal, c_arg = Undefined\<rparr> x1)))"

definition catch_entry :: "nat \<Rightarrow> 'v gcontext \<Rightarrow> ('v raised + 'v carried) \<times> 'v gcontext" where
  "catch_entry l x =
     (case last_entry (\<lambda>n. tryLoc n = Some l) (length (x_entries x)) (x_entries x) of
        None \<Rightarrow> (Inl (RuntimeError ''illegal catch attempt''), x)
      | Some k \<Rightarrow>
          (let r = completion (x_entries x ! k)
           in if c_type r = Throw then (Inr (c_arg r), set_completion k \<lparr>c_type = Normal, c_arg = Undefined\<rparr> x)
              else (Inr Undefined, x)))"

section \<open>The statements behind the table\<close>

text \<open>
  A function body as the compiler lays it out: \<open>Code n\<close> has \<open>n\<close> locations, the parts of a statement follow each
  other. The table has one entry for each \<^verbatim>\<open>try\<close>, outer ones before inner ones.
\<close>

datatype prog = Code nat | Seq prog prog | TryCatch prog prog | TryFinally prog prog | TryBoth prog prog prog

fun psize :: "prog \<Rightarrow> nat" where
  "psize (Code n) = n"
| "psize (Seq p q) = psize p + psize q"
| "psize (TryCatch b c) = psize b + psize c"
| "psize (TryFinally b f) = psize b + psize f"
| "psize (TryBoth b c f) = psize b + psize c + psize f"

fun try_table :: "nat \<Rightarrow> prog \<Rightarrow> nat option list list" where
  "try_table l (Code n) = []"
| "try_table l (Seq p q) = try_table l p @ try_table (l + psize p) q"
| "try_table l (TryCatch b c) = [Some l, Some (l + psize b)] # try_table l b @ try_table (l + psize b) c"
| "try_table l (TryFinally b f) =
     [Some l, None, Some (l + psize b), Some (l + psize b + psize f)] # try_table l b @ try_table (l + psize b) f"
| "try_table l (TryBoth b c f) =
     [Some l, Some (l + psize b), Some (l + psize b + psize c), Some (l + psize b + psize c + psize f)] #
     try_table l b @ try_table (l + psize b) c @ try_table (l + psize b + psize c) f"

text \<open>Where an exception at a location goes, and whether it is caught; the \<^verbatim>\<open>finally\<close> block that leaving it must run.\<close>

definition orelse :: "'a option \<Rightarrow> 'a option \<Rightarrow> 'a option" where
  "orelse x y = (case x of Some a \<Rightarrow> Some a | None \<Rightarrow> y)"

fun handler :: "nat \<Rightarrow> prog \<Rightarrow> nat \<Rightarrow> (nat \<times> bool) option" where
  "handler l (Code n) v = None"
| "handler l (Seq p q) v = (if v < l + psize p then handler l p v else handler (l + psize p) q v)"
| "handler l (TryCatch b c) v =
     (if v < l + psize b then orelse (handler l b v) (Some (l + psize b, True)) else handler (l + psize b) c v)"
| "handler l (TryFinally b f) v =
     (if v < l + psize b then orelse (handler l b v) (Some (l + psize b, False)) else handler (l + psize b) f v)"
| "handler l (TryBoth b c f) v =
     (if v < l + psize b then orelse (handler l b v) (Some (l + psize b, True))
      else if v < l + psize b + psize c then orelse (handler (l + psize b) c v) (Some (l + psize b + psize c, False))
      else handler (l + psize b + psize c) f v)"

fun finally_of :: "nat \<Rightarrow> prog \<Rightarrow> nat \<Rightarrow> nat option" where
  "finally_of l (Code n) v = None"
| "finally_of l (Seq p q) v = (if v < l + psize p then finally_of l p v else finally_of (l + psize p) q v)"
| "finally_of l (TryCatch b c) v = (if v < l + psize b then finally_of l b v else finally_of (l + psize b) c v)"
| "finally_of l (TryFinally b f) v =
     (if v < l + psize b then orelse (finally_of l b v) (Some (l + psize b)) else finally_of (l + psize b) f v)"
| "finally_of l (TryBoth b c f) v =
     (if v < l + psize b then orelse (finally_of l b v) (Some (l + psize b + psize c))
      else if v < l + psize b + psize c then orelse (finally_of (l + psize b) c v) (Some (l + psize b + psize c))
      else finally_of (l + psize b + psize c) f v)"

section \<open>Searching the table\<close>

text \<open>What one entry has to say about a location, and the last entry that has something to say.\<close>

definition entry_handler :: "nat \<Rightarrow> 'v entry \<Rightarrow> (nat \<times> bool) option" where
  "entry_handler v o1 =
     (case tryLoc o1 of
        None \<Rightarrow> None
      | Some t \<Rightarrow>
          if t \<le> v then
            orelse (case catchLoc o1 of Some a \<Rightarrow> if v < a then Some (a, True) else None | None \<Rightarrow> None)
              (case finallyLoc o1 of Some s \<Rightarrow> if v < s then Some (s, False) else None | None \<Rightarrow> None)
          else None)"

definition entry_finally :: "nat \<Rightarrow> 'v entry \<Rightarrow> nat option" where
  "entry_finally v o1 = (if leaves v o1 then finallyLoc o1 else None)"

fun last_of :: "('a \<Rightarrow> 'b option) \<Rightarrow> 'a list \<Rightarrow> 'b option" where
  "last_of f [] = None"
| "last_of f (x # xs) = orelse (last_of f xs) (f x)"

lemma orelse_simps [simp]: "orelse None y = y" "orelse (Some a) y = Some a" "orelse x None = x"
  by (auto simp: orelse_def split: option.split)

lemma orelse_assoc: "orelse (orelse x y) z = orelse x (orelse y z)"
  by (cases x) simp_all

lemma last_of_append: "last_of f (xs @ ys) = orelse (last_of f ys) (last_of f xs)"
  by (induction xs) (simp_all add: orelse_assoc)

lemma last_of_None: "(\<And>x. x \<in> set xs \<Longrightarrow> f x = None) \<Longrightarrow> last_of f xs = None"
  by (induction xs) auto

definition try_entries :: "nat \<Rightarrow> prog \<Rightarrow> 'v entry list" where
  "try_entries l p = map pushTryEntry (try_table l p)"

lemma entries_simps [simp]:
  "try_entries l (Code n) = []"
  "try_entries l (Seq p q) = try_entries l p @ try_entries (l + psize p) q"
  "try_entries l (TryCatch b c) =
     \<lparr>tryLoc = Some l, catchLoc = Some (l + psize b), finallyLoc = None, afterLoc = None, completion = \<lparr>c_type = Normal, c_arg = Undefined\<rparr>\<rparr>
     # try_entries l b @ try_entries (l + psize b) c"
  "try_entries l (TryFinally b f) =
     \<lparr>tryLoc = Some l, catchLoc = None, finallyLoc = Some (l + psize b), afterLoc = Some (l + psize b + psize f),
      completion = \<lparr>c_type = Normal, c_arg = Undefined\<rparr>\<rparr> # try_entries l b @ try_entries (l + psize b) f"
  "try_entries l (TryBoth b c f) =
     \<lparr>tryLoc = Some l, catchLoc = Some (l + psize b), finallyLoc = Some (l + psize b + psize c),
      afterLoc = Some (l + psize b + psize c + psize f), completion = \<lparr>c_type = Normal, c_arg = Undefined\<rparr>\<rparr>
     # try_entries l b @ try_entries (l + psize b) c @ try_entries (l + psize b + psize c) f"
  by (simp_all add: try_entries_def pushTryEntry_def js_at_def numeral_3_eq_3)

text \<open>An entry speaks of the locations of its own statement only.\<close>

lemma entries_range:
  "x \<in> set (try_entries l p) \<Longrightarrow>
   (\<exists>t. tryLoc x = Some t \<and> l \<le> t) \<and> (\<forall>a. catchLoc x = Some a \<longrightarrow> a \<le> l + psize p) \<and>
   (\<forall>s. finallyLoc x = Some s \<longrightarrow> s \<le> l + psize p) \<and> (catchLoc x \<noteq> None \<or> finallyLoc x \<noteq> None)"
  by (induction p arbitrary: l) (auto; fastforce)+

lemma entries_outside:
  assumes "v < l \<or> l + psize p \<le> v"
  shows "last_of (entry_handler v) (try_entries l p :: 'v entry list) = None" "last_of (entry_finally v) (try_entries l p :: 'v entry list) = None"
proof -
  have "entry_handler v x = None \<and> entry_finally v x = None" if "x \<in> set (try_entries l p)" for x :: "'v entry"
    using entries_range [OF that] assms
    by (auto simp: entry_handler_def entry_finally_def leaves_def split: option.splits)
  then show "last_of (entry_handler v) (try_entries l p :: 'v entry list) = None" "last_of (entry_finally v) (try_entries l p :: 'v entry list) = None"
    by (auto intro: last_of_None)
qed

lemma entries_handler: "l \<le> v \<Longrightarrow> v < l + psize p \<Longrightarrow> last_of (entry_handler v) (try_entries l p) = handler l p v"
  by (induction p arbitrary: l) (simp_all add: last_of_append entries_outside entry_handler_def)

lemma entries_finally: "l \<le> v \<Longrightarrow> v < l + psize p \<Longrightarrow> last_of (entry_finally v) (try_entries l p) = finally_of l p v"
  by (induction p arbitrary: l) (simp_all add: last_of_append entries_outside entry_finally_def leaves_def)

section \<open>Exceptions and returns find the innermost statement\<close>

definition well_formed :: "'v entry list \<Rightarrow> bool" where
  "well_formed es \<longleftrightarrow> (\<forall>e \<in> set es. tryLoc e \<noteq> None \<and> (catchLoc e \<noteq> None \<or> finallyLoc e \<noteq> None))"

lemma dispatch_from_last:
  assumes "x_entries x = r # es" and "tryLoc r = None" and "well_formed es"
  shows "k \<le> length es \<Longrightarrow>
    (case last_of (entry_handler (x_prev x)) (take k es) of
       None \<Rightarrow> dispatch_from (Suc k) e x = handle 0 e End False x
     | Some (h, c) \<Rightarrow> \<exists>j. dispatch_from (Suc k) e x = handle j e (Loc h) c x)"
proof (induction k)
  case 0
  then show ?case using assms(1,2) by (simp add: Let_def)
next
  case (Suc k)
  let ?e = "es ! k"
  have wf: "tryLoc ?e \<noteq> None" "catchLoc ?e \<noteq> None \<or> finallyLoc ?e \<noteq> None"
    using assms(3) Suc.prems by (simp_all add: well_formed_def)
  have take: "take (Suc k) es = take k es @ [?e]" using Suc.prems by (simp add: take_Suc_conv_app_nth)
  have step: "dispatch_from (Suc (Suc k)) e x =
      (case entry_handler (x_prev x) ?e of Some (h, c) \<Rightarrow> handle (Suc k) e (Loc h) c x | None \<Rightarrow> dispatch_from (Suc k) e x)"
    using wf assms(1) by (auto simp: entry_handler_def Let_def split: option.split)
  show ?case
  proof (cases "entry_handler (x_prev x) ?e")
    case None
    then have same: "dispatch_from (Suc (Suc k)) e x = dispatch_from (Suc k) e x" unfolding step by simp
    show ?thesis using Suc.IH Suc.prems None unfolding take last_of_append same by (simp del: dispatch_from.simps)
  next
    case (Some hc)
    then show ?thesis using step unfolding take last_of_append by (cases hc) (auto simp del: dispatch_from.simps)
  qed
qed

lemma last_entry_finally:
  "k \<le> length es \<Longrightarrow>
   last_of (entry_finally v) (take k es) = (case last_entry (leaves v) k es of None \<Rightarrow> None | Some j \<Rightarrow> finallyLoc (es ! j))"
proof (induction k)
  case (Suc k)
  have "take (Suc k) es = take k es @ [es ! k]" using Suc.prems by (simp add: take_Suc_conv_app_nth)
  moreover have "leaves v (es ! k) \<Longrightarrow> finallyLoc (es ! k) \<noteq> None" by (auto simp: leaves_def split: option.splits)
  ultimately show ?case using Suc by (auto simp: last_of_append entry_finally_def)
qed simp

lemma last_entry_leaves: "last_entry P k es = Some j \<Longrightarrow> P (es ! j)"
  by (induction k) (auto split: if_splits)

lemma reset_entry_simps [simp]:
  "tryLoc (reset_entry o1) = tryLoc o1" "catchLoc (reset_entry o1) = catchLoc o1" "finallyLoc (reset_entry o1) = finallyLoc o1"
  by (simp_all add: reset_entry_def)

lemma reset_entry_says: "entry_handler v (reset_entry o1) = entry_handler v o1" "entry_finally v (reset_entry o1) = entry_finally v o1"
  unfolding entry_handler_def entry_finally_def leaves_def reset_entry_simps by (rule refl)+

lemma last_of_reset: "last_of (entry_handler v) (map reset_entry es) = last_of (entry_handler v) es"
    "last_of (entry_finally v) (map reset_entry es) = last_of (entry_finally v) es"
  by (induction es) (simp_all add: reset_entry_says)

text \<open>The context of a body, at any point of its execution.\<close>

definition context_of :: "prog \<Rightarrow> 'v gcontext \<Rightarrow> bool" where
  "context_of p x \<longleftrightarrow> map reset_entry (x_entries x) = x_entries (new_context (try_table 0 p) :: 'v gcontext)"

lemma context_of_entries:
  assumes "context_of p x"
  shows "\<exists>r es. x_entries x = r # es \<and> tryLoc r = None \<and> well_formed es \<and>
    (\<forall>v < psize p. last_of (entry_handler v) es = handler 0 p v \<and> last_of (entry_finally v) es = finally_of 0 p v)"
proof -
  have m: "map reset_entry (x_entries x) = reset_entry root_entry # map reset_entry (try_entries 0 p)"
    using assms by (simp add: context_of_def new_context_def try_entries_def)
  then obtain r es where x: "x_entries x = r # es" "reset_entry r = reset_entry root_entry"
    "map reset_entry es = map reset_entry (try_entries 0 p)" by auto
  have "tryLoc r = tryLoc (reset_entry r)" by (simp add: reset_entry_def)
  then have r: "tryLoc r = None" unfolding x(2) by (simp add: reset_entry_def root_entry_def)
  have "well_formed (map reset_entry es)"
    unfolding x(3) using entries_range [of _ 0 p] by (auto simp: well_formed_def reset_entry_def)
  then have "well_formed es" by (simp add: well_formed_def reset_entry_def)
  moreover have "last_of (entry_handler v) es = handler 0 p v \<and> last_of (entry_finally v) es = finally_of 0 p v" if "v < psize p" for v
    using entries_handler [of 0 v p] entries_finally [of 0 v p] that
    unfolding last_of_reset [of v es, symmetric] x(3) last_of_reset by simp
  ultimately show ?thesis using x(1) r by blast
qed

text \<open>C29: In a compiled generator an exception goes to the handler of the innermost \<^verbatim>\<open>try\<close> around it, to the \<^verbatim>\<open>catch\<close> block before
  the \<^verbatim>\<open>finally\<close> block, and out of a \<^verbatim>\<open>catch\<close> block to its own \<^verbatim>\<open>finally\<close>; a \<^verbatim>\<open>return\<close> goes through the innermost \<^verbatim>\<open>finally\<close> block
  around it. Without one, both end the generator, with the completion recorded for it.
\<close>

theorem exceptions_find_innermost_handler:
  assumes "context_of p x" and "\<not> x_done x" and "x_prev x < psize p"
  shows "(\<exists>k. dispatchException e x =
      (case handler 0 p (x_prev x) of Some (h, c) \<Rightarrow> handle k e (Loc h) c x | None \<Rightarrow> handle 0 e End False x)) \<and>
    x_next (snd (abrupt Return t x)) = (case finally_of 0 p (x_prev x) of Some s \<Rightarrow> Loc s | None \<Rightarrow> End) \<and>
    (finally_of 0 p (x_prev x) = None \<longrightarrow> x_rval (snd (abrupt Return t x)) = t)"
proof -
  obtain r es where es: "x_entries x = r # es" "tryLoc r = None" "well_formed es"
    and last: "last_of (entry_handler (x_prev x)) es = handler 0 p (x_prev x)"
      "last_of (entry_finally (x_prev x)) es = finally_of 0 p (x_prev x)"
    using context_of_entries [OF assms(1)] assms(3) by auto
  have d: "dispatchException e x = dispatch_from (Suc (length es)) e x" using assms(2) es(1) by (simp add: dispatchException_def del: dispatch_from.simps)
  have "\<exists>k. dispatchException e x =
      (case handler 0 p (x_prev x) of Some (h, c) \<Rightarrow> handle k e (Loc h) c x | None \<Rightarrow> handle 0 e End False x)"
    using dispatch_from_last [OF es, of "length es" e] unfolding d last take_all [OF order_refl]
    by (auto split: option.splits simp del: dispatch_from.simps)
  moreover have "entry_finally (x_prev x) r = None" using es(2) by (simp add: entry_finally_def leaves_def)
  then have "(case last_entry (leaves (x_prev x)) (length (x_entries x)) (x_entries x) of None \<Rightarrow> None | Some j \<Rightarrow> finallyLoc (x_entries x ! j)) =
      finally_of 0 p (x_prev x)"
    using last_entry_finally [of "length (x_entries x)" "x_entries x" "x_prev x"] last(2) es(1) by simp
  then have "x_next (snd (abrupt Return t x)) = (case finally_of 0 p (x_prev x) of Some s \<Rightarrow> Loc s | None \<Rightarrow> End) \<and>
      (finally_of 0 p (x_prev x) = None \<longrightarrow> x_rval (snd (abrupt Return t x)) = t)"
    using last_entry_leaves [of "leaves (x_prev x)" "length (x_entries x)" "x_entries x"]
    by (auto simp: abrupt_def complete_def Let_def leaves_def split: option.splits)
  ultimately show ?thesis by blast
qed

text \<open>A \<^verbatim>\<open>try\<close> with \<^verbatim>\<open>catch\<close> and \<^verbatim>\<open>finally\<close> in the block of another: thrown from the inner \<^verbatim>\<open>catch\<close> block.\<close>

theorem exceptions_find_innermost_handler_witness:
  "let p = TryCatch (Seq (Code 2) (TryBoth (Code 3) (Code 2) (Code 2))) (Code 2);
       x = (new_context (try_table 0 p) :: nat gcontext)\<lparr>x_prev := 5\<rparr>
   in x_next (snd (dispatchException (Value 9) x)) = Loc 7 \<and> fst (dispatchException (Value 9) x) = Inr False"
proof -
  let ?p = "TryCatch (Seq (Code 2) (TryBoth (Code 3) (Code 2) (Code 2))) (Code 2)"
  let ?x = "(new_context (try_table 0 ?p) :: nat gcontext)\<lparr>x_prev := 5\<rparr>"
  have "context_of ?p ?x" by (simp add: context_of_def new_context_def reset_entry_def pushTryEntry_def)
  moreover have "handler 0 ?p 5 = Some (7, False)" "\<not> x_done ?x" "x_prev ?x = 5" "psize ?p = 11" by (simp_all add: new_context_def)
  ultimately obtain k where "dispatchException (Value 9) ?x = handle k (Value 9) (Loc 7) False ?x"
    using exceptions_find_innermost_handler [of ?p ?x "Value 9" Undefined] by auto
  then show ?thesis by (simp add: handle_def Let_def)
qed

end
