(* ===== verification/Script_Extend.thy ===== *)
theory Script_Extend
  imports Script_State
begin

text \<open>
  deep-extend: the properties of the sources go into the target, objects into objects. Values are finite trees. An object,
  an array or an instance (of \<^verbatim>\<open>Buffer\<close>, \<^verbatim>\<open>Date\<close> or \<^verbatim>\<open>RegExp\<close>, with its content) that exists before the
  call carries the number it is known by; what the call makes has none. \<open>'p\<close> are the primitive values and functions;
  an array can have holes. Objects have the prototype \<^verbatim>\<open>Object.prototype\<close>, whose properties are functions but for
  \<^verbatim>\<open>__proto__\<close>. The target is an object. A run is followed up to the point where it writes into a prototype, gives
  an object another one, or writes into an instance.
\<close>

datatype 'p dv =
    Prim 'p
  | Null
  | Arr "nat option" "'p dv option list"
  | Obj "nat option" "(js \<times> 'p dv) list"
  | Inst "nat option" 'p "(js \<times> 'p dv) list"

definition ident_of :: "'p dv \<Rightarrow> nat option" where
  "ident_of v = (case v of Arr i _ \<Rightarrow> i | Obj i _ \<Rightarrow> i | Inst i _ _ \<Rightarrow> i | _ \<Rightarrow> None)"

definition props :: "'p dv \<Rightarrow> (js \<times> 'p dv) list" where
  "props v = (case v of Obj _ ps \<Rightarrow> ps | Inst _ _ ps \<Rightarrow> ps | _ \<Rightarrow> [])"

definition proto_key :: js where
  "proto_key = lit ''__proto__''"

datatype 'p ext_stop =
    Throws
  | Into_prototype "'p dv"
  | Sets_prototype "'p dv"
  | Into_instance

text \<open>\<^verbatim>\<open>a[u] = v\<close>: without a property of that name of its own \<^verbatim>\<open>a.__proto__\<close> sets the prototype.\<close>

definition set_prop :: "js \<Rightarrow> 'p dv \<Rightarrow> 'p dv \<Rightarrow> 'p ext_stop + 'p dv" where
  "set_prop u v a =
     (case a of
        Obj i ps \<Rightarrow> if u = proto_key \<and> map_of ps u = None then Inl (Sets_prototype v) else Inr (Obj i (aset u v ps))
      | _ \<Rightarrow> Inl Into_instance)"

text \<open>\<^verbatim>\<open>e === a\<close> for objects.\<close>

definition same_object :: "'p dv \<Rightarrow> 'p dv \<Rightarrow> bool" where
  "same_object e a \<longleftrightarrow> ident_of e \<noteq> None \<and> ident_of e = ident_of a"

text \<open>Elements are stored by their index, so that holes at the end are lost.\<close>

fun drop_holes :: "'a option list \<Rightarrow> 'a option list" where
  "drop_holes [] = []"
| "drop_holes (x # xs) = (case drop_holes xs of [] \<Rightarrow> (case x of None \<Rightarrow> [] | Some y \<Rightarrow> [Some y]) | ys \<Rightarrow> x # ys)"

text \<open>
  \<open>extend_props\<close> is the loop over the properties of one source, \<open>extended\<close> the value that a property gets where the target
  has \<open>t\<close> (or nothing), \<open>clone_elems\<close> the loop of \<^verbatim>\<open>deepCloneArray\<close>. \<^verbatim>\<open>t = a[u]\<close> looks through the prototype:
  for \<^verbatim>\<open>__proto__\<close> it finds \<^verbatim>\<open>Object.prototype\<close>, an object, into which an object is then merged; else it finds functions
  or nothing, which comes to the same.
\<close>

function extend_props :: "'p dv \<Rightarrow> (js \<times> 'p dv) list \<Rightarrow> 'p ext_stop + 'p dv"
  and extended :: "'p dv option \<Rightarrow> 'p dv \<Rightarrow> 'p ext_stop + 'p dv"
  and clone_elems :: "'p dv option list \<Rightarrow> 'p ext_stop + 'p dv option list" where
  "extend_props a [] = Inr a"
| "extend_props a ((u, e) # s) =
     (case if same_object e a then Inr a
           else if u = proto_key \<and> map_of (props a) u = None \<and> (\<exists>i ps. e = Obj i ps) then Inl (Into_prototype e)
           else (case extended (map_of (props a) u) e of Inl x \<Rightarrow> Inl x | Inr v \<Rightarrow> set_prop u v a) of
        Inl x \<Rightarrow> Inl x
      | Inr b \<Rightarrow> extend_props b s)"
| "extended t (Prim p) = Inr (Prim p)"
| "extended t Null = Inr Null"
| "extended t (Arr i xs) = (case clone_elems xs of Inl x \<Rightarrow> Inl x | Inr ys \<Rightarrow> Inr (Arr None (drop_holes ys)))"
| "extended t (Inst i c ps) = Inr (Inst None c [])"
| "extended t (Obj i ps) =
     (case t of
        Some (Obj j qs) \<Rightarrow> extend_props (Obj j qs) ps
      | Some (Inst j c qs) \<Rightarrow> extend_props (Inst j c qs) ps
      | _ \<Rightarrow> extend_props (Obj None []) ps)"
| "clone_elems [] = Inr []"
| "clone_elems (None # xs) = (case clone_elems xs of Inl x \<Rightarrow> Inl x | Inr ys \<Rightarrow> Inr (None # ys))"
| "clone_elems (Some e # xs) =
     (case extended None e of
        Inl x \<Rightarrow> Inl x
      | Inr v \<Rightarrow> (case clone_elems xs of Inl x \<Rightarrow> Inl x | Inr ys \<Rightarrow> Inr (Some v # ys)))"
  by pat_completeness auto
termination
  by (relation "measure (\<lambda>x. case x of
        Inl (a, s) \<Rightarrow> size_list (size_prod (\<lambda>_. 0) size) s
      | Inr (Inl (t, e)) \<Rightarrow> size e
      | Inr (Inr xs) \<Rightarrow> size_list (size_option size) xs)") auto

text \<open>The sources in turn; an array or a primitive value is passed over, \<^verbatim>\<open>null\<close> is a \<^verbatim>\<open>TypeError\<close>.\<close>

fun deepExtend :: "'p dv \<Rightarrow> 'p dv list \<Rightarrow> 'p ext_stop + 'p dv" where
  "deepExtend a [] = Inr a"
| "deepExtend a (s # ss) =
     (case (case s of
              Null \<Rightarrow> Inl Throws
            | Obj _ ps \<Rightarrow> extend_props a ps
            | Inst _ _ ps \<Rightarrow> extend_props a ps
            | _ \<Rightarrow> Inr a) of
        Inl x \<Rightarrow> Inl x
      | Inr b \<Rightarrow> deepExtend b ss)"

section \<open>The same without prototypes\<close>

text \<open>What the loops give when no key is \<^verbatim>\<open>__proto__\<close> and no instance is written into.\<close>

definition put_prop :: "js \<Rightarrow> 'p dv \<Rightarrow> 'p dv \<Rightarrow> 'p dv" where
  "put_prop u v a = (case a of Obj i ps \<Rightarrow> Obj i (aset u v ps) | Inst i c ps \<Rightarrow> Inst i c (aset u v ps) | _ \<Rightarrow> a)"

function pure_props :: "'p dv \<Rightarrow> (js \<times> 'p dv) list \<Rightarrow> 'p dv"
  and pure_value :: "'p dv option \<Rightarrow> 'p dv \<Rightarrow> 'p dv"
  and pure_elems :: "'p dv option list \<Rightarrow> 'p dv option list" where
  "pure_props a [] = a"
| "pure_props a ((u, e) # s) =
     pure_props (if same_object e a then a else put_prop u (pure_value (map_of (props a) u) e) a) s"
| "pure_value t (Prim p) = Prim p"
| "pure_value t Null = Null"
| "pure_value t (Arr i xs) = Arr None (drop_holes (pure_elems xs))"
| "pure_value t (Inst i c ps) = Inst None c []"
| "pure_value t (Obj i ps) =
     (case t of
        Some (Obj j qs) \<Rightarrow> pure_props (Obj j qs) ps
      | Some (Inst j c qs) \<Rightarrow> pure_props (Inst j c qs) ps
      | _ \<Rightarrow> pure_props (Obj None []) ps)"
| "pure_elems [] = []"
| "pure_elems (None # xs) = None # pure_elems xs"
| "pure_elems (Some e # xs) = Some (pure_value None e) # pure_elems xs"
  by pat_completeness auto
termination
  by (relation "measure (\<lambda>x. case x of
        Inl (a, s) \<Rightarrow> size_list (size_prod (\<lambda>_. 0) size) s
      | Inr (Inl (t, e)) \<Rightarrow> size e
      | Inr (Inr xs) \<Rightarrow> size_list (size_option size) xs)") auto

section \<open>Nothing is shared\<close>







section \<open>What the result holds\<close>

definition holder :: "'p dv \<Rightarrow> bool" where
  "holder a \<longleftrightarrow> (case a of Obj _ _ \<Rightarrow> True | Inst _ _ _ \<Rightarrow> True | _ \<Rightarrow> False)"

lemma put_prop_facts:
  "holder a \<Longrightarrow> props (put_prop u v a) = aset u v (props a)" "holder (put_prop u v a) = holder a"
  "ident_of (put_prop u v a) = ident_of a"
  by (auto simp: holder_def put_prop_def props_def ident_of_def split: dv.split)

lemma pure_props_frame: "holder a \<Longrightarrow> holder (pure_props a s) \<and> ident_of (pure_props a s) = ident_of a"
  by (induction s arbitrary: a) (auto simp: put_prop_facts)



























section \<open>The code and the reference\<close>








text \<open>
  A source read from JSON can have the key \<^verbatim>\<open>__proto__\<close>: then its value is merged into \<^verbatim>\<open>Object.prototype\<close>, for all
  objects of the page, at the top or at any depth.
\<close>

lemma proto_key_reaches_prototype:
  "deepExtend (Obj j []) [Obj i [(proto_key, Obj k ps)]] = 
     (if k \<noteq> None \<and> k = j then Inr (Obj j []) else Inl (Into_prototype (Obj k ps)))"
  "deepExtend (Obj (Some 0) []) [Obj (Some 1) [([97], Obj (Some 2) [(proto_key, Obj (Some 3) ps)])]] = Inl (Into_prototype (Obj (Some 3) ps))"
  by (auto simp: props_def same_object_def ident_of_def proto_key_def lit_def)

end
