(* ===== verification/Script_Children.thy ===== *)
theory Script_Children
  imports Script_Prelude
begin

text \<open>
  How React brings the child nodes of an element up to date: the reconciliation of the rendered children
  with the new elements, which makes a list of updates (ReactChildReconciler and ReactMultiChild), and
  the operations on the page that carry the updates out (DOMChildrenOperations). A node is a number; the
  children of the element are a list of nodes. The node of a mounted component, or the two comments
  around a text, is the argument \<^verbatim>\<open>host\<close>, the nodes it is made of are \<^verbatim>\<open>markup\<close>, both by the component's number;
  \<^verbatim>\<open>same\<close> says whether a component can take a new element. A child that renders another node of its own
  has done so before.
\<close>

section \<open>The page\<close>

datatype host = Node nat | Delimited nat nat

fun next_sibling :: "nat list \<Rightarrow> nat \<Rightarrow> nat option" where
  "next_sibling [] n = None"
| "next_sibling (x # xs) n = (if x = n then (case xs of [] \<Rightarrow> None | y # _ \<Rightarrow> Some y) else next_sibling xs n)"

fun put_before :: "nat \<Rightarrow> nat \<Rightarrow> nat list \<Rightarrow> nat list" where
  "put_before r n [] = []"
| "put_before r n (x # xs) = (if x = r then n # x # xs else x # put_before r n xs)"

text \<open>\<^verbatim>\<open>insertBefore\<close>, which takes the node from where it was, and \<^verbatim>\<open>removeChild\<close>; \<^const>\<open>None\<close> where they throw.\<close>

definition insert_before :: "nat list \<Rightarrow> nat \<Rightarrow> nat option \<Rightarrow> nat list option" where
  "insert_before xs n ref =
     (case ref of
        None \<Rightarrow> Some (removeAll n xs @ [n])
      | Some r \<Rightarrow>
          if r \<notin> set xs then None
          else if r = n then Some xs
          else Some (put_before r n (removeAll n xs)))"

definition remove_child :: "nat list \<Rightarrow> nat \<Rightarrow> nat list option" where
  "remove_child xs n = (if n \<in> set xs then Some (removeAll n xs) else None)"

section \<open>DOMChildrenOperations\<close>

definition getNodeAfter :: "nat list \<Rightarrow> host option \<Rightarrow> nat option" where
  "getNodeAfter xs a =
     (case a of
        None \<Rightarrow> (case xs of [] \<Rightarrow> None | x # _ \<Rightarrow> Some x)
      | Some (Node n) \<Rightarrow> next_sibling xs n
      | Some (Delimited n n') \<Rightarrow> next_sibling xs n')"

text \<open>The nodes of a text, with its two comments, are moved one by one. \<^const>\<open>None\<close> also if this does not end.\<close>

partial_function (option) moveDelimitedText :: "nat list \<Rightarrow> nat \<Rightarrow> nat \<Rightarrow> nat option \<Rightarrow> nat list option" where
  "moveDelimitedText xs node closing ref =
     (let following = next_sibling xs node
      in case insert_before xs node ref of
           None \<Rightarrow> None
         | Some ys \<Rightarrow>
             if node = closing then Some ys
             else (case following of None \<Rightarrow> None | Some m \<Rightarrow> moveDelimitedText ys m closing ref))"

definition moveChild :: "nat list \<Rightarrow> host \<Rightarrow> nat option \<Rightarrow> nat list option" where
  "moveChild xs h ref = (case h of Node n \<Rightarrow> insert_before xs n ref | Delimited n n' \<Rightarrow> moveDelimitedText xs n n' ref)"

function removeDelimitedText :: "nat list \<Rightarrow> nat \<Rightarrow> nat \<Rightarrow> nat list option" where
  "removeDelimitedText xs n closing =
     (case next_sibling xs n of
        None \<Rightarrow> None
      | Some r \<Rightarrow>
          if r = closing then Some xs
          else (case remove_child xs r of None \<Rightarrow> None | Some ys \<Rightarrow> removeDelimitedText ys n closing))"
  by pat_completeness auto
termination
  by (relation "measure (\<lambda>(xs, n, closing). length xs)")
    (auto simp: remove_child_def length_removeAll_less split: if_splits)

definition removeChild :: "nat list \<Rightarrow> host \<Rightarrow> nat list option" where
  "removeChild xs h =
     (case h of
        Node n \<Rightarrow> remove_child xs n
      | Delimited n n' \<Rightarrow>
          Option.bind (removeDelimitedText xs n n') (\<lambda>ys.
          Option.bind (remove_child ys n') (\<lambda>zs. remove_child zs n)))"

text \<open>The content of an insertion is a node or a fragment, that is the nodes that go in, in order.\<close>

fun insertTree :: "nat list \<Rightarrow> nat list \<Rightarrow> nat option \<Rightarrow> nat list option" where
  "insertTree xs [] ref = Some xs"
| "insertTree xs (n # ns) ref = Option.bind (insert_before xs n ref) (\<lambda>ys. insertTree ys ns ref)"

datatype update =
    INSERT_MARKUP "nat list option" "host option"
  | MOVE_EXISTING host "host option"
  | SET_MARKUP "nat list"
  | TEXT_CONTENT "nat list"
  | REMOVE_NODE host

definition process_update :: "update \<Rightarrow> nat list \<Rightarrow> nat list option" where
  "process_update s xs =
     (case s of
        INSERT_MARKUP c a \<Rightarrow> Option.bind c (\<lambda>ns. insertTree xs ns (getNodeAfter xs a))
      | MOVE_EXISTING h a \<Rightarrow> moveChild xs h (getNodeAfter xs a)
      | SET_MARKUP ns \<Rightarrow> Some ns
      | TEXT_CONTENT ns \<Rightarrow> Some ns
      | REMOVE_NODE h \<Rightarrow> removeChild xs h)"

fun processUpdates :: "update list \<Rightarrow> nat list \<Rightarrow> nat list option" where
  "processUpdates [] xs = Some xs"
| "processUpdates (s # ss) xs = Option.bind (process_update s xs) (processUpdates ss)"

section \<open>ReactChildReconciler and ReactMultiChild\<close>

text \<open>A mount index that is \<^verbatim>\<open>null\<close> is compared as 0.\<close>

record 'e comp =
  c_inst :: nat
  c_elem :: 'e
  c_index :: nat

definition instantiate :: "nat \<Rightarrow> 'e \<Rightarrow> 'e comp" where
  "instantiate k m = \<lparr>c_inst = k, c_elem = m, c_index = 0\<rparr>"

text \<open>
  The new children, the components mounted and the components to remove, by their keys. Children are the
  properties of an object, in the order of insertion; no children (\<^verbatim>\<open>null\<close>) are an empty object.
\<close>

fun updateChildren_loop ::
  "('e \<Rightarrow> 'e \<Rightarrow> bool) \<Rightarrow> ('k \<times> 'e comp) list \<Rightarrow> ('k \<times> 'e) list \<Rightarrow> nat \<Rightarrow> ('k \<times> 'e comp) list \<times> nat list \<times> ('k \<times> nat) list" where
  "updateChildren_loop same e [] k = ([], [], [])"
| "updateChildren_loop same e ((f, m) # t) k =
     (case map_of e f of
        Some h \<Rightarrow>
          if same (c_elem h) m then
            (case updateChildren_loop same e t k of (a, i, r) \<Rightarrow> ((f, h\<lparr>c_elem := m\<rparr>) # a, i, r))
          else
            (case updateChildren_loop same e t (Suc k) of (a, i, r) \<Rightarrow> ((f, instantiate k m) # a, k # i, (f, c_inst h) # r))
      | None \<Rightarrow>
          (case updateChildren_loop same e t (Suc k) of (a, i, r) \<Rightarrow> ((f, instantiate k m) # a, k # i, r)))"

definition updateChildren ::
  "('e \<Rightarrow> 'e \<Rightarrow> bool) \<Rightarrow> ('k \<times> 'e comp) list \<Rightarrow> ('k \<times> 'e) list \<Rightarrow> nat \<Rightarrow> ('k \<times> 'e comp) list \<times> nat list \<times> ('k \<times> nat) list" where
  "updateChildren same e t k =
     (case updateChildren_loop same e t k of
        (a, i, r) \<Rightarrow> (a, i, r @ map (\<lambda>(f, h). (f, c_inst h)) (filter (\<lambda>(f, h). f \<notin> fst ` set t) e)))"

text \<open>The updates: \<^verbatim>\<open>p\<close> is the next index, \<^verbatim>\<open>h\<close> the last index met, \<^verbatim>\<open>d\<close> the number of images used.\<close>

fun update_loop ::
  "(nat \<Rightarrow> host) \<Rightarrow> ('k \<times> 'e comp) list \<Rightarrow> nat list list \<Rightarrow> ('k \<times> 'e comp) list \<Rightarrow> nat \<Rightarrow> nat \<Rightarrow> nat \<Rightarrow> host option \<Rightarrow>
   update list \<times> ('k \<times> 'e comp) list" where
  "update_loop host r i [] p h d m = ([], [])"
| "update_loop host r i ((s, v) # a) p h d m =
     (let (us, h', d') =
        (case map_of r s of
           Some y \<Rightarrow>
             if c_inst y = c_inst v then
               (if c_index y < h then [MOVE_EXISTING (host (c_inst y)) m] else [], max (c_index y) h, d)
             else ([INSERT_MARKUP (if d < length i then Some (i ! d) else None) m], max (c_index y) h, Suc d)
         | None \<Rightarrow> ([INSERT_MARKUP (if d < length i then Some (i ! d) else None) m], h, Suc d))
      in case update_loop host r i a (Suc p) h' d' (Some (host (c_inst v))) of
           (us', a') \<Rightarrow> (us @ us', (s, v\<lparr>c_index := p\<rparr>) # a'))"

definition update_children ::
  "('e \<Rightarrow> 'e \<Rightarrow> bool) \<Rightarrow> (nat \<Rightarrow> host) \<Rightarrow> (nat \<Rightarrow> nat list) \<Rightarrow> nat \<Rightarrow> ('k \<times> 'e comp) list \<Rightarrow> ('k \<times> 'e) list \<Rightarrow>
   update list \<times> ('k \<times> 'e comp) list" where
  "update_children same host markup k r t =
     (case updateChildren same r t k of
        (a, i, removed) \<Rightarrow>
          (case update_loop host r (map markup i) a 0 0 0 None of
             (us, a') \<Rightarrow> (us @ map (\<lambda>(f, x). REMOVE_NODE (host x)) removed, a')))"

section \<open>Carrying the updates out\<close>

definition first_node :: "nat list \<Rightarrow> nat option" where
  "first_node xs = (case xs of [] \<Rightarrow> None | x # _ \<Rightarrow> Some x)"

lemma next_sibling_append: "x \<notin> set xs \<Longrightarrow> next_sibling (xs @ x # ys) x = first_node ys"
  by (induction xs) (auto simp: first_node_def)

lemma put_before_append: "r \<notin> set xs \<Longrightarrow> put_before r n (xs @ r # ys) = xs @ n # r # ys"
  by (induction xs) auto

text \<open>The nodes in place so far end with the last child that was handled.\<close>

definition handled :: "host option \<Rightarrow> nat list \<Rightarrow> bool" where
  "handled m us \<longleftrightarrow> (case m of None \<Rightarrow> us = [] | Some h \<Rightarrow> us \<noteq> [] \<and> h = Node (last us))"

lemma getNodeAfter_handled:
  assumes "handled m us" and "distinct (us @ vs)"
  shows "getNodeAfter (us @ vs) m = first_node vs"
proof (cases m)
  case None
  then show ?thesis using assms by (simp add: handled_def getNodeAfter_def first_node_def)
next
  case (Some h)
  then obtain ws where ws: "us = ws @ [last us]" "h = Node (last us)"
    using assms(1) by (auto simp: handled_def intro: append_butlast_last_id [symmetric])
  then have "last us \<notin> set ws" using assms(2) by (metis distinct_append distinct.simps(2) not_distinct_conv_prefix)
  then have "next_sibling (ws @ last us # vs) (last us) = first_node vs" by (rule next_sibling_append)
  then show ?thesis using Some ws by (metis append.assoc append_Cons append_Nil getNodeAfter_def host.case(1) option.case(2))
qed

lemma insert_new: "n \<notin> set (us @ vs) \<Longrightarrow> distinct (us @ vs) \<Longrightarrow> insert_before (us @ vs) n (first_node vs) = Some (us @ n # vs)"
  by (cases vs) (auto simp: first_node_def insert_before_def put_before_append)

lemma insert_moved:
  assumes "n \<in> set (us @ vs)" and "distinct (us @ vs)"
  shows "insert_before (us @ vs) n (first_node vs) = Some (removeAll n us @ n # removeAll n vs)"
proof (cases vs)
  case Nil
  then show ?thesis by (simp add: first_node_def insert_before_def)
next
  case (Cons r ws)
  then show ?thesis using assms put_before_append [of r "removeAll n us" n "removeAll n ws"]
    by (auto simp: first_node_def insert_before_def)
qed

lemma processUpdates_append: "processUpdates (us @ vs) xs = Option.bind (processUpdates us xs) (processUpdates vs)"
  by (induction us arbitrary: xs) (auto split: Option.bind_splits)

lemma remove_nodes:
  "set ns \<subseteq> set xs \<Longrightarrow> distinct ns \<Longrightarrow>
   processUpdates (map (\<lambda>n. REMOVE_NODE (Node n)) ns) xs = Some (filter (\<lambda>x. x \<notin> set ns) xs)"
proof (induction ns arbitrary: xs)
  case (Cons n ns)
  have "processUpdates (map (\<lambda>n. REMOVE_NODE (Node n)) ns) (removeAll n xs) = Some (filter (\<lambda>x. x \<notin> set ns) (removeAll n xs))"
    by (rule Cons.IH) (use Cons.prems in auto)
  then show ?case using Cons.prems by (simp add: process_update_def removeChild_def remove_child_def removeAll_filter_not_eq conj_commute eq_commute)
qed simp

section \<open>The loop over the new children\<close>

definition kept :: "('k \<times> 'e comp) list \<Rightarrow> 'k \<times> 'e comp \<Rightarrow> bool" where
  "kept r sv \<longleftrightarrow> (case map_of r (fst sv) of Some y \<Rightarrow> c_inst y = c_inst (snd sv) | None \<Rightarrow> False)"

text \<open>
  The children of the page are \<open>us @ vs\<close>: \<open>us\<close> ends with the child handled last, and holds the children handled in
  their order; in \<open>vs\<close> lie, in their old order, all children to come whose index is at least the last one met.
\<close>

definition pending ::
  "(nat \<Rightarrow> nat) \<Rightarrow> (nat \<Rightarrow> nat) \<Rightarrow> ('k \<times> 'e comp) list \<Rightarrow> nat \<Rightarrow> nat list \<Rightarrow> nat list \<Rightarrow> nat list \<Rightarrow> 'k \<times> 'e comp \<Rightarrow> bool" where
  "pending nd ix r h ps us vs sv \<longleftrightarrow>
     (if kept r sv
      then nd (c_inst (snd sv)) \<in> set (us @ vs) - set ps \<and> ix (nd (c_inst (snd sv))) = c_index (the (map_of r (fst sv))) \<and>
        (ix (nd (c_inst (snd sv))) \<ge> h \<longrightarrow> nd (c_inst (snd sv)) \<in> set vs)
      else nd (c_inst (snd sv)) \<notin> set (us @ vs))"

definition loop_inv ::
  "(nat \<Rightarrow> nat) \<Rightarrow> (nat \<Rightarrow> nat) \<Rightarrow> ('k \<times> 'e comp) list \<Rightarrow> ('k \<times> 'e comp) list \<Rightarrow> nat \<Rightarrow> nat list \<Rightarrow> nat list \<Rightarrow> nat list \<Rightarrow> bool" where
  "loop_inv nd ix r a h ps us vs \<longleftrightarrow>
     distinct (us @ vs) \<and> filter (\<lambda>x. x \<in> set ps) us = ps \<and> set ps \<inter> set vs = {} \<and> sorted_wrt (\<lambda>x y. ix x < ix y) vs \<and>
     distinct (map (\<lambda>sv. nd (c_inst (snd sv))) a) \<and> (\<forall>sv \<in> set a. pending nd ix r h ps us vs sv)"

lemma pendingD:
  "loop_inv nd ix r (sv # a) h ps us vs \<Longrightarrow> pending nd ix r h ps us vs sv"
  "loop_inv nd ix r (sv # a) h ps us vs \<Longrightarrow> sw \<in> set a \<Longrightarrow>
     pending nd ix r h ps us vs sw \<and> nd (c_inst (snd sw)) \<noteq> nd (c_inst (snd sv))"
  by (auto simp: loop_inv_def image_iff)

lemma loop_inv_insert:
  assumes inv: "loop_inv nd ix r ((s, v) # a) h ps us vs" and "\<not> kept r (s, v)" and "h \<le> h'"
  shows "loop_inv nd ix r a h' (ps @ [nd (c_inst v)]) (us @ [nd (c_inst v)]) vs"
proof -
  let ?n = "nd (c_inst v)"
  have n: "?n \<notin> set (us @ vs)" using pendingD(1) [OF inv] assms(2) by (simp add: pending_def)
  have "set ps \<subseteq> set us" using inv by (metis (no_types, lifting) filter_is_subset loop_inv_def)
  then have "filter (\<lambda>x. x \<in> set (ps @ [?n])) us = filter (\<lambda>x. x \<in> set ps) us"
    using n by (intro filter_cong) auto
  moreover have "pending nd ix r h' (ps @ [?n]) (us @ [?n]) vs sw" if "sw \<in> set a" for sw
    using pendingD(2) [OF inv that] assms(3) by (auto simp: pending_def)
  ultimately show ?thesis using inv n by (auto simp: loop_inv_def)
qed

lemma loop_inv_move:
  assumes inv: "loop_inv nd ix r ((s, v) # a) h ps us vs" and "kept r (s, v)"
  shows "loop_inv nd ix r a h (ps @ [nd (c_inst v)]) (removeAll (nd (c_inst v)) us @ [nd (c_inst v)]) (removeAll (nd (c_inst v)) vs)"
proof -
  let ?n = "nd (c_inst v)"
  have n: "?n \<in> set (us @ vs)" "?n \<notin> set ps" using pendingD(1) [OF inv] assms(2) by (auto simp: pending_def)
  have "filter (\<lambda>x. x \<in> set (ps @ [?n])) (removeAll ?n us) = filter (\<lambda>x. x \<in> set ps) us"
    unfolding removeAll_filter_not_eq filter_filter by (rule filter_cong) (use n in auto)
  moreover have "pending nd ix r h (ps @ [?n]) (removeAll ?n us @ [?n]) (removeAll ?n vs) sw" if "sw \<in> set a" for sw
    using pendingD(2) [OF inv that] by (auto simp: pending_def)
  moreover have "sorted_wrt (\<lambda>x y. ix x < ix y) (removeAll ?n vs)"
    using inv by (simp add: removeAll_filter_not_eq sorted_wrt_filter loop_inv_def)
  ultimately show ?thesis using inv n by (auto simp: loop_inv_def distinct_removeAll)
qed

lemma loop_inv_stay:
  assumes inv: "loop_inv nd ix r ((s, v) # a) h ps us (vs @ nd (c_inst v) # ws)" and h: "h \<le> ix (nd (c_inst v))"
  shows "loop_inv nd ix r a (ix (nd (c_inst v))) (ps @ [nd (c_inst v)]) (us @ vs @ [nd (c_inst v)]) ws"
proof -
  let ?n = "nd (c_inst v)"
  have n: "filter (\<lambda>x. x \<in> set ps) vs = []" "?n \<notin> set us" "?n \<notin> set vs" "?n \<notin> set ws" "?n \<notin> set ps"
    using inv by (auto simp: loop_inv_def filter_empty_conv)
  have "filter (\<lambda>x. x \<in> set (ps @ [?n])) us = filter (\<lambda>x. x \<in> set ps) us"
      "filter (\<lambda>x. x \<in> set (ps @ [?n])) vs = filter (\<lambda>x. x \<in> set ps) vs"
    by (rule filter_cong; use n in auto)+
  then have f: "filter (\<lambda>x. x \<in> set (ps @ [?n])) (us @ vs @ [?n]) = ps @ [?n]" using inv n by (simp add: loop_inv_def)
  have below: "ix m < ix ?n" if "m \<in> set vs" for m using inv that by (auto simp: loop_inv_def sorted_wrt_append)
  have "pending nd ix r (ix ?n) (ps @ [?n]) (us @ vs @ [?n]) ws sw" if "sw \<in> set a" for sw
    using pendingD(2) [OF inv that] h below [of "nd (c_inst (snd sw))"] by (auto simp: pending_def)
  then show ?thesis using inv n unfolding loop_inv_def f by (auto simp: sorted_wrt_append)
qed

text \<open>The updates of one child take the page from one such state to the next.\<close>

definition nodes_of :: "(nat \<Rightarrow> nat) \<Rightarrow> ('k \<times> 'e comp) list \<Rightarrow> nat list" where
  "nodes_of nd a = map (\<lambda>sv. nd (c_inst (snd sv))) a"

lemma nodes_of_map: "nodes_of nd a = map nd (map (\<lambda>sv. c_inst (snd sv)) a)"
  by (simp add: nodes_of_def)

lemma set_nodes_of: "set (nodes_of nd a) = nd ` (\<lambda>sv. c_inst (snd sv)) ` set a"
  by (simp add: nodes_of_def image_image)

definition new_images :: "(nat \<Rightarrow> nat) \<Rightarrow> ('k \<times> 'e comp) list \<Rightarrow> ('k \<times> 'e comp) list \<Rightarrow> nat list list" where
  "new_images nd r a = map (\<lambda>n. [n]) (nodes_of nd (filter (\<lambda>sv. \<not> kept r sv) a))"

lemma update_loop_ok:
  assumes host: "\<And>k. host k = Node (nd k)"
  shows "loop_inv nd ix r a h ps us vs \<Longrightarrow> handled m us \<Longrightarrow> drop d i = new_images nd r a \<Longrightarrow>
    \<exists>xs. processUpdates (fst (update_loop host r i a p h d m)) (us @ vs) = Some xs \<and> distinct xs \<and>
      set xs = set (us @ vs) \<union> set (nodes_of nd a) \<and> filter (\<lambda>x. x \<in> set (ps @ nodes_of nd a)) xs = ps @ nodes_of nd a"
proof (induction a arbitrary: h ps us vs m d p)
  case Nil
  then show ?case by (auto simp: loop_inv_def nodes_of_def filter_empty_conv)
next
  case (Cons sv a)
  obtain s v where sv: "sv = (s, v)" by fastforce
  note inv = Cons.prems(1) [unfolded sv]
  let ?n = "nd (c_inst v)"
  have dist: "distinct (us @ vs)" using inv by (simp add: loop_inv_def)
  note after = getNodeAfter_handled [OF Cons.prems(2) dist]
  have go: ?case
    if "update_loop host r i (sv # a) p h d m = (case update_loop host r i a (Suc p) h' d' (Some (Node ?n)) of (us'', a') \<Rightarrow> (us1 @ us'', (s, v\<lparr>c_index := p\<rparr>) # a'))"
      and "processUpdates us1 (us @ vs) = Some (us' @ vs')" and "loop_inv nd ix r a h' (ps @ [?n]) us' vs'"
      and "us' \<noteq> []" "last us' = ?n" and "drop d' i = new_images nd r a" and "set (us' @ vs') = insert ?n (set (us @ vs))"
    for h' d' us1 us' vs'
  proof -
    have hd: "handled (Some (Node ?n)) us'" using that(4,5) by (simp add: handled_def)
    from Cons.IH [OF that(3) hd that(6), of "Suc p"]
    show ?thesis using that(1,2,7) by (auto simp: processUpdates_append nodes_of_def sv split: prod.split)
  qed
  show ?case
  proof (cases "kept r sv")
    case True
    then obtain y where y: "map_of r s = Some y" "c_inst y = c_inst v" by (auto simp: kept_def sv split: option.splits)
    have pend: "?n \<in> set (us @ vs)" "ix ?n = c_index y" "ix ?n \<ge> h \<Longrightarrow> ?n \<in> set vs"
      using pendingD(1) [OF inv] True y by (auto simp: pending_def sv)
    have img: "drop d i = new_images nd r a" using Cons.prems(3) True by (simp add: new_images_def)
    show ?thesis
    proof (cases "c_index y < h")
      case move: True
      have "processUpdates [MOVE_EXISTING (Node ?n) m] (us @ vs) = Some ((removeAll ?n us @ [?n]) @ removeAll ?n vs)"
        using insert_moved [OF pend(1) dist] by (simp add: process_update_def moveChild_def after)
      then show ?thesis
        by (rule go [where h' = h and d' = d, rotated]) (use move y host img pend loop_inv_move [OF inv] True in \<open>auto simp: sv max_def split: prod.split\<close>)
    next
      case False
      then obtain vs1 vs2 where vs: "vs = vs1 @ ?n # vs2" using pend by (metis in_set_conv_decomp linorder_not_less)
      have "processUpdates [] (us @ vs) = Some ((us @ vs1 @ [?n]) @ vs2)" using vs by simp
      then show ?thesis
        by (rule go [where h' = "ix ?n" and d' = d, rotated]) (use False vs y host img pend loop_inv_stay [OF inv [unfolded vs]] in \<open>auto simp: sv max_def split: prod.split\<close>)
    qed
  next
    case False
    then have img: "drop d i = [?n] # new_images nd r a" using Cons.prems(3) by (simp add: new_images_def nodes_of_def sv)
    then have d: "d < length i" "i ! d = [?n]" "drop (Suc d) i = new_images nd r a"
      by (metis drop_all list.distinct(1) not_le, metis nth_via_drop, metis drop_Suc list.sel(3) tl_drop)
    have n: "?n \<notin> set (us @ vs)" using pendingD(1) [OF inv] False by (simp add: pending_def sv)
    have "processUpdates [INSERT_MARKUP (Some [?n]) m] (us @ vs) = Some ((us @ [?n]) @ vs)"
      using insert_new [OF n dist] by (simp add: process_update_def after)
    then show ?thesis
      by (rule go [where h' = "case map_of r s of Some y \<Rightarrow> max (c_index y) h | None \<Rightarrow> h" and d' = "Suc d", rotated])
        (use False d host loop_inv_insert [OF inv] in \<open>auto simp: sv kept_def split: option.splits prod.split\<close>)
  qed
qed

section \<open>The children of an element after an update\<close>

text \<open>What holds of mounted children: keys and components are distinct and numbered in their order.\<close>

definition mounted :: "nat \<Rightarrow> ('k \<times> 'e comp) list \<Rightarrow> bool" where
  "mounted k r \<longleftrightarrow>
     distinct (map fst r) \<and> distinct (map (\<lambda>sv. c_inst (snd sv)) r) \<and>
     map (\<lambda>sv. c_index (snd sv)) r = [0..<length r] \<and> (\<forall>sv \<in> set r. c_inst (snd sv) < k)"

definition reused :: "('e \<Rightarrow> 'e \<Rightarrow> bool) \<Rightarrow> ('k \<times> 'e comp) list \<Rightarrow> ('k \<times> 'e) list \<Rightarrow> 'k \<Rightarrow> bool" where
  "reused same e t f \<longleftrightarrow> (\<exists>h m. map_of e f = Some h \<and> map_of t f = Some m \<and> same (c_elem h) m)"

lemma updateChildren_loop_new:
  assumes "updateChildren_loop same e t k = (a, i, r)" and "\<forall>sv \<in> set e. c_inst (snd sv) < k" and "distinct (map fst t)"
  shows "map fst a = map fst t \<and> map (\<lambda>sv. c_elem (snd sv)) a = map snd t \<and> i = [k..<k + length i] \<and>
    map (\<lambda>sv. c_inst (snd sv)) (filter (\<lambda>sv. \<not> kept e sv) a) = i \<and>
    (\<forall>sv \<in> set a. kept e sv \<longleftrightarrow> reused same e t (fst sv))"
  using assms
proof (induction t arbitrary: k a i r)
  case (Cons fm t)
  obtain f m where fm: "fm = (f, m)" by fastforce
  have old: "c_inst h < k" if "map_of e f = Some h" for h using Cons.prems(2) map_of_SomeD [OF that] by fastforce
  have rest: "reused same e (fm # t) g = reused same e t g" if "g \<in> fst ` set t" for g
    using that Cons.prems(3) by (auto simp: reused_def fm)
  have t: "distinct (map fst t)" using Cons.prems(3) by simp
  have more: "\<forall>sv \<in> set a'. kept e sv \<longleftrightarrow> reused same e (fm # t) (fst sv)"
    if "map fst a' = map fst t" "\<forall>sv \<in> set a'. kept e sv \<longleftrightarrow> reused same e t (fst sv)" for a'
    using that rest by (metis image_eqI list.set_map)
  show ?case
  proof (cases "reused same e (fm # t) f")
    case True
    then obtain h where h: "map_of e f = Some h" "same (c_elem h) m" by (auto simp: reused_def fm)
    obtain a' i' r' where l: "updateChildren_loop same e t k = (a', i', r')" by (metis prod.exhaust)
    note IH = Cons.IH [OF l Cons.prems(2) t]
    have a: "a = (f, h\<lparr>c_elem := m\<rparr>) # a'" "i = i'" using Cons.prems(1) h l by (simp_all add: fm)
    have "kept e (f, h\<lparr>c_elem := m\<rparr>)" using h by (simp add: kept_def)
    then show ?thesis using IH True more [of a'] unfolding a by (simp add: fm)
  next
    case False
    obtain a' i' r' where l: "updateChildren_loop same e t (Suc k) = (a', i', r')" by (metis prod.exhaust)
    have lt: "\<forall>sv \<in> set e. c_inst (snd sv) < Suc k" using Cons.prems(2) by auto
    note IH = Cons.IH [OF l lt t]
    have a: "a = (f, instantiate k m) # a'" "i = k # i'"
      using Cons.prems(1) l False by (auto simp: fm reused_def split: option.splits if_splits)
    have n: "\<not> kept e (f, instantiate k m)" using old by (auto simp: kept_def instantiate_def split: option.splits)
    have "i' = [Suc k..<Suc k + length i']" using IH by simp
    then have "i = [k..<k + length i]" unfolding a(2) by (metis add_Suc_right add_Suc_shift less_add_Suc1 list.size(4) upt_conv_Cons add.right_neutral plus_1_eq_Suc)
    moreover have "fst (snd (a, i, r)) = i" by simp
    ultimately show ?thesis using IH n False more [of a'] unfolding a(1) by (simp add: fm instantiate_def a(2))
  qed
qed (auto simp: reused_def)

lemma updateChildren_loop_removed:
  "updateChildren_loop same e t k = (a, i, r) \<Longrightarrow> distinct (map fst t) \<Longrightarrow>
   distinct (map fst r) \<and> fst ` set r \<subseteq> fst ` set t \<and>
   (\<forall>f x. (f, x) \<in> set r \<longleftrightarrow> f \<in> fst ` set t \<and> \<not> reused same e t f \<and> (\<exists>h. map_of e f = Some h \<and> x = c_inst h))"
proof (induction t arbitrary: k a i r)
  case (Cons fm t)
  obtain f m where fm: "fm = (f, m)" by fastforce
  have rest: "reused same e (fm # t) g = reused same e t g" if "g \<in> fst ` set t" for g
    using that Cons.prems(2) by (auto simp: reused_def fm)
  obtain a' i' r' k' where l: "updateChildren_loop same e t k' = (a', i', r')"
      "r = (case map_of e f of Some h \<Rightarrow> if same (c_elem h) m then r' else (f, c_inst h) # r' | None \<Rightarrow> r')"
    using Cons.prems(1) by (auto simp: fm split: option.splits if_splits prod.splits)
  note IH = Cons.IH [OF l(1)]
  have now: "reused same e (fm # t) f \<longleftrightarrow> (\<exists>h. map_of e f = Some h \<and> same (c_elem h) m)" by (auto simp: reused_def fm)
  have t: "distinct (map fst t)" "f \<notin> fst ` set t" using Cons.prems(2) by (simp_all add: fm)
  show ?case
    using IH [OF t(1)] t(2) rest now unfolding l(2)
    by (auto simp: fm split: option.split)
qed (auto simp: reused_def)

lemma update_loop_snd:
  "snd (update_loop host r i a p h d m) = map2 (\<lambda>sv q. (fst sv, (snd sv)\<lparr>c_index := q\<rparr>)) a [p..<p + length a]"
proof (induction a arbitrary: p h d m)
  case (Cons sv a)
  have "[p..<p + length (sv # a)] = p # [Suc p..<Suc p + length a]" by (simp add: upt_conv_Cons del: upt_Suc)
  then show ?case by (cases sv) (simp add: Let_def split_beta Cons.IH del: upt_Suc)
qed simp

lemma update_loop_children:
  "map fst (snd (update_loop host r i a p h d m)) = map fst a"
  "map (\<lambda>sv. c_elem (snd sv)) (snd (update_loop host r i a p h d m)) = map (\<lambda>sv. c_elem (snd sv)) a"
  "map (\<lambda>sv. c_inst (snd sv)) (snd (update_loop host r i a p h d m)) = map (\<lambda>sv. c_inst (snd sv)) a"
  "map (\<lambda>sv. c_index (snd sv)) (snd (update_loop host r i a p h d m)) = [p..<p + length a]"
  unfolding update_loop_snd by (rule nth_equalityI; simp)+

text \<open>The numbers of the components that are removed: those of the old children that are not reused.\<close>

lemma removed_components:
  assumes "updateChildren same e t k = (a, i, r)" and "mounted k e" and "distinct (map fst t)"
  shows "distinct (map snd r) \<and> snd ` set r = (\<lambda>sv. c_inst (snd sv)) ` {sv \<in> set e. \<not> reused same e t (fst sv)}"
proof -
  obtain r0 where l: "updateChildren_loop same e t k = (a, i, r0)"
    and r: "r = r0 @ map (\<lambda>(f, h). (f, c_inst h)) (filter (\<lambda>(f, h). f \<notin> fst ` set t) e)"
    using assms(1) by (auto simp: updateChildren_def split: prod.splits)
  have e: "distinct (map fst e)" "inj_on (\<lambda>sv. c_inst (snd sv)) (set e)"
    using assms(2) by (auto simp: mounted_def distinct_map)
  have mo: "map_of e f = Some h \<longleftrightarrow> (f, h) \<in> set e" for f h using e(1) by simp
  note r0 = updateChildren_loop_removed [OF l assms(3)]
  have none: "\<not> reused same e t f" if "f \<notin> fst ` set t" for f
    using that by (force simp: reused_def dest!: map_of_SomeD)
  have mem: "(f, x) \<in> set r \<longleftrightarrow> (\<exists>h. (f, h) \<in> set e \<and> x = c_inst h \<and> \<not> reused same e t f)" for f x
    using r0 none unfolding r mo by auto
  have "distinct (map fst r)"
    using r0 e(1) unfolding r by (auto simp: distinct_map_filter comp_def split_beta distinct_map inj_on_def)
  moreover have "inj_on snd (set r)"
  proof (rule inj_onI)
    fix p q
    assume p: "p \<in> set r" "q \<in> set r" "snd p = snd q"
    obtain h where h: "(fst p, h) \<in> set e" "snd p = c_inst h" using mem [of "fst p" "snd p"] p(1) by auto
    obtain h' where h': "(fst q, h') \<in> set e" "snd q = c_inst h'" using mem [of "fst q" "snd q"] p(2) by auto
    have "(fst p, h) = (fst q, h')" by (rule inj_onD [OF e(2) _ h(1) h'(1)]) (use h h' p(3) in simp)
    then show "p = q" using p(3) by (simp add: prod_eq_iff)
  qed
  ultimately have "distinct (map snd r)" by (simp add: distinct_map)
  moreover have "snd ` set r = (\<lambda>sv. c_inst (snd sv)) ` {sv \<in> set e. \<not> reused same e t (fst sv)}"
    using mem by (force simp: image_iff)
  ultimately show ?thesis by simp
qed

lemma new_child_number:
  assumes "updateChildren_loop same e t k = (a, i, r)" and "\<forall>sv \<in> set e. c_inst (snd sv) < k" and "distinct (map fst t)"
    and "sv \<in> set a" and "\<not> kept e sv"
  shows "c_inst (snd sv) \<ge> k"
proof -
  note new = updateChildren_loop_new [OF assms(1-3)]
  have "c_inst (snd sv) \<in> set (map (\<lambda>sv. c_inst (snd sv)) (filter (\<lambda>sv. \<not> kept e sv) a))" using assms(4,5) by auto
  then have "c_inst (snd sv) \<in> set i" using new by simp
  then show ?thesis using new by (metis atLeastLessThan_iff set_upt)
qed

text \<open>The components of the new children are distinct: reused ones by their keys, new ones by their numbers.\<close>

lemma new_children_distinct:
  assumes "updateChildren_loop same e t k = (a, i, r)" and "\<forall>sv \<in> set e. c_inst (snd sv) < k" and "distinct (map fst t)"
    and "distinct (map fst e)" and "distinct (map (\<lambda>sv. c_inst (snd sv)) e)"
  shows "distinct (map (\<lambda>sv. c_inst (snd sv)) a)"
proof -
  note new = updateChildren_loop_new [OF assms(1-3)]
  have keys: "distinct (map fst a)" using new assms(3) by simp
  have inj_new: "inj_on (\<lambda>sv. c_inst (snd sv)) {sv \<in> set a. \<not> kept e sv}"
  proof -
    have "distinct (map (\<lambda>sv. c_inst (snd sv)) (filter (\<lambda>sv. \<not> kept e sv) a))" using new by (metis distinct_upt)
    then show ?thesis by (simp add: distinct_map)
  qed
  note big = new_child_number [OF assms(1-3)]
  have old: "\<exists>y. (fst sv, y) \<in> set e \<and> c_inst y = c_inst (snd sv)" if "kept e sv" for sv
    using that by (auto simp: kept_def dest!: map_of_SomeD split: option.splits)
  have inj_e: "p = q" if "p \<in> set e" "q \<in> set e" "c_inst (snd p) = c_inst (snd q)" for p q
    using assms(5) that by (auto simp: distinct_map dest: inj_onD)
  have "inj_on (\<lambda>sv. c_inst (snd sv)) (set a)"
  proof (rule inj_onI)
    fix p q
    assume pq: "p \<in> set a" "q \<in> set a" "c_inst (snd p) = c_inst (snd q)"
    consider "kept e p" "kept e q" | "\<not> kept e p" "\<not> kept e q" | "kept e p \<noteq> kept e q" by blast
    then show "p = q"
    proof cases
      case 1
      then have "fst p = fst q" using old [of p] old [of q] inj_e pq(3) by (metis fst_conv snd_conv)
      then show ?thesis using keys pq(1,2) by (auto simp: distinct_map dest: inj_onD)
    next
      case 2
      then show ?thesis using inj_new pq by (auto dest: inj_onD)
    next
      case 3
      then show ?thesis using big old assms(2) pq by (metis not_le snd_conv)
    qed
  qed
  moreover have "distinct a" using keys by (simp add: distinct_map)
  ultimately show ?thesis by (simp add: distinct_map)
qed

text \<open>Before the loop the page has the old children.\<close>

lemma loop_inv_start:
  assumes "mounted k r" and "inj nd" and "updateChildren_loop same r t k = (a, i, rs)" and "distinct (map fst t)"
  shows "loop_inv nd (the \<circ> map_of (zip (nodes_of nd r) [0..<length r])) r a 0 [] [] (nodes_of nd r) \<and> new_images nd r a = map (\<lambda>j. [nd j]) i"
proof -
  let ?ix = "the \<circ> map_of (zip (nodes_of nd r) [0..<length r])"
  have m: "distinct (map fst r)" "distinct (map (\<lambda>sv. c_inst (snd sv)) r)" "map (\<lambda>sv. c_index (snd sv)) r = [0..<length r]"
      "\<forall>sv \<in> set r. c_inst (snd sv) < k"
    using assms(1) by (simp_all add: mounted_def)
  have dist: "distinct (nodes_of nd r)"
    using m(2) assms(2) by (auto simp: nodes_of_def distinct_map comp_def inj_on_def dest: injD)
  have ix: "?ix (nodes_of nd r ! j) = j" if "j < length r" for j
    using map_of_zip_nth [of "nodes_of nd r" "[0..<length r]" j] dist that by (simp add: nodes_of_def)
  have "sorted_wrt (\<lambda>x y. ?ix x < ?ix y) (nodes_of nd r)"
    unfolding sorted_wrt_iff_nth_less using ix by (auto simp: nodes_of_def)
  note new = updateChildren_loop_new [OF assms(3) m(4) assms(4)]
  have pend: "pending nd ?ix r 0 [] [] (nodes_of nd r) sv" if "sv \<in> set a" for sv
  proof (cases "kept r sv")
    case True
    then obtain y where y: "map_of r (fst sv) = Some y" "c_inst y = c_inst (snd sv)" by (auto simp: kept_def split: option.splits)
    then obtain j where j: "j < length r" "r ! j = (fst sv, y)" by (metis in_set_conv_nth map_of_SomeD)
    then have "nd (c_inst (snd sv)) = nodes_of nd r ! j" using y by (simp add: nodes_of_def)
    moreover have "c_index y = j" using m(3) j by (metis add_0 diff_zero length_map nth_map nth_upt snd_conv length_upt)
    moreover have "nodes_of nd r ! j \<in> set (nodes_of nd r)" using j(1) by (simp add: nodes_of_def)
    ultimately show ?thesis using True y(1) ix [OF j(1)] by (simp add: pending_def)
  next
    case False
    then have "c_inst (snd sv) \<ge> k" using new_child_number [OF assms(3) m(4) assms(4) that] by simp
    then show ?thesis using False m(4) assms(2) by (force simp: pending_def nodes_of_def dest: injD)
  qed
  have "distinct (nodes_of nd a)"
    using new_children_distinct [OF assms(3) m(4) assms(4) m(1,2)] assms(2)
    by (auto simp: nodes_of_def distinct_map comp_def inj_on_def dest: injD)
  moreover have "new_images nd r a = map (\<lambda>j. [nd j]) i"
  proof -
    have "new_images nd r a = map (\<lambda>j. [nd j]) (map (\<lambda>sv. c_inst (snd sv)) (filter (\<lambda>sv. \<not> kept r sv) a))"
      by (simp add: new_images_def nodes_of_def comp_def)
    then show ?thesis using new by simp
  qed
  ultimately show ?thesis using dist pend \<open>sorted_wrt _ _\<close> by (simp add: loop_inv_def nodes_of_def)
qed

text \<open>An old component is among the new children exactly if it is reused.\<close>

lemma reused_component:
  assumes "updateChildren_loop same r t k = (a, i, rs)" and "mounted k r" and "distinct (map fst t)" and "p \<in> set r"
  shows "c_inst (snd p) \<in> (\<lambda>sv. c_inst (snd sv)) ` set a \<longleftrightarrow> reused same r t (fst p)"
proof
  have m: "distinct (map fst r)" "inj_on (\<lambda>sv. c_inst (snd sv)) (set r)" "\<forall>sv \<in> set r. c_inst (snd sv) < k"
    using assms(2) by (auto simp: mounted_def distinct_map)
  note new = updateChildren_loop_new [OF assms(1) m(3) assms(3)]
  {
    assume "c_inst (snd p) \<in> (\<lambda>sv. c_inst (snd sv)) ` set a"
    then obtain sv where sv: "sv \<in> set a" "c_inst (snd sv) = c_inst (snd p)" by auto
    have k: "kept r sv" using new_child_number [OF assms(1) m(3) assms(3) sv(1)] sv(2) m(3) assms(4) by fastforce
    then obtain y where y: "(fst sv, y) \<in> set r" "c_inst y = c_inst (snd sv)"
      by (auto simp: kept_def dest!: map_of_SomeD split: option.splits)
    then have "(fst sv, y) = p" using inj_onD [OF m(2), of "(fst sv, y)" p] sv(2) assms(4) by simp
    then show "reused same r t (fst p)" using new sv(1) k by fastforce
  next
    assume u: "reused same r t (fst p)"
    then have "fst p \<in> fst ` set t" by (auto simp: reused_def dest!: map_of_SomeD intro: rev_image_eqI)
    then obtain sv where sv: "sv \<in> set a" "fst sv = fst p" using new by (metis image_iff list.set_map)
    then have "kept r sv" using new u by simp
    moreover have "map_of r (fst p) = Some (snd p)" using m(1) assms(4) by simp
    ultimately show "c_inst (snd p) \<in> (\<lambda>sv. c_inst (snd sv)) ` set a" using sv by (auto simp: kept_def)
  }
qed

text \<open>Once the loop is over, taking away the removed components leaves the nodes of the new children.\<close>

lemma removal_leaves_new:
  assumes l: "updateChildren_loop same r t k = (a, i, rs)" and u: "updateChildren same r t k = (a, i, rm)"
    and r: "mounted k r" and t: "distinct (map fst t)" and nd: "inj nd"
    and xs: "set xs = set (nodes_of nd r) \<union> set (nodes_of nd a)" "filter (\<lambda>x. x \<in> set (nodes_of nd a)) xs = nodes_of nd a"
  shows "processUpdates (map (\<lambda>n. REMOVE_NODE (Node n)) (map nd (map snd rm))) xs = Some (nodes_of nd a)"
proof -
  let ?ns = "map nd (map snd rm)"
  note rm = removed_components [OF u r t] and ru = reused_component [OF l r t]
  have sub: "set ?ns \<subseteq> set (nodes_of nd r)" unfolding set_nodes_of set_map by (intro image_mono) (use rm in auto)
  have "x \<notin> set ?ns \<longleftrightarrow> x \<in> set (nodes_of nd a)" if "x \<in> set xs" for x
  proof (cases "x \<in> set (nodes_of nd r)")
    case True
    then obtain p where p: "p \<in> set r" "x = nd (c_inst (snd p))" by (auto simp: nodes_of_def)
    have "x \<in> set ?ns \<longleftrightarrow> c_inst (snd p) \<in> snd ` set rm"
      unfolding p(2) set_map by (rule inj_image_mem_iff [OF nd])
    also have "\<dots> \<longleftrightarrow> \<not> reused same r t (fst p)"
    proof -
      have "q = p" if "q \<in> set r" "c_inst (snd q) = c_inst (snd p)" for q
        using r p(1) that by (auto simp: mounted_def distinct_map dest: inj_onD)
      then show ?thesis using rm p(1) by auto
    qed
    also have "\<dots> \<longleftrightarrow> x \<notin> set (nodes_of nd a)"
      unfolding p(2) set_nodes_of inj_image_mem_iff [OF nd] ru [OF p(1)] ..
    finally show ?thesis by simp
  next
    case False
    then show ?thesis using sub xs(1) that by auto
  qed
  then have "filter (\<lambda>x. x \<notin> set ?ns) xs = nodes_of nd a" using xs(2) by (metis (no_types, lifting) filter_cong)
  moreover have "set ?ns \<subseteq> set xs" using sub xs(1) by auto
  moreover have "distinct ?ns" using rm nd by (simp add: distinct_map inj_on_def inj_def)
  ultimately show ?thesis using remove_nodes [of ?ns xs] by simp
qed

text \<open>The new children are mounted, and a reused child is the same component.\<close>

lemma children_numbers:
  assumes l: "updateChildren_loop same r t k = (a, i, rs)" and r: "mounted k r" and t: "distinct (map fst t)"
    and "sv \<in> set a"
  shows "c_inst (snd sv) < k + length t"
proof (cases "kept r sv")
  case True
  then obtain y where "(fst sv, y) \<in> set r" "c_inst y = c_inst (snd sv)"
    by (auto simp: kept_def dest!: map_of_SomeD split: option.splits)
  then show ?thesis using r by (fastforce simp: mounted_def)
next
  case False
  have m: "\<forall>sv \<in> set r. c_inst (snd sv) < k" using r by (simp add: mounted_def)
  note new = updateChildren_loop_new [OF l m t]
  have "length i \<le> length a" using new by (metis length_filter_le length_map)
  moreover have "length a = length t" using new by (metis length_map)
  moreover have "c_inst (snd sv) \<in> set (map (\<lambda>sv. c_inst (snd sv)) (filter (\<lambda>sv. \<not> kept r sv) a))" using assms(4) False by auto
  then have "c_inst (snd sv) \<in> set i" using new by simp
  ultimately show ?thesis using new by (metis add_le_cancel_left atLeastLessThan_iff order_less_le_trans set_upt)
qed

lemma update_loop_mounted:
  assumes l: "updateChildren_loop same r t k = (a, i, rs)" and r: "mounted k r" and t: "distinct (map fst t)"
  shows "mounted (k + length t) (snd (update_loop host r is a 0 0 0 None))"
proof -
  let ?a = "snd (update_loop host r is a 0 0 0 None)"
  have m: "distinct (map fst r)" "distinct (map (\<lambda>sv. c_inst (snd sv)) r)" "\<forall>sv \<in> set r. c_inst (snd sv) < k"
    using r by (simp_all add: mounted_def)
  note new = updateChildren_loop_new [OF l m(3) t] and ch = update_loop_children [of host r "is" a 0 0 0 None]
  have "\<forall>sv \<in> set ?a. c_inst (snd sv) < k + length t"
    using children_numbers [OF l r t] ch(3) by (metis (no_types, lifting) image_iff list.set_map)
  moreover have "length ?a = length a" using ch(1) by (metis length_map)
  ultimately show ?thesis
    using ch new new_children_distinct [OF l m(3) t m(1,2)] t by (simp add: mounted_def)
qed

lemma update_loop_reused:
  assumes l: "updateChildren_loop same r t k = (a, i, rs)" and r: "mounted k r" and t: "distinct (map fst t)"
    and f: "reused same r t f"
  shows "map_option c_inst (map_of (snd (update_loop host r is a 0 0 0 None)) f) = map_option c_inst (map_of r f)"
proof -
  let ?a = "snd (update_loop host r is a 0 0 0 None)"
  have m: "\<forall>sv \<in> set r. c_inst (snd sv) < k" using r by (simp add: mounted_def)
  note new = updateChildren_loop_new [OF l m t]
  have "f \<in> fst ` set t" using f by (auto simp: reused_def dest!: map_of_SomeD intro: rev_image_eqI)
  then obtain v where v: "(f, v) \<in> set a" using new by (metis (no_types, lifting) image_iff list.set_map prod.collapse)
  then have "kept r (f, v)" using new f by simp
  then have old: "map_option c_inst (map_of r f) = Some (c_inst v)" by (auto simp: kept_def split: option.splits)
  have "(f, c_inst v) \<in> set (map (\<lambda>sv. (fst sv, c_inst (snd sv))) a)" using v by force
  also have "map (\<lambda>sv. (fst sv, c_inst (snd sv))) a = map (\<lambda>sv. (fst sv, c_inst (snd sv))) ?a"
    unfolding update_loop_snd by (rule nth_equalityI) simp_all
  finally obtain v' where "(f, v') \<in> set ?a" "c_inst v' = c_inst v" by auto
  moreover have "distinct (map fst ?a)" unfolding update_loop_children(1) using new t by simp
  ultimately have "map_option c_inst (map_of ?a f) = Some (c_inst v)" by simp
  then show ?thesis unfolding old .
qed

text \<open>C28: Whatever was moved, replaced, added or removed, the new children have the keys and elements asked for, in their order, a
  child whose key stays and that can take its new element stays the same component, and the children are again ready for
  an update. Where every child is a single node, carrying out the queued updates turns the nodes of the old children into
  those of the new ones, in their order. A text, which lies between two comments, is no single node, and this can fail for it.
\<close>

theorem children_updates_reach_new_children:
  assumes "mounted k r" and "distinct (map fst t)"
  shows "case update_children same host markup k r t of (us, a) \<Rightarrow>
    mounted (k + length t) a \<and> map fst a = map fst t \<and> map (\<lambda>sv. c_elem (snd sv)) a = map snd t \<and>
    (\<forall>f. reused same r t f \<longrightarrow> map_option c_inst (map_of a f) = map_option c_inst (map_of r f)) \<and>
    (inj nd \<and> (\<forall>j. host j = Node (nd j) \<and> markup j = [nd j]) \<longrightarrow> processUpdates us (nodes_of nd r) = Some (nodes_of nd a))"
proof -
  obtain a i rm where u: "updateChildren same r t k = (a, i, rm)" by (metis prod.exhaust)
  then obtain rs where l: "updateChildren_loop same r t k = (a, i, rs)" by (auto simp: updateChildren_def split: prod.splits)
  have m: "\<forall>sv \<in> set r. c_inst (snd sv) < k" using assms(1) by (simp add: mounted_def)
  note new = updateChildren_loop_new [OF l m assms(2)]
  obtain us a' where loop: "update_loop host r (map markup i) a 0 0 0 None = (us, a')" by fastforce
  then have a': "a' = snd (update_loop host r (map markup i) a 0 0 0 None)" by simp
  have nodes: "nodes_of nd a' = nodes_of nd a" unfolding a' nodes_of_map update_loop_children(3) ..
  have "processUpdates (us @ map (\<lambda>(f, x). REMOVE_NODE (host x)) rm) (nodes_of nd r) = Some (nodes_of nd a')"
    if single: "inj nd" "\<forall>j. host j = Node (nd j) \<and> markup j = [nd j]"
  proof -
    have h: "\<And>j. host j = Node (nd j)" and mk: "\<And>j. markup j = [nd j]" using single(2) by auto
    note start = loop_inv_start [OF assms(1) single(1) l assms(2)]
    obtain xs where xs: "processUpdates us (nodes_of nd r) = Some xs"
        "set xs = set (nodes_of nd r) \<union> set (nodes_of nd a)" "filter (\<lambda>x. x \<in> set (nodes_of nd a)) xs = nodes_of nd a"
      using update_loop_ok [of host nd, OF h conjunct1 [OF start], of None 0 "map markup i" 0] start loop
      by (auto simp: handled_def mk)
    have rem: "map (\<lambda>(f, x). REMOVE_NODE (host x)) rm = map (\<lambda>n. REMOVE_NODE (Node n)) (map nd (map snd rm))"
      by (simp add: h split_beta)
    show ?thesis
      unfolding processUpdates_append xs(1) rem bind.bind_lunit nodes
      by (rule removal_leaves_new [OF l u assms single(1) xs(2,3)])
  qed
  moreover note update_loop_mounted [OF l assms, of host "map markup i"]
    update_loop_reused [OF l assms, of _ host "map markup i"]
  ultimately show ?thesis
    using new update_loop_children(1,2) [of host r "map markup i" a 0 0 0 None] by (simp add: update_children_def u loop)
qed

text \<open>Two children change places, a third one is replaced and a fourth one added.\<close>

theorem children_updates_reach_new_children_witness:
  "case update_children (=) Node (\<lambda>j. [j]) 3
     [(''a'', \<lparr>c_inst = 0, c_elem = 7, c_index = 0\<rparr>), (''b'', \<lparr>c_inst = 1, c_elem = 8, c_index = 1\<rparr>), (''c'', \<lparr>c_inst = 2, c_elem = 9, c_index = 2\<rparr>)]
     [(''b'', 8), (''a'', 7 :: nat), (''c'', 0), (''d'', 1)] of (us, a) \<Rightarrow> processUpdates us [0, 1, 2] = Some (nodes_of id a)"
  using children_updates_reach_new_children [of 3
     "[(''a'', \<lparr>c_inst = 0, c_elem = 7, c_index = 0\<rparr>), (''b'', \<lparr>c_inst = 1, c_elem = 8, c_index = 1\<rparr>), (''c'', \<lparr>c_inst = 2, c_elem = 9 :: nat, c_index = 2\<rparr>)]"
     "[(''b'', 8), (''a'', 7), (''c'', 0), (''d'', 1)]", where nd = id and host = Node and markup = "\<lambda>j. [j]" and same = "(=)"]
  by (simp add: mounted_def nodes_of_def split_beta upt_rec)

text \<open>
  A text lies between two comments and is moved node by node. When the child before it is replaced at the same time,
  the node before which it is to go can be its own first comment: then its other nodes land before that comment.
\<close>

lemma moved_text_is_torn:
  "let host = (\<lambda>j. if j = 0 then Delimited 10 12 else Node (20 + j));
       markup = (\<lambda>j. if j = 0 then [10, 11, 12] else [20 + j]);
       old = [(''t'', \<lparr>c_inst = 0, c_elem = 0, c_index = 0\<rparr>), (''x'', \<lparr>c_inst = 1, c_elem = 1, c_index = 1\<rparr>)]
   in case update_children (=) host markup 2 old [(''x'', 2), (''t'', 0 :: nat)] of (us, a) \<Rightarrow>
        map (\<lambda>sv. c_inst (snd sv)) a = [2, 0] \<and> processUpdates us [10, 11, 12, 21] = Some [22, 11, 12, 10]"
  by (simp add: update_children_def updateChildren_def instantiate_def process_update_def getNodeAfter_def moveChild_def
      insert_before_def removeChild_def remove_child_def moveDelimitedText.simps Let_def)

end
