(* ===== verification/Script_Markup.thy ===== *)
theory Script_Markup
  imports Script_Prelude
begin

text \<open>
  Text that React puts into markup (escapeTextContentForBrowser, quoteAttributeValueForBrowser), and the text that an input
  method has inserted (FallbackCompositionState).
\<close>

section \<open>Escaping\<close>

definition escape_of :: "nat \<Rightarrow> js option" where
  "escape_of c =
     (if c = 34 then Some (lit ''&quot;'')
      else if c = 38 then Some (lit ''&amp;'')
      else if c = 39 then Some (lit ''&#x27;'')
      else if c = 60 then Some (lit ''&lt;'')
      else if c = 62 then Some (lit ''&gt;'')
      else None)"

definition substring :: "js \<Rightarrow> nat \<Rightarrow> nat \<Rightarrow> js" where
  "substring t s a = take (a - s) (drop s t)"

text \<open>The loop from position \<open>a\<close>: the text from \<open>s\<close> on is still to be copied, \<open>i\<close> is the markup so far.\<close>

function escape_loop :: "js \<Rightarrow> nat \<Rightarrow> nat \<Rightarrow> js \<Rightarrow> js" where
  "escape_loop t a s i =
     (if a < length t then
        (case escape_of (t ! a) of
           None \<Rightarrow> escape_loop t (Suc a) s i
         | Some r \<Rightarrow> escape_loop t (Suc a) (Suc a) ((if s \<noteq> a then i @ substring t s a else i) @ r))
      else if s \<noteq> a then i @ substring t s a else i)"
  by pat_completeness auto
termination by (relation "measure (\<lambda>(t, a, s, i). length t - a)") auto

declare escape_loop.simps [simp del]

text \<open>The search for the first character to escape, of the expression \<^verbatim>\<open>/["'&<>]/\<close>.\<close>

definition escapeHtml :: "js \<Rightarrow> js" where
  "escapeHtml t =
     (case List.find (\<lambda>a. t ! a \<in> {34, 38, 39, 60, 62}) [0..<length t] of
        None \<Rightarrow> t
      | Some a \<Rightarrow> escape_loop t a 0 [])"

definition quoteAttributeValue :: "js \<Rightarrow> js" where
  "quoteAttributeValue t = lit [CHR 0x22] @ escapeHtml t @ lit [CHR 0x22]"

definition escaped :: "js \<Rightarrow> js" where
  "escaped t = concat (map (\<lambda>c. case escape_of c of None \<Rightarrow> [c] | Some r \<Rightarrow> r) t)"

text \<open>What a browser reads: the five references that are written.\<close>

fun read_markup :: "js \<Rightarrow> js" where
  "read_markup [] = []"
| "read_markup (c # t) =
     (if c = 38 then
        (if take 5 t = lit ''quot;'' then 34 # read_markup (drop 5 t)
         else if take 4 t = lit ''amp;'' then 38 # read_markup (drop 4 t)
         else if take 5 t = lit ''#x27;'' then 39 # read_markup (drop 5 t)
         else if take 3 t = lit ''lt;'' then 60 # read_markup (drop 3 t)
         else if take 3 t = lit ''gt;'' then 62 # read_markup (drop 3 t)
         else c # read_markup t)
      else c # read_markup t)"

lemma escaped_append: "escaped (s @ t) = escaped s @ escaped t"
  by (simp add: escaped_def)

lemma escape_loop_eq:
  "s \<le> a \<Longrightarrow> a \<le> length t \<Longrightarrow> (\<forall>c \<in> set (substring t s a). escape_of c = None) \<Longrightarrow>
   escape_loop t a s i = i @ escaped (drop s t)"
proof (induction t a s i rule: escape_loop.induct)
  case (1 t a s i)
  have plain: "escaped u = u" if "\<forall>c \<in> set u. escape_of c = None" for u
    using that by (induction u) (simp_all add: escaped_def)
  show ?case
  proof (cases "a < length t")
    case True
    then have split: "drop s t = substring t s a @ t ! a # drop (Suc a) t"
      using 1(3) by (metis Cons_nth_drop_Suc append_take_drop_id drop_drop le_add_diff_inverse2 substring_def)
    show ?thesis
    proof (cases "escape_of (t ! a)")
      case None
      have "substring t s (Suc a) = substring t s a @ [t ! a]"
        using True 1(3) by (simp add: substring_def Suc_diff_le take_Suc_conv_app_nth)
      then have "escape_loop t (Suc a) s i = i @ escaped (drop s t)"
        using None True 1(3,5) by (intro 1(1)) auto
      then show ?thesis using None True by (simp add: escape_loop.simps [of t a])
    next
      case (Some r)
      have "escape_loop t (Suc a) (Suc a) ((if s \<noteq> a then i @ substring t s a else i) @ r) =
          ((if s \<noteq> a then i @ substring t s a else i) @ r) @ escaped (drop (Suc a) t)"
        using True by (intro 1(2) [OF True Some]) (simp_all add: substring_def)
      moreover have "escaped (drop s t) = substring t s a @ r @ escaped (drop (Suc a) t)"
        using plain [OF 1(5)] Some unfolding split escaped_append by (simp add: escaped_def)
      moreover have "s = a \<Longrightarrow> substring t s a = []" by (simp add: substring_def)
      ultimately show ?thesis using Some True by (simp add: escape_loop.simps [of t a])
    qed
  next
    case False
    then have "substring t s a = drop s t" using 1(4) by (simp add: substring_def)
    then have "escaped (drop s t) = substring t s a" using plain [OF 1(5)] by simp
    moreover have "s = a \<Longrightarrow> substring t s a = []" by (simp add: substring_def)
    ultimately show ?thesis using False unfolding escape_loop.simps [of t a s i] by simp
  qed
qed

lemma escape_of_None: "escape_of c = None \<longleftrightarrow> c \<notin> {34, 38, 39, 60, 62}"
  by (simp add: escape_of_def)

lemma escapeHtml_eq: "escapeHtml t = escaped t"
proof (cases "List.find (\<lambda>a. t ! a \<in> {34, 38, 39, 60, 62}) [0..<length t]")
  case None
  then have "\<forall>c \<in> set t. escape_of c = None" by (auto simp: find_None_iff escape_of_None in_set_conv_nth)
  then have "escaped t = t" by (induction t) (simp_all add: escaped_def)
  then show ?thesis using None by (simp add: escapeHtml_def)
next
  case (Some a)
  then have a: "a < length t" "\<forall>j < a. t ! j \<notin> {34, 38, 39, 60, 62}"
    by (auto simp: find_Some_iff)
  then have "\<forall>c \<in> set (substring t 0 a). escape_of c = None"
    by (auto simp: substring_def escape_of_None in_set_conv_nth)
  then show ?thesis using escape_loop_eq [of 0 a t "[]"] a(1) Some by (simp add: escapeHtml_def)
qed

lemma read_escaped: "read_markup (escaped t) = t"
proof (induction t)
  case (Cons c t)
  then show ?case by (simp add: escaped_def escape_of_def lit_def numeral_eq_Suc)
qed (simp add: escaped_def)

text \<open>C34: Markup for a text contains no quote and no angle bracket, and an ampersand only where a reference starts, so that no text can end an attribute
  or open an element; the browser reads the text back from it, whatever its characters.
\<close>

theorem markup_is_safe:
  "set (escapeHtml t) \<inter> {34, 39, 60, 62} = {} \<and> read_markup (escapeHtml t) = t \<and>
   quoteAttributeValue t = [34] @ escapeHtml t @ [34]"
proof -
  have "set (case escape_of c of None \<Rightarrow> [c] | Some r \<Rightarrow> r) \<inter> {34, 39, 60, 62} = {}" for c
    by (simp add: escape_of_def lit_def)
  then have "set (escaped t) \<inter> {34, 39, 60, 62} = {}" by (auto simp: escaped_def)
  then show ?thesis by (simp add: escapeHtml_eq read_escaped quoteAttributeValue_def lit_def)
qed

section \<open>Text from an input method\<close>

text \<open>The lengths of the start and of the end that the two texts share.\<close>

fun shared_start :: "js \<Rightarrow> js \<Rightarrow> nat" where
  "shared_start (c # n) (d # o1) = (if c = d then Suc (shared_start n o1) else 0)"
| "shared_start n o1 = 0"

text \<open>\<open>a\<close> is the number of characters that may still be compared from the back, \<open>n\<close> and \<open>o1\<close> are reversed.\<close>

fun shared_end :: "nat \<Rightarrow> js \<Rightarrow> js \<Rightarrow> nat" where
  "shared_end (Suc a) (c # n) (d # o1) = (if c = d then Suc (shared_end a n o1) else 0)"
| "shared_end a n o1 = 0"

text \<open>The text found first is kept, unless it is empty.\<close>

definition getData :: "js \<Rightarrow> js \<Rightarrow> js option \<Rightarrow> js \<times> js option" where
  "getData n o1 fallback =
     (case fallback of
        Some (c # d) \<Rightarrow> (c # d, fallback)
      | _ \<Rightarrow>
          (let e = shared_start n o1; t = shared_end (length n - e) (rev n) (rev o1); d = take (length o1 - t - e) (drop e o1)
           in (d, Some d)))"

lemma shared_start_take: "take (shared_start n o1) n = take (shared_start n o1) o1 \<and> shared_start n o1 \<le> length n \<and> shared_start n o1 \<le> length o1"
  by (induction n o1 rule: shared_start.induct) auto

lemma shared_end_take: "take (shared_end a n o1) n = take (shared_end a n o1) o1 \<and> shared_end a n o1 \<le> length o1 \<and> shared_end a n o1 \<le> length n \<and>
    shared_end a n o1 \<le> a"
  by (induction a n o1 rule: shared_end.induct) auto

lemma drop_take_rev: "t \<le> length n \<Longrightarrow> t \<le> length o1 \<Longrightarrow> take t (rev n) = take t (rev o1) \<Longrightarrow> drop (length n - t) n = drop (length o1 - t) o1"
  by (metis rev_rev_ident rev_take length_rev diff_diff_cancel drop_rev take_rev)

text \<open>
  Where the parts that are shared do not overlap in the new text, it is the old text with the text found in place of what
  lies between them.
\<close>

lemma getData_inserts:
  fixes n o1 :: js
  defines "e \<equiv> shared_start n o1"
  defines "t \<equiv> shared_end (length n - e) (rev n) (rev o1)"
  assumes "e + t \<le> length o1"
  shows "o1 = take e n @ fst (getData n o1 None) @ drop (length n - t) n \<and> e + t \<le> length n"
proof -
  have e: "take e n = take e o1" "e \<le> length n" using shared_start_take [of n o1] by (auto simp: e_def)
  have t: "t \<le> length n - e" "t \<le> length o1" "take t (rev n) = take t (rev o1)"
    using shared_end_take [of "length n - e" "rev n" "rev o1"] by (auto simp: t_def)
  have "drop (length n - t) n = drop (length o1 - t) o1" by (rule drop_take_rev) (use t in auto)
  moreover have "fst (getData n o1 None) = take (length o1 - t - e) (drop e o1)"
    by (simp add: getData_def Let_def e_def t_def)
  moreover have "drop e o1 = take (length o1 - t - e) (drop e o1) @ drop (length o1 - t) o1"
    using append_take_drop_id [of "length o1 - t - e" "drop e o1"] assms(3) by simp
  ultimately show ?thesis using e t(1) append_take_drop_id [of e o1] by auto
qed

end
