(* ===== verification/Script_Yaml_Reader.thy ===== *)
theory Script_Yaml_Reader
  imports Script_Prelude
begin

text \<open>
  The readers of scalars in the YAML loader (js-yaml). The state holds the input, which the loader ends with a zero, the
  place in it and the result so far. The type \<open>'a run\<close> is what a call may do: never return, throw, or return a value;
  a loop runs forever when it leaves the input without having met the zero. Warnings are left out.
\<close>

record yaml_state =
  y_input :: js
  y_position :: nat
  y_line :: nat
  y_lineStart :: nat
  y_lineIndent :: nat
  y_kind :: "string option"
  y_result :: "js option"

type_synonym 'a run = "(string + 'a) option"

text \<open>\<^verbatim>\<open>charCodeAt\<close>: \<^const>\<open>None\<close> is \<^verbatim>\<open>NaN\<close>, which is equal to no number.\<close>

definition codeAt :: "yaml_state \<Rightarrow> nat \<Rightarrow> nat option" where
  "codeAt s p = (if p < length (y_input s) then Some (y_input s ! p) else None)"

abbreviation code :: "yaml_state \<Rightarrow> nat option" where
  "code s \<equiv> codeAt s (y_position s)"

abbreviation moved :: "nat \<Rightarrow> yaml_state \<Rightarrow> yaml_state" where
  "moved k s \<equiv> s\<lparr>y_position := y_position s + k\<rparr>"

section \<open>Characters\<close>

definition is_EOL :: "nat option \<Rightarrow> bool" where
  "is_EOL c \<longleftrightarrow> c = Some 10 \<or> c = Some 13"

definition is_WHITE_SPACE :: "nat option \<Rightarrow> bool" where
  "is_WHITE_SPACE c \<longleftrightarrow> c = Some 9 \<or> c = Some 32"

definition is_WS_OR_EOL :: "nat option \<Rightarrow> bool" where
  "is_WS_OR_EOL c \<longleftrightarrow> c = Some 9 \<or> c = Some 32 \<or> c = Some 10 \<or> c = Some 13"

definition is_FLOW_INDICATOR :: "nat option \<Rightarrow> bool" where
  "is_FLOW_INDICATOR c \<longleftrightarrow> c = Some 44 \<or> c = Some 91 \<or> c = Some 93 \<or> c = Some 123 \<or> c = Some 125"

definition fromHexCode :: "nat option \<Rightarrow> nat option" where
  "fromHexCode c =
     (case c of
        None \<Rightarrow> None
      | Some e \<Rightarrow>
          if 48 \<le> e \<and> e \<le> 57 then Some (e - 48)
          else if 97 \<le> e OR 32 \<and> e OR 32 \<le> 102 then Some ((e OR 32) - 97 + 10)
          else None)"

definition escapedHexLen :: "nat option \<Rightarrow> nat" where
  "escapedHexLen c = (if c = Some 120 then 2 else if c = Some 117 then 4 else if c = Some 85 then 8 else 0)"

definition fromDecimalCode :: "nat option \<Rightarrow> nat option" where
  "fromDecimalCode c = (case c of None \<Rightarrow> None | Some e \<Rightarrow> if 48 \<le> e \<and> e \<le> 57 then Some (e - 48) else None)"

definition simpleEscapeSequence :: "nat option \<Rightarrow> js" where
  "simpleEscapeSequence c =
     (if c = Some 48 then [0] else if c = Some 97 then [7] else if c = Some 98 then [8]
      else if c = Some 116 then [9] else if c = Some 9 then [9] else if c = Some 110 then [10]
      else if c = Some 118 then [11] else if c = Some 102 then [12] else if c = Some 114 then [13]
      else if c = Some 101 then [27] else if c = Some 32 then [32] else if c = Some 34 then [34]
      else if c = Some 47 then [47] else if c = Some 92 then [92] else if c = Some 78 then [133]
      else if c = Some 95 then [160] else if c = Some 76 then [8232] else if c = Some 80 then [8233] else [])"

text \<open>\<^verbatim>\<open>String.fromCharCode\<close> takes its arguments modulo \<open>2 ^ 16\<close>.\<close>

definition charFromCodepoint :: "int \<Rightarrow> js" where
  "charFromCodepoint e =
     (if e \<le> 65535 then [nat (e mod 65536)]
      else [nat (((e - 65536) div 1024 + 55296) mod 65536), nat ((e - 65536) mod 1024 + 56320)])"

text \<open>The result of \<^verbatim>\<open><<\<close> is a signed integer of 32 bits.\<close>

definition shift4 :: "int \<Rightarrow> int" where
  "shift4 a = (a * 16 + 2 ^ 31) mod 2 ^ 32 - 2 ^ 31"

section \<open>Segments, lines and separators\<close>

definition surrogate_high :: "nat \<Rightarrow> bool" where
  "surrogate_high c \<longleftrightarrow> 55296 \<le> c \<and> c \<le> 56319"

definition surrogate_low :: "nat \<Rightarrow> bool" where
  "surrogate_low c \<longleftrightarrow> 56320 \<le> c \<and> c \<le> 57343"

text \<open>The expression \<^verbatim>\<open>PATTERN_NON_PRINTABLE\<close>; the flag says that a high surrogate stands before the text.\<close>

fun non_printable :: "bool \<Rightarrow> js \<Rightarrow> bool" where
  "non_printable h [] \<longleftrightarrow> False"
| "non_printable h (c # t) \<longleftrightarrow>
     c \<le> 8 \<or> c = 11 \<or> c = 12 \<or> 14 \<le> c \<and> c \<le> 31 \<or> 127 \<le> c \<and> c \<le> 132 \<or> 134 \<le> c \<and> c \<le> 159 \<or> c = 65534 \<or> c = 65535 \<or>
     surrogate_high c \<and> (case t of [] \<Rightarrow> True | d # u \<Rightarrow> \<not> surrogate_low d) \<or>
     surrogate_low c \<and> \<not> h \<or>
     non_printable (surrogate_high c) t"

definition slice :: "js \<Rightarrow> nat \<Rightarrow> nat \<Rightarrow> js" where
  "slice t a b = take (b - a) (drop a t)"

definition add_result :: "js \<Rightarrow> yaml_state \<Rightarrow> yaml_state" where
  "add_result t s = s\<lparr>y_result := map_option (\<lambda>r. r @ t) (y_result s)\<rparr>"

definition captureSegment :: "nat \<Rightarrow> nat \<Rightarrow> bool \<Rightarrow> yaml_state \<Rightarrow> string + yaml_state" where
  "captureSegment a b checkJson s =
     (if a < b then
        (let t = slice (y_input s) a b
         in if checkJson \<and> \<not> list_all (\<lambda>c. c = 9 \<or> 32 \<le> c \<and> c \<le> 1114111) t then Inl ''expected valid JSON character''
            else if \<not> checkJson \<and> non_printable False t then Inl ''the stream contains non-printable characters''
            else Inr (add_result t s))
      else Inr s)"

definition readLineBreak :: "yaml_state \<Rightarrow> string + yaml_state" where
  "readLineBreak s =
     (let next = (\<lambda>s. s\<lparr>y_line := Suc (y_line s), y_lineStart := y_position s\<rparr>)
      in if code s = Some 10 then Inr (next (moved 1 s))
         else if code s = Some 13 then
           Inr (next (if codeAt s (Suc (y_position s)) = Some 10 then moved 2 s else moved 1 s))
         else Inl ''a line break is expected'')"

function skip_chars :: "(nat \<Rightarrow> bool) \<Rightarrow> yaml_state \<Rightarrow> yaml_state" where
  "skip_chars P s =
     (case code s of None \<Rightarrow> s | Some c \<Rightarrow> if P c then skip_chars P (moved 1 s) else s)"
  by pat_completeness auto
termination by (relation "measure (\<lambda>(P, s). length (y_input s) - y_position s)") (auto simp: codeAt_def split: if_splits)

declare skip_chars.simps [simp del]

text \<open>Spaces at the start of a line are counted.\<close>

definition count_indent :: "yaml_state \<Rightarrow> yaml_state" where
  "count_indent s = (let r = skip_chars (\<lambda>c. c = 32) s in r\<lparr>y_lineIndent := y_position r - y_position s\<rparr>)"

definition skip_comment :: "yaml_state \<Rightarrow> yaml_state run" where
  "skip_comment s =
     (let r = skip_chars (\<lambda>c. c \<notin> {10, 13, 0}) (moved 1 s) in if code r = None then None else Some (Inr r))"

partial_function (option) skip_separation :: "bool \<Rightarrow> nat \<Rightarrow> yaml_state \<Rightarrow> (nat \<times> yaml_state) run" where
  "skip_separation comments i s =
     (if code s = Some 0 then Some (Inr (i, s))
      else let w = skip_chars (\<lambda>c. is_WHITE_SPACE (Some c)) s
           in case (if comments \<and> code w = Some 35 then skip_comment w else Some (Inr w)) of
                None \<Rightarrow> None
              | Some (Inl x) \<Rightarrow> Some (Inl x)
              | Some (Inr c) \<Rightarrow>
                  if is_EOL (code c) then
                    (case readLineBreak c of
                       Inl x \<Rightarrow> Some (Inl x)
                     | Inr l \<Rightarrow> skip_separation comments (Suc i) (count_indent l))
                  else Some (Inr (i, c)))"

definition skipSeparationSpace :: "bool \<Rightarrow> yaml_state \<Rightarrow> (nat \<times> yaml_state) run" where
  "skipSeparationSpace comments s = skip_separation comments 0 s"

definition testDocumentSeparator :: "yaml_state \<Rightarrow> bool" where
  "testDocumentSeparator s \<longleftrightarrow>
     (let c = code s; p = y_position s
      in (c = Some 45 \<or> c = Some 46) \<and> c = codeAt s (p + 1) \<and> c = codeAt s (p + 2) \<and>
         (codeAt s (p + 3) = Some 0 \<or> is_WS_OR_EOL (codeAt s (p + 3))))"

definition writeFoldedLines :: "nat \<Rightarrow> yaml_state \<Rightarrow> yaml_state" where
  "writeFoldedLines n s = (if n = 1 then add_result [32] s else if n > 1 then add_result (replicate (n - 1) 10) s else s)"

text \<open>A reader sets the kind and starts an empty result.\<close>

definition start_scalar :: "yaml_state \<Rightarrow> yaml_state" where
  "start_scalar s = s\<lparr>y_kind := Some ''scalar'', y_result := Some []\<rparr>"

section \<open>Quoted scalars\<close>

text \<open>A line break inside a quoted scalar: the segment up to it, then the folded lines; the segments start anew there.\<close>

definition fold_break :: "nat \<Rightarrow> nat \<Rightarrow> yaml_state \<Rightarrow> yaml_state run" where
  "fold_break a b s =
     (case captureSegment a b True s of
        Inl x \<Rightarrow> Some (Inl x)
      | Inr s1 \<Rightarrow>
          (case skipSeparationSpace False s1 of
             None \<Rightarrow> None
           | Some (Inl x) \<Rightarrow> Some (Inl x)
           | Some (Inr (n, s2)) \<Rightarrow> Some (Inr (writeFoldedLines n s2))))"

partial_function (option) single_loop :: "nat \<Rightarrow> nat \<Rightarrow> yaml_state \<Rightarrow> (bool \<times> yaml_state) run" where
  "single_loop a b s =
     (if code s = Some 0 then Some (Inl ''unexpected end of the stream within a single quoted scalar'')
      else if code s = Some 39 then
        (case captureSegment a (y_position s) True s of
           Inl x \<Rightarrow> Some (Inl x)
         | Inr s1 \<Rightarrow>
             if codeAt s1 (y_position s1 + 1) \<noteq> Some 39 then Some (Inr (True, moved 1 s1))
             else single_loop (y_position s1 + 1) (y_position s1 + 2) (moved 2 s1))
      else if is_EOL (code s) then
        (case fold_break a b s of
           None \<Rightarrow> None
         | Some (Inl x) \<Rightarrow> Some (Inl x)
         | Some (Inr s1) \<Rightarrow> single_loop (y_position s1) (y_position s1) s1)
      else if y_position s = y_lineStart s \<and> testDocumentSeparator s then
        Some (Inl ''unexpected end of the document within a single quoted scalar'')
      else single_loop a (y_position s + 1) (moved 1 s))"

definition readSingleQuotedScalar :: "yaml_state \<Rightarrow> (bool \<times> yaml_state) run" where
  "readSingleQuotedScalar s =
     (if code s \<noteq> Some 39 then Some (Inr (False, s))
      else let s1 = moved 1 (start_scalar s) in single_loop (y_position s1) (y_position s1) s1)"

fun read_hex :: "nat \<Rightarrow> int \<Rightarrow> yaml_state \<Rightarrow> string + (int \<times> yaml_state)" where
  "read_hex 0 a s = Inr (a, s)"
| "read_hex (Suc n) a s =
     (case fromHexCode (codeAt s (y_position s + 1)) of
        None \<Rightarrow> Inl ''expected hexadecimal character''
      | Some c \<Rightarrow> read_hex n (shift4 a + int c) (moved 1 s))"

text \<open>The character after a backslash, which is the position of \<open>s\<close>.\<close>

definition read_escape :: "yaml_state \<Rightarrow> yaml_state run" where
  "read_escape s =
     (let l = code s
      in if is_EOL l then
           (case skipSeparationSpace False s of
              None \<Rightarrow> None
            | Some (Inl x) \<Rightarrow> Some (Inl x)
            | Some (Inr (n, s1)) \<Rightarrow> Some (Inr s1))
         else if (case l of None \<Rightarrow> False | Some c \<Rightarrow> c < 256) \<and> simpleEscapeSequence l \<noteq> [] then
           Some (Inr (moved 1 (add_result (simpleEscapeSequence l) s)))
         else if escapedHexLen l > 0 then
           (case read_hex (escapedHexLen l) 0 s of
              Inl x \<Rightarrow> Some (Inl x)
            | Inr (a, s1) \<Rightarrow> Some (Inr (moved 1 (add_result (charFromCodepoint a) s1))))
         else Some (Inl ''unknown escape sequence''))"

partial_function (option) double_loop :: "nat \<Rightarrow> nat \<Rightarrow> yaml_state \<Rightarrow> (bool \<times> yaml_state) run" where
  "double_loop a b s =
     (if code s = Some 0 then Some (Inl ''unexpected end of the stream within a double quoted scalar'')
      else if code s = Some 34 then
        (case captureSegment a (y_position s) True s of
           Inl x \<Rightarrow> Some (Inl x)
         | Inr s1 \<Rightarrow> Some (Inr (True, moved 1 s1)))
      else if code s = Some 92 then
        (case captureSegment a (y_position s) True s of
           Inl x \<Rightarrow> Some (Inl x)
         | Inr s1 \<Rightarrow>
             (case read_escape (moved 1 s1) of
                None \<Rightarrow> None
              | Some (Inl x) \<Rightarrow> Some (Inl x)
              | Some (Inr s2) \<Rightarrow> double_loop (y_position s2) (y_position s2) s2))
      else if is_EOL (code s) then
        (case fold_break a b s of
           None \<Rightarrow> None
         | Some (Inl x) \<Rightarrow> Some (Inl x)
         | Some (Inr s1) \<Rightarrow> double_loop (y_position s1) (y_position s1) s1)
      else if y_position s = y_lineStart s \<and> testDocumentSeparator s then
        Some (Inl ''unexpected end of the document within a double quoted scalar'')
      else double_loop a (y_position s + 1) (moved 1 s))"

definition readDoubleQuotedScalar :: "yaml_state \<Rightarrow> (bool \<times> yaml_state) run" where
  "readDoubleQuotedScalar s =
     (if code s \<noteq> Some 34 then Some (Inr (False, s))
      else let s1 = moved 1 (start_scalar s) in double_loop (y_position s1) (y_position s1) s1)"

section \<open>Plain scalars\<close>

text \<open>What ends a plain scalar within its line.\<close>

definition plain_stops :: "bool \<Rightarrow> yaml_state \<Rightarrow> bool" where
  "plain_stops flow s \<longleftrightarrow>
     (let m = code s; u = codeAt s (y_position s + 1)
      in if m = Some 58 then is_WS_OR_EOL u \<or> flow \<and> is_FLOW_INDICATOR u
         else if m = Some 35 then is_WS_OR_EOL (codeAt s (y_position s - 1))
         else y_position s = y_lineStart s \<and> testDocumentSeparator s \<or> flow \<and> is_FLOW_INDICATOR m)"

text \<open>
  The segment read last goes from \<open>a\<close> to \<open>b\<close>. After a line break that belongs to the scalar, \<open>pending\<close> is the line it
  was on: the segment and the folded lines are added once a further character follows.
\<close>

definition flush_pending :: "nat option \<Rightarrow> nat \<Rightarrow> nat \<Rightarrow> yaml_state \<Rightarrow> string + (nat \<times> nat \<times> yaml_state)" where
  "flush_pending pending a b s =
     (case pending of
        None \<Rightarrow> Inr (a, b, s)
      | Some line \<Rightarrow>
          (case captureSegment a b False s of
             Inl x \<Rightarrow> Inl x
           | Inr s1 \<Rightarrow> Inr (y_position s, y_position s, writeFoldedLines (y_line s1 - line) s1)))"

partial_function (option) plain_loop ::
  "nat \<Rightarrow> bool \<Rightarrow> nat \<Rightarrow> nat \<Rightarrow> nat option \<Rightarrow> yaml_state \<Rightarrow> (nat \<times> nat \<times> yaml_state) run" where
  "plain_loop indent flow a b pending s =
     (if code s = Some 0 \<or> plain_stops flow s then Some (Inr (a, b, s))
      else if is_EOL (code s) then
        (case skipSeparationSpace False s of
           None \<Rightarrow> None
         | Some (Inl x) \<Rightarrow> Some (Inl x)
         | Some (Inr (n, s1)) \<Rightarrow>
             if indent \<le> y_lineIndent s1 then plain_loop indent flow a b (Some (y_line s)) s1
             else Some (Inr (a, b, s1\<lparr>y_position := b, y_line := y_line s, y_lineStart := y_lineStart s, y_lineIndent := y_lineIndent s\<rparr>)))
      else
        (case flush_pending pending a b s of
           Inl x \<Rightarrow> Some (Inl x)
         | Inr (a1, b1, s1) \<Rightarrow>
             plain_loop indent flow a1 (if is_WHITE_SPACE (code s1) then b1 else y_position s1 + 1) None (moved 1 s1)))"

definition readPlainScalar :: "nat \<Rightarrow> bool \<Rightarrow> yaml_state \<Rightarrow> (bool \<times> yaml_state) run" where
  "readPlainScalar indent flow s =
     (let m = code s; u = codeAt s (y_position s + 1)
      in if is_WS_OR_EOL m \<or> is_FLOW_INDICATOR m \<or> m \<in> Some ` {35, 38, 42, 33, 124, 62, 39, 34, 37, 64, 96} then Some (Inr (False, s))
         else if (m = Some 63 \<or> m = Some 45) \<and> (is_WS_OR_EOL u \<or> flow \<and> is_FLOW_INDICATOR u) then Some (Inr (False, s))
         else
           (case plain_loop indent flow (y_position s) (y_position s) None (start_scalar s) of
              None \<Rightarrow> None
            | Some (Inl x) \<Rightarrow> Some (Inl x)
            | Some (Inr (a, b, s1)) \<Rightarrow>
                (case captureSegment a b False s1 of
                   Inl x \<Rightarrow> Some (Inl x)
                 | Inr s2 \<Rightarrow>
                     if y_result s2 \<noteq> Some [] then Some (Inr (True, s2))
                     else Some (Inr (False, s2\<lparr>y_kind := y_kind s, y_result := y_result s\<rparr>)))))"

section \<open>Block scalars\<close>

datatype chomping = CLIP | STRIP | KEEP

text \<open>The characters after the indicator: how to chomp, whether the indentation is given, and what it is.\<close>

partial_function (option) block_header ::
  "nat \<Rightarrow> chomping \<Rightarrow> bool \<Rightarrow> nat \<Rightarrow> yaml_state \<Rightarrow> (chomping \<times> bool \<times> nat \<times> yaml_state) run" where
  "block_header node chomp given indent s =
     (if code s = Some 0 then Some (Inr (chomp, given, indent, s))
      else let s1 = moved 1 s; c = code s1
           in if c = Some 43 \<or> c = Some 45 then
                (if chomp = CLIP then block_header node (if c = Some 43 then KEEP else STRIP) given indent s1
                 else Some (Inl ''repeat of a chomping mode identifier''))
              else
                (case fromDecimalCode c of
                   None \<Rightarrow> Some (Inr (chomp, given, indent, s1))
                 | Some a \<Rightarrow>
                     if a = 0 then Some (Inl ''bad explicit indentation width of a block scalar; it cannot be less than one'')
                     else if given then Some (Inl ''repeat of an indentation width identifier'')
                     else block_header node chomp True (node + a - 1) s1))"

definition to_line_end :: "yaml_state \<Rightarrow> yaml_state run" where
  "to_line_end s = (let r = skip_chars (\<lambda>c. c \<notin> {10, 13, 0}) s in if code r = None then None else Some (Inr r))"

definition after_header :: "yaml_state \<Rightarrow> yaml_state run" where
  "after_header s =
     (if is_WHITE_SPACE (code s) then
        (let r = skip_chars (\<lambda>c. is_WHITE_SPACE (Some c)) s in if code r = Some 35 then skip_comment r else Some (Inr r))
      else Some (Inr s))"

text \<open>Spaces are counted up to the indentation, when it is known.\<close>

definition block_indent :: "bool \<Rightarrow> nat \<Rightarrow> yaml_state \<Rightarrow> yaml_state" where
  "block_indent known indent s =
     (let k = length (takeWhile (\<lambda>c. c = 32) (drop (y_position s) (y_input s)));
          k' = (if known then min k indent else k)
      in (moved k' s)\<lparr>y_lineIndent := k'\<rparr>)"

text \<open>What joins a line of the scalar to those before it, and whether the line is indented more.\<close>

definition block_joint :: "bool \<Rightarrow> bool \<Rightarrow> bool \<Rightarrow> nat \<Rightarrow> nat option \<Rightarrow> js \<times> bool" where
  "block_joint folds content deeper blanks c =
     (let all = replicate (if content then Suc blanks else blanks) 10
      in if folds then
           (if is_WHITE_SPACE c then (all, True)
            else if deeper then (replicate (Suc blanks) 10, False)
            else if blanks = 0 then (if content then [32] else [], deeper)
            else (replicate blanks 10, deeper))
         else (all, deeper))"

definition block_end :: "chomping \<Rightarrow> bool \<Rightarrow> nat \<Rightarrow> js" where
  "block_end chomp content blanks =
     (if chomp = KEEP then replicate (if content then Suc blanks else blanks) 10
      else if chomp = CLIP \<and> content then [10] else [])"

partial_function (option) block_loop ::
  "bool \<Rightarrow> chomping \<Rightarrow> bool \<Rightarrow> bool \<Rightarrow> nat \<Rightarrow> nat \<Rightarrow> bool \<Rightarrow> yaml_state \<Rightarrow> yaml_state run" where
  "block_loop folds chomp content known indent blanks deeper s =
     (if code s = Some 0 then Some (Inr s)
      else
        (case readLineBreak s of
           Inl x \<Rightarrow> Some (Inl x)
         | Inr s1 \<Rightarrow>
             (let s2 = block_indent known indent s1;
                  indent' = (if \<not> known \<and> indent < y_lineIndent s2 then y_lineIndent s2 else indent)
              in if is_EOL (code s2) then block_loop folds chomp content known indent' (Suc blanks) deeper s2
                 else if y_lineIndent s2 < indent' then Some (Inr (add_result (block_end chomp content blanks) s2))
                 else
                   (case to_line_end (add_result (fst (block_joint folds content deeper blanks (code s2))) s2) of
                      None \<Rightarrow> None
                    | Some (Inl x) \<Rightarrow> Some (Inl x)
                    | Some (Inr s3) \<Rightarrow>
                        (case captureSegment (y_position s2) (y_position s3) False s3 of
                           Inl x \<Rightarrow> Some (Inl x)
                         | Inr s4 \<Rightarrow>
                             block_loop folds chomp True True indent' 0 (snd (block_joint folds content deeper blanks (code s2))) s4)))))"

definition readBlockScalar :: "nat \<Rightarrow> yaml_state \<Rightarrow> (bool \<times> yaml_state) run" where
  "readBlockScalar node s =
     (if code s \<noteq> Some 124 \<and> code s \<noteq> Some 62 then Some (Inr (False, s))
      else
        (case block_header node CLIP False node (start_scalar s) of
           None \<Rightarrow> None
         | Some (Inl x) \<Rightarrow> Some (Inl x)
         | Some (Inr (chomp, given, indent, s1)) \<Rightarrow>
             (case after_header s1 of
                None \<Rightarrow> None
              | Some (Inl x) \<Rightarrow> Some (Inl x)
              | Some (Inr s2) \<Rightarrow>
                  (case block_loop (code s = Some 62) chomp False given indent 0 False s2 of
                     None \<Rightarrow> None
                   | Some (Inl x) \<Rightarrow> Some (Inl x)
                   | Some (Inr s3) \<Rightarrow> Some (Inr (True, s3))))))"

declare skip_separation.simps [code] single_loop.simps [code] double_loop.simps [code] plain_loop.simps [code]
  block_header.simps [code] block_loop.simps [code]

end
