(* ===== verification/Script_Yaml_Scalars.thy ===== *)
theory Script_Yaml_Scalars
  imports Script_Yaml_Reader
begin

text \<open>
  How the YAML dumper (js-yaml) writes a string, and that the loader reads it back.
\<close>

section \<open>Characters and escapes\<close>

definition isPrintable :: "nat \<Rightarrow> bool" where
  "isPrintable e \<longleftrightarrow>
     32 \<le> e \<and> e \<le> 126 \<or> 161 \<le> e \<and> e \<le> 55295 \<and> e \<noteq> 8232 \<and> e \<noteq> 8233 \<or>
     57344 \<le> e \<and> e \<le> 65533 \<and> e \<noteq> 65279 \<or> 65536 \<le> e \<and> e \<le> 1114111"

definition isWhitespace :: "nat \<Rightarrow> bool" where
  "isWhitespace e \<longleftrightarrow> e = 32 \<or> e = 9"

definition isPlainSafe :: "nat \<Rightarrow> bool" where
  "isPlainSafe e \<longleftrightarrow> isPrintable e \<and> e \<noteq> 65279 \<and> e \<notin> {44, 91, 93, 123, 125, 58, 35}"

definition isPlainSafeFirst :: "nat \<Rightarrow> bool" where
  "isPlainSafeFirst e \<longleftrightarrow>
     isPrintable e \<and> e \<noteq> 65279 \<and> \<not> isWhitespace e \<and>
     e \<notin> {45, 63, 58, 44, 91, 93, 123, 125, 35, 38, 42, 33, 124, 62, 39, 34, 37, 64, 96}"

text \<open>\<^verbatim>\<open>toString(16).toUpperCase()\<close>.\<close>

definition upper_digit :: "nat \<Rightarrow> nat" where
  "upper_digit n = (if n < 10 then 48 + n else 55 + n)"

fun upper_hex :: "nat \<Rightarrow> js" where
  "upper_hex n = (if n < 16 then [upper_digit n] else upper_hex (n div 16) @ [upper_digit (n mod 16)])"

declare upper_hex.simps [simp del]

definition encodeHex :: "nat \<Rightarrow> js option" where
  "encodeHex e =
     (let t = upper_hex e; out = (\<lambda>n r. Some ([92, n] @ replicate (r - length t) 48 @ t))
      in if e \<le> 255 then out 120 2
         else if e \<le> 65535 then out 117 4
         else if e \<le> 4294967295 then out 85 8
         else None)"

definition ESCAPE_SEQUENCES :: "nat \<Rightarrow> js option" where
  "ESCAPE_SEQUENCES e =
     (if e = 0 then Some [92, 48] else if e = 7 then Some [92, 97] else if e = 8 then Some [92, 98]
      else if e = 9 then Some [92, 116] else if e = 10 then Some [92, 110] else if e = 11 then Some [92, 118]
      else if e = 12 then Some [92, 102] else if e = 13 then Some [92, 114] else if e = 27 then Some [92, 101]
      else if e = 34 then Some [92, 34] else if e = 92 then Some [92, 92] else if e = 133 then Some [92, 78]
      else if e = 160 then Some [92, 95] else if e = 8232 then Some [92, 76] else if e = 8233 then Some [92, 80]
      else None)"

definition escape_unit :: "nat \<Rightarrow> js option" where
  "escape_unit t =
     (case ESCAPE_SEQUENCES t of
        None \<Rightarrow> if isPrintable t then Some [t] else encodeHex t
      | Some n \<Rightarrow> Some n)"

fun escapeString :: "js \<Rightarrow> js option" where
  "escapeString [] = Some []"
| "escapeString (c # t) =
     (case escape_unit c of
        None \<Rightarrow> None
      | Some u \<Rightarrow> map_option (\<lambda>r. u @ r) (escapeString t))"

section \<open>The style of a scalar\<close>

datatype style = PLAIN | SINGLE | LITERAL | FOLDED | DOUBLE

text \<open>The loop of a text that must stay on one line: whether it is still plain, or \<^const>\<open>None\<close> when a character is not printable.\<close>

fun one_line :: "bool \<Rightarrow> js \<Rightarrow> bool option" where
  "one_line plain [] = Some plain"
| "one_line plain (a # t) = (if \<not> isPrintable a then None else one_line (plain \<and> isPlainSafe a) t)"

text \<open>\<open>width\<close> is \<^const>\<open>None\<close> when the width is not limited; \<open>prev\<close> is the index of the previous line break.\<close>

definition foldable :: "js \<Rightarrow> nat option \<Rightarrow> nat \<Rightarrow> int \<Rightarrow> bool" where
  "foldable e width i prev \<longleftrightarrow>
     (case width of
        None \<Rightarrow> False
      | Some w \<Rightarrow> int i - prev - 1 > int w \<and> js_at e (prev + 1) \<noteq> Some 32)"

fun many_lines :: "js \<Rightarrow> nat option \<Rightarrow> nat \<Rightarrow> js \<Rightarrow> bool \<Rightarrow> bool \<Rightarrow> int \<Rightarrow> bool \<Rightarrow> (bool \<times> bool \<times> bool) option" where
  "many_lines e width i [] breaks long prev plain = Some (breaks, long \<or> foldable e width i prev, plain)"
| "many_lines e width i (a # t) breaks long prev plain =
     (if a = 10 then
        many_lines e width (Suc i) t True (long \<or> foldable e width i prev) (if width = None then prev else int i)
          (plain \<and> isPlainSafe a)
      else if \<not> isPrintable a then None
      else many_lines e width (Suc i) t breaks long prev (plain \<and> isPlainSafe a))"

definition chooseScalarStyle :: "js \<Rightarrow> bool \<Rightarrow> nat \<Rightarrow> nat option \<Rightarrow> (js \<Rightarrow> bool) \<Rightarrow> style" where
  "chooseScalarStyle e singleLine indent width ambiguous =
     (let plain = isPlainSafeFirst (hd e) \<and> \<not> isWhitespace (last e);
          r = (if singleLine then map_option (\<lambda>m. (False, False, m)) (one_line plain e)
               else many_lines e width 0 e False False (-1) plain)
      in case r of
           None \<Rightarrow> DOUBLE
         | Some (breaks, long, m) \<Rightarrow>
             if breaks \<or> long then
               (if hd e = 32 \<and> indent > 9 then DOUBLE else if long then FOLDED else LITERAL)
             else if m \<and> \<not> ambiguous e then PLAIN
             else SINGLE)"

section \<open>Block text\<close>

definition blockHeader :: "js \<Rightarrow> nat \<Rightarrow> js" where
  "blockHeader e t =
     (let n = (if hd e = 32 then decimal t else []);
          r = (last e = 10);
          o1 = (r \<and> (js_at e (int (length e) - 2) = Some 10 \<or> e = [10]));
          i = (if o1 then lit ''+'' else if r then [] else lit ''-'')
      in n @ i @ [10])"

definition dropEndingNewline :: "js \<Rightarrow> js" where
  "dropEndingNewline e = (if e \<noteq> [] \<and> last e = 10 then butlast e else e)"

text \<open>The lines of a text, each with its line feed; a line that is empty is not indented.\<close>

fun lines_of :: "js \<Rightarrow> js \<Rightarrow> js list" where
  "lines_of l [] = (if l = [] then [] else [l])"
| "lines_of l (c # t) = (if c = 10 then (l @ [10]) # lines_of [] t else lines_of (l @ [c]) t)"

definition indentString :: "js \<Rightarrow> nat \<Rightarrow> js" where
  "indentString e t = concat (map (\<lambda>n. (if n \<noteq> [] \<and> n \<noteq> [10] then replicate t 32 else []) @ n) (lines_of [] e))"

text \<open>
  \<^verbatim>\<open>foldLine\<close>: the places where a space stands before another character, found by a search that goes on after the
  character; a line is broken at the last of them that keeps it within the width.
\<close>

function break_places :: "js \<Rightarrow> nat \<Rightarrow> nat list" where
  "break_places e k =
     (if Suc k < length e then
        (if e ! k = 32 \<and> e ! Suc k \<noteq> 32 then k # break_places e (k + 2) else break_places e (Suc k))
      else [])"
  by pat_completeness auto
termination by (relation "measure (\<lambda>(e, k). length e - k)") auto

declare break_places.simps [simp del]

fun fold_places :: "js \<Rightarrow> nat option \<Rightarrow> nat list \<Rightarrow> nat \<Rightarrow> nat \<Rightarrow> js \<Rightarrow> nat \<times> nat \<times> js" where
  "fold_places e width [] i a u = (i, a, u)"
| "fold_places e width (s # ss) i a u =
     (if (case width of None \<Rightarrow> True | Some w \<Rightarrow> s - i > w) then
        (let r = (if a > i then a else s) in fold_places e width ss (Suc r) s (u @ 10 # slice e i r))
      else fold_places e width ss i s u)"

definition foldLine :: "js \<Rightarrow> nat option \<Rightarrow> js" where
  "foldLine e width =
     (if e = [] \<or> hd e = 32 then e
      else
        (case fold_places e width (break_places e 0) 0 0 [] of
           (i, a, u) \<Rightarrow>
             tl (u @ 10 # (if (case width of None \<Rightarrow> True | Some w \<Rightarrow> length e - i > w) \<and> a > i
               then slice e i a @ 10 # drop (Suc a) e else drop i e))))"

text \<open>The lines after the first: each group of line feeds, and the line that follows it.\<close>

function fold_rest :: "nat option \<Rightarrow> bool \<Rightarrow> js \<Rightarrow> js" where
  "fold_rest width deeper [] = []"
| "fold_rest width deeper (c # t) =
     (let s = takeWhile (\<lambda>c. c = 10) (c # t); r = drop (length s) (c # t);
          u = takeWhile (\<lambda>c. c \<noteq> 10) r; n = (u \<noteq> [] \<and> hd u = 32)
      in s @ (if deeper \<or> n \<or> u = [] then [] else [10]) @ foldLine u width @
         (if c = 10 then fold_rest width n (drop (length u) r) else []))"
  by pat_completeness auto
termination by (relation "measure (\<lambda>(w, d, t). length t)") auto

definition foldString :: "js \<Rightarrow> nat option \<Rightarrow> js" where
  "foldString e width =
     (let l = takeWhile (\<lambda>c. c \<noteq> 10) e
      in foldLine l width @ fold_rest width (e \<noteq> [] \<and> (hd e = 10 \<or> hd e = 32)) (drop (length l) e))"

text \<open>
  The types of the schema that a plain scalar may stand for: null, a boolean, a number, a date. The dumper must not write a
  string plainly that one of them takes; the loader gives the value that the first one makes. Some of the types of the
  default schema follow; numbers and dates, found by patterns, are further members of the list.
\<close>

record 'v implicit_type =
  it_resolve :: "js \<Rightarrow> bool"
  it_construct :: "js \<Rightarrow> 'v"

datatype 'v yaml_value = Text js | Made 'v

definition testImplicitResolving :: "'v implicit_type list \<Rightarrow> js \<Rightarrow> bool" where
  "testImplicitResolving tys t \<longleftrightarrow> list_ex (\<lambda>y. it_resolve y t) tys"

fun resolve_implicit :: "'v implicit_type list \<Rightarrow> js \<Rightarrow> 'v yaml_value" where
  "resolve_implicit [] t = Text t"
| "resolve_implicit (y # ys) t = (if it_resolve y t then Made (it_construct y t) else resolve_implicit ys t)"

definition resolveYamlNull :: "js \<Rightarrow> bool" where
  "resolveYamlNull t \<longleftrightarrow>
     length t = 1 \<and> t = lit ''~'' \<or> length t = 4 \<and> (t = lit ''null'' \<or> t = lit ''Null'' \<or> t = lit ''NULL'')"

definition resolveYamlBoolean :: "js \<Rightarrow> bool" where
  "resolveYamlBoolean t \<longleftrightarrow>
     length t = 4 \<and> (t = lit ''true'' \<or> t = lit ''True'' \<or> t = lit ''TRUE'') \<or>
     length t = 5 \<and> (t = lit ''false'' \<or> t = lit ''False'' \<or> t = lit ''FALSE'')"

definition constructYamlBoolean :: "js \<Rightarrow> bool" where
  "constructYamlBoolean t \<longleftrightarrow> t = lit ''true'' \<or> t = lit ''True'' \<or> t = lit ''TRUE''"

record 'v dump_state =
  d_indent :: nat
  d_lineWidth :: "nat option"
  d_flowLevel :: "nat option"
  d_noCompatMode :: bool
  d_implicitTypes :: "'v implicit_type list"

definition DEPRECATED_BOOLEANS_SYNTAX :: "js list" where
  "DEPRECATED_BOOLEANS_SYNTAX =
     map lit [''y'', ''Y'', ''yes'', ''Yes'', ''YES'', ''on'', ''On'', ''ON'', ''n'', ''N'', ''no'', ''No'', ''NO'', ''off'', ''Off'', ''OFF'']"

definition quoted :: "js \<Rightarrow> js" where
  "quoted t = 39 # t @ [39]"

definition writeScalar :: "'v dump_state \<Rightarrow> js \<Rightarrow> nat \<Rightarrow> bool \<Rightarrow> js option" where
  "writeScalar e t level iskey =
     (if t = [] then Some (quoted [])
      else if \<not> d_noCompatMode e \<and> t \<in> set DEPRECATED_BOOLEANS_SYNTAX then Some (quoted t)
      else
        (let i = d_indent e * max 1 level;
             s = map_option (\<lambda>w. max (min w 40) (w - i)) (d_lineWidth e);
             c = (iskey \<or> (case d_flowLevel e of None \<Rightarrow> False | Some l \<Rightarrow> l \<le> level))
         in case chooseScalarStyle t c (d_indent e) s (testImplicitResolving (d_implicitTypes e)) of
              PLAIN \<Rightarrow> Some t
            | SINGLE \<Rightarrow> Some (quoted (js_replace 39 [39, 39] t))
            | LITERAL \<Rightarrow> Some (124 # blockHeader t (d_indent e) @ dropEndingNewline (indentString t i))
            | FOLDED \<Rightarrow> Some (62 # blockHeader t (d_indent e) @ dropEndingNewline (indentString (foldString t s) i))
            | DOUBLE \<Rightarrow> map_option (\<lambda>u. 34 # u @ [34]) (escapeString t)))"

section \<open>What lies ahead in the input\<close>

definition ahead :: "yaml_state \<Rightarrow> js" where
  "ahead s = drop (y_position s) (y_input s)"

lemma ahead_simps [simp]:
  "ahead (add_result r s) = ahead s" "ahead (moved k s) = drop k (ahead s)" "ahead (start_scalar s) = ahead s"
  by (simp_all add: ahead_def add_result_def start_scalar_def add.commute)

lemma add_result_simps [simp]:
  "y_position (add_result r s) = y_position s" "y_input (add_result r s) = y_input s" "y_line (add_result r s) = y_line s"
  "y_lineStart (add_result r s) = y_lineStart s" "y_lineIndent (add_result r s) = y_lineIndent s"
  "y_result (add_result r s) = map_option (\<lambda>x. x @ r) (y_result s)"
  by (simp_all add: add_result_def)

lemma ahead_Suc [simp]:
  "ahead (s\<lparr>y_position := Suc (y_position s)\<rparr>) = tl (ahead s)"
  "ahead (s\<lparr>y_position := Suc (Suc (y_position s))\<rparr>) = tl (tl (ahead s))"
  using ahead_simps(2) [of s 1] ahead_simps(2) [of s 2] by (simp_all add: drop_Suc numeral_2_eq_2)

lemma add_result_moved [simp]:
  "add_result t (s\<lparr>y_position := p\<rparr>) = (add_result t s)\<lparr>y_position := p\<rparr>"
  "add_result t (add_result r s) = add_result (r @ t) s" "ahead ((add_result t s)\<lparr>y_position := p\<rparr>) = ahead (s\<lparr>y_position := p\<rparr>)"
  "ahead ((start_scalar s)\<lparr>y_position := p\<rparr>) = ahead (s\<lparr>y_position := p\<rparr>)"
  by (simp_all add: ahead_def start_scalar_def add_result_def option.map_comp comp_def)

lemma codeAt_simps [simp]:
  "codeAt (add_result r s) p = codeAt s p" "codeAt (s\<lparr>y_position := q\<rparr>) p = codeAt s p" "codeAt (start_scalar s) p = codeAt s p"
  "codeAt (s\<lparr>y_line := k\<rparr>) p = codeAt s p" "codeAt (s\<lparr>y_lineStart := k\<rparr>) p = codeAt s p" "codeAt (s\<lparr>y_lineIndent := k\<rparr>) p = codeAt s p"
  by (simp_all add: codeAt_def add_result_def start_scalar_def)

lemma start_scalar_simps [simp]:
  "y_position (start_scalar s) = y_position s" "y_input (start_scalar s) = y_input s" "y_lineStart (start_scalar s) = y_lineStart s"
  "y_result (start_scalar s) = Some []" "testDocumentSeparator (start_scalar s) = testDocumentSeparator s"
  by (simp_all add: start_scalar_def testDocumentSeparator_def codeAt_def)

lemma codeAt_ahead: "codeAt s (y_position s + k) = (case drop k (ahead s) of [] \<Rightarrow> None | c # u \<Rightarrow> Some c)"
proof (cases "y_position s + k < length (y_input s)")
  case True
  then have "drop k (ahead s) = y_input s ! (y_position s + k) # drop (Suc (y_position s + k)) (y_input s)"
    by (simp add: ahead_def add.commute Cons_nth_drop_Suc)
  then show ?thesis using True by (simp add: codeAt_def)
qed (simp add: codeAt_def ahead_def)

lemma code_ahead: "ahead s = c # u \<Longrightarrow> code s = Some c"
  using codeAt_ahead [of s 0] by simp

lemma next_code_ahead: "ahead s = c # d # u \<Longrightarrow> codeAt s (y_position s + 1) = Some d"
  using codeAt_ahead [of s 1] by simp

lemma slice_extend: "ahead s = c # u \<Longrightarrow> a \<le> y_position s \<Longrightarrow>
    slice (y_input s) a (Suc (y_position s)) = slice (y_input s) a (y_position s) @ [c]"
proof -
  assume a: "ahead s = c # u" "a \<le> y_position s"
  then have p: "y_position s < length (y_input s)" by (metis ahead_def drop_all linorder_not_less list.discI)
  then have "y_input s ! y_position s = c" using a(1) by (simp add: ahead_def flip: Cons_nth_drop_Suc)
  then show ?thesis using a(2) p by (simp add: slice_def Suc_diff_le take_Suc_conv_app_nth)
qed

lemma slice_same [simp]: "slice t a a = []"
  by (simp add: slice_def)

abbreviation json_char :: "nat \<Rightarrow> bool" where
  "json_char c \<equiv> c = 9 \<or> 32 \<le> c \<and> c \<le> 1114111"

lemma captureSegment_json:
  "a \<le> b \<Longrightarrow> list_all json_char (slice (y_input s) a b) \<Longrightarrow> y_result s = Some r \<Longrightarrow>
   captureSegment a b True s = Inr (add_result (slice (y_input s) a b) s)"
  by (cases "a = b") (simp_all add: captureSegment_def add_result_def)

section \<open>Double quotes\<close>

lemma upper_hex_2: "n < 256 \<Longrightarrow> replicate (2 - length (upper_hex n)) 48 @ upper_hex n = [upper_digit (n div 16), upper_digit (n mod 16)]"
  by (simp add: upper_hex.simps [of n] upper_hex.simps [of "n div 16"] upper_digit_def)

lemma upper_hex_4:
  assumes "256 \<le> n" and "n < 65536"
  shows "replicate (4 - length (upper_hex n)) 48 @ upper_hex n =
    [upper_digit (n div 4096), upper_digit (n div 256 mod 16), upper_digit (n div 16 mod 16), upper_digit (n mod 16)]"
proof -
  have d: "n div 16 div 16 = n div 256" "n div 16 div 16 div 16 = n div 4096" by (simp_all flip: div_mult2_eq)
  have "\<not> n < 16" "\<not> n div 16 < 16" using assms(1) by simp_all
  then have u: "upper_hex n = upper_hex (n div 256) @ [upper_digit (n div 16 mod 16), upper_digit (n mod 16)]"
    by (simp add: upper_hex.simps [of n] upper_hex.simps [of "n div 16"] d)
  show ?thesis
  proof (cases "n div 256 < 16")
    case True
    then have "n div 4096 = 0" by simp
    then show ?thesis unfolding u using True by (simp add: upper_hex.simps [of "n div 256"] upper_digit_def)
  next
    case False
    have "n div 4096 < 16" using assms(2) by simp
    moreover have "n div 256 div 16 = n div 4096" by (simp flip: div_mult2_eq)
    ultimately show ?thesis unfolding u using False
      by (simp add: upper_hex.simps [of "n div 256"] upper_hex.simps [of "n div 4096"])
  qed
qed

lemma fromHexCode_upper: "n < 16 \<Longrightarrow> fromHexCode (Some (upper_digit n)) = Some n"
proof -
  assume "n < 16"
  then have "n \<in> set [0..<16]" by simp
  then show ?thesis by (auto simp: upt_rec fromHexCode_def upper_digit_def)
qed

lemma shift4_small: "0 \<le> a \<Longrightarrow> a < 2 ^ 20 \<Longrightarrow> shift4 a = 16 * a"
  by (simp add: shift4_def)

declare read_hex.simps(2) [simp del]

lemma read_hex_digits:
  "ahead s = x # map upper_digit ds @ u \<Longrightarrow> \<forall>d \<in> set ds. d < 16 \<Longrightarrow> 0 \<le> a \<Longrightarrow> (a + 1) * 16 ^ length ds \<le> 2 ^ 24 \<Longrightarrow>
   read_hex (length ds) a s = Inr (foldl (\<lambda>b d. 16 * b + int d) a ds, moved (length ds) s)"
proof (induction ds arbitrary: a x s)
  case (Cons d ds)
  have "(16 :: int) ^ 1 \<le> 16 ^ length (d # ds)" by (intro power_increasing) simp_all
  then have "(a + 1) * 16 \<le> (a + 1) * 16 ^ length (d # ds)" using Cons.prems(3) by (intro mult_left_mono) simp_all
  then have "a < 2 ^ 20" using Cons.prems(4) by simp
  then have "read_hex (length (d # ds)) a s = read_hex (length ds) (16 * a + int d) (moved 1 s)"
    using next_code_ahead [of s x "upper_digit d"] fromHexCode_upper [of d] shift4_small [of a] Cons.prems
    by (simp add: read_hex.simps(2))
  also have "\<dots> = Inr (foldl (\<lambda>b d. 16 * b + int d) (16 * a + int d) ds, moved (length ds) (moved 1 s))"
  proof (rule Cons.IH)
    have "(16 * a + int d + 1) * 16 ^ length ds \<le> ((a + 1) * 16) * 16 ^ length ds"
      using Cons.prems(2) by (intro mult_right_mono) simp_all
    also have "((a + 1) * 16) * 16 ^ length ds = (a + 1) * 16 ^ length (d # ds)" by (simp add: mult.assoc)
    finally show "(16 * a + int d + 1) * 16 ^ length ds \<le> 2 ^ 24" using Cons.prems(4) by (rule order_trans)
  qed (use Cons.prems in simp_all)
  finally show ?case by simp
qed simp

lemma char_of_small: "n < 65536 \<Longrightarrow> charFromCodepoint (int n) = [n]"
  by (simp add: charFromCodepoint_def)

lemma read_escape_simple:
  "ahead s = x # u \<Longrightarrow> x < 256 \<Longrightarrow> x \<notin> {10, 13} \<Longrightarrow> simpleEscapeSequence (Some x) = [c] \<Longrightarrow>
   read_escape s = Some (Inr (moved 1 (add_result [c] s)))"
  by (simp add: read_escape_def code_ahead is_EOL_def)

lemma read_escape_hex:
  assumes "ahead s = x # w @ u" and "x \<in> {120, 117, 85}" and "read_hex (escapedHexLen (Some x)) 0 s = Inr (int c, moved (length w) s)"
    and "c < 65536"
  shows "read_escape s = Some (Inr (moved (Suc (length w)) (add_result [c] s)))"
proof -
  have "simpleEscapeSequence (Some x) = []" "\<not> is_EOL (Some x)" "escapedHexLen (Some x) > 0"
    using assms(2) by (auto simp: simpleEscapeSequence_def is_EOL_def escapedHexLen_def)
  then show ?thesis using assms(3) char_of_small [OF assms(4)]
    unfolding read_escape_def Let_def code_ahead [OF assms(1)] by simp
qed

lemma read_hex_2:
  assumes "c < 256" and "ahead s = x # upper_digit (c div 16) # upper_digit (c mod 16) # u"
  shows "read_hex 2 0 s = Inr (int c, moved 2 s)"
proof -
  let ?ds = "[c div 16, c mod 16]"
  have "read_hex (length ?ds) 0 s = Inr (foldl (\<lambda>b d. 16 * b + int d) 0 ?ds, moved (length ?ds) s)"
    by (rule read_hex_digits [of s x ?ds u]) (use assms in simp_all)
  moreover have "int c = 16 * int (c div 16) + int (c mod 16)" by presburger
  moreover have "length ?ds = 2" by simp
  ultimately show ?thesis by (simp only: foldl.simps mult_zero_right add_0)
qed

lemma read_hex_4:
  assumes "c < 65536" and "ahead s = x # upper_digit (c div 4096) # upper_digit (c div 256 mod 16) #
      upper_digit (c div 16 mod 16) # upper_digit (c mod 16) # u"
  shows "read_hex 4 0 s = Inr (int c, moved 4 s)"
proof -
  let ?ds = "[c div 4096, c div 256 mod 16, c div 16 mod 16, c mod 16]"
  have "read_hex (length ?ds) 0 s = Inr (foldl (\<lambda>b d. 16 * b + int d) 0 ?ds, moved (length ?ds) s)"
    by (rule read_hex_digits [of s x ?ds u]) (use assms in simp_all)
  moreover have "int c = 16 * (16 * (16 * int (c div 4096) + int (c div 256 mod 16)) + int (c div 16 mod 16)) + int (c mod 16)"
  proof -
    have "c div 4096 = c div 256 div 16" "c div 256 = c div 16 div 16" by (simp_all flip: div_mult2_eq)
    then have "16 * (16 * (16 * (c div 4096) + c div 256 mod 16) + c div 16 mod 16) + c mod 16 = c"
      by (metis mult_div_mod_eq)
    from arg_cong [OF this, of int] show ?thesis by simp
  qed
  moreover have "length ?ds = 4" by simp
  ultimately show ?thesis by (simp only: foldl.simps mult_zero_right add_0)
qed

definition reads_escape :: "js \<Rightarrow> nat \<Rightarrow> bool" where
  "reads_escape w c \<longleftrightarrow>
     (\<forall>s u. ahead s = w @ u \<longrightarrow> read_escape s = Some (Inr (moved (length w) (add_result [c] s))))"

lemma encodeHex_reads:
  assumes "c < 65536"
  shows "\<exists>w. encodeHex c = Some (92 # w) \<and> reads_escape w c"
proof (cases "c \<le> 255")
  case True
  let ?w = "[upper_digit (c div 16), upper_digit (c mod 16)]"
  have "encodeHex c = Some (92 # 120 # ?w)" using upper_hex_2 [of c] True by (simp add: encodeHex_def Let_def)
  moreover have "reads_escape (120 # ?w) c"
    using read_escape_hex [of _ 120 ?w _ c] read_hex_2 [of c] True by (simp add: reads_escape_def escapedHexLen_def)
  ultimately show ?thesis by blast
next
  case False
  let ?w = "[upper_digit (c div 4096), upper_digit (c div 256 mod 16), upper_digit (c div 16 mod 16), upper_digit (c mod 16)]"
  have "encodeHex c = Some (92 # 117 # ?w)" using upper_hex_4 [of c] False assms by (simp add: encodeHex_def Let_def)
  moreover have "reads_escape (117 # ?w) c"
    using read_escape_hex [of _ 117 ?w _ c] read_hex_4 [of c] assms by (simp add: reads_escape_def escapedHexLen_def)
  ultimately show ?thesis by blast
qed

lemma escape_unit_reads:
  assumes "c < 65536"
  shows "(escape_unit c = Some [c] \<and> json_char c \<and> c \<notin> {0, 10, 13, 34, 92}) \<or> (\<exists>w. escape_unit c = Some (92 # w) \<and> reads_escape w c)"
proof (cases "ESCAPE_SEQUENCES c")
  case None
  then show ?thesis using encodeHex_reads [OF assms]
    by (auto simp: escape_unit_def isPrintable_def ESCAPE_SEQUENCES_def split: if_splits)
next
  case (Some n)
  let ?x = "hd (tl n)"
  have x: "n = [92, ?x] \<and> ?x < 256 \<and> ?x \<notin> {10, 13} \<and> simpleEscapeSequence (Some ?x) = [c]"
    using Some unfolding ESCAPE_SEQUENCES_def by (simp split: if_splits add: simpleEscapeSequence_def; force)
  then have "reads_escape [?x] c" using read_escape_simple [of _ ?x _ c] by (simp add: reads_escape_def)
  then show ?thesis using Some x unfolding escape_unit_def by (metis option.simps(5))
qed

lemma not_separator: "y_lineStart s < y_position s \<Longrightarrow> \<not> (y_position s = y_lineStart s \<and> b)"
  by simp

lemma double_loop_reads:
  "escapeString t = Some u \<Longrightarrow> \<forall>c \<in> set t. c < 65536 \<Longrightarrow> ahead s = u @ 34 # rest \<Longrightarrow> a \<le> y_position s \<Longrightarrow>
   list_all json_char (slice (y_input s) a (y_position s)) \<Longrightarrow> y_lineStart s < y_position s \<Longrightarrow> y_result s = Some r \<Longrightarrow>
   double_loop a b s = Some (Inr (True, moved (Suc (length u)) (add_result (slice (y_input s) a (y_position s) @ t) s)))"
proof (induction t arbitrary: u s a b r)
  case Nil
  then show ?case
    using captureSegment_json [of a "y_position s" s r] by (simp add: double_loop.simps [of a b s] code_ahead)
next
  case (Cons c t)
  obtain e v where e: "escape_unit c = Some e" "escapeString t = Some v" "u = e @ v"
    using Cons.prems(1) by (auto split: option.splits)
  let ?seg = "slice (y_input s) a (y_position s)"
  consider "e = [c]" "json_char c" "c \<notin> {0, 10, 13, 34, 92}" | w where "e = 92 # w" "reads_escape w c"
    using escape_unit_reads [of c] Cons.prems(2) e(1) by auto
  then show ?case
  proof cases
    case 1
    have ah: "ahead s = c # v @ 34 # rest" using Cons.prems(3) e(3) 1(1) by simp
    have "double_loop a b s = double_loop a (y_position s + 1) (moved 1 s)"
      using 1(3) Cons.prems(6) by (simp add: double_loop.simps [of a b s] code_ahead [OF ah] is_EOL_def)
    also have "\<dots> = Some (Inr (True, moved (Suc (length v)) (add_result (slice (y_input s) a (y_position (moved 1 s)) @ t) (moved 1 s))))"
    proof (subst Cons.IH [OF e(2), of "moved 1 s" a r])
      show "list_all json_char (slice (y_input (moved 1 s)) a (y_position (moved 1 s)))"
        using Cons.prems(5) 1(2) slice_extend [OF ah Cons.prems(4)] by simp
    qed (use Cons.prems ah in simp_all)
    finally show ?thesis using slice_extend [OF ah Cons.prems(4)] e(3) 1(1) by simp
  next
    case (2 w)
    have ah: "ahead s = 92 # w @ v @ 34 # rest" using Cons.prems(3) e(3) 2(1) by simp
    let ?s1 = "moved 1 (add_result ?seg s)" and ?s2 = "moved (length w) (add_result [c] (moved 1 (add_result ?seg s)))"
    have "ahead ?s1 = w @ v @ 34 # rest" using ah by simp
    then have "read_escape ?s1 = Some (Inr ?s2)" using 2(2) unfolding reads_escape_def by blast
    moreover have "captureSegment a (y_position s) True s = Inr (add_result ?seg s)"
      using captureSegment_json Cons.prems(4,5,7) by blast
    ultimately have step: "double_loop a b s = double_loop (y_position ?s2) (y_position ?s2) ?s2"
      by (simp add: double_loop.simps [of a b s] code_ahead [OF ah] is_EOL_def)
    have "ahead (s\<lparr>y_position := Suc (y_position s + length w)\<rparr>) = v @ 34 # rest"
      using ahead_simps(2) [of s "Suc (length w)"] ah by (simp del: ahead_simps)
    then have fin: "double_loop (y_position ?s2) (y_position ?s2) ?s2 = Some (Inr (True, moved (Suc (length v)) (add_result t ?s2)))"
      using Cons.IH [OF e(2), of ?s2 "y_position ?s2" "r @ ?seg @ [c]" "y_position ?s2"] Cons.prems ah by simp
    show ?thesis using fin step e(3) 2(1) by simp
  qed
qed

section \<open>Single quotes\<close>

lemma single_loop_reads:
  "ahead s = js_replace 39 [39, 39] t @ 39 # rest \<Longrightarrow> (\<forall>u. rest \<noteq> 39 # u) \<Longrightarrow>
   \<forall>c \<in> set t. json_char c \<and> c \<noteq> 10 \<and> c \<noteq> 13 \<Longrightarrow> a \<le> y_position s \<Longrightarrow>
   list_all json_char (slice (y_input s) a (y_position s)) \<Longrightarrow> y_lineStart s < y_position s \<Longrightarrow> y_result s = Some r \<Longrightarrow>
   single_loop a b s = Some (Inr (True, moved (Suc (length (js_replace 39 [39, 39] t)))
     (add_result (slice (y_input s) a (y_position s) @ t) s)))"
proof (induction t arbitrary: s a b r)
  case Nil
  then have ah: "ahead s = 39 # rest" by simp
  have "codeAt (add_result x s) (y_position s + 1) \<noteq> Some 39" for x
    using codeAt_ahead [of s 1] ah Nil.prems(2) by (cases rest) (auto simp: codeAt_def add_result_def)
  then show ?case
    using Nil captureSegment_json [of a "y_position s" s r] by (simp add: single_loop.simps [of a b s] code_ahead [OF ah])
next
  case (Cons c t)
  let ?seg = "slice (y_input s) a (y_position s)"
  show ?case
  proof (cases "c = 39")
    case True
    have ah: "ahead s = 39 # 39 # js_replace 39 [39, 39] t @ 39 # rest" using Cons.prems(1) True by simp
    let ?s1 = "moved 2 (add_result ?seg s)"
    have sl: "slice (y_input s) (Suc (y_position s)) (Suc (Suc (y_position s))) = [39]"
      using slice_extend [of "moved 1 s" 39 _ "Suc (y_position s)"] ah by simp
    have "codeAt (add_result ?seg s) (Suc (y_position s)) = Some 39"
      using next_code_ahead [OF ah] by simp
    moreover have "captureSegment a (y_position s) True s = Inr (add_result ?seg s)"
      using captureSegment_json Cons.prems(4,5,7) by blast
    ultimately have "single_loop a b s = single_loop (Suc (y_position s)) (y_position s + 2) ?s1"
      by (simp add: single_loop.simps [of a b s] code_ahead [OF ah])
    also have "\<dots> = Some (Inr (True, moved (Suc (length (js_replace 39 [39, 39] t))) (add_result ([39] @ t) ?s1)))"
      using Cons.IH [of ?s1 "Suc (y_position s)" "r @ ?seg" "y_position s + 2"] ahead_simps(2) [of s 2] Cons.prems ah sl by simp
    finally show ?thesis using True by simp
  next
    case False
    have ah: "ahead s = c # js_replace 39 [39, 39] t @ 39 # rest" using Cons.prems(1) False by simp
    have "single_loop a b s = single_loop a (y_position s + 1) (moved 1 s)"
      using False Cons.prems(3,6) by (auto simp: single_loop.simps [of a b s] code_ahead [OF ah] is_EOL_def)
    also have "\<dots> = Some (Inr (True, moved (Suc (length (js_replace 39 [39, 39] t)))
        (add_result (slice (y_input s) a (y_position (moved 1 s)) @ t) (moved 1 s))))"
    proof (subst Cons.IH [of "moved 1 s" a r])
      show "list_all json_char (slice (y_input (moved 1 s)) a (y_position (moved 1 s)))"
        using Cons.prems(3,5) slice_extend [OF ah Cons.prems(4)] by simp
    qed (use Cons.prems ah in simp_all)
    finally show ?thesis using slice_extend [OF ah Cons.prems(4)] False by simp
  qed
qed

section \<open>Plain text\<close>

lemma printable_text: "\<forall>c \<in> set t. isPrintable c \<and> c < 65536 \<Longrightarrow> \<not> non_printable h t"
proof (induction t arbitrary: h)
  case (Cons c t)
  have "isPrintable c" "c < 65536" using Cons.prems by simp_all
  then have "\<not> surrogate_high c" "\<not> surrogate_low c" "32 \<le> c" "\<not> (127 \<le> c \<and> c \<le> 159)" "c \<le> 65533"
    by (auto simp: isPrintable_def surrogate_high_def surrogate_low_def)
  then show ?case using Cons by auto
qed simp

lemma slice_ahead: "ahead s = t @ u \<Longrightarrow> slice (y_input s) (y_position s) (y_position s + length t) = t"
  by (simp add: slice_def ahead_def)

lemma skip_last_break:
  assumes "ahead s = [10, 0]"
  shows "\<exists>s1. skipSeparationSpace False s = Some (Inr (1, s1)) \<and> ahead s1 = [0] \<and> y_input s1 = y_input s \<and>
    y_result s1 = y_result s \<and> y_lineIndent s1 = 0 \<and> y_position s1 = Suc (y_position s)"
proof -
  let ?l = "s\<lparr>y_position := Suc (y_position s), y_line := Suc (y_line s), y_lineStart := Suc (y_position s)\<rparr>"
  have a: "codeAt s (Suc (y_position s)) = Some 0" using next_code_ahead [OF assms] by simp
  have c: "skip_chars (\<lambda>c. c = 32) ?l = ?l" unfolding skip_chars.simps [of _ ?l] by (simp add: a)
  have i: "count_indent ?l = ?l\<lparr>y_lineIndent := 0\<rparr>" by (simp add: count_indent_def c Let_def)
  have "skip_chars (\<lambda>c. is_WHITE_SPACE (Some c)) s = s"
    using code_ahead [OF assms] unfolding skip_chars.simps [of _ s] by (simp add: is_WHITE_SPACE_def)
  then have "skipSeparationSpace False s = skip_separation False 1 (?l\<lparr>y_lineIndent := 0\<rparr>)"
    unfolding skipSeparationSpace_def
    by (subst skip_separation.simps) (simp add: code_ahead [OF assms] is_EOL_def readLineBreak_def Let_def i)
  also have "\<dots> = Some (Inr (1, ?l\<lparr>y_lineIndent := 0\<rparr>))" by (subst skip_separation.simps) (simp add: a)
  finally show ?thesis using ahead_Suc(1) [of s] assms by (intro exI [of _ "?l\<lparr>y_lineIndent := 0\<rparr>"]) (simp add: ahead_def)
qed

lemma plain_loop_reads:
  "ahead s = t @ [10, 0] \<Longrightarrow> \<forall>c \<in> set t. isPlainSafe c \<Longrightarrow> y_lineStart s \<le> y_position s \<Longrightarrow>
   \<not> (y_position s = y_lineStart s \<and> testDocumentSeparator s) \<Longrightarrow>
   (if t = [] then b = y_position s else \<not> isWhitespace (last t)) \<Longrightarrow>
   \<exists>s1. plain_loop indent flow a b None s = Some (Inr (a, y_position s + length t, s1)) \<and> y_input s1 = y_input s \<and> y_result s1 = y_result s"
proof (induction t arbitrary: s b)
  case Nil
  then have ah: "ahead s = [10, 0]" by simp
  obtain s1 where s1: "skipSeparationSpace False s = Some (Inr (1, s1))" "ahead s1 = [0]" "y_input s1 = y_input s"
    "y_result s1 = y_result s" "y_lineIndent s1 = 0" using skip_last_break [OF ah] by blast
  have "\<not> plain_stops flow s" using Nil.prems(4) by (simp add: plain_stops_def code_ahead [OF ah] is_FLOW_INDICATOR_def Let_def)
  moreover have "plain_loop indent flow a b (Some l) s1 = Some (Inr (a, b, s1))" for l
    by (subst plain_loop.simps) (simp add: code_ahead [OF s1(2)])
  ultimately show ?case using s1 Nil.prems(5) by (subst plain_loop.simps) (auto simp: code_ahead [OF ah] is_EOL_def)
next
  case (Cons c t)
  have ah: "ahead s = c # t @ [10, 0]" using Cons.prems(1) by simp
  have c: "isPlainSafe c" using Cons.prems(2) by simp
  have "\<not> plain_stops flow s"
    using Cons.prems(4) c by (auto simp: plain_stops_def code_ahead [OF ah] is_FLOW_INDICATOR_def isPlainSafe_def Let_def)
  moreover have "c \<noteq> 0" "\<not> is_EOL (Some c)" using c by (auto simp: isPlainSafe_def isPrintable_def is_EOL_def)
  moreover have "is_WHITE_SPACE (Some c) = isWhitespace c" by (auto simp: is_WHITE_SPACE_def isWhitespace_def)
  ultimately have "plain_loop indent flow a b None s =
      plain_loop indent flow a (if isWhitespace c then b else y_position s + 1) None (moved 1 s)"
    by (subst plain_loop.simps) (simp add: code_ahead [OF ah] flush_pending_def)
  moreover have "(if t = [] then (if isWhitespace c then b else y_position s + 1) = y_position (moved 1 s) else \<not> isWhitespace (last t))"
    using Cons.prems(5) by (auto split: if_splits)
  ultimately show ?case
    using Cons.IH [of "moved 1 s" "if isWhitespace c then b else y_position s + 1"] Cons.prems(2,3) ah by simp
qed

lemma readPlainScalar_reads:
  assumes "ahead s = t @ [10, 0]" and "t \<noteq> []" and "\<forall>c \<in> set t. isPlainSafe c \<and> c < 65536" and "isPlainSafeFirst (hd t)"
    and "\<not> isWhitespace (last t)" and "y_lineStart s \<le> y_position s" and "\<not> (y_position s = y_lineStart s \<and> testDocumentSeparator s)"
  shows "\<exists>s1. readPlainScalar indent flow s = Some (Inr (True, s1)) \<and> y_result s1 = Some t"
proof -
  have ah: "ahead s = hd t # tl t @ [10, 0]" using assms(1,2) by simp
  obtain s1 where s1: "plain_loop indent flow (y_position s) (y_position s) None (start_scalar s) =
      Some (Inr (y_position s, y_position s + length t, s1))" "y_input s1 = y_input s" "y_result s1 = Some []"
    using plain_loop_reads [of "start_scalar s" t "y_position s" indent flow "y_position s"] assms
    by auto
  have sl: "slice (y_input s1) (y_position s) (y_position s + length t) = t" using slice_ahead [OF assms(1)] s1(2) by simp
  have "\<not> non_printable False t" by (rule printable_text) (use assms(3) in \<open>auto simp: isPlainSafe_def\<close>)
  then have "captureSegment (y_position s) (y_position s + length t) False s1 = Inr (add_result t s1)"
    using sl assms(2) by (simp add: captureSegment_def Let_def)
  moreover have "hd t \<notin> {9, 32, 10, 13, 44, 91, 93, 123, 125, 63, 45} \<union> {35, 38, 42, 33, 124, 62, 39, 34, 37, 64, 96}"
    using assms(4) by (auto simp: isPlainSafeFirst_def isWhitespace_def isPrintable_def)
  ultimately show ?thesis
    using assms(2) s1 unfolding readPlainScalar_def Let_def code_ahead [OF ah]
    by (simp add: is_WS_OR_EOL_def is_FLOW_INDICATOR_def image_iff)
qed

section \<open>Reading back what was written\<close>

lemma one_line_Some: "one_line m t = Some b \<Longrightarrow> (\<forall>c \<in> set t. isPrintable c) \<and> (b \<longrightarrow> m \<and> (\<forall>c \<in> set t. isPlainSafe c))"
  by (induction t arbitrary: m) (auto split: if_splits)

lemma many_lines_Some:
  "many_lines e w i t breaks long prev m = Some (br, lo, b) \<Longrightarrow>
   (br \<longleftrightarrow> breaks \<or> 10 \<in> set t) \<and> (\<forall>c \<in> set t. isPrintable c \<or> c = 10) \<and> (b \<longrightarrow> m \<and> (\<forall>c \<in> set t. isPlainSafe c))"
proof (induction t arbitrary: i breaks long prev m)
  case (Cons a t)
  show ?case
  proof (cases "a = 10")
    case True
    then have "many_lines e w (Suc i) t True (long \<or> foldable e w i prev) (if w = None then prev else int i) (m \<and> isPlainSafe a) = Some (br, lo, b)"
      using Cons.prems unfolding many_lines.simps by (simp only: refl if_True)
    from Cons.IH [OF this] show ?thesis using True by auto
  next
    case False
    then have p: "isPrintable a" using Cons.prems by (simp split: if_splits)
    then have "many_lines e w (Suc i) t breaks long prev (m \<and> isPlainSafe a) = Some (br, lo, b)"
      using Cons.prems False by (simp only: many_lines.simps if_False not_not simp_thms)
    from Cons.IH [OF this] show ?thesis using False p by auto
  qed
qed simp

lemma style_facts:
  assumes "chooseScalarStyle t single indent w amb = y"
  shows "y = PLAIN \<Longrightarrow> (\<forall>c \<in> set t. isPlainSafe c) \<and> isPlainSafeFirst (hd t) \<and> \<not> isWhitespace (last t) \<and> \<not> amb t"
    and "y = SINGLE \<Longrightarrow> \<forall>c \<in> set t. isPrintable c"
    and "y = LITERAL \<or> y = FOLDED \<Longrightarrow> \<forall>c \<in> set t. isPrintable c \<or> c = 10"
    and "y = LITERAL \<Longrightarrow> 10 \<in> set t \<and> \<not> (hd t = 32 \<and> indent > 9)"
proof -
  let ?p = "isPlainSafeFirst (hd t) \<and> \<not> isWhitespace (last t)"
  define r where "r = (if single then map_option (\<lambda>m. (False, False, m)) (one_line ?p t) else many_lines t w 0 t False False (-1) ?p)"
  have r: "(br \<longrightarrow> 10 \<in> set t) \<and> (\<forall>c \<in> set t. isPrintable c \<or> c = 10) \<and> (\<not> br \<longrightarrow> (\<forall>c \<in> set t. isPrintable c)) \<and>
      (b \<longrightarrow> ?p \<and> (\<forall>c \<in> set t. isPlainSafe c))" if "r = Some (br, lo, b)" for br lo b
    using that one_line_Some [of ?p t] many_lines_Some [of t w 0 t False False "-1" ?p br lo b]
    unfolding r_def by (auto split: if_splits)
  have y: "y = (case r of None \<Rightarrow> DOUBLE | Some (br, lo, b) \<Rightarrow>
      if br \<or> lo then (if hd t = 32 \<and> indent > 9 then DOUBLE else if lo then FOLDED else LITERAL)
      else if b \<and> \<not> amb t then PLAIN else SINGLE)"
    using assms by (simp only: chooseScalarStyle_def Let_def r_def)
  show "y = PLAIN \<Longrightarrow> (\<forall>c \<in> set t. isPlainSafe c) \<and> isPlainSafeFirst (hd t) \<and> \<not> isWhitespace (last t) \<and> \<not> amb t"
    using r unfolding y by (auto split: option.splits prod.splits if_splits)
  show "y = SINGLE \<Longrightarrow> \<forall>c \<in> set t. isPrintable c"
    using r unfolding y by (auto split: option.splits prod.splits if_splits)
  show "y = LITERAL \<or> y = FOLDED \<Longrightarrow> \<forall>c \<in> set t. isPrintable c \<or> c = 10"
    using r unfolding y by (fastforce split: option.splits prod.splits if_splits)
  show "y = LITERAL \<Longrightarrow> 10 \<in> set t \<and> \<not> (hd t = 32 \<and> indent > 9)"
    using r unfolding y by (fastforce split: option.splits prod.splits if_splits)
qed

text \<open>
  The order in which the loader tries its readers inside a flow collection, an alias left out, and the value it gives: a quoted
  text stays a string, for a plain one the types are asked. The tag is not written for a string.
\<close>

definition given_value :: "(js \<Rightarrow> 'v yaml_value) \<Rightarrow> (bool \<times> yaml_state) run \<Rightarrow> ('v yaml_value option \<times> yaml_state) run" where
  "given_value f r = map_option (map_sum id (\<lambda>(b, s). (if b then map_option f (y_result s) else None, s))) r"

definition compose_scalar :: "'v implicit_type list \<Rightarrow> nat \<Rightarrow> bool \<Rightarrow> yaml_state \<Rightarrow> ('v yaml_value option \<times> yaml_state) run" where
  "compose_scalar tys indent flow s =
     (case readSingleQuotedScalar s of
        Some (Inr (False, s1)) \<Rightarrow>
          (case readDoubleQuotedScalar s1 of
             Some (Inr (False, s2)) \<Rightarrow> given_value (resolve_implicit tys) (readPlainScalar indent flow s2)
           | r \<Rightarrow> given_value Text r)
      | r \<Rightarrow> given_value Text r)"

text \<open>Three dots at the beginning of a line, alone or before a space, end the document.\<close>

definition looks_like_end :: "js \<Rightarrow> bool" where
  "looks_like_end u \<longleftrightarrow> take 3 u = [46, 46, 46] \<and> (length u = 3 \<or> isWhitespace (u ! 3))"

definition reads_as :: "'v implicit_type list \<Rightarrow> js \<Rightarrow> js \<Rightarrow> bool" where
  "reads_as tys u t \<longleftrightarrow>
     (\<forall>s indent flow. ahead s = u @ [10, 0] \<longrightarrow> y_lineStart s \<le> y_position s \<longrightarrow>
        \<not> (y_position s = y_lineStart s \<and> looks_like_end u) \<longrightarrow>
        (\<exists>s1. compose_scalar tys indent flow s = Some (Inr (Some (Text t), s1))))"

lemma resolve_nothing: "\<not> testImplicitResolving tys t \<Longrightarrow> resolve_implicit tys t = Text t"
  by (induction tys) (simp_all add: testImplicitResolving_def)

lemma separator_looks_like_end:
  assumes "testDocumentSeparator s" "ahead s = u @ [10, 0]" "u \<noteq> []" "isPlainSafeFirst (hd u)" "\<forall>c \<in> set u. isPlainSafe c"
  shows "looks_like_end u"
proof -
  have sep: "code s = codeAt s (y_position s + 1)" "code s = codeAt s (y_position s + 2)" "code s = Some 45 \<or> code s = Some 46"
    "codeAt s (y_position s + 3) = Some 0 \<or> is_WS_OR_EOL (codeAt s (y_position s + 3))"
    using assms(1) unfolding testDocumentSeparator_def Let_def by blast+
  then obtain x where x: "code s = Some x" "codeAt s (y_position s + 1) = Some x" "codeAt s (y_position s + 2) = Some x" "x = 45 \<or> x = 46"
    by metis
  note at = codeAt_ahead [of s, unfolded assms(2)]
  have "hd u = x" using x(1) code_ahead [of s "hd u" "tl u @ [10, 0]"] assms(2,3) by simp
  then have x46: "x = 46" using x(4) assms(4) by (auto simp: isPlainSafeFirst_def)
  obtain a v where u1: "u = a # v" using assms(3) by (cases u) auto
  with at [of 1] x(2) x46 obtain b w where u2: "v = b # w" by (cases v) auto
  with u1 at [of 2] x(3) x46 obtain c r where u3: "w = c # r" by (cases w) (auto simp: numeral_2_eq_2)
  have abc: "a = 46" "b = 46" "c = 46" using \<open>hd u = x\<close> at [of 1] at [of 2] x(2,3) x46 u1 u2 u3 by (auto simp: numeral_2_eq_2)
  have "r = [] \<or> isWhitespace (hd r)"
  proof (cases r)
    case (Cons d r')
    then have "codeAt s (y_position s + 3) = Some d" using at [of 3] u1 u2 u3 by (simp add: numeral_3_eq_3)
    moreover have "isPlainSafe d" using assms(5) u1 u2 u3 Cons by simp
    ultimately have "d = 9 \<or> d = 32" using sep(4) by (auto simp: is_WS_OR_EOL_def isPlainSafe_def isPrintable_def)
    then show ?thesis using Cons by (auto simp: isWhitespace_def)
  qed simp
  then show ?thesis using u1 u2 u3 abc by (cases r) (simp_all add: looks_like_end_def numeral_3_eq_3)
qed

lemma reads_single:
  assumes "\<forall>c \<in> set t. json_char c \<and> c \<noteq> 10 \<and> c \<noteq> 13"
  shows "reads_as tys (quoted (js_replace 39 [39, 39] t)) t"
  unfolding reads_as_def
proof (intro allI impI)
  fix s indent flow
  assume a: "ahead s = quoted (js_replace 39 [39, 39] t) @ [10, 0]" and l: "y_lineStart s \<le> y_position s"
  let ?s1 = "moved 1 (start_scalar s)"
  have "single_loop (y_position ?s1) (y_position ?s1) ?s1 =
      Some (Inr (True, moved (Suc (length (js_replace 39 [39, 39] t))) (add_result ([] @ t) ?s1)))"
    using single_loop_reads [of ?s1 t "[10, 0]" "y_position ?s1" "[]" "y_position ?s1"] a l assms by (simp add: quoted_def)
  then show "\<exists>s1. compose_scalar tys indent flow s = Some (Inr (Some (Text t), s1))"
    using code_ahead [of s 39] a by (simp add: compose_scalar_def given_value_def readSingleQuotedScalar_def quoted_def Let_def)
qed

lemma reads_double:
  assumes "escapeString t = Some u" and "\<forall>c \<in> set t. c < 65536"
  shows "reads_as tys (34 # u @ [34]) t"
  unfolding reads_as_def
proof (intro allI impI)
  fix s indent flow
  assume a: "ahead s = (34 # u @ [34]) @ [10, 0]" and l: "y_lineStart s \<le> y_position s"
  let ?s1 = "moved 1 (start_scalar s)"
  have "double_loop (y_position ?s1) (y_position ?s1) ?s1 = Some (Inr (True, moved (Suc (length u)) (add_result ([] @ t) ?s1)))"
    using double_loop_reads [OF assms, of ?s1 "[10, 0]" "y_position ?s1" "[]" "y_position ?s1"] a l by simp
  then show "\<exists>s1. compose_scalar tys indent flow s = Some (Inr (Some (Text t), s1))"
    using code_ahead [of s 34] a
    by (simp add: compose_scalar_def given_value_def readSingleQuotedScalar_def readDoubleQuotedScalar_def Let_def)
qed

lemma reads_plain:
  assumes "t \<noteq> []" and "\<forall>c \<in> set t. isPlainSafe c \<and> c < 65536" and "isPlainSafeFirst (hd t)" and "\<not> isWhitespace (last t)"
    and "\<not> testImplicitResolving tys t"
  shows "reads_as tys t t"
  unfolding reads_as_def
proof (intro allI impI)
  fix s indent flow
  assume a: "ahead s = t @ [10, 0]" and l: "y_lineStart s \<le> y_position s" "\<not> (y_position s = y_lineStart s \<and> looks_like_end t)"
  have d: "\<not> (y_position s = y_lineStart s \<and> testDocumentSeparator s)"
    using l(2) separator_looks_like_end [OF _ a assms(1,3)] assms(2) by blast
  have "code s = Some (hd t)" using code_ahead [of s "hd t" "tl t @ [10, 0]"] a assms(1) by simp
  moreover have "hd t \<notin> {39, 34}" using assms(3) by (auto simp: isPlainSafeFirst_def)
  ultimately have "readSingleQuotedScalar s = Some (Inr (False, s))" "readDoubleQuotedScalar s = Some (Inr (False, s))"
    by (simp_all add: readSingleQuotedScalar_def readDoubleQuotedScalar_def)
  moreover obtain s1 where "readPlainScalar indent flow s = Some (Inr (True, s1))" "y_result s1 = Some t"
    using readPlainScalar_reads [OF a assms(1-4) l(1) d] by blast
  ultimately show "\<exists>s1. compose_scalar tys indent flow s = Some (Inr (Some (Text t), s1))"
    using resolve_nothing [OF assms(5)] by (simp add: compose_scalar_def given_value_def)
qed

lemma escapeString_Some: "\<forall>c \<in> set t. c < 65536 \<Longrightarrow> \<exists>u. escapeString t = Some u"
proof (induction t)
  case (Cons c t)
  then show ?case using escape_unit_reads [of c] by auto
qed simp

lemma deprecated_plain: "t \<in> set DEPRECATED_BOOLEANS_SYNTAX \<Longrightarrow> c \<in> set t \<Longrightarrow> 65 \<le> c \<and> c \<le> 122"
  by (auto simp: DEPRECATED_BOOLEANS_SYNTAX_def lit_def)

lemma js_replace_absent: "c \<notin> set t \<Longrightarrow> js_replace c r t = t"
  by (induction t) auto

text \<open>C31: The dumper never fails on a string of UTF-16 code units, and unless it chooses a block, the loader reads what it writes as
  the same string and as no null, boolean, number or date, where both have the same schema: at any indentation, as a value
  in block or flow text, at the end of the input. Excepted is a text that begins with three dots, alone or before a space, at the beginning of a
  line: it is written plainly and taken for the end of the document.
\<close>

theorem written_strings_are_read_back:
  assumes "\<forall>c \<in> set t. c < 65536"
  shows "\<exists>u. writeScalar e t level iskey = Some u \<and> (hd u \<notin> {124, 62} \<longrightarrow> reads_as (d_implicitTypes e) u t)"
proof (cases "t = [] \<or> \<not> d_noCompatMode e \<and> t \<in> set DEPRECATED_BOOLEANS_SYNTAX")
  case True
  then have t: "\<forall>c \<in> set t. 65 \<le> c \<and> c \<le> 122" using deprecated_plain by auto
  then have "39 \<notin> set t" by auto
  then have "writeScalar e t level iskey = Some (quoted (js_replace 39 [39, 39] t))"
    using True by (auto simp: writeScalar_def js_replace_absent)
  moreover have "\<forall>c \<in> set t. json_char c \<and> c \<noteq> 10 \<and> c \<noteq> 13" using t by fastforce
  ultimately show ?thesis using reads_single by blast
next
  case False
  let ?tys = "d_implicitTypes e"
  let ?w = "map_option (\<lambda>w. max (min w 40) (w - d_indent e * max 1 level)) (d_lineWidth e)"
  let ?y = "chooseScalarStyle t (iskey \<or> (case d_flowLevel e of None \<Rightarrow> False | Some l \<Rightarrow> l \<le> level)) (d_indent e) ?w (testImplicitResolving (d_implicitTypes e))"
  obtain u where u: "escapeString t = Some u" using escapeString_Some assms by blast
  note facts = style_facts [OF refl, of t "iskey \<or> (case d_flowLevel e of None \<Rightarrow> False | Some l \<Rightarrow> l \<le> level)" "d_indent e" ?w "testImplicitResolving (d_implicitTypes e)"]
  have plain: "reads_as ?tys t t" if "?y = PLAIN" using reads_plain facts(1) [OF that] assms False by blast
  have single: "reads_as ?tys (quoted (js_replace 39 [39, 39] t)) t" if "?y = SINGLE"
    by (rule reads_single) (use facts(2) [OF that] assms in \<open>fastforce simp: isPrintable_def\<close>)
  show ?thesis
    using False plain single reads_double [OF u assms] u unfolding writeScalar_def Let_def by (cases ?y) auto
qed

text \<open>A text with a line separator, half a surrogate pair and a bell is written with escapes, the text \<open>true\<close> with quotes.\<close>

definition sample_dump :: "bool option dump_state" where
  "sample_dump = \<lparr>d_indent = 2, d_lineWidth = Some 80, d_flowLevel = None, d_noCompatMode = False,
     d_implicitTypes = [\<lparr>it_resolve = resolveYamlNull, it_construct = (\<lambda>_. None)\<rparr>,
       \<lparr>it_resolve = resolveYamlBoolean, it_construct = Some \<circ> constructYamlBoolean\<rparr>]\<rparr>"

lemma written_true: "writeScalar sample_dump (lit ''true'') 0 False = Some (quoted (lit ''true''))"
  by (simp add: writeScalar_def sample_dump_def chooseScalarStyle_def foldable_def isPlainSafeFirst_def isWhitespace_def isPlainSafe_def
      isPrintable_def DEPRECATED_BOOLEANS_SYNTAX_def lit_def testImplicitResolving_def resolveYamlBoolean_def)

theorem written_strings_are_read_back_witness:
  "(\<exists>u. writeScalar sample_dump [8232, 56000, 7, 97] 0 False = Some u \<and>
      (hd u \<notin> {124, 62} \<longrightarrow> reads_as (d_implicitTypes sample_dump) u [8232, 56000, 7, 97])) \<and>
   reads_as (d_implicitTypes sample_dump) (quoted (lit ''true'')) (lit ''true'')"
proof
  show "\<exists>u. writeScalar sample_dump [8232, 56000, 7, 97] 0 False = Some u \<and>
      (hd u \<notin> {124, 62} \<longrightarrow> reads_as (d_implicitTypes sample_dump) u [8232, 56000, 7, 97])"
    by (rule written_strings_are_read_back) simp
  show "reads_as (d_implicitTypes sample_dump) (quoted (lit ''true'')) (lit ''true'')"
    using written_strings_are_read_back [of "lit ''true''" sample_dump 0 False] written_true by (auto simp: lit_def quoted_def)
qed

end
