(* ===== verification/Script_Yaml_Blocks.thy ===== *)
theory Script_Yaml_Blocks
  imports Script_Yaml_Scalars
begin

text \<open>
  Literal blocks: what the YAML dumper (js-yaml) writes for a text of several lines, and when the loader reads it back.
\<close>

section \<open>The lines of a block\<close>

abbreviation joined :: "js list \<Rightarrow> js" where
  "joined ls \<equiv> concat (map (\<lambda>x. x @ [10]) ls)"

definition indented :: "nat \<Rightarrow> js \<Rightarrow> js" where
  "indented i l = (if l = [] then [] else replicate i 32 @ l)"

abbreviation block_text :: "nat \<Rightarrow> js list \<Rightarrow> js" where
  "block_text i ls \<equiv> concat (map (\<lambda>x. indented i x @ [10]) ls)"

lemma lines_of_parts:
  "10 \<notin> set l \<Longrightarrow> \<exists>ls z. lines_of l t = map (\<lambda>x. x @ [10]) ls @ (if z = [] then [] else [z]) \<and> l @ t = joined ls @ z \<and>
     10 \<notin> set z \<and> (\<forall>x \<in> set ls. 10 \<notin> set x)"
proof (induction l t rule: lines_of.induct)
  case (1 l)
  then show ?case by (intro exI [of _ "[]"] exI [of _ l]) simp
next
  case (2 l c t)
  show ?case
  proof (cases "c = 10")
    case True
    then obtain ls z where "lines_of [] t = map (\<lambda>x. x @ [10]) ls @ (if z = [] then [] else [z])" "t = joined ls @ z"
      "10 \<notin> set z" "\<forall>x \<in> set ls. 10 \<notin> set x" using "2.IH"(1) by auto
    then show ?thesis using True "2.prems" by (intro exI [of _ "l # ls"] exI [of _ z]) simp
  next
    case False
    then show ?thesis using "2.IH"(2) "2.prems" by simp
  qed
qed

lemma indented_lines:
  "concat (map (\<lambda>n. (if n \<noteq> [] \<and> n \<noteq> [10] then replicate i 32 else []) @ n) (map (\<lambda>x. x @ [10]) ls)) = block_text i ls"
  by (induction ls) (simp_all add: indented_def)

lemma indentString_parts:
  assumes "lines_of [] t = map (\<lambda>x. x @ [10]) ls @ (if z = [] then [] else [z])" and "10 \<notin> set z"
  shows "indentString t i = block_text i ls @ indented i z"
proof -
  have "z \<noteq> [] \<Longrightarrow> z \<noteq> [10]" using assms(2) by auto
  then show ?thesis unfolding indentString_def assms(1) map_append concat_append indented_lines by (simp add: indented_def)
qed

text \<open>What the reader makes of the lines of a literal block.\<close>

fun literal_text :: "chomping \<Rightarrow> bool \<Rightarrow> nat \<Rightarrow> js list \<Rightarrow> js" where
  "literal_text chomp content blanks [] = block_end chomp content blanks"
| "literal_text chomp content blanks (l # ls) =
     (if l = [] then literal_text chomp content (Suc blanks) ls
      else replicate (if content then Suc blanks else blanks) 10 @ l @ literal_text chomp True 0 ls)"

lemma literal_text_keep:
  "literal_text KEEP content blanks ls = replicate (if content then Suc blanks else blanks) 10 @ joined ls"
  by (induction KEEP content blanks ls rule: literal_text.induct) (auto simp: block_end_def replicate_app_Cons_same)

lemma literal_text_end:
  "ls \<noteq> [] \<Longrightarrow> last ls \<noteq> [] \<Longrightarrow> literal_text CLIP content blanks ls = literal_text KEEP content blanks ls \<and>
   literal_text KEEP content blanks ls = literal_text STRIP content blanks ls @ [10]"
proof (induction ls arbitrary: content blanks)
  case (Cons l ls)
  then show ?case by (cases "ls = []") (simp_all add: block_end_def)
qed simp

definition starts_unindented :: "js list \<Rightarrow> bool" where
  "starts_unindented ls \<longleftrightarrow> (case dropWhile (\<lambda>l. l = []) ls of [] \<Rightarrow> True | l # _ \<Rightarrow> hd l \<noteq> 32)"

lemma skip_chars_run:
  "ahead s = l @ c # u \<Longrightarrow> \<forall>x \<in> set l. P x \<Longrightarrow> \<not> P c \<Longrightarrow> skip_chars P s = moved (length l) s"
proof (induction l arbitrary: s)
  case Nil
  then show ?case unfolding skip_chars.simps [of P s] by (simp add: code_ahead)
next
  case (Cons x l)
  have "code s = Some x" using code_ahead [of s x "l @ c # u"] Cons.prems(1) by simp
  then show ?case using Cons.IH [of "moved 1 s"] Cons.prems unfolding skip_chars.simps [of P s] by simp
qed

definition after_break :: "yaml_state \<Rightarrow> yaml_state" where
  "after_break s = (moved 1 s)\<lparr>y_line := Suc (y_line s), y_lineStart := Suc (y_position s)\<rparr>"

lemma after_break_simps [simp]:
  "ahead (after_break s) = tl (ahead s)" "y_result (after_break s) = y_result s" "y_input (after_break s) = y_input s"
  using ahead_Suc(1) [of s] by (simp_all add: after_break_def ahead_def)

lemma ahead_after_break: "ahead ((after_break s)\<lparr>y_lineIndent := k\<rparr>) = tl (ahead s)"
  using after_break_simps(1) [of s] by (simp add: ahead_def)

lemma readLineBreak_ahead: "ahead s = 10 # u \<Longrightarrow> readLineBreak s = Inr (after_break s)"
  by (simp add: readLineBreak_def code_ahead after_break_def Let_def)

lemma takeWhile_replicate_append: "P x \<Longrightarrow> takeWhile P (replicate i x @ u) = replicate i x @ takeWhile P u"
  by (induction i) simp_all

lemma block_indent_ahead:
  assumes "ahead s = replicate i 32 @ c # u" and "c \<noteq> 32 \<or> known \<and> indent = i" and "known \<Longrightarrow> i \<le> indent"
  shows "block_indent known indent s = (moved i s)\<lparr>y_lineIndent := i\<rparr>"
proof -
  have "takeWhile (\<lambda>c. c = 32) (drop (y_position s) (y_input s)) = replicate i 32 @ takeWhile (\<lambda>c. c = 32) (c # u)"
    using assms(1) unfolding ahead_def by (simp add: takeWhile_replicate_append)
  then have "length (takeWhile (\<lambda>c. c = 32) (drop (y_position s) (y_input s))) = i + length (takeWhile (\<lambda>c. c = 32) (c # u))" by simp
  then show ?thesis using assms(2,3) unfolding block_indent_def Let_def by (auto simp: min_def)
qed

section \<open>Reading a literal block\<close>

lemma printable_line: "\<forall>c \<in> set l. isPrintable c \<and> c < 65536 \<Longrightarrow> \<forall>x \<in> set l. x \<notin> {10, 13, 0}"
  by (auto simp: isPrintable_def)

text \<open>One line with content.\<close>

lemma block_loop_line:
  assumes ah: "ahead s = 10 # indented i l @ 10 # u" and l: "l \<noteq> []" "\<forall>c \<in> set l. isPrintable c \<and> c < 65536"
    and i: "if known then indent = i else indent \<le> i \<and> hd l \<noteq> 32" and r: "y_result s = Some r"
  shows "\<exists>s1. block_loop False chomp content known indent blanks m s = block_loop False chomp True True i 0 m s1 \<and>
    ahead s1 = 10 # u \<and> y_result s1 = Some (r @ replicate (if content then Suc blanks else blanks) 10 @ l)"
proof -
  define x :: js where "x = replicate (if content then Suc blanks else blanks) 10"
  obtain c v where c: "l = c # v" using l(1) by (cases l) auto
  have ah1: "ahead (after_break s) = replicate i 32 @ c # v @ 10 # u" using ah c by (simp add: indented_def)
  then have "block_indent known indent (after_break s) = (moved i (after_break s))\<lparr>y_lineIndent := i\<rparr>"
    using block_indent_ahead [of "after_break s" i c "v @ 10 # u" known indent] i c by (auto split: if_splits)
  moreover have "ahead ((moved i (after_break s))\<lparr>y_lineIndent := i\<rparr>) = l @ 10 # u"
    using ah1 ahead_simps(2) [of "after_break s" i] c by (simp add: ahead_def)
  ultimately obtain s2 where s2: "block_indent known indent (after_break s) = s2" "ahead s2 = l @ 10 # u" "y_lineIndent s2 = i"
    "y_result s2 = Some r" using r by simp
  have c2: "code s2 = Some c" using code_ahead [of s2 c] s2(2) c by simp
  have eol: "\<not> is_EOL (Some c)" using printable_line [OF l(2)] c by (simp add: is_EOL_def)
  define s3 where "s3 = moved (length l) (add_result x s2)"
  have "skip_chars (\<lambda>c. c \<notin> {10, 13, 0}) (add_result x s2) = s3"
    unfolding s3_def by (rule skip_chars_run [of _ _ 10 u]) (use s2(2) printable_line [OF l(2)] in simp_all)
  moreover have a3: "ahead s3 = 10 # u" unfolding s3_def using s2(2) ahead_simps(2) [of "add_result x s2" "length l"] by simp
  ultimately have e3: "to_line_end (add_result x s2) = Some (Inr s3)"
    using code_ahead [OF a3] unfolding to_line_end_def Let_def by simp
  have "slice (y_input s3) (y_position s2) (y_position s3) = l" using slice_ahead [OF s2(2)] by (simp add: s3_def)
  then have "captureSegment (y_position s2) (y_position s3) False s3 = Inr (add_result l s3)"
    using printable_text [OF l(2), of False] l(1) by (simp add: captureSegment_def Let_def s3_def)
  moreover have ni: "(if \<not> known \<and> indent < i then i else indent) = i" using i by (auto split: if_splits)
  moreover have "block_joint False content m blanks (Some c) = (x, m)" by (simp add: block_joint_def x_def)
  ultimately have "block_loop False chomp content known indent blanks m s = block_loop False chomp True True i 0 m (add_result l s3)"
    unfolding block_loop.simps [of False chomp content known indent blanks m s] code_ahead [OF ah] readLineBreak_ahead [OF ah]
      Let_def sum.case s2(1,3) ni c2 by (simp add: eol e3)
  moreover have "y_result (add_result l s3) = Some (r @ x @ l)" using s2(4) by (simp add: s3_def)
  ultimately show ?thesis using a3 unfolding x_def by (intro exI [of _ "add_result l s3"]) simp
qed

lemma block_loop_blank:
  assumes "ahead s = 10 # 10 # u"
  shows "\<exists>s1. block_loop False chomp content known indent blanks m s = block_loop False chomp content known indent (Suc blanks) m s1 \<and>
    ahead s1 = 10 # u \<and> y_result s1 = y_result s"
proof -
  have "block_indent known indent (after_break s) = (after_break s)\<lparr>y_lineIndent := 0\<rparr>"
    using block_indent_ahead [of "after_break s" 0 10 u known indent] assms by simp
  then obtain s2 where s2: "block_indent known indent (after_break s) = s2" "ahead s2 = 10 # u" "y_lineIndent s2 = 0" "y_result s2 = y_result s"
    using ahead_after_break assms by simp
  have "block_loop False chomp content known indent blanks m s = block_loop False chomp content known indent (Suc blanks) m s2"
    unfolding block_loop.simps [of False chomp content known indent blanks m s]
    using code_ahead [OF s2(2)] by (simp add: code_ahead [OF assms] readLineBreak_ahead [OF assms] s2(1,3) is_EOL_def)
  then show ?thesis using s2 by (intro exI [of _ s2]) simp
qed

text \<open>The end of the document. Without any content an indentation of zero ends nothing, which makes no difference when all line feeds are kept.\<close>

lemma block_loop_end:
  assumes ah: "ahead s = [10, 0]" and "y_result s = Some r" and "0 < indent \<or> chomp = KEEP \<and> \<not> content"
  shows "\<exists>s1. block_loop False chomp content known indent blanks m s = Some (Inr s1) \<and> y_result s1 = Some (r @ block_end chomp content blanks)"
proof -
  have "block_indent known indent (after_break s) = (after_break s)\<lparr>y_lineIndent := 0\<rparr>"
    using block_indent_ahead [of "after_break s" 0 0 "[]" known indent] ah by simp
  then obtain s2 where s2: "block_indent known indent (after_break s) = s2" "ahead s2 = [0]" "y_lineIndent s2 = 0" "y_result s2 = Some r"
    using ahead_after_break ah assms(2) by simp
  note c2 = code_ahead [OF s2(2)]
  show ?thesis
  proof (cases "0 < indent")
    case True
    then have "block_loop False chomp content known indent blanks m s = Some (Inr (add_result (block_end chomp content blanks) s2))"
      unfolding block_loop.simps [of False chomp content known indent blanks m s]
      using c2 by (simp add: code_ahead [OF ah] readLineBreak_ahead [OF ah] s2(1,3) is_EOL_def)
    then show ?thesis using s2(4) by simp
  next
    case False
    define s3 where "s3 = add_result (replicate blanks 10) s2"
    have p3: "y_position s3 = y_position s2" "y_result s3 = Some (r @ replicate blanks 10)" using s2(4) by (simp_all add: s3_def)
    have c3: "code s3 = Some 0" using c2 by (simp add: s3_def)
    then have "skip_chars (\<lambda>c. c \<notin> {10, 13, 0}) s3 = s3" unfolding skip_chars.simps [of _ s3] by simp
    then have e: "to_line_end s3 = Some (Inr s3)" using c3 by (simp add: to_line_end_def)
    have f: "block_loop False chomp True True 0 0 k s3 = Some (Inr s3)" for k
      unfolding block_loop.simps [of False chomp True True 0 0 k s3] using c3 by simp
    have "block_joint False content m blanks (Some 0) = (replicate blanks 10, m)" using False assms(3) by (simp add: block_joint_def)
    moreover have "captureSegment (y_position s2) (y_position s3) False s3 = Inr s3" by (simp add: captureSegment_def p3)
    ultimately have "block_loop False chomp content known indent blanks m s = Some (Inr s3)"
      unfolding block_loop.simps [of False chomp content known indent blanks m s] code_ahead [OF ah] readLineBreak_ahead [OF ah]
        Let_def sum.case s2(1,3) c2 using False assms(3) e f by (simp add: is_EOL_def flip: s3_def)
    then show ?thesis using False assms(3) p3 by (simp add: block_end_def)
  qed
qed

lemma block_loop_reads:
  "ahead s = 10 # block_text i ls @ [0] \<Longrightarrow> \<forall>l \<in> set ls. \<forall>c \<in> set l. isPrintable c \<and> c < 65536 \<Longrightarrow> 0 < i \<Longrightarrow>
   (if known then indent = i else \<not> content \<and> indent \<le> i \<and> starts_unindented ls) \<Longrightarrow>
   known \<or> (\<exists>l \<in> set ls. l \<noteq> []) \<or> 0 < indent \<or> chomp = KEEP \<Longrightarrow> y_result s = Some r \<Longrightarrow>
   \<exists>s1. block_loop False chomp content known indent blanks m s = Some (Inr s1) \<and> y_result s1 = Some (r @ literal_text chomp content blanks ls)"
proof (induction ls arbitrary: s content known indent blanks r)
  case Nil
  then show ?case using block_loop_end [of s r indent chomp content known blanks m] by (auto split: if_splits)
next
  case (Cons l ls)
  show ?case
  proof (cases "l = []")
    case True
    obtain s1 where s1: "block_loop False chomp content known indent blanks m s = block_loop False chomp content known indent (Suc blanks) m s1"
      "ahead s1 = 10 # block_text i ls @ [0]" "y_result s1 = y_result s"
      using block_loop_blank [of s "block_text i ls @ [0]" chomp content known indent blanks m] Cons.prems(1) True by (auto simp: indented_def)
    have "starts_unindented (l # ls) = starts_unindented ls" using True by (simp add: starts_unindented_def)
    then have "if known then indent = i else \<not> content \<and> indent \<le> i \<and> starts_unindented ls"
      using Cons.prems(4) by (auto split: if_splits)
    then show ?thesis unfolding s1(1) using Cons.IH [OF s1(2), of known indent content r "Suc blanks"] Cons.prems(2,3,5,6) s1(3) True
      by simp
  next
    case False
    have "if known then indent = i else indent \<le> i \<and> hd l \<noteq> 32"
      using Cons.prems(4) False by (auto simp: starts_unindented_def split: if_splits)
    then obtain s1 where s1: "block_loop False chomp content known indent blanks m s = block_loop False chomp True True i 0 m s1"
      "ahead s1 = 10 # block_text i ls @ [0]" "y_result s1 = Some (r @ replicate (if content then Suc blanks else blanks) 10 @ l)"
      using block_loop_line [of s i l "block_text i ls @ [0]" known indent r chomp content blanks m] Cons.prems False by auto
    show ?thesis unfolding s1(1) using Cons.IH [OF s1(2), of True i True _ 0] Cons.prems(2,3) s1(3) False by simp
  qed
qed

section \<open>Literal blocks are read back\<close>

lemma js_at_penultimate: "js_at (a @ [y, x]) (int (length (a @ [y, x])) - 2) = Some y"
proof -
  have "int (length (a @ [y, x])) - 2 = int (length a)" by simp
  then show ?thesis by (simp only: js_at_def) simp
qed

lemma blockHeader_chomp:
  assumes "t = joined ls @ z" and "t \<noteq> []" and "10 \<notin> set z" and "hd t \<noteq> 32" and "\<forall>x \<in> set ls. 10 \<notin> set x"
  shows "blockHeader t k = (if z \<noteq> [] then [45, 10] else if last ls = [] then [43, 10] else [10])"
proof (cases "z = []")
  case False
  then have "last t \<noteq> 10" using assms(1,3) by (metis last_appendR last_in_set)
  then show ?thesis using False assms(4) by (simp add: blockHeader_def lit_def)
next
  case True
  then obtain ks x where ls: "ls = ks @ [x]" using assms(1,2) by (cases ls rule: rev_cases) auto
  have t: "t = joined ks @ x @ [10]" using assms(1) True ls by simp
  have x: "10 \<notin> set x" using assms(5) ls by simp
  have "(js_at t (int (length t) - 2) = Some 10 \<or> t = [10]) \<longleftrightarrow> x = []"
  proof (cases "x = []")
    case True
    show ?thesis
    proof (cases ks rule: rev_cases)
      case (snoc ys y)
      then have "t = (joined ys @ y) @ [10, 10]" using t True by simp
      then show ?thesis using js_at_penultimate [of "joined ys @ y" 10 10] True by metis
    qed (use t True in simp)
  next
    case False
    then obtain y v where v: "x = v @ [y]" by (cases x rule: rev_cases) auto
    then have e: "t = (joined ks @ v) @ [y, 10]" using t by simp
    then have "js_at t (int (length t) - 2) = Some y" using js_at_penultimate [of "joined ks @ v" y 10] by metis
    moreover have "y \<noteq> 10" "t \<noteq> [10]" using v x e by auto
    ultimately show ?thesis using False by simp
  qed
  then show ?thesis using True t ls assms(4) by (simp add: blockHeader_def lit_def Let_def)
qed

lemma block_header_reads:
  assumes "ahead s = 124 # h @ u" and "h = [45] \<and> chomp = STRIP \<or> h = [43] \<and> chomp = KEEP \<or> h = [] \<and> chomp = CLIP" and "u = 10 # v"
  shows "\<exists>s1. block_header node CLIP False node s = Some (Inr (chomp, False, node, s1)) \<and> ahead s1 = u \<and> y_result s1 = y_result s"
proof (cases "h = []")
  case True
  then have "block_header node CLIP False node s = Some (Inr (CLIP, False, node, moved 1 s))"
    using assms next_code_ahead [of s 124 10 v] code_ahead [of s 124] unfolding block_header.simps [of node CLIP False node s]
    by (simp add: fromDecimalCode_def)
  then show ?thesis using True assms by (intro exI [of _ "moved 1 s"]) simp
next
  case False
  then obtain c where h: "h = [c]" "c = 45 \<and> chomp = STRIP \<or> c = 43 \<and> chomp = KEEP" using assms(2) by auto
  let ?s1 = "moved 1 s"
  have a1: "ahead ?s1 = c # 10 # v" using assms h by simp
  have "block_header node CLIP False node s = block_header node chomp False node ?s1"
    using code_ahead [of s 124] code_ahead [OF a1] assms(1) h(2) unfolding block_header.simps [of node CLIP False node s] by auto
  also have "\<dots> = Some (Inr (chomp, False, node, moved 1 ?s1))"
    using code_ahead [OF a1] next_code_ahead [OF a1] h(2) unfolding block_header.simps [of node chomp False node ?s1]
    by (auto simp: fromDecimalCode_def)
  finally show ?thesis using a1 assms(3) by (intro exI [of _ "moved 1 ?s1"]) simp
qed

lemma starts_unindented_lines:
  "(\<forall>x \<in> set ls. 10 \<notin> set x) \<Longrightarrow> joined ls = t \<Longrightarrow> dropWhile (\<lambda>c. c = 10) t = [] \<or> hd (dropWhile (\<lambda>c. c = 10) t) \<noteq> 32 \<Longrightarrow> starts_unindented ls"
proof (induction ls arbitrary: t)
  case (Cons l ls)
  show ?case
  proof (cases l)
    case Nil
    then show ?thesis using Cons by (auto simp: starts_unindented_def)
  next
    case (Cons c v)
    then show ?thesis using Cons.prems by (auto simp: starts_unindented_def)
  qed
qed (simp add: starts_unindented_def)

text \<open>The lines that the loader gets: those of the text, the last one only when it is not empty.\<close>

lemma written_literal:
  assumes "\<forall>c \<in> set t. isPrintable c \<or> c = 10" and "t \<noteq> []" and "hd t \<noteq> 32"
  shows "\<exists>ls h chomp. 124 # blockHeader t k @ dropEndingNewline (indentString t i) @ [10] = 124 # h @ 10 # block_text i ls \<and>
    (h = [45] \<and> chomp = STRIP \<or> h = [43] \<and> chomp = KEEP \<or> h = [] \<and> chomp = CLIP) \<and> literal_text chomp False 0 ls = t \<and>
    (\<forall>l \<in> set ls. \<forall>c \<in> set l. c \<in> set t \<and> c \<noteq> 10) \<and> ((\<exists>l \<in> set ls. l \<noteq> []) \<or> chomp = KEEP) \<and>
    (dropWhile (\<lambda>c. c = 10) t = [] \<or> hd (dropWhile (\<lambda>c. c = 10) t) \<noteq> 32 \<longrightarrow> starts_unindented ls)"
proof -
  obtain ls z where p: "lines_of [] t = map (\<lambda>x. x @ [10]) ls @ (if z = [] then [] else [z])" "t = joined ls @ z"
    "10 \<notin> set z" "\<forall>x \<in> set ls. 10 \<notin> set x" using lines_of_parts [of "[]" t] by auto
  note ind = indentString_parts [OF p(1,3), of i]
  note hd' = blockHeader_chomp [OF p(2) assms(2) p(3) assms(3) p(4), of k]
  have mem: "\<forall>l \<in> set (ls @ [z]). \<forall>c \<in> set l. c \<in> set t \<and> c \<noteq> 10" using p(2,3,4) by auto
  show ?thesis
  proof (cases "z = []")
    case True
    have e: "dropEndingNewline (indentString t i) @ [10] = block_text i ls" and ne: "ls \<noteq> []"
      using ind True p(2) assms(2) by (cases ls rule: rev_cases; simp add: dropEndingNewline_def indented_def butlast_append)+
    have u: "dropWhile (\<lambda>c. c = 10) t = [] \<or> hd (dropWhile (\<lambda>c. c = 10) t) \<noteq> 32 \<longrightarrow> starts_unindented ls"
      using starts_unindented_lines [OF p(4), of t] p(2) True by simp
    have k: "literal_text KEEP False 0 ls = t" using literal_text_keep [of False 0 ls] p(2) True by simp
    show ?thesis
    proof (cases "last ls = []")
      case True
      then have "blockHeader t k = [43] @ [10]" using hd' \<open>z = []\<close> by simp
      then show ?thesis using e k u mem \<open>z = []\<close> by (intro exI [of _ ls] exI [of _ "[43]"] exI [of _ KEEP]) simp
    next
      case False
      then have "blockHeader t k = [] @ [10]" using hd' \<open>z = []\<close> by simp
      moreover have "literal_text CLIP False 0 ls = t" using literal_text_end [OF ne False, of False 0] k by simp
      moreover have "\<exists>l \<in> set ls. l \<noteq> []" using False ne last_in_set by blast
      ultimately show ?thesis using e u mem by (intro exI [of _ ls] exI [of _ "[]"] exI [of _ CLIP]) simp
    qed
  next
    case False
    let ?ls = "ls @ [z]"
    have j: "joined ?ls = t @ [10]" using p(2) by simp
    have "last z \<noteq> 10" using False p(3) by (metis last_in_set)
    then have "last (indentString t i) \<noteq> 10" using ind False by (simp add: indented_def)
    then have e: "dropEndingNewline (indentString t i) @ [10] = block_text i ?ls" using ind by (simp add: dropEndingNewline_def)
    have "literal_text STRIP False 0 ?ls @ [10] = t @ [10]"
      using literal_text_end [of ?ls False 0] literal_text_keep [of False 0 ?ls] False j by simp
    moreover have "dropWhile (\<lambda>c. c = 10) t = [] \<or> hd (dropWhile (\<lambda>c. c = 10) t) \<noteq> 32 \<longrightarrow> starts_unindented ?ls"
      using starts_unindented_lines [of ?ls "t @ [10]"] p(3,4) j by (auto simp: dropWhile_append)
    moreover have "blockHeader t k = [45] @ [10]" using hd' False by simp
    ultimately show ?thesis using e mem False
      by (intro exI [of _ ?ls] exI [of _ "[45]"] exI [of _ STRIP]) auto
  qed
qed

lemma written_with_bar:
  assumes "writeScalar e t level iskey = Some (124 # v)"
  shows "\<exists>single w. chooseScalarStyle t single (d_indent e) w (testImplicitResolving (d_implicitTypes e)) = LITERAL \<and> t \<noteq> [] \<and>
    v = blockHeader t (d_indent e) @ dropEndingNewline (indentString t (d_indent e * max 1 level))"
proof -
  let ?single = "iskey \<or> (case d_flowLevel e of None \<Rightarrow> False | Some l \<Rightarrow> l \<le> level)"
  let ?w = "map_option (\<lambda>w. max (min w 40) (w - d_indent e * max 1 level)) (d_lineWidth e)"
  have n: "t \<noteq> []" "d_noCompatMode e \<or> t \<notin> set DEPRECATED_BOOLEANS_SYNTAX"
    using assms by (auto simp: writeScalar_def quoted_def split: if_splits)
  have "isPlainSafeFirst (hd t) \<Longrightarrow> hd t \<noteq> 124" by (auto simp: isPlainSafeFirst_def)
  then have "chooseScalarStyle t ?single (d_indent e) ?w (testImplicitResolving (d_implicitTypes e)) = LITERAL"
    using assms n style_facts(1) [of t ?single "d_indent e" ?w "testImplicitResolving (d_implicitTypes e)" PLAIN] unfolding writeScalar_def Let_def
    by (cases "chooseScalarStyle t ?single (d_indent e) ?w (testImplicitResolving (d_implicitTypes e))") (auto simp: quoted_def)
  moreover from this have "v = blockHeader t (d_indent e) @ dropEndingNewline (indentString t (d_indent e * max 1 level))"
    using assms n unfolding writeScalar_def Let_def by auto
  ultimately show ?thesis using n by blast
qed

text \<open>C32: A text of UTF-16 code units that is written as a literal block, at the end of the input, is read back exactly, whatever
  line feeds it ends with, on three conditions: its first line with content does not start with a space, a level is indented
  by at least one space, and the loader asks for no more indentation than is written. A text whose first line with content
  starts with a space can come back changed (\<open>leading_spaces_are_lost\<close> below).
\<close>

theorem literal_blocks_are_read_back:
  assumes "writeScalar e t level iskey = Some (124 # v)" and "\<forall>c \<in> set t. c < 65536"
    and "hd (dropWhile (\<lambda>c. c = 10) t @ [0]) \<noteq> 32" and "0 < d_indent e" and "node \<le> d_indent e * max 1 level"
    and "ahead s = (124 # v) @ [10, 0]"
  shows "\<exists>s1. readBlockScalar node s = Some (Inr (True, s1)) \<and> y_result s1 = Some t"
proof -
  let ?i = "d_indent e * max 1 level"
  obtain single w where y: "chooseScalarStyle t single (d_indent e) w (testImplicitResolving (d_implicitTypes e)) = LITERAL" and ne: "t \<noteq> []"
    and v: "v = blockHeader t (d_indent e) @ dropEndingNewline (indentString t ?i)" using written_with_bar [OF assms(1)] by blast
  have pr: "\<forall>c \<in> set t. isPrintable c \<or> c = 10" using style_facts(3) [OF y] by simp
  have f: "dropWhile (\<lambda>c. c = 10) t = [] \<or> hd (dropWhile (\<lambda>c. c = 10) t) \<noteq> 32"
    using assms(3) by (cases "dropWhile (\<lambda>c. c = 10) t") simp_all
  have "hd t \<noteq> 32" using f ne by (cases t) auto
  then obtain ls h chomp where w: "124 # blockHeader t (d_indent e) @ dropEndingNewline (indentString t ?i) @ [10] = 124 # h @ 10 # block_text ?i ls"
    "h = [45] \<and> chomp = STRIP \<or> h = [43] \<and> chomp = KEEP \<or> h = [] \<and> chomp = CLIP" "literal_text chomp False 0 ls = t"
    "\<forall>l \<in> set ls. \<forall>c \<in> set l. c \<in> set t \<and> c \<noteq> 10" "(\<exists>l \<in> set ls. l \<noteq> []) \<or> chomp = KEEP" "starts_unindented ls"
    using written_literal [OF pr ne, of "d_indent e" ?i] f by metis
  have "ahead s = (124 # blockHeader t (d_indent e) @ dropEndingNewline (indentString t ?i) @ [10]) @ [0]" using assms(6) v by simp
  then have a: "ahead s = 124 # h @ 10 # block_text ?i ls @ [0]" unfolding w(1) by simp
  then obtain s1 where s1: "block_header node CLIP False node (start_scalar s) = Some (Inr (chomp, False, node, s1))"
    "ahead s1 = 10 # block_text ?i ls @ [0]" "y_result s1 = Some []"
    using block_header_reads [of "start_scalar s" h _ chomp "block_text ?i ls @ [0]" node] w(2) by auto
  have "\<forall>l \<in> set ls. \<forall>c \<in> set l. isPrintable c \<and> c < 65536" using w(4) pr assms(2) by blast
  moreover have pos: "0 < ?i" using assms(4) by (cases level) simp_all
  ultimately obtain s2 where "block_loop False chomp False False node 0 False s1 = Some (Inr s2)" "y_result s2 = Some t"
    using block_loop_reads [OF s1(2), of False node False chomp "[]" 0 False] assms(4,5) w(3,5,6) s1(3) by auto
  moreover have "after_header s1 = Some (Inr s1)" using code_ahead [OF s1(2)] by (simp add: after_header_def is_WHITE_SPACE_def)
  ultimately show ?thesis using s1(1) code_ahead [OF a] by (simp add: readBlockScalar_def)
qed

definition default_dump :: "unit dump_state" where
  "default_dump = \<lparr>d_indent = 2, d_lineWidth = Some 80, d_flowLevel = None, d_noCompatMode = False, d_implicitTypes = []\<rparr>"

definition at_start :: "js \<Rightarrow> yaml_state" where
  "at_start t = \<lparr>y_input = t, y_position = 0, y_line = 0, y_lineStart = 0, y_lineIndent = 0, y_kind = None, y_result = None\<rparr>"

lemmas write_simps = writeScalar_def default_dump_def chooseScalarStyle_def foldable_def js_at_def isPlainSafeFirst_def isWhitespace_def
  isPlainSafe_def isPrintable_def testImplicitResolving_def DEPRECATED_BOOLEANS_SYNTAX_def lit_def blockHeader_def dropEndingNewline_def indentString_def
  decimal.simps

lemmas read_simps = readBlockScalar_def at_start_def start_scalar_def block_header.simps codeAt_def fromDecimalCode_def after_header_def
  is_WHITE_SPACE_def block_loop.simps readLineBreak_def block_indent_def is_EOL_def to_line_end_def skip_chars.simps captureSegment_def
  block_joint_def slice_def add_result_def surrogate_high_def surrogate_low_def block_end_def Let_def

text \<open>Two lines with an empty one between them.\<close>

theorem literal_blocks_are_read_back_witness:
  "\<exists>s1. readBlockScalar 0 (at_start ([124, 45, 10, 32, 32, 97, 10, 10, 32, 32, 98] @ [10, 0])) = Some (Inr (True, s1)) \<and>
     y_result s1 = Some [97, 10, 10, 98]"
proof (rule literal_blocks_are_read_back [of default_dump "[97, 10, 10, 98]" 0 False "[45, 10, 32, 32, 97, 10, 10, 32, 32, 98]"])
  show "writeScalar default_dump [97, 10, 10, 98] 0 False = Some (124 # [45, 10, 32, 32, 97, 10, 10, 32, 32, 98])"
    by (simp add: write_simps numeral_2_eq_2)
qed (simp_all add: default_dump_def at_start_def ahead_def)

lemma written_texts:
  "writeScalar default_dump [10, 32, 32, 97] 0 False = Some [124, 45, 10, 10, 32, 32, 32, 32, 97]"
  "writeScalar default_dump [32, 97, 10, 98] 0 False = Some [124, 50, 45, 10, 32, 32, 32, 97, 10, 32, 32, 98]"
  "writeScalar default_dump [46, 46, 46] 0 False = Some [46, 46, 46]"
  by (simp_all add: write_simps numeral_2_eq_2)

lemma read_texts:
  "\<exists>s1. readBlockScalar 0 (at_start [124, 45, 10, 10, 32, 32, 32, 32, 97, 10, 0]) = Some (Inr (True, s1)) \<and> y_result s1 = Some [10, 97]"
  "\<exists>s1. readBlockScalar 0 (at_start [124, 50, 45, 10, 32, 32, 32, 97, 10, 32, 32, 98, 10, 0]) = Some (Inr (True, s1)) \<and>
     y_result s1 = Some [32, 32, 97, 10, 32, 98]"
  "\<exists>s1. readPlainScalar 0 False (at_start [46, 46, 46, 10, 0]) = Some (Inr (False, s1)) \<and> y_result s1 = None"
  by (simp_all add: read_simps)
    (simp add: readPlainScalar_def plain_loop.simps plain_stops_def testDocumentSeparator_def is_WS_OR_EOL_def is_FLOW_INDICATOR_def
      at_start_def start_scalar_def codeAt_def captureSegment_def Let_def)

text \<open>Where the first line with content starts with spaces the block is not read back: after an empty first line they are
  taken for indentation, and on the first line of a text at the root of the document each line gains a space, since the
  dumper writes an indentation that counts from zero and the loader reads one that counts from one before. A text that
  looks like the end of a document is written plainly and not read at all.
\<close>

theorem leading_spaces_are_lost:
  "(\<exists>u s1. writeScalar default_dump [10, 32, 32, 97] 0 False = Some u \<and>
      readBlockScalar 0 (at_start (u @ [10, 0])) = Some (Inr (True, s1)) \<and> y_result s1 = Some [10, 97]) \<and>
   (\<exists>u s1. writeScalar default_dump [32, 97, 10, 98] 0 False = Some u \<and>
      readBlockScalar 0 (at_start (u @ [10, 0])) = Some (Inr (True, s1)) \<and> y_result s1 = Some [32, 32, 97, 10, 32, 98]) \<and>
   (\<exists>u s1. writeScalar default_dump [46, 46, 46] 0 False = Some u \<and>
      readPlainScalar 0 False (at_start (u @ [10, 0])) = Some (Inr (False, s1)) \<and> y_result s1 = None)"
  using read_texts by (simp add: written_texts)

end
