(* ===== verification/Script_Yaml_Graphs.thy ===== *)
theory Script_Yaml_Graphs
  imports Script_Prelude
begin

text \<open>
  The serializer and the composer of yaml-js: the nodes of a document, a graph that may be cyclic, become a list of events
  with anchors and aliases, and events become nodes. A node is an object with an identity: an address in a heap. Marks,
  which tell where in a text a node was, are left out; so are the resolvers by path, of which there are none unless a caller
  adds them. The events of a parser are balanced: a mapping never ends after a key, for which the composer here gives no result.
\<close>

section \<open>Nodes and events\<close>

datatype ynode =
  ScalarNode "js option" js "js option"
| SequenceNode "js option" "nat list" "bool option"
| MappingNode "js option" "(nat \<times> nat) list" "bool option"

datatype event =
  StreamStartEvent | StreamEndEvent | DocumentStartEvent | DocumentEndEvent
| AliasEvent "js option"
| ScalarEvent "js option" "js option" "bool \<times> bool" js "js option"
| SequenceStartEvent "js option" "js option" bool "bool option"
| SequenceEndEvent
| MappingStartEvent "js option" "js option" bool "bool option"
| MappingEndEvent

text \<open>The tag that the resolver finds for a scalar, a sequence or a mapping.\<close>

record resolver =
  r_scalar :: "js \<Rightarrow> bool \<times> bool \<Rightarrow> js option"
  r_sequence :: "bool \<Rightarrow> js option"
  r_mapping :: "bool \<Rightarrow> js option"

definition pairs_of :: "('a \<times> 'a) list \<Rightarrow> 'a list" where
  "pairs_of ps = concat (map (\<lambda>(k, v). [k, v]) ps)"

definition kids :: "ynode \<Rightarrow> nat list" where
  "kids x = (case x of ScalarNode t v s \<Rightarrow> [] | SequenceNode t xs fl \<Rightarrow> xs | MappingNode t ps fl \<Rightarrow> pairs_of ps)"

section \<open>The serializer\<close>

record serializer =
  s_closed :: "bool option"
  s_serialized :: "nat set"
  s_anchors :: "nat \<rightharpoonup> js option"
  s_last :: nat

definition pad_left :: "js \<Rightarrow> js \<Rightarrow> nat \<Rightarrow> js" where
  "pad_left e t n =
     (if length e \<ge> n then e
      else if length e + 1 = n then t @ e
      else concat (replicate (n - length e) t) @ e)"

definition anchor_name :: "nat \<Rightarrow> js" where
  "anchor_name n = lit ''id'' @ pad_left (decimal n) (lit ''0'') 4"

text \<open>A node that is met for the first time gets the anchor \<^verbatim>\<open>null\<close>, one that is met again a name.\<close>

fun anchor_node :: "(nat \<Rightarrow> ynode) \<Rightarrow> nat \<Rightarrow> nat \<Rightarrow> (nat \<rightharpoonup> js option) \<times> nat \<Rightarrow> ((nat \<rightharpoonup> js option) \<times> nat) option"
  and anchor_nodes :: "(nat \<Rightarrow> ynode) \<Rightarrow> nat \<Rightarrow> nat list \<Rightarrow> (nat \<rightharpoonup> js option) \<times> nat \<Rightarrow> ((nat \<rightharpoonup> js option) \<times> nat) option" where
  "anchor_node h 0 e st = None"
| "anchor_node h (Suc fuel) e (anchors, n) =
     (case anchors e of
        Some (Some x) \<Rightarrow> Some (anchors, n)
      | Some None \<Rightarrow> Some (anchors(e \<mapsto> Some (anchor_name (Suc n))), Suc n)
      | None \<Rightarrow> anchor_nodes h fuel (kids (h e)) (anchors(e \<mapsto> None), n))"
| "anchor_nodes h fuel [] st = Some st"
| "anchor_nodes h fuel (e # es) st =
     (case anchor_node h fuel e st of None \<Rightarrow> None | Some st' \<Rightarrow> anchor_nodes h fuel es st')"

definition anchor_of :: "(nat \<rightharpoonup> js option) \<Rightarrow> nat \<Rightarrow> js option" where
  "anchor_of anchors e = (case anchors e of Some (Some x) \<Rightarrow> Some x | _ \<Rightarrow> None)"

fun serialize_node :: "resolver \<Rightarrow> (nat \<Rightarrow> ynode) \<Rightarrow> (nat \<rightharpoonup> js option) \<Rightarrow> nat \<Rightarrow> nat \<Rightarrow> nat set \<Rightarrow> (event list \<times> nat set) option"
  and serialize_nodes :: "resolver \<Rightarrow> (nat \<Rightarrow> ynode) \<Rightarrow> (nat \<rightharpoonup> js option) \<Rightarrow> nat \<Rightarrow> nat list \<Rightarrow> nat set \<Rightarrow> (event list \<times> nat set) option" where
  "serialize_node r h anchors 0 e d = None"
| "serialize_node r h anchors (Suc fuel) e d =
     (let i = anchor_of anchors e
      in if e \<in> d then Some ([AliasEvent i], d)
         else case h e of
           ScalarNode t v s \<Rightarrow>
             Some ([ScalarEvent i t (t = r_scalar r v (True, False), t = r_scalar r v (False, True)) v s], insert e d)
         | SequenceNode t xs fl \<Rightarrow>
             map_option (\<lambda>(es, d'). (SequenceStartEvent i t (t = r_sequence r True) fl # es @ [SequenceEndEvent], d'))
               (serialize_nodes r h anchors fuel xs (insert e d))
         | MappingNode t ps fl \<Rightarrow>
             map_option (\<lambda>(es, d'). (MappingStartEvent i t (t = r_mapping r True) fl # es @ [MappingEndEvent], d'))
               (serialize_nodes r h anchors fuel (pairs_of ps) (insert e d)))"
| "serialize_nodes r h anchors fuel [] d = Some ([], d)"
| "serialize_nodes r h anchors fuel (e # es) d =
     (case serialize_node r h anchors fuel e d of
        None \<Rightarrow> None
      | Some (ev, d1) \<Rightarrow> map_option (\<lambda>(evs, d2). (ev @ evs, d2)) (serialize_nodes r h anchors fuel es d1))"

definition new_serializer :: serializer where
  "new_serializer = \<lparr>s_closed = None, s_serialized = {}, s_anchors = Map.empty, s_last = 0\<rparr>"

definition serializer_open :: "serializer \<Rightarrow> string + event list \<times> serializer" where
  "serializer_open s =
     (case s_closed s of
        None \<Rightarrow> Inr ([StreamStartEvent], s\<lparr>s_closed := Some False\<rparr>)
      | Some True \<Rightarrow> Inl ''serializer is closed''
      | Some False \<Rightarrow> Inl ''serializer is already open'')"

definition serializer_close :: "serializer \<Rightarrow> string + event list \<times> serializer" where
  "serializer_close s =
     (case s_closed s of
        None \<Rightarrow> Inl ''serializer is not opened''
      | Some True \<Rightarrow> Inr ([], s)
      | Some False \<Rightarrow> Inr ([StreamEndEvent], s\<lparr>s_closed := Some True\<rparr>))"

text \<open>A document, or nothing for \<^verbatim>\<open>null\<close>.\<close>

definition serialize :: "resolver \<Rightarrow> (nat \<Rightarrow> ynode) \<Rightarrow> nat \<Rightarrow> nat option \<Rightarrow> serializer \<Rightarrow> (string + event list \<times> serializer) option" where
  "serialize r h fuel e s =
     (let reset = s\<lparr>s_serialized := {}, s_anchors := Map.empty, s_last := 0\<rparr>
      in case s_closed s of
           None \<Rightarrow> Some (Inl ''serializer is not opened'')
         | Some True \<Rightarrow> Some (Inl ''serializer is closed'')
         | Some False \<Rightarrow>
             (case e of
                None \<Rightarrow> Some (Inr ([], reset))
              | Some a \<Rightarrow>
                  (case anchor_node h fuel a (s_anchors s, s_last s) of
                     None \<Rightarrow> None
                   | Some (anchors, n) \<Rightarrow>
                       (case serialize_node r h anchors fuel a (s_serialized s) of
                          None \<Rightarrow> None
                        | Some (es, d) \<Rightarrow> Some (Inr (DocumentStartEvent # es @ [DocumentEndEvent], reset))))))"

section \<open>The composer\<close>

record composer =
  c_anchors :: "js \<rightharpoonup> nat"
  c_heap :: "nat \<rightharpoonup> ynode"
  c_next :: nat

text \<open>A new node, which is known under its anchor from now on.\<close>

definition add_node :: "js option \<Rightarrow> ynode \<Rightarrow> composer \<Rightarrow> composer" where
  "add_node e x c =
     c\<lparr>c_anchors := (case e of None \<Rightarrow> c_anchors c | Some k \<Rightarrow> (c_anchors c)(k \<mapsto> c_next c)),
       c_heap := (c_heap c)(c_next c \<mapsto> x), c_next := Suc (c_next c)\<rparr>"

definition push_item :: "nat \<Rightarrow> nat \<Rightarrow> composer \<Rightarrow> composer" where
  "push_item i v c =
     (case c_heap c i of
        Some (SequenceNode t xs fl) \<Rightarrow> c\<lparr>c_heap := (c_heap c)(i \<mapsto> SequenceNode t (xs @ [v]) fl)\<rparr>
      | _ \<Rightarrow> c)"

definition push_pair :: "nat \<Rightarrow> nat \<Rightarrow> nat \<Rightarrow> composer \<Rightarrow> composer" where
  "push_pair i k v c =
     (case c_heap c i of
        Some (MappingNode t ps fl) \<Rightarrow> c\<lparr>c_heap := (c_heap c)(i \<mapsto> MappingNode t (ps @ [(k, v)]) fl)\<rparr>
      | _ \<Rightarrow> c)"

definition final_tag :: "js option \<Rightarrow> js option \<Rightarrow> js option" where
  "final_tag t found = (if t \<noteq> None \<and> t \<noteq> Some (lit ''!'') then t else found)"

text \<open>An anchor that is \<^verbatim>\<open>null\<close> is looked up under the name \<^verbatim>\<open>null\<close>.\<close>

definition anchor_key :: "js option \<Rightarrow> js" where
  "anchor_key e = (case e of None \<Rightarrow> lit ''null'' | Some k \<Rightarrow> k)"

definition duplicate :: "js option \<Rightarrow> composer \<Rightarrow> bool" where
  "duplicate e c \<longleftrightarrow> (case e of None \<Rightarrow> False | Some k \<Rightarrow> k \<in> dom (c_anchors c))"

text \<open>The node is missing where the next event starts none; the loops of a collection would then go on forever.\<close>

fun compose_node :: "resolver \<Rightarrow> nat \<Rightarrow> event list \<Rightarrow> composer \<Rightarrow> (string + nat option \<times> event list \<times> composer) option"
  and compose_items :: "resolver \<Rightarrow> nat \<Rightarrow> nat \<Rightarrow> event list \<Rightarrow> composer \<Rightarrow> (string + event list \<times> composer) option"
  and compose_pairs :: "resolver \<Rightarrow> nat \<Rightarrow> nat \<Rightarrow> event list \<Rightarrow> composer \<Rightarrow> (string + event list \<times> composer) option" where
  "compose_node r 0 es c = None"
| "compose_node r (Suc fuel) es c =
     (case es of
        [] \<Rightarrow> Some (Inl ''TypeError'')
      | AliasEvent e # es' \<Rightarrow>
          (case c_anchors c (anchor_key e) of
             None \<Rightarrow> Some (Inl ''found undefined alias'')
           | Some a \<Rightarrow> Some (Inr (Some a, es', c)))
      | ScalarEvent e t imp v s # es' \<Rightarrow>
          if duplicate e c then Some (Inl ''found duplicate anchor'')
          else Some (Inr (Some (c_next c), es', add_node e (ScalarNode (final_tag t (r_scalar r v imp)) v s) c))
      | SequenceStartEvent e t imp fl # es' \<Rightarrow>
          if duplicate e c then Some (Inl ''found duplicate anchor'')
          else
            (case compose_items r fuel (c_next c) es' (add_node e (SequenceNode (final_tag t (r_sequence r imp)) [] fl) c) of
               None \<Rightarrow> None
             | Some (Inl x) \<Rightarrow> Some (Inl x)
             | Some (Inr (es1, c1)) \<Rightarrow> Some (Inr (Some (c_next c), es1, c1)))
      | MappingStartEvent e t imp fl # es' \<Rightarrow>
          if duplicate e c then Some (Inl ''found duplicate anchor'')
          else
            (case compose_pairs r fuel (c_next c) es' (add_node e (MappingNode (final_tag t (r_mapping r imp)) [] fl) c) of
               None \<Rightarrow> None
             | Some (Inl x) \<Rightarrow> Some (Inl x)
             | Some (Inr (es1, c1)) \<Rightarrow> Some (Inr (Some (c_next c), es1, c1)))
      | _ \<Rightarrow> Some (Inr (None, es, c)))"
| "compose_items r 0 i es c = None"
| "compose_items r (Suc fuel) i es c =
     (if es \<noteq> [] \<and> hd es = SequenceEndEvent then Some (Inr (tl es, c))
      else
        (case compose_node r fuel es c of
           Some (Inl x) \<Rightarrow> Some (Inl x)
         | Some (Inr (Some v, es1, c1)) \<Rightarrow> compose_items r fuel i es1 (push_item i v c1)
         | _ \<Rightarrow> None))"
| "compose_pairs r 0 i es c = None"
| "compose_pairs r (Suc fuel) i es c =
     (if es \<noteq> [] \<and> hd es = MappingEndEvent then Some (Inr (tl es, c))
      else
        (case compose_node r fuel es c of
           Some (Inl x) \<Rightarrow> Some (Inl x)
         | Some (Inr (Some k, es1, c1)) \<Rightarrow>
             (case compose_node r fuel es1 c1 of
                Some (Inl x) \<Rightarrow> Some (Inl x)
              | Some (Inr (Some v, es2, c2)) \<Rightarrow> compose_pairs r fuel i es2 (push_pair i k v c2)
              | _ \<Rightarrow> None)
         | _ \<Rightarrow> None))"

definition compose_document :: "resolver \<Rightarrow> nat \<Rightarrow> event list \<Rightarrow> composer \<Rightarrow> (string + nat option \<times> event list \<times> composer) option" where
  "compose_document r fuel es c =
     (case compose_node r fuel (tl es) c of
        Some (Inr (e, es1, c1)) \<Rightarrow> Some (Inr (e, tl es1, c1\<lparr>c_anchors := Map.empty\<rparr>))
      | x \<Rightarrow> x)"

definition get_single_node :: "resolver \<Rightarrow> nat \<Rightarrow> event list \<Rightarrow> composer \<Rightarrow> (string + nat option \<times> event list \<times> composer) option" where
  "get_single_node r fuel es c =
     (let es1 = tl es; ended = (\<lambda>es. es \<noteq> [] \<and> hd es = StreamEndEvent)
      in case (if ended es1 then Some (Inr (None, es1, c)) else compose_document r fuel es1 c) of
           Some (Inr (e, es2, c2)) \<Rightarrow>
             if ended es2 then Some (Inr (e, tl es2, c2)) else Some (Inl ''expected a single document in the stream'')
         | x \<Rightarrow> x)"

section \<open>The order of the visits\<close>

text \<open>Both passes of the serializer meet the nodes in the same order.\<close>

fun walk :: "(nat \<Rightarrow> nat list) \<Rightarrow> nat \<Rightarrow> nat \<Rightarrow> nat set \<Rightarrow> (nat list \<times> nat set) option"
  and walks :: "(nat \<Rightarrow> nat list) \<Rightarrow> nat \<Rightarrow> nat list \<Rightarrow> nat set \<Rightarrow> (nat list \<times> nat set) option" where
  "walk k 0 a d = None"
| "walk k (Suc fuel) a d =
     (if a \<in> d then Some ([a], d) else map_option (\<lambda>(w, d'). (a # w, d')) (walks k fuel (k a) (insert a d)))"
| "walks k fuel [] d = Some ([], d)"
| "walks k fuel (a # as) d =
     (case walk k fuel a d of
        None \<Rightarrow> None
      | Some (w, d1) \<Rightarrow> map_option (\<lambda>(v, d2). (w @ v, d2)) (walks k fuel as d1))"

lemma walk_set:
  "walk k fuel a d = Some (w, d') \<Longrightarrow> d' = d \<union> set w \<and> a \<in> set w"
  "walks k fuel as d = Some (w, d') \<Longrightarrow> d' = d \<union> set w \<and> set as \<subseteq> set w"
proof (induction k fuel a d and k fuel as d arbitrary: w d' and w d' rule: walk_walks.induct)
  case (2 k fuel a d)
  show ?case
  proof (cases "a \<in> d")
    case False
    then obtain v where v: "walks k fuel (k a) (insert a d) = Some (v, d')" "w = a # v" using "2.prems" by auto
    then show ?thesis using "2.IH" [OF False v(1)] by auto
  qed (use "2.prems" in auto)
next
  case (4 k fuel a as d)
  then obtain w1 d1 w2 where w: "walk k fuel a d = Some (w1, d1)" "walks k fuel as d1 = Some (w2, d')" "w = w1 @ w2"
    by (auto split: option.splits)
  then show ?case using "4.IH"(1) [OF w(1)] "4.IH"(2) [OF w(1) refl w(2)] by auto
qed simp_all

lemma walk_closed:
  "walk k fuel a d = Some (w, d') \<Longrightarrow> b \<in> d' - d \<Longrightarrow> set (k b) \<subseteq> d'"
  "walks k fuel as d = Some (w, d') \<Longrightarrow> b \<in> d' - d \<Longrightarrow> set (k b) \<subseteq> d'"
proof (induction k fuel a d and k fuel as d arbitrary: w d' and w d' rule: walk_walks.induct)
  case (2 k fuel a d)
  show ?case
  proof (cases "a \<in> d")
    case False
    then obtain v where v: "walks k fuel (k a) (insert a d) = Some (v, d')" using "2.prems"(1) by auto
    show ?thesis
    proof (cases "b = a")
      case True
      then show ?thesis using walk_set(2) [OF v] by auto
    next
      case False
      then show ?thesis using "2.IH" [OF \<open>a \<notin> d\<close> v] "2.prems"(2) by auto
    qed
  qed (use "2.prems" in auto)
next
  case (4 k fuel a as d)
  then obtain w1 d1 w2 where w: "walk k fuel a d = Some (w1, d1)" "walks k fuel as d1 = Some (w2, d')" by (auto split: option.splits)
  then have "d1 \<subseteq> d'" using walk_set(2) by fastforce
  then show ?case using "4.IH"(1) [OF w(1)] "4.IH"(2) [OF w(1) refl w(2)] "4.prems"(2) by (cases "b \<in> d1") auto
qed simp_all

lemma walk_inside:
  "walk k fuel a d = Some (w, d') \<Longrightarrow> (\<And>b. b \<in> R \<Longrightarrow> set (k b) \<subseteq> R) \<Longrightarrow> a \<in> R \<Longrightarrow> set w \<subseteq> R"
  "walks k fuel as d = Some (w, d') \<Longrightarrow> (\<And>b. b \<in> R \<Longrightarrow> set (k b) \<subseteq> R) \<Longrightarrow> set as \<subseteq> R \<Longrightarrow> set w \<subseteq> R"
proof (induction k fuel a d and k fuel as d arbitrary: w d' and w d' rule: walk_walks.induct)
  case (2 k fuel a d)
  show ?case
  proof (cases "a \<in> d")
    case False
    then obtain v where v: "walks k fuel (k a) (insert a d) = Some (v, d')" "w = a # v" using "2.prems" by auto
    then show ?thesis using "2.IH" [OF False v(1)] "2.prems" by simp
  qed (use "2.prems" in auto)
next
  case (4 k fuel a as d)
  then obtain w1 d1 w2 where w: "walk k fuel a d = Some (w1, d1)" "walks k fuel as d1 = Some (w2, d')" "w = w1 @ w2"
    by (auto split: option.splits)
  then show ?case using "4.IH"(1) [OF w(1)] "4.IH"(2) [OF w(1) refl w(2)] "4.prems" by simp
qed simp_all

lemma walk_ends:
  "finite R \<Longrightarrow> (\<And>b. b \<in> R \<Longrightarrow> set (k b) \<subseteq> R) \<Longrightarrow> a \<in> R \<Longrightarrow> card (R - d) < fuel \<Longrightarrow> \<exists>w d'. walk k fuel a d = Some (w, d')"
  "finite R \<Longrightarrow> (\<And>b. b \<in> R \<Longrightarrow> set (k b) \<subseteq> R) \<Longrightarrow> set as \<subseteq> R \<Longrightarrow> card (R - d) < fuel \<Longrightarrow> \<exists>w d'. walks k fuel as d = Some (w, d')"
proof (induction k fuel a d and k fuel as d rule: walk_walks.induct)
  case (2 k fuel a d)
  show ?case
  proof (cases "a \<in> d")
    case False
    then have "card (R - insert a d) < card (R - d)" using "2.prems"(1,3) by (intro psubset_card_mono) auto
    then have "\<exists>w d'. walks k fuel (k a) (insert a d) = Some (w, d')" using "2.IH" [OF False] "2.prems" by simp
    then show ?thesis using False by auto
  qed simp
next
  case (4 k fuel a as d)
  obtain w d1 where w: "walk k fuel a d = Some (w, d1)" using "4.IH"(1) "4.prems" by auto
  have "card (R - d1) \<le> card (R - d)" using walk_set(1) [OF w] "4.prems"(1) by (intro card_mono) auto
  then have "\<exists>v d'. walks k fuel as d1 = Some (v, d')" using "4.IH"(2) [OF w refl] "4.prems" by simp
  then show ?case using w by auto
qed simp_all

section \<open>Anchors\<close>

definition mark :: "nat \<Rightarrow> (nat \<rightharpoonup> js option) \<times> nat \<Rightarrow> (nat \<rightharpoonup> js option) \<times> nat" where
  "mark e st =
     (case st of (anchors, n) \<Rightarrow>
        (case anchors e of
           Some (Some x) \<Rightarrow> (anchors, n)
         | Some None \<Rightarrow> (anchors(e \<mapsto> Some (anchor_name (Suc n))), Suc n)
         | None \<Rightarrow> (anchors(e \<mapsto> None), n)))"

lemma dom_mark [simp]: "dom (fst (mark e st)) = insert e (dom (fst st))"
  by (auto simp: mark_def split: prod.splits option.splits)

lemma dom_marks: "dom (fst (fold mark w st)) = dom (fst st) \<union> set w"
  by (induction w arbitrary: st) auto

lemma anchor_node_walk:
  "anchor_node h fuel a st = map_option (\<lambda>(w, d). fold mark w st) (walk (\<lambda>a. kids (h a)) fuel a (dom (fst st)))"
  "anchor_nodes h fuel as st = map_option (\<lambda>(w, d). fold mark w st) (walks (\<lambda>a. kids (h a)) fuel as (dom (fst st)))"
proof (induction h fuel a st and h fuel as st rule: anchor_node_anchor_nodes.induct)
  case (2 h fuel e anchors n)
  show ?case
  proof (cases "anchors e")
    case None
    have "mark e (anchors, n) = (anchors(e \<mapsto> None), n)" using None by (simp add: mark_def)
    moreover have "e \<notin> dom anchors" using None by auto
    moreover have "dom (anchors(e \<mapsto> None)) = insert e (dom anchors)" by simp
    ultimately show ?thesis using None "2.IH" [OF None] by (simp only: anchor_node.simps walk.simps fst_conv option.case if_False
        option.map_comp comp_def split_def fst_conv fold_simps)
  next
    case (Some x)
    then show ?thesis by (cases x) (auto simp: domIff mark_def)
  qed
next
  case (4 h fuel e es st)
  show ?case
  proof (cases "walk (\<lambda>a. kids (h a)) fuel e (dom (fst st))")
    case (Some wd)
    obtain w d where w: "walk (\<lambda>a. kids (h a)) fuel e (dom (fst st)) = Some (w, d)" using Some by (cases wd) auto
    then have a: "anchor_node h fuel e st = Some (fold mark w st)" using "4.IH"(1) by simp
    have "d = dom (fst (fold mark w st))" using walk_set(1) [OF w] by (simp add: dom_marks)
    then show ?thesis using a w "4.IH"(2) [OF a] by (auto simp: option.map_comp comp_def split_def)
  qed (use "4.IH"(1) in simp)
qed simp_all

lemma decimal_zeros: "foldl (\<lambda>v d. 10 * v + (d - 48)) 0 (replicate k 48 @ decimal n) = n"
proof -
  have "foldl (\<lambda>v d. 10 * v + (d - 48)) (0 :: nat) (replicate k 48) = 0" by (induction k) simp_all
  then show ?thesis by (simp add: decimal_value)
qed

lemma pad_left_zeros: "\<exists>k. pad_left e [48] n = replicate k 48 @ e"
proof -
  have "concat (replicate k [48 :: nat]) = replicate k 48" for k by (induction k) simp_all
  moreover have "[48 :: nat] @ e = replicate 1 48 @ e" "e = replicate 0 (48 :: nat) @ e" by simp_all
  ultimately show ?thesis unfolding pad_left_def by metis
qed

lemma anchor_name_inject: "anchor_name m = anchor_name n \<Longrightarrow> m = n"
proof -
  assume "anchor_name m = anchor_name n"
  then have e: "pad_left (decimal m) [48] 4 = pad_left (decimal n) [48] 4" by (simp add: anchor_name_def lit_def)
  obtain j where j: "pad_left (decimal m) [48] 4 = replicate j 48 @ decimal m" using pad_left_zeros by blast
  obtain k where k: "pad_left (decimal n) [48] 4 = replicate k 48 @ decimal n" using pad_left_zeros by blast
  show "m = n" using e decimal_zeros [of j m] decimal_zeros [of k n] unfolding j k by simp
qed

text \<open>The anchors after some visits: names, all different, for the nodes met more than once.\<close>

definition marks_ok :: "nat list \<Rightarrow> (nat \<rightharpoonup> js option) \<times> nat \<Rightarrow> bool" where
  "marks_ok w st \<longleftrightarrow>
     (case st of (anchors, n) \<Rightarrow>
        (\<forall>a. anchors a = None \<longleftrightarrow> count_list w a = 0) \<and> (\<forall>a. anchors a = Some None \<longleftrightarrow> count_list w a = 1) \<and>
        (\<forall>a x. anchors a = Some (Some x) \<longrightarrow> (\<exists>k \<le> n. x = anchor_name k)) \<and>
        (\<forall>a b x. anchors a = Some (Some x) \<longrightarrow> anchors b = Some (Some x) \<longrightarrow> a = b))"

lemma marks_ok_mark:
  assumes "marks_ok w st"
  shows "marks_ok (w @ [e]) (mark e st)"
proof -
  obtain anchors n where st: "st = (anchors, n)" by (cases st)
  have A: "\<And>a. anchors a = None \<longleftrightarrow> count_list w a = 0" "\<And>a. anchors a = Some None \<longleftrightarrow> count_list w a = 1"
    "\<And>a x. anchors a = Some (Some x) \<Longrightarrow> \<exists>k \<le> n. x = anchor_name k"
    "\<And>a b x. anchors a = Some (Some x) \<Longrightarrow> anchors b = Some (Some x) \<Longrightarrow> a = b"
    using assms unfolding marks_ok_def st by auto
  have fresh: "anchors a \<noteq> Some (Some (anchor_name (Suc n)))" for a
    by (metis A(3) anchor_name_inject Suc_n_not_le_n)
  consider "anchors e = None" | "anchors e = Some None" | x where "anchors e = Some (Some x)"
    by (cases "anchors e") auto
  then show ?thesis
  proof cases
    case 1
    then have "mark e st = (anchors(e \<mapsto> None), n)" by (simp add: mark_def st)
    then show ?thesis using A 1 unfolding marks_ok_def by auto
  next
    case 2
    let ?B = "anchors(e \<mapsto> Some (anchor_name (Suc n)))"
    have c: "count_list w e = 1" using A(2) 2 by blast
    have m: "mark e st = (?B, Suc n)" using 2 by (simp add: mark_def st)
    have B1: "?B a = None \<longleftrightarrow> count_list (w @ [e]) a = 0" for a using A(1) by simp
    have B2: "?B a = Some None \<longleftrightarrow> count_list (w @ [e]) a = 1" for a using A(2) c by simp
    have B3: "\<exists>k \<le> Suc n. x = anchor_name k" if "?B a = Some (Some x)" for a x
      using that A(3) [of a x] by (cases "a = e") (auto intro: le_SucI)
    have B4: "a = b" if "?B a = Some (Some x)" "?B b = Some (Some x)" for a b x
    proof (cases "a = e \<or> b = e")
      case True
      then have "x = anchor_name (Suc n)" using that by auto
      then show ?thesis using that fresh by (simp split: if_splits)
    qed (use that A(4) in simp)
    show ?thesis unfolding marks_ok_def m prod.case using B1 B2 B3 B4 by blast
  next
    case (3 x)
    have "count_list w e \<noteq> 0" "count_list w e \<noteq> 1" using A(1,2) [of e] 3 by simp_all
    moreover have "mark e st = st" using 3 by (simp add: mark_def st)
    ultimately show ?thesis using A unfolding marks_ok_def st by auto
  qed
qed

lemma marks_ok_fold: "marks_ok w (fold mark w (Map.empty, 0))"
proof (induction w rule: rev_induct)
  case Nil
  then show ?case by (simp add: marks_ok_def)
next
  case (snoc e w)
  then show ?case using marks_ok_mark by simp
qed

section \<open>Composing what was serialized\<close>

lemma serialize_walk:
  "walk (\<lambda>a. kids (h a)) fuel a d = Some (w, d') \<Longrightarrow> \<exists>es. serialize_node r h anchors fuel a d = Some (es, d')"
  "walks (\<lambda>a. kids (h a)) fuel as d = Some (w, d') \<Longrightarrow> \<exists>es. serialize_nodes r h anchors fuel as d = Some (es, d')"
proof (induction "\<lambda>a. kids (h a)" fuel a d and "\<lambda>a. kids (h a)" fuel as d arbitrary: w d' and w d' rule: walk_walks.induct)
  case (2 fuel a d)
  show ?case
  proof (cases "a \<in> d")
    case False
    then obtain v where "walks (\<lambda>a. kids (h a)) fuel (kids (h a)) (insert a d) = Some (v, d')" using "2.prems" by auto
    from "2.hyps" [OF False this] obtain es where "serialize_nodes r h anchors fuel (kids (h a)) (insert a d) = Some (es, d')" by blast
    moreover from this have "kids (h a) = [] \<Longrightarrow> d' = insert a d" by simp
    ultimately show ?thesis using False by (cases "h a") (simp_all add: kids_def)
  qed (use "2.prems" in auto)
next
  case (4 fuel a as d)
  then obtain w1 d1 w2 where w: "walk (\<lambda>a. kids (h a)) fuel a d = Some (w1, d1)" "walks (\<lambda>a. kids (h a)) fuel as d1 = Some (w2, d')"
    by (auto split: option.splits)
  then show ?case using "4.hyps"(1) [OF w(1)] "4.hyps"(2) [OF w(1) refl w(2)] by auto
qed simp_all

definition renamed :: "(nat \<Rightarrow> nat) \<Rightarrow> ynode \<Rightarrow> ynode" where
  "renamed f x =
     (case x of
        ScalarNode t v s \<Rightarrow> ScalarNode t v s
      | SequenceNode t xs fl \<Rightarrow> SequenceNode t (map f xs) fl
      | MappingNode t ps fl \<Rightarrow> MappingNode t (map (map_prod f f) ps) fl)"

definition tag_kept :: "ynode \<Rightarrow> bool" where
  "tag_kept x \<longleftrightarrow>
     (case x of ScalarNode t v s \<Rightarrow> t | SequenceNode t xs fl \<Rightarrow> t | MappingNode t ps fl \<Rightarrow> t) \<notin> {None, Some (lit ''!'')}"

text \<open>The composer has met the nodes \<open>d\<close>; \<open>f\<close> gives their new addresses.\<close>

definition composed :: "(nat \<rightharpoonup> js option) \<Rightarrow> nat set \<Rightarrow> (nat \<Rightarrow> nat) \<Rightarrow> composer \<Rightarrow> bool" where
  "composed anchors d f c \<longleftrightarrow>
     inj_on f d \<and> (\<forall>a \<in> d. f a < c_next c) \<and>
     (\<forall>a \<in> d. \<forall>x. anchor_of anchors a = Some x \<longrightarrow> c_anchors c x = Some (f a)) \<and>
     (\<forall>x \<in> dom (c_anchors c). \<exists>a \<in> d. anchor_of anchors a = Some x)"

text \<open>
  The nodes composed from some events: \<open>f'\<close> extends \<open>f\<close>, what was in the heap stays there, except at the addresses \<open>x\<close> of
  collections that are not complete yet, and the new nodes are complete.
\<close>

definition grown :: "(nat \<Rightarrow> ynode) \<Rightarrow> nat set \<Rightarrow> nat set \<Rightarrow> nat set \<Rightarrow> (nat \<Rightarrow> nat) \<Rightarrow> (nat \<Rightarrow> nat) \<Rightarrow> composer \<Rightarrow> composer \<Rightarrow> bool" where
  "grown h x d d' f f' c c' \<longleftrightarrow>
     d \<subseteq> d' \<and> (\<forall>a \<in> d. f' a = f a) \<and> c_next c \<le> c_next c' \<and> (\<forall>a \<in> d' - d. c_next c \<le> f' a) \<and>
     (\<forall>i < c_next c. i \<notin> x \<longrightarrow> c_heap c' i = c_heap c i) \<and> (\<forall>a \<in> d' - d. c_heap c' (f' a) = Some (renamed f' (h a)))"

lemma grown_refl: "grown h x d d f f c c"
  by (simp add: grown_def)

lemma renamed_cong: "(\<And>b. b \<in> set (kids y) \<Longrightarrow> f b = g b) \<Longrightarrow> renamed f y = renamed g y"
  by (cases y) (force simp: renamed_def kids_def pairs_of_def map_prod_def)+

lemma grown_trans:
  assumes "grown h x d d1 f f1 c c1" and "grown h x d1 d2 f1 f2 c1 c2" and "composed anchors d1 f1 c1"
    and "\<And>a. a \<in> d1 - d \<Longrightarrow> set (kids (h a)) \<subseteq> d1" and "x \<subseteq> {..<c_next c}"
  shows "grown h x d d2 f f2 c c2"
proof -
  note g1 = assms(1) [unfolded grown_def] and g2 = assms(2) [unfolded grown_def]
  have "c_heap c2 (f2 a) = Some (renamed f2 (h a))" if a: "a \<in> d2 - d" for a
  proof (cases "a \<in> d1")
    case True
    have "f1 a < c_next c1" "c_next c \<le> f1 a" using True a assms(3) g1 by (auto simp: composed_def)
    then have "c_heap c2 (f1 a) = c_heap c1 (f1 a)" using g2 assms(5) by auto
    moreover have "renamed f2 (h a) = renamed f1 (h a)" using g2 assms(4) [of a] a True by (intro renamed_cong) auto
    ultimately show ?thesis using g1 g2 a True by simp
  qed (use g2 a in blast)
  moreover have "c_next c \<le> f2 a" if "a \<in> d2 - d" for a using g1 g2 that by (cases "a \<in> d1") (auto dest: order_trans)
  moreover have "c_heap c2 i = c_heap c i" if "i < c_next c" "i \<notin> x" for i using g1 g2 that by simp
  ultimately show ?thesis using g1 g2 unfolding grown_def by auto
qed

lemma grown_weaken: "grown h {} d d' f f' c c' \<Longrightarrow> grown h x d d' f f' c c'"
  by (auto simp: grown_def)

lemma composed_add:
  assumes "composed anchors d f c" and "a \<notin> d"
    and "\<And>b y. anchor_of anchors a = Some y \<Longrightarrow> anchor_of anchors b = Some y \<Longrightarrow> a = b"
  shows "composed anchors (insert a d) (f(a := c_next c)) (add_node (anchor_of anchors a) x c)"
    and "\<not> duplicate (anchor_of anchors a) c"
proof -
  note co = assms(1) [unfolded composed_def]
  show nd: "\<not> duplicate (anchor_of anchors a) c"
  proof (cases "anchor_of anchors a")
    case (Some y)
    have "y \<notin> dom (c_anchors c)"
    proof
      assume "y \<in> dom (c_anchors c)"
      then obtain b where "b \<in> d" "anchor_of anchors b = Some y" using co by blast
      then show False using assms(2,3) Some by blast
    qed
    then show ?thesis using Some by (simp add: duplicate_def)
  qed (simp add: duplicate_def)
  have "c_next c \<notin> f ` d" using co by auto
  then have "inj_on (f(a := c_next c)) (insert a d)" using co assms(2) by (simp add: inj_on_fun_updI image_iff)
  moreover have "c_anchors (add_node (anchor_of anchors a) x c) y = Some ((f(a := c_next c)) b)"
    if "b \<in> insert a d" "anchor_of anchors b = Some y" for b y
  proof (cases "b = a")
    case True
    then show ?thesis using that by (simp add: add_node_def)
  next
    case False
    then have "anchor_of anchors a \<noteq> Some y" using assms(3) that(2) by auto
    then show ?thesis using False that co by (simp add: add_node_def split: option.splits)
  qed
  moreover have "\<exists>b \<in> insert a d. anchor_of anchors b = Some y" if "y \<in> dom (c_anchors (add_node (anchor_of anchors a) x c))" for y
    using that co by (auto simp: add_node_def split: option.splits if_splits)
  moreover have "\<forall>b \<in> insert a d. (f(a := c_next c)) b < c_next (add_node (anchor_of anchors a) x c)"
    using co by (auto simp: add_node_def less_Suc_eq)
  ultimately show "composed anchors (insert a d) (f(a := c_next c)) (add_node (anchor_of anchors a) x c)"
    unfolding composed_def by blast
qed

lemma composed_push [simp]:
  "composed anchors d f (push_item i v c) = composed anchors d f c" "composed anchors d f (push_pair i k v c) = composed anchors d f c"
  by (simp_all add: composed_def push_item_def push_pair_def split: option.splits ynode.splits)

lemma grown_other_heap:
  assumes "grown h {i} d d' f f' c c1" and "i < c_next c" and "c_next c2 = c_next c1" and "\<And>j. j \<noteq> i \<Longrightarrow> c_heap c2 j = c_heap c1 j"
  shows "grown h {i} d d' f f' c c2"
proof -
  note g = assms(1) [unfolded grown_def]
  have "c_heap c2 (f' a) = Some (renamed f' (h a))" if a: "a \<in> d' - d" for a
  proof -
    have "c_next c \<le> f' a" using g a by blast
    then have "c_heap c2 (f' a) = c_heap c1 (f' a)" using assms(2) by (intro assms(4)) simp
    then show ?thesis using g a by simp
  qed
  moreover have "c_heap c2 j = c_heap c j" if "j < c_next c" "j \<notin> {i}" for j
    using that g assms(4) [of j] by simp
  ultimately show ?thesis unfolding grown_def assms(3) using g by blast
qed

lemma push_simps:
  "c_next (push_item i v c) = c_next c" "c_next (push_pair i k v c) = c_next c"
  "j \<noteq> i \<Longrightarrow> c_heap (push_item i v c) j = c_heap c j" "j \<noteq> i \<Longrightarrow> c_heap (push_pair i k v c) j = c_heap c j"
proof -
  show "c_next (push_item i v c) = c_next c" "c_next (push_pair i k v c) = c_next c"
    by (auto simp: push_item_def push_pair_def split: option.split ynode.split)
  show "j \<noteq> i \<Longrightarrow> c_heap (push_item i v c) j = c_heap c j" "j \<noteq> i \<Longrightarrow> c_heap (push_pair i k v c) j = c_heap c j"
    by (auto simp: push_item_def push_pair_def split: option.split ynode.split)
qed

lemma grown_push:
  assumes "grown h {i} d d' f f' c c1" and "i < c_next c"
  shows "grown h {i} d d' f f' c (push_item i v c1)" and "grown h {i} d d' f f' c (push_pair i k v c1)"
proof -
  show "grown h {i} d d' f f' c (push_item i v c1)" by (rule grown_other_heap [OF assms push_simps(1,3)])
  show "grown h {i} d d' f f' c (push_pair i k v c1)" by (rule grown_other_heap [OF assms push_simps(2,4)])
qed

text \<open>A node is composed from its events whatever follows; nodes met more than once need an anchor.\<close>

definition anchored :: "(nat \<rightharpoonup> js option) \<Rightarrow> nat set \<Rightarrow> nat list \<Rightarrow> bool" where
  "anchored anchors d w \<longleftrightarrow> (\<forall>x. x \<in> d \<and> x \<in> set w \<or> count_list w x \<ge> 2 \<longrightarrow> anchor_of anchors x \<noteq> None)"

definition node_composes :: "resolver \<Rightarrow> (nat \<Rightarrow> ynode) \<Rightarrow> (nat \<rightharpoonup> js option) \<Rightarrow> nat \<Rightarrow> bool" where
  "node_composes r h anchors fuel \<longleftrightarrow>
     (\<forall>a d w d' es f c g rest. walk (\<lambda>a. kids (h a)) fuel a d = Some (w, d') \<longrightarrow> serialize_node r h anchors fuel a d = Some (es, d') \<longrightarrow>
        anchored anchors d w \<longrightarrow> (\<forall>x \<in> set w. tag_kept (h x)) \<longrightarrow> composed anchors d f c \<longrightarrow> length es < g \<longrightarrow>
        (\<exists>f' c'. compose_node r g (es @ rest) c = Some (Inr (Some (f' a), rest, c')) \<and> composed anchors d' f' c' \<and> grown h {} d d' f f' c c'))"

lemma anchored_append: "anchored anchors d (w @ v) \<Longrightarrow> anchored anchors d w \<and> anchored anchors (d \<union> set w) v"
  unfolding anchored_def
proof (intro conjI allI impI)
  assume a: "\<forall>x. x \<in> d \<and> x \<in> set (w @ v) \<or> 2 \<le> count_list (w @ v) x \<longrightarrow> anchor_of anchors x \<noteq> None"
  fix x
  show "anchor_of anchors x \<noteq> None" if "x \<in> d \<and> x \<in> set w \<or> 2 \<le> count_list w x" using a that by auto
  assume "x \<in> d \<union> set w \<and> x \<in> set v \<or> 2 \<le> count_list v x"
  moreover have "x \<in> set w \<Longrightarrow> x \<in> set v \<Longrightarrow> 2 \<le> count_list (w @ v) x"
    using count_list_0_iff [of w x] count_list_0_iff [of v x] by (simp add: Suc_leI numeral_2_eq_2)
  ultimately show "anchor_of anchors x \<noteq> None" using a by auto
qed

lemma first_event:
  assumes "serialize_node r h anchors fuel a d = Some (es, d')"
  shows "es \<noteq> [] \<and> hd es \<noteq> SequenceEndEvent \<and> hd es \<noteq> MappingEndEvent"
  using assms by (cases fuel; cases "h a") (auto simp: Let_def split: if_splits)

lemma node_composesD:
  assumes "node_composes r h anchors fuel" and "walk (\<lambda>a. kids (h a)) fuel a d = Some (w, d1)"
    and "serialize_node r h anchors fuel a d = Some (ev, d1)" and "anchored anchors d w" and "\<forall>x \<in> set w. tag_kept (h x)"
    and "composed anchors d f c" and "length ev < g"
  obtains f1 c1 where "compose_node r g (ev @ rest) c = Some (Inr (Some (f1 a), rest, c1))" "composed anchors d1 f1 c1"
    "grown h {} d d1 f f1 c c1"
  using assms unfolding node_composes_def by blast

lemma items_compose:
  assumes P: "node_composes r h anchors fuel"
  shows "walks (\<lambda>a. kids (h a)) fuel xs d = Some (w, d') \<Longrightarrow> serialize_nodes r h anchors fuel xs d = Some (es, d') \<Longrightarrow>
    anchored anchors d w \<Longrightarrow> \<forall>x \<in> set w. tag_kept (h x) \<Longrightarrow> composed anchors d f c \<Longrightarrow>
    c_heap c i = Some (SequenceNode t ys fl) \<Longrightarrow> i < c_next c \<Longrightarrow> Suc (length es) < g \<Longrightarrow>
    \<exists>f' c'. compose_items r g i (es @ SequenceEndEvent # rest) c = Some (Inr (rest, c')) \<and> composed anchors d' f' c' \<and>
      grown h {i} d d' f f' c c' \<and> c_heap c' i = Some (SequenceNode t (ys @ map f' xs) fl)"
proof (induction xs arbitrary: d w es f c ys g)
  case Nil
  then show ?case by (cases g) (auto simp: grown_refl)
next
  case (Cons a as)
  obtain w1 d1 w2 where w: "walk (\<lambda>a. kids (h a)) fuel a d = Some (w1, d1)" "walks (\<lambda>a. kids (h a)) fuel as d1 = Some (w2, d')" "w = w1 @ w2"
    using Cons.prems(1) by (auto split: option.splits)
  obtain ev where ev: "serialize_node r h anchors fuel a d = Some (ev, d1)" using serialize_walk(1) [OF w(1)] by blast
  obtain evs where evs: "serialize_nodes r h anchors fuel as d1 = Some (evs, d')" "es = ev @ evs" using Cons.prems(2) ev by auto
  have an: "anchored anchors d w1" "anchored anchors d1 w2"
    using anchored_append Cons.prems(3) walk_set(1) [OF w(1)] unfolding w(3) by auto
  obtain k where g: "g = Suc k" using Cons.prems(8) by (cases g) auto
  obtain f1 c1 where n: "compose_node r k (ev @ evs @ SequenceEndEvent # rest) c = Some (Inr (Some (f1 a), evs @ SequenceEndEvent # rest, c1))"
    "composed anchors d1 f1 c1" "grown h {} d d1 f f1 c c1"
    using node_composesD [OF P w(1) ev an(1) _ Cons.prems(5), of k "evs @ SequenceEndEvent # rest"] Cons.prems(4,8) w(3) evs(2) g by auto
  have i1: "c_heap c1 i = Some (SequenceNode t ys fl)" "i < c_next c1" using n(3) Cons.prems(6,7) by (auto simp: grown_def)
  then have push: "c_heap (push_item i (f1 a) c1) i = Some (SequenceNode t (ys @ [f1 a]) fl)" by (simp add: push_item_def)
  have gp: "grown h {i} d d1 f f1 c (push_item i (f1 a) c1)" using grown_push(1) [OF grown_weaken [OF n(3)] Cons.prems(7)] .
  have "\<exists>f' c'. compose_items r k i (evs @ SequenceEndEvent # rest) (push_item i (f1 a) c1) = Some (Inr (rest, c')) \<and> composed anchors d' f' c' \<and>
      grown h {i} d1 d' f1 f' (push_item i (f1 a) c1) c' \<and> c_heap c' i = Some (SequenceNode t ((ys @ [f1 a]) @ map f' as) fl)"
  proof (rule Cons.IH [OF w(2) evs(1) an(2)])
    show "Suc (length evs) < k" using Cons.prems(8) evs(2) first_event [OF ev] g by (cases ev) auto
  qed (use Cons.prems(4) w(3) n(2) push i1(2) push_simps(1) in auto)
  then obtain f' c' where r: "compose_items r k i (evs @ SequenceEndEvent # rest) (push_item i (f1 a) c1) = Some (Inr (rest, c'))"
    "composed anchors d' f' c'" "grown h {i} d1 d' f1 f' (push_item i (f1 a) c1) c'"
    "c_heap c' i = Some (SequenceNode t (ys @ f1 a # map f' as) fl)" by auto
  have "grown h {i} d d' f f' c c'"
    by (rule grown_trans [OF gp r(3)]) (use n(2) walk_closed(1) [OF w(1)] Cons.prems(7) in auto)
  moreover have "f' a = f1 a" using r(3) walk_set(1) [OF w(1)] by (auto simp: grown_def)
  moreover have "compose_items r g i (es @ SequenceEndEvent # rest) c = Some (Inr (rest, c'))"
    using n(1) r(1) first_event [OF ev] unfolding g evs(2) by (cases ev) simp_all
  ultimately show ?case using r(2,4) by auto
qed

lemma serialize_nodes_two:
  assumes "walks k fuel (a # b # as) d = Some (w, d')"
  obtains w1 d1 w2 d2 w3 where "walk k fuel a d = Some (w1, d1)" "walk k fuel b d1 = Some (w2, d2)" "walks k fuel as d2 = Some (w3, d')" "w = w1 @ w2 @ w3"
  using assms by (auto split: option.splits)

lemma pairs_compose:
  assumes P: "node_composes r h anchors fuel"
  shows "walks (\<lambda>a. kids (h a)) fuel (pairs_of ps) d = Some (w, d') \<Longrightarrow> serialize_nodes r h anchors fuel (pairs_of ps) d = Some (es, d') \<Longrightarrow>
    anchored anchors d w \<Longrightarrow> \<forall>x \<in> set w. tag_kept (h x) \<Longrightarrow> composed anchors d f c \<Longrightarrow>
    c_heap c i = Some (MappingNode t ys fl) \<Longrightarrow> i < c_next c \<Longrightarrow> Suc (length es) < g \<Longrightarrow>
    \<exists>f' c'. compose_pairs r g i (es @ MappingEndEvent # rest) c = Some (Inr (rest, c')) \<and> composed anchors d' f' c' \<and>
      grown h {i} d d' f f' c c' \<and> c_heap c' i = Some (MappingNode t (ys @ map (map_prod f' f') ps) fl)"
proof (induction ps arbitrary: d w es f c ys g)
  case Nil
  then show ?case by (cases g) (auto simp: grown_refl pairs_of_def)
next
  case (Cons p ps)
  obtain a b where p: "p = (a, b)" by (cases p)
  have po: "pairs_of (p # ps) = a # b # pairs_of ps" by (simp add: pairs_of_def p)
  obtain w1 d1 w2 d2 w3 where w: "walk (\<lambda>a. kids (h a)) fuel a d = Some (w1, d1)" "walk (\<lambda>a. kids (h a)) fuel b d1 = Some (w2, d2)"
    "walks (\<lambda>a. kids (h a)) fuel (pairs_of ps) d2 = Some (w3, d')" "w = w1 @ w2 @ w3"
    using serialize_nodes_two [OF Cons.prems(1) [unfolded po]] .
  obtain ea where ea: "serialize_node r h anchors fuel a d = Some (ea, d1)" using serialize_walk(1) [OF w(1)] by blast
  obtain eb where eb: "serialize_node r h anchors fuel b d1 = Some (eb, d2)" using serialize_walk(1) [OF w(2)] by blast
  obtain evs where evs: "serialize_nodes r h anchors fuel (pairs_of ps) d2 = Some (evs, d')" "es = ea @ eb @ evs"
    using Cons.prems(2) ea eb unfolding po by auto
  have an: "anchored anchors d w1" "anchored anchors d1 w2" "anchored anchors d2 w3"
    using anchored_append Cons.prems(3) walk_set(1) [OF w(1)] walk_set(1) [OF w(2)] unfolding w(4) by blast+
  obtain k where g: "g = Suc k" using Cons.prems(8) by (cases g) auto
  let ?tail = "evs @ MappingEndEvent # rest"
  obtain f1 c1 where n: "compose_node r k (ea @ eb @ ?tail) c = Some (Inr (Some (f1 a), eb @ ?tail, c1))"
    "composed anchors d1 f1 c1" "grown h {} d d1 f f1 c c1"
    using node_composesD [OF P w(1) ea an(1) _ Cons.prems(5), of k "eb @ ?tail"] Cons.prems(4,8) w(4) evs(2) g by auto
  obtain f2 c2 where m: "compose_node r k (eb @ ?tail) c1 = Some (Inr (Some (f2 b), ?tail, c2))"
    "composed anchors d2 f2 c2" "grown h {} d1 d2 f1 f2 c1 c2"
    using node_composesD [OF P w(2) eb an(2) _ n(2), of k ?tail] Cons.prems(4,8) w(4) evs(2) g by auto
  have i2: "c_heap c2 i = Some (MappingNode t ys fl)" "i < c_next c2" using n(3) m(3) Cons.prems(6,7) by (auto simp: grown_def)
  then have push: "c_heap (push_pair i (f1 a) (f2 b) c2) i = Some (MappingNode t (ys @ [(f1 a, f2 b)]) fl)" by (simp add: push_pair_def)
  have "grown h {i} d d2 f f2 c c2"
    by (rule grown_trans [OF grown_weaken [OF n(3)] grown_weaken [OF m(3)] n(2)]) (use walk_closed(1) [OF w(1)] Cons.prems(7) in auto)
  then have gp: "grown h {i} d d2 f f2 c (push_pair i (f1 a) (f2 b) c2)" using grown_push(2) Cons.prems(7) by blast
  have "\<exists>f' c'. compose_pairs r k i ?tail (push_pair i (f1 a) (f2 b) c2) = Some (Inr (rest, c')) \<and> composed anchors d' f' c' \<and>
      grown h {i} d2 d' f2 f' (push_pair i (f1 a) (f2 b) c2) c' \<and>
      c_heap c' i = Some (MappingNode t ((ys @ [(f1 a, f2 b)]) @ map (map_prod f' f') ps) fl)"
  proof (rule Cons.IH [OF w(3) evs(1) an(3)])
    show "Suc (length evs) < k" using Cons.prems(8) evs(2) first_event [OF ea] g by (cases ea) auto
  qed (use Cons.prems(4) w(4) m(2) push i2(2) push_simps(2) in auto)
  then obtain f' c' where r: "compose_pairs r k i ?tail (push_pair i (f1 a) (f2 b) c2) = Some (Inr (rest, c'))"
    "composed anchors d' f' c'" "grown h {i} d2 d' f2 f' (push_pair i (f1 a) (f2 b) c2) c'"
    "c_heap c' i = Some (MappingNode t (ys @ (f1 a, f2 b) # map (map_prod f' f') ps) fl)" by auto
  have "grown h {i} d d' f f' c c'"
  proof (rule grown_trans [OF gp r(3)])
    fix x assume "x \<in> d2 - d"
    then show "set (kids (h x)) \<subseteq> d2"
      using walk_closed(1) [OF w(1), of x] walk_closed(1) [OF w(2), of x] walk_set(1) [OF w(2)] by (cases "x \<in> d1") auto
  qed (use m(2) Cons.prems(7) in auto)
  moreover have "f' a = f1 a" "f' b = f2 b"
    using r(3) m(3) walk_set(1) [OF w(1)] walk_set(1) [OF w(2)] by (auto simp: grown_def)
  moreover have "compose_pairs r g i (es @ MappingEndEvent # rest) c = Some (Inr (rest, c'))"
    using n(1) m(1) r(1) first_event [OF ea] unfolding g evs(2) by (cases ea) simp_all
  ultimately show ?case using r(2,4) p by auto
qed

text \<open>A node that is met for the first time: its address is new, its children follow.\<close>

lemma grown_add:
  assumes "grown h {c_next c} (insert a d) d' (f(a := c_next c)) f' (add_node e x c) c'" and "a \<notin> d"
    and "c_heap c' (c_next c) = Some (renamed f' (h a))"
  shows "grown h {} d d' f f' c c'" and "f' a = c_next c"
proof -
  note g = assms(1) [unfolded grown_def]
  have n: "c_next (add_node e x c) = Suc (c_next c)" by (simp add: add_node_def)
  show a: "f' a = c_next c" using g by simp
  have "f' b = f b" if "b \<in> d" for b using g assms(2) that by auto
  moreover have "c_next c \<le> f' b \<and> c_heap c' (f' b) = Some (renamed f' (h b))" if "b \<in> d' - d" for b
  proof (cases "b = a")
    case False
    then show ?thesis using g that n by (auto dest: Suc_leD)
  qed (use a assms(3) in simp)
  moreover have "c_heap c' i = c_heap c i" if "i < c_next c" for i using g that n by (simp add: add_node_def)
  ultimately show "grown h {} d d' f f' c c'" using g n unfolding grown_def by auto
qed

lemma anchored_first: "anchored anchors d (a # w) \<Longrightarrow> a \<notin> d \<Longrightarrow> anchored anchors (insert a d) w"
  using anchored_append [of anchors d "[a]" w] by simp

definition distinct_anchors :: "(nat \<rightharpoonup> js option) \<Rightarrow> bool" where
  "distinct_anchors anchors \<longleftrightarrow> (\<forall>a b y. anchor_of anchors a = Some y \<longrightarrow> anchor_of anchors b = Some y \<longrightarrow> a = b)"

lemma composes_step:
  assumes P: "node_composes r h anchors fuel" and inj: "distinct_anchors anchors"
    and w: "walk (\<lambda>a. kids (h a)) (Suc fuel) a d = Some (w, d')" and s: "serialize_node r h anchors (Suc fuel) a d = Some (es, d')"
    and an: "anchored anchors d w" and tags: "\<forall>x \<in> set w. tag_kept (h x)" and co: "composed anchors d f c" and l: "length es < g"
  shows "\<exists>f' c'. compose_node r g (es @ rest) c = Some (Inr (Some (f' a), rest, c')) \<and> composed anchors d' f' c' \<and> grown h {} d d' f f' c c'"
proof -
  obtain k where g: "g = Suc k" using l by (cases g) auto
  show ?thesis
  proof (cases "a \<in> d")
    case True
    then have "w = [a]" "d' = d" "es = [AliasEvent (anchor_of anchors a)]" using w s by auto
    moreover from this obtain y where "anchor_of anchors a = Some y" using an True by (auto simp: anchored_def)
    moreover from this have "c_anchors c y = Some (f a)" using co True by (auto simp: composed_def)
    ultimately show ?thesis using co grown_refl [of h "{}" d f c] by (auto simp: g anchor_key_def)
  next
    case False
    let ?e = "anchor_of anchors a" and ?f = "f(a := c_next c)"
    obtain v where v: "walks (\<lambda>a. kids (h a)) fuel (kids (h a)) (insert a d) = Some (v, d')" "w = a # v" using w False by auto
    have av: "anchored anchors (insert a d) v" using anchored_first an False v(2) by blast
    have tv: "\<forall>x \<in> set v. tag_kept (h x)" "tag_kept (h a)" using tags v(2) by auto
    have nd: "\<not> duplicate ?e c" by (rule composed_add(2) [OF co False]) (use inj in \<open>auto simp: distinct_anchors_def\<close>)
    have ca: "composed anchors (insert a d) ?f (add_node ?e x c)" for x by 
      (rule composed_add(1) [OF co False]) (use inj in \<open>auto simp: distinct_anchors_def\<close>)
    have nx: "c_heap (add_node ?e x c) (c_next c) = Some x" "c_next c < c_next (add_node ?e x c)" for x by (simp_all add: add_node_def)
    show ?thesis
    proof (cases "h a")
      case (ScalarNode t u st)
      then have t: "final_tag t z = t" for z using tv(2) by (auto simp: final_tag_def tag_kept_def)
      have d': "d' = insert a d" using v(1) ScalarNode by (simp add: kids_def)
      have gr: "grown h {c_next c} (insert a d) d' ?f ?f (add_node ?e (h a) c) (add_node ?e (h a) c)" by (simp add: d' grown_refl)
      have "grown h {} d d' f ?f c (add_node ?e (h a) c)"
        by (rule grown_add(1) [OF gr False]) (simp add: nx ScalarNode renamed_def)
      moreover have "es = [ScalarEvent ?e t (t = r_scalar r u (True, False), t = r_scalar r u (False, True)) u st]"
        using s False ScalarNode by (simp add: Let_def)
      ultimately show ?thesis using nd ca [of "h a"] d' by (intro exI [of _ ?f]) (simp add: g t ScalarNode)
    next
      case (SequenceNode t xs fl)
      then have t: "final_tag t z = t" for z using tv(2) by (auto simp: final_tag_def tag_kept_def)
      obtain evs where e: "serialize_nodes r h anchors fuel xs (insert a d) = Some (evs, d')"
        "es = SequenceStartEvent ?e t (t = r_sequence r True) fl # evs @ [SequenceEndEvent]"
        using s False SequenceNode by (auto simp: Let_def)
      have "kids (h a) = xs" by (simp add: kids_def SequenceNode)
      then have vx: "walks (\<lambda>a. kids (h a)) fuel xs (insert a d) = Some (v, d')" using v(1) by simp
      let ?c = "add_node ?e (SequenceNode t [] fl) c"
      obtain f' c' where r: "compose_items r k (c_next c) (evs @ SequenceEndEvent # rest) ?c = Some (Inr (rest, c'))"
        "composed anchors d' f' c'" "grown h {c_next c} (insert a d) d' ?f f' ?c c'" "c_heap c' (c_next c) = Some (SequenceNode t (map f' xs) fl)"
        using items_compose [OF P vx e(1) av tv(1) ca nx(1) [of "SequenceNode t [] fl"] nx(2), of k rest] l e(2) g by auto
      have "c_heap c' (c_next c) = Some (renamed f' (h a))" using r(4) SequenceNode by (simp add: renamed_def)
      then show ?thesis using r(1,2) grown_add [OF r(3) False] nd by (intro exI [of _ f'] exI [of _ c']) (simp add: g e(2) t)
    next
      case (MappingNode t ps fl)
      then have t: "final_tag t z = t" for z using tv(2) by (auto simp: final_tag_def tag_kept_def)
      obtain evs where e: "serialize_nodes r h anchors fuel (pairs_of ps) (insert a d) = Some (evs, d')"
        "es = MappingStartEvent ?e t (t = r_mapping r True) fl # evs @ [MappingEndEvent]"
        using s False MappingNode by (auto simp: Let_def)
      have "kids (h a) = pairs_of ps" by (simp add: kids_def MappingNode)
      then have vx: "walks (\<lambda>a. kids (h a)) fuel (pairs_of ps) (insert a d) = Some (v, d')" using v(1) by simp
      let ?c = "add_node ?e (MappingNode t [] fl) c"
      obtain f' c' where r: "compose_pairs r k (c_next c) (evs @ MappingEndEvent # rest) ?c = Some (Inr (rest, c'))"
        "composed anchors d' f' c'" "grown h {c_next c} (insert a d) d' ?f f' ?c c'"
        "c_heap c' (c_next c) = Some (MappingNode t (map (map_prod f' f') ps) fl)"
        using pairs_compose [OF P vx e(1) av tv(1) ca nx(1) [of "MappingNode t [] fl"] nx(2), of k rest] l e(2) g by auto
      have "c_heap c' (c_next c) = Some (renamed f' (h a))" using r(4) MappingNode by (simp add: renamed_def)
      then show ?thesis using r(1,2) grown_add [OF r(3) False] nd by (intro exI [of _ f'] exI [of _ c']) (simp add: g e(2) t)
    qed
  qed
qed

lemma all_nodes_compose:
  assumes "distinct_anchors anchors"
  shows "node_composes r h anchors fuel"
proof (induction fuel)
  case 0
  then show ?case by (simp add: node_composes_def)
next
  case (Suc fuel)
  show ?case unfolding node_composes_def using composes_step [OF Suc assms] by blast
qed

section \<open>The round trip\<close>

lemma anchors_of_walk:
  assumes "fold mark w (Map.empty, 0) = (anchors, n)"
  shows "anchored anchors {} w" and "distinct_anchors anchors"
proof -
  note m = marks_ok_fold [of w, unfolded assms marks_ok_def prod.case]
  have "anchor_of anchors x \<noteq> None" if "count_list w x \<ge> 2" for x
  proof -
    have "anchors x \<noteq> None" "anchors x \<noteq> Some None" using m that by auto
    then show ?thesis by (auto simp: anchor_of_def split: option.splits)
  qed
  then show "anchored anchors {} w" by (simp add: anchored_def)
  show "distinct_anchors anchors"
    using m unfolding distinct_anchors_def anchor_of_def by (auto split: option.splits)
qed

definition new_composer :: composer where
  "new_composer = \<lparr>c_anchors = Map.empty, c_heap = Map.empty, c_next = 0\<rparr>"

text \<open>C38: A graph of nodes, shared and cyclic as it may be, becomes events from which the composer builds the same graph: its nodes
  correspond one to one, with their tags, values and styles, and refer to each other in the same way. Both sides end: fuel
  above the number of nodes, and above the number of events, is enough.
\<close>

theorem composing_inverts_serializing:
  assumes "finite R" and "root \<in> R" and "\<And>a. a \<in> R \<Longrightarrow> set (kids (h a)) \<subseteq> R \<and> tag_kept (h a)" and "card R < fuel"
  shows "\<exists>es s. serialize r h fuel (Some root) (new_serializer\<lparr>s_closed := Some False\<rparr>) = Some (Inr (es, s)) \<and>
    (\<forall>g > length es. \<exists>f c d. get_single_node r g (StreamStartEvent # es @ [StreamEndEvent]) new_composer = Some (Inr (Some (f root), [], c)) \<and>
       root \<in> d \<and> inj_on f d \<and> (\<forall>a \<in> d. set (kids (h a)) \<subseteq> d \<and> c_heap c (f a) = Some (renamed f (h a))))"
proof -
  have "card (R - {}) < fuel" using assms(4) by simp
  then obtain w d where w: "walk (\<lambda>a. kids (h a)) fuel root {} = Some (w, d)"
    using walk_ends(1) [OF assms(1), of "\<lambda>a. kids (h a)" root "{}" fuel] assms(2,3) by blast
  obtain anchors n where m: "fold mark w (Map.empty, 0) = (anchors, n)" by fastforce
  have an: "anchor_node h fuel root (Map.empty, 0) = Some (anchors, n)" using anchor_node_walk(1) [of h fuel root "(Map.empty, 0)"] w m by simp
  obtain es where es: "serialize_node r h anchors fuel root {} = Some (es, d)" using serialize_walk(1) [OF w] by blast
  have P: "node_composes r h anchors fuel" by (rule all_nodes_compose [OF anchors_of_walk(2) [OF m]])
  have tags: "\<forall>x \<in> set w. tag_kept (h x)" using walk_inside(1) [OF w, of R] assms(2,3) by blast
  have co: "composed anchors {} (\<lambda>a. 0) new_composer" by (simp add: composed_def new_composer_def)
  let ?s = "new_serializer\<lparr>s_closed := Some False\<rparr>" and ?ds = "DocumentStartEvent # es @ [DocumentEndEvent]"
  have "serialize r h fuel (Some root) ?s = Some (Inr (?ds, ?s))" using an es by (simp add: serialize_def new_serializer_def)
  moreover have "\<exists>f c d. get_single_node r g (StreamStartEvent # ?ds @ [StreamEndEvent]) new_composer = Some (Inr (Some (f root), [], c)) \<and>
       root \<in> d \<and> inj_on f d \<and> (\<forall>a \<in> d. set (kids (h a)) \<subseteq> d \<and> c_heap c (f a) = Some (renamed f (h a)))"
    if g: "length ?ds < g" for g
  proof -
    obtain f c where f: "compose_node r g (es @ [DocumentEndEvent, StreamEndEvent]) new_composer = Some (Inr (Some (f root), [DocumentEndEvent, StreamEndEvent], c))"
      "composed anchors d f c" "grown h {} {} d (\<lambda>a. 0) f new_composer c"
      using node_composesD [OF P w es anchors_of_walk(1) [OF m] tags co, of g "[DocumentEndEvent, StreamEndEvent]"] g by auto
    have "get_single_node r g (StreamStartEvent # ?ds @ [StreamEndEvent]) new_composer = Some (Inr (Some (f root), [], c\<lparr>c_anchors := Map.empty\<rparr>))"
      using f(1) by (simp add: get_single_node_def compose_document_def)
    moreover have "root \<in> d" "inj_on f d" using walk_set(1) [OF w] f(2) by (auto simp: composed_def)
    moreover have "\<forall>a \<in> d. set (kids (h a)) \<subseteq> d \<and> c_heap c (f a) = Some (renamed f (h a))"
      using walk_closed(1) [OF w] f(3) by (auto simp: grown_def)
    ultimately show ?thesis by (intro exI [of _ f] exI [of _ "c\<lparr>c_anchors := Map.empty\<rparr>"] exI [of _ d]) simp
  qed
  ultimately show ?thesis by blast
qed

text \<open>A sequence that contains itself, and a scalar twice.\<close>

theorem composing_inverts_serializing_witness:
  "let h = (\<lambda>a. if a = 0 then SequenceNode (Some [33, 115]) [0, 1, 1] None else ScalarNode (Some [33, 116]) [97] None);
       r = \<lparr>r_scalar = \<lambda>v i. None, r_sequence = \<lambda>i. None, r_mapping = \<lambda>i. None\<rparr>
   in \<exists>es s. serialize r h 3 (Some 0) (new_serializer\<lparr>s_closed := Some False\<rparr>) = Some (Inr (es, s)) \<and>
      (\<exists>f c d. get_single_node r (Suc (length es)) (StreamStartEvent # es @ [StreamEndEvent]) new_composer = Some (Inr (Some (f 0), [], c)) \<and>
         c_heap c (f 0) = Some (renamed f (h 0)))"
proof -
  let ?h = "\<lambda>a :: nat. if a = 0 then SequenceNode (Some [33, 115]) [0, 1, 1] None else ScalarNode (Some [33, 116]) [97] None"
  let ?r = "\<lparr>r_scalar = \<lambda>v i. None, r_sequence = \<lambda>i. None, r_mapping = \<lambda>i. None\<rparr>"
  have "set (kids (?h a)) \<subseteq> {0, 1} \<and> tag_kept (?h a)" if "a \<in> {0, 1}" for a using that by (auto simp: kids_def tag_kept_def lit_def)
  then obtain es s where es: "serialize ?r ?h 3 (Some 0) (new_serializer\<lparr>s_closed := Some False\<rparr>) = Some (Inr (es, s))"
    "\<forall>g > length es. \<exists>f c d. get_single_node ?r g (StreamStartEvent # es @ [StreamEndEvent]) new_composer = Some (Inr (Some (f 0), [], c)) \<and>
       0 \<in> d \<and> inj_on f d \<and> (\<forall>a \<in> d. set (kids (?h a)) \<subseteq> d \<and> c_heap c (f a) = Some (renamed f (?h a)))"
    using composing_inverts_serializing [of "{0, 1}" 0 ?h 3 ?r] by (auto simp: card_insert_if)
  from es(2) [rule_format, of "Suc (length es)"] obtain f c d where
    "get_single_node ?r (Suc (length es)) (StreamStartEvent # es @ [StreamEndEvent]) new_composer = Some (Inr (Some (f 0), [], c))"
    "0 \<in> d" "\<forall>a \<in> d. c_heap c (f a) = Some (renamed f (?h a))" by blast
  then show ?thesis unfolding Let_def using es(1) by blast
qed

end
