(* ===== verification/Script_Versions.thy ===== *)
theory Script_Versions
  imports Script_Prelude
begin

text \<open>Comparison of version numbers by which the browser is recognised (bowser).\<close>

section \<open>Comparing as strings\<close>

definition getVersionPrecision :: "js \<Rightarrow> nat" where
  "getVersionPrecision e = length (js_split 46 e)"

text \<open>
  \<^verbatim>\<open>new Array(n).join(s)\<close> is one copy of \<open>s\<close> less than \<open>n\<close>, and nothing for zero; a negative length is a \<^verbatim>\<open>RangeError\<close>.
\<close>

definition join_array :: "int \<Rightarrow> js \<Rightarrow> js option" where
  "join_array n s = (if n < 0 then None else Some (concat (replicate (nat n - 1) s)))"

definition pad_chunk :: "js \<Rightarrow> js option" where
  "pad_chunk e = map_option (\<lambda>z. z @ e) (join_array (20 - int (length e)) (lit ''0''))"

fun map_all :: "('a \<Rightarrow> 'b option) \<Rightarrow> 'a list \<Rightarrow> 'b list option" where
  "map_all f [] = Some []"
| "map_all f (x # xs) = (case f x of None \<Rightarrow> None | Some y \<Rightarrow> map_option ((#) y) (map_all f xs))"

definition version_chunks :: "nat \<Rightarrow> js \<Rightarrow> js list option" where
  "version_chunks r e =
     (let o1 = int r - int (getVersionPrecision e)
      in case join_array (o1 + 1) (lit ''.0'') of
           None \<Rightarrow> None
         | Some z \<Rightarrow> map_option rev (map_all pad_chunk (js_split 46 (e @ z))))"

text \<open>\<^verbatim>\<open>>\<close> on strings compares code units.\<close>

fun js_greater :: "js \<Rightarrow> js \<Rightarrow> bool" where
  "js_greater [] t = False"
| "js_greater (c # s) [] = True"
| "js_greater (c # s) (d # t) = (c > d \<or> c = d \<and> js_greater s t)"

text \<open>The loop from the last chunk down; \<open>k\<close> is one more than the index.\<close>

fun compare_from :: "nat \<Rightarrow> js list \<Rightarrow> js list \<Rightarrow> int option" where
  "compare_from 0 xs ys = None"
| "compare_from (Suc k) xs ys =
     (if js_greater (xs ! k) (ys ! k) then Some 1
      else if xs ! k \<noteq> ys ! k then Some (-1)
      else if k = 0 then Some 0
      else compare_from k xs ys)"

definition compareVersions :: "js \<Rightarrow> js \<Rightarrow> int option" where
  "compareVersions v w =
     (let r = max (getVersionPrecision v) (getVersionPrecision w)
      in case (version_chunks r v, version_chunks r w) of
           (Some xs, Some ys) \<Rightarrow> compare_from r xs ys
         | _ \<Rightarrow> None)"

section \<open>Comparing as numbers\<close>

definition digits_value :: "js \<Rightarrow> nat" where
  "digits_value e = foldl (\<lambda>v d. 10 * v + (d - 48)) 0 e"

abbreviation is_digits :: "js \<Rightarrow> bool" where
  "is_digits e \<equiv> \<forall>d \<in> set e. 48 \<le> d \<and> d \<le> 57"

text \<open>Versions as lists of numbers; a version that ends is followed by zeros.\<close>

fun version_order :: "nat list \<Rightarrow> nat list \<Rightarrow> int" where
  "version_order [] [] = 0"
| "version_order [] (y # ys) = (if y > 0 then -1 else version_order [] ys)"
| "version_order (x # xs) [] = (if x > 0 then 1 else version_order xs [])"
| "version_order (x # xs) (y # ys) = (if x > y then 1 else if x < y then -1 else version_order xs ys)"

lemma digits_value_from: "foldl (\<lambda>v d. 10 * v + (d - 48)) a e = a * 10 ^ length e + digits_value e"
proof -
  have "foldl (\<lambda>v d. 10 * v + (d - 48)) (a + b) e = a * 10 ^ length e + foldl (\<lambda>v d. 10 * v + (d - 48)) b e" for b
  proof (induction e arbitrary: a b)
    case (Cons d e)
    have "10 * (a + b) + (d - 48) = 10 * a + (10 * b + (d - 48))" by simp
    then show ?case using Cons.IH [of "10 * a" "10 * b + (d - 48)"] by (simp add: add.assoc mult.assoc mult.left_commute)
  qed simp
  from this [of 0] show ?thesis by (simp add: digits_value_def)
qed

lemma digits_value_simps:
  "digits_value [] = 0" "digits_value (d # e) = (d - 48) * 10 ^ length e + digits_value e"
  using digits_value_from [of "d - 48" e] by (simp_all add: digits_value_def)

lemma digits_value_less: "is_digits e \<Longrightarrow> digits_value e < 10 ^ length e"
proof (induction e)
  case (Cons d e)
  have "(d - 48) * 10 ^ length e \<le> 9 * 10 ^ length e" using Cons.prems by (intro mult_right_mono) auto
  then have "(d - 48) * 10 ^ length e + digits_value e < 9 * 10 ^ length e + 10 ^ length e"
    by (rule add_le_less_mono) (use Cons in simp)
  then show ?case by (simp only: digits_value_simps list.size power_Suc plus_1_eq_Suc) simp
qed (simp add: digits_value_simps)

lemma greater_digits:
  "length s = length t \<Longrightarrow> is_digits s \<Longrightarrow> is_digits t \<Longrightarrow>
   (js_greater s t \<longleftrightarrow> digits_value s > digits_value t) \<and> (s = t \<longleftrightarrow> digits_value s = digits_value t)"
proof (induction s t rule: list_induct2)
  case (Cons c s d t)
  have less: "digits_value s < 10 ^ length t" "digits_value t < 10 ^ length t" using Cons digits_value_less [of s] digits_value_less [of t] by auto
  have gap: "(a - 48) * 10 ^ length t + v < (b - 48) * 10 ^ length t + w" if "a < b" "48 \<le> a" "v < 10 ^ length t" for a b v w :: nat
  proof -
    have "(a - 48) * 10 ^ length t + v < Suc (a - 48) * 10 ^ length t" using that(3) by simp
    also have "\<dots> \<le> (b - 48) * 10 ^ length t" using that(1,2) by (intro mult_right_mono) auto
    finally show ?thesis by simp
  qed
  consider "c < d" | "c = d" | "d < c" by (rule linorder_cases)
  then show ?case
  proof cases
    case 1
    then show ?thesis using gap [of c d "digits_value s" "digits_value t"] less Cons.prems Cons.hyps by (simp add: digits_value_simps)
  next
    case 2
    then show ?thesis using Cons by (simp add: digits_value_simps)
  next
    case 3
    then show ?thesis using gap [of d c "digits_value t" "digits_value s"] less Cons.prems Cons.hyps by (simp add: digits_value_simps)
  qed
qed simp

lemma digits_value_zeros: "digits_value (replicate k 48 @ e) = digits_value e"
  by (induction k) (simp_all add: digits_value_simps)

lemma pad_chunk_digits:
  assumes "length e \<le> 19"
  shows "pad_chunk e = Some (replicate (19 - length e) 48 @ e)"
proof -
  have "concat (replicate k [48 :: nat]) = replicate k 48" for k by (induction k) simp_all
  moreover have "nat (20 - int (length e)) - 1 = 19 - length e" "0 \<le> 20 - int (length e)" using assms by simp_all
  ultimately show ?thesis by (simp add: pad_chunk_def join_array_def lit_def)
qed

lemma js_split_append_all: "js_split c (x @ c # y) = js_split c x @ js_split c y"
proof (induction x)
  case (Cons d x)
  then show ?case by (cases "js_split c x") auto
qed simp

lemma split_zeros: "js_split 46 (e @ concat (replicate k [46, 48])) = js_split 46 e @ replicate k [48]"
proof (induction k arbitrary: e)
  case (Suc k)
  have "js_split 46 ((e @ [46, 48]) @ concat (replicate k [46, 48])) = js_split 46 (e @ 46 # [48]) @ replicate k [48]"
    using Suc [of "e @ [46, 48]"] by simp
  then show ?case using js_split_append_all [of 46 e "[48]"] by simp
qed simp

lemma map_all_Some: "(\<And>x. x \<in> set xs \<Longrightarrow> f x = Some (g x)) \<Longrightarrow> map_all f xs = Some (map g xs)"
  by (induction xs) auto

lemma version_chunks_digits:
  assumes "\<forall>x \<in> set (js_split 46 v). length x \<le> 19" and "getVersionPrecision v \<le> r"
  shows "version_chunks r v = Some (rev (map (\<lambda>x. replicate (19 - length x) 48 @ x) (js_split 46 v @ replicate (r - length (js_split 46 v)) [48])))"
proof -
  have "join_array (int r - int (getVersionPrecision v) + 1) (lit ''.0'') = Some (concat (replicate (r - length (js_split 46 v)) [46, 48]))"
    using assms(2) by (simp add: join_array_def lit_def getVersionPrecision_def nat_diff_distrib' nat_add_distrib)
  moreover have "map_all pad_chunk (js_split 46 v @ replicate (r - length (js_split 46 v)) [48]) =
      Some (map (\<lambda>x. replicate (19 - length x) 48 @ x) (js_split 46 v @ replicate (r - length (js_split 46 v)) [48]))"
    by (rule map_all_Some) (use assms(1) in \<open>auto intro: pad_chunk_digits simp del: append_replicate_commute\<close>)
  ultimately show ?thesis by (simp add: version_chunks_def split_zeros)
qed

text \<open>The loop on lists of equally long strings of digits, which it reads from the end.\<close>

lemma compare_from_digits:
  assumes "length xs = length ys" and "xs \<noteq> []" and "\<forall>x \<in> set xs \<union> set ys. length x = n \<and> is_digits x"
  shows "compare_from (length xs) (rev xs) (rev ys) = Some (version_order (map digits_value xs) (map digits_value ys))"
  using assms
proof (induction xs ys rule: list_induct2)
  case (Cons x xs y ys)
  have xy: "js_greater x y \<longleftrightarrow> digits_value x > digits_value y" "x = y \<longleftrightarrow> digits_value x = digits_value y"
    using greater_digits [of x y] Cons.prems by auto
  have pre: "compare_from k (rev xs @ [x]) (rev ys @ [y]) = compare_from k (rev xs) (rev ys)" if "k \<le> length xs" for k
    using that Cons.hyps by (induction k) (simp_all add: nth_append)
  have "(rev xs @ [x]) ! length xs = x" "(rev ys @ [y]) ! length xs = y"
    using Cons.hyps by (metis length_rev nth_append_length)+
  moreover have "xs = [] \<Longrightarrow> ys = []" using Cons.hyps by simp
  ultimately show ?case
    using xy pre [of "length xs"] Cons.IH Cons.prems by (cases "xs = []") (auto simp: Cons.hyps)
qed simp

lemma version_order_zeros: "version_order xs (ys @ replicate k 0) = version_order xs ys" "version_order (xs @ replicate k 0) ys = version_order xs ys"
proof -
  have l: "version_order [] (replicate k 0) = 0" "version_order (replicate k 0) [] = 0" for k by (induction k) simp_all
  have a: "version_order xs (replicate k 0) = version_order xs []" for k xs
  proof (induction xs arbitrary: k)
    case (Cons x xs)
    then show ?case by (cases k) auto
  qed (simp add: l)
  have b: "version_order (replicate k 0) ys = version_order [] ys" for k ys
  proof (induction ys arbitrary: k)
    case (Cons y ys)
    then show ?case by (cases k) auto
  qed (simp add: l)
  show "version_order xs (ys @ replicate k 0) = version_order xs ys"
    by (induction xs ys rule: version_order.induct) (simp_all add: a l)
  show "version_order (xs @ replicate k 0) ys = version_order xs ys"
    by (induction xs ys rule: version_order.induct) (simp_all add: b l)
qed

text \<open>For versions whose numbers have at most 19 digits the comparison of padded strings is the comparison of numbers from the
  first on, where a number that is missing counts as zero, so that 1.10 is above 1.9 and 2 equal to 2.0.
\<close>

theorem versions_compare_as_numbers:
  assumes "\<forall>x \<in> set (js_split 46 v) \<union> set (js_split 46 w). length x \<le> 19 \<and> is_digits x"
  shows "compareVersions v w = Some (version_order (map digits_value (js_split 46 v)) (map digits_value (js_split 46 w)))"
proof -
  let ?r = "max (getVersionPrecision v) (getVersionPrecision w)" and ?p = "\<lambda>x. replicate (19 - length x) 48 @ x"
  let ?c = "\<lambda>v. js_split 46 v @ replicate (?r - length (js_split 46 v)) [48]"
  have c: "version_chunks ?r v = Some (rev (map ?p (?c v)))" "version_chunks ?r w = Some (rev (map ?p (?c w)))"
    by (rule version_chunks_digits; use assms in auto)+
  have l: "length (?c v) = ?r" "length (?c w) = ?r" by (simp_all add: getVersionPrecision_def)
  have d: "\<forall>x \<in> set (?c v) \<union> set (?c w). length x \<le> 19 \<and> is_digits x" using assms by auto
  have "map ?p (?c v) \<noteq> []" by simp
  then have "compare_from (length (map ?p (?c v))) (rev (map ?p (?c v))) (rev (map ?p (?c w))) =
      Some (version_order (map digits_value (map ?p (?c v))) (map digits_value (map ?p (?c w))))"
  proof (intro compare_from_digits [where n = 19])
    show "length (map ?p (?c v)) = length (map ?p (?c w))" using l by (simp only: length_map)
    show "\<forall>x \<in> set (map ?p (?c v)) \<union> set (map ?p (?c w)). length x = 19 \<and> is_digits x" using d by fastforce
  qed
  moreover have "map digits_value (map ?p (?c u)) = map digits_value (js_split 46 u) @ replicate (?r - length (js_split 46 u)) 0" for u
    by (simp add: digits_value_zeros digits_value_simps comp_def)
  ultimately have "compare_from ?r (rev (map ?p (?c v))) (rev (map ?p (?c w))) =
      Some (version_order (map digits_value (js_split 46 v)) (map digits_value (js_split 46 w)))"
    using l(1) by (simp only: length_map version_order_zeros)
  then show ?thesis unfolding compareVersions_def Let_def c by simp
qed

theorem versions_compare_as_numbers_witness:
  "compareVersions (lit ''1.10'') (lit ''1.9'') = Some 1 \<and> compareVersions (lit ''2'') (lit ''2.0'') = Some 0"
  using versions_compare_as_numbers [of "lit ''1.10''" "lit ''1.9''"] versions_compare_as_numbers [of "lit ''2''" "lit ''2.0''"]
  by (simp add: lit_def digits_value_def)

end
