(* ===== verification/Script_Split_Pane.thy ===== *)
theory Script_Split_Pane
  imports Script_Prelude
begin

text \<open>
  The divider between the two halves of the page: the component that handles the drag (react-split-pane) and the component
  of the user interface around it (split-pane-mode). Positions and extents are whole numbers of pixels; the browser says how
  large the panes are, so extents are arguments of the events. Both panes are on the page.
\<close>

section \<open>The divider\<close>

datatype extent = Px int | Text string

text \<open>\<^verbatim>\<open>a || b\<close> on sizes: zero, the empty text and what is missing are false.\<close>

definition truthy :: "extent option \<Rightarrow> bool" where
  "truthy e \<longleftrightarrow> e \<noteq> None \<and> e \<noteq> Some (Px 0) \<and> e \<noteq> Some (Text [])"

definition js_or :: "extent option \<Rightarrow> extent option \<Rightarrow> extent option" where
  "js_or a b = (if truthy a then a else b)"

record pane_props =
  p_vertical :: bool
  p_first :: bool
  p_allowResize :: bool
  p_size :: "extent option"
  p_defaultSize :: "extent option"
  p_minSize :: int
  p_maxSize :: "int option"

text \<open>The state of the component, and the size of the primary pane.\<close>

record pane_state =
  t_active :: bool
  t_resized :: bool
  t_position :: "int option"
  t_draggedSize :: "extent option"
  t_paneSize :: "extent option"

definition new_pane :: pane_state where
  "new_pane = \<lparr>t_active = False, t_resized = False, t_position = None, t_draggedSize = None, t_paneSize = None\<rparr>"

definition onTouchStart :: "pane_props \<Rightarrow> int \<times> int \<Rightarrow> pane_state \<Rightarrow> pane_state" where
  "onTouchStart e at t =
     (if p_allowResize e then t\<lparr>t_active := True, t_position := Some (if p_vertical e then fst at else snd at)\<rparr> else t)"

text \<open>\<open>pane\<close> is the width and height of the primary pane, \<open>whole\<close> that of both with the divider.\<close>

definition onTouchMove :: "pane_props \<Rightarrow> int \<times> int \<Rightarrow> int \<times> int \<Rightarrow> int \<times> int \<Rightarrow> pane_state \<Rightarrow> pane_state" where
  "onTouchMove e at pane whole t =
     (if p_allowResize e \<and> t_active t then
        (let a = (if p_vertical e then fst at else snd at);
             u = (if p_vertical e then fst pane else snd pane);
             c = the (t_position t);
             l = (if p_first e then c - a else a - c);
             p = (case p_maxSize e of
                    None \<Rightarrow> 0
                  | Some m \<Rightarrow> if m \<le> 0 then (if p_vertical e then fst whole else snd whole) + m else m);
             d = u - l;
             (d', t') =
               (if d < p_minSize e then (p_minSize e, t)
                else if p_maxSize e \<noteq> None \<and> d > p then (p, t)
                else (d, t\<lparr>t_position := Some a, t_resized := True\<rparr>))
         in t'\<lparr>t_draggedSize := Some (Px d'), t_paneSize := Some (Px d')\<rparr>)
      else t)"

text \<open>Whether the listener for the end of the drag is called.\<close>

definition onMouseUp :: "pane_props \<Rightarrow> pane_state \<Rightarrow> bool \<times> pane_state" where
  "onMouseUp e t = (if p_allowResize e \<and> t_active t then (True, t\<lparr>t_active := False\<rparr>) else (False, t))"

definition setSize :: "pane_props \<Rightarrow> pane_state \<Rightarrow> pane_state" where
  "setSize e t =
     (let r = js_or (p_size e) (js_or (t_draggedSize t) (js_or (p_defaultSize e) (Some (Px (p_minSize e)))));
          t1 = t\<lparr>t_paneSize := r\<rparr>
      in if p_size e \<noteq> t_draggedSize t then t1\<lparr>t_draggedSize := r\<rparr> else t1)"

section \<open>The modes\<close>

datatype pane_mode = ModeLeft | ModeRight | ModeBoth

record split =
  v_pane :: pane_state
  v_draggedSize :: "extent option"
  v_mode :: pane_mode

text \<open>\<^verbatim>\<open><=\<close> between a size and the threshold: a text such as 50% is no number.\<close>

definition at_most :: "extent option \<Rightarrow> int \<Rightarrow> bool" where
  "at_most e n = (case e of Some (Px d) \<Rightarrow> d \<le> n | _ \<Rightarrow> False)"

definition sizeFromMode :: "pane_mode \<Rightarrow> extent option \<Rightarrow> split \<Rightarrow> extent option \<times> split" where
  "sizeFromMode m d v =
     (case m of
        ModeLeft \<Rightarrow> (Some (Text ''0px''), v\<lparr>v_draggedSize := None\<rparr>)
      | ModeRight \<Rightarrow> (Some (Text ''100%''), v\<lparr>v_draggedSize := None\<rparr>)
      | ModeBoth \<Rightarrow> (js_or (v_draggedSize v) d, v))"

definition render_props :: "extent option \<Rightarrow> pane_mode \<Rightarrow> pane_props" where
  "render_props z m =
     \<lparr>p_vertical = True, p_first = False, p_allowResize = (m \<noteq> ModeLeft \<and> m \<noteq> ModeRight), p_size = z,
      p_defaultSize = Some (Text ''50%''), p_minSize = 0, p_maxSize = None\<rparr>"

text \<open>Rendering passes new properties to the divider, which then sets its size.\<close>

definition render :: "split \<Rightarrow> split" where
  "render v =
     (case sizeFromMode (v_mode v) (Some (Text ''50%'')) v of
        (z, v1) \<Rightarrow> v1\<lparr>v_pane := setSize (render_props z (v_mode v)) (v_pane v1)\<rparr>)"

definition onDragFinished :: "int \<Rightarrow> split \<Rightarrow> split" where
  "onDragFinished threshold v =
     (let i = t_position (v_pane v); a = t_draggedSize (v_pane v);
          s = (case i of None \<Rightarrow> False | Some x \<Rightarrow> x \<le> threshold); u = at_most a threshold
      in render (v\<lparr>v_draggedSize := a, v_mode := (if s then ModeRight else if u then ModeLeft else ModeBoth)\<rparr>))"

definition new_split :: split where
  "new_split = render \<lparr>v_pane = new_pane, v_draggedSize = None, v_mode = ModeBoth\<rparr>"

definition current_props :: "split \<Rightarrow> pane_props" where
  "current_props v = render_props (fst (sizeFromMode (v_mode v) (Some (Text ''50%'')) v)) (v_mode v)"

text \<open>What the user and the rest of the page do; the mode is also changed from outside.\<close>

inductive split_step :: "int \<Rightarrow> split \<Rightarrow> split \<Rightarrow> bool" for threshold where
  down: "split_step threshold v (v\<lparr>v_pane := onTouchStart (current_props v) at (v_pane v)\<rparr>)"
| move: "split_step threshold v (v\<lparr>v_pane := onTouchMove (current_props v) at pane whole (v_pane v)\<rparr>)"
| up: "onMouseUp (current_props v) (v_pane v) = (True, t) \<Longrightarrow> split_step threshold v (onDragFinished threshold (v\<lparr>v_pane := t\<rparr>))"
| up_idle: "onMouseUp (current_props v) (v_pane v) = (False, t) \<Longrightarrow> split_step threshold v (v\<lparr>v_pane := t\<rparr>)"
| mode: "split_step threshold v (render (v\<lparr>v_mode := m\<rparr>))"

inductive split_reachable :: "int \<Rightarrow> split \<Rightarrow> bool" for threshold where
  start: "split_reachable threshold new_split"
| step: "split_reachable threshold v \<Longrightarrow> split_step threshold v w \<Longrightarrow> split_reachable threshold w"

section \<open>Sizes that occur\<close>

definition size_ok :: "extent option \<Rightarrow> bool" where
  "size_ok e \<longleftrightarrow> (case e of None \<Rightarrow> True | Some (Px d) \<Rightarrow> 0 \<le> d | Some (Text t) \<Rightarrow> t \<in> {''0px'', ''50%'', ''100%''})"

definition split_ok :: "split \<Rightarrow> bool" where
  "split_ok v \<longleftrightarrow>
     size_ok (v_draggedSize v) \<and> size_ok (t_draggedSize (v_pane v)) \<and> size_ok (t_paneSize (v_pane v)) \<and> t_paneSize (v_pane v) \<noteq> None \<and>
     (t_active (v_pane v) \<longrightarrow> t_position (v_pane v) \<noteq> None)"

lemma size_ok_or: "size_ok a \<Longrightarrow> size_ok b \<Longrightarrow> size_ok (js_or a b)"
  by (simp add: js_or_def)

lemma js_or_present: "b \<noteq> None \<Longrightarrow> js_or a b \<noteq> None"
  by (auto simp: js_or_def truthy_def)

lemma setSize_ok:
  assumes "size_ok (p_size e)" and "size_ok (p_defaultSize e)" and "0 \<le> p_minSize e" and "size_ok (t_draggedSize t)"
  shows "size_ok (t_paneSize (setSize e t)) \<and> t_paneSize (setSize e t) \<noteq> None \<and> size_ok (t_draggedSize (setSize e t)) \<and>
    t_active (setSize e t) = t_active t \<and> t_position (setSize e t) = t_position t"
proof -
  define r where "r = js_or (p_size e) (js_or (t_draggedSize t) (js_or (p_defaultSize e) (Some (Px (p_minSize e)))))"
  have "size_ok r" unfolding r_def using assms by (intro size_ok_or) (simp_all add: size_ok_def)
  moreover have "r \<noteq> None" unfolding r_def by (intro js_or_present) simp
  moreover have "setSize e t = (if p_size e \<noteq> t_draggedSize t then t\<lparr>t_paneSize := r, t_draggedSize := r\<rparr> else t\<lparr>t_paneSize := r\<rparr>)"
    by (simp add: setSize_def r_def Let_def)
  ultimately show ?thesis using assms(4) by simp
qed

lemma render_ok:
  assumes "size_ok (v_draggedSize v)" and "size_ok (t_draggedSize (v_pane v))" and "t_active (v_pane v) \<longrightarrow> t_position (v_pane v) \<noteq> None"
  shows "split_ok (render v)"
proof -
  obtain z v1 where r: "sizeFromMode (v_mode v) (Some (Text ''50%'')) v = (z, v1)" by fastforce
  have s: "size_ok z" "size_ok (v_draggedSize v1)" "v_pane v1 = v_pane v"
    using r assms(1) by (auto simp: sizeFromMode_def size_ok_def js_or_def split: pane_mode.splits)
  have "size_ok (p_size (render_props z (v_mode v)))" "size_ok (p_defaultSize (render_props z (v_mode v)))"
    "0 \<le> p_minSize (render_props z (v_mode v))" using s(1) by (simp_all add: render_props_def size_ok_def)
  note setSize_ok [OF this assms(2)]
  then show ?thesis using r s assms by (simp add: render_def split_ok_def)
qed

lemma move_facts:
  assumes "split_ok v"
  shows "split_ok (v\<lparr>v_pane := onTouchMove (current_props v) at pane whole (v_pane v)\<rparr>)"
proof -
  have "p_minSize (current_props v) = 0" "p_maxSize (current_props v) = None" by (simp_all add: current_props_def render_props_def)
  then show ?thesis using assms by (auto simp: split_ok_def onTouchMove_def size_ok_def Let_def)
qed

lemma split_step_ok:
  assumes "split_step threshold v w" and "split_ok v"
  shows "split_ok w"
  using assms
proof (cases rule: split_step.cases)
  case (up t)
  then have t: "t = (v_pane v)\<lparr>t_active := False\<rparr>" by (auto simp: onMouseUp_def split: if_splits)
  show ?thesis using assms(2) unfolding up(1) onDragFinished_def Let_def
    by (intro render_ok) (simp_all add: t split_ok_def)
next
  case (mode m)
  show ?thesis using assms(2) unfolding mode by (intro render_ok) (simp_all add: split_ok_def)
qed (use assms(2) move_facts in \<open>auto simp: split_ok_def onTouchStart_def onMouseUp_def split: if_splits\<close>)

text \<open>Whatever is done, the primary pane always has a size, which is one of three texts or a number of pixels that is not
  negative, a drag in progress always knows where the pointer was, and while only one half is shown the divider does not move.
\<close>

theorem split_sizes_are_valid:
  assumes "split_reachable threshold v"
  shows "t_paneSize (v_pane v) \<noteq> None \<and> size_ok (t_paneSize (v_pane v)) \<and> size_ok (t_draggedSize (v_pane v)) \<and>
    (t_active (v_pane v) \<longrightarrow> t_position (v_pane v) \<noteq> None) \<and>
    (v_mode v \<noteq> ModeBoth \<longrightarrow> onTouchMove (current_props v) at pane whole (v_pane v) = v_pane v)"
proof -
  have "split_ok v" using assms
  proof (induction rule: split_reachable.induct)
    case start
    show ?case unfolding new_split_def by (rule render_ok) (simp_all add: new_pane_def size_ok_def)
  next
    case (step v w)
    then show ?case by (auto dest: split_step_ok)
  qed
  moreover have "onTouchMove (current_props v) at pane whole (v_pane v) = v_pane v" if "v_mode v \<noteq> ModeBoth"
    using that by (cases "v_mode v") (simp_all add: onTouchMove_def current_props_def render_props_def)
  ultimately show ?thesis by (simp add: split_ok_def)
qed

text \<open>The divider is pressed and moved.\<close>

theorem split_sizes_are_valid_witness:
  "let v1 = new_split\<lparr>v_pane := onTouchStart (current_props new_split) (300, 0) (v_pane new_split)\<rparr>;
       v2 = v1\<lparr>v_pane := onTouchMove (current_props v1) (250, 0) (400, 100) (800, 100) (v_pane v1)\<rparr>
   in size_ok (t_paneSize (v_pane v2)) \<and> t_paneSize (v_pane v2) \<noteq> None"
proof -
  let ?v1 = "new_split\<lparr>v_pane := onTouchStart (current_props new_split) (300, 0) (v_pane new_split)\<rparr>"
  have "split_reachable 100 (?v1\<lparr>v_pane := onTouchMove (current_props ?v1) (250, 0) (400, 100) (800, 100) (v_pane ?v1)\<rparr>)"
    by (rule split_reachable.step [OF split_reachable.step [OF split_reachable.start split_step.down] split_step.move])
  from split_sizes_are_valid [OF this] show ?thesis unfolding Let_def by blast
qed

section \<open>Following the pointer\<close>

text \<open>A drag with the pointer at the given places, where the browser gives the pane the size it was told.\<close>

fun drag :: "pane_props \<Rightarrow> int list \<Rightarrow> int \<Rightarrow> pane_state \<Rightarrow> int \<times> pane_state" where
  "drag e [] u t = (u, t)"
| "drag e (a # as) u t =
     (let t1 = onTouchMove e (a, a) (u, u) (0, 0) t
      in drag e as (case t_draggedSize t1 of Some (Px d) \<Rightarrow> d | _ \<Rightarrow> u) t1)"

text \<open>As long as no limit is met, the size follows the pointer exactly.\<close>

lemma drag_follows:
  assumes "p_allowResize e" and "p_maxSize e = None" and "t_active t" and "t_position t = Some c"
    and "\<forall>a \<in> set as. p_minSize e \<le> (if p_first e then u + (a - c) else u - (a - c))"
  shows "fst (drag e as u t) = (if as = [] then u else if p_first e then u + (last as - c) else u - (last as - c))"
  using assms(3-5)
proof (induction as arbitrary: u t c)
  case (Cons a as)
  let ?d = "if p_first e then u + (a - c) else u - (a - c)"
  let ?t = "t\<lparr>t_position := Some a, t_resized := True, t_draggedSize := Some (Px ?d), t_paneSize := Some (Px ?d)\<rparr>"
  have "onTouchMove e (a, a) (u, u) (0, 0) t = ?t"
    using assms(1,2) Cons.prems by (auto simp: onTouchMove_def Let_def)
  then have "fst (drag e (a # as) u t) = fst (drag e as ?d ?t)" by (simp add: Let_def)
  also have "\<dots> = (if as = [] then ?d else if p_first e then ?d + (last as - a) else ?d - (last as - a))"
    by (rule Cons.IH) (use Cons.prems in auto)
  finally show ?case by auto
qed simp

text \<open>Where the pointer goes beyond the limit and comes back, the divider is left behind: it does not return to its place.\<close>

lemma drag_drifts:
  "let e = (render_props None ModeBoth)\<lparr>p_first := True, p_minSize := 50\<rparr>; t = new_pane\<lparr>t_active := True, t_position := Some 60\<rparr>
   in fst (drag e [10, 60] 60 t) = 50 \<and> fst (drag e [60] 60 t) = 60"
  by (simp add: onTouchMove_def render_props_def new_pane_def Let_def)

end
