(* ===== verification/Script_Errors.thy ===== *)
theory Script_Errors
  imports Script_State "HOL-Library.Multiset"
begin

text \<open>
  The error plugin of the Swagger UI: the list of errors that the page shows, its actions, its
  reducers and the transformers that rewrite the messages. The object with the default fields is a
  variable of the module that the reducers share, and \<^verbatim>\<open>Object.assign\<close> writes into it; so it is part
  of the state here. Fields hold texts, numbers,
  \<^verbatim>\<open>null\<close>, \<^verbatim>\<open>undefined\<close> and nested objects. The order in which the engine
  sorts errors without a line number is an argument.
\<close>

datatype ev = EStr js | ENum int | ENull | EUndef | EObj "(js \<times> ev) list"

type_synonym err = "(js \<times> ev) list"

datatype err_action =
    NEW_THROWN_ERR err
  | NEW_THROWN_ERR_BATCH "err list"
  | NEW_SPEC_ERR err
  | NEW_AUTH_ERR err
  | CLEAR err

record err_store =
  err_errors :: "err list option"
  err_defaults :: err

definition err_defaults0 :: err where
  "err_defaults0 =
     [(lit ''line'', ENum 0), (lit ''level'', EStr (lit ''error'')), (lit ''message'', EStr (lit ''Unknown error''))]"

definition new_err_store :: err_store where
  "new_err_store = \<lparr>err_errors = None, err_defaults = err_defaults0\<rparr>"

text \<open>\<^verbatim>\<open>e.get("errors") || List()\<close> and \<^verbatim>\<open>Object.assign(target, source)\<close>.\<close>

definition allErrors :: "err_store \<Rightarrow> err list" where
  "allErrors e = (case err_errors e of None \<Rightarrow> [] | Some xs \<Rightarrow> xs)"

definition lastError :: "err_store \<Rightarrow> err option" where
  "lastError e = (if allErrors e = [] then None else Some (last (allErrors e)))"

definition object_assign :: "err \<Rightarrow> err \<Rightarrow> err" where
  "object_assign target source = fold (\<lambda>(k, v). aset k v) source target"

section \<open>Transformers\<close>

text \<open>The text of \<^verbatim>\<open>e.get("message")\<close>; without one the methods of strings throw.\<close>

definition err_message :: "err \<Rightarrow> js option" where
  "err_message e = (case map_of e (lit ''message'') of Some (EStr s) \<Rightarrow> Some s | _ \<Rightarrow> None)"

fun find_text :: "js \<Rightarrow> js \<Rightarrow> nat option" where
  "find_text t [] = (if t = [] then Some 0 else None)"
| "find_text t (c # s) = (if take (length t) (c # s) = t then Some 0 else map_option Suc (find_text t s))"

text \<open>The names of types, joined in the way of an English list.\<close>

definition type_step :: "js list \<Rightarrow> js \<Rightarrow> nat \<Rightarrow> js" where
  "type_step ts t i =
     (let n = length ts; next_text = Suc i < n \<and> ts ! Suc i \<noteq> [] in
      if Suc i = n \<and> 1 < n then lit ''or '' @ t
      else if next_text \<and> 2 < n then t @ lit '', ''
      else if next_text then t @ lit '' ''
      else t)"

fun type_steps :: "js list \<Rightarrow> nat \<Rightarrow> js list \<Rightarrow> js" where
  "type_steps ts i [] = []"
| "type_steps ts i (t # r) = type_step ts t i @ type_steps ts (Suc i) r"

definition makeNewMessage :: "js list \<Rightarrow> js" where
  "makeNewMessage ts = lit ''should be a'' @ type_steps ts 0 ts"

definition not_of_type_text :: "js \<Rightarrow> js" where
  "not_of_type_text m =
     (case find_text (lit ''is not of a type(s)'') m of
        None \<Rightarrow> m
      | Some r \<Rightarrow> take r m @ makeNewMessage (js_split 44 (drop (r + length (lit ''is not of a type(s)'')) m)))"

definition not_of_type :: "err \<Rightarrow> err option" where
  "not_of_type e =
     (case err_message e of
        None \<Rightarrow> None
      | Some m \<Rightarrow> Some (if find_text (lit ''is not of a type(s)'') m = None then e
                       else aset (lit ''message'') (EStr (not_of_type_text m)) e))"

text \<open>\<^verbatim>\<open>replace(new RegExp("instance.", "g"), "")\<close>: the dot stands for any character of the line.\<close>

definition line_end :: "nat \<Rightarrow> bool" where
  "line_end c \<longleftrightarrow> c = 10 \<or> c = 13 \<or> c = 8232 \<or> c = 8233"

fun removeSubstring :: "nat \<Rightarrow> js \<Rightarrow> js" where
  "removeSubstring k [] = []"
| "removeSubstring (Suc k) (c # s) = removeSubstring k s"
| "removeSubstring 0 (c # s) =
     (if take 8 (c # s) = lit ''instance'' \<and> 8 < length (c # s) \<and> \<not> line_end ((c # s) ! 8)
      then removeSubstring 8 s else c # removeSubstring 0 s)"

definition strip_instance :: "err \<Rightarrow> err option" where
  "strip_instance e =
     map_option (\<lambda>m. aset (lit ''message'') (EStr (removeSubstring 0 m)) e) (err_message e)"

text \<open>A transformer that throws leaves the whole list as it is.\<close>

definition transform_with :: "(err \<Rightarrow> err option) \<Rightarrow> err list \<Rightarrow> err list" where
  "transform_with f es = (case those (map f es) of None \<Rightarrow> es | Some es' \<Rightarrow> es')"

definition transformErrors :: "err list \<Rightarrow> err list" where
  "transformErrors es = transform_with strip_instance (transform_with Some (transform_with not_of_type es))"

section \<open>Reducers\<close>

text \<open>\<^verbatim>\<open>reject(errors, payload)\<close>: an error goes when it has all fields of the payload.\<close>

fun ev_match :: "ev \<Rightarrow> ev \<Rightarrow> bool" and is_match :: "err \<Rightarrow> err \<Rightarrow> bool" where
  "ev_match (EStr a) v = (v = EStr a)"
| "ev_match (ENum n) v = (v = ENum n)"
| "ev_match ENull v = (v = ENull)"
| "ev_match EUndef v = (v = EUndef)"
| "ev_match (EObj ob) (EObj s) = is_match ob s"
| "ev_match (EObj ob) (EStr a) = False"
| "ev_match (EObj ob) (ENum n) = False"
| "ev_match (EObj ob) ENull = False"
| "ev_match (EObj ob) EUndef = False"
| "is_match ob [] = True"
| "is_match ob ((k, v) # s) = ((case map_of ob k of None \<Rightarrow> False | Some w \<Rightarrow> ev_match w v) \<and> is_match ob s)"

definition err_line :: "err \<Rightarrow> int option" where
  "err_line e = (case map_of e (lit ''line'') of Some (ENum n) \<Rightarrow> Some n | _ \<Rightarrow> None)"

definition sort_lines :: "(err list \<Rightarrow> err list) \<Rightarrow> err list \<Rightarrow> err list" where
  "sort_lines engine es =
     (if list_all (\<lambda>e. err_line e \<noteq> None) es then sort_key (\<lambda>e. the (err_line e)) es else engine es)"

text \<open>A thrown error: the payload is assigned to the shared defaults themselves.\<close>

definition thrown :: "err \<Rightarrow> err \<Rightarrow> err" where
  "thrown d n = object_assign (object_assign d n) [(lit ''type'', EStr (lit ''thrown''))]"

fun thrown_batch :: "err \<Rightarrow> err list \<Rightarrow> err list \<times> err" where
  "thrown_batch d [] = ([], d)"
| "thrown_batch d (n # ns) =
     (let d1 = thrown d n; r = thrown_batch d1 ns in (d1 # fst r, snd r))"

definition err_reducer :: "(err list \<Rightarrow> err list) \<Rightarrow> err_store \<Rightarrow> err_action \<Rightarrow> err_store" where
  "err_reducer engine e a =
     (case a of
        NEW_THROWN_ERR n \<Rightarrow>
          (let d = thrown (err_defaults e) n in
           \<lparr>err_errors = Some (transformErrors (allErrors e @ [d])), err_defaults = d\<rparr>)
      | NEW_THROWN_ERR_BATCH ns \<Rightarrow>
          (let r = thrown_batch (err_defaults e) ns in
           \<lparr>err_errors = Some (transformErrors (allErrors e @ fst r)), err_defaults = snd r\<rparr>)
      | NEW_SPEC_ERR n \<Rightarrow>
          e\<lparr>err_errors := Some (transformErrors (sort_lines engine (allErrors e @ [aset (lit ''type'') (EStr (lit ''spec'')) n])))\<rparr>
      | NEW_AUTH_ERR n \<Rightarrow>
          e\<lparr>err_errors := Some (transformErrors (allErrors e @ [aset (lit ''type'') (EStr (lit ''auth'')) (object_assign [] n)]))\<rparr>
      | CLEAR p \<Rightarrow> e\<lparr>err_errors := Some (filter (\<lambda>x. \<not> is_match x p) (allErrors e))\<rparr>)"

definition err_run :: "(err list \<Rightarrow> err list) \<Rightarrow> err_action list \<Rightarrow> err_store" where
  "err_run engine as = fold (\<lambda>a e. err_reducer engine e a) as new_err_store"


section \<open>Lemmas\<close>

lemma lit_keys [simp]:
  "lit ''type'' \<noteq> lit ''message''" "lit ''type'' \<noteq> lit ''line''" "lit ''type'' \<noteq> lit ''level''"
  "lit ''line'' \<noteq> lit ''message''" "lit ''level'' \<noteq> lit ''message''" "lit ''line'' \<noteq> lit ''level''"
  by (simp_all add: lit_def)

lemma map_of_object_assign:
  "map_of (object_assign d n) k = (case map_of (rev n) k of None \<Rightarrow> map_of d k | Some v \<Rightarrow> Some v)"
proof (induction n arbitrary: d)
  case (Cons x n)
  then show ?case by (cases x) (auto simp: object_assign_def map_add_def split: option.splits)
qed (simp add: object_assign_def)

lemma map_of_thrown:
  "map_of (thrown d n) k =
     (if k = lit ''type'' then Some (EStr (lit ''thrown''))
      else case map_of (rev n) k of None \<Rightarrow> map_of d k | Some v \<Rightarrow> Some v)"
  by (simp add: thrown_def map_of_object_assign [of _ "[(lit ''type'', _)]"] map_of_object_assign [of d n])

text \<open>The transformers change messages only, and no error gets lost.\<close>

definition same_but_message :: "err \<Rightarrow> err \<Rightarrow> bool" where
  "same_but_message e e' \<longleftrightarrow>
     (\<forall>k. k \<noteq> lit ''message'' \<longrightarrow> map_of e' k = map_of e k) \<and>
     (map_of e' (lit ''message'') = map_of e (lit ''message'') \<or> (\<exists>s. map_of e' (lit ''message'') = Some (EStr s)))"

lemma same_but_message_refl [simp]: "same_but_message e e"
  by (simp add: same_but_message_def)

lemma same_but_message_trans: "same_but_message e e' \<Longrightarrow> same_but_message e' e'' \<Longrightarrow> same_but_message e e''"
  by (auto simp: same_but_message_def)

lemma same_but_message_aset [simp]: "same_but_message e (aset (lit ''message'') (EStr v) e)"
  by (simp add: same_but_message_def)

lemma those_list_all2:
  "those (map f xs) = Some ys \<Longrightarrow> (\<And>x y. f x = Some y \<Longrightarrow> P x y) \<Longrightarrow> list_all2 P xs ys"
  by (induction xs arbitrary: ys) (auto split: option.splits)

lemma transform_with_same:
  assumes "\<And>x y. f x = Some y \<Longrightarrow> same_but_message x y"
  shows "list_all2 same_but_message es (transform_with f es)"
  using those_list_all2 [of f es _ same_but_message] assms
  by (auto simp: transform_with_def list_all2_same split: option.splits)

lemma those_Some: "those (map Some xs) = Some xs"
  by (induction xs) simp_all

lemma transformErrors_same: "list_all2 same_but_message es (transformErrors es)"
proof -
  have "list_all2 same_but_message xs (transform_with not_of_type xs)" for xs
    by (rule transform_with_same) (auto simp: not_of_type_def split: option.splits if_splits)
  moreover have "list_all2 same_but_message xs (transform_with strip_instance xs)" for xs
    by (rule transform_with_same) (auto simp: strip_instance_def)
  moreover have "transform_with Some xs = xs" for xs :: "err list"
    by (simp add: transform_with_def those_Some)
  ultimately show ?thesis
    unfolding transformErrors_def
    by (metis list_all2_trans [of same_but_message same_but_message same_but_message] same_but_message_trans)
qed

lemma transformErrors_members:
  assumes "e \<in> set (transformErrors es)"
  obtains e0 where "e0 \<in> set es" "same_but_message e0 e"
  using assms transformErrors_same [of es] by (metis in_set_conv_nth list_all2_conv_all_nth)

lemma transformErrors_keeps:
  assumes "x \<in> set es"
  shows "\<exists>y \<in> set (transformErrors es). same_but_message x y"
proof -
  obtain i where i: "i < length es" "es ! i = x" using assms by (auto simp: in_set_conv_nth)
  have "same_but_message x (transformErrors es ! i)" "i < length (transformErrors es)"
    using list_all2_nthD [OF transformErrors_same i(1)] list_all2_lengthD [OF transformErrors_same [of es]] i by simp_all
  then show ?thesis by (meson nth_mem)
qed

lemma transformErrors_last:
  "same_but_message x (last (transformErrors (es @ [x])))" "transformErrors (es @ [x]) \<noteq> []"
proof -
  have l: "list_all2 same_but_message (es @ [x]) (transformErrors (es @ [x]))" by (rule transformErrors_same)
  then show "transformErrors (es @ [x]) \<noteq> []" by auto
  from l show "same_but_message x (last (transformErrors (es @ [x])))"
    by (auto simp: list_all2_append1 list_all2_Cons1)
qed


section \<open>Messages\<close>

lemma type_steps_tail:
  assumes "ts = pre @ r" "r \<noteq> []" "length ts \<ge> 3" "[] \<notin> set ts" "pre \<noteq> []"
  shows "type_steps ts (length pre) r = concat (map (\<lambda>t. t @ lit '', '') (butlast r)) @ lit ''or '' @ last r"
  using assms
proof (induction r arbitrary: pre)
  case (Cons t r)
  show ?case
  proof (cases r)
    case Nil
    then show ?thesis using Cons.prems by (auto simp: type_step_def Let_def Suc_le_eq)
  next
    case (Cons u r')
    have n: "ts ! Suc (length pre) = u" using Cons.prems(1) Cons by (simp add: nth_append)
    have "type_steps ts (length (pre @ [t])) r =
        concat (map (\<lambda>t. t @ lit '', '') (butlast r)) @ lit ''or '' @ last r"
      by (rule Cons.IH) (use Cons.prems Cons in auto)
    then show ?thesis using Cons Cons.prems n by (auto simp: type_step_def Let_def)
  qed
qed simp

lemma three_types_are_listed:
  assumes "length ts \<ge> 3" "[] \<notin> set ts"
  shows "makeNewMessage ts =
           lit ''should be a'' @ concat (map (\<lambda>t. t @ lit '', '') (butlast ts)) @ lit ''or '' @ last ts"
proof -
  obtain t u r where ts: "ts = t # u # r" using assms(1) by (cases ts; cases "tl ts") auto
  have "type_steps ts (length [t]) (u # r) =
      concat (map (\<lambda>t. t @ lit '', '') (butlast (u # r))) @ lit ''or '' @ last (u # r)"
    by (rule type_steps_tail) (use assms ts in auto)
  then show ?thesis using assms ts by (auto simp: makeNewMessage_def type_step_def Let_def)
qed

text \<open>The dot of the expression is not escaped, so that the plural of the word disappears, too.\<close>

lemma plural_instances_are_cut: "removeSubstring 0 (lit ''instances'' @ s) = removeSubstring 0 s"
  by (simp add: lit_def line_end_def eval_nat_numeral)

section \<open>Types of the stored errors\<close>

text \<open>
  The type of an error, and for a thrown one where its fields come from: \<open>G k\<close> are the values that the field \<open>k\<close> may have;
  the transformers write texts into the message.
\<close>

definition typed_error :: "(js \<Rightarrow> ev set) \<Rightarrow> err \<Rightarrow> bool" where
  "typed_error G e \<longleftrightarrow>
     map_of e (lit ''type'') \<in> {Some (EStr (lit ''spec'')), Some (EStr (lit ''auth''))} \<or>
     map_of e (lit ''type'') = Some (EStr (lit ''thrown'')) \<and>
     (\<forall>k \<in> {lit ''line'', lit ''level''}. map_of e k \<in> Some ` G k) \<and>
     map_of e (lit ''message'') \<in> Some ` (G (lit ''message'') \<union> range EStr)"

definition thrown_payloads :: "err_action \<Rightarrow> err list" where
  "thrown_payloads a = (case a of NEW_THROWN_ERR n \<Rightarrow> [n] | NEW_THROWN_ERR_BATCH ns \<Rightarrow> ns | _ \<Rightarrow> [])"

text \<open>The default of a field and the values that thrown errors gave it.\<close>

definition values_given :: "err_action list \<Rightarrow> js \<Rightarrow> ev set" where
  "values_given as k = {v. (k, v) \<in> set (err_defaults0 @ concat (concat (map thrown_payloads as)))}"

definition within :: "(js \<Rightarrow> ev set) \<Rightarrow> err \<Rightarrow> bool" where
  "within G n \<longleftrightarrow> (\<forall>(k, v) \<in> set n. v \<in> G k)"

definition full_defaults :: "(js \<Rightarrow> ev set) \<Rightarrow> err \<Rightarrow> bool" where
  "full_defaults G d \<longleftrightarrow> (\<forall>k \<in> {lit ''line'', lit ''level'', lit ''message''}. map_of d k \<in> Some ` G k)"

lemma typed_same: "typed_error G e \<Longrightarrow> same_but_message e e' \<Longrightarrow> typed_error G e'"
  by (auto simp: typed_error_def same_but_message_def)

lemma thrown_typed:
  assumes "full_defaults G d" "within G n"
  shows "typed_error G (thrown d n) \<and> full_defaults G (thrown d n)"
proof -
  have v: "v \<in> G k" if "map_of (rev n) k = Some v" for k v
    using assms(2) map_of_SomeD [OF that] by (auto simp: within_def)
  have k: "map_of (thrown d n) k \<in> Some ` G k" if "map_of d k \<in> Some ` G k" "k \<noteq> lit ''type''" for k
    using that v [of k] by (cases "map_of (rev n) k") (simp_all add: map_of_thrown)
  have "full_defaults G (thrown d n)"
    unfolding full_defaults_def
  proof
    fix q assume q: "q \<in> {lit ''line'', lit ''level'', lit ''message''}"
    have "q \<noteq> lit ''type''" using q by (auto simp: lit_def)
    then show "map_of (thrown d n) q \<in> Some ` G q" using k assms(1) q unfolding full_defaults_def by blast
  qed
  moreover have "map_of (thrown d n) (lit ''type'') = Some (EStr (lit ''thrown''))" by (simp add: map_of_thrown)
  ultimately show ?thesis unfolding typed_error_def full_defaults_def by blast
qed

lemma thrown_batch_typed:
  "full_defaults G d \<Longrightarrow> \<forall>n \<in> set ns. within G n \<Longrightarrow>
   (\<forall>e \<in> set (fst (thrown_batch d ns)). typed_error G e) \<and> full_defaults G (snd (thrown_batch d ns))"
proof (induction ns arbitrary: d)
  case (Cons n ns)
  then show ?case using thrown_typed [of G d n] Cons.IH [of "thrown d n"] by (simp add: Let_def)
qed simp

lemma transformErrors_typed:
  "(\<And>e. e \<in> set es \<Longrightarrow> typed_error G e) \<Longrightarrow> e \<in> set (transformErrors es) \<Longrightarrow> typed_error G e"
  by (rule transformErrors_members [of e es]) (auto intro: typed_same)

lemma sort_lines_set: "(\<And>es. set (engine es) \<subseteq> set es) \<Longrightarrow> e \<in> set (sort_lines engine es) \<Longrightarrow> e \<in> set es"
  by (auto simp: sort_lines_def split: if_splits)

definition err_inv :: "(js \<Rightarrow> ev set) \<Rightarrow> err_store \<Rightarrow> bool" where
  "err_inv G e \<longleftrightarrow> (\<forall>x \<in> set (allErrors e). typed_error G x) \<and> full_defaults G (err_defaults e)"

lemma allErrors_simps [simp]:
  "allErrors \<lparr>err_errors = Some es, err_defaults = d\<rparr> = es" "allErrors (e\<lparr>err_errors := Some es\<rparr>) = es"
  by (simp_all add: allErrors_def)

lemma err_inv_reducer:
  assumes "\<And>es. set (engine es) \<subseteq> set es" "err_inv G e" "\<forall>n \<in> set (thrown_payloads a). within G n"
  shows "err_inv G (err_reducer engine e a)"
proof (cases a)
  case (NEW_THROWN_ERR n)
  then show ?thesis using assms(2,3) thrown_typed [of G "err_defaults e" n]
    by (auto simp: err_reducer_def err_inv_def thrown_payloads_def Let_def elim!: transformErrors_typed [rotated])
next
  case (NEW_THROWN_ERR_BATCH ns)
  then show ?thesis using assms(2,3) thrown_batch_typed [of G "err_defaults e" ns]
    by (auto simp: err_reducer_def err_inv_def thrown_payloads_def Let_def elim!: transformErrors_typed [rotated])
next
  case (NEW_SPEC_ERR n)
  have t: "typed_error G (aset (lit ''type'') (EStr (lit ''spec'')) n)" by (simp add: typed_error_def)
  show ?thesis using assms(2) t NEW_SPEC_ERR sort_lines_set [of engine, OF assms(1)]
    by (fastforce simp: err_reducer_def err_inv_def elim!: transformErrors_typed [rotated])
next
  case (NEW_AUTH_ERR n)
  have t: "typed_error G (aset (lit ''type'') (EStr (lit ''auth'')) (object_assign [] n))" by (simp add: typed_error_def)
  show ?thesis using assms(2) t NEW_AUTH_ERR
    by (auto simp: err_reducer_def err_inv_def elim!: transformErrors_typed [rotated])
next
  case (CLEAR p)
  then show ?thesis using assms(2) by (auto simp: err_reducer_def err_inv_def)
qed

lemma is_match_auth: "is_match e [(lit ''type'', EStr (lit ''auth''))] \<longleftrightarrow> map_of e (lit ''type'') = Some (EStr (lit ''auth''))"
proof (cases "map_of e (lit ''type'')")
  case (Some v)
  then show ?thesis by (cases v) auto
qed simp

lemma err_run_append: "err_run engine (as @ [a]) = err_reducer engine (err_run engine as) a"
  by (simp add: err_run_def)

lemma err_run_inv:
  assumes "\<And>es. set (engine es) \<subseteq> set es" "within G err_defaults0"
  shows "\<forall>a \<in> set as. \<forall>n \<in> set (thrown_payloads a). within G n \<Longrightarrow> err_inv G (err_run engine as)"
proof (induction as rule: rev_induct)
  case Nil
  show ?case using assms(2)
    by (simp add: err_run_def err_inv_def new_err_store_def allErrors_def full_defaults_def err_defaults0_def within_def)
next
  case (snoc a as)
  then show ?case by (simp add: err_run_append err_inv_reducer assms(1))
qed

text \<open>C35: Whatever actions the error plugin has handled, every error it shows is of type spec, auth or thrown. A thrown one has
  the fields line, level and message: its line and level are the defaults or values that some thrown error gave, and so is its
  message, unless it is a text that a transformer wrote. So a line is missing (\<open>null\<close>) only where a thrown error gave \<open>null\<close> as its line.
\<close>

theorem errors_are_typed:
  assumes "\<And>es. set (engine es) \<subseteq> set es"
  shows "list_all (typed_error (values_given as)) (allErrors (err_run engine as))"
proof -
  have "within (values_given as) err_defaults0" "\<forall>a \<in> set as. \<forall>n \<in> set (thrown_payloads a). within (values_given as) n"
    by (auto simp: within_def values_given_def)
  then show ?thesis using err_run_inv [OF assms, of "values_given as" as] by (simp add: err_inv_def list_all_iff)
qed

theorem errors_are_typed_witness:
  "list_all (\<lambda>e. map_of e (lit ''type'') = Some (EStr (lit ''spec'')) \<or> map_of e (lit ''line'') \<in> {Some (ENum 0), Some (ENum 4)})
     (allErrors (err_run (\<lambda>es. es) [NEW_THROWN_ERR [], NEW_SPEC_ERR [(lit ''line'', ENum 3)], NEW_THROWN_ERR [(lit ''line'', ENum 4)],
        CLEAR [(lit ''type'', EStr (lit ''auth''))]]))"
proof -
  let ?as = "[NEW_THROWN_ERR [], NEW_SPEC_ERR [(lit ''line'', ENum 3)], NEW_THROWN_ERR [(lit ''line'', ENum 4)],
    CLEAR [(lit ''type'', EStr (lit ''auth''))]]"
  have "list_all (typed_error (values_given ?as)) (allErrors (err_run (\<lambda>es. es) ?as))" by (rule errors_are_typed) simp
  moreover have "values_given ?as (lit ''line'') = {ENum 0, ENum 4}"
    by (auto simp: values_given_def err_defaults0_def thrown_payloads_def)
  moreover have "map_of e (lit ''type'') \<noteq> Some (EStr (lit ''auth''))" if "e \<in> set (allErrors (err_run (\<lambda>es. es) ?as))" for e
    using that by (auto simp: err_run_def err_reducer_def is_match_auth)
  ultimately show ?thesis by (auto simp: list_all_iff typed_error_def)
qed

text \<open>
  The resolver of the specification sends errors whose line is not known with \<^verbatim>\<open>line: null\<close>, which replaces the default, also
  for a later error that names no line.
\<close>

lemma null_line_replaces_default:
  "map (\<lambda>e. map_of e (lit ''line''))
     (allErrors (err_run (\<lambda>es. es) [NEW_THROWN_ERR_BATCH [[(lit ''line'', ENull), (lit ''message'', EStr (lit ''lost''))]], NEW_THROWN_ERR []])) =
   [Some ENull, Some ENull]"
  by code_simp

section \<open>Fields of earlier errors\<close>

definition is_thrown_action :: "err_action \<Rightarrow> bool" where
  "is_thrown_action a = (case a of NEW_THROWN_ERR _ \<Rightarrow> True | NEW_THROWN_ERR_BATCH _ \<Rightarrow> True | _ \<Rightarrow> False)"

lemma defaults_kept: "\<not> is_thrown_action a \<Longrightarrow> err_defaults (err_reducer engine e a) = err_defaults e"
  by (cases a) (simp_all add: err_reducer_def is_thrown_action_def)

lemma defaults_kept_run:
  "list_all (\<lambda>a. \<not> is_thrown_action a) bs \<Longrightarrow> err_defaults (err_run engine (as @ bs)) = err_defaults (err_run engine as)"
proof (induction bs rule: rev_induct)
  case (snoc b bs)
  then show ?case by (simp add: err_run_append defaults_kept append_assoc [symmetric] del: append_assoc)
qed simp

lemma defaults_after_thrown:
  "err_defaults (err_run engine (as @ [NEW_THROWN_ERR n])) = thrown (err_defaults (err_run engine as)) n"
  by (simp add: err_run_append err_reducer_def Let_def)

lemma last_thrown:
  "\<exists>x. lastError (err_run engine (as @ [NEW_THROWN_ERR n])) = Some x \<and>
       same_but_message (thrown (err_defaults (err_run engine as)) n) x"
  using transformErrors_last [where x = "thrown (err_defaults (err_run engine as)) n" and es = "allErrors (err_run engine as)"]
  by (simp add: err_run_append err_reducer_def Let_def lastError_def)

text \<open>A thrown error that names no line, or no other field, does not get the default: it shows the
  field of the thrown error before it, whatever was shown or cleared in between, since the reducer
  assigns every payload to the shared defaults.
\<close>

theorem thrown_errors_inherit_fields:
  assumes "map_of (rev n) k = Some v" "k \<notin> fst ` set m" "k \<noteq> lit ''type''" "k \<noteq> lit ''message''"
    "list_all (\<lambda>b. \<not> is_thrown_action b) bs"
  shows "\<exists>x. lastError (err_run engine (as @ [NEW_THROWN_ERR n] @ bs @ [NEW_THROWN_ERR m])) = Some x \<and>
             map_of x k = Some v"
proof -
  let ?as = "(as @ [NEW_THROWN_ERR n]) @ bs"
  have d: "map_of (err_defaults (err_run engine ?as)) k = Some v"
    using assms by (simp add: defaults_kept_run defaults_after_thrown map_of_thrown del: append_assoc)
  have "map_of (rev m) k = None" using assms(2) by (simp add: map_of_eq_None_iff)
  then show ?thesis
    using last_thrown [of engine ?as m] d assms(3,4) by (auto simp: same_but_message_def map_of_thrown)
qed

theorem thrown_errors_inherit_fields_witness:
  "\<exists>x. lastError (err_run (\<lambda>es. es)
           ([] @ [NEW_THROWN_ERR [(lit ''line'', ENum 7)]] @ [CLEAR []] @ [NEW_THROWN_ERR [(lit ''message'', EStr (lit ''no server''))]])) = Some x \<and>
       map_of x (lit ''line'') = Some (ENum 7)"
  by (rule thrown_errors_inherit_fields) (simp_all add: is_thrown_action_def lit_def)

end
