(* ===== verification/Script_Uri.thy ===== *)
theory Script_Uri
  imports Script_Codecs
begin

text \<open>
  \<^verbatim>\<open>encodeURIComponent\<close> and \<^verbatim>\<open>decodeURIComponent\<close> of the language, on texts of UTF-16 code units;
  both throw for what is not well formed. The code points of a text are those of \<^const>\<open>ucs2decode\<close>.
\<close>

definition unreserved :: "nat \<Rightarrow> bool" where
  "unreserved c \<longleftrightarrow>
     48 \<le> c \<and> c \<le> 57 \<or> 65 \<le> c \<and> c \<le> 90 \<or> 97 \<le> c \<and> c \<le> 122 \<or> c \<in> set (lit ''-_.!~*'') \<or> c \<in> {39, 40, 41}"

definition utf8 :: "nat \<Rightarrow> nat list" where
  "utf8 p =
     (if p < 128 then [p]
      else if p < 2048 then [192 + p div 64, 128 + p mod 64]
      else if p < 65536 then [224 + p div 4096, 128 + p div 64 mod 64, 128 + p mod 64]
      else [240 + p div 262144, 128 + p div 4096 mod 64, 128 + p div 64 mod 64, 128 + p mod 64])"

definition hex_char :: "nat \<Rightarrow> nat" where
  "hex_char d = (if d < 10 then 48 + d else 55 + d)"

definition percent :: "nat \<Rightarrow> js" where
  "percent b = [37, hex_char (b div 16), hex_char (b mod 16)]"

definition is_surrogate :: "nat \<Rightarrow> bool" where
  "is_surrogate p \<longleftrightarrow> 55296 \<le> p \<and> p \<le> 57343"

fun encode_points :: "nat list \<Rightarrow> js option" where
  "encode_points [] = Some []"
| "encode_points (p # ps) =
     (if unreserved p then map_option ((#) p) (encode_points ps)
      else if is_surrogate p then None
      else map_option ((@) (concat (map percent (utf8 p)))) (encode_points ps))"

definition encodeURIComponent :: "js \<Rightarrow> js option" where
  "encodeURIComponent s = encode_points (ucs2decode s)"

section \<open>Reading\<close>

definition uri_hex :: "nat \<Rightarrow> nat option" where
  "uri_hex c =
     (if 48 \<le> c \<and> c \<le> 57 then Some (c - 48)
      else if 65 \<le> c \<and> c \<le> 70 then Some (c - 55)
      else if 97 \<le> c \<and> c \<le> 102 then Some (c - 87)
      else None)"

fun read_byte :: "js \<Rightarrow> (nat \<times> js) option" where
  "read_byte (c # a # b # r) =
     (case (uri_hex a, uri_hex b) of
        (Some x, Some y) \<Rightarrow> (if c = 37 then Some (16 * x + y, r) else None)
      | _ \<Rightarrow> None)"
| "read_byte _ = None"

fun read_rest :: "nat \<Rightarrow> nat \<Rightarrow> js \<Rightarrow> (nat \<times> js) option" where
  "read_rest 0 v s = Some (v, s)"
| "read_rest (Suc k) v s =
     (case read_byte s of
        None \<Rightarrow> None
      | Some (b, r) \<Rightarrow> (if 128 \<le> b \<and> b < 192 then read_rest k (64 * v + (b - 128)) r else None))"

definition read_point :: "js \<Rightarrow> (nat \<times> js) option" where
  "read_point s =
     (case read_byte s of
        None \<Rightarrow> None
      | Some (b, r) \<Rightarrow>
          (if b < 128 then Some (b, r)
           else let k = (if 192 \<le> b \<and> b < 224 then 1 else if 224 \<le> b \<and> b < 240 then 2
                         else if 240 \<le> b \<and> b < 248 then 3 else 0);
                    v = (if k = 1 then b - 192 else if k = 2 then b - 224 else b - 240);
                    low = (if k = 1 then 128 else if k = 2 then 2048 else 65536)
                in if k = 0 then None
                   else case read_rest k v r of
                          None \<Rightarrow> None
                        | Some (p, t) \<Rightarrow>
                            (if low \<le> p \<and> p \<le> 1114111 \<and> \<not> is_surrogate p then Some (p, t) else None)))"

lemma read_byte_shorter: "read_byte s = Some (b, r) \<Longrightarrow> length r < length s"
  by (cases s rule: read_byte.cases) (auto split: option.splits if_splits)

lemma read_rest_shorter: "read_rest k v s = Some (p, r) \<Longrightarrow> length r \<le> length s"
proof (induction k v s rule: read_rest.induct)
  case (2 k v s)
  then obtain b t where b: "read_byte s = Some (b, t)" by (cases "read_byte s") auto
  have "length r \<le> length t" using 2 b by (auto split: if_splits)
  then show ?case using read_byte_shorter [OF b] by simp
qed simp

lemma read_point_shorter:
  assumes "read_point s = Some (p, r)"
  shows "length r < length s"
proof -
  obtain b t where b: "read_byte s = Some (b, t)" using assms by (cases "read_byte s") (auto simp: read_point_def)
  have "r = t \<or> (\<exists>k v q. read_rest k v t = Some (q, r))"
    using assms unfolding read_point_def b by (auto simp: Let_def simp del: read_rest.simps split: if_splits option.splits)
  then show ?thesis using read_byte_shorter [OF b] read_rest_shorter [of _ _ t _ r] by fastforce
qed

function decodeURIComponent :: "js \<Rightarrow> js option" where
  "decodeURIComponent [] = Some []"
| "decodeURIComponent (c # r) =
     (if c \<noteq> 37 then map_option ((#) c) (decodeURIComponent r)
      else case read_point (c # r) of
             None \<Rightarrow> None
           | Some (p, t) \<Rightarrow> map_option ((@) (ucs2encode_one p)) (decodeURIComponent t))"
  by pat_completeness auto
termination
  by (relation "measure length") (auto dest!: read_point_shorter)

section \<open>What is written is read back\<close>

lemma read_byte_percent: "b < 256 \<Longrightarrow> read_byte (percent b @ r) = Some (b, r)"
proof -
  assume b: "b < 256"
  have h: "d < 16 \<Longrightarrow> uri_hex (hex_char d) = Some d" for d by (auto simp: uri_hex_def hex_char_def)
  have "b div 16 < 16" "b mod 16 < 16" using b by auto
  then show ?thesis by (simp add: percent_def h)
qed

lemma sixty_four:
  "64 * (64 * (p div 4096) + p div 64 mod 64) + p mod 64 = (p :: nat)"
  "64 * (64 * (64 * (p div 262144) + p div 4096 mod 64) + p div 64 mod 64) + p mod 64 = p"
proof -
  have q: "p div 262144 = p div 64 div 64 div 64" "p div 4096 = p div 64 div 64"
    by (simp_all add: div_mult2_eq [symmetric])
  show "64 * (64 * (p div 4096) + p div 64 mod 64) + p mod 64 = p" unfolding q by simp
  show "64 * (64 * (64 * (p div 262144) + p div 4096 mod 64) + p div 64 mod 64) + p mod 64 = p" unfolding q by simp
qed

lemma read_point_utf8:
  assumes "p \<le> 1114111" "\<not> is_surrogate p"
  shows "read_point (concat (map percent (utf8 p)) @ r) = Some (p, r)"
proof -
  have m: "x mod 64 < 64" "128 + x mod 64 < 256" for x :: nat
    using mod_less_divisor [of 64 x] by linarith+
  consider "p < 128" | "128 \<le> p" "p < 2048" | "2048 \<le> p" "p < 65536" | "65536 \<le> p" by linarith
  then show ?thesis
  proof cases
    case 1
    then show ?thesis by (simp add: utf8_def read_point_def read_byte_percent)
  next
    case 2
    have u: "utf8 p = [192 + p div 64, 128 + p mod 64]" using 2 by (simp add: utf8_def)
    have "p div 64 < 32" using 2 by auto
    moreover have "64 * (p div 64) + p mod 64 = p" by simp
    ultimately show ?thesis using 2(1) assms m [of p] by (simp add: u read_point_def read_byte_percent)
  next
    case 3
    have u: "utf8 p = [224 + p div 4096, 128 + p div 64 mod 64, 128 + p mod 64]" using 3 by (simp add: utf8_def)
    have "p div 4096 < 16" using 3 by auto
    moreover have "64 * (64 * (p div 4096) + p div 64 mod 64) + p mod 64 = p" by (rule sixty_four(1))
    ultimately show ?thesis using 3(1) assms m [of p] m [of "p div 64"]
      by (simp only: u read_point_def list.map concat.simps append.simps append_assoc read_byte_percent)
         (simp add: read_byte_percent numeral_2_eq_2)
  next
    case 4
    have u: "utf8 p = [240 + p div 262144, 128 + p div 4096 mod 64, 128 + p div 64 mod 64, 128 + p mod 64]"
      using 4 by (simp add: utf8_def)
    have "p div 262144 < 8" using assms by auto
    moreover have "64 * (64 * (64 * (p div 262144) + p div 4096 mod 64) + p div 64 mod 64) + p mod 64 = p"
      by (rule sixty_four(2))
    ultimately show ?thesis using 4 assms m [of p] m [of "p div 64"] m [of "p div 4096"]
      by (simp add: u read_point_def read_byte_percent numeral_3_eq_3)
  qed
qed

lemma unreserved_plain: "unreserved p \<Longrightarrow> p \<noteq> 37 \<and> p < 65536"
  by (auto simp: unreserved_def lit_def)

lemma utf8_starts: "\<exists>t. concat (map percent (utf8 p)) = 37 # t"
  by (auto simp: utf8_def percent_def)

lemma decode_points:
  "encode_points ps = Some t \<Longrightarrow> \<forall>p \<in> set ps. p \<le> 1114111 \<Longrightarrow> decodeURIComponent t = Some (ucs2encode ps)"
proof (induction ps arbitrary: t)
  case (Cons p ps)
  show ?case
  proof (cases "unreserved p")
    case True
    then show ?thesis using Cons unreserved_plain [OF True] encode_unit(1) [of p]
      by (auto simp: ucs2encode_def)
  next
    case False
    then obtain u where u: "encode_points ps = Some u" "\<not> is_surrogate p" "t = concat (map percent (utf8 p)) @ u"
      using Cons.prems by (auto split: if_splits)
    obtain t' where t': "t = 37 # t'" using utf8_starts [of p] u(3) by auto
    have "read_point t = Some (p, u)" using read_point_utf8 [of p u] u Cons.prems by simp
    then have "decodeURIComponent t = map_option ((@) (ucs2encode_one p)) (decodeURIComponent u)"
      unfolding t' by (simp only: decodeURIComponent.simps) simp
    then show ?thesis using Cons.IH [OF u(1)] Cons.prems(2) by (simp add: ucs2encode_def)
  qed
qed (simp add: ucs2encode_def)

lemma pair_point_range: "push_bit 10 (t mod 1024) + n mod 1024 + 65536 \<le> (1114111 :: nat)"
proof -
  have "t mod 1024 < 1024" "n mod 1024 < 1024" by simp_all
  then show ?thesis by (simp add: push_bit_eq_mult)
qed

lemma ucs2decode_range: "\<forall>u \<in> set s. u < 65536 \<Longrightarrow> p \<in> set (ucs2decode s) \<Longrightarrow> p \<le> 1114111"
proof (induction s rule: ucs2decode.induct)
  case (3 t n e)
  have "p = push_bit 10 (t mod 1024) + n mod 1024 + 65536 \<Longrightarrow> p \<le> 1114111"
    by (simp only: pair_point_range)
  moreover have "t < 65536" using 3 by simp
  ultimately show ?case using 3 by (auto simp only: ucs2decode.simps and_masks list.set split: if_splits)
qed auto

lemma encodeURIComponent_read_back:
  assumes "encodeURIComponent s = Some t" "\<forall>u \<in> set s. u < 65536"
  shows "decodeURIComponent t = Some s"
proof -
  have "ucs2encode (ucs2decode s) = s" using ucs2_round_trip [of s] assms(2) by (simp add: list_all_iff)
  moreover have "\<forall>p \<in> set (ucs2decode s). p \<le> 1114111" using ucs2decode_range [OF assms(2)] by blast
  ultimately show ?thesis using decode_points [of "ucs2decode s" t] assms(1) by (simp add: encodeURIComponent_def)
qed

lemma hex_char_unreserved: "x < 16 \<Longrightarrow> unreserved (hex_char x)"
  unfolding hex_char_def unreserved_def by (cases "x < 10") auto

lemma percent_chars: "b < 256 \<Longrightarrow> c \<in> set (percent b) \<Longrightarrow> unreserved c \<or> c = 37"
proof -
  assume b: "b < 256" "c \<in> set (percent b)"
  have "b div 16 < 16" "b mod 16 < 16" using b(1) by auto
  then have "unreserved (hex_char (b div 16))" "unreserved (hex_char (b mod 16))" by (simp_all add: hex_char_unreserved)
  then show ?thesis using b(2) unfolding percent_def by (simp only: list.set) blast
qed

lemma utf8_bytes: "p \<le> 1114111 \<Longrightarrow> b \<in> set (utf8 p) \<Longrightarrow> b < 256"
proof -
  assume p: "p \<le> 1114111" "b \<in> set (utf8 p)"
  have m: "128 + x mod 64 < 256" for x :: nat using mod_less_divisor [of 64 x] by linarith
  have "p < 128 \<Longrightarrow> p < 256" "p < 2048 \<Longrightarrow> 192 + p div 64 < 256" "p < 65536 \<Longrightarrow> 224 + p div 4096 < 256"
    "240 + p div 262144 < 256" using p(1) by auto
  then show ?thesis using p(2) m by (auto simp only: utf8_def list.set split: if_splits)
qed

lemma utf8_percent_chars:
  assumes "p \<le> 1114111" "c \<in> set (concat (map percent (utf8 p)))"
  shows "unreserved c \<or> c = 37"
proof -
  obtain b where "b \<in> set (utf8 p)" "c \<in> set (percent b)" using assms(2) by (simp only: set_concat set_map UN_iff) blast
  then show ?thesis using percent_chars utf8_bytes [OF assms(1)] by blast
qed

lemma encode_points_chars:
  "encode_points ps = Some t \<Longrightarrow> \<forall>p \<in> set ps. p \<le> 1114111 \<Longrightarrow> c \<in> set t \<Longrightarrow> unreserved c \<or> c = 37"
proof (induction ps arbitrary: t)
  case (Cons p ps)
  then show ?case using utf8_percent_chars [of p c] by (auto split: if_splits simp del: set_concat)
qed simp

lemma encodeURIComponent_chars:
  "encodeURIComponent s = Some t \<Longrightarrow> \<forall>u \<in> set s. u < 65536 \<Longrightarrow> c \<in> set t \<Longrightarrow> unreserved c \<or> c = 37"
  unfolding encodeURIComponent_def by (rule encode_points_chars) (auto dest: ucs2decode_range)

end
