(* ===== verification/Script_Oauth.thy ===== *)
theory Script_Oauth
  imports Script_Uri Script_Errors
begin

text \<open>
  The form of the Swagger UI by which a user signs in with OAuth 2: its handlers, the request that
  it opens in a new window, the callback of that window, and the errors these leave on the page. The
  form keeps the texts of its inputs by name. \<^verbatim>\<open>btoa\<close>, the current date as a text, \<^verbatim>\<open>window.name\<close> and the JSON text
  of a token are arguments.
\<close>

record oauth_schema =
  o_flow :: "js option"
  o_url :: "js option"

record oauth_form =
  f_name :: js
  f_schema :: oauth_schema
  f_scopes :: "js list"
  f_fields :: "(js \<times> js) list"

record oauth_configs =
  g_scopeSeparator :: "js option"
  g_realm :: "js option"
  g_query :: "(js \<times> js option) list"

datatype oauth_callback = PreAuthorizeImplicit | AuthorizeAccessCode

record oauth_pending =
  w_auth :: oauth_form
  w_state :: js
  w_redirect :: js
  w_callback :: oauth_callback

datatype oauth_effect =
    AuthorizePassword oauth_form
  | AuthorizeApplication oauth_form
  | OauthErr err
  | OpenUrl js oauth_pending
  | URIError

section \<open>The form\<close>

definition onScopeChange :: "bool \<Rightarrow> js \<Rightarrow> oauth_form \<Rightarrow> oauth_form" where
  "onScopeChange checked v e =
     (if checked \<and> js_indexOf (f_scopes e) v = -1 then e\<lparr>f_scopes := f_scopes e @ [v]\<rparr>
      else if \<not> checked \<and> js_indexOf (f_scopes e) v > -1 then e\<lparr>f_scopes := filter (\<lambda>x. x \<noteq> v) (f_scopes e)\<rparr>
      else e)"

definition oauth_onInputChange :: "js \<Rightarrow> js \<Rightarrow> oauth_form \<Rightarrow> oauth_form" where
  "oauth_onInputChange name v e = e\<lparr>f_fields := aset name v (f_fields e)\<rparr>"

section \<open>The request\<close>

definition param_of :: "js \<Rightarrow> js option \<Rightarrow> js list option" where
  "param_of k v = (case v of None \<Rightarrow> Some [] | Some x \<Rightarrow> map_option (\<lambda>t. [k @ lit ''='' @ t]) (encodeURIComponent x))"

fun extra_params :: "(js \<times> js option) list \<Rightarrow> js list option" where
  "extra_params [] = Some []"
| "extra_params ((k, None) # g) = extra_params g"
| "extra_params ((k, Some v) # g) =
     (case (encodeURIComponent k, encodeURIComponent v) of
        (Some k', Some v') \<Rightarrow> map_option ((#) (js_join (lit ''='') [k', v'])) (extra_params g)
      | _ \<Rightarrow> None)"

definition response_type :: "oauth_form \<Rightarrow> js list" where
  "response_type e =
     (if o_flow (f_schema e) = Some (lit ''accessCode'') then [lit ''response_type=code'']
      else if o_flow (f_schema e) = Some (lit ''implicit'') then [lit ''response_type=token''] else [])"

definition scope_text :: "oauth_configs \<Rightarrow> oauth_form \<Rightarrow> js option" where
  "scope_text g e =
     (if f_scopes e = [] then None
      else Some (js_join (case g_scopeSeparator g of None \<Rightarrow> lit '' '' | Some s \<Rightarrow> if s = [] then lit '' '' else s) (f_scopes e)))"

definition redirect_missing :: "oauth_form \<Rightarrow> err" where
  "redirect_missing e =
     [(lit ''authId'', EStr (f_name e)), (lit ''source'', EStr (lit ''validation'')), (lit ''level'', EStr (lit ''error'')),
      (lit ''message'', EStr (lit ''oauth2RedirectUri configuration is not passed. Oauth2 authorization cannot be performed.''))]"

text \<open>The parameters after the client, in their order; \<^const>\<open>None\<close> where one of them cannot be encoded.\<close>

definition later_params :: "js \<Rightarrow> js \<Rightarrow> oauth_configs \<Rightarrow> oauth_form \<Rightarrow> js list option" where
  "later_params st m g e =
     Option.bind (param_of (lit ''redirect_uri'') (Some m)) (\<lambda>a.
     Option.bind (param_of (lit ''scope'') (scope_text g e)) (\<lambda>b.
     Option.bind (param_of (lit ''state'') (Some st)) (\<lambda>c.
     Option.bind (param_of (lit ''realm'') (g_realm g)) (\<lambda>d.
     map_option (\<lambda>x. a @ b @ c @ d @ x) (extra_params (g_query g))))))"

definition oauth2_authorize :: "(js \<Rightarrow> js) \<Rightarrow> js \<Rightarrow> js option \<Rightarrow> oauth_configs \<Rightarrow> oauth_form \<Rightarrow> oauth_effect" where
  "oauth2_authorize btoa date redirect g e =
     (let h = o_flow (f_schema e) in
      if h = Some (lit ''password'') then AuthorizePassword e
      else if h = Some (lit ''application'') then AuthorizeApplication e
      else case param_of (lit ''client_id'') (map_of (f_fields e) (lit ''clientId'')) of
        None \<Rightarrow> URIError
      | Some d \<Rightarrow>
          (case redirect of
             None \<Rightarrow> OauthErr (redirect_missing e)
           | Some m \<Rightarrow>
               (let v = btoa date in
                case later_params v m g e of
                  None \<Rightarrow> URIError
                | Some d' \<Rightarrow>
                    OpenUrl (js_join (lit ''?'')
                               [case o_url (f_schema e) of None \<Rightarrow> [] | Some u \<Rightarrow> u, js_join (lit ''&'') (response_type e @ d @ d')])
                      \<lparr>w_auth = e, w_state = v, w_redirect = m,
                       w_callback = (if h = Some (lit ''implicit'') then PreAuthorizeImplicit else AuthorizeAccessCode)\<rparr>)))"

section \<open>The handlers and the errors of the page\<close>

definition auth_errors :: "js \<Rightarrow> err" where
  "auth_errors name =
     [(lit ''authId'', EStr name), (lit ''type'', EStr (lit ''auth'')), (lit ''source'', EStr (lit ''auth''))]"

text \<open>The handler clears the errors of \<^verbatim>\<open>name\<close>, which is no variable of the component but that of the window.\<close>

definition oauth_press :: "(err list \<Rightarrow> err list) \<Rightarrow> js \<Rightarrow> (js \<Rightarrow> js) \<Rightarrow> js \<Rightarrow> js option \<Rightarrow> oauth_configs \<Rightarrow> oauth_form \<Rightarrow> err_store \<Rightarrow> oauth_effect \<times> err_store" where
  "oauth_press engine window_name btoa date redirect g e s =
     (let s1 = err_reducer engine s (CLEAR (auth_errors window_name)); x = oauth2_authorize btoa date redirect g e
      in (x, case x of OauthErr n \<Rightarrow> err_reducer engine s1 (NEW_AUTH_ERR n) | _ \<Rightarrow> s1))"

definition oauth_logout :: "(err list \<Rightarrow> err list) \<Rightarrow> oauth_form \<Rightarrow> err_store \<Rightarrow> js list \<times> err_store" where
  "oauth_logout engine e s = ([f_name e], err_reducer engine s (CLEAR (auth_errors (f_name e))))"

text \<open>
  The callback: the pending request of the window is deleted, a warning given when the state was changed, and the token
  refused, when it has an error, or passed on.
\<close>

definition unsafe_warning :: "js \<Rightarrow> err" where
  "unsafe_warning name =
     [(lit ''authId'', EStr name), (lit ''source'', EStr (lit ''auth'')), (lit ''level'', EStr (lit ''warning'')),
      (lit ''message'', EStr (lit ''Authorization may be unsafe, passed state was changed in server Passed state wasn''
                              @ [39] @ lit ''t returned from auth server''))]"

definition token_refused :: "js \<Rightarrow> js \<Rightarrow> err" where
  "token_refused name json =
     [(lit ''authId'', EStr name), (lit ''source'', EStr (lit ''auth'')), (lit ''level'', EStr (lit ''error'')),
      (lit ''message'', EStr json)]"

definition preAuthorizeImplicit :: "(err list \<Rightarrow> err list) \<Rightarrow> oauth_form \<Rightarrow> bool \<Rightarrow> js \<Rightarrow> bool \<Rightarrow> err_store \<Rightarrow> oauth_pending option \<times> bool \<times> err_store" where
  "preAuthorizeImplicit engine e token_error json isValid s =
     (let s1 = (if o_flow (f_schema e) = Some (lit ''accessCode'') \<or> isValid then s
                else err_reducer engine s (NEW_AUTH_ERR (unsafe_warning (f_name e))))
      in if token_error then (None, False, err_reducer engine s1 (NEW_AUTH_ERR (token_refused (f_name e) json)))
         else (None, True, s1))"

section \<open>The parameters as a server reads them\<close>

text \<open>
  The query of an address lies between its first question mark and the fragment, which a browser does not send. A server cuts
  it at the ampersands, each part at the first equals sign, and decodes what it gets, a plus sign as a space.
\<close>

definition form_decode :: "js \<Rightarrow> js option" where
  "form_decode s = decodeURIComponent (map (\<lambda>c. if c = 43 then 32 else c) s)"

definition read_param :: "js \<Rightarrow> (js \<times> js) option" where
  "read_param s =
     (case (form_decode (takeWhile (\<lambda>c. c \<noteq> 61) s), form_decode (drop 1 (dropWhile (\<lambda>c. c \<noteq> 61) s))) of
        (Some k, Some v) \<Rightarrow> Some (k, v)
      | _ \<Rightarrow> None)"

definition query_of :: "js \<Rightarrow> js" where
  "query_of u = drop 1 (dropWhile (\<lambda>c. c \<noteq> 63) (takeWhile (\<lambda>c. c \<noteq> 35) u))"

definition read_url :: "js \<Rightarrow> (js \<times> js) list option" where
  "read_url u = those (map read_param (js_split 38 (query_of u)))"

definition given :: "js \<Rightarrow> js option \<Rightarrow> (js \<times> js) list" where
  "given k v = (case v of None \<Rightarrow> [] | Some x \<Rightarrow> [(k, x)])"

definition extras :: "(js \<times> js option) list \<Rightarrow> (js \<times> js) list" where
  "extras g = concat (map (\<lambda>(k, v). given k v) g)"

definition oauth_params :: "js \<Rightarrow> js \<Rightarrow> oauth_configs \<Rightarrow> oauth_form \<Rightarrow> (js \<times> js) list" where
  "oauth_params st m g e =
     (if o_flow (f_schema e) = Some (lit ''accessCode'') then [(lit ''response_type'', lit ''code'')]
      else if o_flow (f_schema e) = Some (lit ''implicit'') then [(lit ''response_type'', lit ''token'')] else []) @
     given (lit ''client_id'') (map_of (f_fields e) (lit ''clientId'')) @ [(lit ''redirect_uri'', m)] @
     given (lit ''scope'') (scope_text g e) @ [(lit ''state'', st)] @ given (lit ''realm'') (g_realm g) @ extras (g_query g)"


section \<open>What the server reads\<close>

definition encodable :: "js \<Rightarrow> bool" where
  "encodable x \<longleftrightarrow> encodeURIComponent x \<noteq> None \<and> (\<forall>u \<in> set x. u < 65536)"

definition reads :: "js \<Rightarrow> js \<times> js \<Rightarrow> bool" where
  "reads p kv \<longleftrightarrow> read_param p = Some kv \<and> 38 \<notin> set p \<and> 35 \<notin> set p"

lemma form_decode_no_plus: "43 \<notin> set s \<Longrightarrow> form_decode s = decodeURIComponent s"
  unfolding form_decode_def by (rule arg_cong [where f = decodeURIComponent], rule map_idI) auto

lemma decode_plain: "37 \<notin> set s \<Longrightarrow> decodeURIComponent s = Some s"
  by (induction s) auto

text \<open>Without the signs that end a part or stand for something else.\<close>

definition bare :: "js \<Rightarrow> bool" where
  "bare s \<longleftrightarrow> 38 \<notin> set s \<and> 35 \<notin> set s \<and> 43 \<notin> set s"

lemma reads_pair:
  assumes "decodeURIComponent k' = Some k" "decodeURIComponent v' = Some v" "61 \<notin> set k'" "bare k'" "bare v'"
  shows "reads (k' @ 61 # v') (k, v)"
proof -
  have "takeWhile (\<lambda>c. c \<noteq> 61) (k' @ 61 # v') = k'" "dropWhile (\<lambda>c. c \<noteq> 61) (k' @ 61 # v') = 61 # v'"
    using assms(3) by (induction k') auto
  then show ?thesis using assms by (auto simp: reads_def read_param_def bare_def form_decode_no_plus)
qed

lemma encodable_read:
  assumes "encodable x"
  obtains t where "encodeURIComponent x = Some t" "decodeURIComponent t = Some x" "61 \<notin> set t" "bare t"
proof -
  obtain t where t: "encodeURIComponent x = Some t" "\<forall>u \<in> set x. u < 65536" using assms by (auto simp: encodable_def)
  have "c \<notin> set t" if "\<not> unreserved c" "c \<noteq> 37" for c using encodeURIComponent_chars [OF t] that by blast
  then have "61 \<notin> set t" "bare t" by (simp_all add: bare_def unreserved_def lit_def)
  then show ?thesis using that t encodeURIComponent_read_back [OF t] by blast
qed

definition plain_name :: "js \<Rightarrow> bool" where
  "plain_name k \<longleftrightarrow> 37 \<notin> set k \<and> 61 \<notin> set k \<and> bare k"

lemma param_of_reads:
  assumes "plain_name k" "\<forall>(a, b) \<in> set (given k v). encodable b"
  shows "\<exists>ps. param_of k v = Some ps \<and> list_all2 reads ps (given k v)"
proof (cases v)
  case (Some x)
  then have "encodable x" using assms(2) by (simp add: given_def)
  then obtain t where t: "encodeURIComponent x = Some t" "decodeURIComponent t = Some x" "61 \<notin> set t" "bare t"
    by (rule encodable_read)
  have "reads (k @ 61 # t) (k, x)" using assms(1) t by (intro reads_pair decode_plain) (simp_all add: plain_name_def)
  then show ?thesis using Some t(1) by (simp add: param_of_def given_def lit_def)
qed (simp add: param_of_def given_def)

lemma extra_params_reads:
  "\<forall>(a, b) \<in> set (extras g). encodable a \<and> encodable b \<Longrightarrow> \<exists>ps. extra_params g = Some ps \<and> list_all2 reads ps (extras g)"
proof (induction g rule: extra_params.induct)
  case (3 k v g)
  obtain k' where k: "encodeURIComponent k = Some k'" "decodeURIComponent k' = Some k" "61 \<notin> set k'" "bare k'"
    using encodable_read [of k] 3(2) by (auto simp: extras_def given_def)
  obtain v' where v: "encodeURIComponent v = Some v'" "decodeURIComponent v' = Some v" "61 \<notin> set v'" "bare v'"
    using encodable_read [of v] 3(2) by (auto simp: extras_def given_def)
  have r: "reads (k' @ 61 # v') (k, v)" using k v by (intro reads_pair) auto
  obtain ps where "extra_params g = Some ps" "list_all2 reads ps (extras g)"
    using 3(1) [OF refl k(1) v(1)] 3(2) by (auto simp: extras_def given_def)
  then show ?case using k(1) v(1) r by (simp add: extras_def given_def lit_def)
qed (simp_all add: extras_def given_def)

lemma those_reads: "list_all2 reads ps kvs \<Longrightarrow> those (map read_param ps) = Some kvs"
  by (induction rule: list_all2_induct) (simp_all add: reads_def)

lemma query_of_parts:
  assumes "63 \<notin> set base" "35 \<notin> set base" "35 \<notin> set q"
  shows "query_of (base @ 63 # q) = q"
proof -
  have "takeWhile (\<lambda>c. c \<noteq> 35) (base @ 63 # q) = base @ 63 # q" using assms(2,3) by (auto simp: takeWhile_eq_all_conv)
  moreover have "dropWhile (\<lambda>c. c \<noteq> 63) (base @ 63 # q) = 63 # q" using assms(1) by (induction base) auto
  ultimately show ?thesis by (simp only: query_of_def) simp
qed

lemma joined_chars: "c \<in> set (js_join s ps) \<Longrightarrow> c \<in> set s \<or> (\<exists>p \<in> set ps. c \<in> set p)"
  by (induction s ps rule: js_join.induct) auto

lemma read_url_parts:
  assumes "63 \<notin> set base" "35 \<notin> set base" "list_all2 reads ps kvs" "ps \<noteq> []"
  shows "read_url (js_join (lit ''?'') [base, js_join (lit ''&'') ps]) = Some kvs"
proof -
  have p: "38 \<notin> set p \<and> 35 \<notin> set p" if "p \<in> set ps" for p
    using that assms(3) by (auto simp: list_all2_conv_all_nth in_set_conv_nth reads_def)
  then have "js_split 38 (js_join [38] ps) = ps" using js_split_join [OF assms(4)] by blast
  moreover have "35 \<notin> set (js_join [38] ps)" using p joined_chars [of 35 "[38]" ps] by auto
  then have "query_of (base @ 63 # js_join [38] ps) = js_join [38] ps" by (rule query_of_parts [OF assms(1,2)])
  ultimately show ?thesis using those_reads [OF assms(3)] by (simp add: read_url_def lit_def)
qed

lemma response_type_reads:
  "list_all2 reads (response_type e)
     (if o_flow (f_schema e) = Some (lit ''accessCode'') then [(lit ''response_type'', lit ''code'')]
      else if o_flow (f_schema e) = Some (lit ''implicit'') then [(lit ''response_type'', lit ''token'')] else [])"
proof -
  have "reads (lit ''response_type'' @ 61 # lit ''code'') (lit ''response_type'', lit ''code'')"
    "reads (lit ''response_type'' @ 61 # lit ''token'') (lit ''response_type'', lit ''token'')"
    by (intro reads_pair decode_plain; simp add: lit_def bare_def)+
  then show ?thesis by (simp add: response_type_def lit_def)
qed

lemma later_params_reads:
  assumes "\<forall>(a, b) \<in> set ([(lit ''redirect_uri'', m)] @ given (lit ''scope'') (scope_text g e) @ [(lit ''state'', st)] @
      given (lit ''realm'') (g_realm g) @ extras (g_query g)). encodable a \<and> encodable b"
  shows "\<exists>ps. later_params st m g e = Some ps \<and> ps \<noteq> [] \<and>
    list_all2 reads ps ([(lit ''redirect_uri'', m)] @ given (lit ''scope'') (scope_text g e) @ [(lit ''state'', st)] @
      given (lit ''realm'') (g_realm g) @ extras (g_query g))"
proof -
  have n: "plain_name (lit ''redirect_uri'')" "plain_name (lit ''scope'')" "plain_name (lit ''state'')" "plain_name (lit ''realm'')"
    by (simp_all add: plain_name_def bare_def lit_def)
  obtain a where a: "param_of (lit ''redirect_uri'') (Some m) = Some a" "list_all2 reads a (given (lit ''redirect_uri'') (Some m))"
    using param_of_reads [OF n(1), of "Some m"] assms by (auto simp: given_def)
  obtain b where b: "param_of (lit ''scope'') (scope_text g e) = Some b" "list_all2 reads b (given (lit ''scope'') (scope_text g e))"
    using param_of_reads [OF n(2), of "scope_text g e"] assms by auto
  obtain c where c: "param_of (lit ''state'') (Some st) = Some c" "list_all2 reads c (given (lit ''state'') (Some st))"
    using param_of_reads [OF n(3), of "Some st"] assms by (auto simp: given_def)
  obtain d where d: "param_of (lit ''realm'') (g_realm g) = Some d" "list_all2 reads d (given (lit ''realm'') (g_realm g))"
    using param_of_reads [OF n(4), of "g_realm g"] assms by auto
  obtain x where x: "extra_params (g_query g) = Some x" "list_all2 reads x (extras (g_query g))"
    using extra_params_reads [of "g_query g"] assms by auto
  have one: "given k (Some v) = [(k, v)]" for k v by (simp add: given_def)
  have "list_all2 reads (a @ b @ c @ d @ x) (given (lit ''redirect_uri'') (Some m) @ given (lit ''scope'') (scope_text g e) @
      given (lit ''state'') (Some st) @ given (lit ''realm'') (g_realm g) @ extras (g_query g))"
    by (intro list_all2_appendI a(2) b(2) c(2) d(2) x(2))
  moreover have "later_params st m g e = Some (a @ b @ c @ d @ x)" by (simp add: later_params_def a(1) b(1) c(1) d(1) x(1))
  moreover have "a \<noteq> []" using a(2) by (auto simp: given_def)
  ultimately show ?thesis unfolding one by simp
qed

text \<open>C36: The form is set up for neither the password nor the application flow, the address for the redirection is configured, every
  text of the request can be encoded (it has no half of a surrogate pair), and the authorisation address of the scheme has
  no question mark and no fragment. Then the form opens a window whose address a server reads back as exactly the
  parameters of the request, in order and with their own texts, whatever characters they hold.
\<close>

theorem oauth_request_is_read_back:
  assumes "o_flow (f_schema e) \<notin> {Some (lit ''password''), Some (lit ''application'')}"
    and "o_url (f_schema e) = Some base" and "63 \<notin> set base" and "35 \<notin> set base"
    and "\<forall>(a, b) \<in> set (oauth_params (btoa date) m g e). encodable a \<and> encodable b"
  shows "\<exists>url w. oauth2_authorize btoa date (Some m) g e = OpenUrl url w \<and>
    read_url url = Some (oauth_params (btoa date) m g e) \<and> w_state w = btoa date \<and> w_redirect w = m"
proof -
  have n: "plain_name (lit ''client_id'')" by (simp add: plain_name_def bare_def lit_def)
  obtain c where c: "param_of (lit ''client_id'') (map_of (f_fields e) (lit ''clientId'')) = Some c"
    "list_all2 reads c (given (lit ''client_id'') (map_of (f_fields e) (lit ''clientId'')))"
    using param_of_reads [OF n, of "map_of (f_fields e) (lit ''clientId'')"] assms(5) by (auto simp: oauth_params_def)
  obtain d where d: "later_params (btoa date) m g e = Some d" "d \<noteq> []"
    "list_all2 reads d ([(lit ''redirect_uri'', m)] @ given (lit ''scope'') (scope_text g e) @ [(lit ''state'', btoa date)] @
      given (lit ''realm'') (g_realm g) @ extras (g_query g))"
    using later_params_reads [of m g e "btoa date"] assms(5) by (auto simp: oauth_params_def)
  have "list_all2 reads (response_type e @ c @ d) (oauth_params (btoa date) m g e)"
    unfolding oauth_params_def by (intro list_all2_appendI response_type_reads c(2) d(3))
  moreover have "response_type e @ c @ d \<noteq> []" using d(2) by simp
  ultimately have "read_url (js_join (lit ''?'') [base, js_join (lit ''&'') (response_type e @ c @ d)]) =
      Some (oauth_params (btoa date) m g e)"
    by (rule read_url_parts [OF assms(3,4)])
  then show ?thesis using assms(1,2) c(1) d(1) by (simp add: oauth2_authorize_def)
qed

theorem oauth_request_is_read_back_witness:
  "\<exists>url w. oauth2_authorize (\<lambda>s. s) (lit ''now'') (Some (lit ''a?b&c''))
       \<lparr>g_scopeSeparator = None, g_realm = None, g_query = [(lit ''x='', Some [55357, 56832]), (lit ''y'', None)]\<rparr>
       \<lparr>f_name = lit ''s'', f_schema = \<lparr>o_flow = Some (lit ''implicit''), o_url = Some (lit ''u'')\<rparr>, f_scopes = [lit ''r'', lit ''w''],
        f_fields = []\<rparr> = OpenUrl url w \<and>
     read_url url = Some [(lit ''response_type'', lit ''token''), (lit ''redirect_uri'', lit ''a?b&c''), (lit ''scope'', lit ''r w''),
                          (lit ''state'', lit ''now''), (lit ''x='', [55357, 56832])]"
proof -
  let ?g = "\<lparr>g_scopeSeparator = None, g_realm = None, g_query = [(lit ''x='', Some [55357, 56832]), (lit ''y'', None)]\<rparr>"
  let ?e = "\<lparr>f_name = lit ''s'', f_schema = \<lparr>o_flow = Some (lit ''implicit''), o_url = Some (lit ''u'')\<rparr>,
    f_scopes = [lit ''r'', lit ''w''], f_fields = []\<rparr>"
  have p: "oauth_params (lit ''now'') (lit ''a?b&c'') ?g ?e =
      [(lit ''response_type'', lit ''token''), (lit ''redirect_uri'', lit ''a?b&c''), (lit ''scope'', lit ''r w''),
       (lit ''state'', lit ''now''), (lit ''x='', [55357, 56832])]"
    by (simp add: oauth_params_def given_def extras_def scope_text_def lit_def)
  have enc: "encodable x" if "x \<in> {lit ''response_type'', lit ''token'', lit ''redirect_uri'', lit ''a?b&c'', lit ''scope'', lit ''r w'',
      lit ''state'', lit ''now'', lit ''x='', [55357, 56832]}" for x
    using that by (elim insertE) (simp_all add: encodable_def encodeURIComponent_def unreserved_def is_surrogate_def lit_def and_masks and_high)
  show ?thesis
    using oauth_request_is_read_back [of ?e "lit ''u''" "\<lambda>s. s" "lit ''now''" "lit ''a?b&c''" ?g] enc
    unfolding p by (auto simp: lit_def)
qed


text \<open>
  An authorisation address that has a query of its own gets a second question mark: the first parameter of the request
  becomes part of the last value of the former query.
\<close>

lemma query_of_the_address_is_spoiled:
  assumes "63 \<notin> set b" "35 \<notin> set b" "bare v" "37 \<notin> set v" "plain_name k" "list_all2 reads ps kvs" "ps \<noteq> []"
  shows "read_url (js_join (lit ''?'') [b @ 63 # k @ 61 # v, js_join (lit ''&'') (lit ''response_type=token'' # ps)]) =
    Some ((k, v @ lit ''?response_type=token'') # kvs)"
proof -
  let ?p = "k @ 61 # v @ lit ''?response_type=token''"
  have "reads ?p (k, v @ lit ''?response_type=token'')"
    using assms by (intro reads_pair decode_plain) (auto simp: plain_name_def bare_def lit_def)
  then have "list_all2 reads (?p # ps) ((k, v @ lit ''?response_type=token'') # kvs)" using assms(6) by simp
  from read_url_parts [OF assms(1,2) this] assms(7) show ?thesis by (cases ps) (simp_all add: lit_def)
qed

text \<open>An address with a fragment takes the whole request into the fragment, and the server gets none of it.\<close>

lemma fragment_takes_request:
  assumes "63 \<notin> set base" "35 \<in> set base"
  shows "read_url (js_join (lit ''?'') [base, q]) = Some [([], [])]"
proof -
  have "takeWhile (\<lambda>c. c \<noteq> 35) (base @ 63 # q) = takeWhile (\<lambda>c. c \<noteq> 35) base"
    using assms(2) by (intro takeWhile_append1) auto
  moreover have "63 \<notin> set (takeWhile (\<lambda>c. c \<noteq> 35) base)" using assms(1) set_takeWhileD by fastforce
  then have "dropWhile (\<lambda>c. c \<noteq> 63) (takeWhile (\<lambda>c. c \<noteq> 35) base) = []" by (auto simp: dropWhile_eq_Nil_conv)
  ultimately have "query_of (base @ 63 # q) = []" by (simp only: query_of_def drop_Nil)
  then show ?thesis by (simp add: read_url_def read_param_def form_decode_def lit_def)
qed

section \<open>Scopes\<close>

lemma js_index_from_range: "js_index_from k xs c = -1 \<or> js_index_from k xs c \<ge> int k"
proof (induction xs arbitrary: k)
  case (Cons x xs)
  then show ?case using Cons.IH [of "Suc k"] by auto
qed simp

lemma onScopeChange_scopes:
  "distinct (f_scopes e) \<Longrightarrow> distinct (f_scopes (onScopeChange c v e))"
  "set (f_scopes (onScopeChange c v e)) = (if c then insert v (set (f_scopes e)) else set (f_scopes e) - {v})"
  using js_indexOf_absent [of "f_scopes e" v] js_index_from_range [of 0 "f_scopes e" v]
  by (auto simp: onScopeChange_def js_indexOf_def)

section \<open>Errors that stay\<close>

lemma press_store:
  "snd (oauth_press engine win btoa date redirect g e s) = err_reducer engine s (CLEAR (auth_errors win)) \<or>
   (\<exists>n. snd (oauth_press engine win btoa date redirect g e s) =
        err_reducer engine (err_reducer engine s (CLEAR (auth_errors win))) (NEW_AUTH_ERR n))"
  by (auto simp: oauth_press_def Let_def split: oauth_effect.splits)

lemma press_keeps:
  assumes "x \<in> set (allErrors s)" "map_of x (lit ''authId'') = Some (EStr name)" "name \<noteq> win"
  shows "\<exists>y \<in> set (allErrors (snd (oauth_press engine win btoa date redirect g e s))). same_but_message x y"
proof -
  let ?s1 = "err_reducer engine s (CLEAR (auth_errors win))"
  have "\<not> is_match x (auth_errors win)" using assms(2,3) by (simp add: auth_errors_def)
  then have m: "x \<in> set (allErrors ?s1)" using assms(1) by (simp add: err_reducer_def)
  have "\<exists>y \<in> set (allErrors (err_reducer engine ?s1 (NEW_AUTH_ERR n))). same_but_message x y" for n
  proof -
    let ?l = "allErrors ?s1 @ [aset (lit ''type'') (EStr (lit ''auth'')) (object_assign [] n)]"
    have "\<exists>y \<in> set (transformErrors ?l). same_but_message x y" using m by (intro transformErrors_keeps) simp
    then show ?thesis by (subst err_reducer_def) (simp only: err_action.case allErrors_simps)
  qed
  moreover have "\<exists>y \<in> set (allErrors ?s1). same_but_message x y" using m same_but_message_refl by blast
  ultimately show ?thesis using press_store [of engine win btoa date redirect g e s] by (elim disjE exE) (simp_all only:)
qed

definition presses :: "(err list \<Rightarrow> err list) \<Rightarrow> js \<Rightarrow> (js \<Rightarrow> js) \<Rightarrow> js option \<Rightarrow> oauth_configs \<Rightarrow> oauth_form \<Rightarrow> js list \<Rightarrow> err_store \<Rightarrow> err_store" where
  "presses engine win btoa redirect g e dates s =
     fold (\<lambda>date s. snd (oauth_press engine win btoa date redirect g e s)) dates s"

lemma presses_keep:
  assumes "x \<in> set (allErrors s)" "map_of x (lit ''authId'') = Some (EStr name)" "name \<noteq> win"
  shows "\<exists>y \<in> set (allErrors (presses engine win btoa redirect g e dates s)). same_but_message x y"
  using assms(1,2)
proof (induction dates arbitrary: s x)
  case Nil
  then show ?case by (auto simp: presses_def intro: bexI [of _ x])
next
  case (Cons d dates)
  obtain y where y: "y \<in> set (allErrors (snd (oauth_press engine win btoa d redirect g e s)))" "same_but_message x y"
    using press_keeps [OF Cons.prems assms(3)] by blast
  have "map_of y (lit ''authId'') = Some (EStr name)" using y(2) Cons.prems(2) by (simp add: same_but_message_def lit_def)
  from Cons.IH [OF y(1) this] y(2) show ?case unfolding presses_def by (auto intro: same_but_message_trans)
qed

text \<open>C37: A refused token leaves an error of the scheme on the page, and pressing the button again, however often, does not take
  it away, whatever comes of it, as long as the window's name is another than the scheme's; a logout takes all such errors away.
\<close>

theorem refused_tokens_stay_shown:
  assumes "f_name e \<noteq> win"
  shows "(\<exists>y \<in> set (allErrors (presses engine win btoa redirect g e dates
                 (snd (snd (preAuthorizeImplicit engine e True json valid s))))).
            is_match y (auth_errors (f_name e)) \<and> map_of y (lit ''level'') = Some (EStr (lit ''error''))) \<and>
         (\<forall>y \<in> set (allErrors (snd (oauth_logout engine e s'))). \<not> is_match y (auth_errors (f_name e)))"
proof -
  define s1 where "s1 = (if o_flow (f_schema e) = Some (lit ''accessCode'') \<or> valid then s
                else err_reducer engine s (NEW_AUTH_ERR (unsafe_warning (f_name e))))"
  define x where "x = aset (lit ''type'') (EStr (lit ''auth'')) (object_assign [] (token_refused (f_name e) json))"
  have x: "map_of x (lit ''authId'') = Some (EStr (f_name e))" "map_of x (lit ''source'') = Some (EStr (lit ''auth''))"
    "map_of x (lit ''level'') = Some (EStr (lit ''error''))" "map_of x (lit ''type'') = Some (EStr (lit ''auth''))"
    by (simp_all add: x_def object_assign_def token_refused_def lit_def)
  have st: "snd (snd (preAuthorizeImplicit engine e True json valid s)) =
      err_reducer engine s1 (NEW_AUTH_ERR (token_refused (f_name e) json))"
    by (simp add: preAuthorizeImplicit_def s1_def Let_def)
  have "same_but_message x (last (transformErrors (allErrors s1 @ [x])))" "transformErrors (allErrors s1 @ [x]) \<noteq> []"
    by (rule transformErrors_last)+
  then obtain z where z: "z \<in> set (transformErrors (allErrors s1 @ [x]))" "same_but_message x z" by (metis last_in_set)
  then have z1: "z \<in> set (allErrors (snd (snd (preAuthorizeImplicit engine e True json valid s))))"
    unfolding st by (simp add: err_reducer_def x_def)
  have zn: "map_of z (lit ''authId'') = Some (EStr (f_name e))" using z(2) x(1) by (simp add: same_but_message_def lit_def)
  obtain y where y: "y \<in> set (allErrors (presses engine win btoa redirect g e dates
                 (snd (snd (preAuthorizeImplicit engine e True json valid s)))))" "same_but_message z y"
    using presses_keep [OF z1 zn assms] by blast
  have ne: "lit ''authId'' \<noteq> lit ''message''" "lit ''source'' \<noteq> lit ''message''" by (simp_all add: lit_def)
  have k: "map_of y k = map_of x k" if "k \<noteq> lit ''message''" for k
    using same_but_message_trans [OF z(2) y(2)] that by (simp add: same_but_message_def)
  have "is_match y (auth_errors (f_name e))" "map_of y (lit ''level'') = Some (EStr (lit ''error''))"
    using k [of "lit ''authId''"] k [of "lit ''type''"] k [of "lit ''source''"] k [of "lit ''level''"] ne x
    by (simp_all add: auth_errors_def)
  then show ?thesis using y(1) by (auto simp: oauth_logout_def err_reducer_def)
qed

theorem refused_tokens_stay_shown_witness:
  "\<exists>y \<in> set (allErrors (presses (\<lambda>x. x) [] (\<lambda>x. x) None \<lparr>g_scopeSeparator = None, g_realm = None, g_query = []\<rparr>
       \<lparr>f_name = lit ''s'', f_schema = \<lparr>o_flow = None, o_url = None\<rparr>, f_scopes = [], f_fields = []\<rparr> [[], []]
       (snd (snd (preAuthorizeImplicit (\<lambda>x. x)
          \<lparr>f_name = lit ''s'', f_schema = \<lparr>o_flow = None, o_url = None\<rparr>, f_scopes = [], f_fields = []\<rparr> True [] False new_err_store))))).
     is_match y (auth_errors (lit ''s''))"
  using refused_tokens_stay_shown [of "\<lparr>f_name = lit ''s'', f_schema = \<lparr>o_flow = None, o_url = None\<rparr>, f_scopes = [], f_fields = []\<rparr>" "[]"
      "\<lambda>x. x" "\<lambda>x. x" None "\<lparr>g_scopeSeparator = None, g_realm = None, g_query = []\<rparr>" "[[], []]" "[]" False new_err_store]
  by (auto simp: lit_def)

end
