(* ===== verification/Spec2Isabelle.thy ===== *)
theory Spec2Isabelle
  imports Jobs Administration Script_State Script_Auth Script_Forms Script_Scanner Script_Precedence
    Script_Base64 Script_Yaml_Refs Script_Codecs Script_Strings Script_Numbers Script_Decoder
    Script_Url Script_Collections Script_Lru Script_Style Script_Frames Script_Markdown
    Script_Modules Script_Generators Script_Extend Script_Children Script_Markup Script_Yaml_Reader
    Script_Yaml_Scalars Script_Yaml_Blocks Script_Yaml_Graphs Script_Versions Script_Split_Pane
    Script_Errors Script_Uri Script_Oauth
begin

text \<open>
  A verification development for the VISA API server: the Java server that lets users of a research
  facility create virtual machines in a cloud and connect to them, and the scripts of the Swagger user
  interface that the server delivers with it.

  \<^bold>\<open>The server\<close> (modules visa-core, visa-persistence, visa-cloud, visa-business, visa-scheduler, visa-web).
  Requests and scheduled jobs call the services of visa-business; these read and write entities of visa-core
  through the repositories of visa-persistence and act on virtual machines through the cloud clients of
  visa-cloud. An action on an instance is a command: InstanceActionManager queues it, one queue for each
  instance, and a pool of threads runs it. Jobs refresh the states of the instances, end what has expired and
  remove what the cloud no longer knows.

  \<^item> \<^verbatim>\<open>Visa_Prelude\<close>: types, collections of theorems and facts on lists that all theories share. A \<^verbatim>\<open>Date\<close> is its
    number of milliseconds, a reference that may be null an option, an exception a value of the type \<^verbatim>\<open>exn\<close>.
  \<^item> \<^verbatim>\<open>Users\<close>, \<^verbatim>\<open>Catalogue\<close>, \<^verbatim>\<open>Instances\<close>: the entity classes of visa-core as records, their methods as functions.
    The lemmas show that roles and members keep their well-formedness and what each change makes visible.
  \<^item> \<^verbatim>\<open>Store\<close>, \<^verbatim>\<open>Database\<close>, \<^verbatim>\<open>Repositories\<close>: tables, the saving of entities with the listener that stamps them, and the
    named queries. What every entity table promises is the locale \<^verbatim>\<open>entity\<close>, interpreted for each table.
  \<^item> \<^verbatim>\<open>Cloud\<close>: states and converters, the interface of a provider, clients, factory and gateway. A provider is a
    record of functions on the cloud's own state, an argument of all that uses it.
  \<^item> \<^verbatim>\<open>Instance_Service\<close>, \<^verbatim>\<open>Sessions\<close>, \<^verbatim>\<open>Security_Groups\<close>: creation of instances and who may act on them; desktop
    sessions and notebooks; the names of the security groups of an instance.
  \<^item> \<^verbatim>\<open>Actions\<close>: the seven actions behind the commands, with PortService.
  \<^item> \<^verbatim>\<open>Command_Queue\<close>: the action manager with futures, shared command objects and the pool, as a step relation with
    its reachable states; each of its steps is a step of one list of command types for each instance.
  \<^item> \<^verbatim>\<open>Expirations\<close>: expirations for inactivity and lifetime, extensions, deletion of what has expired, the job.
  \<^item> \<^verbatim>\<open>Account_Controller\<close>: the requests of AccountInstanceController by which users create, change, share and delete
    instances, with their checks, and InstanceDeleteJob. The lemmas show what strangers can and cannot change, what
    an allowed action records, that quotas are kept, and which requests leave an instance unusable.
  \<^item> \<^verbatim>\<open>Jobs\<close>: the other jobs of the scheduler: refreshing states, running pending commands, updating security groups,
    removing servers that no instance knows, old tokens and old activities. The lemmas show what each one changes.
  \<^item> \<^verbatim>\<open>Plans\<close>: the catalogue that administrators maintain, with the queries that say which plans a user is offered, each an
    outer join written out; \<^verbatim>\<open>Administration\<close>: the mutations for roles, users, filters of security groups and instances.
    The lemmas show who is offered which plan, when one plan at most is preset and which change breaks this, and what an
    update of a flavour's limits or of a user changes.
  \<^item> \<^verbatim>\<open>Samples\<close>: a small concrete server, at which properties are applied.

  The clock is an argument of every operation that reads it. A method that runs in a transaction gives back the
  former database when it throws (\<^verbatim>\<open>transactional\<close> in \<^verbatim>\<open>Visa_Prelude\<close>). The one loop of the server without a bound,
  which draws identifiers until one is unused, is a \<^theory_text>\<open>partial_function (option)\<close>.

  \<^bold>\<open>The scripts\<close> (src/visa-web/src/main/resources/swagger-static). They are bundled and minified: one line of a file
  holds many functions of several libraries, some of which occur in more than one of the three files. A definition
  models the function it names and nothing else of its line; the name is that of the library's source where the
  bundle keeps only a letter. A string is the list of its UTF-16 code units, a number that is combined bit by bit a
  32-bit word, an object or array that is shared an address in a store, an exception \<^const>\<open>None\<close> or an error value.
  What the browser or a package outside the files provides is an argument.

  \<^item> \<^verbatim>\<open>Script_Prelude\<close>: strings, \<^verbatim>\<open>indexOf\<close>, \<^verbatim>\<open>split\<close>,
    \<^verbatim>\<open>join\<close> and \<^verbatim>\<open>replace\<close>.
  \<^item> \<^verbatim>\<open>Script_State\<close>, \<^verbatim>\<open>Script_Auth\<close>: paths in nested immutable maps, the layout plugin, the
    authorisation plugin (immutable, swagger-ui).
  \<^item> \<^verbatim>\<open>Script_Forms\<close>: checks of parameters, model names, titles, status codes, edits of array parameters (swagger-ui).
  \<^item> \<^verbatim>\<open>Script_Scanner\<close>, \<^verbatim>\<open>Script_Precedence\<close>: comments, lines, punctuators and words; binary
    expressions by precedence (esprima).
  \<^item> \<^verbatim>\<open>Script_Base64\<close>, \<^verbatim>\<open>Script_Yaml_Refs\<close>: binary scalars; the search for shared objects (js-
    yaml).
  \<^item> \<^verbatim>\<open>Script_Codecs\<close>, \<^verbatim>\<open>Script_Strings\<close>, \<^verbatim>\<open>Script_Numbers\<close>,
    \<^verbatim>\<open>Script_Decoder\<close>, \<^verbatim>\<open>Script_Url\<close>: code points, escapes and the iterator of strings; integers in
    buffers, checksums, digits of \<^verbatim>\<open>toFixed\<close>; the streaming UTF-16 decoder; path resolution (punycode, buffer, url, react,
    core-js).
  \<^item> \<^verbatim>\<open>Script_Collections\<close>, \<^verbatim>\<open>Script_Lru\<close>: loops of array methods and of lodash; the queue of
    least recent use (lru-queue).
  \<^item> \<^verbatim>\<open>Script_Style\<close>, \<^verbatim>\<open>Script_Frames\<close>, \<^verbatim>\<open>Script_Markdown\<close>: the counting
    style loader; animation frames; rule chains, tabs and delimiters (style-loader, raf, remarkable).
  \<^item> \<^verbatim>\<open>Script_Modules\<close>, \<^verbatim>\<open>Script_Generators\<close>: \<^verbatim>\<open>require\<close> with its cache
    of modules; try entries and completions of generator functions (webpack, regenerator).
  \<^item> \<^verbatim>\<open>Script_Extend\<close>: one object extended by others in depth, up to the point where a run reaches a prototype or an
    instance (deep-extend).
  \<^item> \<^verbatim>\<open>Script_Children\<close>, \<^verbatim>\<open>Script_Markup\<close>: reconciliation of child components with the nodes of
    the page; text made safe for markup, the text typed in a composition (react).
  \<^item> \<^verbatim>\<open>Script_Yaml_Reader\<close>, \<^verbatim>\<open>Script_Yaml_Scalars\<close>,
    \<^verbatim>\<open>Script_Yaml_Blocks\<close>: the readers of plain, quoted and block scalars; how a string is written, and when it is read back,
    as a string and as nothing else (js-yaml).
  \<^item> \<^verbatim>\<open>Script_Yaml_Graphs\<close>: events, anchors and aliases of a graph of nodes, from nodes to events and back (yaml-js).
  \<^item> \<^verbatim>\<open>Script_Versions\<close>, \<^verbatim>\<open>Script_Split_Pane\<close>: the order of version numbers; the divider of a
    split pane, dragged by the mouse (bowser, react-split-pane).
  \<^item> \<^verbatim>\<open>Script_Errors\<close>, \<^verbatim>\<open>Script_Uri\<close>, \<^verbatim>\<open>Script_Oauth\<close>: the errors shown
    on the page; texts in addresses; the request, the callback and the errors of a sign-in with OAuth 2 (swagger-ui).

  Loops are structural recursions or recursions with a measure. Searches of the code that end only under an
  invariant (\<^verbatim>\<open>next_used\<close> of \<^verbatim>\<open>Script_Lru\<close>, \<^verbatim>\<open>binary_loop\<close> of \<^verbatim>\<open>Script_Precedence\<close>) are \<^theory_text>\<open>partial_function (option)\<close>, and the
  properties state that they return. \<^verbatim>\<open>Script_Yaml_Refs\<close>, \<^verbatim>\<open>Script_Modules\<close> and \<^verbatim>\<open>Script_Yaml_Graphs\<close> have fuel; more than
  the number of objects, modules, or nodes and events, is enough, and this too is part of the properties.

  \<^bold>\<open>Not modelled.\<close> The listings of the GraphQL layer and its mutations for groups, clouds, notifications and credentials, the REST
  requests other than those for plans and for the instances of an account, the data transfer objects, the configuration and wiring of
  the server, mail, the remote desktop proxy, database migrations and shell scripts; filtered and paginated queries;
  the HTTP requests of the cloud providers, which are arguments. Of the scripts: rendering of components, events of
  the browser, and most functions of the libraries; arithmetic on floating point numbers beyond comparison.
\<close>

end
